(* ===== verification/LC_Prelude.thy ===== *)
theory LC_Prelude
  imports Main "HOL-Library.Char_ord" "HOL-Library.List_Lexorder"
    "HOL-Library.Monad_Syntax" "HOL-Library.Sublist" "HOL-Library.Code_Target_Nat"
begin

text \<open>
  Shared vocabulary of the development.

  \<^item> The abort monad: an operation that may fail an \<^verbatim>\<open>assert\<close> or reach a
    \<^verbatim>\<open>PANIC\<close> returns an \<open>option\<close>, and \<open>None\<close> means that the process has aborted.
    The \<open>do\<close> notation of \<^verbatim>\<open>HOL-Library.Monad_Syntax\<close> sequences such operations.
  \<^item> Ordered maps: \<^verbatim>\<open>std::map<K, V>\<close> is an association list in strictly ascending key
    order; the operations are those the code calls (\<^verbatim>\<open>find\<close>, \<^verbatim>\<open>operator[]\<close>,
    \<^verbatim>\<open>insert\<close>, \<^verbatim>\<open>erase\<close>, \<^verbatim>\<open>upper_bound\<close>, \<^verbatim>\<open>rbegin\<close>).
  \<^item> Generic lemmas on lists and options used by several components.
\<close>

named_theorems om_simps "facts about ordered maps"
named_theorems frame_simps "which fields an operation leaves alone"

section \<open>The abort monad\<close>

text \<open>\<^verbatim>\<open>assert(b)\<close>: continue when the condition holds, abort otherwise.\<close>

definition require :: "bool \<Rightarrow> unit option" where
  "require b = (if b then Some () else None)"

lemma require_bind [simp]: "(require b \<bind> f) = (if b then f () else None)"
  by (simp add: require_def)

lemma require_eq_Some [simp]: "require b = Some u \<longleftrightarrow> b"
  by (simp add: require_def)

lemma bind_SomeD:
  "Option.bind m f = Some y \<Longrightarrow> \<exists>x. m = Some x \<and> f x = Some y"
  by (cases m) auto

lemma bind_SomeE:
  assumes "Option.bind m f = Some y"
  obtains x where "m = Some x" "f x = Some y"
  using assms by (cases m) auto

section \<open>Fixed-width arithmetic\<close>

text \<open>
  \<^verbatim>\<open>uint64_t\<close> values are natural numbers below \<open>2 ^ 64\<close>; where the source can wrap around, the
  wrap-around is written out with the functions below. Times and durations are signed 64-bit
  nanosecond counts, kept as integers between \<open>timeMin\<close> and \<open>timeMax\<close>.
\<close>

definition u64 :: "nat \<Rightarrow> nat" where
  "u64 n = n mod 2 ^ 64"

definition u64_sub :: "nat \<Rightarrow> nat \<Rightarrow> nat" where
  "u64_sub a b = (a + 2 ^ 64 - b) mod 2 ^ 64"

definition u64_max :: nat where
  "u64_max = 2 ^ 64 - 1"

definition i64 :: "int \<Rightarrow> int" where
  "i64 x = (x + 2 ^ 63) mod 2 ^ 64 - 2 ^ 63"

definition timeMin :: int where
  "timeMin = - (2 ^ 63)"

definition timeMax :: int where
  "timeMax = 2 ^ 63 - 1"

lemma u64_id [simp]: "n < 2 ^ 64 \<Longrightarrow> u64 n = n"
  by (simp add: u64_def)

lemma u64_less [simp]: "u64 n < 2 ^ 64"
  by (simp add: u64_def)

lemma u64_sub_less [simp]: "u64_sub a b < 2 ^ 64"
  by (simp add: u64_sub_def)

lemma u64_sub_exact: "b \<le> a \<Longrightarrow> a < 2 ^ 64 \<Longrightarrow> u64_sub a b = a - b"
proof -
  assume "b \<le> a" "a < 2 ^ 64"
  then have "a + 2 ^ 64 - b = (a - b) + 2 ^ 64" "a - b < 2 ^ 64" by simp_all
  then show ?thesis by (simp only: u64_sub_def mod_add_self2 mod_less)
qed

lemma i64_id: "timeMin \<le> x \<Longrightarrow> x \<le> timeMax \<Longrightarrow> i64 x = x"
  by (simp add: i64_def timeMin_def timeMax_def)

lemma i64_over: "timeMax < x \<Longrightarrow> x \<le> 2 * timeMax \<Longrightarrow> i64 x = x - 2 ^ 64"
proof -
  assume a: "timeMax < x" "x \<le> 2 * timeMax"
  then have "(x + 2 ^ 63) mod 2 ^ 64 = (x + 2 ^ 63 - 2 ^ 64) mod 2 ^ 64"
    by (metis minus_mod_self2)
  also have "\<dots> = x + 2 ^ 63 - 2 ^ 64"
    using a by (intro mod_pos_pos_trivial) (simp_all add: timeMax_def)
  finally show ?thesis by (simp add: i64_def)
qed

section \<open>Ordered maps\<close>

type_synonym ('k, 'v) omap = "('k \<times> 'v) list"

definition om_wf :: "('k::linorder, 'v) omap \<Rightarrow> bool" where
  "om_wf m \<longleftrightarrow> sorted_wrt (<) (map fst m)"

text \<open>\<^verbatim>\<open>m[k] = v\<close>\<close>

definition om_set :: "'k::linorder \<Rightarrow> 'v \<Rightarrow> ('k, 'v) omap \<Rightarrow> ('k, 'v) omap" where
  "om_set k v m = filter (\<lambda>e. fst e < k) m @ (k, v) # filter (\<lambda>e. k < fst e) m"

text \<open>\<^verbatim>\<open>m.insert({k, v})\<close>, which keeps the entry that is already there\<close>

definition om_insert :: "'k::linorder \<Rightarrow> 'v \<Rightarrow> ('k, 'v) omap \<Rightarrow> ('k, 'v) omap" where
  "om_insert k v m = (case map_of m k of None \<Rightarrow> om_set k v m | Some _ \<Rightarrow> m)"

text \<open>\<^verbatim>\<open>m.erase(k)\<close>\<close>

definition om_erase :: "'k::linorder \<Rightarrow> ('k, 'v) omap \<Rightarrow> ('k, 'v) omap" where
  "om_erase k m = filter (\<lambda>e. fst e \<noteq> k) m"

text \<open>The entry just before \<^verbatim>\<open>m.upper_bound(k)\<close>: the one with the largest key not above
  \<open>k\<close>, if there is one.\<close>

definition om_floor :: "'k::linorder \<Rightarrow> ('k, 'v) omap \<Rightarrow> ('k \<times> 'v) option" where
  "om_floor k m = (let below = filter (\<lambda>e. fst e \<le> k) m
                   in if below = [] then None else Some (last below))"

lemma om_wf_Nil [simp, intro]: "om_wf []"
  by (simp add: om_wf_def)

lemma om_wf_Cons: "om_wf ((k, v) # m) \<longleftrightarrow> (\<forall>k' \<in> fst ` set m. k < k') \<and> om_wf m"
  by (auto simp: om_wf_def)

lemma om_wf_distinct: "om_wf m \<Longrightarrow> distinct (map fst m)"
  unfolding om_wf_def by (induction m) auto

lemma om_wf_filter: "om_wf m \<Longrightarrow> om_wf (filter P m)"
  unfolding om_wf_def by (induction m) auto

lemma map_of_filter_less:
  "map_of (filter (\<lambda>e. fst e < a) m) k = (if k < (a::'k::linorder) then map_of m k else None)"
  by (induction m) auto

lemma map_of_filter_greater:
  "map_of (filter (\<lambda>e. a < fst e) m) k = (if (a::'k::linorder) < k then map_of m k else None)"
  by (induction m) auto

lemma map_of_filter_le:
  "map_of (filter (\<lambda>e. fst e \<le> a) m) k = (if k \<le> (a::'k::linorder) then map_of m k else None)"
  by (induction m) auto

lemma map_of_filter_ge:
  "map_of (filter (\<lambda>e. a \<le> fst e) m) k = (if (a::'k::linorder) \<le> k then map_of m k else None)"
  by (induction m) auto

lemma map_of_filter_neq:
  "map_of (filter (\<lambda>e. fst e \<noteq> a) m) k = (if k \<noteq> a then map_of m k else None)"
  by (induction m) auto

lemmas map_of_filters [om_simps] =
  map_of_filter_less map_of_filter_greater map_of_filter_le map_of_filter_ge map_of_filter_neq

lemma om_wf_set: "om_wf m \<Longrightarrow> om_wf (om_set k v m)"
  unfolding om_set_def om_wf_def
  by (auto simp: sorted_wrt_append sorted_wrt_map intro: sorted_wrt_filter dest: less_trans)

lemma map_of_om_set [om_simps]: "map_of (om_set k v m) = (map_of m)(k \<mapsto> v)"
proof
  fix x
  have "map_of (om_set k v m) x =
    (map_of (filter (\<lambda>e. k < fst e) m) ++ [k \<mapsto> v] ++ map_of (filter (\<lambda>e. fst e < k) m)) x"
    by (simp add: om_set_def map_add_def split: option.split)
  also have "\<dots> = ((map_of m)(k \<mapsto> v)) x"
    by (auto simp: map_add_def map_of_filters split: option.split)
  finally show "map_of (om_set k v m) x = ((map_of m)(k \<mapsto> v)) x" .
qed

lemma keys_om_set: "fst ` set (om_set k v m) = insert k (fst ` set m)"
proof -
  have "dom (map_of (om_set k v m)) = insert k (dom (map_of m))"
    by (simp add: map_of_om_set)
  then show ?thesis by (simp add: dom_map_of_conv_image_fst)
qed

lemma set_om_set: "set (om_set k v m) \<subseteq> insert (k, v) (set m)"
  by (auto simp: om_set_def)

lemma om_set_om_set [simp]: "om_set k v (om_set k w m) = om_set k v m"
proof -
  have "filter (\<lambda>e. fst e < k) (filter (\<lambda>e. k < fst e) m) = []"
    "filter (\<lambda>e. k < fst e) (filter (\<lambda>e. fst e < k) m) = []"
    by (auto simp: filter_empty_conv dest: less_asym)
  then show ?thesis by (simp add: om_set_def del: filter_filter)
qed

lemma om_wf_erase: "om_wf m \<Longrightarrow> om_wf (om_erase k m)"
  by (simp add: om_erase_def om_wf_filter)

lemma map_of_om_erase [om_simps]: "map_of (om_erase k m) = (map_of m)(k := None)"
  by (rule ext) (simp add: om_erase_def map_of_filters)

lemma map_of_filter_om:
  "om_wf m \<Longrightarrow> map_of (filter P m) k = Some v \<longleftrightarrow> map_of m k = Some v \<and> P (k, v)"
  using om_wf_distinct [of m] om_wf_distinct [OF om_wf_filter, of m P] by auto

lemma om_wf_insert: "om_wf m \<Longrightarrow> om_wf (om_insert k v m)"
  by (simp add: om_insert_def om_wf_set split: option.split)

lemma map_of_om_insert [om_simps]:
  "map_of (om_insert k v m) = (case map_of m k of None \<Rightarrow> (map_of m)(k \<mapsto> v) | Some _ \<Rightarrow> map_of m)"
  by (simp add: om_insert_def map_of_om_set split: option.split)

lemma om_wf_unique:
  "om_wf m \<Longrightarrow> om_wf m' \<Longrightarrow> map_of m = map_of m' \<Longrightarrow> m = m'"
proof (induction m arbitrary: m')
  case Nil
  then have "map_of m' = Map.empty" by simp
  then show ?case by (cases m') (auto simp: fun_eq_iff split: if_splits)
next
  case (Cons e m)
  obtain k v where e: "e = (k, v)" by fastforce
  have "map_of m' k = Some v" 
    using fun_cong [OF Cons.prems(3), of k] e by simp
  then obtain e' m'' where m': "m' = e' # m''" by (cases m') auto
  obtain k' v' where e': "e' = (k', v')" by fastforce
  have less: "\<forall>x \<in> fst ` set m. k < x" "\<forall>x \<in> fst ` set m''. k' < x"
    using Cons.prems(1,2) by (auto simp: e m' e' om_wf_Cons)
  have "insert k (fst ` set m) = insert k' (fst ` set m'')"
    using arg_cong [OF Cons.prems(3), of dom]
    unfolding dom_map_of_conv_image_fst by (simp add: e m' e')
  then have kk: "k = k'" using less by (metis insertE insertI1 less_asym)
  have vv: "v = v'" using \<open>map_of m' k = Some v\<close> by (simp add: m' e' kk)
  have "map_of m k = None" "map_of m'' k = None"
    using less kk by (auto simp: map_of_eq_None_iff)
  then have "map_of m = map_of m''"
    using Cons.prems(3) by (auto simp: e m' e' kk vv fun_eq_iff split: if_splits) metis
  moreover have "om_wf m" "om_wf m''"
    using Cons.prems(1,2) by (simp_all add: e m' e' om_wf_Cons)
  ultimately have "m = m''" using Cons.IH by blast
  then show ?case by (simp add: e m' e' kk vv)
qed

lemma om_set_append:
  "(\<forall>x \<in> fst ` set m. x < k) \<Longrightarrow> om_set k v m = m @ [(k, v)]"
  unfolding om_set_def
  by (induction m) (auto dest: less_asym)

text \<open>Inserting the entries of an ordered map one after the other rebuilds it.\<close>

lemma foldl_om_insert:
  "om_wf (acc @ xs) \<Longrightarrow> foldl (\<lambda>m u. om_insert (fst u) (snd u) m) acc xs = acc @ xs"
proof (induction xs arbitrary: acc)
  case (Cons x xs)
  have lt: "\<forall>k \<in> fst ` set acc. k < fst x"
    using Cons.prems by (auto simp: om_wf_def sorted_wrt_append)
  then have "map_of acc (fst x) = None" by (auto simp: map_of_eq_None_iff)
  then have "om_insert (fst x) (snd x) acc = acc @ [x]"
    using lt by (simp add: om_insert_def om_set_append)
  then show ?case using Cons.IH [of "acc @ [x]"] Cons.prems by simp
qed simp

lemma om_floor_None: "om_floor k m = None \<longleftrightarrow> (\<forall>x \<in> fst ` set m. k < x)"
  by (auto simp: om_floor_def Let_def filter_empty_conv not_le)

lemma sorted_last_max:
  "om_wf m \<Longrightarrow> m \<noteq> [] \<Longrightarrow> x \<in> set m \<Longrightarrow> fst x \<le> fst (last m)"
  by (induction m rule: rev_induct) (auto simp: om_wf_def sorted_wrt_append intro: less_imp_le)

text \<open>\<open>om_floor\<close> is the entry with the largest key that is not above \<open>k\<close>.\<close>

lemma om_floor_Some:
  assumes "om_wf m"
  shows "om_floor k m = Some (j, v) \<longleftrightarrow>
    map_of m j = Some v \<and> j \<le> k \<and> (\<forall>x \<in> fst ` set m. x \<le> k \<longrightarrow> x \<le> j)"
proof -
  let ?b = "filter (\<lambda>e. fst e \<le> k) m"
  have wf: "om_wf ?b" using assms by (rule om_wf_filter)
  show ?thesis
  proof
    assume l: "om_floor k m = Some (j, v)"
    then have ne: "?b \<noteq> []" and la: "last ?b = (j, v)"
      by (auto simp: om_floor_def Let_def split: if_splits)
    then have mem: "(j, v) \<in> set ?b" using last_in_set [OF ne] by simp
    then have "map_of m j = Some v" "j \<le> k"
      using om_wf_distinct [OF assms] by auto
    moreover have "\<forall>x \<in> fst ` set m. x \<le> k \<longrightarrow> x \<le> j"
      using sorted_last_max [OF wf ne] la by auto
    ultimately show "map_of m j = Some v \<and> j \<le> k \<and> (\<forall>x \<in> fst ` set m. x \<le> k \<longrightarrow> x \<le> j)"
      by blast
  next
    assume r: "map_of m j = Some v \<and> j \<le> k \<and> (\<forall>x \<in> fst ` set m. x \<le> k \<longrightarrow> x \<le> j)"
    then have mem: "(j, v) \<in> set ?b" by (auto dest: map_of_SomeD)
    then have ne: "?b \<noteq> []" by (metis empty_iff list.set(1))
    obtain j' v' where la: "last ?b = (j', v')" by fastforce
    have "(j', v') \<in> set ?b" using last_in_set [OF ne] la by simp
    then have "j' \<le> j" using r by force
    moreover have "j \<le> j'" using sorted_last_max [OF wf ne mem] la by simp
    ultimately have "j' = j" by simp
    moreover have "map_of ?b j' = Some v'" "map_of ?b j = Some v"
      using \<open>(j', v') \<in> set ?b\<close> mem om_wf_distinct [OF wf] by auto
    ultimately have "v' = v" by simp
    then show "om_floor k m = Some (j, v)"
      using ne la \<open>j' = j\<close> by (simp add: om_floor_def)
  qed
qed

section \<open>Lists\<close>

lemma distinct_singleton: "distinct xs \<Longrightarrow> set xs = {x} \<Longrightarrow> xs = [x]"
  by (cases xs; cases "tl xs") auto

lemma length_filter_mono:
  "(\<And>x. x \<in> set xs \<Longrightarrow> P x \<Longrightarrow> Q x) \<Longrightarrow> length (filter P xs) \<le> length (filter Q xs)"
  by (induction xs) (auto simp: le_SucI)

lemma nth_opt_append:
  "i < length xs + length ys \<Longrightarrow> (xs @ ys) ! i = (if i < length xs then xs ! i else ys ! (i - length xs))"
  by (simp add: nth_append)

lemma butlast_last_conv: "xs \<noteq> [] \<Longrightarrow> butlast xs @ [last xs] = xs"
  by simp

end
