(* ===== verification/LC_Tree.thy ===== *)
theory LC_Tree
  imports LC_Prelude
begin

text \<open>
  The hierarchical key-value store of \<^verbatim>\<open>src/Tree/Tree.{h,cc}\<close>: \<open>File\<close>, \<open>Directory\<close>, \<open>Path\<close>
  and \<open>Tree\<close>. A \<^verbatim>\<open>std::map<std::string, T>\<close> is an ordered map over \<open>string\<close> (the
  lexicographic order on bytes). A pointer into the tree is the list of names that leads to the
  directory together with the directory itself; writing through the pointer is
  \<open>storeDirectory\<close>. A failed \<^verbatim>\<open>assert\<close> or a \<^verbatim>\<open>PANIC\<close> is \<open>None\<close>.
  The statistics counters are \<open>nat\<close>.
\<close>

section \<open>Status and Result\<close>

datatype Status = OK | INVALID_ARGUMENT | LOOKUP_ERROR | TYPE_ERROR | CONDITION_NOT_MET

record Result =
  status :: Status
  error :: string

definition Result_ok :: Result where
  "Result_ok = \<lparr>status = OK, error = []\<rparr>"

definition mkResult :: "Status \<Rightarrow> string \<Rightarrow> Result" where
  "mkResult s e = \<lparr>status = s, error = e\<rparr>"

lemma status_Result [simp]: "status Result_ok = OK" "status (mkResult s e) = s"
  by (simp_all add: Result_ok_def mkResult_def)

text \<open>A string in single quotes, as in the format strings of the error messages.\<close>

definition quoted :: "string \<Rightarrow> string" where
  "quoted s = CHR 0x27 # s @ [CHR 0x27]"

section \<open>File and Directory\<close>

datatype File = File (contents: string)

datatype Directory = Directory
  (directories: "(string \<times> Directory) list")
  (files: "(string \<times> File) list")

abbreviation emptyDirectory :: Directory where
  "emptyDirectory \<equiv> Directory [] []"

text \<open>The assertions at the head of every \<open>Directory\<close> method: the name is not empty and does
  not end in a slash.\<close>

definition nameOk :: "string \<Rightarrow> bool" where
  "nameOk n \<longleftrightarrow> n \<noteq> [] \<and> last n \<noteq> CHR ''/''"

definition getChildren :: "Directory \<Rightarrow> string list" where
  "getChildren d = map (\<lambda>e. fst e @ ''/'') (directories d) @ map fst (files d)"

definition lookupDirectory :: "Directory \<Rightarrow> string \<Rightarrow> Directory option option" where
  "lookupDirectory d name = do { require (nameOk name); Some (map_of (directories d) name) }"

definition lookupFile :: "Directory \<Rightarrow> string \<Rightarrow> File option option" where
  "lookupFile d name = do { require (nameOk name); Some (map_of (files d) name) }"

text \<open>\<open>makeDirectory\<close> and \<open>makeFile\<close> return the updated directory and the child, or no child
  for the code's \<^verbatim>\<open>NULL\<close>. \<^verbatim>\<open>operator[]\<close> default-constructs a missing child.\<close>

definition makeDirectory_dir ::
  "Directory \<Rightarrow> string \<Rightarrow> (Directory \<times> Directory option) option" where
  "makeDirectory_dir d name = do {
     require (nameOk name);
     f \<leftarrow> lookupFile d name;
     if f \<noteq> None then Some (d, None)
     else case map_of (directories d) name of
       Some c \<Rightarrow> Some (d, Some c)
     | None \<Rightarrow> Some (Directory (om_set name emptyDirectory (directories d)) (files d),
                     Some emptyDirectory) }"

definition removeDirectory_dir :: "Directory \<Rightarrow> string \<Rightarrow> Directory option" where
  "removeDirectory_dir d name = do {
     require (nameOk name);
     Some (Directory (om_erase name (directories d)) (files d)) }"

definition makeFile :: "Directory \<Rightarrow> string \<Rightarrow> (Directory \<times> File option) option" where
  "makeFile d name = do {
     require (nameOk name);
     c \<leftarrow> lookupDirectory d name;
     if c \<noteq> None then Some (d, None)
     else case map_of (files d) name of
       Some f \<Rightarrow> Some (d, Some f)
     | None \<Rightarrow> Some (Directory (directories d) (om_set name (File []) (files d)),
                     Some (File [])) }"

text \<open>Writing the contents of the file that \<open>makeFile\<close> returned.\<close>

definition storeFile :: "Directory \<Rightarrow> string \<Rightarrow> File \<Rightarrow> Directory" where
  "storeFile d name f = Directory (directories d) (om_set name f (files d))"

definition removeFile_dir :: "Directory \<Rightarrow> string \<Rightarrow> (Directory \<times> bool) option" where
  "removeFile_dir d name = do {
     require (nameOk name);
     Some (Directory (directories d) (om_erase name (files d)), map_of (files d) name \<noteq> None) }"

section \<open>Snapshots\<close>

text \<open>A snapshot stream is the sequence of messages written to it.\<close>

datatype SnapMsg = SnapDirectory "string list" "string list" | SnapFile string

type_synonym stream = "SnapMsg list"

definition dumpSnapshot_file :: "File \<Rightarrow> stream" where
  "dumpSnapshot_file f = [SnapFile (contents f)]"

definition loadSnapshot_file :: "stream \<Rightarrow> (File \<times> stream) option" where
  "loadSnapshot_file s = (case s of SnapFile c # s' \<Rightarrow> Some (File c, s') | _ \<Rightarrow> None)"

fun dumpSnapshot_dir :: "Directory \<Rightarrow> stream"
  and dumpSnapshot_dirs :: "(string \<times> Directory) list \<Rightarrow> stream" where
  "dumpSnapshot_dir (Directory ds fs) =
     SnapDirectory (map fst ds) (map fst fs) # dumpSnapshot_dirs ds
       @ concat (map (\<lambda>e. dumpSnapshot_file (snd e)) fs)"
| "dumpSnapshot_dirs [] = []"
| "dumpSnapshot_dirs ((n, d) # ds) = dumpSnapshot_dir d @ dumpSnapshot_dirs ds"

text \<open>The loop over \<^verbatim>\<open>dir.files()\<close>.\<close>

fun loadSnapshot_files ::
  "(string \<times> File) list \<Rightarrow> string list \<Rightarrow> stream \<Rightarrow> ((string \<times> File) list \<times> stream) option" where
  "loadSnapshot_files fs [] s = Some (fs, s)"
| "loadSnapshot_files fs (n # ns) s = do {
     (f, s') \<leftarrow> loadSnapshot_file s;
     loadSnapshot_files (om_set n f fs) ns s' }"

text \<open>
  Loading recurses on the stream. Each directory consumes one message, so the fuel
  \<open>Suc (length s)\<close> that \<open>loadSnapshot_tree\<close> passes never runs out. The first argument is the
  directory object the method is called on; \<^verbatim>\<open>directories[*it]\<close> finds or creates the child.
\<close>

fun loadSnapshot_dir :: "nat \<Rightarrow> Directory \<Rightarrow> stream \<Rightarrow> (Directory \<times> stream) option"
  and loadSnapshot_dirs ::
    "nat \<Rightarrow> (string \<times> Directory) list \<Rightarrow> string list \<Rightarrow> stream
       \<Rightarrow> ((string \<times> Directory) list \<times> stream) option" where
  "loadSnapshot_dir 0 d s = None"
| "loadSnapshot_dir (Suc n) d s = (case s of
     SnapDirectory dnames fnames # s1 \<Rightarrow> do {
       (ds, s2) \<leftarrow> loadSnapshot_dirs n (directories d) dnames s1;
       (fs, s3) \<leftarrow> loadSnapshot_files (files d) fnames s2;
       Some (Directory ds fs, s3) }
   | _ \<Rightarrow> None)"
| "loadSnapshot_dirs n ds [] s = Some (ds, s)"
| "loadSnapshot_dirs n ds (nm # nms) s = do {
     (d, s') \<leftarrow> loadSnapshot_dir n
        (case map_of ds nm of Some c \<Rightarrow> c | None \<Rightarrow> emptyDirectory) s;
     loadSnapshot_dirs n (om_set nm d ds) nms s' }"

section \<open>Path\<close>

record Path =
  path_result :: Result
  symbolic :: string
  parents :: "string list"
  target :: string

text \<open>The loop of the constructor: \<open>word\<close> is the component being read, \<open>acc\<close> the components
  already pushed.\<close>

fun splitPath :: "string list \<Rightarrow> string \<Rightarrow> string \<Rightarrow> string list" where
  "splitPath acc word [] = (if word = [] then acc else acc @ [word])"
| "splitPath acc word (c # cs) =
     (if c = CHR ''/'' then
        (if word = [] then splitPath acc word cs else splitPath (acc @ [word]) [] cs)
      else splitPath acc (word @ [c]) cs)"

definition mkPath :: "string \<Rightarrow> Path" where
  "mkPath symPath =
     (if \<not> prefix ''/'' symPath then
        \<lparr>path_result = mkResult INVALID_ARGUMENT (quoted symPath @ '' is not a valid path''),
         symbolic = symPath, parents = [], target = []\<rparr>
      else (let ps = splitPath [''root''] [] symPath
            in \<lparr>path_result = Result_ok, symbolic = symPath,
                parents = butlast ps, target = last ps\<rparr>))"

text \<open>\<open>parentsThrough p k\<close>: the parents from the one after \<^verbatim>\<open>root\<close> to the \<open>k\<close>-th, inclusive.\<close>

definition parentsThrough :: "Path \<Rightarrow> nat \<Rightarrow> string" where
  "parentsThrough p k =
     (let shown = tl (take (Suc k) (parents p))
      in if shown = [] then ''/'' else concat (map (\<lambda>n. ''/'' @ n) shown))"

section \<open>Tree\<close>

record Tree =
  superRoot :: Directory
  numConditionsChecked :: nat
  numConditionsFailed :: nat
  numMakeDirectoryAttempted :: nat
  numMakeDirectorySuccess :: nat
  numListDirectoryAttempted :: nat
  numListDirectorySuccess :: nat
  numRemoveDirectoryAttempted :: nat
  numRemoveDirectoryParentNotFound :: nat
  numRemoveDirectoryTargetNotFound :: nat
  numRemoveDirectoryDone :: nat
  numRemoveDirectorySuccess :: nat
  numWriteAttempted :: nat
  numWriteSuccess :: nat
  numReadAttempted :: nat
  numReadSuccess :: nat
  numRemoveFileAttempted :: nat
  numRemoveFileParentNotFound :: nat
  numRemoveFileTargetNotFound :: nat
  numRemoveFileDone :: nat
  numRemoveFileSuccess :: nat

definition mkTree :: Tree where
  "mkTree = \<lparr>superRoot = Directory [(''root'', emptyDirectory)] [],
     numConditionsChecked = 0, numConditionsFailed = 0,
     numMakeDirectoryAttempted = 0, numMakeDirectorySuccess = 0,
     numListDirectoryAttempted = 0, numListDirectorySuccess = 0,
     numRemoveDirectoryAttempted = 0, numRemoveDirectoryParentNotFound = 0,
     numRemoveDirectoryTargetNotFound = 0, numRemoveDirectoryDone = 0,
     numRemoveDirectorySuccess = 0, numWriteAttempted = 0, numWriteSuccess = 0,
     numReadAttempted = 0, numReadSuccess = 0,
     numRemoveFileAttempted = 0, numRemoveFileParentNotFound = 0,
     numRemoveFileTargetNotFound = 0, numRemoveFileDone = 0, numRemoveFileSuccess = 0\<rparr>"

text \<open>The loop of \<open>normalLookup\<close>: \<open>k\<close> is the position of \<open>it\<close> in \<open>parents\<close>. The result is the
  parent directory, if every parent is a directory.\<close>

fun normalLookupFrom ::
  "Path \<Rightarrow> nat \<Rightarrow> string list \<Rightarrow> Directory \<Rightarrow> (Result \<times> Directory option) option" where
  "normalLookupFrom p k [] current = Some (Result_ok, Some current)"
| "normalLookupFrom p k (n # ns) current = do {
     nxt \<leftarrow> lookupDirectory current n;
     case nxt of
       None \<Rightarrow> do {
         f \<leftarrow> lookupFile current n;
         Some (if f = None
           then mkResult LOOKUP_ERROR
             (''Parent '' @ parentsThrough p k @ '' of '' @ symbolic p @ '' does not exist'')
           else mkResult TYPE_ERROR
             (''Parent '' @ parentsThrough p k @ '' of '' @ symbolic p @ '' is a file''), None) }
     | Some d \<Rightarrow> normalLookupFrom p (Suc k) ns d }"

definition normalLookup :: "Tree \<Rightarrow> Path \<Rightarrow> (Result \<times> Directory option) option" where
  "normalLookup t p = normalLookupFrom p 0 (parents p) (superRoot t)"

text \<open>Writing a directory back at the place a lookup found it.\<close>

fun storeDirectory :: "string list \<Rightarrow> Directory \<Rightarrow> Directory \<Rightarrow> Directory" where
  "storeDirectory [] new d = new"
| "storeDirectory (n # ns) new d = (case map_of (directories d) n of
     None \<Rightarrow> d
   | Some c \<Rightarrow> Directory (om_set n (storeDirectory ns new c) (directories d)) (files d))"

text \<open>\<open>mkdirLookup\<close> creates the missing parents as it descends: the updated directory comes
  back together with the parent that was reached.\<close>

fun mkdirLookupFrom ::
  "Path \<Rightarrow> nat \<Rightarrow> string list \<Rightarrow> Directory \<Rightarrow> (Result \<times> Directory option \<times> Directory) option" where
  "mkdirLookupFrom p k [] current = Some (Result_ok, Some current, current)"
| "mkdirLookupFrom p k (n # ns) current = do {
     (current', nxt) \<leftarrow> makeDirectory_dir current n;
     case nxt of
       None \<Rightarrow> Some (mkResult TYPE_ERROR
           (''Parent '' @ parentsThrough p k @ '' of '' @ symbolic p @ '' is a file''),
           None, current')
     | Some d \<Rightarrow> do {
         (r, par, d') \<leftarrow> mkdirLookupFrom p (Suc k) ns d;
         Some (r, par, Directory (om_set n d' (directories current')) (files current')) } }"

definition mkdirLookup :: "Tree \<Rightarrow> Path \<Rightarrow> (Result \<times> Directory option \<times> Tree) option" where
  "mkdirLookup t p = do {
     (r, par, d) \<leftarrow> mkdirLookupFrom p 0 (parents p) (superRoot t);
     Some (r, par, t\<lparr>superRoot := d\<rparr>) }"

definition dumpSnapshot_tree :: "Tree \<Rightarrow> stream" where
  "dumpSnapshot_tree t = dumpSnapshot_dir (superRoot t)"

definition loadSnapshot_tree :: "Tree \<Rightarrow> stream \<Rightarrow> (Tree \<times> stream) option" where
  "loadSnapshot_tree t s = do {
     (d, s') \<leftarrow> loadSnapshot_dir (Suc (length s)) emptyDirectory s;
     Some (t\<lparr>superRoot := d\<rparr>, s') }"

text \<open>\<open>read\<close> returns the result, the contents and the tree with its counters.\<close>

definition tree_read :: "Tree \<Rightarrow> string \<Rightarrow> (Result \<times> string \<times> Tree) option" where
  "tree_read t0 symPath = (let t = t0\<lparr>numReadAttempted := Suc (numReadAttempted t0)\<rparr>; p = mkPath symPath in
     if status (path_result p) \<noteq> OK then Some (path_result p, [], t)
     else do {
       (r, par) \<leftarrow> normalLookup t p;
       case par of
         None \<Rightarrow> Some (r, [], t)
       | Some parent \<Rightarrow> do {
           f \<leftarrow> lookupFile parent (target p);
           case f of
             None \<Rightarrow> do {
               d \<leftarrow> lookupDirectory parent (target p);
               Some (if d \<noteq> None then mkResult TYPE_ERROR (symbolic p @ '' is a directory'')
                     else mkResult LOOKUP_ERROR (symbolic p @ '' does not exist''), [], t) }
           | Some tf \<Rightarrow> Some (r, contents tf, t\<lparr>numReadSuccess := Suc (numReadSuccess t)\<rparr>) } })"

definition checkCondition :: "Tree \<Rightarrow> string \<Rightarrow> string \<Rightarrow> (Result \<times> Tree) option" where
  "checkCondition t0 path expected = do {
     let t1 = t0\<lparr>numConditionsChecked := Suc (numConditionsChecked t0)\<rparr>;
     (rr, actual, t) \<leftarrow> tree_read t1 path;
     let failed = t\<lparr>numConditionsFailed := Suc (numConditionsFailed t)\<rparr>;
     if status rr = OK then
       (if expected = actual then Some (Result_ok, t)
        else Some (mkResult CONDITION_NOT_MET (''Path '' @ quoted path @ '' has value '' @ quoted actual
                @ '', not '' @ quoted expected @ '' as required''), failed))
     else if status rr = LOOKUP_ERROR \<and> expected = [] then Some (Result_ok, t)
     else Some (mkResult CONDITION_NOT_MET
            (''Could not read value at path '' @ quoted path @ '': '' @ error rr), failed) }"

definition makeDirectory :: "Tree \<Rightarrow> string \<Rightarrow> (Result \<times> Tree) option" where
  "makeDirectory t0 symPath =
     (let t = t0\<lparr>numMakeDirectoryAttempted := Suc (numMakeDirectoryAttempted t0)\<rparr>; p = mkPath symPath in
     if status (path_result p) \<noteq> OK then Some (path_result p, t)
     else do {
       (r, par, t') \<leftarrow> mkdirLookup t p;
       case par of
         None \<Rightarrow> Some (r, t')
       | Some parent \<Rightarrow> do {
           (parent', child) \<leftarrow> makeDirectory_dir parent (target p);
           if child = None then
             Some (mkResult TYPE_ERROR (symbolic p @ '' already exists but is a file''), t')
           else Some (r, t'\<lparr>superRoot := storeDirectory (parents p) parent' (superRoot t'),
                           numMakeDirectorySuccess := Suc (numMakeDirectorySuccess t')\<rparr>) } })"

definition listDirectory :: "Tree \<Rightarrow> string \<Rightarrow> (Result \<times> string list \<times> Tree) option" where
  "listDirectory t0 symPath =
     (let t = t0\<lparr>numListDirectoryAttempted := Suc (numListDirectoryAttempted t0)\<rparr>; p = mkPath symPath in
     if status (path_result p) \<noteq> OK then Some (path_result p, [], t)
     else do {
       (r, par) \<leftarrow> normalLookup t p;
       case par of
         None \<Rightarrow> Some (r, [], t)
       | Some parent \<Rightarrow> do {
           d \<leftarrow> lookupDirectory parent (target p);
           case d of
             None \<Rightarrow> do {
               f \<leftarrow> lookupFile parent (target p);
               Some (if f = None then mkResult LOOKUP_ERROR (symbolic p @ '' does not exist'')
                     else mkResult TYPE_ERROR (symbolic p @ '' is a file''), [], t) }
           | Some targetDir \<Rightarrow> Some (r, getChildren targetDir,
                 t\<lparr>numListDirectorySuccess := Suc (numListDirectorySuccess t)\<rparr>) } })"

text \<open>The test \<^verbatim>\<open>parent == &superRoot\<close> compares addresses: the parent is the super root exactly
  when the path has no parents.\<close>

definition removeDirectory :: "Tree \<Rightarrow> string \<Rightarrow> (Result \<times> Tree) option" where
  "removeDirectory t0 symPath =
     (let t = t0\<lparr>numRemoveDirectoryAttempted := Suc (numRemoveDirectoryAttempted t0)\<rparr>; p = mkPath symPath in
     if status (path_result p) \<noteq> OK then Some (path_result p, t)
     else do {
       (r, par) \<leftarrow> normalLookup t p;
       if status r = LOOKUP_ERROR then
         Some (Result_ok, t\<lparr>numRemoveDirectoryParentNotFound := Suc (numRemoveDirectoryParentNotFound t),
                           numRemoveDirectorySuccess := Suc (numRemoveDirectorySuccess t)\<rparr>)
       else case par of
         None \<Rightarrow> Some (r, t)
       | Some parent \<Rightarrow> do {
           d \<leftarrow> lookupDirectory parent (target p);
           if d = None then do {
             f \<leftarrow> lookupFile parent (target p);
             if f \<noteq> None then Some (mkResult TYPE_ERROR (symbolic p @ '' is a file''), t)
             else Some (r, t\<lparr>numRemoveDirectoryTargetNotFound := Suc (numRemoveDirectoryTargetNotFound t),
                            numRemoveDirectorySuccess := Suc (numRemoveDirectorySuccess t)\<rparr>) }
           else do {
             parent1 \<leftarrow> removeDirectory_dir parent (target p);
             (parent2, _) \<leftarrow> (if parents p = [] then makeDirectory_dir parent1 (target p)
                              else Some (parent1, None));
             Some (r, t\<lparr>superRoot := storeDirectory (parents p) parent2 (superRoot t),
                       numRemoveDirectoryDone := Suc (numRemoveDirectoryDone t),
                       numRemoveDirectorySuccess := Suc (numRemoveDirectorySuccess t)\<rparr>) } } })"

definition tree_write :: "Tree \<Rightarrow> string \<Rightarrow> string \<Rightarrow> (Result \<times> Tree) option" where
  "tree_write t0 symPath cont = (let t = t0\<lparr>numWriteAttempted := Suc (numWriteAttempted t0)\<rparr>; p = mkPath symPath in
     if status (path_result p) \<noteq> OK then Some (path_result p, t)
     else do {
       (r, par) \<leftarrow> normalLookup t p;
       case par of
         None \<Rightarrow> Some (r, t)
       | Some parent \<Rightarrow> do {
           (parent', f) \<leftarrow> makeFile parent (target p);
           if f = None then Some (mkResult TYPE_ERROR (symbolic p @ '' is a directory''), t)
           else Some (r, t\<lparr>superRoot :=
                  storeDirectory (parents p) (storeFile parent' (target p) (File cont)) (superRoot t),
                numWriteSuccess := Suc (numWriteSuccess t)\<rparr>) } })"

definition removeFile :: "Tree \<Rightarrow> string \<Rightarrow> (Result \<times> Tree) option" where
  "removeFile t0 symPath =
     (let t = t0\<lparr>numRemoveFileAttempted := Suc (numRemoveFileAttempted t0)\<rparr>; p = mkPath symPath in
     if status (path_result p) \<noteq> OK then Some (path_result p, t)
     else do {
       (r, par) \<leftarrow> normalLookup t p;
       if status r = LOOKUP_ERROR then
         Some (Result_ok, t\<lparr>numRemoveFileParentNotFound := Suc (numRemoveFileParentNotFound t),
                           numRemoveFileSuccess := Suc (numRemoveFileSuccess t)\<rparr>)
       else case par of
         None \<Rightarrow> Some (r, t)
       | Some parent \<Rightarrow> do {
           d \<leftarrow> lookupDirectory parent (target p);
           if d \<noteq> None then Some (mkResult TYPE_ERROR (symbolic p @ '' is a directory''), t)
           else do {
             (parent', removed) \<leftarrow> removeFile_dir parent (target p);
             let t1 = t\<lparr>superRoot := storeDirectory (parents p) parent' (superRoot t)\<rparr>;
             let t2 = (if removed then t1\<lparr>numRemoveFileDone := Suc (numRemoveFileDone t1)\<rparr>
                       else t1\<lparr>numRemoveFileTargetNotFound := Suc (numRemoveFileTargetNotFound t1)\<rparr>);
             Some (r, t2\<lparr>numRemoveFileSuccess := Suc (numRemoveFileSuccess t2)\<rparr>) } } })"

end
