(* ===== verification/LC_TreeSpec.thy ===== *)
theory LC_TreeSpec
  imports LC_Tree
begin

text \<open>
  What the Tree promises: a file system is a partial map from paths (lists of names) to nodes, and
  each operation of \<open>LC_Tree\<close> is a simple update of that map. The theory gives the
  representation invariant \<open>tree_wf\<close>, the abstraction \<open>tree_abs\<close>, the specification
  \<open>fs_put\<close>, \<open>fs_read\<close>, \<open>fs_mkdir\<close>, \<open>fs_rmfile\<close>, \<open>fs_rmdir\<close> and the refinement lemmas, the
  contract of the store as the locale \<open>path_store\<close>, and the snapshot round trip.
\<close>

section \<open>Paths\<close>

definition cleanName :: "string \<Rightarrow> bool" where
  "cleanName n \<longleftrightarrow> n \<noteq> [] \<and> CHR ''/'' \<notin> set n"

lemma cleanName_nameOk: "cleanName n \<Longrightarrow> nameOk n"
  unfolding cleanName_def nameOk_def by (metis last_in_set)

text \<open>The components of a symbolic path, with the hidden \<^verbatim>\<open>root\<close> in front.\<close>

definition components :: "string \<Rightarrow> string list" where
  "components s = splitPath [''root''] [] s"

definition validPath :: "string \<Rightarrow> bool" where
  "validPath s \<longleftrightarrow> prefix ''/'' s"

lemma splitPath_acc: "splitPath acc w s = acc @ splitPath [] w s"
proof (induction s arbitrary: acc w)
  case (Cons c s)
  show ?case
    by (simp only: splitPath.simps Cons [of "acc @ [w]"] Cons [of "[] @ [w]"] Cons [of acc]) simp
qed simp

lemma splitPath_clean:
  "CHR ''/'' \<notin> set w \<Longrightarrow> \<forall>n \<in> set acc. cleanName n \<Longrightarrow> \<forall>n \<in> set (splitPath acc w s). cleanName n"
proof (induction s arbitrary: acc w)
  case Nil
  then show ?case by (simp add: cleanName_def)
next
  case (Cons c s)
  have "\<forall>n \<in> set (splitPath (acc @ [w]) [] s). cleanName n" if "w \<noteq> []"
    using Cons.prems that by (intro Cons.IH) (auto simp: cleanName_def)
  moreover have "\<forall>n \<in> set (splitPath acc (w @ [c]) s). cleanName n" if "c \<noteq> CHR ''/''"
    using Cons.prems that by (intro Cons.IH) auto
  ultimately show ?case
    using Cons.IH [OF Cons.prems] by simp
qed

lemma components_clean: "n \<in> set (components s) \<Longrightarrow> cleanName n"
  using splitPath_clean [of "[]" "[''root'']" s] by (auto simp: components_def cleanName_def)

lemma components_Cons: "components s = ''root'' # splitPath [] [] s"
  using splitPath_acc [of "[''root'']" "[]" s] by (simp add: components_def)

lemma components_not_Nil [simp]: "components s \<noteq> []"
  by (simp add: components_Cons)

lemma mkPath_valid:
  "validPath s \<Longrightarrow> mkPath s = \<lparr>path_result = Result_ok, symbolic = s,
     parents = butlast (components s), target = last (components s)\<rparr>"
  by (simp add: mkPath_def validPath_def components_def Let_def)

lemma mkPath_invalid: "\<not> validPath s \<Longrightarrow> status (path_result (mkPath s)) = INVALID_ARGUMENT"
  by (simp add: mkPath_def validPath_def)

lemma components_names_ok:
  "\<forall>n \<in> set (butlast (components s)). nameOk n" "nameOk (last (components s))"
  by (meson cleanName_nameOk components_clean in_set_butlastD)
    (meson cleanName_nameOk components_clean last_in_set components_not_Nil)

section \<open>Representation invariant\<close>

fun dir_wf :: "Directory \<Rightarrow> bool" and dirs_wf :: "(string \<times> Directory) list \<Rightarrow> bool" where
  "dir_wf (Directory ds fs) \<longleftrightarrow> om_wf ds \<and> om_wf fs \<and>
     (\<forall>n \<in> fst ` set ds \<union> fst ` set fs. cleanName n) \<and>
     fst ` set ds \<inter> fst ` set fs = {} \<and> dirs_wf ds"
| "dirs_wf [] = True"
| "dirs_wf ((n, d) # ds) \<longleftrightarrow> dir_wf d \<and> dirs_wf ds"

lemma dirs_wf_iff: "dirs_wf ds \<longleftrightarrow> (\<forall>d \<in> snd ` set ds. dir_wf d)"
  by (induction ds) auto

definition tree_wf :: "Tree \<Rightarrow> bool" where
  "tree_wf t \<longleftrightarrow> dir_wf (superRoot t) \<and> files (superRoot t) = [] \<and>
     map fst (directories (superRoot t)) = [''root'']"

lemma dir_wf_empty [simp]: "dir_wf emptyDirectory"
  by simp

lemma dir_wf_child: "dir_wf d \<Longrightarrow> map_of (directories d) n = Some c \<Longrightarrow> dir_wf c"
  by (cases d) (force simp: dirs_wf_iff dest: map_of_SomeD)

lemma dir_wf_disjoint:
  "dir_wf d \<Longrightarrow> map_of (directories d) n = Some c \<Longrightarrow> map_of (files d) n = None"
  by (cases d) (force simp: map_of_eq_None_iff dest: map_of_SomeD)

lemma dirs_wf_om_set: "dirs_wf ds \<Longrightarrow> dir_wf c \<Longrightarrow> dirs_wf (om_set n c ds)"
  by (auto simp: dirs_wf_iff om_set_def)

lemma dir_wf_set_directory:
  assumes "dir_wf d" "dir_wf c" "cleanName n" "map_of (files d) n = None"
  shows "dir_wf (Directory (om_set n c (directories d)) (files d))"
  using assms
  by (cases d) (auto simp: om_wf_set keys_om_set dirs_wf_om_set map_of_eq_None_iff)

lemma dir_wf_storeFile:
  assumes "dir_wf d" "cleanName n" "map_of (directories d) n = None"
  shows "dir_wf (storeFile d n f)"
  using assms
  by (cases d) (auto simp: storeFile_def om_wf_set keys_om_set map_of_eq_None_iff)

lemma keys_om_erase: "fst ` set (om_erase k m) = fst ` set m - {k}"
  by (auto simp: om_erase_def)

lemma dir_wf_erase:
  assumes "dir_wf d"
  shows "dir_wf (Directory (om_erase n (directories d)) (files d))"
    and "dir_wf (Directory (directories d) (om_erase n (files d)))"
proof -
  obtain ds fs where d: "d = Directory ds fs" by (cases d)
  have "dirs_wf (om_erase n ds)"
    using assms by (auto simp: d dirs_wf_iff om_erase_def)
  then show "dir_wf (Directory (om_erase n (directories d)) (files d))"
    using assms unfolding d by (simp add: om_wf_erase keys_om_erase) blast
  show "dir_wf (Directory (directories d) (om_erase n (files d)))"
    using assms unfolding d by (simp add: om_wf_erase keys_om_erase) blast
qed

section \<open>Nodes\<close>

datatype Node = NDir | NFile string

type_synonym fs = "string list \<Rightarrow> Node option"

text \<open>The directory at the end of a path of directories.\<close>

fun dir_at :: "Directory \<Rightarrow> string list \<Rightarrow> Directory option" where
  "dir_at d [] = Some d"
| "dir_at d (n # ns) = (case map_of (directories d) n of None \<Rightarrow> None | Some c \<Rightarrow> dir_at c ns)"

fun node_at :: "Directory \<Rightarrow> fs" where
  "node_at d [] = Some NDir"
| "node_at d (n # ns) = (case map_of (directories d) n of
     Some c \<Rightarrow> node_at c ns
   | None \<Rightarrow> (if ns = [] then map_option (\<lambda>f. NFile (contents f)) (map_of (files d) n) else None))"

definition tree_abs :: "Tree \<Rightarrow> fs" where
  "tree_abs t = node_at (superRoot t)"

lemma dir_at_iff: "node_at d ps = Some NDir \<longleftrightarrow> dir_at d ps \<noteq> None"
  by (induction d ps rule: node_at.induct) (auto split: option.split)

lemma dir_at_wf: "dir_wf d \<Longrightarrow> dir_at d ps = Some c \<Longrightarrow> dir_wf c"
  by (induction d ps rule: dir_at.induct) (auto split: option.splits dest: dir_wf_child)

lemma dir_at_append: "dir_at d (ps @ qs) = Option.bind (dir_at d ps) (\<lambda>c. dir_at c qs)"
  by (induction d ps rule: dir_at.induct) (auto split: option.split)

lemma node_at_append:
  "dir_at d ps = Some c \<Longrightarrow> node_at d (ps @ qs) = node_at c qs"
  by (induction d ps rule: dir_at.induct) (auto split: option.splits)

lemma node_at_below:
  "qs \<noteq> [] \<Longrightarrow> dir_at d ps = None \<Longrightarrow> node_at d (ps @ qs) = None"
  by (induction d ps rule: dir_at.induct) (auto split: option.splits)

lemma node_at_prefix_dir:
  "dir_at d ps \<noteq> None \<Longrightarrow> prefix q ps \<Longrightarrow> node_at d q = Some NDir"
  by (cases "dir_at d q") (auto simp: dir_at_iff prefix_def dir_at_append)

definition isFile :: "Node option \<Rightarrow> bool" where
  "isFile x = (case x of Some (NFile _) \<Rightarrow> True | _ \<Rightarrow> False)"

lemma isFile_simps [simp]: "isFile (Some (NFile c))" "\<not> isFile (Some NDir)" "\<not> isFile None"
  by (simp_all add: isFile_def)

section \<open>Specification\<close>

text \<open>Whether the parents of a path exist and are directories.\<close>

definition fs_parents :: "fs \<Rightarrow> string list \<Rightarrow> Status" where
  "fs_parents f ps =
     (if f (butlast ps) = Some NDir then OK
      else if list_ex (\<lambda>q. isFile (f q)) (prefixes (butlast ps)) then TYPE_ERROR
      else LOOKUP_ERROR)"

definition fs_read :: "fs \<Rightarrow> string list \<Rightarrow> Status \<times> string" where
  "fs_read f ps = (if fs_parents f ps \<noteq> OK then (fs_parents f ps, [])
     else case f ps of Some (NFile c) \<Rightarrow> (OK, c) | Some NDir \<Rightarrow> (TYPE_ERROR, [])
       | None \<Rightarrow> (LOOKUP_ERROR, []))"

definition fs_put :: "fs \<Rightarrow> string list \<Rightarrow> string \<Rightarrow> Status \<times> fs" where
  "fs_put f ps c = (if fs_parents f ps \<noteq> OK then (fs_parents f ps, f)
     else if f ps = Some NDir then (TYPE_ERROR, f) else (OK, f(ps \<mapsto> NFile c)))"

definition fs_mkdir :: "fs \<Rightarrow> string list \<Rightarrow> Status \<times> fs" where
  "fs_mkdir f ps = (if list_ex (\<lambda>q. isFile (f q)) (prefixes ps) then (TYPE_ERROR, f)
     else (OK, \<lambda>q. if prefix q ps then Some NDir else f q))"

definition fs_rmfile :: "fs \<Rightarrow> string list \<Rightarrow> Status \<times> fs" where
  "fs_rmfile f ps = (case fs_parents f ps of
       LOOKUP_ERROR \<Rightarrow> (OK, f)
     | OK \<Rightarrow> if f ps = Some NDir then (TYPE_ERROR, f) else (OK, f(ps := None))
     | s \<Rightarrow> (s, f))"

text \<open>Removing the root keeps the root itself.\<close>

definition fs_rmdir :: "fs \<Rightarrow> string list \<Rightarrow> Status \<times> fs" where
  "fs_rmdir f ps = (case fs_parents f ps of
       LOOKUP_ERROR \<Rightarrow> (OK, f)
     | OK \<Rightarrow> (case f ps of
           Some (NFile _) \<Rightarrow> (TYPE_ERROR, f)
         | None \<Rightarrow> (OK, f)
         | Some NDir \<Rightarrow> (OK, \<lambda>q. if prefix ps q \<and> (q \<noteq> ps \<or> butlast ps \<noteq> []) then None else f q))
     | s \<Rightarrow> (s, f))"

section \<open>Lookups\<close>

lemma normalLookupFrom_dir:
  "\<forall>n \<in> set ns. nameOk n \<Longrightarrow> dir_at d ns = Some c \<Longrightarrow>
     normalLookupFrom p k ns d = Some (Result_ok, Some c)"
  by (induction ns arbitrary: d k) (auto simp: lookupDirectory_def split: option.splits)

lemma normalLookupFrom_none:
  assumes "\<forall>n \<in> set ns. nameOk n" "dir_wf d" "dir_at d ns = None"
  shows "\<exists>r. normalLookupFrom p k ns d = Some (r, None) \<and>
    status r = (if list_ex (\<lambda>q. isFile (node_at d q)) (prefixes ns) then TYPE_ERROR else LOOKUP_ERROR)"
  using assms
proof (induction ns arbitrary: d k)
  case (Cons n ns)
  show ?case
  proof (cases "map_of (directories d) n")
    case None
    have "isFile (node_at d (n # q)) \<longleftrightarrow> q = [] \<and> map_of (files d) n \<noteq> None" for q
      using None by (cases "map_of (files d) n") auto
    moreover have "[] \<in> set (prefixes ns)" by simp
    ultimately have "list_ex (\<lambda>q. isFile (node_at d q)) (prefixes (n # ns)) \<longleftrightarrow> map_of (files d) n \<noteq> None"
      by (force simp: list_ex_iff)
    then show ?thesis
      using None Cons.prems by (cases "map_of (files d) n") (auto simp: lookupDirectory_def lookupFile_def)
  next
    case (Some c)
    then show ?thesis
      using Cons.IH [of c "Suc k"] Cons.prems dir_wf_child [OF Cons.prems(2) Some]
      by (auto simp: lookupDirectory_def list_ex_iff)
  qed
qed simp

lemma fs_parents_OK: "fs_parents (node_at d) ps = OK \<longleftrightarrow> dir_at d (butlast ps) \<noteq> None"
  by (auto simp: fs_parents_def dir_at_iff)

lemma normalLookup_cases:
  assumes "dir_wf (superRoot t)" "validPath s"
  obtains (found) c where "normalLookup t (mkPath s) = Some (Result_ok, Some c)"
      "dir_at (superRoot t) (butlast (components s)) = Some c" "dir_wf c"
      "fs_parents (tree_abs t) (components s) = OK"
  | (missing) r where "normalLookup t (mkPath s) = Some (r, None)"
      "status r = fs_parents (tree_abs t) (components s)" "status r \<noteq> OK"
      "fs_parents (tree_abs t) (components s) \<in> {LOOKUP_ERROR, TYPE_ERROR}"
proof (cases "dir_at (superRoot t) (butlast (components s))")
  case (Some c)
  then have "normalLookup t (mkPath s) = Some (Result_ok, Some c)"
    using normalLookupFrom_dir components_names_ok(1) assms(2)
    by (simp add: normalLookup_def mkPath_valid)
  then show ?thesis
    using found Some dir_at_wf [OF assms(1) Some] by (simp add: tree_abs_def fs_parents_OK)
next
  case None
  obtain r where "normalLookup t (mkPath s) = Some (r, None)"
    "status r = (if list_ex (\<lambda>q. isFile (node_at (superRoot t) q)) (prefixes (butlast (components s)))
       then TYPE_ERROR else LOOKUP_ERROR)"
    using normalLookupFrom_none [OF components_names_ok(1) assms(1) None] assms(2)
    by (fastforce simp: normalLookup_def mkPath_valid)
  moreover have "node_at (superRoot t) (butlast (components s)) \<noteq> Some NDir"
    using None by (simp add: dir_at_iff)
  ultimately show ?thesis
    using missing by (simp add: tree_abs_def fs_parents_def split: if_splits)
qed

lemma node_at_target:
  assumes "dir_at d (butlast ps) = Some c" "ps \<noteq> []"
  shows "node_at d ps = (case map_of (directories c) (last ps) of Some _ \<Rightarrow> Some NDir
    | None \<Rightarrow> map_option (\<lambda>f. NFile (contents f)) (map_of (files c) (last ps)))"
proof -
  have "node_at d (butlast ps @ [last ps]) = node_at c [last ps]"
    using assms(1) by (rule node_at_append)
  then show ?thesis using assms(2) by (auto split: option.split)
qed

text \<open>Reading: no assertion fails, the tree's contents stay, and the outcome is the
  specification's.\<close>

lemma tree_read_refines:
  assumes "tree_wf t" "validPath s"
  shows "\<exists>r c t'. tree_read t s = Some (r, c, t') \<and> superRoot t' = superRoot t \<and>
    (status r, c) = fs_read (tree_abs t) (components s)"
proof -
  let ?t = "t\<lparr>numReadAttempted := Suc (numReadAttempted t)\<rparr>"
  have wf: "dir_wf (superRoot ?t)" and ab: "tree_abs ?t = tree_abs t"
    using assms(1) by (simp_all add: tree_wf_def tree_abs_def)
  note P = mkPath_valid [OF assms(2)]
  show ?thesis
    using wf assms(2)
  proof (cases rule: normalLookup_cases)
    case (found c)
    have n: "tree_abs t (components s) = (case map_of (directories c) (last (components s)) of
        Some _ \<Rightarrow> Some NDir | None \<Rightarrow> map_option (\<lambda>f. NFile (contents f)) (map_of (files c) (last (components s))))"
      using node_at_target [OF found(2)] by (simp add: tree_abs_def)
    note dj = dir_wf_disjoint [OF found(3), of "last (components s)"]
    show ?thesis
      using found(1,4) ab n dj components_names_ok(2) [of s]
      by (auto simp: tree_read_def Let_def P lookupFile_def lookupDirectory_def fs_read_def
          split: option.splits)
  next
    case (missing r)
    then show ?thesis
      using ab by (auto simp: tree_read_def Let_def P fs_read_def)
  qed
qed

section \<open>Writing a directory back\<close>

lemma node_at_store:
  "dir_at d ns = Some c \<Longrightarrow>
     node_at (storeDirectory ns new d) q =
       (if prefix ns q then node_at new (drop (length ns) q) else node_at d q)"
proof (induction ns arbitrary: d q)
  case (Cons n ns)
  then obtain c1 where c1: "map_of (directories d) n = Some c1" "dir_at c1 ns = Some c"
    by (auto split: option.splits)
  show ?case
    using c1 Cons.IH [OF c1(2)] by (cases q) (auto simp: map_of_om_set split: option.split)
qed simp

lemma dir_wf_key:
  "dir_wf d \<Longrightarrow> map_of (directories d) n = Some c \<Longrightarrow> cleanName n"
  by (cases d) (force dest: map_of_SomeD)

lemma dir_wf_store:
  "dir_wf d \<Longrightarrow> dir_at d ns = Some c \<Longrightarrow> dir_wf new \<Longrightarrow> dir_wf (storeDirectory ns new d)"
proof (induction ns arbitrary: d)
  case (Cons n ns)
  then obtain c1 where c1: "map_of (directories d) n = Some c1" "dir_at c1 ns = Some c"
    by (auto split: option.splits)
  have "dir_wf (storeDirectory ns new c1)"
    using Cons.IH [OF dir_wf_child [OF Cons.prems(1) c1(1)] c1(2) Cons.prems(3)] .
  then show ?case
    using c1(1) dir_wf_set_directory [OF Cons.prems(1)] dir_wf_key [OF Cons.prems(1) c1(1)]
      dir_wf_disjoint [OF Cons.prems(1) c1(1)] by simp
qed simp

lemma node_at_storeFile:
  "map_of (directories d) n = None \<Longrightarrow>
     node_at (storeFile d n f) q = (if q = [n] then Some (NFile (contents f)) else node_at d q)"
  by (cases q) (auto simp: storeFile_def map_of_om_set split: option.split)

text \<open>The same two facts for a path split into parents and target.\<close>

lemma node_at_store_target:
  assumes "dir_at d (butlast ps) = Some c" "ps \<noteq> []"
    and "\<And>q. node_at new q = (if q = [last ps] then x else node_at c q)"
  shows "node_at (storeDirectory (butlast ps) new d) = (node_at d)(ps := x)"
proof
  fix q
  have "drop (length (butlast ps)) q = [last ps] \<longleftrightarrow> q = ps" if "prefix (butlast ps) q"
    using that assms(2) by (metis append_butlast_last_id append_eq_conv_conj prefix_def)
  moreover have "node_at d q = node_at c (drop (length (butlast ps)) q)" if "prefix (butlast ps) q"
    using that node_at_append [OF assms(1)] by (metis append_eq_conv_conj prefix_def)
  moreover have "q \<noteq> ps" if "\<not> prefix (butlast ps) q"
    using that prefixeq_butlast by blast
  ultimately show "node_at (storeDirectory (butlast ps) new d) q = ((node_at d)(ps := x)) q"
    using node_at_store [OF assms(1), of new q] assms(3) by auto
qed

text \<open>The super root holds exactly the directory \<^verbatim>\<open>root\<close>, stated on nodes.\<close>

lemma tree_wf_iff:
  "tree_wf t \<longleftrightarrow> dir_wf (superRoot t) \<and>
     (\<forall>n. tree_abs t [n] = (if n = ''root'' then Some NDir else None))"
proof -
  obtain ds fs where d: "superRoot t = Directory ds fs" by (cases "superRoot t")
  have only_root: "fs = [] \<and> map fst ds = [''root'']"
    if wf: "dir_wf (Directory ds fs)"
      and n: "\<And>n. tree_abs t [n] = (if n = ''root'' then Some NDir else None)"
  proof -
    have keys: "map_of ds n \<noteq> None \<longleftrightarrow> n = ''root''" for n
      using n [of n] by (auto simp: tree_abs_def d split: option.splits if_splits)
    have nofile: "map_of fs n = None" for n
      using n [of n] keys [of n] dir_wf_disjoint [OF wf, of n]
      by (auto simp: tree_abs_def d split: option.splits if_splits)
    have "fs = []"
    proof (cases fs)
      case (Cons e fs')
      then show ?thesis using nofile [of "fst e"] by (cases e) simp
    qed
    moreover have "set (map fst ds) = {''root''}"
      using keys by (auto simp: map_of_eq_None_iff)
    moreover have "distinct (map fst ds)"
      using wf by (simp add: om_wf_distinct)
    ultimately show ?thesis by (simp add: distinct_singleton)
  qed
  have root_node: "tree_abs t [n] = (if n = ''root'' then Some NDir else None)"
    if "fs = []" "map fst ds = [''root'']" for n
  proof -
    obtain x where "ds = [(''root'', x)]"
      using \<open>map fst ds = [''root'']\<close> by (cases ds) auto
    then show ?thesis using \<open>fs = []\<close> by (simp add: tree_abs_def d)
  qed
  show ?thesis
  proof
    assume "tree_wf t"
    then have "dir_wf (superRoot t)" "fs = []" "map fst ds = [''root'']"
      by (simp_all add: tree_wf_def d)
    then show "dir_wf (superRoot t) \<and> (\<forall>n. tree_abs t [n] = (if n = ''root'' then Some NDir else None))"
      using root_node by simp
  next
    assume r: "dir_wf (superRoot t) \<and> (\<forall>n. tree_abs t [n] = (if n = ''root'' then Some NDir else None))"
    then have "fs = [] \<and> map fst ds = [''root'']"
      by (intro only_root) (auto simp: d)
    then show "tree_wf t" using r by (simp add: tree_wf_def d)
  qed
qed

section \<open>Writing and removing files\<close>

lemma components_head: "butlast (components s) \<noteq> [] \<Longrightarrow> hd (components s) = ''root''"
  by (simp add: components_Cons)

lemma components_single: "components s = [n] \<Longrightarrow> n = ''root''"
  by (simp add: components_Cons)

lemma tree_write_refines:
  assumes "tree_wf t" "validPath s"
  shows "\<exists>r t'. tree_write t s c = Some (r, t') \<and> tree_wf t' \<and>
    (status r, tree_abs t') = fs_put (tree_abs t) (components s) c"
proof -
  let ?t = "t\<lparr>numWriteAttempted := Suc (numWriteAttempted t)\<rparr>"
  let ?n = "last (components s)"
  have wf: "dir_wf (superRoot ?t)" and ab: "tree_abs ?t = tree_abs t" and wft: "tree_wf ?t"
    using assms(1) by (simp_all add: tree_wf_def tree_abs_def)
  note P = mkPath_valid [OF assms(2)]
  have clean: "cleanName ?n" using components_clean last_in_set components_not_Nil by blast
  show ?thesis
    using wf assms(2)
  proof (cases rule: normalLookup_cases)
    case (missing r)
    then show ?thesis
      using ab wft by (auto simp: tree_write_def Let_def P fs_put_def)
  next
    case (found d)
    have node: "tree_abs t (components s) = (case map_of (directories d) ?n of
        Some _ \<Rightarrow> Some NDir | None \<Rightarrow> map_option (\<lambda>f. NFile (contents f)) (map_of (files d) ?n))"
      using node_at_target [OF found(2)] by (simp add: tree_abs_def)
    show ?thesis
    proof (cases "map_of (directories d) ?n")
      case (Some sub)
      then show ?thesis
        using found(1,4) ab wft node components_names_ok(2) [of s]
        by (auto simp: tree_write_def Let_def P makeFile_def lookupDirectory_def fs_put_def)
    next
      case None
      define d1 where "d1 = (case map_of (files d) ?n of Some f \<Rightarrow> d
        | None \<Rightarrow> Directory (directories d) (om_set ?n (File []) (files d)))"
      have d1: "storeFile d1 ?n (File c) = storeFile d ?n (File c)"
        by (auto simp: d1_def storeFile_def split: option.split)
      define t' where "t' = ?t\<lparr>superRoot :=
          storeDirectory (butlast (components s)) (storeFile d ?n (File c)) (superRoot ?t),
          numWriteSuccess := Suc (numWriteSuccess ?t)\<rparr>"
      have run: "tree_write t s c = Some (Result_ok, t')"
        using found(1) None components_names_ok(2) [of s] d1
        by (auto simp: tree_write_def Let_def P makeFile_def lookupDirectory_def t'_def d1_def
            split: option.splits)
      have abs': "tree_abs t' = (tree_abs t)(components s \<mapsto> NFile c)"
        using node_at_store_target [OF found(2), of "storeFile d ?n (File c)" "Some (NFile c)"]
          node_at_storeFile [OF None]
        by (simp add: t'_def tree_abs_def)
      have "tree_wf t'"
      proof (rule tree_wf_iff [THEN iffD2], intro conjI allI)
        show "dir_wf (superRoot t')"
          using dir_wf_store [OF wf found(2) dir_wf_storeFile [OF found(3) clean None]]
          by (simp add: t'_def)
        have "components s \<noteq> [''root'']"
          using assms(1) node None
          by (cases "map_of (files d) ?n") (auto simp: tree_wf_iff)
        then have "[n] \<noteq> components s" for n
          using components_single by metis
        then show "tree_abs t' [n] = (if n = ''root'' then Some NDir else None)" for n
          using assms(1) abs' by (auto simp: tree_wf_iff)
      qed
      moreover have "fs_put (tree_abs t) (components s) c = (OK, tree_abs t')"
        using found(4) ab None node abs'
        by (cases "map_of (files d) ?n") (auto simp: fs_put_def)
      ultimately show ?thesis using run by simp
    qed
  qed
qed

lemma node_at_eraseFile:
  "map_of (directories d) n = None \<Longrightarrow>
     node_at (Directory (directories d) (om_erase n (files d))) q = (if q = [n] then None else node_at d q)"
  by (cases q) (auto simp: map_of_om_erase split: option.split)

text \<open>A tree whose abstraction is unchanged on one-name paths keeps the invariant.\<close>

lemma tree_wf_step:
  assumes "tree_wf t" "dir_wf (superRoot t')" "\<And>n. tree_abs t' [n] = tree_abs t [n]"
  shows "tree_wf t'"
  using assms by (simp add: tree_wf_iff)

lemma not_root_path:
  assumes "tree_wf t" "tree_abs t (components s) \<noteq> Some NDir"
  shows "[n] \<noteq> components s"
proof
  assume "[n] = components s"
  moreover from this have "n = ''root''" using components_single by metis
  ultimately show False using assms by (metis tree_wf_iff)
qed

lemma removeFile_refines:
  assumes "tree_wf t" "validPath s"
  shows "\<exists>r t'. removeFile t s = Some (r, t') \<and> tree_wf t' \<and>
    (status r, tree_abs t') = fs_rmfile (tree_abs t) (components s)"
proof -
  let ?t = "t\<lparr>numRemoveFileAttempted := Suc (numRemoveFileAttempted t)\<rparr>"
  let ?n = "last (components s)"
  have wf: "dir_wf (superRoot ?t)" and ab: "tree_abs ?t = tree_abs t" and wft: "tree_wf ?t"
    using assms(1) by (simp_all add: tree_wf_def tree_abs_def)
  note P = mkPath_valid [OF assms(2)]
  show ?thesis
    using wf assms(2)
  proof (cases rule: normalLookup_cases)
    case (missing r)
    then show ?thesis
      using ab wft by (auto simp: removeFile_def Let_def P fs_rmfile_def tree_abs_def tree_wf_def)
  next
    case (found d)
    have node: "tree_abs t (components s) = (case map_of (directories d) ?n of
        Some _ \<Rightarrow> Some NDir | None \<Rightarrow> map_option (\<lambda>f. NFile (contents f)) (map_of (files d) ?n))"
      using node_at_target [OF found(2)] by (simp add: tree_abs_def)
    show ?thesis
    proof (cases "map_of (directories d) ?n")
      case (Some sub)
      then show ?thesis
        using found(1,4) ab wft node components_names_ok(2) [of s]
        by (auto simp: removeFile_def Let_def P lookupDirectory_def fs_rmfile_def)
    next
      case None
      let ?new = "Directory (directories d) (om_erase ?n (files d))"
      obtain t' where run: "removeFile t s = Some (Result_ok, t')"
        and root: "superRoot t' = storeDirectory (butlast (components s)) ?new (superRoot t)"
        using found(1) None components_names_ok(2) [of s]
        by (auto simp: removeFile_def Let_def P lookupDirectory_def removeFile_dir_def)
      have abs': "tree_abs t' = (tree_abs t)(components s := None)"
        using node_at_store_target [OF found(2), of ?new None] node_at_eraseFile [OF None]
        by (simp add: tree_abs_def root)
      have notdir: "tree_abs t (components s) \<noteq> Some NDir"
        using node None by (cases "map_of (files d) ?n") auto
      have "tree_wf t'"
      proof (rule tree_wf_step [OF assms(1)])
        show "dir_wf (superRoot t')"
          using dir_wf_store [OF wf found(2) dir_wf_erase(2) [OF found(3)]] by (simp add: root)
        show "tree_abs t' [n] = tree_abs t [n]" for n
          using not_root_path [OF assms(1) notdir, of n] by (simp add: abs')
      qed
      moreover have "fs_rmfile (tree_abs t) (components s) = (OK, tree_abs t')"
        using found(4) ab notdir abs' by (simp add: fs_rmfile_def)
      ultimately show ?thesis using run by simp
    qed
  qed
qed

section \<open>Directories\<close>

lemma node_at_eraseDirectory:
  "map_of (files d) n = None \<Longrightarrow>
     node_at (Directory (om_erase n (directories d)) (files d)) q =
       (if prefix [n] q then None else node_at d q)"
  by (cases q) (auto simp: map_of_om_erase split: option.split)

lemma node_at_emptied:
  "map_of (files d) n = None \<Longrightarrow>
     node_at (Directory (om_set n emptyDirectory (om_erase n (directories d))) (files d)) q =
       (if prefix [n] q \<and> q \<noteq> [n] then None else if q = [n] then Some NDir else node_at d q)"
  by (cases q; cases "tl q") (auto simp: map_of_om_erase map_of_om_set split: option.split)

lemma prefix_butlast_last:
  "ps \<noteq> [] \<Longrightarrow> prefix (butlast ps) q \<Longrightarrow> prefix [last ps] (drop (length (butlast ps)) q) \<longleftrightarrow> prefix ps q"
  by (metis append_butlast_last_id append_eq_conv_conj prefix_def same_prefix_prefix)

lemma removeDirectory_refines:
  assumes "tree_wf t" "validPath s"
  shows "\<exists>r t'. removeDirectory t s = Some (r, t') \<and> tree_wf t' \<and>
    (status r, tree_abs t') = fs_rmdir (tree_abs t) (components s)"
proof -
  let ?t = "t\<lparr>numRemoveDirectoryAttempted := Suc (numRemoveDirectoryAttempted t)\<rparr>"
  let ?ps = "components s" and ?n = "last (components s)"
  have wf: "dir_wf (superRoot ?t)" and ab: "tree_abs ?t = tree_abs t" and wft: "tree_wf ?t"
    using assms(1) by (simp_all add: tree_wf_def tree_abs_def)
  note P = mkPath_valid [OF assms(2)]
  show ?thesis
    using wf assms(2)
  proof (cases rule: normalLookup_cases)
    case (missing r)
    then show ?thesis
      using ab wft by (auto simp: removeDirectory_def Let_def P fs_rmdir_def tree_abs_def tree_wf_def)
  next
    case (found d)
    have node: "tree_abs t ?ps = (case map_of (directories d) ?n of
        Some _ \<Rightarrow> Some NDir | None \<Rightarrow> map_option (\<lambda>f. NFile (contents f)) (map_of (files d) ?n))"
      using node_at_target [OF found(2)] by (simp add: tree_abs_def)
    show ?thesis
    proof (cases "map_of (directories d) ?n")
      case None
      then show ?thesis
        using found(1,4) ab wft node components_names_ok(2) [of s]
        by (cases "map_of (files d) ?n")
          (auto simp: removeDirectory_def Let_def P lookupDirectory_def lookupFile_def fs_rmdir_def
            tree_abs_def tree_wf_def)
    next
      case (Some sub)
      note nf = dir_wf_disjoint [OF found(3) Some]
      let ?erased = "Directory (om_erase ?n (directories d)) (files d)"
      let ?new = "if butlast ?ps = [] then
          Directory (om_set ?n emptyDirectory (om_erase ?n (directories d))) (files d) else ?erased"
      obtain t' where run: "removeDirectory t s = Some (Result_ok, t')"
        and root: "superRoot t' = storeDirectory (butlast ?ps) ?new (superRoot t)"
        using found(1) Some nf components_names_ok(2) [of s]
        by (cases "butlast ?ps = []") (auto simp: removeDirectory_def Let_def P lookupDirectory_def
            lookupFile_def removeDirectory_dir_def makeDirectory_dir_def map_of_om_erase)
      have dir: "node_at d [?n] = Some NDir" using Some by simp
      have "tree_abs t' q = snd (fs_rmdir (tree_abs t) ?ps) q" for q
      proof (cases "prefix (butlast ?ps) q")
        case True
        then obtain r where q: "q = butlast ?ps @ r" by (auto simp: prefix_def)
        have eqps: "q = ?ps \<longleftrightarrow> r = [?n]"
          using q by (metis append_butlast_last_id components_not_Nil same_append_eq)
        have "tree_abs t' q = node_at ?new r" "tree_abs t q = node_at d r"
          using node_at_store [OF found(2), of ?new q] node_at_append [OF found(2), of r] q
          by (simp_all add: tree_abs_def root)
        moreover have "prefix [?n] r \<longleftrightarrow> prefix ?ps q"
          using prefix_butlast_last [OF components_not_Nil True] q by simp
        ultimately show ?thesis
          using found(4) ab node Some node_at_eraseDirectory [OF nf, of r] node_at_emptied [OF nf, of r]
            eqps dir by (auto simp: fs_rmdir_def)
      next
        case False
        then have "\<not> prefix ?ps q"
          by (meson prefix_order.trans prefixeq_butlast)
        with False show ?thesis
          using node_at_store [OF found(2), of ?new q] found(4) ab node Some
          by (simp add: fs_rmdir_def tree_abs_def root)
      qed
      then have abs': "tree_abs t' = snd (fs_rmdir (tree_abs t) ?ps)" by blast
      have ok: "fst (fs_rmdir (tree_abs t) ?ps) = OK"
        using found(4) ab node Some by (simp add: fs_rmdir_def)
      have "dir_wf ?new"
        using dir_wf_erase(1) [OF found(3), of ?n] dir_wf_key [OF found(3) Some] nf
          dir_wf_set_directory [of ?erased emptyDirectory ?n] by auto
      then have "dir_wf (superRoot t')"
        using dir_wf_store [OF wf found(2)] by (simp add: root)
      moreover have "tree_abs t' [m] = tree_abs t [m]" for m
        using found(4) ab node Some
        by (cases ?ps; cases "tl ?ps") (auto simp: abs' fs_rmdir_def)
      ultimately have "tree_wf t'" using tree_wf_step [OF assms(1)] by blast
      then show ?thesis using run abs' ok by (metis prod.collapse status_Result(1))
    qed
  qed
qed

text \<open>Making one directory.\<close>

lemma makeDirectory_dir_spec:
  assumes "dir_wf d" "cleanName n"
  shows "map_of (files d) n = Some f \<Longrightarrow> makeDirectory_dir d n = Some (d, None)"
    and "map_of (files d) n = None \<Longrightarrow> \<exists>d' c. makeDirectory_dir d n = Some (d', Some c) \<and> dir_wf d' \<and>
       map_of (directories d') n = Some c \<and> files d' = files d \<and>
       c = (case map_of (directories d) n of Some c \<Rightarrow> c | None \<Rightarrow> emptyDirectory) \<and>
       map_of (directories d') = (map_of (directories d))(n \<mapsto> c)"
  using assms cleanName_nameOk [OF assms(2)] dir_wf_set_directory [OF assms(1) dir_wf_empty assms(2)]
  by (auto simp: makeDirectory_dir_def lookupFile_def map_of_om_set fun_upd_idem split: option.split)

lemma node_at_empty: "node_at emptyDirectory q = (if q = [] then Some NDir else None)"
  by (cases q) auto

lemma node_at_upd_dir:
  "map_of (directories d') = (map_of (directories d))(n \<mapsto> c) \<Longrightarrow> files d' = files d \<Longrightarrow>
     node_at d' q = (case q of [] \<Rightarrow> Some NDir
       | m # ms \<Rightarrow> if m = n then node_at c ms else node_at d q)"
  by (cases q) (auto split: option.split)

lemma list_ex_prefixes_Cons:
  "list_ex P (prefixes (n # ns)) \<longleftrightarrow> P [] \<or> list_ex (\<lambda>q. P (n # q)) (prefixes ns)"
  by (auto simp: list_ex_iff)

lemma mkdirLookupFrom_spec:
  assumes "\<forall>n \<in> set ns. cleanName n" "dir_wf d"
  shows "\<exists>r par d'. mkdirLookupFrom p k ns d = Some (r, par, d') \<and> dir_wf d' \<and>
    (if list_ex (\<lambda>q. isFile (node_at d q)) (prefixes ns)
     then status r = TYPE_ERROR \<and> par = None \<and> (\<forall>q. node_at d' q = node_at d q)
     else r = Result_ok \<and> par \<noteq> None \<and> par = dir_at d' ns \<and>
       (\<forall>q. node_at d' q = (if prefix q ns then Some NDir else node_at d q)))"
  using assms
proof (induction ns arbitrary: d k)
  case Nil
  then show ?case by (auto simp: node_at.simps(1))
next
  case (Cons n ns)
  have clean: "cleanName n" using Cons.prems by simp
  show ?case
  proof (cases "map_of (files d) n")
    case (Some f)
    have nd: "map_of (directories d) n = None"
      using Some dir_wf_disjoint [OF Cons.prems(2), of n] by (cases "map_of (directories d) n") auto
    then have "isFile (node_at d [n])" using Some by simp
    then have "list_ex (\<lambda>q. isFile (node_at d q)) (prefixes (n # ns))"
      unfolding list_ex_iff by (intro bexI [of _ "[n]"]) (auto simp del: node_at.simps)
    then show ?thesis
      using makeDirectory_dir_spec(1) [OF Cons.prems(2) clean Some] Cons.prems(2) by simp
  next
    case None
    define c where "c = (case map_of (directories d) n of Some c \<Rightarrow> c | None \<Rightarrow> emptyDirectory)"
    obtain d1 where d1: "makeDirectory_dir d n = Some (d1, Some c)" "dir_wf d1" "files d1 = files d"
      "map_of (directories d1) n = Some c" "map_of (directories d1) = (map_of (directories d))(n \<mapsto> c)"
      using makeDirectory_dir_spec(2) [OF Cons.prems(2) clean None] c_def by auto
    have cwf: "dir_wf c"
      using dir_wf_child [OF d1(2,4)] .
    have nc: "node_at d (n # q) = node_at c q" if "map_of (directories d) n \<noteq> None \<or> q \<noteq> []" for q
      using that None node_at_empty [of q] by (auto simp: c_def split: option.split)
    have fileiff: "isFile (node_at d (n # q)) \<longleftrightarrow> isFile (node_at c q)" for q
      using nc [of q] None by (cases "q = []") (auto simp: c_def split: option.split)
    obtain r par c' where rec: "mkdirLookupFrom p (Suc k) ns c = Some (r, par, c')" "dir_wf c'"
      "if list_ex (\<lambda>q. isFile (node_at c q)) (prefixes ns)
       then status r = TYPE_ERROR \<and> par = None \<and> (\<forall>q. node_at c' q = node_at c q)
       else r = Result_ok \<and> par \<noteq> None \<and> par = dir_at c' ns \<and>
         (\<forall>q. node_at c' q = (if prefix q ns then Some NDir else node_at c q))"
      using Cons.IH [of c "Suc k"] Cons.prems(1) cwf by auto
    let ?d' = "Directory (om_set n c' (directories d1)) (files d1)"
    have run: "mkdirLookupFrom p k (n # ns) d = Some (r, par, ?d')"
      using d1(1) rec(1) by simp
    have wf': "dir_wf ?d'"
      using dir_wf_set_directory [OF d1(2) rec(2) clean] None d1(3) by simp
    have look: "map_of (directories ?d') = (map_of (directories d))(n \<mapsto> c')"
      by (simp add: map_of_om_set d1(5))
    note node' = node_at_upd_dir [OF look, unfolded Directory.sel, OF d1(3)]
    have ex: "list_ex (\<lambda>q. isFile (node_at d q)) (prefixes (n # ns)) \<longleftrightarrow>
        list_ex (\<lambda>q. isFile (node_at c q)) (prefixes ns)"
      unfolding list_ex_prefixes_Cons fileiff by simp
    show ?thesis
    proof (cases "list_ex (\<lambda>q. isFile (node_at c q)) (prefixes ns)")
      case True
      then have "map_of (directories d) n \<noteq> None"
        by (auto simp: c_def list_ex_iff node_at_empty split: option.splits if_splits)
      then have "\<forall>q. node_at ?d' q = node_at d q"
        using rec(3) True node' nc by (simp split: list.split)
      then show ?thesis using run wf' rec(3) True ex by simp
    next
      case False
      have "\<forall>q. node_at ?d' q = (if prefix q (n # ns) then Some NDir else node_at d q)"
      proof
        fix q
        show "node_at ?d' q = (if prefix q (n # ns) then Some NDir else node_at d q)"
        proof (cases q)
          case Nil
          then show ?thesis by simp
        next
          case (Cons m ms)
          have "node_at ?d' q = (if m = n then node_at c' ms else node_at d q)"
            using node' [of q] unfolding Cons list.case by simp
          moreover have "node_at d q = node_at c ms" if "m = n" "ms \<noteq> []"
            using nc [of ms] that unfolding Cons by blast
          ultimately show ?thesis
            using rec(3) False unfolding Cons
            by (cases "ms = []") (auto simp del: node_at.simps(2))
        qed
      qed
      moreover have "r = Result_ok" "par \<noteq> None" "par = dir_at c' ns"
        using rec(3) unfolding if_not_P [OF False] by blast+
      moreover have "dir_at c' ns = dir_at ?d' (n # ns)" using look by simp
      ultimately show ?thesis
        unfolding ex if_not_P [OF False] using run wf' by metis
    qed
  qed
qed

lemma makeDirectory_refines:
  assumes "tree_wf t" "validPath s"
  shows "\<exists>r t'. makeDirectory t s = Some (r, t') \<and> tree_wf t' \<and>
    (status r, tree_abs t') = fs_mkdir (tree_abs t) (components s)"
proof -
  let ?t = "t\<lparr>numMakeDirectoryAttempted := Suc (numMakeDirectoryAttempted t)\<rparr>"
  let ?ps = "components s" and ?n = "last (components s)" and ?d = "superRoot t"
  have wf: "dir_wf ?d" using assms(1) by (simp add: tree_wf_def)
  note P = mkPath_valid [OF assms(2)]
  have split: "?ps = butlast ?ps @ [?n]" by simp
  have clean: "\<forall>m \<in> set (butlast ?ps). cleanName m" "cleanName ?n"
    by (meson components_clean in_set_butlastD) (meson components_clean last_in_set components_not_Nil)
  have pref: "list_ex F (prefixes ?ps) \<longleftrightarrow> list_ex F (prefixes (butlast ?ps)) \<or> F ?ps" for F
    by (subst split, subst prefixes_snoc) simp
  obtain r par d' where look: "mkdirLookupFrom (mkPath s) 0 (butlast ?ps) ?d = Some (r, par, d')"
    "dir_wf d'" "if list_ex (\<lambda>q. isFile (node_at ?d q)) (prefixes (butlast ?ps))
     then status r = TYPE_ERROR \<and> par = None \<and> (\<forall>q. node_at d' q = node_at ?d q)
     else r = Result_ok \<and> par \<noteq> None \<and> par = dir_at d' (butlast ?ps) \<and>
       (\<forall>q. node_at d' q = (if prefix q (butlast ?ps) then Some NDir else node_at ?d q))"
    using mkdirLookupFrom_spec [OF clean(1) wf] by blast
  have run1: "mkdirLookup ?t (mkPath s) = Some (r, par, ?t\<lparr>superRoot := d'\<rparr>)"
    using look(1) P by (simp add: mkdirLookup_def)
  show ?thesis
  proof (cases "list_ex (\<lambda>q. isFile (node_at ?d q)) (prefixes (butlast ?ps))")
    case True
    then have "makeDirectory t s = Some (r, ?t\<lparr>superRoot := d'\<rparr>)" "status r = TYPE_ERROR"
      "node_at d' = node_at ?d"
      using run1 look(3) P by (auto simp: makeDirectory_def Let_def)
    moreover have "tree_wf (?t\<lparr>superRoot := d'\<rparr>)"
      using calculation(3) look(2) by (intro tree_wf_step [OF assms(1)]) (auto simp: tree_abs_def)
    ultimately show ?thesis
      using True pref [of "\<lambda>q. isFile (node_at ?d q)"] by (auto simp: tree_abs_def fs_mkdir_def)
  next
    case False
    then obtain c where c: "par = Some c" "dir_at d' (butlast ?ps) = Some c" "r = Result_ok"
      and nodes: "\<And>q. node_at d' q = (if prefix q (butlast ?ps) then Some NDir else node_at ?d q)"
      using look(3) by (cases "dir_at d' (butlast ?ps)") auto
    have cwf: "dir_wf c" using dir_at_wf [OF look(2) c(2)] .
    have below: "node_at c q = node_at ?d (butlast ?ps @ q)" if "q \<noteq> []" for q
      using node_at_append [OF c(2), of q] nodes [of "butlast ?ps @ q"] that
      by (simp add: prefix_def)
    show ?thesis
    proof (cases "map_of (files c) ?n")
      case (Some f)
      have nd: "map_of (directories c) ?n = None"
        using Some dir_wf_disjoint [OF cwf, of ?n] by (cases "map_of (directories c) ?n") auto
      then have "node_at c [?n] = Some (NFile (contents f))"
        using Some by simp
      then have "node_at ?d ?ps = Some (NFile (contents f))"
        using below [of "[?n]"] by simp
      then have fileT: "isFile (node_at ?d ?ps)" by simp
      have dirat: "dir_at ?d (butlast ?ps) \<noteq> None"
        using fileT node_at_below [of "[?n]" ?d "butlast ?ps"] split by (metis isFile_simps(3) list.discI)
      then have same: "node_at d' q = node_at ?d q" for q
        using nodes [of q] node_at_prefix_dir [OF dirat, of q] by simp
      have "makeDirectory t s = Some (mkResult TYPE_ERROR (s @ '' already exists but is a file''),
          ?t\<lparr>superRoot := d'\<rparr>)"
        using run1 c P makeDirectory_dir_spec(1) [OF cwf clean(2) Some]
        by (simp add: makeDirectory_def)
      moreover have "tree_wf (?t\<lparr>superRoot := d'\<rparr>)"
        using same look(2)
        by (intro tree_wf_step [OF assms(1)]) (simp_all add: tree_abs_def del: node_at.simps(2))
      ultimately show ?thesis
        using fileT same pref [of "\<lambda>q. isFile (node_at ?d q)"]
        by (auto simp: tree_abs_def fs_mkdir_def fun_eq_iff)
    next
      case None
      obtain c' sub where c': "makeDirectory_dir c ?n = Some (c', Some sub)" "dir_wf c'"
        "files c' = files c" "map_of (directories c') = (map_of (directories c))(?n \<mapsto> sub)"
        "sub = (case map_of (directories c) ?n of Some c \<Rightarrow> c | None \<Rightarrow> emptyDirectory)"
        using makeDirectory_dir_spec(2) [OF cwf clean(2) None] by blast
      have nc': "node_at c' q = (if q = [?n] then Some NDir else node_at c q)" for q
        using node_at_upd_dir [OF c'(4,3), of q] None c'(5)
        by (auto simp: node_at_empty split: list.split option.split)
      define t' where "t' = (?t\<lparr>superRoot := storeDirectory (butlast ?ps) c' d',
          numMakeDirectorySuccess := Suc (numMakeDirectorySuccess ?t)\<rparr>)"
      have run: "makeDirectory t s = Some (Result_ok, t')"
        using run1 c P c'(1) by (simp add: makeDirectory_def t'_def)
      have abs': "tree_abs t' = (node_at d')(?ps \<mapsto> NDir)"
        using node_at_store_target [OF c(2), of c' "Some NDir"] nc'
        by (simp add: tree_abs_def t'_def)
      have pq: "prefix q ?ps \<longleftrightarrow> prefix q (butlast ?ps) \<or> q = ?ps" for q
        by (metis append_butlast_last_id components_not_Nil prefix_snoc)
      have res: "tree_abs t' q = (if prefix q ?ps then Some NDir else tree_abs t q)" for q
        using nodes [of q] pq [of q] by (simp add: abs' tree_abs_def [of t])
      have nofile: "\<not> isFile (node_at ?d ?ps)"
      proof -
        have "\<not> isFile (node_at c [?n])" using None by (simp split: option.split)
        then show ?thesis using below [of "[?n]"] by (simp del: node_at.simps(2))
      qed
      have "tree_wf t'"
      proof (rule tree_wf_step [OF assms(1)])
        show "dir_wf (superRoot t')"
          using dir_wf_store [OF look(2) c(2) c'(2)] by (simp add: t'_def)
        have "prefix [m] ?ps \<Longrightarrow> m = ''root''" for m
          by (simp add: components_Cons)
        moreover have "tree_abs t [''root''] = Some NDir"
          using assms(1) by (simp add: tree_wf_iff)
        ultimately show "tree_abs t' [m] = tree_abs t [m]" for m
          using res [of "[m]"] by (cases "prefix [m] ?ps") auto
      qed
      moreover have "\<not> list_ex (\<lambda>q. isFile (tree_abs t q)) (prefixes ?ps)"
        using False nofile pref [of "\<lambda>q. isFile (node_at ?d q)"] by (simp add: tree_abs_def)
      then have "fs_mkdir (tree_abs t) ?ps = (OK, \<lambda>q. if prefix q ?ps then Some NDir else tree_abs t q)"
        by (simp add: fs_mkdir_def)
      moreover have "(\<lambda>q. if prefix q ?ps then Some NDir else tree_abs t q) = tree_abs t'"
        using res by (simp add: fun_eq_iff)
      ultimately show ?thesis using run by simp
    qed
  qed
qed

section \<open>Listing and conditions\<close>

definition fs_status :: "fs \<Rightarrow> string list \<Rightarrow> Status" where
  "fs_status f ps = (if fs_parents f ps \<noteq> OK then fs_parents f ps
     else case f ps of Some NDir \<Rightarrow> OK | Some (NFile _) \<Rightarrow> TYPE_ERROR | None \<Rightarrow> LOOKUP_ERROR)"

lemma children_nodes:
  assumes "dir_wf c"
  shows "set (map fst (directories c)) = {n. node_at c [n] = Some NDir}"
    and "set (map fst (files c)) = {n. isFile (node_at c [n])}"
proof -
  have key: "n \<in> set (map fst m) \<longleftrightarrow> map_of m n \<noteq> None" for n and m :: "(string \<times> 'v) list"
    by (simp add: map_of_eq_None_iff)
  have "n \<in> set (map fst (directories c)) \<longleftrightarrow> node_at c [n] = Some NDir" for n
    unfolding key by (cases "map_of (directories c) n"; cases "map_of (files c) n") auto
  then show "set (map fst (directories c)) = {n. node_at c [n] = Some NDir}" by blast
  have "n \<in> set (map fst (files c)) \<longleftrightarrow> isFile (node_at c [n])" for n
    using dir_wf_disjoint [OF assms, of n] unfolding key
    by (cases "map_of (directories c) n"; cases "map_of (files c) n") auto
  then show "set (map fst (files c)) = {n. isFile (node_at c [n])}" by blast
qed

text \<open>A listing has the subdirectories, each with a trailing slash and in ascending order, and
  then the files in ascending order.\<close>

lemma listDirectory_refines:
  assumes "tree_wf t" "validPath s"
  shows "\<exists>r ch t'. listDirectory t s = Some (r, ch, t') \<and> superRoot t' = superRoot t \<and>
    status r = fs_status (tree_abs t) (components s) \<and>
    (if status r = OK then \<exists>ds fl. ch = map (\<lambda>n. n @ ''/'') ds @ fl \<and>
        sorted_wrt (<) ds \<and> sorted_wrt (<) fl \<and>
        set ds = {n. tree_abs t (components s @ [n]) = Some NDir} \<and>
        set fl = {n. isFile (tree_abs t (components s @ [n]))}
     else ch = [])"
proof -
  let ?t = "t\<lparr>numListDirectoryAttempted := Suc (numListDirectoryAttempted t)\<rparr>"
  let ?ps = "components s" and ?n = "last (components s)"
  have wf: "dir_wf (superRoot ?t)" and ab: "tree_abs ?t = tree_abs t"
    using assms(1) by (simp_all add: tree_wf_def tree_abs_def)
  note P = mkPath_valid [OF assms(2)]
  show ?thesis
    using wf assms(2)
  proof (cases rule: normalLookup_cases)
    case (missing r)
    then show ?thesis
      using ab by (auto simp: listDirectory_def Let_def P fs_status_def)
  next
    case (found d)
    have node: "tree_abs t ?ps = (case map_of (directories d) ?n of
        Some _ \<Rightarrow> Some NDir | None \<Rightarrow> map_option (\<lambda>f. NFile (contents f)) (map_of (files d) ?n))"
      using node_at_target [OF found(2)] by (simp add: tree_abs_def)
    show ?thesis
    proof (cases "map_of (directories d) ?n")
      case None
      then show ?thesis
        using found(1,4) ab node components_names_ok(2) [of s]
        by (cases "map_of (files d) ?n")
          (auto simp: listDirectory_def Let_def P lookupDirectory_def lookupFile_def fs_status_def)
    next
      case (Some c)
      have cwf: "dir_wf c" using dir_wf_child [OF found(3) Some] .
      have "dir_at (superRoot t) ?ps = Some c"
        using dir_at_append [of "superRoot t" "butlast ?ps" "[?n]"] found(2) Some by simp
      then have below: "tree_abs t (?ps @ [n]) = node_at c [n]" for n
        using node_at_append by (simp add: tree_abs_def)
      have run: "listDirectory t s = Some (Result_ok, getChildren c,
          ?t\<lparr>numListDirectorySuccess := Suc (numListDirectorySuccess ?t)\<rparr>)"
        using found(1) Some components_names_ok(2) [of s]
        by (simp add: listDirectory_def Let_def P lookupDirectory_def)
      have "getChildren c = map (\<lambda>n. n @ ''/'') (map fst (directories c)) @ map fst (files c)"
        by (simp add: getChildren_def)
      moreover have "sorted_wrt (<) (map fst (directories c))" "sorted_wrt (<) (map fst (files c))"
        using cwf by (cases c; simp add: om_wf_def)+
      ultimately have "\<exists>ds fl. getChildren c = map (\<lambda>n. n @ ''/'') ds @ fl \<and>
          sorted_wrt (<) ds \<and> sorted_wrt (<) fl \<and>
          set ds = {n. tree_abs t (?ps @ [n]) = Some NDir} \<and>
          set fl = {n. isFile (tree_abs t (?ps @ [n]))}"
        unfolding below children_nodes [OF cwf, symmetric] by blast
      moreover have "status Result_ok = fs_status (tree_abs t) ?ps"
        using found(4) ab node Some by (simp add: fs_status_def)
      ultimately show ?thesis
        using run by simp
    qed
  qed
qed

lemma checkCondition_refines:
  assumes "tree_wf t" "validPath s"
  shows "\<exists>r t'. checkCondition t s c = Some (r, t') \<and> superRoot t' = superRoot t \<and>
    status r = (if fs_read (tree_abs t) (components s) = (OK, c) \<or>
                   (fst (fs_read (tree_abs t) (components s)) = LOOKUP_ERROR \<and> c = [])
                then OK else CONDITION_NOT_MET)"
proof -
  let ?t = "t\<lparr>numConditionsChecked := Suc (numConditionsChecked t)\<rparr>"
  have "tree_wf ?t" "tree_abs ?t = tree_abs t"
    using assms(1) by (simp_all add: tree_wf_def tree_abs_def)
  then obtain r a t' where "tree_read ?t s = Some (r, a, t')" "superRoot t' = superRoot t"
    "(status r, a) = fs_read (tree_abs t) (components s)"
    using tree_read_refines [OF _ assms(2), of ?t] by auto
  moreover from this(3) have "fs_read (tree_abs t) (components s) = (status r, a)" by simp
  ultimately show ?thesis
    by (auto simp: checkCondition_def Let_def)
qed

section \<open>The contract of the store\<close>

text \<open>
  What a client of the tree may rely on. Invalid paths are refused and change nothing; on valid
  paths every operation runs to completion and is the specification's update of the path map.
\<close>

locale path_store =
  fixes inv :: "'t \<Rightarrow> bool"
    and abs_of :: "'t \<Rightarrow> fs"
    and rd :: "'t \<Rightarrow> string \<Rightarrow> (Result \<times> string \<times> 't) option"
    and wr :: "'t \<Rightarrow> string \<Rightarrow> string \<Rightarrow> (Result \<times> 't) option"
    and mkd :: "'t \<Rightarrow> string \<Rightarrow> (Result \<times> 't) option"
    and rmf :: "'t \<Rightarrow> string \<Rightarrow> (Result \<times> 't) option"
    and rmd :: "'t \<Rightarrow> string \<Rightarrow> (Result \<times> 't) option"
  assumes rd_spec: "inv t \<Longrightarrow> validPath s \<Longrightarrow> \<exists>r c t'. rd t s = Some (r, c, t') \<and> inv t' \<and>
      abs_of t' = abs_of t \<and> (status r, c) = fs_read (abs_of t) (components s)"
    and wr_spec: "inv t \<Longrightarrow> validPath s \<Longrightarrow> \<exists>r t'. wr t s c = Some (r, t') \<and> inv t' \<and>
      (status r, abs_of t') = fs_put (abs_of t) (components s) c"
    and mkd_spec: "inv t \<Longrightarrow> validPath s \<Longrightarrow> \<exists>r t'. mkd t s = Some (r, t') \<and> inv t' \<and>
      (status r, abs_of t') = fs_mkdir (abs_of t) (components s)"
    and rmf_spec: "inv t \<Longrightarrow> validPath s \<Longrightarrow> \<exists>r t'. rmf t s = Some (r, t') \<and> inv t' \<and>
      (status r, abs_of t') = fs_rmfile (abs_of t) (components s)"
    and rmd_spec: "inv t \<Longrightarrow> validPath s \<Longrightarrow> \<exists>r t'. rmd t s = Some (r, t') \<and> inv t' \<and>
      (status r, abs_of t') = fs_rmdir (abs_of t) (components s)"
begin

lemma wr_run:
  assumes "inv t" "validPath s" "wr t s c = Some (r, t')"
  shows "inv t'" "(status r, abs_of t') = fs_put (abs_of t) (components s) c"
  using wr_spec [OF assms(1,2), of c] assms(3) by auto

lemma rd_run:
  assumes "inv t" "validPath s"
  obtains r c t' where "rd t s = Some (r, c, t')" "inv t'" "abs_of t' = abs_of t"
    "(status r, c) = fs_read (abs_of t) (components s)"
  using rd_spec [OF assms] by blast

lemma read_after_write:
  assumes "inv t" "validPath s" "wr t s c = Some (r, t')" "status r = OK"
  shows "\<exists>r2 t2. rd t' s = Some (r2, c, t2) \<and> status r2 = OK"
proof -
  note w = wr_run [OF assms(1-3)]
  have ok: "fs_parents (abs_of t) (components s) = OK"
    and upd: "abs_of t' = (abs_of t)(components s \<mapsto> NFile c)"
    using w(2) assms(4) by (auto simp: fs_put_def split: if_splits)
  have "fs_parents (abs_of t') (components s) = OK"
    using ok by (simp add: fs_parents_def upd split: if_splits)
      (metis append_butlast_last_id append_self_conv components_not_Nil list.discI)
  then have "fs_read (abs_of t') (components s) = (OK, c)"
    by (simp add: fs_read_def upd)
  moreover obtain r2 c2 t2 where "rd t' s = Some (r2, c2, t2)"
    "(status r2, c2) = fs_read (abs_of t') (components s)"
    using rd_run [OF w(1) assms(2)] by metis
  ultimately show ?thesis by simp
qed

lemma mkdir_then_write:
  assumes "inv t" "validPath s" "validPath s'" "butlast (components s') = components s"
    and "mkd t s = Some (r, t')" "status r = OK" "abs_of t (components s') \<noteq> Some NDir"
  shows "\<exists>r2 t2. wr t' s' c = Some (r2, t2) \<and> status r2 = OK \<and>
    abs_of t2 (components s') = Some (NFile c)"
proof -
  obtain "inv t'" "(status r, abs_of t') = fs_mkdir (abs_of t) (components s)"
    using mkd_spec [OF assms(1,2)] assms(5) by auto
  then have inv': "inv t'" and upd: "abs_of t' = (\<lambda>q. if prefix q (components s) then Some NDir else abs_of t q)"
    using assms(6) by (auto simp: fs_mkdir_def split: if_splits)
  have np: "\<not> prefix (components s') (components s)"
    using assms(4) by (metis append_butlast_last_id append_self_conv components_not_Nil
        list.discI prefix_order.eq_iff prefixeq_butlast)
  have "fs_put (abs_of t') (components s') c = (OK, (abs_of t')(components s' \<mapsto> NFile c))"
    using assms(4,7) np by (simp add: fs_put_def fs_parents_def upd)
  then show ?thesis
    using wr_spec [OF inv' assms(3), of c] by auto
qed

lemma remove_then_read:
  assumes "inv t" "validPath s" "rmf t s = Some (r, t')" "status r = OK"
  shows "\<exists>r2 c2 t2. rd t' s = Some (r2, c2, t2) \<and> status r2 = LOOKUP_ERROR"
proof -
  have "inv t'" and e: "(status r, abs_of t') = fs_rmfile (abs_of t) (components s)"
    using rmf_spec [OF assms(1,2)] assms(3) by auto
  have nb: "components s \<noteq> butlast (components s)"
    by (metis append_butlast_last_id append_self_conv components_not_Nil list.discI)
  have nf: "q \<in> set (prefixes (butlast (components s))) \<Longrightarrow> q \<noteq> components s" for q
    using nb by (metis in_set_prefixes prefix_order.eq_iff prefixeq_butlast)
  have "fs_parents ((abs_of t)(components s := None)) (components s) = fs_parents (abs_of t) (components s)"
    using nb nf by (auto simp: fs_parents_def list_ex_iff)
  then have "fst (fs_read (abs_of t') (components s)) = LOOKUP_ERROR"
    using e assms(4)
    by (auto simp: fs_rmfile_def fs_read_def split: Status.splits if_splits)
  moreover obtain r2 c2 t2 where "rd t' s = Some (r2, c2, t2)"
    "(status r2, c2) = fs_read (abs_of t') (components s)"
    using rd_run [OF \<open>inv t'\<close> assms(2)] by metis
  ultimately show ?thesis by (metis fst_conv)
qed

end

lemma tree_wf_mkTree: "tree_wf mkTree"
  by (simp add: tree_wf_def mkTree_def om_wf_def cleanName_def)

interpretation lt: path_store tree_wf tree_abs tree_read tree_write makeDirectory removeFile removeDirectory
proof
  fix t s
  assume "tree_wf t" "validPath s"
  then obtain r c t' where "tree_read t s = Some (r, c, t')" "superRoot t' = superRoot t"
    "(status r, c) = fs_read (tree_abs t) (components s)"
    using tree_read_refines by blast
  then show "\<exists>r c t'. tree_read t s = Some (r, c, t') \<and> tree_wf t' \<and> tree_abs t' = tree_abs t \<and>
      (status r, c) = fs_read (tree_abs t) (components s)"
    using \<open>tree_wf t\<close> by (auto simp: tree_wf_def tree_abs_def)
qed (fact tree_write_refines makeDirectory_refines removeFile_refines removeDirectory_refines)+

section \<open>Snapshots\<close>

text \<open>Every directory consumes a message, so the fuel that \<open>loadSnapshot_tree\<close> passes is never
  used up: more fuel gives the same result.\<close>

lemma loadSnapshot_files_length:
  "loadSnapshot_files fs ns s = Some (fs', s') \<Longrightarrow> length s' \<le> length s"
proof (induction fs ns s rule: loadSnapshot_files.induct)
  case (2 fs n ns s)
  then show ?case
    by (cases s) (fastforce simp: loadSnapshot_file_def split: SnapMsg.splits)+
qed simp

lemma loadSnapshot_length:
  "loadSnapshot_dir n d s = Some (d', s') \<Longrightarrow> length s' < length s"
  "loadSnapshot_dirs n ds ns s = Some (ds', s') \<Longrightarrow> length s' \<le> length s"
proof (induction n d s and n ds ns s arbitrary: d' s' and ds' s'
    rule: loadSnapshot_dir_loadSnapshot_dirs.induct)
  case (2 n d s)
  then show ?case
    by (cases s) (fastforce elim!: bind_SomeE split: SnapMsg.splits dest: loadSnapshot_files_length)+
next
  case (4 n ds nm nms s)
  then show ?case by (fastforce elim!: bind_SomeE)
qed simp_all

lemma loadSnapshot_fuel:
  "length s < n \<Longrightarrow> loadSnapshot_dir (Suc n) d s = loadSnapshot_dir n d s"
  "length s < n \<Longrightarrow> loadSnapshot_dirs (Suc n) ds ns s = loadSnapshot_dirs n ds ns s"
proof (induction n d s and n ds ns s rule: loadSnapshot_dir_loadSnapshot_dirs.induct)
  case (2 n d s)
  show ?case
  proof (cases s)
    case (Cons m s1)
    show ?thesis
    proof (cases m)
      case (SnapDirectory dn fn)
      have "loadSnapshot_dirs (Suc n) (directories d) dn s1 = loadSnapshot_dirs n (directories d) dn s1"
        using 2 Cons SnapDirectory by simp
      then show ?thesis using Cons SnapDirectory by simp
    qed (simp add: Cons)
  qed simp
next
  case (4 n ds nm nms s)
  let ?c = "case map_of ds nm of Some c \<Rightarrow> c | None \<Rightarrow> emptyDirectory"
  have e: "loadSnapshot_dir (Suc n) ?c s = loadSnapshot_dir n ?c s"
    using 4 by blast
  show ?case
  proof (cases "loadSnapshot_dir n ?c s")
    case (Some x)
    obtain d s' where x: "x = (d, s')" by fastforce
    then have "length s' < length s" using loadSnapshot_length(1) Some by blast
    then show ?thesis
      using 4(2) [OF Some [unfolded x] refl] 4(3) e Some x by simp
  qed (simp only: loadSnapshot_dirs.simps e, simp)
qed simp_all

lemma loadSnapshot_files_dump:
  "om_wf (pre @ fs) \<Longrightarrow>
     loadSnapshot_files pre (map fst fs) (concat (map (\<lambda>e. dumpSnapshot_file (snd e)) fs) @ rest)
       = Some (pre @ fs, rest)"
proof (induction fs arbitrary: pre)
  case (Cons e fs)
  obtain n f where e: "e = (n, f)" by fastforce
  have "\<forall>x \<in> fst ` set pre. x < n"
    using Cons.prems by (auto simp: e om_wf_def sorted_wrt_append)
  then have "om_set n f pre = pre @ [(n, f)]" by (rule om_set_append)
  then show ?case
    using Cons.IH [of "pre @ [e]"] Cons.prems
    by (simp add: e dumpSnapshot_file_def loadSnapshot_file_def)
qed simp

lemma loadSnapshot_dump:
  "dir_wf d \<Longrightarrow> length (dumpSnapshot_dir d) \<le> n \<Longrightarrow>
     loadSnapshot_dir n emptyDirectory (dumpSnapshot_dir d @ rest) = Some (d, rest)"
  "dirs_wf ds \<Longrightarrow> om_wf (pre @ ds) \<Longrightarrow> length (dumpSnapshot_dirs ds) \<le> n \<Longrightarrow>
     loadSnapshot_dirs n pre (map fst ds) (dumpSnapshot_dirs ds @ rest) = Some (pre @ ds, rest)"
proof (induction d and ds arbitrary: n rest and n pre rest
    rule: dumpSnapshot_dir_dumpSnapshot_dirs.induct)
  case (1 ds fs)
  then obtain m where m: "n = Suc m" by (cases n) auto
  let ?files = "concat (map (\<lambda>e. dumpSnapshot_file (snd e)) fs)"
  have "loadSnapshot_dirs m [] (map fst ds) (dumpSnapshot_dirs ds @ ?files @ rest) = Some (ds, ?files @ rest)"
    using 1 m by simp
  moreover have "loadSnapshot_files [] (map fst fs) (?files @ rest) = Some (fs, rest)"
    using 1 loadSnapshot_files_dump [of "[]" fs rest] by simp
  ultimately show ?case by (simp add: m)
next
  case (3 nm d ds)
  have "\<forall>x \<in> fst ` set pre. x < nm"
    using 3(4) by (auto simp: om_wf_def sorted_wrt_append)
  then have set: "om_set nm d pre = pre @ [(nm, d)]" by (rule om_set_append)
  have new: "map_of pre nm = None"
    using 3(4) om_wf_distinct [OF 3(4)] by (auto simp: map_of_eq_None_iff)
  have "loadSnapshot_dir n emptyDirectory (dumpSnapshot_dir d @ dumpSnapshot_dirs ds @ rest)
      = Some (d, dumpSnapshot_dirs ds @ rest)"
    using 3 by simp
  moreover have "loadSnapshot_dirs n (pre @ [(nm, d)]) (map fst ds) (dumpSnapshot_dirs ds @ rest)
      = Some (pre @ (nm, d) # ds, rest)"
    using 3(2) [of "pre @ [(nm, d)]"] 3(3-5) by simp
  ultimately show ?case by (simp add: new set)
qed simp

lemma tree_snapshot_roundtrip:
  assumes "tree_wf t"
  shows "loadSnapshot_tree u (dumpSnapshot_tree t @ rest) = Some (u\<lparr>superRoot := superRoot t\<rparr>, rest)"
  using assms loadSnapshot_dump(1) [of "superRoot t"]
  by (simp add: loadSnapshot_tree_def dumpSnapshot_tree_def tree_wf_def del: loadSnapshot_dir.simps)

end
