(* ===== verification/LC_TreeRPC.thy ===== *)
theory LC_TreeRPC
  imports LC_TreeSpec
begin

text \<open>
  The translation of client requests to tree operations (\<^verbatim>\<open>src/Tree/ProtoBuf.cc\<close>). The
  fields of a request that the protocol declares mutually exclusive are one datatype; a request
  with none of them set is \<open>NoRead\<close> or \<open>NoWrite\<close>, which the code answers with a \<^verbatim>\<open>PANIC\<close>.
\<close>

section \<open>Requests and responses\<close>

datatype PCStatus = PC_OK | PC_INVALID_ARGUMENT | PC_LOOKUP_ERROR | PC_TYPE_ERROR
  | PC_CONDITION_NOT_MET | PC_TIMEOUT | PC_SESSION_EXPIRED | PC_UNKNOWN

text \<open>\<^verbatim>\<open>static_cast<PC::Status>\<close>: the two enumerations agree on the values 0 to 4.\<close>

fun castStatus :: "Status \<Rightarrow> PCStatus" where
  "castStatus OK = PC_OK"
| "castStatus INVALID_ARGUMENT = PC_INVALID_ARGUMENT"
| "castStatus LOOKUP_ERROR = PC_LOOKUP_ERROR"
| "castStatus TYPE_ERROR = PC_TYPE_ERROR"
| "castStatus CONDITION_NOT_MET = PC_CONDITION_NOT_MET"

record TreeCondition =
  cond_path :: string
  cond_contents :: string

datatype ReadOp = ListDirectoryOp string | ReadOp string | NoRead

record ReadOnlyTreeRequest =
  ro_condition :: "TreeCondition option"
  ro_op :: ReadOp

record ReadOnlyTreeResponse =
  ro_status :: "PCStatus option"
  ro_error :: "string option"
  ro_children :: "string list"
  ro_contents :: "string option"

datatype WriteOp = MakeDirectoryOp string | RemoveDirectoryOp string
  | WriteFileOp string string | RemoveFileOp string | NoWrite

record ExactlyOnceRPCInfo =
  client_id :: nat
  first_outstanding_rpc :: nat
  rpc_number :: nat

record ReadWriteTreeRequest =
  exactly_once :: ExactlyOnceRPCInfo
  rw_condition :: "TreeCondition option"
  rw_op :: WriteOp

record ReadWriteTreeResponse =
  rw_status :: "PCStatus option"
  rw_error :: "string option"

section \<open>The two handlers\<close>

definition runCondition :: "Tree \<Rightarrow> TreeCondition option \<Rightarrow> (Result \<times> Tree) option" where
  "runCondition t c = (case c of None \<Rightarrow> Some (Result_ok, t)
     | Some k \<Rightarrow> checkCondition t (cond_path k) (cond_contents k))"

definition readOnlyTreeRPC ::
  "Tree \<Rightarrow> ReadOnlyTreeRequest \<Rightarrow> (Tree \<times> ReadOnlyTreeResponse) option" where
  "readOnlyTreeRPC t req = do {
     (r0, t0) \<leftarrow> runCondition t (ro_condition req);
     (r, ch, cont, t1) \<leftarrow>
       (if status r0 \<noteq> OK then Some (r0, [], None, t0)
        else case ro_op req of
          ListDirectoryOp p \<Rightarrow> do { (r, ch, t1) \<leftarrow> listDirectory t0 p; Some (r, ch, None, t1) }
        | ReadOp p \<Rightarrow> do { (r, c, t1) \<leftarrow> tree_read t0 p; Some (r, [], Some c, t1) }
        | NoRead \<Rightarrow> None);
     Some (t1, \<lparr>ro_status = Some (castStatus (status r)),
       ro_error = (if status r \<noteq> OK then Some (error r) else None),
       ro_children = ch, ro_contents = cont\<rparr>) }"

definition readWriteTreeRPC ::
  "Tree \<Rightarrow> ReadWriteTreeRequest \<Rightarrow> (Tree \<times> ReadWriteTreeResponse) option" where
  "readWriteTreeRPC t req = do {
     (r0, t0) \<leftarrow> runCondition t (rw_condition req);
     (r, t1) \<leftarrow>
       (if status r0 \<noteq> OK then Some (r0, t0)
        else case rw_op req of
          MakeDirectoryOp p \<Rightarrow> makeDirectory t0 p
        | RemoveDirectoryOp p \<Rightarrow> removeDirectory t0 p
        | WriteFileOp p c \<Rightarrow> tree_write t0 p c
        | RemoveFileOp p \<Rightarrow> removeFile t0 p
        | NoWrite \<Rightarrow> None);
     Some (t1, \<lparr>rw_status = Some (castStatus (status r)),
       rw_error = (if status r \<noteq> OK then Some (error r) else None)\<rparr>) }"

section \<open>Totality and preservation\<close>

text \<open>An invalid path is refused before the tree is looked at.\<close>

lemma tree_ops_invalid:
  assumes "\<not> validPath s"
  shows "\<exists>r t'. tree_write t s c = Some (r, t') \<and> status r = INVALID_ARGUMENT \<and> superRoot t' = superRoot t"
    and "\<exists>r t'. makeDirectory t s = Some (r, t') \<and> status r = INVALID_ARGUMENT \<and> superRoot t' = superRoot t"
    and "\<exists>r t'. removeDirectory t s = Some (r, t') \<and> status r = INVALID_ARGUMENT \<and> superRoot t' = superRoot t"
    and "\<exists>r t'. removeFile t s = Some (r, t') \<and> status r = INVALID_ARGUMENT \<and> superRoot t' = superRoot t"
    and "\<exists>r t'. tree_read t s = Some (r, [], t') \<and> status r = INVALID_ARGUMENT \<and> superRoot t' = superRoot t"
    and "\<exists>r t'. listDirectory t s = Some (r, [], t') \<and> status r = INVALID_ARGUMENT \<and> superRoot t' = superRoot t"
  using mkPath_invalid [OF assms]
  by (auto simp: tree_write_def makeDirectory_def removeDirectory_def removeFile_def tree_read_def
      listDirectory_def Let_def)

lemma tree_wf_superRoot: "superRoot t' = superRoot t \<Longrightarrow> tree_wf t' = tree_wf t"
  by (simp add: tree_wf_def)

lemma tree_abs_superRoot: "superRoot t' = superRoot t \<Longrightarrow> tree_abs t' = tree_abs t"
  by (simp add: tree_abs_def)

text \<open>A condition never changes the contents of the tree.\<close>

lemma runCondition_total:
  assumes "tree_wf t"
  obtains r t' where "runCondition t c = Some (r, t')" "superRoot t' = superRoot t"
proof (cases c)
  case None
  then show ?thesis using that by (simp add: runCondition_def)
next
  case (Some k)
  show ?thesis
  proof (cases "validPath (cond_path k)")
    case True
    then show ?thesis
      using that checkCondition_refines [OF assms True, of "cond_contents k"] Some
      by (auto simp: runCondition_def)
  next
    case False
    let ?t = "t\<lparr>numConditionsChecked := Suc (numConditionsChecked t)\<rparr>"
    obtain r t' where rd: "tree_read ?t (cond_path k) = Some (r, [], t')" "superRoot t' = superRoot t"
      "status r = INVALID_ARGUMENT"
      using tree_ops_invalid(5) [OF False, of ?t] by auto
    let ?r = "mkResult CONDITION_NOT_MET
        (''Could not read value at path '' @ quoted (cond_path k) @ '': '' @ error r)"
    have "runCondition t c = Some (?r, t'\<lparr>numConditionsFailed := Suc (numConditionsFailed t')\<rparr>)"
      using rd Some by (simp add: runCondition_def checkCondition_def Let_def)
    then show ?thesis using that rd(2) by simp
  qed
qed

lemma write_ops_keep_wf:
  assumes "tree_wf t"
  shows "\<exists>r t'. tree_write t s c = Some (r, t') \<and> tree_wf t'"
    and "\<exists>r t'. makeDirectory t s = Some (r, t') \<and> tree_wf t'"
    and "\<exists>r t'. removeDirectory t s = Some (r, t') \<and> tree_wf t'"
    and "\<exists>r t'. removeFile t s = Some (r, t') \<and> tree_wf t'"
  using lt.wr_spec [OF assms, of s c] tree_ops_invalid(1) [of s t c]
    lt.mkd_spec [OF assms, of s] tree_ops_invalid(2) [of s t]
    lt.rmd_spec [OF assms, of s] tree_ops_invalid(3) [of s t]
    lt.rmf_spec [OF assms, of s] tree_ops_invalid(4) [of s t]
    tree_wf_superRoot [of _ t] assms
  by meson+

lemma write_op_total:
  assumes "tree_wf t" "op \<noteq> NoWrite"
  shows "\<exists>r t'. (case op of
          MakeDirectoryOp p \<Rightarrow> makeDirectory t p
        | RemoveDirectoryOp p \<Rightarrow> removeDirectory t p
        | WriteFileOp p c \<Rightarrow> tree_write t p c
        | RemoveFileOp p \<Rightarrow> removeFile t p
        | NoWrite \<Rightarrow> None) = Some (r, t') \<and> tree_wf t'"
  using assms(2) write_ops_keep_wf [OF assms(1)] by (cases op) auto

text \<open>On a well-formed tree a request with an operation is always answered, and the tree stays
  well-formed.\<close>

lemma readWriteTreeRPC_total:
  assumes "tree_wf t" "rw_op req \<noteq> NoWrite"
  shows "\<exists>t' resp. readWriteTreeRPC t req = Some (t', resp) \<and> tree_wf t' \<and> rw_status resp \<noteq> None"
proof -
  obtain r0 t0 where c: "runCondition t (rw_condition req) = Some (r0, t0)" "superRoot t0 = superRoot t"
    using runCondition_total [OF assms(1)] by blast
  then have wf0: "tree_wf t0" using assms(1) tree_wf_superRoot by blast
  show ?thesis
    using c(1) wf0 write_op_total [OF wf0 assms(2)]
    by (cases "status r0 = OK") (auto simp: readWriteTreeRPC_def)
qed

lemma readWriteTreeRPC_wf:
  assumes "tree_wf t" "readWriteTreeRPC t req = Some (t', resp)"
  shows "tree_wf t'"
proof (cases "rw_op req = NoWrite")
  case False
  then show ?thesis using readWriteTreeRPC_total [OF assms(1) False] assms(2) by auto
next
  case True
  obtain r0 t0 where c: "runCondition t (rw_condition req) = Some (r0, t0)" "superRoot t0 = superRoot t"
    using runCondition_total [OF assms(1)] by blast
  then have "t' = t0" using assms(2) True by (auto simp: readWriteTreeRPC_def split: if_splits)
  then show ?thesis using c(2) assms(1) tree_wf_superRoot by blast
qed

text \<open>When the condition of a request does not hold, the tree's contents do not change.\<close>

lemma readWriteTreeRPC_condition_failed:
  assumes "tree_wf t" "rw_condition req = Some k" "validPath (cond_path k)"
    and "\<not> (fs_read (tree_abs t) (components (cond_path k)) = (OK, cond_contents k) \<or>
            (fst (fs_read (tree_abs t) (components (cond_path k))) = LOOKUP_ERROR \<and> cond_contents k = []))"
  shows "\<exists>t' resp. readWriteTreeRPC t req = Some (t', resp) \<and> superRoot t' = superRoot t \<and>
    rw_status resp = Some PC_CONDITION_NOT_MET"
  using checkCondition_refines [OF assms(1,3), of "cond_contents k"] assms(2,4)
  by (auto simp: readWriteTreeRPC_def runCondition_def)

text \<open>Read-only requests leave the contents of the tree alone.\<close>

lemma readOnlyTreeRPC_pure:
  assumes "tree_wf t" "ro_op req \<noteq> NoRead"
  shows "\<exists>t' resp. readOnlyTreeRPC t req = Some (t', resp) \<and> superRoot t' = superRoot t"
proof -
  obtain r0 t0 where c: "runCondition t (ro_condition req) = Some (r0, t0)" "superRoot t0 = superRoot t"
    using runCondition_total [OF assms(1)] by blast
  have wf0: "tree_wf t0" using assms(1) c(2) tree_wf_superRoot by blast
  show ?thesis
  proof (cases "ro_op req")
    case (ListDirectoryOp p)
    then show ?thesis
      using c listDirectory_refines [OF wf0, of p] tree_ops_invalid(6) [of p t0]
      by (cases "validPath p"; cases "status r0 = OK") (fastforce simp: readOnlyTreeRPC_def)+
  next
    case (ReadOp p)
    then show ?thesis
      using c tree_read_refines [OF wf0, of p] tree_ops_invalid(5) [of p t0]
      by (cases "validPath p"; cases "status r0 = OK") (fastforce simp: readOnlyTreeRPC_def)+
  qed (simp add: assms(2))
qed

lemma readOnlyTreeRPC_contents:
  assumes "tree_wf t" "readOnlyTreeRPC t req = Some (t', resp)"
  shows "superRoot t' = superRoot t"
proof (cases "ro_op req = NoRead")
  case False
  then show ?thesis using readOnlyTreeRPC_pure [OF assms(1) False] assms(2) by auto
next
  case True
  obtain r0 t0 where "runCondition t (ro_condition req) = Some (r0, t0)" "superRoot t0 = superRoot t"
    using runCondition_total [OF assms(1)] by blast
  then show ?thesis using assms(2) True by (auto simp: readOnlyTreeRPC_def split: if_splits)
qed

section \<open>Determinism\<close>

text \<open>The counters of a tree never influence an answer or its contents: two trees with the same
  contents answer alike and end with the same contents.\<close>

definition same_contents :: "('a \<times> Tree) option \<Rightarrow> ('a \<times> Tree) option \<Rightarrow> bool" where
  "same_contents x y \<longleftrightarrow>
     rel_option (\<lambda>(r, t) (r', t'). r = r' \<and> superRoot t = superRoot t') x y"

lemma same_contents_simps [simp]:
  "same_contents (Some (r, t)) (Some (r', t')) \<longleftrightarrow> r = r' \<and> superRoot t = superRoot t'"
  "same_contents None None"
  by (simp_all add: same_contents_def)

lemma same_contents_refl: "same_contents x x"
  by (cases x) (auto simp: same_contents_def)

lemma same_contents_bind:
  assumes "same_contents x y"
    and "\<And>r t t'. superRoot t = superRoot t' \<Longrightarrow> same_contents (f (r, t)) (g (r, t'))"
  shows "same_contents (x \<bind> f) (y \<bind> g)"
  using assms by (cases x; cases y) (auto simp: same_contents_def)

lemma same_contents_bind_same:
  assumes "\<And>a. same_contents (f a) (g a)"
  shows "same_contents (x \<bind> f) (x \<bind> g)"
  using assms by (cases x) auto

lemma normalLookup_superRoot: "superRoot t = superRoot u \<Longrightarrow> normalLookup t p = normalLookup u p"
  by (simp add: normalLookup_def)

lemma tree_write_same:
  assumes "superRoot t = superRoot u"
  shows "same_contents (tree_write t s c) (tree_write u s c)"
  using assms unfolding tree_write_def
  by (auto simp: normalLookup_def Let_def intro!: same_contents_bind_same split: option.split)

lemma removeFile_same:
  assumes "superRoot t = superRoot u"
  shows "same_contents (removeFile t s) (removeFile u s)"
  using assms unfolding removeFile_def
  by (auto simp: normalLookup_def Let_def intro!: same_contents_bind_same split: option.split)

lemma removeDirectory_same:
  assumes "superRoot t = superRoot u"
  shows "same_contents (removeDirectory t s) (removeDirectory u s)"
  using assms unfolding removeDirectory_def
  by (auto simp: normalLookup_def Let_def intro!: same_contents_bind_same split: option.split)

lemma makeDirectory_same:
  assumes "superRoot t = superRoot u"
  shows "same_contents (makeDirectory t s) (makeDirectory u s)"
  using assms unfolding makeDirectory_def mkdirLookup_def
  by (auto simp: Let_def intro!: same_contents_bind_same split: option.split)

lemma runCondition_same:
  assumes "superRoot t = superRoot u"
  shows "same_contents (runCondition t c) (runCondition u c)"
  using assms unfolding runCondition_def checkCondition_def tree_read_def
  by (auto simp: normalLookup_def Let_def intro!: same_contents_bind_same split: option.split)

lemma readWriteTreeRPC_same:
  assumes "superRoot t = superRoot u"
  shows "rel_option (\<lambda>(t', r) (u', r'). superRoot t' = superRoot u' \<and> r = r')
           (readWriteTreeRPC t req) (readWriteTreeRPC u req)"
proof -
  have op: "same_contents (case op of
          MakeDirectoryOp p \<Rightarrow> makeDirectory t p
        | RemoveDirectoryOp p \<Rightarrow> removeDirectory t p
        | WriteFileOp p c \<Rightarrow> tree_write t p c
        | RemoveFileOp p \<Rightarrow> removeFile t p
        | NoWrite \<Rightarrow> None)
       (case op of
          MakeDirectoryOp p \<Rightarrow> makeDirectory u p
        | RemoveDirectoryOp p \<Rightarrow> removeDirectory u p
        | WriteFileOp p c \<Rightarrow> tree_write u p c
        | RemoveFileOp p \<Rightarrow> removeFile u p
        | NoWrite \<Rightarrow> None)" if "superRoot t = superRoot u" for t u op
    using that by (cases op) (simp_all add: tree_write_same removeFile_same removeDirectory_same
        makeDirectory_same)
  have "same_contents
      (map_option (\<lambda>(t', r). (r, t')) (readWriteTreeRPC t req))
      (map_option (\<lambda>(t', r). (r, t')) (readWriteTreeRPC u req))"
    unfolding readWriteTreeRPC_def map_option_bind
    by (rule same_contents_bind [OF runCondition_same [OF assms]])
      (auto simp: map_option_bind comp_def intro!: same_contents_bind op)
  then show ?thesis
    by (cases "readWriteTreeRPC t req"; cases "readWriteTreeRPC u req")
      (auto simp: same_contents_def)
qed

end
