(* ===== verification/LC_TreeProps.thy ===== *)
theory LC_TreeProps
  imports LC_TreeRPC
begin

text \<open>
  What the tree guarantees to its clients: the two request handlers of \<^verbatim>\<open>src/Tree/ProtoBuf.cc\<close> implement
  updates of a map from paths to directories and files, for every request, including invalid
  paths and conditions; and what follows for reading, creating directories and snapshots.
\<close>

section \<open>Requests on the map of paths\<close>

text \<open>The specification of one request: a condition, then an operation.\<close>

definition fs_condition :: "fs \<Rightarrow> TreeCondition option \<Rightarrow> Status" where
  "fs_condition f c = (case c of
     None \<Rightarrow> OK
   | Some k \<Rightarrow>
       if validPath (cond_path k) \<and>
          (fs_read f (components (cond_path k)) = (OK, cond_contents k) \<or>
           fst (fs_read f (components (cond_path k))) = LOOKUP_ERROR \<and> cond_contents k = [])
       then OK else CONDITION_NOT_MET)"

definition fs_op :: "fs \<Rightarrow> WriteOp \<Rightarrow> Status \<times> fs" where
  "fs_op f op = (let on = (\<lambda>p g. if validPath p then g (components p) else (INVALID_ARGUMENT, f)) in
     case op of
       MakeDirectoryOp p \<Rightarrow> on p (fs_mkdir f)
     | RemoveDirectoryOp p \<Rightarrow> on p (fs_rmdir f)
     | WriteFileOp p c \<Rightarrow> on p (\<lambda>ps. fs_put f ps c)
     | RemoveFileOp p \<Rightarrow> on p (fs_rmfile f)
     | NoWrite \<Rightarrow> (OK, f))"

definition fs_request :: "fs \<Rightarrow> ReadWriteTreeRequest \<Rightarrow> Status \<times> fs" where
  "fs_request f req = (if fs_condition f (rw_condition req) \<noteq> OK then (fs_condition f (rw_condition req), f)
     else fs_op f (rw_op req))"

section \<open>The handlers implement the specification\<close>

lemma runCondition_refines:
  assumes "tree_wf t"
  obtains r t' where "runCondition t c = Some (r, t')" "superRoot t' = superRoot t" "tree_wf t'"
    "tree_abs t' = tree_abs t" "status r = fs_condition (tree_abs t) c"
proof -
  have "\<exists>r t'. runCondition t c = Some (r, t') \<and> superRoot t' = superRoot t \<and>
      status r = fs_condition (tree_abs t) c"
  proof (cases c)
    case None
    then show ?thesis by (simp add: runCondition_def fs_condition_def Result_ok_def)
  next
    case (Some k)
    show ?thesis
    proof (cases "validPath (cond_path k)")
      case True
      then show ?thesis
        using checkCondition_refines [OF assms True, of "cond_contents k"] Some
        by (auto simp: runCondition_def fs_condition_def)
    next
      case False
      let ?t = "t\<lparr>numConditionsChecked := Suc (numConditionsChecked t)\<rparr>"
      obtain r t' where "tree_read ?t (cond_path k) = Some (r, [], t')" "superRoot t' = superRoot t"
        "status r = INVALID_ARGUMENT"
        using tree_ops_invalid(5) [OF False, of ?t] by auto
      then show ?thesis
        using Some False by (simp add: runCondition_def checkCondition_def fs_condition_def mkResult_def Let_def)
    qed
  qed
  then show ?thesis using that assms tree_wf_superRoot tree_abs_superRoot by metis
qed

text \<open>An operation on a path: the specification's update, or the refusal of an invalid path.\<close>

lemma op_on_path:
  assumes "tree_wf t"
    and "validPath p \<Longrightarrow> \<exists>r t'. x = Some (r, t') \<and> tree_wf t' \<and> (status r, tree_abs t') = g (components p)"
    and "\<not> validPath p \<Longrightarrow> \<exists>r t'. x = Some (r, t') \<and> status r = INVALID_ARGUMENT \<and> superRoot t' = superRoot t"
  shows "\<exists>r t'. x = Some (r, t') \<and> tree_wf t' \<and>
    (status r, tree_abs t') = (if validPath p then g (components p) else (INVALID_ARGUMENT, tree_abs t))"
  using assms tree_wf_superRoot tree_abs_superRoot by (metis (full_types))

lemma write_op_refines:
  assumes "tree_wf t" "op \<noteq> NoWrite"
  shows "\<exists>r t'. (case op of
          MakeDirectoryOp p \<Rightarrow> makeDirectory t p
        | RemoveDirectoryOp p \<Rightarrow> removeDirectory t p
        | WriteFileOp p c \<Rightarrow> tree_write t p c
        | RemoveFileOp p \<Rightarrow> removeFile t p
        | NoWrite \<Rightarrow> None) = Some (r, t') \<and> tree_wf t' \<and> (status r, tree_abs t') = fs_op (tree_abs t) op"
proof (cases op)
  case (MakeDirectoryOp p)
  show ?thesis using op_on_path [where x = "makeDirectory t p" and g = "fs_mkdir (tree_abs t)" and p = p, OF assms(1)
      lt.mkd_spec [OF assms(1)] tree_ops_invalid(2)]
    unfolding MakeDirectoryOp by (simp add: fs_op_def)
next
  case (RemoveDirectoryOp p)
  show ?thesis using op_on_path [where x = "removeDirectory t p" and g = "fs_rmdir (tree_abs t)" and p = p, OF assms(1)
      lt.rmd_spec [OF assms(1)] tree_ops_invalid(3)]
    unfolding RemoveDirectoryOp by (simp add: fs_op_def)
next
  case (WriteFileOp p c)
  show ?thesis using op_on_path [where x = "tree_write t p c" and g = "\<lambda>ps. fs_put (tree_abs t) ps c" and p = p, OF assms(1)
      lt.wr_spec [OF assms(1)] tree_ops_invalid(1)]
    unfolding WriteFileOp by (simp add: fs_op_def)
next
  case (RemoveFileOp p)
  show ?thesis using op_on_path [where x = "removeFile t p" and g = "fs_rmfile (tree_abs t)" and p = p, OF assms(1)
      lt.rmf_spec [OF assms(1)] tree_ops_invalid(4)]
    unfolding RemoveFileOp by (simp add: fs_op_def)
qed (simp add: assms(2))

lemma readWriteTreeRPC_step:
  assumes "tree_wf t" "rw_op req \<noteq> NoWrite"
  shows "\<exists>t' resp. readWriteTreeRPC t req = Some (t', resp) \<and> tree_wf t' \<and>
    rw_status resp = Some (castStatus (fst (fs_request (tree_abs t) req))) \<and>
    tree_abs t' = snd (fs_request (tree_abs t) req) \<and>
    (rw_error resp = None \<longleftrightarrow> fst (fs_request (tree_abs t) req) = OK)"
proof -
  obtain r0 t0 where c: "runCondition t (rw_condition req) = Some (r0, t0)" "tree_wf t0"
    "tree_abs t0 = tree_abs t" "status r0 = fs_condition (tree_abs t) (rw_condition req)"
    using runCondition_refines [OF assms(1)] by metis
  show ?thesis
  proof (cases "status r0 = OK")
    case False
    then show ?thesis using c by (simp add: readWriteTreeRPC_def fs_request_def)
  next
    case True
    obtain r t' where op: "(case rw_op req of
          MakeDirectoryOp p \<Rightarrow> makeDirectory t0 p
        | RemoveDirectoryOp p \<Rightarrow> removeDirectory t0 p
        | WriteFileOp p c \<Rightarrow> tree_write t0 p c
        | RemoveFileOp p \<Rightarrow> removeFile t0 p
        | NoWrite \<Rightarrow> None) = Some (r, t')" "tree_wf t'" "(status r, tree_abs t') = fs_op (tree_abs t) (rw_op req)"
      using write_op_refines [OF c(2) assms(2)] c(3) by auto
    then have "fs_op (tree_abs t) (rw_op req) = (status r, tree_abs t')" by simp
    then show ?thesis using op(1,2) c(1,4) True
      by (simp add: readWriteTreeRPC_def fs_request_def)
  qed
qed

section \<open>Histories and the shape of the map\<close>

definition fs_closed :: "fs \<Rightarrow> bool" where
  "fs_closed f \<longleftrightarrow> f [] = Some NDir \<and> f [''root''] = Some NDir \<and>
     (\<forall>ps n. f (ps @ [n]) \<noteq> None \<longrightarrow> f ps = Some NDir)"

lemma node_at_parent: "node_at d (ps @ [n]) \<noteq> None \<Longrightarrow> node_at d ps = Some NDir"
  by (induction d ps rule: node_at.induct) (auto split: option.splits if_splits)

lemma tree_abs_closed: "tree_wf t \<Longrightarrow> fs_closed (tree_abs t)"
  using node_at_parent by (auto simp: fs_closed_def tree_abs_def tree_wf_def split: option.split)

lemma fs_closed_prefix: "fs_closed f \<Longrightarrow> f (ps @ qs) \<noteq> None \<Longrightarrow> qs \<noteq> [] \<Longrightarrow> f ps = Some NDir"
proof (induction qs rule: rev_induct)
  case (snoc n qs)
  have "f (ps @ qs) = Some NDir" using snoc.prems by (metis append_assoc fs_closed_def)
  then show ?case using snoc.IH snoc.prems by (cases "qs = []") auto
qed simp

lemma prefixes_butlast: "ps \<noteq> [] \<Longrightarrow> list_ex F (prefixes ps) \<longleftrightarrow> list_ex F (prefixes (butlast ps)) \<or> F ps"
  by (cases ps rule: rev_cases) auto

lemma fs_closed_parents:
  assumes "fs_closed f" "f ps = Some NDir"
  shows "\<not> list_ex (\<lambda>q. isFile (f q)) (prefixes ps)"
proof -
  have "f q = Some NDir" if "prefix q ps" for q
    using that assms fs_closed_prefix [OF assms(1), of q] by (cases "q = ps") (auto simp: prefix_def)
  then show ?thesis by (auto simp: list_ex_iff)
qed

text \<open>The effect of removing a directory on a map that is closed under parents.\<close>

lemma fs_rmdir_effect:
  assumes f: "fs_closed f" and rm: "fs_rmdir f (components s) = (st, f')"
  shows "if list_ex (\<lambda>q. isFile (f q)) (prefixes (components s)) then st = TYPE_ERROR \<and> f' = f
     else st = OK \<and> (\<forall>q. strict_prefix (components s) q \<longrightarrow> f' q = None) \<and>
       f' (components s) = (if components s = [''root''] then Some NDir else None) \<and>
       (\<forall>q. \<not> prefix (components s) q \<longrightarrow> f' q = f q)"
proof -
  let ?ps = "components s"
  have root: "butlast ?ps = [] \<longleftrightarrow> ?ps = [''root'']" by (simp add: components_Cons)
  have files: "list_ex (\<lambda>q. isFile (f q)) (prefixes ?ps) \<longleftrightarrow>
      list_ex (\<lambda>q. isFile (f q)) (prefixes (butlast ?ps)) \<or> isFile (f ?ps)"
    by (rule prefixes_butlast) simp
  have below: "f q = None" if a: "f ?ps = None \<or> isFile (f ?ps)" and b: "strict_prefix ?ps q" for q
  proof (rule ccontr)
    assume q: "f q \<noteq> None"
    obtain qs where "q = ?ps @ qs" "qs \<noteq> []" using b by (auto simp: strict_prefix_def prefix_def)
    then have "f ?ps = Some NDir" using fs_closed_prefix [OF f, of ?ps qs] q by simp
    then show False using a by simp
  qed
  show ?thesis
  proof (cases "f (butlast ?ps) = Some NDir")
    case True
    then have ok: "fs_parents f ?ps = OK" and nf: "\<not> list_ex (\<lambda>q. isFile (f q)) (prefixes (butlast ?ps))"
      using fs_closed_parents [OF f] by (auto simp: fs_parents_def)
    have ne: "f ?ps \<noteq> None" if "?ps = [''root'']" using f that by (simp add: fs_closed_def)
    show ?thesis
    proof (cases "f ?ps")
      case None
      then have eqs: "st = OK" "f' = f" using rm ok by (simp_all add: fs_rmdir_def)
      have "\<not> list_ex (\<lambda>q. isFile (f q)) (prefixes ?ps)" unfolding files using nf None by simp
      moreover have "?ps \<noteq> [''root'']" using ne None by blast
      ultimately show ?thesis unfolding eqs using None below [OF disjI1 [OF None]] by (simp only: if_False) blast
    next
      case (Some node)
      show ?thesis
      proof (cases node)
        case NDir
        have "(st, f') = (OK, \<lambda>q. if prefix ?ps q \<and> (q \<noteq> ?ps \<or> butlast ?ps \<noteq> []) then None else f q)"
          using rm ok Some NDir by (simp add: fs_rmdir_def)
        then show ?thesis using files nf Some NDir root f by (simp add: strict_prefix_def fs_closed_def)
      next
        case (NFile c)
        then show ?thesis using rm ok files Some by (simp add: fs_rmdir_def)
      qed
    qed
  next
    case False
    have none: "f ?ps = None" using False f by (metis append_butlast_last_id components_not_Nil fs_closed_def)
    have "?ps \<noteq> [''root'']" using False f by (auto simp: fs_closed_def)
    then show ?thesis
      using rm files below none False by (auto simp: fs_rmdir_def fs_parents_def)
  qed
qed

fun run_requests :: "ReadWriteTreeRequest list \<Rightarrow> Tree \<Rightarrow> Tree option" where
  "run_requests [] t = Some t"
| "run_requests (req # reqs) t = do { (t', resp) \<leftarrow> readWriteTreeRPC t req; run_requests reqs t' }"

lemma run_requests_refines:
  assumes "tree_wf t" "\<forall>req \<in> set reqs. rw_op req \<noteq> NoWrite"
  shows "\<exists>t'. run_requests reqs t = Some t' \<and> tree_wf t' \<and>
    tree_abs t' = fold (\<lambda>req f. snd (fs_request f req)) reqs (tree_abs t)"
  using assms
proof (induction reqs arbitrary: t)
  case (Cons req reqs)
  then show ?case using readWriteTreeRPC_step [OF Cons.prems(1), of req] by fastforce
qed simp

section \<open>Guarantees\<close>

text \<open>C5: Refinement of the write interface. Every read-write request with an operation is answered; the
  status and the new contents of the tree are those that the specification computes on the map
  of paths; an error message is given exactly when the status is not OK; and the tree stays
  well-formed.\<close>

theorem readWriteTreeRPC_refines:
  assumes "tree_wf t" "rw_op req \<noteq> NoWrite"
  shows "\<exists>t' resp. readWriteTreeRPC t req = Some (t', resp) \<and> tree_wf t' \<and>
    rw_status resp = Some (castStatus (fst (fs_request (tree_abs t) req))) \<and>
    tree_abs t' = snd (fs_request (tree_abs t) req) \<and>
    (rw_error resp = None \<longleftrightarrow> fst (fs_request (tree_abs t) req) = OK)"
  by (rule readWriteTreeRPC_step [OF assms])

theorem readWriteTreeRPC_refines_witness:
  "\<exists>t' resp. readWriteTreeRPC mkTree \<lparr>exactly_once = \<lparr>client_id = 1, first_outstanding_rpc = 0, rpc_number = 1\<rparr>,
       rw_condition = None, rw_op = WriteFileOp ''/a'' ''x''\<rparr> = Some (t', resp) \<and> tree_wf t' \<and>
     rw_status resp = Some PC_OK"
proof -
  let ?req = "\<lparr>exactly_once = \<lparr>client_id = 1, first_outstanding_rpc = 0, rpc_number = 1\<rparr>,
       rw_condition = None, rw_op = WriteFileOp ''/a'' ''x''\<rparr>"
  have "fst (fs_request (tree_abs mkTree) ?req) = OK" by code_simp
  then show ?thesis using readWriteTreeRPC_refines [OF tree_wf_mkTree, of ?req] by auto
qed

text \<open>C22: Refinement of the read interface. Every read-only request with an operation is answered and
  leaves the contents of the tree alone. When its condition holds, a read answers with the status
  and contents that the map of paths has, and a listing with the subdirectories, each with a
  trailing slash, and then the files, both in ascending order.\<close>

theorem readOnlyTreeRPC_refines:
  assumes wf: "tree_wf t" and op: "ro_op req \<noteq> NoRead"
  shows "\<exists>t' resp. readOnlyTreeRPC t req = Some (t', resp) \<and> superRoot t' = superRoot t \<and>
    (if fs_condition (tree_abs t) (ro_condition req) \<noteq> OK
     then ro_status resp = Some (castStatus (fs_condition (tree_abs t) (ro_condition req)))
     else case ro_op req of
       ReadOp p \<Rightarrow> (if validPath p
         then (ro_status resp, ro_contents resp) = (Some (castStatus (fst (fs_read (tree_abs t) (components p)))),
           Some (snd (fs_read (tree_abs t) (components p))))
         else ro_status resp = Some PC_INVALID_ARGUMENT)
     | ListDirectoryOp p \<Rightarrow> (if validPath p
         then ro_status resp = Some (castStatus (fs_status (tree_abs t) (components p))) \<and>
           (fs_status (tree_abs t) (components p) = OK \<longrightarrow>
             (\<exists>ds fl. ro_children resp = map (\<lambda>n. n @ ''/'') ds @ fl \<and> sorted_wrt (<) ds \<and> sorted_wrt (<) fl \<and>
               set ds = {n. tree_abs t (components p @ [n]) = Some NDir} \<and>
               set fl = {n. isFile (tree_abs t (components p @ [n]))}))
         else ro_status resp = Some PC_INVALID_ARGUMENT)
     | NoRead \<Rightarrow> False)"
proof -
  obtain r0 t0 where c: "runCondition t (ro_condition req) = Some (r0, t0)" "superRoot t0 = superRoot t" "tree_wf t0"
    "tree_abs t0 = tree_abs t" "status r0 = fs_condition (tree_abs t) (ro_condition req)"
    using runCondition_refines [OF wf] by metis
  show ?thesis
  proof (cases "status r0 = OK")
    case False
    then show ?thesis using c by (simp add: readOnlyTreeRPC_def)
  next
    case ok: True
    show ?thesis
    proof (cases "ro_op req")
      case (ReadOp p)
      obtain r d t1 where rd: "tree_read t0 p = Some (r, d, t1)" "superRoot t1 = superRoot t0"
        "if validPath p then fs_read (tree_abs t) (components p) = (status r, d) else status r = INVALID_ARGUMENT"
        using tree_read_refines [OF c(3), of p] tree_ops_invalid(5) [of p t0] c(4) by (cases "validPath p") (auto dest: sym)
      show ?thesis using rd c ok ReadOp by (auto simp: readOnlyTreeRPC_def)
    next
      case (ListDirectoryOp p)
      show ?thesis
        using listDirectory_refines [OF c(3), of p] tree_ops_invalid(6) [of p t0] c ok ListDirectoryOp
        by (cases "validPath p") (auto simp: readOnlyTreeRPC_def)
    qed (use op in simp)
  qed
qed

theorem readOnlyTreeRPC_refines_witness:
  "\<exists>t' resp. readOnlyTreeRPC mkTree \<lparr>ro_condition = None, ro_op = ReadOp ''/a''\<rparr> = Some (t', resp) \<and>
     ro_status resp = Some PC_LOOKUP_ERROR"
proof -
  have "fst (fs_read (tree_abs mkTree) (components ''/a'')) = LOOKUP_ERROR" "validPath ''/a''" by code_simp+
  then show ?thesis
    using readOnlyTreeRPC_refines [OF tree_wf_mkTree, of "\<lparr>ro_condition = None, ro_op = ReadOp ''/a''\<rparr>"]
    by (auto simp: fs_condition_def)
qed

text \<open>A whole history of requests. From the empty tree any sequence of read-write requests is
  processed without a panic; the final contents are those of the specification run on the map of
  paths; and in the final map the root exists and every entry lies in a directory.\<close>

theorem tree_history:
  assumes "\<forall>req \<in> set reqs. rw_op req \<noteq> NoWrite"
  shows "\<exists>t. run_requests reqs mkTree = Some t \<and> tree_wf t \<and>
    tree_abs t = fold (\<lambda>req f. snd (fs_request f req)) reqs (tree_abs mkTree) \<and> fs_closed (tree_abs t)"
  using run_requests_refines [OF tree_wf_mkTree assms] tree_abs_closed by metis

theorem tree_history_witness:
  "\<exists>t. run_requests [\<lparr>exactly_once = \<lparr>client_id = 1, first_outstanding_rpc = 0, rpc_number = 1\<rparr>,
       rw_condition = None, rw_op = MakeDirectoryOp ''/a/b''\<rparr>,
      \<lparr>exactly_once = \<lparr>client_id = 1, first_outstanding_rpc = 0, rpc_number = 2\<rparr>,
       rw_condition = None, rw_op = WriteFileOp ''/a/c'' ''x''\<rparr>] mkTree = Some t \<and> fs_closed (tree_abs t)"
  using tree_history [of "[\<lparr>exactly_once = \<lparr>client_id = 1, first_outstanding_rpc = 0, rpc_number = 1\<rparr>,
       rw_condition = None, rw_op = MakeDirectoryOp ''/a/b''\<rparr>,
      \<lparr>exactly_once = \<lparr>client_id = 1, first_outstanding_rpc = 0, rpc_number = 2\<rparr>,
       rw_condition = None, rw_op = WriteFileOp ''/a/c'' ''x''\<rparr>]"] by auto

text \<open>Reading what was written. After a successful write a read of the same path returns the written
  contents, and no other path of the tree has changed.\<close>

theorem read_returns_written:
  assumes "tree_wf t" "validPath s" "tree_write t s c = Some (r, t')" "status r = OK"
  shows "(\<exists>r2 t2. tree_read t' s = Some (r2, c, t2) \<and> status r2 = OK) \<and>
    (\<forall>q. q \<noteq> components s \<longrightarrow> tree_abs t' q = tree_abs t q)"
  using lt.read_after_write [OF assms] lt.wr_run(2) [OF assms(1-3)] assms(4)
  by (auto simp: fs_put_def split: if_splits)

theorem read_returns_written_witness:
  "\<exists>r t' r2 t2. tree_write mkTree ''/a'' ''x'' = Some (r, t') \<and> tree_read t' ''/a'' = Some (r2, ''x'', t2)"
proof -
  obtain r t' where w: "tree_write mkTree ''/a'' ''x'' = Some (r, t')"
    using write_ops_keep_wf(1) [OF tree_wf_mkTree] by blast
  moreover have "map_option (\<lambda>x. status (fst x)) (tree_write mkTree ''/a'' ''x'') = Some OK" "validPath ''/a''"
    by code_simp+
  ultimately have "status r = OK" "validPath ''/a''" by simp_all
  then show ?thesis using w read_returns_written [OF tree_wf_mkTree _ w] by blast
qed

text \<open>Creating directories. \<^verbatim>\<open>makeDirectory\<close> either fails, because a file is in the way, and then changes
  nothing, or makes the path and all its parents directories and changes no other path; and then a
  file can be written into the new directory.\<close>

theorem makeDirectory_creates_parents:
  assumes "tree_wf t" "validPath s"
  shows "\<exists>r t'. makeDirectory t s = Some (r, t') \<and>
    (if list_ex (\<lambda>q. isFile (tree_abs t q)) (prefixes (components s))
     then status r = TYPE_ERROR \<and> tree_abs t' = tree_abs t
     else status r = OK \<and> (\<forall>q. prefix q (components s) \<longrightarrow> tree_abs t' q = Some NDir) \<and>
       (\<forall>q. \<not> prefix q (components s) \<longrightarrow> tree_abs t' q = tree_abs t q) \<and>
       (\<forall>s' c. validPath s' \<longrightarrow> butlast (components s') = components s \<longrightarrow>
          tree_abs t (components s') \<noteq> Some NDir \<longrightarrow>
          (\<exists>r2 t2. tree_write t' s' c = Some (r2, t2) \<and> status r2 = OK)))"
proof -
  obtain r t' where m: "makeDirectory t s = Some (r, t')" "(status r, tree_abs t') = fs_mkdir (tree_abs t) (components s)"
    using lt.mkd_spec [OF assms] by blast
  then show ?thesis
    using lt.mkdir_then_write [OF assms _ _ m(1)] by (simp add: fs_mkdir_def split: if_splits) blast
qed

theorem makeDirectory_creates_parents_witness:
  "\<exists>r t'. makeDirectory mkTree ''/a/b'' = Some (r, t') \<and> status r = OK \<and>
     tree_abs t' [''root'', ''a''] = Some NDir"
proof -
  have "validPath ''/a/b''" "\<not> list_ex (\<lambda>q. isFile (tree_abs mkTree q)) (prefixes (components ''/a/b''))"
    "prefix [''root'', ''a''] (components ''/a/b'')" by code_simp+
  then show ?thesis using makeDirectory_creates_parents [OF tree_wf_mkTree, of "''/a/b''"] by auto
qed

text \<open>Removing directories. \<^verbatim>\<open>removeDirectory\<close> fails only when the path or one of its parents is a
  file, and then changes nothing. Otherwise nothing is left below the path, and nothing at it
  unless it is the root, which always stays; no other path changes.\<close>

theorem removeDirectory_removes_subtree:
  assumes "tree_wf t" "validPath s"
  shows "\<exists>r t'. removeDirectory t s = Some (r, t') \<and>
    (if list_ex (\<lambda>q. isFile (tree_abs t q)) (prefixes (components s))
     then status r = TYPE_ERROR \<and> tree_abs t' = tree_abs t
     else status r = OK \<and> (\<forall>q. strict_prefix (components s) q \<longrightarrow> tree_abs t' q = None) \<and>
       tree_abs t' (components s) = (if components s = [''root''] then Some NDir else None) \<and>
       (\<forall>q. \<not> prefix (components s) q \<longrightarrow> tree_abs t' q = tree_abs t q))"
proof -
  obtain r t' where m: "removeDirectory t s = Some (r, t')" "tree_wf t'"
    "(status r, tree_abs t') = fs_rmdir (tree_abs t) (components s)"
    using lt.rmd_spec [OF assms] by blast
  then have "fs_rmdir (tree_abs t) (components s) = (status r, tree_abs t')" by simp
  then show ?thesis
    using m(1) fs_rmdir_effect [OF tree_abs_closed [OF assms(1)], of s] by auto
qed

theorem removeDirectory_removes_subtree_witness:
  "\<exists>r t'. removeDirectory mkTree ''/'' = Some (r, t') \<and> status r = OK \<and> tree_abs t' [''root''] = Some NDir"
proof -
  have "validPath ''/''" "components ''/'' = [''root'']"
    "\<not> list_ex (\<lambda>q. isFile (tree_abs mkTree q)) (prefixes (components ''/''))" by code_simp+
  then show ?thesis using removeDirectory_removes_subtree [OF tree_wf_mkTree, of "''/''"] by auto
qed

text \<open>Snapshots of the tree. Loading what \<^verbatim>\<open>dumpSnapshot\<close> wrote restores exactly the dumped contents,
  whatever was in the tree before, and consumes exactly the dumped messages.\<close>

theorem tree_snapshot_restores:
  assumes "tree_wf t"
  shows "\<exists>u'. loadSnapshot_tree u (dumpSnapshot_tree t @ rest) = Some (u', rest) \<and>
    superRoot u' = superRoot t \<and> tree_abs u' = tree_abs t \<and> tree_wf u'"
  using tree_snapshot_roundtrip [OF assms, of u rest] assms by (simp add: tree_abs_def tree_wf_def)

theorem tree_snapshot_restores_witness:
  "\<exists>u'. loadSnapshot_tree mkTree (dumpSnapshot_tree mkTree @ []) = Some (u', []) \<and> tree_abs u' = tree_abs mkTree"
  using tree_snapshot_restores [OF tree_wf_mkTree, of mkTree "[]"] by blast

end
