(* ===== verification/LC_StateMachine.thy ===== *)
theory LC_StateMachine
  imports LC_TreeRPC
begin

text \<open>
  The replicated state machine (\<^verbatim>\<open>src/Server/StateMachine.h\<close>, \<^verbatim>\<open>src/Server/StateMachine.cc\<close>):
  client sessions with their saved responses, the version history, the application of committed
  log entries, snapshots of the whole state machine, and the threads that decide when to take a
  snapshot and when to kill one that makes no progress.

  The protocol buffer library is not part of the sources: the function that parses a command is
  the argument \<open>parse\<close> of the definitions that use it. A call to \<^verbatim>\<open>Clock::now()\<close> is an argument
  \<open>now\<close>. Hash tables (\<^verbatim>\<open>sessions\<close>, \<^verbatim>\<open>responses\<close>) are ordered maps: the order matters only
  in the bytes of a snapshot, where the language leaves it open.
\<close>

section \<open>Data\<close>

record CommandRequest =
  cmd_tree :: "ReadWriteTreeRequest option"
  cmd_open_session :: bool
  cmd_close_session :: "nat option"
  cmd_advance_version :: "nat option"

datatype CommandResponse = TreeResponse ReadWriteTreeResponse | OpenSessionResponse nat
  | CloseSessionResponse | AdvanceVersionResponse nat

record QueryRequest =
  q_tree :: "ReadOnlyTreeRequest option"

datatype EntryType = DATA | SNAPSHOT | SKIP

record 's Entry =
  e_index :: nat
  e_type :: EntryType
  e_command :: string
  e_snapshot :: "'s option"
  e_clusterTime :: nat

record Session =
  lastModified :: nat
  firstOutstandingRPC :: nat
  responses :: "(nat, CommandResponse) omap"

record StateMachine =
  exiting :: bool
  childPid :: int
  lastApplied :: nat
  lastUnknownRequestMessage :: int
  numUnknownRequests :: nat
  numUnknownRequestsSinceLastMessage :: nat
  numSnapshotsAttempted :: nat
  numSnapshotsFailed :: nat
  numRedundantAdvanceVersionEntries :: nat
  numRejectedAdvanceVersionEntries :: nat
  numSuccessfulAdvanceVersionEntries :: nat
  numTotalAdvanceVersionEntries :: nat
  isSnapshotRequested :: bool
  maySnapshotAt :: int
  sessions :: "(nat, Session) omap"
  tree :: Tree
  versionHistory :: "(nat, nat) omap"

definition MIN_SUPPORTED_VERSION :: nat where "MIN_SUPPORTED_VERSION = 1"
definition MAX_SUPPORTED_VERSION :: nat where "MAX_SUPPORTED_VERSION = 2"

definition sessionTimeoutNanos :: nat where
  "sessionTimeoutNanos = 1000 * 1000 * 1000 * 60 * 60"

text \<open>The configuration options the state machine reads, with \<^verbatim>\<open>unknownRequestMessageBackoff\<close> in nanoseconds.\<close>

record SMConfig =
  snapshotMinLogSize :: nat
  snapshotRatio :: nat
  unknownRequestMessageBackoff :: int

definition emptySession :: Session where
  "emptySession = \<lparr>lastModified = 0, firstOutstandingRPC = 0, responses = []\<rparr>"

definition mkStateMachine :: StateMachine where
  "mkStateMachine = \<lparr>exiting = False, childPid = 0, lastApplied = 0,
     lastUnknownRequestMessage = timeMin,
     numUnknownRequests = 0, numUnknownRequestsSinceLastMessage = 0,
     numSnapshotsAttempted = 0, numSnapshotsFailed = 0,
     numRedundantAdvanceVersionEntries = 0, numRejectedAdvanceVersionEntries = 0,
     numSuccessfulAdvanceVersionEntries = 0, numTotalAdvanceVersionEntries = 0,
     isSnapshotRequested = False, maySnapshotAt = timeMin,
     sessions = [], tree = mkTree, versionHistory = om_insert 0 1 []\<rparr>"

section \<open>Versions, sessions and unknown requests\<close>

text \<open>\<^verbatim>\<open>--it\<close> from \<^verbatim>\<open>upper_bound\<close>: decrementing \<^verbatim>\<open>begin()\<close> is undefined behaviour, hence \<open>None\<close>.\<close>

definition getVersion :: "StateMachine \<Rightarrow> nat \<Rightarrow> nat option" where
  "getVersion sm logIndex = map_option snd (om_floor logIndex (versionHistory sm))"

text \<open>The messages go to the debug log; building one reads the running version.\<close>

definition warnUnknownRequest :: "SMConfig \<Rightarrow> int \<Rightarrow> StateMachine \<Rightarrow> StateMachine option" where
  "warnUnknownRequest cfg now sm0 = (let sm = sm0\<lparr>numUnknownRequests := u64 (numUnknownRequests sm0 + 1)\<rparr> in
     if i64 (lastUnknownRequestMessage sm + unknownRequestMessageBackoff cfg) < now then do {
       _ \<leftarrow> getVersion sm u64_max;
       Some (sm\<lparr>lastUnknownRequestMessage := now, numUnknownRequestsSinceLastMessage := 0\<rparr>) }
     else Some (sm\<lparr>numUnknownRequestsSinceLastMessage :=
                    u64 (numUnknownRequestsSinceLastMessage sm + 1)\<rparr>))"

definition expireResponses :: "Session \<Rightarrow> nat \<Rightarrow> Session" where
  "expireResponses s first =
     (if first \<le> firstOutstandingRPC s then s
      else s\<lparr>firstOutstandingRPC := first,
             responses := filter (\<lambda>r. \<not> fst r < first) (responses s)\<rparr>)"

definition sessionExpired :: "nat \<Rightarrow> Session \<Rightarrow> bool" where
  "sessionExpired clusterTime s \<longleftrightarrow> u64 (lastModified s + sessionTimeoutNanos) < clusterTime"

definition expireSessions :: "nat \<Rightarrow> StateMachine \<Rightarrow> StateMachine" where
  "expireSessions clusterTime sm =
     sm\<lparr>sessions := filter (\<lambda>e. \<not> sessionExpired clusterTime (snd e)) (sessions sm)\<rparr>"

section \<open>Applying entries\<close>

text \<open>The branch of \<open>apply\<close> for tree commands.\<close>

definition apply_tree :: "nat \<Rightarrow> ReadWriteTreeRequest \<Rightarrow> StateMachine \<Rightarrow> StateMachine option" where
  "apply_tree clusterTime req sm = (let info = exactly_once req in
     case map_of (sessions sm) (client_id info) of
       None \<Rightarrow> Some sm
     | Some session0 \<Rightarrow>
         (let session = expireResponses session0 (first_outstanding_rpc info);
              store = (\<lambda>s m. m\<lparr>sessions := om_set (client_id info) s (sessions m)\<rparr>) in
          if rpc_number info < firstOutstandingRPC session then Some (store session sm)
          else case map_of (responses session) (rpc_number info) of
            Some _ \<Rightarrow> Some (store session sm)
          | None \<Rightarrow> do {
              (t, resp) \<leftarrow> readWriteTreeRPC (tree sm) req;
              Some (store (session\<lparr>
                    responses := om_set (rpc_number info) (TreeResponse resp) (responses session),
                    lastModified := clusterTime\<rparr>) (sm\<lparr>tree := t\<rparr>)) }))"

text \<open>The branch of \<open>apply\<close> for version changes; \<^verbatim>\<open>downCast\<close> asserts that the value fits.\<close>

definition apply_advance_version :: "nat \<Rightarrow> nat \<Rightarrow> nat \<Rightarrow> StateMachine \<Rightarrow> StateMachine option" where
  "apply_advance_version index runningVersion requested sm = do {
     require (requested < 2 ^ 16);
     sm1 \<leftarrow> (if requested < runningVersion then
              Some (sm\<lparr>numRejectedAdvanceVersionEntries := u64 (numRejectedAdvanceVersionEntries sm + 1)\<rparr>)
            else if requested > runningVersion then
              (if requested > MAX_SUPPORTED_VERSION then None
               else Some (sm\<lparr>versionHistory := om_insert index requested (versionHistory sm),
                  numSuccessfulAdvanceVersionEntries := u64 (numSuccessfulAdvanceVersionEntries sm + 1)\<rparr>))
            else Some (sm\<lparr>numRedundantAdvanceVersionEntries :=
                            u64 (numRedundantAdvanceVersionEntries sm + 1)\<rparr>));
     Some (sm1\<lparr>numTotalAdvanceVersionEntries := u64 (numTotalAdvanceVersionEntries sm1 + 1)\<rparr>) }"

definition apply_entry ::
  "(string \<Rightarrow> CommandRequest option) \<Rightarrow> SMConfig \<Rightarrow> int \<Rightarrow> 's Entry \<Rightarrow> StateMachine \<Rightarrow> StateMachine option" where
  "apply_entry parse cfg now entry sm = do {
     command \<leftarrow> parse (e_command entry);
     runningVersion \<leftarrow> getVersion sm (u64_sub (e_index entry) 1);
     case cmd_tree command of
       Some req \<Rightarrow> apply_tree (e_clusterTime entry) req sm
     | None \<Rightarrow>
       if cmd_open_session command then
         (let ss = om_insert (e_index entry) emptySession (sessions sm);
              session = (case map_of ss (e_index entry) of Some s \<Rightarrow> s | None \<Rightarrow> emptySession)
          in Some (sm\<lparr>sessions := om_set (e_index entry)
                       (session\<lparr>lastModified := e_clusterTime entry\<rparr>) ss\<rparr>))
       else case cmd_close_session command of
         Some clientId \<Rightarrow>
           (if runningVersion \<ge> 2 then Some (sm\<lparr>sessions := om_erase clientId (sessions sm)\<rparr>)
            else warnUnknownRequest cfg now sm)
       | None \<Rightarrow>
         (case cmd_advance_version command of
            Some requested \<Rightarrow> apply_advance_version (e_index entry) runningVersion requested sm
          | None \<Rightarrow> warnUnknownRequest cfg now sm) }"

section \<open>Snapshots of the state machine\<close>

record SnapSession =
  ss_client_id :: nat
  ss_last_modified :: nat
  ss_first_outstanding_rpc :: nat
  ss_rpc_response :: "(nat \<times> CommandResponse) list"

record SnapHeader =
  version_update :: "(nat \<times> nat) list"
  session :: "SnapSession list"

text \<open>What a snapshot file holds after the consensus module's own header, in order.\<close>

datatype SnapItem = FormatVersion nat | HeaderItem SnapHeader | TreeItem SnapMsg

definition serializeSession :: "nat \<times> Session \<Rightarrow> SnapSession" where
  "serializeSession e = \<lparr>ss_client_id = fst e, ss_last_modified = lastModified (snd e),
     ss_first_outstanding_rpc = firstOutstandingRPC (snd e),
     ss_rpc_response = responses (snd e)\<rparr>"

definition serializeSessions :: "StateMachine \<Rightarrow> SnapHeader \<Rightarrow> SnapHeader" where
  "serializeSessions sm header =
     header\<lparr>session := session header @ map serializeSession (sessions sm)\<rparr>"

definition serializeVersionHistory :: "StateMachine \<Rightarrow> SnapHeader \<Rightarrow> SnapHeader" where
  "serializeVersionHistory sm header =
     header\<lparr>version_update := version_update header @ versionHistory sm\<rparr>"

definition loadSession :: "(nat, Session) omap \<Rightarrow> SnapSession \<Rightarrow> (nat, Session) omap" where
  "loadSession m it =
     (let m1 = om_insert (ss_client_id it) emptySession m;
          s = (case map_of m1 (ss_client_id it) of Some s \<Rightarrow> s | None \<Rightarrow> emptySession)
      in om_set (ss_client_id it)
           (s\<lparr>lastModified := ss_last_modified it,
              firstOutstandingRPC := ss_first_outstanding_rpc it,
              responses := foldl (\<lambda>rs r. om_insert (fst r) (snd r) rs) (responses s) (ss_rpc_response it)\<rparr>) m1)"

definition loadSessions :: "SnapHeader \<Rightarrow> StateMachine \<Rightarrow> StateMachine" where
  "loadSessions header sm = sm\<lparr>sessions := foldl loadSession [] (session header)\<rparr>"

definition loadVersionHistory :: "SnapHeader \<Rightarrow> StateMachine \<Rightarrow> StateMachine option" where
  "loadVersionHistory header sm = do {
     require (\<forall>u \<in> set (version_update header). snd u < 2 ^ 16);
     let vh = foldl (\<lambda>m u. om_insert (fst u) (snd u) m) (om_insert 0 1 []) (version_update header);
     let running = snd (last vh);
     require (MIN_SUPPORTED_VERSION \<le> running \<and> running \<le> MAX_SUPPORTED_VERSION);
     Some (sm\<lparr>versionHistory := vh\<rparr>) }"

text \<open>The messages of the tree that follow the header: up to the first item that is not one.\<close>

fun treeItems :: "SnapItem list \<Rightarrow> stream" where
  "treeItems (TreeItem m # s) = m # treeItems s"
| "treeItems _ = []"

definition loadSnapshot_sm :: "SnapItem list \<Rightarrow> StateMachine \<Rightarrow> StateMachine option" where
  "loadSnapshot_sm stream sm = (case stream of
     FormatVersion v # rest \<Rightarrow>
       (if v \<noteq> 1 then None
        else case rest of
          HeaderItem header # rest2 \<Rightarrow> do {
            sm1 \<leftarrow> loadVersionHistory header sm;
            let sm2 = loadSessions header sm1;
            (t, _) \<leftarrow> loadSnapshot_tree (tree sm2) (treeItems rest2);
            Some (sm2\<lparr>tree := t\<rparr>) }
        | _ \<Rightarrow> None)
   | _ \<Rightarrow> None)"

text \<open>What the child process writes in \<open>takeSnapshot\<close>.\<close>

definition writeSnapshot :: "StateMachine \<Rightarrow> SnapItem list" where
  "writeSnapshot sm =
     FormatVersion 1
     # HeaderItem (serializeSessions sm (serializeVersionHistory sm \<lparr>version_update = [], session = []\<rparr>))
     # map TreeItem (dumpSnapshot_tree (tree sm))"

section \<open>When to take a snapshot\<close>

record SnapshotStats =
  last_snapshot_index :: nat
  last_snapshot_bytes :: nat
  log_start_index :: nat
  last_log_index :: nat
  log_bytes :: nat
  is_leader :: bool

text \<open>Unsigned 64-bit division; division by zero traps.\<close>

definition u64_div :: "nat \<Rightarrow> nat \<Rightarrow> nat option" where
  "u64_div a b = (if b = 0 then None else Some (a div b))"

text \<open>The progress message of \<open>shouldTakeSnapshot\<close>: whether it is printed.\<close>

definition progressNotice :: "SnapshotStats \<Rightarrow> nat \<Rightarrow> bool option" where
  "progressNotice stats lastIncludedIndex =
     (let curr = (if lastIncludedIndex > last_snapshot_index stats
                  then u64_sub lastIncludedIndex (last_snapshot_index stats) else 0);
          prev = u64_sub curr 1;
          logEntries = u64_sub (last_log_index stats) (last_snapshot_index stats)
      in if curr = logEntries then Some False
         else do {
           a \<leftarrow> u64_div (u64 (10 * prev)) logEntries;
           b \<leftarrow> u64_div (u64 (10 * curr)) logEntries;
           Some (a \<noteq> b) })"

definition shouldTakeSnapshot :: "SMConfig \<Rightarrow> SnapshotStats \<Rightarrow> nat \<Rightarrow> bool option" where
  "shouldTakeSnapshot cfg stats lastIncludedIndex = do {
     _ \<leftarrow> progressNotice stats lastIncludedIndex;
     Some (if log_bytes stats < snapshotMinLogSize cfg then False
           else if log_bytes stats < u64 (last_snapshot_bytes stats * snapshotRatio cfg) then False
           else if lastIncludedIndex < last_snapshot_index stats then False
           else if lastIncludedIndex < u64 (last_log_index stats * 3) div 4 then False
           else True) }"

section \<open>The threads and the client interface\<close>

text \<open>One iteration of \<open>applyThreadMain\<close> on the entry that \<^verbatim>\<open>getNextEntry\<close> returned: first the part
  that changes the replicated state, then the whole iteration, where the second component says
  whether the snapshot thread is woken up.\<close>

definition applyCore ::
  "(string \<Rightarrow> CommandRequest option) \<Rightarrow> SMConfig \<Rightarrow> int \<Rightarrow> SnapItem list Entry \<Rightarrow> StateMachine \<Rightarrow>
   StateMachine option" where
  "applyCore parse cfg now entry sm = do {
     sm1 \<leftarrow> (case e_type entry of
        SKIP \<Rightarrow> Some sm
      | DATA \<Rightarrow> apply_entry parse cfg now entry sm
      | SNAPSHOT \<Rightarrow> (case e_snapshot entry of None \<Rightarrow> None | Some s \<Rightarrow> loadSnapshot_sm s sm));
     Some ((expireSessions (e_clusterTime entry) sm1)\<lparr>lastApplied := e_index entry\<rparr>) }"

definition applyThread_iter ::
  "(string \<Rightarrow> CommandRequest option) \<Rightarrow> SMConfig \<Rightarrow> int \<Rightarrow> SnapshotStats \<Rightarrow> int \<Rightarrow>
   SnapItem list Entry \<Rightarrow> StateMachine \<Rightarrow> (StateMachine \<times> bool) option" where
  "applyThread_iter parse cfg now stats now' entry sm = do {
     sm' \<leftarrow> applyCore parse cfg now entry sm;
     should \<leftarrow> shouldTakeSnapshot cfg stats (lastApplied sm');
     Some (sm', should \<and> maySnapshotAt sm' \<le> now') }"

datatype 'a waitResult = Blocked | Done 'a

definition wait :: "nat \<Rightarrow> StateMachine \<Rightarrow> unit waitResult" where
  "wait index sm = (if lastApplied sm < index then Blocked else Done ())"

definition treeStatus :: "PCStatus \<Rightarrow> CommandResponse" where
  "treeStatus st = TreeResponse \<lparr>rw_status = Some st, rw_error = None\<rparr>"

text \<open>\<open>Done None\<close> is the return value \<^verbatim>\<open>false\<close>, \<open>Done (Some r)\<close> is \<^verbatim>\<open>true\<close> with the response \<open>r\<close>.\<close>

definition waitForResponse ::
  "nat \<Rightarrow> CommandRequest \<Rightarrow> StateMachine \<Rightarrow> (CommandResponse option) waitResult option" where
  "waitForResponse logIndex command sm =
     (if lastApplied sm < logIndex then Some Blocked
      else do {
        versionThen \<leftarrow> getVersion sm logIndex;
        Some (Done (case cmd_tree command of
          Some req \<Rightarrow>
            (let info = exactly_once req in
             case map_of (sessions sm) (client_id info) of
               None \<Rightarrow> Some (treeStatus PC_SESSION_EXPIRED)
             | Some s \<Rightarrow>
                 (case map_of (responses s) (rpc_number info) of
                    None \<Rightarrow> Some (treeStatus PC_SESSION_EXPIRED)
                  | Some r \<Rightarrow> Some r))
        | None \<Rightarrow>
            if cmd_open_session command then Some (OpenSessionResponse logIndex)
            else if versionThen \<ge> 2 \<and> cmd_close_session command \<noteq> None then Some CloseSessionResponse
            else if cmd_advance_version command \<noteq> None then Some (AdvanceVersionResponse versionThen)
            else None)) })"

text \<open>\<open>query\<close> answers read-only requests; it also counts (the counters are \<^verbatim>\<open>mutable\<close>).\<close>

definition query ::
  "SMConfig \<Rightarrow> int \<Rightarrow> QueryRequest \<Rightarrow> StateMachine \<Rightarrow> (StateMachine \<times> ReadOnlyTreeResponse option) option" where
  "query cfg now request sm = (case q_tree request of
     Some req \<Rightarrow> do {
       (t, resp) \<leftarrow> readOnlyTreeRPC (tree sm) req;
       Some (sm\<lparr>tree := t\<rparr>, Some resp) }
   | None \<Rightarrow> do {
       sm' \<leftarrow> warnUnknownRequest cfg now sm;
       Some (sm', None) })"

definition isTakingSnapshot :: "StateMachine \<Rightarrow> bool" where
  "isTakingSnapshot sm \<longleftrightarrow> childPid sm \<noteq> 0"

text \<open>\<open>startTakingSnapshot\<close> up to its wait; \<open>Some n\<close> is the value of \<^verbatim>\<open>numSnapshotsAttempted\<close> it then
  waits for.\<close>

definition startTakingSnapshot :: "StateMachine \<Rightarrow> StateMachine \<times> nat option" where
  "startTakingSnapshot sm =
     (if childPid sm = 0
      then (sm\<lparr>isSnapshotRequested := True\<rparr>, Some (u64 (numSnapshotsAttempted sm + 1)))
      else (sm, None))"

definition startTakingSnapshot_waits :: "nat option \<Rightarrow> StateMachine \<Rightarrow> bool" where
  "startTakingSnapshot_waits next_snapshot sm = (case next_snapshot of
     None \<Rightarrow> False
   | Some n \<Rightarrow> \<not> exiting sm \<and> numSnapshotsAttempted sm < n)"

text \<open>Signals that are sent to the child process.\<close>

definition SIGTERM :: int where "SIGTERM = 15"
definition SIGKILL :: int where "SIGKILL = 9"

definition killSnapshotProcess :: "StateMachine \<Rightarrow> int \<Rightarrow> (int \<times> int) list" where
  "killSnapshotProcess sm signum = (if childPid sm \<noteq> 0 then [(childPid sm, signum)] else [])"

definition stopTakingSnapshot :: "StateMachine \<Rightarrow> (int \<times> int) list" where
  "stopTakingSnapshot sm = (if childPid sm \<noteq> 0 then killSnapshotProcess sm SIGTERM else [])"

text \<open>The wait of \<open>stopTakingSnapshot\<close>, for the child \<open>pid\<close> seen on entry.\<close>

definition stopTakingSnapshot_waits :: "int \<Rightarrow> StateMachine \<Rightarrow> bool" where
  "stopTakingSnapshot_waits pid sm \<longleftrightarrow> pid \<noteq> 0 \<and> \<not> exiting sm \<and> pid = childPid sm"

text \<open>The handler of \<^verbatim>\<open>ThreadInterruptedException\<close> at the end of \<open>applyThreadMain\<close>.\<close>

definition applyThread_exit :: "StateMachine \<Rightarrow> StateMachine \<times> (int \<times> int) list" where
  "applyThread_exit sm = (let sm' = sm\<lparr>exiting := True\<rparr> in (sm', killSnapshotProcess sm' SIGTERM))"

definition getInhibit :: "int \<Rightarrow> StateMachine \<Rightarrow> int" where
  "getInhibit now sm = (if maySnapshotAt sm \<le> now then 0 else maySnapshotAt sm - now)"

definition setInhibit :: "int \<Rightarrow> int \<Rightarrow> StateMachine \<Rightarrow> StateMachine" where
  "setInhibit now duration sm =
     (if duration \<le> 0 then sm\<lparr>maySnapshotAt := timeMin\<rparr>
      else (let at = i64 (now + duration)
            in sm\<lparr>maySnapshotAt := (if at < now then timeMax else at)\<rparr>))"

text \<open>One iteration of \<open>snapshotThreadMain\<close>: either it starts a snapshot (the index it covers), or it
  waits on \<^verbatim>\<open>snapshotSuggested\<close> until the given time. \<open>should\<close> is the value of
  \<^verbatim>\<open>shouldTakeSnapshot(lastApplied)\<close>.\<close>

datatype snapshotThreadAction = TakeSnapshot nat | WaitUntil int

definition snapshotThread_iter ::
  "int \<Rightarrow> bool \<Rightarrow> StateMachine \<Rightarrow> StateMachine \<times> snapshotThreadAction" where
  "snapshotThread_iter now should sm =
     (let inhibited = maySnapshotAt sm > now;
          waitUntil = (if inhibited then maySnapshotAt sm else timeMax)
      in if isSnapshotRequested sm \<or> (\<not> inhibited \<and> should)
         then (sm\<lparr>isSnapshotRequested := False\<rparr>, TakeSnapshot (lastApplied sm))
         else (sm, WaitUntil waitUntil))"

text \<open>\<open>takeSnapshot\<close> releases the lock while the child runs, so it is two steps: the fork, with the
  contents the child writes, and the end, with the status of the child.\<close>

definition takeSnapshot_fork :: "int \<Rightarrow> StateMachine \<Rightarrow> (StateMachine \<times> SnapItem list) option" where
  "takeSnapshot_fork pid sm0 = do {
     let sm = sm0\<lparr>numSnapshotsAttempted := u64 (numSnapshotsAttempted sm0 + 1)\<rparr>;
     require (pid \<noteq> -1);
     require (childPid sm = 0);
     Some (sm\<lparr>childPid := pid\<rparr>, writeSnapshot sm) }"

datatype waitStatus = WaitFailed | Exited int | Signaled int

datatype snapshotOutcome = SnapshotDone | SnapshotDiscarded | SnapshotFailed

definition takeSnapshot_end :: "waitStatus \<Rightarrow> StateMachine \<Rightarrow> (StateMachine \<times> snapshotOutcome) option" where
  "takeSnapshot_end st sm0 = (let sm = sm0\<lparr>childPid := 0\<rparr> in
     if st = WaitFailed then None
     else if st = Exited 0 then Some (sm, SnapshotDone)
     else if exiting sm \<and> st = Signaled SIGTERM then Some (sm, SnapshotDiscarded)
     else Some (sm\<lparr>numSnapshotsFailed := u64 (numSnapshotsFailed sm + 1)\<rparr>, SnapshotFailed))"

text \<open>The watchdog: its local variables, and one iteration with the number of bytes the child has
  written. It returns the signals it sends and the time until which it waits.\<close>

record Watchdog =
  tracking :: nat
  startProgress :: nat
  startTime :: int

definition watchdog_init :: Watchdog where
  "watchdog_init = \<lparr>tracking = u64_max, startProgress = 0, startTime = timeMin\<rparr>"

definition snapshotWatchdog_iter ::
  "int \<Rightarrow> int \<Rightarrow> nat \<Rightarrow> StateMachine \<Rightarrow> Watchdog \<Rightarrow> Watchdog \<times> (int \<times> int) list \<times> int" where
  "snapshotWatchdog_iter interval now currentProgress sm w =
     (if childPid sm > 0 then
        (let (w', kills) =
           (if tracking w = numSnapshotsAttempted sm then
              (if interval \<noteq> 0 \<and> now \<ge> i64 (startTime w + interval) then
                 (w\<lparr>startProgress := currentProgress, startTime := now\<rparr>,
                  if currentProgress = startProgress w then killSnapshotProcess sm SIGKILL else [])
               else (w, []))
            else (\<lparr>tracking = numSnapshotsAttempted sm, startProgress = currentProgress,
                   startTime = now\<rparr>, []))
         in (w', kills, if interval \<noteq> 0 then i64 (startTime w' + interval) else timeMax))
      else (w\<lparr>tracking := u64_max\<rparr>, [], timeMax))"

end
