(* ===== verification/LC_StateMachineSpec.thy ===== *)
theory LC_StateMachineSpec
  imports LC_StateMachine
begin

text \<open>
  Correctness of the state machine: its invariant and that every entry keeps it, at-most-once
  execution of client commands, the response a client gets, the version history, the agreement
  of replicas (with and without snapshots), and the snapshot threads.
\<close>

section \<open>The invariant\<close>

text \<open>Responses below \<^verbatim>\<open>firstOutstandingRPC\<close> have been discarded.\<close>

definition session_wf :: "Session \<Rightarrow> bool" where
  "session_wf s \<longleftrightarrow> om_wf (responses s) \<and> (\<forall>r \<in> set (responses s). firstOutstandingRPC s \<le> fst r)"

definition sessions_wf :: "nat \<Rightarrow> (nat, Session) omap \<Rightarrow> bool" where
  "sessions_wf n ss \<longleftrightarrow> om_wf ss \<and> (\<forall>e \<in> set ss. fst e \<le> n \<and> session_wf (snd e))"

text \<open>The history starts with version 1 at index 0, only grows, and stays in the supported range.\<close>

definition versions_wf :: "nat \<Rightarrow> (nat, nat) omap \<Rightarrow> bool" where
  "versions_wf n vh \<longleftrightarrow> om_wf vh \<and> map_of vh 0 = Some 1 \<and> sorted (map snd vh) \<and>
     (\<forall>e \<in> set vh. fst e \<le> n \<and> MIN_SUPPORTED_VERSION \<le> snd e \<and> snd e \<le> MAX_SUPPORTED_VERSION)"

definition sm_wf :: "StateMachine \<Rightarrow> bool" where
  "sm_wf sm \<longleftrightarrow> sessions_wf (lastApplied sm) (sessions sm) \<and>
     versions_wf (lastApplied sm) (versionHistory sm) \<and> tree_wf (tree sm)"

lemma session_wf_empty [simp]: "session_wf emptySession"
  by (simp add: session_wf_def emptySession_def)

lemma session_wf_modified [simp]: "session_wf (s\<lparr>lastModified := x\<rparr>) = session_wf s"
  by (simp add: session_wf_def)

lemma session_wf_expireResponses: "session_wf s \<Longrightarrow> session_wf (expireResponses s n)"
  by (auto simp: session_wf_def expireResponses_def intro: om_wf_filter)

lemma session_wf_insert:
  "session_wf s \<Longrightarrow> firstOutstandingRPC s \<le> n \<Longrightarrow>
   session_wf (s\<lparr>responses := om_set n r (responses s), lastModified := x\<rparr>)"
  using set_om_set [of n r "responses s"] by (auto simp: session_wf_def om_wf_set)

lemma sessions_wf_set:
  "sessions_wf n ss \<Longrightarrow> k \<le> n \<Longrightarrow> session_wf s \<Longrightarrow> sessions_wf n (om_set k s ss)"
  using set_om_set [of k s ss] by (auto simp: sessions_wf_def om_wf_set)

lemma sessions_wf_filter: "sessions_wf n ss \<Longrightarrow> sessions_wf n (filter P ss)"
  by (auto simp: sessions_wf_def om_wf_filter)

lemma sessions_wf_mono: "sessions_wf n ss \<Longrightarrow> n \<le> m \<Longrightarrow> sessions_wf m ss"
  by (auto simp: sessions_wf_def)

lemma sessions_wf_lookup:
  "sessions_wf n ss \<Longrightarrow> map_of ss k = Some s \<Longrightarrow> k \<le> n \<and> session_wf s"
  by (auto simp: sessions_wf_def dest!: map_of_SomeD)

lemma versions_wf_mono: "versions_wf n vh \<Longrightarrow> n \<le> m \<Longrightarrow> versions_wf m vh"
  by (auto simp: versions_wf_def)

text \<open>In a well-formed history the version at an index exists, is supported, and is that of the
  last change at or before it.\<close>

lemma versions_wf_floor:
  assumes "versions_wf n vh"
  obtains j v where "om_floor i vh = Some (j, v)" "map_of vh j = Some v" "j \<le> i" "(j, v) \<in> set vh"
proof -
  have "0 \<in> fst ` set vh" using assms by (force simp: versions_wf_def dest: map_of_SomeD)
  then have "om_floor i vh \<noteq> None" by (metis om_floor_None not_less0)
  then obtain j v where f: "om_floor i vh = Some (j, v)" by force
  then show ?thesis using that om_floor_Some [of vh i j v] assms map_of_SomeD
    by (metis versions_wf_def)
qed

lemma versions_wf_insert:
  assumes wf: "versions_wf n vh" and fl: "om_floor n vh = Some (j, w)"
    and v: "w < v" "v \<le> MAX_SUPPORTED_VERSION" and i: "n < i"
  shows "versions_wf i (om_insert i v vh)"
proof -
  have lt: "\<forall>x \<in> fst ` set vh. x < i" using wf i by (auto simp: versions_wf_def)
  then have none: "map_of vh i = None" by (auto simp: map_of_eq_None_iff)
  have eq: "om_insert i v vh = vh @ [(i, v)]"
    using none lt by (simp add: om_insert_def om_set_append)
  have "filter (\<lambda>e. fst e \<le> n) vh = vh" using wf by (auto simp: versions_wf_def)
  then have ne: "vh \<noteq> []" and l: "last vh = (j, w)" using fl by (auto simp: om_floor_def split: if_splits)
  have srt: "sorted (map snd vh)" using wf by (simp add: versions_wf_def)
  have "\<forall>x \<in> set (map snd vh). x \<le> last (map snd vh)"
    using srt by (induction vh rule: rev_induct) (auto simp: sorted_append)
  then have "\<forall>x \<in> snd ` set vh. x \<le> w" using ne l by (simp add: last_map)
  then have "sorted (map snd (vh @ [(i, v)]))"
    using srt v by (auto simp: sorted_append)
  moreover have "MIN_SUPPORTED_VERSION \<le> v" using v ne l wf last_in_set [OF ne]
    by (auto simp: versions_wf_def)
  moreover have "om_wf (om_insert i v vh)" using wf by (simp add: versions_wf_def om_wf_insert)
  moreover have "map_of (vh @ [(i, v)]) 0 = Some 1"
    using wf by (auto simp: versions_wf_def map_add_def)
  ultimately show ?thesis
    using wf v i by (auto simp: eq versions_wf_def)
qed

lemma sm_wf_init: "sm_wf mkStateMachine"
  by (simp add: sm_wf_def mkStateMachine_def sessions_wf_def versions_wf_def om_insert_def om_set_def
      om_wf_def MIN_SUPPORTED_VERSION_def MAX_SUPPORTED_VERSION_def tree_wf_mkTree)

lemma getVersion_total:
  assumes "sm_wf sm"
  obtains v where "getVersion sm i = Some v" "MIN_SUPPORTED_VERSION \<le> v" "v \<le> MAX_SUPPORTED_VERSION"
proof -
  obtain j v where "om_floor i (versionHistory sm) = Some (j, v)" "(j, v) \<in> set (versionHistory sm)"
    using versions_wf_floor [of _ "versionHistory sm" i] assms by (metis sm_wf_def)
  then show ?thesis using that assms by (fastforce simp: getVersion_def sm_wf_def versions_wf_def)
qed

section \<open>What an entry changes\<close>

lemma warnUnknownRequest_frame:
  assumes "warnUnknownRequest b now sm = Some sm'"
  shows "sessions sm' = sessions sm" "tree sm' = tree sm" "versionHistory sm' = versionHistory sm"
    "lastApplied sm' = lastApplied sm"
  using assms by (auto simp: warnUnknownRequest_def Let_def split: if_splits elim!: bind_SomeE)

lemma apply_advance_version_frame:
  assumes "apply_advance_version i rv req sm = Some sm'"
  shows "sessions sm' = sessions sm" "tree sm' = tree sm" "lastApplied sm' = lastApplied sm"
  using assms by (auto simp: apply_advance_version_def Let_def split: if_splits elim!: bind_SomeE)

lemma apply_tree_frame:
  assumes "apply_tree ct req sm = Some sm'"
  shows "versionHistory sm' = versionHistory sm" "lastApplied sm' = lastApplied sm"
  using assms
  by (auto simp: apply_tree_def Let_def split: if_splits option.splits elim!: bind_SomeE)

lemma apply_tree_cases:
  assumes "apply_tree ct req sm = Some sm'"
  obtains (no_session) "map_of (sessions sm) (client_id (exactly_once req)) = None" "sm' = sm"
  | (duplicate) s s' where "map_of (sessions sm) (client_id (exactly_once req)) = Some s"
      "s' = expireResponses s (first_outstanding_rpc (exactly_once req))"
      "rpc_number (exactly_once req) < firstOutstandingRPC s' \<or>
       map_of (responses s') (rpc_number (exactly_once req)) \<noteq> None"
      "sm' = sm\<lparr>sessions := om_set (client_id (exactly_once req)) s' (sessions sm)\<rparr>"
  | (fresh) s s' t resp where "map_of (sessions sm) (client_id (exactly_once req)) = Some s"
      "s' = expireResponses s (first_outstanding_rpc (exactly_once req))"
      "firstOutstandingRPC s' \<le> rpc_number (exactly_once req)"
      "map_of (responses s') (rpc_number (exactly_once req)) = None"
      "readWriteTreeRPC (tree sm) req = Some (t, resp)"
      "sm' = sm\<lparr>tree := t, sessions := om_set (client_id (exactly_once req))
         (s'\<lparr>responses := om_set (rpc_number (exactly_once req)) (TreeResponse resp) (responses s'),
             lastModified := ct\<rparr>) (sessions sm)\<rparr>"
proof (cases "map_of (sessions sm) (client_id (exactly_once req))")
  case None
  then have "sm' = sm" using assms by (simp add: apply_tree_def Let_def)
  with None show ?thesis by (rule no_session)
next
  case (Some s)
  let ?s = "expireResponses s (first_outstanding_rpc (exactly_once req))"
  show ?thesis
  proof (cases "rpc_number (exactly_once req) < firstOutstandingRPC ?s \<or>
       map_of (responses ?s) (rpc_number (exactly_once req)) \<noteq> None")
    case True
    then show ?thesis using assms Some duplicate [OF Some refl True]
      by (auto simp: apply_tree_def Let_def split: if_splits)
  next
    case False
    then show ?thesis using assms Some fresh [OF Some refl]
      by (auto simp: apply_tree_def Let_def not_less elim!: bind_SomeE)
  qed
qed

lemma apply_tree_sessions_wf:
  assumes "apply_tree ct req sm = Some sm'" "sessions_wf n (sessions sm)"
  shows "sessions_wf n (sessions sm')"
  using assms(1)
proof (cases rule: apply_tree_cases)
  case no_session
  then show ?thesis using assms(2) by simp
next
  case (duplicate s s')
  then show ?thesis using sessions_wf_lookup [OF assms(2)] assms(2)
    by (simp add: sessions_wf_set session_wf_expireResponses)
next
  case (fresh s s' t resp)
  then have "client_id (exactly_once req) \<le> n" "session_wf s'"
    using sessions_wf_lookup [OF assms(2)] by (auto intro: session_wf_expireResponses)
  then show ?thesis using fresh(3,6) assms(2) by (auto intro!: sessions_wf_set session_wf_insert)
qed

lemma apply_tree_wf:
  assumes "apply_tree ct req sm = Some sm'" "tree_wf (tree sm)"
  shows "tree_wf (tree sm')"
  using assms by (cases rule: apply_tree_cases) (simp_all add: readWriteTreeRPC_wf)

text \<open>The five kinds of commands.\<close>

lemma apply_entry_cases:
  assumes "apply_entry parse b now e sm = Some sm'"
  obtains (tree) c req where "parse (e_command e) = Some c" "cmd_tree c = Some req"
      "apply_tree (e_clusterTime e) req sm = Some sm'"
  | (open_session) c s where "parse (e_command e) = Some c" "cmd_tree c = None" "cmd_open_session c"
      "s = (case map_of (sessions sm) (e_index e) of None \<Rightarrow> emptySession | Some s \<Rightarrow> s)"
      "sm' = sm\<lparr>sessions := om_set (e_index e) (s\<lparr>lastModified := e_clusterTime e\<rparr>) (sessions sm)\<rparr>"
  | (close_session) c cid where "parse (e_command e) = Some c" "cmd_tree c = None"
      "cmd_close_session c = Some cid"
      "sm' = sm\<lparr>sessions := om_erase cid (sessions sm)\<rparr>"
  | (advance_version) c rv req where "parse (e_command e) = Some c" "cmd_tree c = None"
      "cmd_advance_version c = Some req" "getVersion sm (u64_sub (e_index e) 1) = Some rv"
      "apply_advance_version (e_index e) rv req sm = Some sm'"
  | (unknown) c where "parse (e_command e) = Some c" "cmd_tree c = None"
      "warnUnknownRequest b now sm = Some sm'"
proof -
  obtain c rv where c: "parse (e_command e) = Some c" "getVersion sm (u64_sub (e_index e) 1) = Some rv"
    using assms by (auto simp: apply_entry_def elim!: bind_SomeE)
  show ?thesis
  proof (cases "cmd_tree c")
    case (Some req)
    then show ?thesis using assms c tree by (simp add: apply_entry_def)
  next
    case None
    show ?thesis
    proof (cases "cmd_open_session c")
      case True
      let ?s = "case map_of (sessions sm) (e_index e) of None \<Rightarrow> emptySession | Some s \<Rightarrow> s"
      have "Some sm' = Some (sm\<lparr>sessions := om_set (e_index e) (?s\<lparr>lastModified := e_clusterTime e\<rparr>)
          (sessions sm)\<rparr>)"
        unfolding assms [symmetric] apply_entry_def c None bind.simps option.case if_P [OF True]
        by (cases "map_of (sessions sm) (e_index e)") (simp_all add: Let_def om_insert_def map_of_om_set)
      then show ?thesis using open_session [OF c(1) None True refl] by blast
    next
      case False
      have "(\<exists>cid. cmd_close_session c = Some cid \<and> sm' = sm\<lparr>sessions := om_erase cid (sessions sm)\<rparr>) \<or>
          (\<exists>req. cmd_advance_version c = Some req \<and> apply_advance_version (e_index e) rv req sm = Some sm') \<or>
          warnUnknownRequest b now sm = Some sm'"
        using assms c None False by (auto simp: apply_entry_def split: option.splits if_splits)
      then show ?thesis
        using close_session [OF c(1) None] advance_version [OF c(1) None _ c(2)] unknown [OF c(1) None]
        by blast
    qed
  qed
qed

lemma apply_entry_lastApplied:
  assumes "apply_entry parse b now e sm = Some sm'"
  shows "lastApplied sm' = lastApplied sm"
  using assms by (cases rule: apply_entry_cases)
    (simp_all add: apply_tree_frame apply_advance_version_frame warnUnknownRequest_frame)

lemma apply_entry_tree_wf:
  assumes "apply_entry parse b now e sm = Some sm'" "tree_wf (tree sm)"
  shows "tree_wf (tree sm')"
  using assms by (cases rule: apply_entry_cases)
    (simp_all add: apply_tree_wf apply_advance_version_frame warnUnknownRequest_frame)

lemma apply_entry_sessions_wf:
  assumes "apply_entry parse b now e sm = Some sm'" "sessions_wf (e_index e) (sessions sm)"
  shows "sessions_wf (e_index e) (sessions sm')"
  using assms(1)
proof (cases rule: apply_entry_cases)
  case (open_session c s)
  then have "session_wf s" using sessions_wf_lookup [OF assms(2)] by (simp split: option.splits)
  then show ?thesis using open_session assms(2) by (simp add: sessions_wf_set)
qed (use assms(2) in \<open>simp_all add: apply_tree_sessions_wf om_erase_def sessions_wf_filter
        apply_advance_version_frame warnUnknownRequest_frame\<close>)

lemma apply_advance_version_wf:
  assumes "apply_advance_version i rv req sm = Some sm'" "versions_wf n (versionHistory sm)"
    "getVersion sm n = Some rv" "n < i"
  shows "versions_wf i (versionHistory sm')"
proof -
  obtain j where "om_floor n (versionHistory sm) = Some (j, rv)"
    using assms(3) by (auto simp: getVersion_def)
  then show ?thesis
    using assms versions_wf_insert [OF assms(2) _ _ _ assms(4)] versions_wf_mono [OF assms(2), of i]
    by (auto simp: apply_advance_version_def Let_def split: if_splits elim!: bind_SomeE)
qed

lemma om_floor_beyond:
  "\<forall>e \<in> set m. fst e \<le> n \<Longrightarrow> n \<le> i \<Longrightarrow> om_floor i m = om_floor n m"
proof -
  assume "\<forall>e \<in> set m. fst e \<le> n" "n \<le> i"
  then have "filter (\<lambda>e. fst e \<le> i) m = m" "filter (\<lambda>e. fst e \<le> n) m = m"
    by (auto simp: filter_id_conv)
  then show ?thesis by (simp add: om_floor_def)
qed

lemma getVersion_beyond:
  "versions_wf n (versionHistory sm) \<Longrightarrow> n \<le> i \<Longrightarrow> getVersion sm i = getVersion sm n"
  unfolding getVersion_def versions_wf_def using om_floor_beyond by metis

lemma apply_entry_versions_wf:
  assumes "apply_entry parse b now e sm = Some sm'" "versions_wf n (versionHistory sm)"
    "n < e_index e" "e_index e < 2 ^ 64"
  shows "versions_wf (e_index e) (versionHistory sm')"
  using assms(1)
proof (cases rule: apply_entry_cases)
  case (advance_version c rv req)
  have "u64_sub (e_index e) 1 = e_index e - 1" using assms(3,4) by (simp add: u64_sub_exact)
  then have "getVersion sm n = Some rv"
    using advance_version(4) getVersion_beyond [OF assms(2), of "e_index e - 1"] assms(3) by simp
  then show ?thesis using apply_advance_version_wf advance_version(5) assms(2,3) by blast
qed (use versions_wf_mono [OF assms(2), of "e_index e"] assms(3) in
      \<open>simp_all add: apply_tree_frame warnUnknownRequest_frame\<close>)

section \<open>Snapshots\<close>

lemma loadSession_serialize:
  assumes "om_wf (acc @ [e])" "om_wf (responses (snd e))"
  shows "loadSession acc (serializeSession e) = acc @ [e]"
proof -
  obtain k s where e: "e = (k, s)" by fastforce
  have lt: "\<forall>x \<in> fst ` set acc. x < k"
    using assms(1) by (auto simp: om_wf_def sorted_wrt_append e)
  then have none: "map_of acc k = None" by (auto simp: map_of_eq_None_iff)
  have ins: "om_insert k v acc = om_set k v acc" for v
    using none by (simp add: om_insert_def)
  have rs: "foldl (\<lambda>rs r. om_insert (fst r) (snd r) rs) [] (responses s) = responses s"
    using foldl_om_insert [of "[]" "responses s"] assms(2) by (simp add: e)
  show ?thesis
    using om_set_append [OF lt, of s] rs
    by (cases s) (simp add: loadSession_def serializeSession_def e ins Let_def map_of_om_set emptySession_def)
qed

lemma loadSessions_serialize:
  assumes "om_wf (acc @ ss)" "\<forall>e \<in> set ss. om_wf (responses (snd e))"
  shows "foldl loadSession acc (map serializeSession ss) = acc @ ss"
  using assms
proof (induction ss arbitrary: acc)
  case (Cons e ss)
  have "om_wf (acc @ [e])" using Cons.prems(1) by (auto simp: om_wf_def sorted_wrt_append)
  then show ?case
    using Cons.IH [of "acc @ [e]"] Cons.prems by (simp add: loadSession_serialize)
qed simp

lemma versions_wf_head:
  assumes "versions_wf n vh"
  obtains vs where "vh = (0, 1) # vs"
proof (cases vh)
  case Nil
  then show ?thesis using assms by (simp add: versions_wf_def)
next
  case (Cons e vs)
  obtain k v where e: "e = (k, v)" by fastforce
  have wf: "om_wf ((k, v) # vs)" "map_of ((k, v) # vs) 0 = Some 1"
    using assms by (simp_all add: versions_wf_def Cons e)
  have "k = 0"
  proof (rule ccontr)
    assume "k \<noteq> 0"
    then have "0 \<in> fst ` set vs" using wf(2) by (force dest: map_of_SomeD)
    then show False using wf(1) by (metis om_wf_Cons not_less0)
  qed
  then show ?thesis using that wf(2) by (simp add: Cons e)
qed

lemma loadVersionHistory_serialize:
  assumes "versions_wf n (versionHistory sm)" "version_update h = versionHistory sm"
  shows "loadVersionHistory h sm0 = Some (sm0\<lparr>versionHistory := versionHistory sm\<rparr>)"
proof -
  obtain vs where vs: "versionHistory sm = (0, 1) # vs" using versions_wf_head [OF assms(1)] .
  have wf: "om_wf ([(0, 1)] @ vs)" using assms(1) by (simp add: versions_wf_def vs)
  have ins: "om_insert 0 (Suc 0) [(0::nat, Suc 0)] = [(0, Suc 0)]" "om_insert 0 (Suc 0) [] = [(0::nat, Suc 0)]"
    by (simp_all add: om_insert_def om_set_def)
  have "foldl (\<lambda>m u. om_insert (fst u) (snd u) m) (om_insert 0 1 []) (version_update h) = versionHistory sm"
    using foldl_om_insert [OF wf] by (simp add: assms(2) vs ins)
  moreover have "\<forall>e \<in> set (versionHistory sm). MIN_SUPPORTED_VERSION \<le> snd e \<and> snd e \<le> MAX_SUPPORTED_VERSION"
    using assms(1) by (simp add: versions_wf_def)
  moreover from this have "\<forall>e \<in> set (versionHistory sm). snd e < 2 ^ 16"
    by (fastforce simp: MAX_SUPPORTED_VERSION_def)
  moreover have "last (versionHistory sm) \<in> set (versionHistory sm)" by (simp add: vs)
  ultimately show ?thesis by (simp add: loadVersionHistory_def assms(2) Let_def)
qed

lemma treeItems_map [simp]: "treeItems (map TreeItem s) = s"
  by (induction s) simp_all

text \<open>A snapshot restores the sessions, the version history and the contents of the tree; whatever
  the loading state machine held before is gone.\<close>

lemma snapshot_restores:
  assumes "sm_wf sm"
  shows "loadSnapshot_sm (writeSnapshot sm) sm0 =
    Some (sm0\<lparr>versionHistory := versionHistory sm, sessions := sessions sm,
              tree := (tree sm0)\<lparr>superRoot := superRoot (tree sm)\<rparr>\<rparr>)"
proof -
  have "om_wf (sessions sm)" "\<forall>e \<in> set (sessions sm). om_wf (responses (snd e))"
    using assms by (auto simp: sm_wf_def sessions_wf_def session_wf_def)
  then have ss: "foldl loadSession [] (map serializeSession (sessions sm)) = sessions sm"
    using loadSessions_serialize [of "[]" "sessions sm"] by simp
  have tr: "loadSnapshot_tree t (dumpSnapshot_tree (tree sm)) =
      Some (t\<lparr>superRoot := superRoot (tree sm)\<rparr>, [])" for t
    using tree_snapshot_roundtrip [of "tree sm" t "[]"] assms by (simp add: sm_wf_def)
  have vh: "loadVersionHistory h sm0 = Some (sm0\<lparr>versionHistory := versionHistory sm\<rparr>)"
    if "version_update h = versionHistory sm" for h
    using loadVersionHistory_serialize that assms by (auto simp: sm_wf_def)
  show ?thesis
    by (simp add: loadSnapshot_sm_def writeSnapshot_def serializeSessions_def
        serializeVersionHistory_def vh loadSessions_def ss tr Let_def)
qed

section \<open>Agreement of replicas\<close>

text \<open>What the replicated log determines of a state machine.\<close>

definition sm_eq :: "StateMachine \<Rightarrow> StateMachine \<Rightarrow> bool" where
  "sm_eq a b \<longleftrightarrow> lastApplied a = lastApplied b \<and> sessions a = sessions b \<and>
     versionHistory a = versionHistory b \<and> superRoot (tree a) = superRoot (tree b)"

lemma sm_eq_refl: "sm_eq a a"
  by (simp add: sm_eq_def)

lemma sm_eq_sym: "sm_eq a b \<Longrightarrow> sm_eq b a"
  by (simp add: sm_eq_def)

lemma sm_eq_trans: "sm_eq a b \<Longrightarrow> sm_eq b c \<Longrightarrow> sm_eq a c"
  by (simp add: sm_eq_def)

lemma sm_eq_wf: "sm_eq a b \<Longrightarrow> sm_wf a \<Longrightarrow> sm_wf b"
  using tree_wf_superRoot [of "tree b" "tree a"] by (simp add: sm_eq_def sm_wf_def)

lemma sm_eq_getVersion: "sm_eq a b \<Longrightarrow> getVersion a i = getVersion b i"
  by (simp add: sm_eq_def getVersion_def)

lemma warnUnknownRequest_eq: "warnUnknownRequest cfg now a = Some a' \<Longrightarrow> sm_eq a a'"
  by (simp add: sm_eq_def warnUnknownRequest_frame)

lemma apply_tree_eq:
  assumes "sm_eq a b" "apply_tree ct req a = Some a'" "apply_tree ct req b = Some b'"
  shows "sm_eq a' b'"
proof -
  have ss: "sessions b = sessions a" and sr: "superRoot (tree a) = superRoot (tree b)"
    using assms(1) by (simp_all add: sm_eq_def)
  from assms(2) show ?thesis
  proof (cases rule: apply_tree_cases)
    case no_session
    then show ?thesis using assms(1,3) ss by (simp add: apply_tree_def Let_def)
  next
    case (duplicate s s')
    then show ?thesis using assms(1,3) ss
      by (auto simp: apply_tree_def Let_def sm_eq_def split: if_splits)
  next
    case (fresh s s' t resp)
    then obtain u where u: "readWriteTreeRPC (tree b) req = Some (u, resp)" "superRoot t = superRoot u"
      using readWriteTreeRPC_same [OF sr, of req] by (cases "readWriteTreeRPC (tree b) req") auto
    then show ?thesis using fresh assms(1,3) ss
      by (simp add: apply_tree_def Let_def sm_eq_def) (auto simp: sm_eq_def)
  qed
qed

lemma apply_advance_version_eq:
  assumes "sm_eq a b" "apply_advance_version i rv req a = Some a'"
    "apply_advance_version i rv req b = Some b'"
  shows "sm_eq a' b'"
  using assms by (auto simp: apply_advance_version_def sm_eq_def split: if_splits elim!: bind_SomeE)

lemma apply_entry_eq:
  assumes "sm_eq a b" "apply_entry parse cfg now e a = Some a'" "apply_entry parse cfg' now' e b = Some b'"
  shows "sm_eq a' b'"
proof -
  obtain c rv where c: "parse (e_command e) = Some c" "getVersion a (u64_sub (e_index e) 1) = Some rv"
    using assms(2) by (auto simp: apply_entry_def elim!: bind_SomeE)
  have rv: "getVersion b (u64_sub (e_index e) 1) = Some rv"
    using c(2) sm_eq_getVersion [OF assms(1)] by simp
  note ap = assms(2,3) [unfolded apply_entry_def c rv bind.simps]
  have warn: "warnUnknownRequest cfg now a = Some a' \<Longrightarrow> warnUnknownRequest cfg' now' b = Some b' \<Longrightarrow> sm_eq a' b'"
    using assms(1) warnUnknownRequest_eq sm_eq_sym sm_eq_trans by metis
  have ss: "sessions b = sessions a" using assms(1) by (simp add: sm_eq_def)
  consider "cmd_tree c \<noteq> None" | "cmd_tree c = None" "cmd_open_session c"
    | "cmd_tree c = None" "\<not> cmd_open_session c" "cmd_close_session c \<noteq> None"
    | "cmd_tree c = None" "\<not> cmd_open_session c" "cmd_close_session c = None" by blast
  then show ?thesis
  proof cases
    case 1
    then show ?thesis using ap apply_tree_eq [OF assms(1)] by auto
  next
    case 2
    then show ?thesis using ap assms(1) ss by (simp add: Let_def) (auto simp: sm_eq_def)
  next
    case 3
    then show ?thesis using ap assms(1) ss warn by (auto simp: sm_eq_def split: if_splits)
  next
    case 4
    then show ?thesis using ap warn apply_advance_version_eq [OF assms(1)] by (auto split: option.splits)
  qed
qed

lemma applyThread_iter_core:
  "applyThread_iter parse cfg now stats now' e sm = Some (sm', wake) \<Longrightarrow>
   applyCore parse cfg now e sm = Some sm'"
  by (auto simp: applyThread_iter_def applyCore_def Let_def elim!: bind_SomeE)

lemma applyCore_lastApplied: "applyCore parse cfg now e sm = Some sm' \<Longrightarrow> lastApplied sm' = e_index e"
  by (auto simp: applyCore_def elim!: bind_SomeE)

lemma applyCore_eq:
  assumes "sm_eq a b" "e_type e \<noteq> SNAPSHOT"
    "applyCore parse cfg now e a = Some a'" "applyCore parse cfg' now' e b = Some b'"
  shows "sm_eq a' b'"
proof -
  have fin: "sm_eq x y \<Longrightarrow> sm_eq ((expireSessions ct x)\<lparr>lastApplied := i\<rparr>) ((expireSessions ct y)\<lparr>lastApplied := i\<rparr>)"
    for x y ct i by (simp add: sm_eq_def expireSessions_def)
  show ?thesis
    using assms
    by (cases "e_type e") (auto simp: applyCore_def elim!: bind_SomeE intro!: fin intro: apply_entry_eq [OF assms(1)])
qed

lemma applyCore_wf:
  assumes "applyCore parse cfg now e sm = Some sm'" "sm_wf sm" "e_type e \<noteq> SNAPSHOT"
    "lastApplied sm < e_index e" "e_index e < 2 ^ 64"
  shows "sm_wf sm'"
proof -
  have w: "sessions_wf (e_index e) (sessions sm)" "versions_wf (e_index e) (versionHistory sm)"
    "tree_wf (tree sm)" "versions_wf (lastApplied sm) (versionHistory sm)"
    using assms(2,4) sessions_wf_mono versions_wf_mono by (auto simp: sm_wf_def intro: less_imp_le)
  have "sessions_wf (e_index e) (sessions x) \<and> versions_wf (e_index e) (versionHistory x) \<and> tree_wf (tree x)"
    if "apply_entry parse cfg now e sm = Some x" for x
    using apply_entry_sessions_wf [OF that w(1)] apply_entry_versions_wf [OF that w(4) assms(4,5)]
      apply_entry_tree_wf [OF that w(3)] by simp
  then show ?thesis
    using assms(1,3) w by (cases "e_type e")
      (auto simp: applyCore_def sm_wf_def expireSessions_def sessions_wf_filter elim!: bind_SomeE)
qed

text \<open>
  The replicas of a log. \<open>log i\<close> is the committed entry at index \<open>i\<close>; a replica starts empty and
  either applies the next entry or loads the snapshot that some replica wrote, whatever its own
  state was. Clocks, configurations and the statistics of the consensus module differ between
  replicas and steps.
\<close>

definition log_ok :: "(nat \<Rightarrow> SnapItem list Entry) \<Rightarrow> bool" where
  "log_ok log \<longleftrightarrow> (\<forall>i. e_index (log i) = i \<and> e_type (log i) \<noteq> SNAPSHOT)"

definition snapshotEntry :: "(nat \<Rightarrow> SnapItem list Entry) \<Rightarrow> StateMachine \<Rightarrow> SnapItem list Entry" where
  "snapshotEntry log src = \<lparr>e_index = lastApplied src, e_type = SNAPSHOT, e_command = [],
     e_snapshot = Some (writeSnapshot src), e_clusterTime = e_clusterTime (log (lastApplied src))\<rparr>"

inductive replica ::
  "(string \<Rightarrow> CommandRequest option) \<Rightarrow> (nat \<Rightarrow> SnapItem list Entry) \<Rightarrow> StateMachine \<Rightarrow> bool"
  for parse log where
  start: "replica parse log mkStateMachine"
| entry: "replica parse log sm \<Longrightarrow> Suc (lastApplied sm) < 2 ^ 64 \<Longrightarrow>
    applyThread_iter parse cfg now stats now' (log (Suc (lastApplied sm))) sm = Some (sm', wake) \<Longrightarrow>
    replica parse log sm'"
| snapshot: "replica parse log sm \<Longrightarrow> replica parse log src \<Longrightarrow> 0 < lastApplied src \<Longrightarrow>
    applyThread_iter parse cfg now stats now' (snapshotEntry log src) sm = Some (sm', wake) \<Longrightarrow>
    replica parse log sm'"
| client: "replica parse log sm \<Longrightarrow> query cfg now req sm = Some (sm', resp) \<Longrightarrow> replica parse log sm'"
| inhibit: "replica parse log sm \<Longrightarrow> replica parse log (setInhibit now duration sm)"
| start_snapshot: "replica parse log sm \<Longrightarrow> replica parse log (fst (startTakingSnapshot sm))"
| snapshot_thread: "replica parse log sm \<Longrightarrow> replica parse log (fst (snapshotThread_iter now should sm))"
| fork: "replica parse log sm \<Longrightarrow> takeSnapshot_fork pid sm = Some (sm', items) \<Longrightarrow> replica parse log sm'"
| reap: "replica parse log sm \<Longrightarrow> takeSnapshot_end st sm = Some (sm', outcome) \<Longrightarrow> replica parse log sm'"
| exit: "replica parse log sm \<Longrightarrow> replica parse log (fst (applyThread_exit sm))"

text \<open>The reference: apply the entries one after the other, with clocks that stand still.\<close>

fun replay ::
  "(string \<Rightarrow> CommandRequest option) \<Rightarrow> (nat \<Rightarrow> SnapItem list Entry) \<Rightarrow> nat \<Rightarrow> StateMachine option" where
  "replay parse log 0 = Some mkStateMachine"
| "replay parse log (Suc n) = do {
     sm \<leftarrow> replay parse log n;
     applyCore parse \<lparr>snapshotMinLogSize = 0, snapshotRatio = 0, unknownRequestMessageBackoff = 0\<rparr> 0
       (log (Suc n)) sm }"

text \<open>Commands abort alike on replicas that agree, whatever their clocks say.\<close>

lemma warnUnknownRequest_total: "sm_wf sm \<Longrightarrow> \<exists>sm'. warnUnknownRequest cfg now sm = Some sm'"
proof -
  assume wf: "sm_wf sm"
  let ?sm = "sm\<lparr>numUnknownRequests := u64 (numUnknownRequests sm + 1)\<rparr>"
  have "sm_wf ?sm" using wf by (simp add: sm_wf_def)
  then obtain v where "getVersion ?sm u64_max = Some v" using getVersion_total by blast
  then show ?thesis by (simp add: warnUnknownRequest_def Let_def)
qed

lemma apply_tree_defined:
  "sm_eq a b \<Longrightarrow> apply_tree ct req a = None \<longleftrightarrow> apply_tree ct req b = None"
  using readWriteTreeRPC_same [of "tree a" "tree b" req]
  by (cases "readWriteTreeRPC (tree a) req"; cases "readWriteTreeRPC (tree b) req")
    (auto simp: apply_tree_def sm_eq_def Let_def split: option.splits)

lemma apply_advance_version_defined:
  "sm_eq a b \<Longrightarrow> apply_advance_version i rv req a = None \<longleftrightarrow> apply_advance_version i rv req b = None"
  by (auto simp: apply_advance_version_def)

lemma apply_entry_defined:
  assumes "sm_eq a b" "sm_wf b" "apply_entry parse cfg now e a = Some a'"
  shows "\<exists>b'. apply_entry parse cfg' now' e b = Some b'"
proof -
  obtain w where w: "warnUnknownRequest cfg' now' b = Some w"
    using warnUnknownRequest_total [OF assms(2)] by blast
  obtain c rv where c: "parse (e_command e) = Some c" "getVersion a (u64_sub (e_index e) 1) = Some rv"
    using assms(3) by (auto simp: apply_entry_def elim!: bind_SomeE)
  have rv: "getVersion b (u64_sub (e_index e) (Suc 0)) = Some rv"
    using c(2) sm_eq_getVersion [OF assms(1)] by simp
  note ap = assms(3) [unfolded apply_entry_def c bind.simps]
  have td: "apply_tree ct req a = Some x \<Longrightarrow> \<exists>y. apply_tree ct req b = Some y"
    and ad: "apply_advance_version i v q a = Some x \<Longrightarrow> \<exists>y. apply_advance_version i v q b = Some y"
    for ct req i v q x
    using apply_tree_defined [OF assms(1), of ct req] apply_advance_version_defined [OF assms(1), of i v q]
    by auto
  show ?thesis
  proof (cases "cmd_tree c")
    case (Some req)
    then show ?thesis using ap td by (simp add: apply_entry_def c rv)
  next
    case None
    then show ?thesis using ap w ad
      by (cases "cmd_close_session c"; cases "cmd_advance_version c")
        (simp_all add: apply_entry_def c rv Let_def split: if_splits)
  qed
qed

lemma applyCore_defined:
  assumes "sm_eq a b" "sm_wf b" "e_type e \<noteq> SNAPSHOT" "applyCore parse cfg now e a = Some a'"
  shows "\<exists>b'. applyCore parse cfg' now' e b = Some b'"
proof (cases "e_type e")
  case DATA
  then obtain x where "apply_entry parse cfg now e a = Some x"
    using assms(4) by (auto simp: applyCore_def elim: bind_SomeE)
  then obtain y where "apply_entry parse cfg' now' e b = Some y"
    using apply_entry_defined [OF assms(1,2)] by blast
  then show ?thesis using DATA by (simp add: applyCore_def)
qed (use assms(3) in \<open>simp_all add: applyCore_def\<close>)

lemma applyCore_unexpired:
  assumes "applyCore parse cfg now e sm = Some sm'"
  shows "\<forall>x \<in> set (sessions sm'). \<not> sessionExpired (e_clusterTime e) (snd x)"
  using assms by (auto simp: applyCore_def expireSessions_def elim!: bind_SomeE)

lemma replay_inv:
  assumes "log_ok log"
  shows "n < 2 ^ 64 \<Longrightarrow> replay parse log n = Some a \<Longrightarrow> sm_wf a \<and> lastApplied a = n \<and>
    (\<forall>x \<in> set (sessions a). \<not> sessionExpired (e_clusterTime (log n)) (snd x))"
proof (induction n arbitrary: a)
  case 0
  then show ?case using sm_wf_init by (auto simp: mkStateMachine_def)
next
  case (Suc n)
  have log: "e_index (log (Suc n)) = Suc n" "e_type (log (Suc n)) \<noteq> SNAPSHOT"
    using assms by (simp_all add: log_ok_def)
  obtain a0 where a0: "replay parse log n = Some a0"
    and core: "applyCore parse \<lparr>snapshotMinLogSize = 0, snapshotRatio = 0,
      unknownRequestMessageBackoff = 0\<rparr> 0 (log (Suc n)) a0 = Some a"
    using Suc.prems(2) by (auto elim: bind_SomeE)
  have "sm_wf a0" "lastApplied a0 = n" using Suc a0 by auto
  then show ?case
    using applyCore_wf [OF core] applyCore_lastApplied [OF core] applyCore_unexpired [OF core]
      log Suc.prems(1) by simp
qed

lemma loadSnapshot_applyCore:
  assumes "sm_wf src" "\<forall>x \<in> set (sessions src). \<not> sessionExpired (e_clusterTime (log (lastApplied src))) (snd x)"
    "applyCore parse cfg now (snapshotEntry log src) sm = Some sm'"
  shows "sm_eq src sm'"
proof -
  have "filter (\<lambda>e. \<not> sessionExpired (e_clusterTime (log (lastApplied src))) (snd e)) (sessions src) = sessions src"
    using assms(2) by (simp add: filter_id_conv)
  then show ?thesis
    using assms(3) by (auto simp: applyCore_def snapshotEntry_def snapshot_restores [OF assms(1)]
        expireSessions_def sm_eq_def)
qed

lemma sm_eq_local_steps:
  "query cfg now req sm = Some (sm', resp) \<Longrightarrow> sm_wf sm \<Longrightarrow> sm_eq sm sm'"
  "sm_eq sm (setInhibit now duration sm)"
  "sm_eq sm (fst (startTakingSnapshot sm))"
  "sm_eq sm (fst (snapshotThread_iter now should sm))"
  "takeSnapshot_fork pid sm = Some (sm', items) \<Longrightarrow> sm_eq sm sm'"
  "takeSnapshot_end st sm = Some (sm', outcome) \<Longrightarrow> sm_eq sm sm'"
  "sm_eq sm (fst (applyThread_exit sm))"
proof -
  assume q: "query cfg now req sm = Some (sm', resp)" "sm_wf sm"
  show "sm_eq sm sm'"
  proof (cases "q_tree req")
    case None
    then show ?thesis using q warnUnknownRequest_eq by (auto simp: query_def elim!: bind_SomeE)
  next
    case (Some r)
    then obtain t x where t: "readOnlyTreeRPC (tree sm) r = Some (t, x)" "sm' = sm\<lparr>tree := t\<rparr>"
      using q(1) by (auto simp: query_def elim!: bind_SomeE)
    have "superRoot t = superRoot (tree sm)"
      using readOnlyTreeRPC_contents t(1) q(2) by (auto simp: sm_wf_def)
    then show ?thesis by (simp add: t(2) sm_eq_def)
  qed
qed (auto simp: sm_eq_def setInhibit_def startTakingSnapshot_def snapshotThread_iter_def Let_def
    takeSnapshot_fork_def takeSnapshot_end_def applyThread_exit_def split: if_splits)

definition agrees ::
  "(string \<Rightarrow> CommandRequest option) \<Rightarrow> (nat \<Rightarrow> SnapItem list Entry) \<Rightarrow> StateMachine \<Rightarrow> bool" where
  "agrees parse log sm \<longleftrightarrow> lastApplied sm < 2 ^ 64 \<and>
     (\<exists>a. replay parse log (lastApplied sm) = Some a \<and> sm_eq a sm)"

lemma agrees_eq: "agrees parse log sm \<Longrightarrow> sm_eq sm sm' \<Longrightarrow> agrees parse log sm'"
  unfolding agrees_def using sm_eq_trans by (metis sm_eq_def)

lemma agrees_inv:
  assumes "log_ok log" "agrees parse log sm"
  shows "sm_wf sm"
    "\<forall>x \<in> set (sessions sm). \<not> sessionExpired (e_clusterTime (log (lastApplied sm))) (snd x)"
proof -
  obtain a where a: "replay parse log (lastApplied sm) = Some a" "sm_eq a sm" "lastApplied sm < 2 ^ 64"
    using assms(2) by (auto simp: agrees_def)
  note inv = replay_inv [OF assms(1) a(3,1)]
  show "sm_wf sm" using inv a(2) sm_eq_wf by blast
  show "\<forall>x \<in> set (sessions sm). \<not> sessionExpired (e_clusterTime (log (lastApplied sm))) (snd x)"
    using inv a(2) by (simp add: sm_eq_def)
qed

lemma agrees_entry:
  assumes log: "log_ok log" and ag: "agrees parse log sm" and lt: "Suc (lastApplied sm) < 2 ^ 64"
    and core: "applyCore parse cfg now (log (Suc (lastApplied sm))) sm = Some sm'"
  shows "agrees parse log sm'"
proof -
  let ?e = "log (Suc (lastApplied sm))"
  obtain a where a: "replay parse log (lastApplied sm) = Some a" "sm_eq a sm" "lastApplied sm < 2 ^ 64"
    using ag by (auto simp: agrees_def)
  have wf: "sm_wf a" using replay_inv [OF log a(3,1)] by blast
  have e: "e_type ?e \<noteq> SNAPSHOT" "e_index ?e = Suc (lastApplied sm)" using log by (simp_all add: log_ok_def)
  obtain a' where a': "applyCore parse \<lparr>snapshotMinLogSize = 0, snapshotRatio = 0,
      unknownRequestMessageBackoff = 0\<rparr> 0 ?e a = Some a'"
    using applyCore_defined [OF sm_eq_sym [OF a(2)] wf e(1) core] by blast
  have "sm_eq a' sm'" using applyCore_eq [OF a(2) e(1) a' core] .
  then show ?thesis using applyCore_lastApplied [OF core] e(2) a(1) a' lt by (simp add: agrees_def)
qed

text \<open>Every replica agrees with the reference at the index it has reached.\<close>

lemma replica_replay:
  assumes log: "log_ok log"
  shows "replica parse log sm \<Longrightarrow> agrees parse log sm"
proof (induction rule: replica.induct)
  case start
  have "lastApplied mkStateMachine = 0" by (simp add: mkStateMachine_def)
  then show ?case using sm_eq_refl by (simp add: agrees_def)
next
  case (entry sm cfg now stats now' sm' wake)
  then show ?case using agrees_entry [OF log] applyThread_iter_core by blast
next
  case (snapshot sm src cfg now stats now' sm' wake)
  note inv = agrees_inv [OF log snapshot.IH(2)]
  have "sm_eq src sm'"
    using loadSnapshot_applyCore [of src log, OF inv] applyThread_iter_core [OF snapshot.hyps(4)] by blast
  then show ?case using agrees_eq snapshot.IH(2) by blast
next
  case (client sm cfg now req sm' resp)
  then show ?case using agrees_inv(1) [OF log] sm_eq_local_steps(1) agrees_eq by blast
qed (use sm_eq_local_steps(2-) agrees_eq in blast)+

section \<open>At-most-once execution\<close>

text \<open>The client and RPC number that a command carries, and those of an entry that is executed: a
  tree command of a known session whose response is neither discarded nor recorded.\<close>

definition rpc_id :: "ReadWriteTreeRequest \<Rightarrow> nat \<times> nat" where
  "rpc_id req = (client_id (exactly_once req), rpc_number (exactly_once req))"

definition fresh_rpc :: "ReadWriteTreeRequest \<Rightarrow> StateMachine \<Rightarrow> bool" where
  "fresh_rpc req sm = (case map_of (sessions sm) (client_id (exactly_once req)) of
     None \<Rightarrow> False
   | Some s \<Rightarrow> (let s' = expireResponses s (first_outstanding_rpc (exactly_once req))
       in firstOutstandingRPC s' \<le> rpc_number (exactly_once req) \<and>
          map_of (responses s') (rpc_number (exactly_once req)) = None))"

definition executes ::
  "(string \<Rightarrow> CommandRequest option) \<Rightarrow> 's Entry \<Rightarrow> StateMachine \<Rightarrow> (nat \<times> nat) option" where
  "executes parse e sm = (if e_type e \<noteq> DATA then None else do {
     c \<leftarrow> parse (e_command e);
     req \<leftarrow> cmd_tree c;
     if fresh_rpc req sm then Some (rpc_id req) else None })"

text \<open>An RPC that can never be executed again.\<close>

definition consumed :: "nat \<times> nat \<Rightarrow> StateMachine \<Rightarrow> bool" where
  "consumed x sm \<longleftrightarrow> fst x \<le> lastApplied sm \<and>
     (case map_of (sessions sm) (fst x) of None \<Rightarrow> True
      | Some s \<Rightarrow> snd x < firstOutstandingRPC s \<or> map_of (responses s) (snd x) \<noteq> None)"

lemma expireResponses_first: "firstOutstandingRPC s \<le> firstOutstandingRPC (expireResponses s n)"
  by (simp add: expireResponses_def)

lemma map_of_expireResponses:
  "map_of (responses (expireResponses s n)) k =
     (if firstOutstandingRPC s < n \<and> k < n then None else map_of (responses s) k)"
  by (simp add: expireResponses_def map_of_filter_ge not_less)

text \<open>The per-session condition of \<open>consumed\<close> and what keeps it.\<close>

definition answered :: "nat \<Rightarrow> Session \<Rightarrow> bool" where
  "answered n s \<longleftrightarrow> n < firstOutstandingRPC s \<or> map_of (responses s) n \<noteq> None"

lemma answered_expireResponses: "answered n s \<Longrightarrow> answered n (expireResponses s m)"
  by (cases "firstOutstandingRPC s < m")
    (auto simp: answered_def expireResponses_def map_of_filter_ge not_less)

lemma answered_insert: "answered n s \<or> n = m \<Longrightarrow>
  answered n (s\<lparr>responses := om_set m r (responses s)\<rparr>)"
  by (auto simp: answered_def map_of_om_set)

lemma answered_modified [simp]: "answered n (s\<lparr>lastModified := x\<rparr>) = answered n s"
  by (simp add: answered_def)

lemma consumed_iff:
  "consumed x sm \<longleftrightarrow> fst x \<le> lastApplied sm \<and> (\<forall>s. map_of (sessions sm) (fst x) = Some s \<longrightarrow> answered (snd x) s)"
  by (auto simp: consumed_def answered_def split: option.splits)

lemma fresh_not_consumed: "consumed x sm \<Longrightarrow> executes parse e sm \<noteq> Some x"
proof
  assume c: "consumed x sm" and ex: "executes parse e sm = Some x"
  obtain cmd req where "parse (e_command e) = Some cmd" "cmd_tree cmd = Some req"
    and f: "fresh_rpc req sm" "rpc_id req = x"
    using ex by (auto simp: executes_def split: if_splits elim!: bind_SomeE)
  then obtain s where s: "map_of (sessions sm) (fst x) = Some s"
    and a: "\<not> answered (snd x) (expireResponses s (first_outstanding_rpc (exactly_once req)))"
    by (auto simp: fresh_rpc_def rpc_id_def answered_def Let_def not_less split: option.splits)
  have "answered (snd x) s" using c s by (simp add: consumed_iff)
  then show False using a answered_expireResponses by blast
qed

lemma apply_tree_consumed:
  assumes "apply_tree ct req sm = Some sm'"
  shows "consumed x sm \<Longrightarrow> consumed x sm'"
    and "sm_wf sm \<Longrightarrow> fresh_rpc req sm \<Longrightarrow> consumed (rpc_id req) sm'"
proof -
  show "consumed x sm'" if "consumed x sm"
    using assms
  proof (cases rule: apply_tree_cases)
    case (fresh s s' t resp)
    then show ?thesis using that
      by (auto simp: consumed_iff map_of_om_set answered_expireResponses intro!: answered_insert)
  qed (use that in \<open>auto simp: consumed_iff map_of_om_set answered_expireResponses\<close>)
  show "consumed (rpc_id req) sm'" if "sm_wf sm" "fresh_rpc req sm"
    using assms
  proof (cases rule: apply_tree_cases)
    case (fresh s s' t resp)
    then show ?thesis using that(1) sessions_wf_lookup
      by (fastforce simp: consumed_iff rpc_id_def map_of_om_set sm_wf_def intro!: answered_insert)
  qed (use that(2) in \<open>auto simp: fresh_rpc_def Let_def\<close>)
qed

lemma apply_entry_consumed:
  assumes "apply_entry parse cfg now e sm = Some sm'" "consumed x sm" "lastApplied sm < e_index e"
  shows "consumed x sm'"
  using assms(1)
proof (cases rule: apply_entry_cases)
  case (open_session c s)
  then show ?thesis using assms(2,3) by (auto simp: consumed_iff map_of_om_set)
next
  case (tree c req)
  then show ?thesis using apply_tree_consumed(1) assms(2) by blast
qed (use assms(2) in \<open>auto simp: consumed_iff map_of_om_erase
      apply_advance_version_frame warnUnknownRequest_frame\<close>)

lemma consumed_finish:
  "consumed x sm \<Longrightarrow> lastApplied sm \<le> i \<Longrightarrow> om_wf (sessions sm) \<Longrightarrow>
   consumed x ((expireSessions ct sm)\<lparr>lastApplied := i\<rparr>)"
  by (auto simp: consumed_iff expireSessions_def map_of_filter_om)

lemma applyCore_cases:
  assumes "applyCore parse cfg now e sm = Some sm'" "e_type e \<noteq> SNAPSHOT"
  obtains sm1 where "sm' = (expireSessions (e_clusterTime e) sm1)\<lparr>lastApplied := e_index e\<rparr>"
    "e_type e = SKIP \<and> sm1 = sm \<or> e_type e = DATA \<and> apply_entry parse cfg now e sm = Some sm1"
proof -
  obtain sm1 where "sm' = (expireSessions (e_clusterTime e) sm1)\<lparr>lastApplied := e_index e\<rparr>"
    "(case e_type e of SKIP \<Rightarrow> Some sm | DATA \<Rightarrow> apply_entry parse cfg now e sm
      | SNAPSHOT \<Rightarrow> (case e_snapshot e of None \<Rightarrow> None | Some s \<Rightarrow> loadSnapshot_sm s sm)) = Some sm1"
    using bind_SomeD [OF assms(1) [unfolded applyCore_def]] by blast
  then show ?thesis using that assms(2) by (cases "e_type e") simp_all
qed

lemma apply_entry_om_wf:
  assumes "apply_entry parse cfg now e sm = Some sm1" "sm_wf sm" "lastApplied sm < e_index e"
  shows "om_wf (sessions sm1)"
proof -
  have "sessions_wf (e_index e) (sessions sm)"
    using assms(2,3) sessions_wf_mono by (auto simp: sm_wf_def intro: less_imp_le)
  then show ?thesis using apply_entry_sessions_wf [OF assms(1)] by (simp add: sessions_wf_def)
qed

lemma applyCore_consumed:
  assumes core: "applyCore parse cfg now e sm = Some sm'" and ty: "e_type e \<noteq> SNAPSHOT"
    and wf: "sm_wf sm" and lt: "lastApplied sm < e_index e"
  shows "consumed x sm \<Longrightarrow> consumed x sm'" and "executes parse e sm = Some x \<Longrightarrow> consumed x sm'"
proof -
  from applyCore_cases [OF core ty] obtain sm1 where
    sm': "sm' = (expireSessions (e_clusterTime e) sm1)\<lparr>lastApplied := e_index e\<rparr>"
    and c: "e_type e = SKIP \<and> sm1 = sm \<or> e_type e = DATA \<and> apply_entry parse cfg now e sm = Some sm1" .
  have om: "om_wf (sessions sm1)" and la: "lastApplied sm1 = lastApplied sm"
    using c apply_entry_om_wf [OF _ wf lt] wf apply_entry_lastApplied
    by (auto simp: sm_wf_def sessions_wf_def)
  have fin: "consumed x sm1 \<Longrightarrow> consumed x sm'" for x
    using consumed_finish [OF _ _ om] lt la by (simp add: sm')
  show "consumed x sm \<Longrightarrow> consumed x sm'" using fin c apply_entry_consumed lt by blast
  assume ex: "executes parse e sm = Some x"
  then obtain cmd req where r: "parse (e_command e) = Some cmd" "cmd_tree cmd = Some req"
    "fresh_rpc req sm" "rpc_id req = x" "e_type e = DATA"
    by (auto simp: executes_def split: if_splits elim!: bind_SomeE)
  then have "apply_tree (e_clusterTime e) req sm = Some sm1"
    using c by (auto simp: apply_entry_def elim!: bind_SomeE)
  then show "consumed x sm'" using fin apply_tree_consumed(2) wf r(3,4) by blast
qed

lemma replay_consumed:
  assumes "log_ok log" "consumed x a" "i \<le> j" "j < 2 ^ 64"
    "replay parse log i = Some a" "replay parse log j = Some b"
  shows "consumed x b"
  using assms(3,4,6)
proof (induction j arbitrary: b rule: dec_induct)
  case base
  then show ?case using assms(2,5) by simp
next
  case (step j)
  obtain b0 where b0: "replay parse log j = Some b0"
    and core: "applyCore parse \<lparr>snapshotMinLogSize = 0, snapshotRatio = 0,
      unknownRequestMessageBackoff = 0\<rparr> 0 (log (Suc j)) b0 = Some b"
    using step.prems by (auto elim: bind_SomeE)
  have "sm_wf b0" "lastApplied b0 = j" using replay_inv [OF assms(1) _ b0] step.prems by auto
  then show ?case
    using applyCore_consumed(1) [OF core] step.IH [OF _ b0] step.prems(1) assms(1) by (simp add: log_ok_def)
qed

lemma executes_eq: "sm_eq a b \<Longrightarrow> executes parse e a = executes parse e b"
  by (simp add: executes_def fresh_rpc_def sm_eq_def)

lemma replay_prefix: "replay parse log j = Some b \<Longrightarrow> i \<le> j \<Longrightarrow> \<exists>a. replay parse log i = Some a"
proof (induction j arbitrary: b)
  case (Suc j)
  then show ?case by (cases "i = Suc j") (auto elim: bind_SomeE)
qed simp

lemma executes_once_less:
  assumes "log_ok log" "replica parse log sm" "replica parse log sm'" "lastApplied sm < lastApplied sm'"
    "executes parse (log (Suc (lastApplied sm))) sm = Some x"
  shows "executes parse (log (Suc (lastApplied sm'))) sm' \<noteq> Some x"
proof -
  let ?i = "lastApplied sm" and ?j = "lastApplied sm'"
  obtain a b where a: "replay parse log ?i = Some a" "sm_eq a sm"
    and b: "replay parse log ?j = Some b" "sm_eq b sm'" and lt: "?i < 2 ^ 64" "?j < 2 ^ 64"
    using replica_replay [OF assms(1,2)] replica_replay [OF assms(1,3)] by (auto simp: agrees_def)
  obtain a' where a': "replay parse log (Suc ?i) = Some a'" using replay_prefix [OF b(1)] assms(4) by (metis Suc_leI)
  then have core: "applyCore parse \<lparr>snapshotMinLogSize = 0, snapshotRatio = 0,
      unknownRequestMessageBackoff = 0\<rparr> 0 (log (Suc ?i)) a = Some a'" using a(1) by simp
  have inv: "sm_wf a" "lastApplied a = ?i" using replay_inv [OF assms(1) lt(1) a(1)] by auto
  have "executes parse (log (Suc ?i)) a = Some x" using assms(5) executes_eq [OF a(2), of parse "log (Suc ?i)"] by simp
  then have "consumed x a'"
    using applyCore_consumed(2) [OF core _ inv(1)] inv(2) assms(1) by (simp add: log_ok_def)
  then have "consumed x b" using replay_consumed [OF assms(1) _ _ lt(2) a' b(1)] assms(4) by simp
  then show ?thesis
    using fresh_not_consumed executes_eq [OF b(2), of parse "log (Suc ?j)"] by metis
qed

section \<open>What an executed or skipped command does\<close>

lemma applyCore_skips:
  assumes "applyCore parse cfg now e sm = Some sm'" "e_type e \<noteq> SNAPSHOT" "executes parse e sm = None"
  shows "tree sm' = tree sm"
proof -
  from applyCore_cases [OF assms(1,2)] obtain sm1 where
    sm': "sm' = (expireSessions (e_clusterTime e) sm1)\<lparr>lastApplied := e_index e\<rparr>"
    and c: "e_type e = SKIP \<and> sm1 = sm \<or> e_type e = DATA \<and> apply_entry parse cfg now e sm = Some sm1" .
  have "tree sm1 = tree sm" if "apply_entry parse cfg now e sm = Some sm1" "e_type e = DATA"
    using that(1)
  proof (cases rule: apply_entry_cases)
    case (tree cm req)
    then have "\<not> fresh_rpc req sm" using assms(3) that(2) by (auto simp: executes_def)
    with tree(3) show ?thesis
      by (cases rule: apply_tree_cases) (auto simp: fresh_rpc_def Let_def)
  qed (simp_all add: apply_advance_version_frame warnUnknownRequest_frame)
  then show ?thesis using c by (auto simp: sm' expireSessions_def)
qed

section \<open>The response a client gets\<close>

text \<open>The only response that can still be on record for \<open>x\<close> is \<open>r\<close>.\<close>

definition settled :: "nat \<times> nat \<Rightarrow> CommandResponse \<Rightarrow> StateMachine \<Rightarrow> bool" where
  "settled x r sm \<longleftrightarrow> consumed x sm \<and>
     (\<forall>s r'. map_of (sessions sm) (fst x) = Some s \<longrightarrow> map_of (responses s) (snd x) = Some r' \<longrightarrow> r' = r)"

lemma settled_eq: "sm_eq a b \<Longrightarrow> settled x r a = settled x r b"
  by (simp add: settled_def consumed_def sm_eq_def)

lemma apply_tree_settled:
  assumes "apply_tree ct req sm = Some sm'" "settled x r sm"
  shows "settled x r sm'"
  using assms(1)
proof (cases rule: apply_tree_cases)
  case no_session
  then show ?thesis using assms(2) by simp
next
  case (duplicate s s')
  then show ?thesis using assms(2) apply_tree_consumed(1) [OF assms(1)]
    by (auto simp: settled_def map_of_om_set map_of_expireResponses split: if_splits)
next
  case (fresh s s' t resp)
  have "rpc_id req \<noteq> x"
  proof
    assume "rpc_id req = x"
    then have "answered (rpc_number (exactly_once req)) s"
      using assms(2) fresh(1) by (auto simp: settled_def consumed_iff rpc_id_def)
    then have "answered (rpc_number (exactly_once req)) s'"
      using answered_expireResponses fresh(2) by simp
    then show False using fresh(3,4) by (simp add: answered_def)
  qed
  then show ?thesis using fresh assms(2) apply_tree_consumed(1) [OF assms(1)]
    by (auto simp: settled_def map_of_om_set map_of_expireResponses rpc_id_def prod_eq_iff split: if_splits)
qed

lemma apply_entry_settled:
  assumes "apply_entry parse cfg now e sm = Some sm'" "settled x r sm" "lastApplied sm < e_index e"
  shows "settled x r sm'"
  using assms(1)
proof (cases rule: apply_entry_cases)
  case (tree c req)
  then show ?thesis using apply_tree_settled assms(2) by blast
next
  case (open_session c s)
  then show ?thesis using assms(2,3) apply_entry_consumed [OF assms(1) _ assms(3)]
    by (auto simp: settled_def map_of_om_set consumed_iff)
qed (use assms(2) apply_entry_consumed [OF assms(1) _ assms(3)] in \<open>auto simp: settled_def map_of_om_erase
      apply_advance_version_frame warnUnknownRequest_frame\<close>)

lemma applyCore_settled:
  assumes core: "applyCore parse cfg now e sm = Some sm'" and ty: "e_type e \<noteq> SNAPSHOT"
    and wf: "sm_wf sm" and lt: "lastApplied sm < e_index e" and st: "settled x r sm"
  shows "settled x r sm'"
proof -
  from applyCore_cases [OF core ty] obtain sm1 where
    sm': "sm' = (expireSessions (e_clusterTime e) sm1)\<lparr>lastApplied := e_index e\<rparr>"
    and c: "e_type e = SKIP \<and> sm1 = sm \<or> e_type e = DATA \<and> apply_entry parse cfg now e sm = Some sm1" .
  have om: "om_wf (sessions sm1)" using c apply_entry_om_wf [OF _ wf lt] wf by (auto simp: sm_wf_def sessions_wf_def)
  have "settled x r sm1" using c st apply_entry_settled lt by blast
  then show ?thesis using applyCore_consumed(1) [OF core ty wf lt, of x] st
    by (auto simp: settled_def sm' expireSessions_def map_of_filter_om [OF om])
qed

lemma replay_settled:
  assumes "log_ok log" "settled x r a" "i \<le> j" "j < 2 ^ 64"
    "replay parse log i = Some a" "replay parse log j = Some b"
  shows "settled x r b"
  using assms(3,4,6)
proof (induction j arbitrary: b rule: dec_induct)
  case base
  then show ?case using assms(2,5) by simp
next
  case (step j)
  obtain b0 where b0: "replay parse log j = Some b0"
    and core: "applyCore parse \<lparr>snapshotMinLogSize = 0, snapshotRatio = 0,
      unknownRequestMessageBackoff = 0\<rparr> 0 (log (Suc j)) b0 = Some b"
    using step.prems by (auto elim: bind_SomeE)
  have "sm_wf b0" "lastApplied b0 = j" using replay_inv [OF assms(1) _ b0] step.prems by auto
  then show ?case
    using applyCore_settled [OF core] step.IH [OF _ b0] step.prems(1) assms(1) by (simp add: log_ok_def)
qed

lemma executes_response:
  assumes core: "applyCore parse cfg now e sm = Some sm'" and wf: "sm_wf sm"
    and lt: "lastApplied sm < e_index e" and ty: "e_type e = DATA"
    and cmd: "parse (e_command e) = Some cmd" "cmd_tree cmd = Some req" and fr: "fresh_rpc req sm"
  obtains t resp where "readWriteTreeRPC (tree sm) req = Some (t, resp)" "tree sm' = t"
    "settled (rpc_id req) (TreeResponse resp) sm'"
    "e_clusterTime e + sessionTimeoutNanos < 2 ^ 64 \<Longrightarrow>
     \<exists>s. map_of (sessions sm') (client_id (exactly_once req)) = Some s \<and>
         map_of (responses s) (rpc_number (exactly_once req)) = Some (TreeResponse resp)"
proof -
  from applyCore_cases [OF core] obtain sm1 where
    sm': "sm' = (expireSessions (e_clusterTime e) sm1)\<lparr>lastApplied := e_index e\<rparr>"
    and ap: "apply_entry parse cfg now e sm = Some sm1" using ty by auto
  have at: "apply_tree (e_clusterTime e) req sm = Some sm1"
    using ap cmd by (auto simp: apply_entry_def elim!: bind_SomeE)
  have om: "om_wf (sessions sm1)" using apply_entry_om_wf [OF ap wf lt] .
  have ex: "executes parse e sm = Some (rpc_id req)" using cmd fr ty by (simp add: executes_def)
  have con: "consumed (rpc_id req) sm'" using applyCore_consumed(2) [OF core _ wf lt ex] ty by simp
  from at show ?thesis
  proof (cases rule: apply_tree_cases)
    case (fresh s s' t resp)
    let ?s = "s'\<lparr>responses := om_set (rpc_number (exactly_once req)) (TreeResponse resp) (responses s'),
             lastModified := e_clusterTime e\<rparr>"
    have lk: "map_of (sessions sm1) (client_id (exactly_once req)) = Some ?s"
      using fresh(6) by (simp add: map_of_om_set)
    have lk': "map_of (sessions sm') (client_id (exactly_once req)) = Some z \<longleftrightarrow>
        z = ?s \<and> \<not> sessionExpired (e_clusterTime e) z" for z
      using map_of_filter_om [OF om] lk by (auto simp: sm' expireSessions_def)
    have "settled (rpc_id req) (TreeResponse resp) sm'"
      using con lk' by (auto simp: settled_def rpc_id_def map_of_om_set)
    moreover have "\<exists>s. map_of (sessions sm') (client_id (exactly_once req)) = Some s \<and>
         map_of (responses s) (rpc_number (exactly_once req)) = Some (TreeResponse resp)"
      if "e_clusterTime e + sessionTimeoutNanos < 2 ^ 64"
      using that lk' [of ?s] by (simp add: map_of_om_set sessionExpired_def)
    ultimately show ?thesis using that fresh(5,6) by (simp add: sm' expireSessions_def)
  qed (use fr in \<open>auto simp: fresh_rpc_def Let_def\<close>)
qed

lemma waitForResponse_settled:
  assumes "sm_wf sm" "i \<le> lastApplied sm" "cmd_tree cmd = Some req" "settled (rpc_id req) r sm"
  shows "waitForResponse i cmd sm \<in> {Some (Done (Some r)), Some (Done (Some (treeStatus PC_SESSION_EXPIRED)))}"
proof -
  obtain v where "getVersion sm i = Some v" using getVersion_total [OF assms(1)] by blast
  then show ?thesis
    using assms(2-4) by (auto simp: waitForResponse_def Let_def settled_def rpc_id_def split: option.splits)
qed

section \<open>The running version\<close>

lemma om_floor_insert_above: "i < k \<Longrightarrow> om_floor i (om_insert k v m) = om_floor i m"
proof -
  assume i: "i < k"
  have "filter (\<lambda>e. fst e < k \<and> fst e \<le> i) m = filter (\<lambda>e. fst e \<le> i) m"
    using i by (intro filter_cong) auto
  moreover have "filter (\<lambda>e. k < fst e \<and> fst e \<le> i) m = []"
    using i by (auto simp: filter_empty_conv)
  ultimately have "filter (\<lambda>e. fst e \<le> i) (om_set k v m) = filter (\<lambda>e. fst e \<le> i) m"
    using i by (simp add: om_set_def)
  then show ?thesis by (simp add: om_insert_def om_floor_def split: option.split)
qed

lemma applyCore_getVersion:
  assumes "applyCore parse cfg now e sm = Some sm'" "e_type e \<noteq> SNAPSHOT" "i < e_index e"
  shows "getVersion sm' i = getVersion sm i"
proof -
  from applyCore_cases [OF assms(1,2)] obtain sm1 where
    sm': "sm' = (expireSessions (e_clusterTime e) sm1)\<lparr>lastApplied := e_index e\<rparr>"
    and c: "e_type e = SKIP \<and> sm1 = sm \<or> e_type e = DATA \<and> apply_entry parse cfg now e sm = Some sm1" .
  have "getVersion sm1 i = getVersion sm i" if "apply_entry parse cfg now e sm = Some sm1"
    using that
  proof (cases rule: apply_entry_cases)
    case (advance_version c rv req)
    then show ?thesis using assms(3)
      by (auto simp: apply_advance_version_def getVersion_def om_floor_insert_above split: if_splits elim!: bind_SomeE)
  qed (simp_all add: getVersion_def apply_tree_frame warnUnknownRequest_frame)
  then show ?thesis using c by (auto simp: sm' expireSessions_def getVersion_def)
qed

lemma replay_getVersion:
  assumes "log_ok log" "i \<le> j" "j \<le> k" "k < 2 ^ 64"
    "replay parse log j = Some a" "replay parse log k = Some b"
  shows "getVersion b i = getVersion a i"
  using assms(3,4,6)
proof (induction k arbitrary: b rule: dec_induct)
  case base
  then show ?case using assms(5) by simp
next
  case (step k)
  obtain b0 where b0: "replay parse log k = Some b0"
    and core: "applyCore parse \<lparr>snapshotMinLogSize = 0, snapshotRatio = 0,
      unknownRequestMessageBackoff = 0\<rparr> 0 (log (Suc k)) b0 = Some b"
    using step.prems by (auto elim: bind_SomeE)
  then show ?case
    using applyCore_getVersion [OF core, of i] step.IH [OF _ b0] step.prems(1) step.hyps assms(1,2)
    by (simp add: log_ok_def)
qed

lemma getVersion_mono:
  assumes "sm_wf sm" "i \<le> j" "getVersion sm i = Some v" "getVersion sm j = Some w"
  shows "v \<le> w"
proof -
  let ?vh = "versionHistory sm"
  let ?f = "\<lambda>i. filter (\<lambda>e. fst e \<le> i) ?vh"
  have wf: "om_wf ?vh" "sorted (map snd ?vh)" using assms(1) by (auto simp: sm_wf_def versions_wf_def)
  have ne: "?f i \<noteq> []" "?f j \<noteq> []" and l: "snd (last (?f i)) = v" "snd (last (?f j)) = w"
    using assms(3,4) by (auto simp: getVersion_def om_floor_def Let_def split: if_splits)
  have "last (?f i) \<in> set (?f i)" using ne(1) by (rule last_in_set)
  then have "last (?f i) \<in> set (?f j)" using assms(2) by auto
  moreover have "sorted (map snd (?f j))" using wf(2) by (simp add: sorted_filter)
  moreover have "sorted (map snd xs) \<Longrightarrow> x \<in> set xs \<Longrightarrow> snd x \<le> snd (last xs)" for x and xs :: "(nat \<times> nat) list"
    by (induction xs rule: rev_induct) (auto simp: sorted_append)
  ultimately show ?thesis using l by metis
qed

section \<open>When snapshots are taken\<close>

lemma expireSessions_lookup:
  assumes "om_wf (sessions sm)"
    and "\<And>s. map_of (sessions sm) c = Some s \<Longrightarrow> lastModified s + sessionTimeoutNanos < 2 ^ 64"
  shows "map_of (sessions (expireSessions ct sm)) c = (case map_of (sessions sm) c of
      None \<Rightarrow> None
    | Some s \<Rightarrow> if ct \<le> lastModified s + sessionTimeoutNanos then Some s else None)"
proof -
  have iff: "map_of (sessions (expireSessions ct sm)) c = Some s \<longleftrightarrow>
      map_of (sessions sm) c = Some s \<and> ct \<le> lastModified s + sessionTimeoutNanos" for s
    using assms(2) by (auto simp: expireSessions_def map_of_filter_om [OF assms(1)] sessionExpired_def not_less)
  show ?thesis
  proof (cases "map_of (sessions sm) c")
    case None
    with iff have "map_of (sessions (expireSessions ct sm)) c \<noteq> Some s" for s by simp
    then show ?thesis using None by (metis option.exhaust option.simps(4))
  next
    case (Some s)
    show ?thesis
    proof (cases "ct \<le> lastModified s + sessionTimeoutNanos")
      case True
      then show ?thesis using iff [of s] Some by simp
    next
      case False
      with iff Some have "map_of (sessions (expireSessions ct sm)) c \<noteq> Some z" for z by auto
      then show ?thesis using Some False by (simp add: option.exhaust) (metis option.exhaust)
    qed
  qed
qed

lemma progressNotice_defined:
  assumes "lastIncluded \<le> last_log_index st" "last_snapshot_index st \<le> last_log_index st"
    "last_log_index st < 2 ^ 64"
  shows "\<exists>b. progressNotice st lastIncluded = Some b"
proof -
  define logEntries where "logEntries = u64_sub (last_log_index st) (last_snapshot_index st)"
  define curr where "curr = (if lastIncluded > last_snapshot_index st
    then u64_sub lastIncluded (last_snapshot_index st) else 0)"
  have "logEntries = last_log_index st - last_snapshot_index st"
    unfolding logEntries_def using assms(2,3) by (rule u64_sub_exact)
  moreover have "curr = lastIncluded - last_snapshot_index st"
    unfolding curr_def using assms(1,3) u64_sub_exact [of "last_snapshot_index st" lastIncluded] by simp
  ultimately have "curr = logEntries \<or> logEntries \<noteq> 0" using assms(1) by linarith
  then show ?thesis
    unfolding progressNotice_def Let_def logEntries_def [symmetric] curr_def [symmetric]
    by (auto simp: u64_div_def)
qed

end
