(* ===== verification/LC_StateMachineProps.thy ===== *)
theory LC_StateMachineProps
  imports LC_StateMachineSpec
begin

text \<open>
  What the state machine guarantees, stated over the model of \<^verbatim>\<open>src/Server/StateMachine.cc\<close>, with
  each guarantee evaluated on a small log: a client opens a session and sends the same write twice.
\<close>

section \<open>An example log\<close>

definition demo_write :: ReadWriteTreeRequest where
  "demo_write = \<lparr>exactly_once = \<lparr>client_id = 1, first_outstanding_rpc = 1, rpc_number = 1\<rparr>,
     rw_condition = None, rw_op = WriteFileOp ''/a'' ''x''\<rparr>"

definition demo_command :: CommandRequest where
  "demo_command = \<lparr>cmd_tree = Some demo_write, cmd_open_session = False,
     cmd_close_session = None, cmd_advance_version = None\<rparr>"

definition demo_parse :: "string \<Rightarrow> CommandRequest option" where
  "demo_parse s =
     (if s = ''open'' then Some \<lparr>cmd_tree = None, cmd_open_session = True,
         cmd_close_session = None, cmd_advance_version = None\<rparr>
      else if s = ''write'' then Some demo_command else None)"

definition demo_log :: "nat \<Rightarrow> SnapItem list Entry" where
  "demo_log i = \<lparr>e_index = i, e_type = DATA, e_command = (if i = 1 then ''open'' else ''write''),
     e_snapshot = None, e_clusterTime = i\<rparr>"

definition demo_cfg :: SMConfig where
  "demo_cfg = \<lparr>snapshotMinLogSize = 10, snapshotRatio = 4, unknownRequestMessageBackoff = 0\<rparr>"

definition demo_stats :: SnapshotStats where
  "demo_stats = \<lparr>last_snapshot_index = 0, last_snapshot_bytes = 0, log_start_index = 1,
     last_log_index = 5, log_bytes = 0, is_leader = False\<rparr>"

definition demo_next :: "StateMachine \<Rightarrow> (StateMachine \<times> bool) option" where
  "demo_next sm = applyThread_iter demo_parse demo_cfg 0 demo_stats 0 (demo_log (Suc (lastApplied sm))) sm"

definition demo_load :: "StateMachine \<Rightarrow> (StateMachine \<times> bool) option" where
  "demo_load src = applyThread_iter demo_parse demo_cfg 0 demo_stats 0 (snapshotEntry demo_log src) mkStateMachine"

definition demo_sm1 :: StateMachine where "demo_sm1 = fst (the (demo_next mkStateMachine))"
definition demo_sm2 :: StateMachine where "demo_sm2 = fst (the (demo_next demo_sm1))"
definition demo_loaded :: StateMachine where "demo_loaded = fst (the (demo_load demo_sm2))"

lemma demo_log_ok: "log_ok demo_log"
  by (simp add: log_ok_def demo_log_def)

lemma demo_steps:
  "demo_next mkStateMachine \<noteq> None" "demo_next demo_sm1 \<noteq> None" "demo_load demo_sm2 \<noteq> None"
  by code_simp+

lemma demo_lastApplied:
  "lastApplied mkStateMachine = 0" "lastApplied demo_sm1 = 1" "lastApplied demo_sm2 = 2"
  "lastApplied demo_loaded = 2"
  by code_simp+

lemma demo_replicas:
  "replica demo_parse demo_log mkStateMachine" "replica demo_parse demo_log demo_sm1"
  "replica demo_parse demo_log demo_sm2" "replica demo_parse demo_log demo_loaded"
proof -
  show r0: "replica demo_parse demo_log mkStateMachine" by (rule replica.start)
  obtain w1 where "demo_next mkStateMachine = Some (demo_sm1, w1)"
    using demo_steps(1) by (cases "demo_next mkStateMachine") (auto simp: demo_sm1_def)
  then show r1: "replica demo_parse demo_log demo_sm1"
    using replica.entry [OF r0] by (simp add: demo_next_def demo_lastApplied)
  obtain w2 where "demo_next demo_sm1 = Some (demo_sm2, w2)"
    using demo_steps(2) by (cases "demo_next demo_sm1") (auto simp: demo_sm2_def)
  then show r2: "replica demo_parse demo_log demo_sm2"
    using replica.entry [OF r1] by (simp add: demo_next_def demo_lastApplied)
  obtain w3 where "demo_load demo_sm2 = Some (demo_loaded, w3)"
    using demo_steps(3) by (cases "demo_load demo_sm2") (auto simp: demo_loaded_def)
  then show "replica demo_parse demo_log demo_loaded"
    using replica.snapshot [OF r0 r2] by (simp add: demo_load_def demo_lastApplied)
qed

section \<open>Guarantees\<close>

text \<open>C2: Replicas agree. Two state machines that have processed the same committed log up to the same
  index hold the same sessions, the same version history and the same tree, whatever their clocks,
  configurations and snapshots were, and whether they applied every entry or loaded a snapshot
  that another replica wrote.\<close>

theorem replicas_agree:
  assumes "log_ok log" "replica parse log sm" "replica parse log sm'" "lastApplied sm = lastApplied sm'"
  shows "sessions sm = sessions sm' \<and> versionHistory sm = versionHistory sm' \<and>
    superRoot (tree sm) = superRoot (tree sm')"
  using replica_replay [OF assms(1,2)] replica_replay [OF assms(1,3)] assms(4)
  by (auto simp: agrees_def sm_eq_def)

theorem replicas_agree_witness:
  "superRoot (tree demo_sm2) = superRoot (tree demo_loaded)"
  using replicas_agree [OF demo_log_ok demo_replicas(3,4)] by (simp add: demo_lastApplied)



text \<open>A command that is not executed (a duplicate, or one of an unknown session) leaves the tree
  alone, and one that is executed has exactly the effect of the tree operation.\<close>

theorem command_effect:
  assumes "applyThread_iter parse cfg now stats now' e sm = Some (sm', wake)" "e_type e \<noteq> SNAPSHOT"
    "sm_wf sm" "lastApplied sm < e_index e"
  shows "case executes parse e sm of
      None \<Rightarrow> tree sm' = tree sm
    | Some x \<Rightarrow> \<exists>cmd req resp. parse (e_command e) = Some cmd \<and> cmd_tree cmd = Some req \<and> rpc_id req = x \<and>
        readWriteTreeRPC (tree sm) req = Some (tree sm', resp)"
proof (cases "executes parse e sm")
  case None
  then show ?thesis using applyCore_skips [OF applyThread_iter_core [OF assms(1)] assms(2)] by simp
next
  case (Some x)
  then obtain cmd req where "e_type e = DATA" and c: "parse (e_command e) = Some cmd" "cmd_tree cmd = Some req"
    "fresh_rpc req sm" "rpc_id req = x"
    by (auto simp: executes_def split: if_splits elim!: bind_SomeE)
  then show ?thesis
    using executes_response [OF applyThread_iter_core [OF assms(1)] assms(3,4) _ c(1,2,3)] Some by auto
qed

theorem command_effect_witness:
  "tree (fst (the (demo_next demo_sm2))) = tree demo_sm2"
proof -
  have ex: "executes demo_parse (demo_log 3) demo_sm2 = None" by code_simp
  have "demo_next demo_sm2 \<noteq> None" by code_simp
  then obtain sm' w where s: "demo_next demo_sm2 = Some (sm', w)" by fastforce
  have "sm_wf demo_sm2" using agrees_inv(1) [OF demo_log_ok replica_replay [OF demo_log_ok demo_replicas(3)]] .
  then have "tree sm' = tree demo_sm2"
    using command_effect [OF s [unfolded demo_next_def]] ex
    by (simp add: demo_lastApplied demo_log_def numeral_3_eq_3 numeral_2_eq_2)
  then show ?thesis by (simp add: s)
qed

text \<open>C24: The response to a command. Once entry \<open>i\<close> executed a client's command, a client that waits for
  the response on any replica is given the result of that execution, or is told that its session
  expired; a replica that has just applied the entry gives the result (as long as the cluster
  time does not overflow).\<close>

theorem client_response:
  assumes log: "log_ok log" and sm: "replica parse log sm" and i: "i = Suc (lastApplied sm)"
    and cmd: "parse (e_command (log i)) = Some cmd" "cmd_tree cmd = Some req"
    and ex: "executes parse (log i) sm = Some (rpc_id req)"
    and sm': "replica parse log sm'" and le: "i \<le> lastApplied sm'"
  shows "\<exists>t resp. readWriteTreeRPC (tree sm) req = Some (t, resp) \<and>
     waitForResponse i cmd sm' \<in> {Some (Done (Some (TreeResponse resp))),
                                 Some (Done (Some (treeStatus PC_SESSION_EXPIRED)))} \<and>
     (lastApplied sm' = i \<and> e_clusterTime (log i) + sessionTimeoutNanos < 2 ^ 64 \<longrightarrow>
      waitForResponse i cmd sm' = Some (Done (Some (TreeResponse resp))))"
proof -
  obtain a b where a: "replay parse log (lastApplied sm) = Some a" "sm_eq a sm"
    and b: "replay parse log (lastApplied sm') = Some b" "sm_eq b sm'"
    and lt: "lastApplied sm < 2 ^ 64" "lastApplied sm' < 2 ^ 64"
    using replica_replay [OF log sm] replica_replay [OF log sm'] by (auto simp: agrees_def)
  obtain a' where a': "replay parse log i = Some a'" using replay_prefix [OF b(1) le] by blast
  then have core: "applyCore parse \<lparr>snapshotMinLogSize = 0, snapshotRatio = 0,
      unknownRequestMessageBackoff = 0\<rparr> 0 (log i) a = Some a'" using a(1) i by simp
  have inv: "sm_wf a" "lastApplied a < e_index (log i)"
    using replay_inv [OF log lt(1) a(1)] log i by (auto simp: log_ok_def)
  have ex': "executes parse (log i) a = Some (rpc_id req)" using ex executes_eq [OF a(2), of parse "log i"] by simp
  then have d: "e_type (log i) = DATA" "fresh_rpc req a"
    using cmd by (auto simp: executes_def split: if_splits)
  from executes_response [OF core inv d(1) cmd d(2)] obtain t resp
    where r: "readWriteTreeRPC (tree a) req = Some (t, resp)"
      and st: "settled (rpc_id req) (TreeResponse resp) a'"
      and now: "e_clusterTime (log i) + sessionTimeoutNanos < 2 ^ 64 \<Longrightarrow>
        \<exists>s. map_of (sessions a') (client_id (exactly_once req)) = Some s \<and>
            map_of (responses s) (rpc_number (exactly_once req)) = Some (TreeResponse resp)" by blast
  obtain t' where "readWriteTreeRPC (tree sm) req = Some (t', resp)"
    using readWriteTreeRPC_same [of "tree a" "tree sm" req] a(2) r
    by (cases "readWriteTreeRPC (tree sm) req") (auto simp: sm_eq_def)
  moreover have "settled (rpc_id req) (TreeResponse resp) sm'"
    using replay_settled [OF log st le lt(2) a' b(1)] settled_eq [OF b(2)] by simp
  moreover have wf': "sm_wf sm'" using agrees_inv(1) [OF log replica_replay [OF log sm']] .
  moreover have "waitForResponse i cmd sm' = Some (Done (Some (TreeResponse resp)))"
    if la: "lastApplied sm' = i" and nt: "e_clusterTime (log i) + sessionTimeoutNanos < 2 ^ 64"
  proof -
    have "sm_eq a' sm'" using b a' la by simp
    then obtain s where "map_of (sessions sm') (client_id (exactly_once req)) = Some s"
      "map_of (responses s) (rpc_number (exactly_once req)) = Some (TreeResponse resp)"
      using now [OF nt] by (auto simp: sm_eq_def)
    moreover obtain v where "getVersion sm' i = Some v" using getVersion_total [OF wf'] by blast
    ultimately show ?thesis using la cmd(2) by (simp add: waitForResponse_def Let_def)
  qed
  ultimately show ?thesis using waitForResponse_settled [OF _ le cmd(2)] by blast
qed

theorem client_response_witness:
  "waitForResponse 2 demo_command demo_loaded =
   Some (Done (Some (TreeResponse (snd (the (readWriteTreeRPC (tree demo_sm1) demo_write))))))"
proof -
  have p: "demo_parse (e_command (demo_log 2)) = Some demo_command" by code_simp
  have q: "cmd_tree demo_command = Some demo_write" by (simp add: demo_command_def)
  have x: "executes demo_parse (demo_log 2) demo_sm1 = Some (rpc_id demo_write)" by code_simp
  show ?thesis
    using client_response [OF demo_log_ok demo_replicas(2) _ p q x demo_replicas(4)]
    by (auto simp: demo_lastApplied demo_log_def sessionTimeoutNanos_def)
qed

text \<open>C40: The version of the state machine. On every replica the running version at every index is
  defined, between the supported bounds and never decreases with the index; and two replicas
  that have both passed an index agree on the version that was running there.\<close>

theorem running_version:
  assumes "log_ok log" "replica parse log sm" "replica parse log sm'"
  shows "\<exists>v. getVersion sm i = Some v \<and> MIN_SUPPORTED_VERSION \<le> v \<and> v \<le> MAX_SUPPORTED_VERSION \<and>
      (\<forall>j w. i \<le> j \<longrightarrow> getVersion sm j = Some w \<longrightarrow> v \<le> w) \<and>
      (i \<le> lastApplied sm \<longrightarrow> i \<le> lastApplied sm' \<longrightarrow> getVersion sm' i = Some v)"
proof -
  note ag = replica_replay [OF assms(1,2)] replica_replay [OF assms(1,3)]
  have wf: "sm_wf sm" using agrees_inv(1) [OF assms(1) ag(1)] .
  obtain v where v: "getVersion sm i = Some v" "MIN_SUPPORTED_VERSION \<le> v" "v \<le> MAX_SUPPORTED_VERSION"
    using getVersion_total [OF wf] by blast
  obtain a b where ab: "replay parse log (lastApplied sm) = Some a" "sm_eq a sm"
    "replay parse log (lastApplied sm') = Some b" "sm_eq b sm'"
    "lastApplied sm < 2 ^ 64" "lastApplied sm' < 2 ^ 64"
    using ag by (auto simp: agrees_def)
  have "getVersion a i = getVersion b i" if "i \<le> lastApplied sm" "i \<le> lastApplied sm'"
    using replay_getVersion [OF assms(1) that(1) _ ab(6,1,3)] replay_getVersion [OF assms(1) that(2) _ ab(5,3,1)]
    by (metis le_cases)
  then have "getVersion sm' i = Some v" if "i \<le> lastApplied sm" "i \<le> lastApplied sm'"
    using that v(1) sm_eq_getVersion [OF ab(2)] sm_eq_getVersion [OF ab(4)] by metis
  then show ?thesis using v getVersion_mono [OF wf _ v(1)] by blast
qed

theorem running_version_witness: "\<exists>v. getVersion demo_sm2 1 = Some v \<and> getVersion demo_loaded 1 = Some v"
  using running_version [OF demo_log_ok demo_replicas(3,4), of 1] by (auto simp: demo_lastApplied)

text \<open>C25: Snapshots of the state machine. Loading what \<^verbatim>\<open>takeSnapshot\<close>'s child wrote never panics and
  restores the sessions with their responses, the version history and the tree's contents.\<close>

theorem snapshot_roundtrip:
  assumes "sm_wf sm"
  shows "\<exists>sm'. loadSnapshot_sm (writeSnapshot sm) sm0 = Some sm' \<and> sessions sm' = sessions sm \<and>
    versionHistory sm' = versionHistory sm \<and> superRoot (tree sm') = superRoot (tree sm) \<and>
    lastApplied sm' = lastApplied sm0"
  using snapshot_restores [OF assms, of sm0] by simp

theorem snapshot_roundtrip_witness:
  "\<exists>sm'. loadSnapshot_sm (writeSnapshot demo_sm2) mkStateMachine = Some sm' \<and> sessions sm' = sessions demo_sm2"
  using snapshot_roundtrip [OF agrees_inv(1) [OF demo_log_ok replica_replay [OF demo_log_ok demo_replicas(3)]],
    of mkStateMachine] by blast

text \<open>Sessions expire exactly when they have been inactive for more than the timeout, in cluster
  time, provided the sum of the two does not overflow.\<close>

theorem session_expiry_exact:
  assumes "om_wf (sessions sm)"
    and "\<forall>s. map_of (sessions sm) c = Some s \<longrightarrow> lastModified s + sessionTimeoutNanos < 2 ^ 64"
  shows "map_of (sessions (expireSessions ct sm)) c = (case map_of (sessions sm) c of
      None \<Rightarrow> None
    | Some s \<Rightarrow> if ct \<le> lastModified s + sessionTimeoutNanos then Some s else None)"
  using assms expireSessions_lookup by blast

theorem session_expiry_exact_witness:
  "map_of (sessions (expireSessions 3600000000003 demo_sm2)) 1 = None"
proof -
  have lm: "map_option lastModified (map_of (sessions demo_sm2) 1) = Some 2" by code_simp
  have wf: "om_wf (sessions demo_sm2)" by code_simp
  from lm obtain s where s: "map_of (sessions demo_sm2) 1 = Some s" "lastModified s = 2" by blast
  show ?thesis
    using session_expiry_exact [OF wf, of 1 3600000000003] s by (simp add: sessionTimeoutNanos_def)
qed

text \<open>\<^verbatim>\<open>shouldTakeSnapshot\<close> never divides by zero when the state machine has not run ahead of the
  log, and asks for a snapshot exactly when the log is big enough, big enough compared to the
  last snapshot, and three quarters of it have been applied.\<close>

theorem shouldTakeSnapshot_correct:
  assumes "lastIncluded \<le> last_log_index st" "last_snapshot_index st \<le> last_log_index st"
    and "last_log_index st * 3 < 2 ^ 64" "last_snapshot_bytes st * snapshotRatio cfg < 2 ^ 64"
  shows "shouldTakeSnapshot cfg st lastIncluded =
    Some (snapshotMinLogSize cfg \<le> log_bytes st \<and> last_snapshot_bytes st * snapshotRatio cfg \<le> log_bytes st \<and>
          last_snapshot_index st \<le> lastIncluded \<and> 3 * last_log_index st < 4 * (lastIncluded + 1))"
proof -
  obtain b where "progressNotice st lastIncluded = Some b"
    using progressNotice_defined [OF assms(1,2)] assms(3) by auto
  moreover have "last_log_index st * 3 div 4 \<le> lastIncluded \<longleftrightarrow> 3 * last_log_index st < 4 * (lastIncluded + 1)"
    by auto
  ultimately show ?thesis using assms(3,4) by (auto simp: shouldTakeSnapshot_def not_less)
qed

theorem shouldTakeSnapshot_correct_witness:
  "shouldTakeSnapshot demo_cfg (demo_stats\<lparr>log_bytes := 20\<rparr>) 5 = Some True"
  by (subst shouldTakeSnapshot_correct) (simp_all add: demo_cfg_def demo_stats_def)

text \<open>Inhibiting snapshots. After \<^verbatim>\<open>setInhibit\<close> with a positive duration the remaining time reported
  at the same moment is that duration, saturated at the end of time instead of wrapping around;
  with a duration that is not positive it is zero.\<close>

theorem inhibit_saturates:
  assumes "0 \<le> now" "now \<le> timeMax" "d \<le> timeMax"
  shows "getInhibit now (setInhibit now d sm) = (if d \<le> 0 then 0 else min d (timeMax - now))"
proof (cases "d \<le> 0")
  case True
  then show ?thesis using assms(1) by (simp add: setInhibit_def getInhibit_def timeMin_def)
next
  case False
  show ?thesis
  proof (cases "now + d \<le> timeMax")
    case True
    then have "i64 (now + d) = now + d" using assms(1) False by (simp add: i64_id timeMin_def)
    then show ?thesis using False True by (simp add: setInhibit_def getInhibit_def)
  next
    case over: False
    then have "i64 (now + d) = now + d - 2 ^ 64" using assms by (intro i64_over) auto
    then show ?thesis using False over assms
      by (simp add: setInhibit_def getInhibit_def timeMax_def)
  qed
qed

theorem inhibit_saturates_witness:
  "getInhibit 7 (setInhibit 7 timeMax mkStateMachine) = timeMax - 7"
  using inhibit_saturates [of 7 timeMax mkStateMachine] by (simp add: timeMin_def timeMax_def)

text \<open>The watchdog over a sequence of its iterations: what it saw at each (the time, the number of bytes
  written, the state machine), and the signals it sent at the last one.\<close>

fun watchdog_run :: "int \<Rightarrow> (int \<times> nat \<times> StateMachine) list \<Rightarrow> Watchdog \<times> (int \<times> int) list" where
  "watchdog_run interval [] = (watchdog_init, [])"
| "watchdog_run interval ((now, progress, sm) # earlier) =
     (case snapshotWatchdog_iter interval now progress sm (fst (watchdog_run interval earlier)) of
        (w, kills, _) \<Rightarrow> (w, kills))"

lemma watchdog_tracking:
  assumes "\<forall>(now, progress, sm) \<in> set obs. numSnapshotsAttempted sm < u64_max"
    and "fst (watchdog_run interval obs) = w" "tracking w \<noteq> u64_max"
  shows "\<exists>sm. (startTime w, startProgress w, sm) \<in> set obs \<and> numSnapshotsAttempted sm = tracking w \<and> 0 < childPid sm"
  using assms
proof (induction obs arbitrary: w)
  case Nil
  then show ?case by (auto simp: watchdog_init_def)
next
  case (Cons o1 earlier)
  obtain now progress sm where o1: "o1 = (now, progress, sm)" by (cases o1)
  let ?w = "fst (watchdog_run interval earlier)"
  have w: "w = fst (snapshotWatchdog_iter interval now progress sm ?w)"
    using Cons.prems(2) by (simp add: o1 split: prod.splits)
  show ?case
  proof (cases "w = ?w")
    case True
    then show ?thesis using Cons.IH [OF _ refl] Cons.prems(1,3) by fastforce
  next
    case False
    have "(startTime w, startProgress w) = (now, progress) \<and> tracking w = numSnapshotsAttempted sm \<and> 0 < childPid sm"
      using w False Cons.prems(3)
      by (auto simp: snapshotWatchdog_iter_def Let_def split: if_splits prod.splits)
    then show ?thesis by (auto simp: o1)
  qed
qed

text \<open>The watchdog only kills a snapshot process that is stuck: when an iteration sends a signal, it is
  \<^verbatim>\<open>SIGKILL\<close> to the current child, and at least a full interval earlier the watchdog had already
  seen a child of the same snapshot with the same number of bytes written.\<close>

theorem watchdog_kills_only_stuck:
  assumes obs: "\<forall>(now, progress, sm) \<in> set ((now, progress, sm) # earlier). numSnapshotsAttempted sm < u64_max"
    and times: "\<forall>(now, progress, sm) \<in> set earlier. timeMin \<le> now + interval \<and> now + interval \<le> timeMax"
    and kill: "snd (watchdog_run interval ((now, progress, sm) # earlier)) \<noteq> []"
  shows "snd (watchdog_run interval ((now, progress, sm) # earlier)) = [(childPid sm, SIGKILL)] \<and>
    (\<exists>now' sm'. (now', progress, sm') \<in> set earlier \<and> now' + interval \<le> now \<and>
       numSnapshotsAttempted sm' = numSnapshotsAttempted sm)"
proof -
  let ?w = "fst (watchdog_run interval earlier)"
  have k: "snd (watchdog_run interval ((now, progress, sm) # earlier)) = [(childPid sm, SIGKILL)]"
    "tracking ?w = numSnapshotsAttempted sm" "i64 (startTime ?w + interval) \<le> now" "progress = startProgress ?w"
    using kill by (auto simp: snapshotWatchdog_iter_def Let_def killSnapshotProcess_def split: if_splits prod.splits)
  obtain sm' where "(startTime ?w, startProgress ?w, sm') \<in> set earlier" "numSnapshotsAttempted sm' = tracking ?w"
    using watchdog_tracking [OF _ refl, of earlier interval] obs k(2) by fastforce
  moreover from this have "i64 (startTime ?w + interval) = startTime ?w + interval"
    using times by (fastforce intro: i64_id)
  ultimately show ?thesis using k by auto
qed

theorem watchdog_kills_only_stuck_witness:
  "snd (watchdog_run 5 [(16, 3, mkStateMachine\<lparr>childPid := 7\<rparr>), (11, 3, mkStateMachine\<lparr>childPid := 7\<rparr>)]) = [(7, SIGKILL)]"
proof -
  let ?sm = "mkStateMachine\<lparr>childPid := 7\<rparr>"
  have "snd (watchdog_run 5 [(16, 3, ?sm), (11, 3, ?sm)]) \<noteq> []" by code_simp
  then show ?thesis
    using watchdog_kills_only_stuck [of 16 3 ?sm "[(11, 3, ?sm)]" 5]
    by (simp add: mkStateMachine_def u64_max_def timeMin_def timeMax_def)
qed

end
