(* ===== verification/LC_Log.thy ===== *)
theory LC_Log
  imports LC_Prelude
begin

text \<open>
  The interface \<^verbatim>\<open>Storage::Log\<close> (\<^verbatim>\<open>src/Storage/Log.h\<close>) that the consensus module uses, as a
  locale: \<open>stored\<close> is the start index of a log together with its entries, and the laws are what the
  comments of the header promise for \<^verbatim>\<open>append\<close>, \<^verbatim>\<open>getEntry\<close>, \<^verbatim>\<open>getLogStartIndex\<close>,
  \<^verbatim>\<open>getLastLogIndex\<close>, \<^verbatim>\<open>truncatePrefix\<close> and \<^verbatim>\<open>truncateSuffix\<close>. \<open>stamp\<close> is what an
  implementation does to an entry before storing it at an index (nothing, or recording the index).
\<close>

locale log_store =
  fixes inv :: "'l \<Rightarrow> bool"
    and stored :: "'l \<Rightarrow> nat \<times> 'e list"
    and stamp :: "nat \<Rightarrow> 'e \<Rightarrow> 'e"
    and append :: "'l \<Rightarrow> 'e list \<Rightarrow> (nat \<times> nat) \<times> 'l"
    and getEntry :: "'l \<Rightarrow> nat \<Rightarrow> 'e option"
    and getLogStartIndex :: "'l \<Rightarrow> nat"
    and getLastLogIndex :: "'l \<Rightarrow> nat"
    and truncatePrefix :: "'l \<Rightarrow> nat \<Rightarrow> 'l"
    and truncateSuffix :: "'l \<Rightarrow> nat \<Rightarrow> 'l"
  assumes start_pos: "inv l \<Longrightarrow> 0 < fst (stored l)"
    and start_law: "inv l \<Longrightarrow> getLogStartIndex l = fst (stored l)"
    and last_law: "inv l \<Longrightarrow> getLastLogIndex l + 1 = fst (stored l) + length (snd (stored l))"
    and get_law: "inv l \<Longrightarrow> getEntry l i =
      (if fst (stored l) \<le> i \<and> i < fst (stored l) + length (snd (stored l))
       then Some (snd (stored l) ! (i - fst (stored l))) else None)"
    and append_law: "inv l \<Longrightarrow> append l es = (r, l') \<Longrightarrow>
      inv l' \<and> fst r = getLastLogIndex l + 1 \<and> snd r + 1 = fst r + length es \<and>
      stored l' = (fst (stored l), snd (stored l) @
        map (\<lambda>(i, e). stamp (fst r + i) e) (zip [0..<length es] es))"
    and prefix_law: "inv l \<Longrightarrow> inv (truncatePrefix l i) \<and> stored (truncatePrefix l i) =
      (max (fst (stored l)) i, drop (i - fst (stored l)) (snd (stored l)))"
    and suffix_law: "inv l \<Longrightarrow> inv (truncateSuffix l i) \<and> stored (truncateSuffix l i) =
      (fst (stored l), take (i + 1 - fst (stored l)) (snd (stored l)))"
begin

lemma last_bounds: "inv l \<Longrightarrow> getLogStartIndex l \<le> getLastLogIndex l + 1"
  using start_law last_law by (metis le_add1)

lemma get_defined:
  "inv l \<Longrightarrow> (\<exists>e. getEntry l i = Some e) \<longleftrightarrow> getLogStartIndex l \<le> i \<and> i \<le> getLastLogIndex l"
  using start_law last_law get_law by (metis Suc_eq_plus1 less_Suc_eq_le option.distinct(1) option.inject)

lemma append_start: "inv l \<Longrightarrow> append l es = (r, l') \<Longrightarrow> getLogStartIndex l' = getLogStartIndex l"
  using append_law start_law by (metis fst_conv)

lemma append_last:
  assumes "inv l" "append l es = (r, l')"
  shows "getLastLogIndex l' = getLastLogIndex l + length es"
proof -
  note a = append_law [OF assms]
  have "getLastLogIndex l' + 1 = fst (stored l') + length (snd (stored l'))"
    using a last_law by blast
  also have "\<dots> = fst (stored l) + length (snd (stored l)) + length es" using a by simp
  finally show ?thesis using last_law [OF assms(1)] by simp
qed

text \<open>Appending never disturbs an entry that is already in the log.\<close>

lemma append_old:
  assumes "inv l" "append l es = (r, l')" "i \<le> getLastLogIndex l"
  shows "getEntry l' i = getEntry l i"
proof -
  note a = append_law [OF assms(1,2)]
  have "i < fst (stored l) + length (snd (stored l))" using last_law [OF assms(1)] assms(3) by simp
  then show ?thesis using get_law [OF assms(1)] get_law [of l' i] a by (auto simp: nth_append)
qed

lemma append_new:
  assumes "inv l" "append l es = (r, l')" "j < length es"
  shows "getEntry l' (getLastLogIndex l + 1 + j) = Some (stamp (getLastLogIndex l + 1 + j) (es ! j))"
proof -
  note a = append_law [OF assms(1,2)]
  define n where "n = fst (stored l) + length (snd (stored l))"
  have n: "getLastLogIndex l + 1 = n" using last_law [OF assms(1)] by (simp add: n_def)
  have "getEntry l' (n + j) = Some (stamp (n + j) (es ! j))"
    using get_law [of l' "n + j"] a [unfolded n] assms(3) by (simp add: nth_append n_def)
  then show ?thesis by (simp only: n)
qed

lemma prefix_bounds:
  assumes "inv l"
  shows "getLogStartIndex (truncatePrefix l i) = max (getLogStartIndex l) i"
    and "getLastLogIndex (truncatePrefix l i) = max (getLastLogIndex l) (i - 1)"
proof -
  note p = prefix_law [OF assms, of i]
  show "getLogStartIndex (truncatePrefix l i) = max (getLogStartIndex l) i"
    using p start_law assms by simp
  have "getLastLogIndex (truncatePrefix l i) + 1 =
      max (fst (stored l)) i + (length (snd (stored l)) - (i - fst (stored l)))"
    using p last_law [of "truncatePrefix l i"] by simp
  then show "getLastLogIndex (truncatePrefix l i) = max (getLastLogIndex l) (i - 1)"
    using last_law [OF assms] start_pos [OF assms] by (cases "fst (stored l) \<le> i") auto
qed

lemma prefix_get:
  assumes "inv l"
  shows "getEntry (truncatePrefix l i) j = (if j < i then None else getEntry l j)"
  using prefix_law [OF assms, of i] get_law [of "truncatePrefix l i" j] get_law [OF assms, of j]
  by (auto simp: max_def)

lemma suffix_bounds:
  assumes "inv l"
  shows "getLogStartIndex (truncateSuffix l i) = getLogStartIndex l"
    and "getLastLogIndex (truncateSuffix l i) = min (getLastLogIndex l) (max i (getLogStartIndex l - 1))"
proof -
  note s = suffix_law [OF assms, of i]
  show "getLogStartIndex (truncateSuffix l i) = getLogStartIndex l" using s start_law assms by simp
  have "getLastLogIndex (truncateSuffix l i) + 1 =
      fst (stored l) + min (length (snd (stored l))) (i + 1 - fst (stored l))"
    using s last_law [of "truncateSuffix l i"] by (simp add: min.commute)
  then show "getLastLogIndex (truncateSuffix l i) = min (getLastLogIndex l) (max i (getLogStartIndex l - 1))"
    using last_law [OF assms] start_pos [OF assms] start_law [OF assms]
    by (cases "length (snd (stored l)) \<le> i + 1 - fst (stored l)") (simp_all add: min_def max_def, linarith+)
qed

lemma suffix_get:
  assumes "inv l"
  shows "getEntry (truncateSuffix l i) j = (if i < j then None else getEntry l j)"
  using suffix_law [OF assms, of i] get_law [of "truncateSuffix l i" j] get_law [OF assms, of j]
  by (auto simp: min_def)

end

end
