(* ===== verification/LC_RaftTypes.thy ===== *)
theory LC_RaftTypes
  imports LC_Prelude
begin

text \<open>
  The messages that servers exchange and store: log entries, configurations and the three RPCs of
  the consensus protocol, as \<^verbatim>\<open>src/Protocol/Raft.proto\<close> and
  \<^verbatim>\<open>src/Server/SnapshotMetadata.proto\<close> define them. An \<^verbatim>\<open>optional\<close> field that the code tests
  with \<^verbatim>\<open>has_\<close> is an \<open>option\<close>; terms, indexes and server identifiers are natural numbers.
\<close>

record ServerDesc =
  sd_server_id :: nat
  sd_addresses :: string

record ConfigurationDesc =
  prev_configuration :: "ServerDesc list"
  next_configuration :: "ServerDesc list"

definition emptyConfigurationDesc :: ConfigurationDesc where
  "emptyConfigurationDesc = \<lparr>prev_configuration = [], next_configuration = []\<rparr>"

datatype LogEntryType = UNKNOWN | CONFIGURATION | DATA_ENTRY | NOOP

record LogEntry =
  le_term :: nat
  le_index :: "nat option"
  le_cluster_time :: nat
  le_type :: LogEntryType
  le_configuration :: ConfigurationDesc
  le_data :: string

record Metadata =
  md_current_term :: "nat option"
  md_voted_for :: "nat option"

record RequestVoteRequest =
  rv_server_id :: nat
  rv_term :: nat
  rv_last_log_term :: nat
  rv_last_log_index :: nat

record RequestVoteResponse =
  rvr_term :: nat
  rvr_granted :: bool
  rvr_log_ok :: bool

record AppendEntriesRequest =
  ae_server_id :: nat
  ae_term :: nat
  ae_prev_log_index :: nat
  ae_prev_log_term :: nat
  ae_entries :: "LogEntry list"
  ae_commit_index :: nat

record AppendEntriesResponse =
  aer_term :: nat
  aer_success :: bool
  aer_last_log_index :: "nat option"
  aer_min_supported :: "nat option"
  aer_max_supported :: "nat option"

record InstallSnapshotRequest =
  is_server_id :: nat
  is_term :: nat
  is_last_snapshot_index :: nat
  is_byte_offset :: nat
  is_data :: string
  is_done :: bool
  is_version :: "nat option"

record InstallSnapshotResponse =
  isr_term :: nat
  isr_bytes_stored :: "nat option"

record SnapshotHeader =
  last_included_index :: nat
  last_included_term :: nat
  last_cluster_time :: nat
  sh_configuration :: "ConfigurationDesc option"
  sh_configuration_index :: "nat option"

end
