(* ===== verification/LC_MemoryLog.thy ===== *)
theory LC_MemoryLog
  imports LC_Log LC_RaftTypes
begin

text \<open>
  The log kept in memory (\<^verbatim>\<open>src/Storage/MemoryLog.cc\<close>), which the consensus model of this
  development runs on, and that it satisfies the interface of logs. A \<^verbatim>\<open>Log::Sync\<close> object is
  modelled by the index of the last entry it covers.
\<close>

section \<open>The operations\<close>

record MemoryLog =
  startIndex :: nat
  entries :: "LogEntry list"
  currentSync :: nat
  metadata :: Metadata

definition mkMemoryLog :: MemoryLog where
  "mkMemoryLog = \<lparr>startIndex = 1, entries = [], currentSync = 0,
     metadata = \<lparr>md_current_term = None, md_voted_for = None\<rparr>\<rparr>"

definition log_append :: "MemoryLog \<Rightarrow> LogEntry list \<Rightarrow> (nat \<times> nat) \<times> MemoryLog" where
  "log_append l newEntries =
     (let firstIndex = startIndex l + length (entries l);
          lastIndex = firstIndex + length newEntries - 1
      in ((firstIndex, lastIndex), l\<lparr>entries := entries l @ newEntries, currentSync := lastIndex\<rparr>))"

text \<open>\<^verbatim>\<open>entries.at(offset)\<close> throws when the offset is out of range, also when the subtraction wraps
  around because the index lies before the start.\<close>

definition getEntry :: "MemoryLog \<Rightarrow> nat \<Rightarrow> LogEntry option" where
  "getEntry l index =
     (if startIndex l \<le> index \<and> index - startIndex l < length (entries l)
      then Some (entries l ! (index - startIndex l)) else None)"

definition getLogStartIndex :: "MemoryLog \<Rightarrow> nat" where
  "getLogStartIndex l = startIndex l"

definition getLastLogIndex :: "MemoryLog \<Rightarrow> nat" where
  "getLastLogIndex l = startIndex l + length (entries l) - 1"

text \<open>The size of an entry is computed by the protocol buffer library.\<close>

definition getSizeBytes :: "(LogEntry \<Rightarrow> nat) \<Rightarrow> MemoryLog \<Rightarrow> nat" where
  "getSizeBytes byteSize l = sum_list (map byteSize (entries l))"

definition takeSync :: "MemoryLog \<Rightarrow> nat \<times> MemoryLog" where
  "takeSync l = (currentSync l, l\<lparr>currentSync := getLastLogIndex l\<rparr>)"

definition log_truncatePrefix :: "MemoryLog \<Rightarrow> nat \<Rightarrow> MemoryLog" where
  "log_truncatePrefix l firstIndex =
     (if firstIndex > startIndex l
      then l\<lparr>entries := drop (min (firstIndex - startIndex l) (length (entries l))) (entries l),
             startIndex := firstIndex\<rparr>
      else l)"

definition log_truncateSuffix :: "MemoryLog \<Rightarrow> nat \<Rightarrow> MemoryLog" where
  "log_truncateSuffix l lastIndex =
     (if lastIndex < startIndex l then l\<lparr>entries := []\<rparr>
      else if lastIndex < startIndex l - 1 + length (entries l)
        then l\<lparr>entries := take (lastIndex - startIndex l + 1) (entries l)\<rparr>
      else l)"

section \<open>The interface is satisfied\<close>

definition log_inv :: "MemoryLog \<Rightarrow> bool" where
  "log_inv l \<longleftrightarrow> 0 < startIndex l"

definition log_stored :: "MemoryLog \<Rightarrow> nat \<times> LogEntry list" where
  "log_stored l = (startIndex l, entries l)"

lemma map_snd_zip_upt: "map (\<lambda>(i, e). e) (zip [0..<length es] es) = es"
  by (rule nth_equalityI) simp_all

interpretation ml: log_store log_inv log_stored "\<lambda>i e. e" log_append getEntry getLogStartIndex
  getLastLogIndex log_truncatePrefix log_truncateSuffix
proof
  fix l :: MemoryLog and i :: nat and es r l'
  show "log_inv l \<Longrightarrow> 0 < fst (log_stored l)" by (simp add: log_inv_def log_stored_def)
  show "log_inv l \<Longrightarrow> getLogStartIndex l = fst (log_stored l)"
    by (simp add: getLogStartIndex_def log_stored_def)
  show "log_inv l \<Longrightarrow> getLastLogIndex l + 1 = fst (log_stored l) + length (snd (log_stored l))"
    by (simp add: getLastLogIndex_def log_stored_def log_inv_def)
  show "log_inv l \<Longrightarrow> getEntry l i =
      (if fst (log_stored l) \<le> i \<and> i < fst (log_stored l) + length (snd (log_stored l))
       then Some (snd (log_stored l) ! (i - fst (log_stored l))) else None)"
    by (auto simp: getEntry_def log_stored_def)
  show "log_inv l \<Longrightarrow> log_append l es = (r, l') \<Longrightarrow>
      log_inv l' \<and> fst r = getLastLogIndex l + 1 \<and> snd r + 1 = fst r + length es \<and>
      log_stored l' = (fst (log_stored l), snd (log_stored l) @
        map (\<lambda>(i, e). e) (zip [0..<length es] es))"
    by (auto simp: log_append_def Let_def log_inv_def log_stored_def getLastLogIndex_def map_snd_zip_upt)
  show "log_inv l \<Longrightarrow> log_inv (log_truncatePrefix l i) \<and> log_stored (log_truncatePrefix l i) =
      (max (fst (log_stored l)) i, drop (i - fst (log_stored l)) (snd (log_stored l)))"
    by (auto simp: log_truncatePrefix_def log_inv_def log_stored_def max_def min_def)
  show "log_inv l \<Longrightarrow> log_inv (log_truncateSuffix l i) \<and> log_stored (log_truncateSuffix l i) =
      (fst (log_stored l), take (i + 1 - fst (log_stored l)) (snd (log_stored l)))"
    by (auto simp: log_truncateSuffix_def log_inv_def log_stored_def Suc_diff_le)
qed

end
