(* ===== verification/LC_SnapshotFile.thy ===== *)
theory LC_SnapshotFile
  imports LC_RaftTypes
begin

text \<open>
  Snapshot files (\<^verbatim>\<open>src/Storage/SnapshotFile.cc\<close>): a reader over the bytes of a file and a writer to
  a staging file. A message is stored as its length in four big-endian bytes followed by its
  serialization; \<open>serialize\<close> and \<open>parse\<close> are those of the protocol buffer library and are
  arguments. Errors of system calls end the process in the code and are not modelled.
\<close>

section \<open>Reader\<close>

record Reader =
  file_contents :: string
  bytesRead :: nat

definition mkReader :: "string \<Rightarrow> Reader" where
  "mkReader f = \<lparr>file_contents = f, bytesRead = 0\<rparr>"

definition reader_getSizeBytes :: "Reader \<Rightarrow> nat" where
  "reader_getSizeBytes r = length (file_contents r)"

text \<open>\<^verbatim>\<open>copyPartial\<close> copies as many of the requested bytes as the file has.\<close>

definition readRaw :: "nat \<Rightarrow> Reader \<Rightarrow> string \<times> Reader" where
  "readRaw n r = (let d = take n (drop (bytesRead r) (file_contents r))
                  in (d, r\<lparr>bytesRead := bytesRead r + length d\<rparr>))"

definition be32toh :: "string \<Rightarrow> nat" where
  "be32toh s = foldl (\<lambda>n c. 256 * n + of_char c) 0 s"

text \<open>\<open>None\<close> is a non-empty error string.\<close>

definition readMessage :: "(string \<Rightarrow> 'm option) \<Rightarrow> Reader \<Rightarrow> 'm option \<times> Reader" where
  "readMessage parse r0 =
     (let (lenBytes, r) = readRaw 4 r0 in
      if length lenBytes < 4 then (None, r)
      else (let len = be32toh lenBytes in
        if reader_getSizeBytes r - bytesRead r < len then (None, r)
        else (parse (take len (drop (bytesRead r) (file_contents r))), r\<lparr>bytesRead := bytesRead r + len\<rparr>)))"

section \<open>Writer\<close>

record Writer =
  staged :: string
  bytesWritten :: nat

definition mkWriter :: Writer where
  "mkWriter = \<lparr>staged = [], bytesWritten = 0\<rparr>"

definition htobe32 :: "nat \<Rightarrow> string" where
  "htobe32 n = [char_of (n div 2 ^ 24), char_of (n div 2 ^ 16), char_of (n div 2 ^ 8), char_of n]"

definition writeRaw :: "string \<Rightarrow> Writer \<Rightarrow> Writer" where
  "writeRaw d w = w\<lparr>staged := staged w @ d, bytesWritten := bytesWritten w + length d\<rparr>"

definition writeMessage :: "('m \<Rightarrow> string) \<Rightarrow> 'm \<Rightarrow> Writer \<Rightarrow> Writer" where
  "writeMessage serialize m w =
     (let buf = serialize m in writeRaw (htobe32 (length buf mod 2 ^ 32) @ buf) w)"

text \<open>After the child process wrote \<open>d\<close> through the shared file, the parent's offset is moved to the end.\<close>

definition seekToEnd :: "Writer \<Rightarrow> Writer" where
  "seekToEnd w = w\<lparr>bytesWritten := length (staged w)\<rparr>"

text \<open>\<^verbatim>\<open>save\<close> renames the staging file to \<^verbatim>\<open>snapshot\<close>: the new file, and its size.\<close>

definition writer_save :: "Writer \<Rightarrow> string \<times> nat" where
  "writer_save w = (staged w, length (staged w))"

section \<open>What is written is read back\<close>

lemma be32_htobe32: "n < 2 ^ 32 \<Longrightarrow> be32toh (htobe32 n) = n"
proof -
  assume n: "n < 2 ^ 32"
  have "n = 256 * (n div 256) + n mod 256" by simp
  moreover have "n div 256 = 256 * (n div 65536) + (n div 256) mod 256"
    using mult_div_mod_eq [of 256 "n div 256"] by (simp add: div_mult2_eq [symmetric])
  moreover have "n div 65536 = 256 * (n div 16777216) + (n div 65536) mod 256"
    using mult_div_mod_eq [of 256 "n div 65536"] by (simp add: div_mult2_eq [symmetric])
  moreover have "(n div 16777216) mod 256 = n div 16777216" using n by simp
  ultimately show ?thesis by (simp add: be32toh_def htobe32_def)
qed

lemma length_htobe32 [simp]: "length (htobe32 n) = 4"
  by (simp add: htobe32_def)

lemma readRaw_at:
  assumes "file_contents r = pre @ d @ rest" "bytesRead r = length pre"
  shows "readRaw (length d) r = (d, r\<lparr>bytesRead := length (pre @ d)\<rparr>)"
  using assms by (simp add: readRaw_def)

lemma readMessage_at:
  assumes f: "file_contents r = pre @ staged (writeMessage serialize m mkWriter) @ rest"
    and b: "bytesRead r = length pre" and len: "length (serialize m) < 2 ^ 32"
  shows "readMessage parse r = (parse (serialize m),
    r\<lparr>bytesRead := length (pre @ staged (writeMessage serialize m mkWriter))\<rparr>)"
proof -
  let ?h = "htobe32 (length (serialize m))"
  have st: "staged (writeMessage serialize m mkWriter) = ?h @ serialize m"
    using len by (simp add: writeMessage_def writeRaw_def mkWriter_def Let_def)
  have "readRaw 4 r = (?h, r\<lparr>bytesRead := length (pre @ ?h)\<rparr>)"
    using readRaw_at [of r pre ?h "serialize m @ rest"] f b by (simp add: st)
  then show ?thesis
    using f len be32_htobe32 [OF len] by (simp add: readMessage_def reader_getSizeBytes_def st)
qed

end
