(* ===== verification/LC_RaftState.thy ===== *)
theory LC_RaftState
  imports LC_MemoryLog LC_SnapshotFile
begin

text \<open>
  The state of a server's consensus module (\<^verbatim>\<open>src/Server/RaftConsensus.h\<close>). The objects of the code
  refer to each other (a configuration and its servers to the module, the manager to the
  configuration), so their operations are functions on one record.

  \<^item> \<^verbatim>\<open>Clock::now()\<close> and the random number generator are inputs: \<open>clock i\<close> is the value of the
    \<open>i\<close>-th reading of the clock and \<open>random i\<close> the \<open>i\<close>-th random duration, with the numbers of
    readings so far in the state. Times are nanoseconds, with \<open>timeMin\<close> and \<open>timeMax\<close> for
    \<^verbatim>\<open>TimePoint::min()\<close> and \<^verbatim>\<open>TimePoint::max()\<close>.
  \<^item> Terms, indexes, epochs and byte counts are natural numbers; they would need \<open>2 ^ 64\<close> increments to
    overflow. Where the code decrements one, the wrap-around at zero is written out.
  \<^item> A \<^verbatim>\<open>shared_ptr\<close> to a server is its identifier; \<open>p_incarnation\<close> tells apart the peer objects that
    have existed for one identifier, for threads that still hold a removed one.
  \<^item> \<open>stateChanged\<close> counts the notifications of the condition variable.
  \<^item> Canceling an RPC makes it fail; as any RPC may fail, \<^verbatim>\<open>rpc.cancel()\<close> has no state of its own.
\<close>

section \<open>Servers\<close>

record PeerState =
  p_incarnation :: nat
  p_exiting :: bool
  requestVoteDone :: bool
  p_haveVote :: bool
  suppressBulkData :: bool
  nextIndex :: nat
  matchIndex :: nat
  lastAckEpoch :: nat
  nextHeartbeatTime :: int
  backoffUntil :: int
  lastCatchUpIterationMs :: nat
  thisCatchUpIterationStart :: int
  thisCatchUpIterationGoalId :: nat
  p_isCaughtUp :: bool
  snapshotFile :: "string option"
  snapshotFileOffset :: nat
  p_lastSnapshotIndex :: nat

datatype ServerKind = LocalServer (lastSyncedIndex: nat) | Peer (peer: PeerState)

record Server =
  srv_id :: nat
  addresses :: string
  haveStateMachineSupportedVersions :: bool
  minStateMachineVersion :: nat
  maxStateMachineVersion :: nat
  gcFlag :: bool
  kind :: ServerKind

definition mkServer :: "nat \<Rightarrow> ServerKind \<Rightarrow> Server" where
  "mkServer i k = \<lparr>srv_id = i, addresses = [], haveStateMachineSupportedVersions = False,
     minStateMachineVersion = 2 ^ 16 - 1, maxStateMachineVersion = 0, gcFlag = False, kind = k\<rparr>"

text \<open>The constructor of peers, given the last log index of the module and the clock.\<close>

definition mkPeer :: "nat \<Rightarrow> nat \<Rightarrow> int \<Rightarrow> PeerState" where
  "mkPeer incarnation lastLogIndex now = \<lparr>p_incarnation = incarnation, p_exiting = False,
     requestVoteDone = False, p_haveVote = False, suppressBulkData = True,
     nextIndex = lastLogIndex + 1, matchIndex = 0, lastAckEpoch = 0,
     nextHeartbeatTime = timeMin, backoffUntil = timeMin,
     lastCatchUpIterationMs = u64_max, thisCatchUpIterationStart = now,
     thisCatchUpIterationGoalId = u64_max, p_isCaughtUp = False,
     snapshotFile = None, snapshotFileOffset = 0, p_lastSnapshotIndex = 0\<rparr>"

section \<open>Configurations\<close>

datatype ConfState = BLANK | STABLE | STAGING | TRANSITIONAL

record Configuration =
  knownServers :: "(nat, Server) omap"
  localServer :: nat
  conf_state :: ConfState
  conf_id :: nat
  description :: ConfigurationDesc
  oldServers :: "nat list"
  newServers :: "nat list"

record ConfigurationManager =
  descriptions :: "(nat, ConfigurationDesc) omap"
  cm_snapshot :: "nat \<times> ConfigurationDesc"

section \<open>The consensus module\<close>

datatype RaftState = FOLLOWER | CANDIDATE | LEADER

record RaftConfig =
  ELECTION_TIMEOUT :: int
  HEARTBEAT_PERIOD :: int
  MAX_LOG_ENTRIES_PER_REQUEST :: nat
  RPC_FAILURE_BACKOFF :: int
  STATE_MACHINE_UPDATER_BACKOFF :: int
  SOFT_RPC_SIZE_LIMIT :: nat

record Raft =
  params :: RaftConfig
  serverId :: nat
  serverAddresses :: string
  clock :: "nat \<Rightarrow> int"
  clockReads :: nat
  random :: "nat \<Rightarrow> int"
  randomReads :: nat
  nextIncarnation :: nat
  snapshotOnDisk :: "string option"
  stateChanged :: nat
  r_exiting :: bool
  numPeerThreads :: nat
  rlog :: MemoryLog
  logSyncQueued :: bool
  leaderDiskThreadWorking :: bool
  configuration :: Configuration
  configurationManager :: ConfigurationManager
  currentTerm :: nat
  state :: RaftState
  lastSnapshotIndex :: nat
  lastSnapshotTerm :: nat
  lastSnapshotClusterTime :: nat
  lastSnapshotBytes :: nat
  snapshotReader :: "Reader option"
  snapshotWriter :: "Writer option"
  commitIndex :: nat
  leaderId :: nat
  votedFor :: nat
  currentEpoch :: nat
  clusterTimeAtEpoch :: nat
  localTimeAtEpoch :: int
  startElectionAt :: int
  withholdVotesUntil :: int
  numEntriesTruncated :: nat

text \<open>What the protocol buffer library provides: parsing and serializing a snapshot header, and the
  sizes of messages.\<close>

record ProtoBuf =
  parseHeader :: "string \<Rightarrow> SnapshotHeader option"
  serializeHeader :: "SnapshotHeader \<Rightarrow> string"
  entryByteSize :: "LogEntry \<Rightarrow> nat"
  requestByteSize :: "AppendEntriesRequest \<Rightarrow> nat"

definition Clock_now :: "Raft \<Rightarrow> int \<times> Raft" where
  "Clock_now s = (clock s (clockReads s), s\<lparr>clockReads := Suc (clockReads s)\<rparr>)"

definition notify_all :: "Raft \<Rightarrow> Raft" where
  "notify_all s = s\<lparr>stateChanged := Suc (stateChanged s)\<rparr>"

abbreviation lastLog :: "Raft \<Rightarrow> nat" where
  "lastLog s \<equiv> getLastLogIndex (rlog s)"

abbreviation logStart :: "Raft \<Rightarrow> nat" where
  "logStart s \<equiv> getLogStartIndex (rlog s)"

section \<open>The cluster clock\<close>

definition newEpoch :: "nat \<Rightarrow> Raft \<Rightarrow> Raft" where
  "newEpoch clusterTime s0 =
     (let (now, s) = Clock_now s0 in s\<lparr>clusterTimeAtEpoch := clusterTime, localTimeAtEpoch := now\<rparr>)"

text \<open>\<^verbatim>\<open>downCast<uint64_t>\<close> asserts that the elapsed time is not negative.\<close>

definition leaderStamp :: "Raft \<Rightarrow> (nat \<times> Raft) option" where
  "leaderStamp s0 =
     (let (localTime, s) = Clock_now s0 in do {
        require (0 \<le> localTime - localTimeAtEpoch s);
        let t = clusterTimeAtEpoch s + nat (localTime - localTimeAtEpoch s);
        Some (t, s\<lparr>clusterTimeAtEpoch := t, localTimeAtEpoch := localTime\<rparr>) })"

definition interpolate :: "Raft \<Rightarrow> (nat \<times> Raft) option" where
  "interpolate s0 =
     (let (localTime, s) = Clock_now s0 in do {
        require (0 \<le> localTime - localTimeAtEpoch s);
        Some (clusterTimeAtEpoch s + nat (localTime - localTimeAtEpoch s), s) })"

end
