(* ===== verification/LC_Configuration.thy ===== *)
theory LC_Configuration
  imports LC_RaftState
begin

text \<open>
  Servers, quorums, configurations and the configuration manager (the first part of
  \<^verbatim>\<open>src/Server/RaftConsensus.cc\<close>), with the facts about quorums that the protocol rests on.
\<close>

section \<open>Servers\<close>

definition beginRequestVote :: "Server \<Rightarrow> Server" where
  "beginRequestVote sv = (case kind sv of
     LocalServer _ \<Rightarrow> sv
   | Peer p \<Rightarrow> sv\<lparr>kind := Peer (p\<lparr>requestVoteDone := False, p_haveVote := False\<rparr>)\<rparr>)"

definition beginLeadership :: "nat \<Rightarrow> Server \<Rightarrow> Server" where
  "beginLeadership lastLogIndex sv = (case kind sv of
     LocalServer _ \<Rightarrow> sv\<lparr>kind := LocalServer lastLogIndex\<rparr>
   | Peer p \<Rightarrow> sv\<lparr>kind := Peer (p\<lparr>nextIndex := lastLogIndex + 1, matchIndex := 0,
       suppressBulkData := True, snapshotFile := None, snapshotFileOffset := 0,
       p_lastSnapshotIndex := 0\<rparr>)\<rparr>)"

definition server_exit :: "Server \<Rightarrow> Server" where
  "server_exit sv = (case kind sv of
     LocalServer _ \<Rightarrow> sv
   | Peer p \<Rightarrow> sv\<lparr>kind := Peer (p\<lparr>p_exiting := True\<rparr>)\<rparr>)"

definition getLastAckEpoch :: "nat \<Rightarrow> Server \<Rightarrow> nat" where
  "getLastAckEpoch epoch sv = (case kind sv of LocalServer _ \<Rightarrow> epoch | Peer p \<Rightarrow> lastAckEpoch p)"

definition getMatchIndex :: "Server \<Rightarrow> nat" where
  "getMatchIndex sv = (case kind sv of LocalServer i \<Rightarrow> i | Peer p \<Rightarrow> matchIndex p)"

definition haveVote :: "nat \<Rightarrow> Server \<Rightarrow> bool" where
  "haveVote vote sv = (case kind sv of LocalServer _ \<Rightarrow> vote = srv_id sv | Peer p \<Rightarrow> p_haveVote p)"

definition isCaughtUp :: "Server \<Rightarrow> bool" where
  "isCaughtUp sv = (case kind sv of LocalServer _ \<Rightarrow> True | Peer p \<Rightarrow> p_isCaughtUp p)"

section \<open>Simple configurations\<close>

definition simple_all :: "('s \<Rightarrow> bool) \<Rightarrow> 's list \<Rightarrow> bool" where
  "simple_all predicate servers = list_all predicate servers"

definition simple_min :: "('s \<Rightarrow> nat) \<Rightarrow> 's list \<Rightarrow> nat" where
  "simple_min getValue servers =
     (if servers = [] then 0 else foldl (\<lambda>smallest sv. min smallest (getValue sv)) u64_max servers)"

definition simple_quorumAll :: "('s \<Rightarrow> bool) \<Rightarrow> 's list \<Rightarrow> bool" where
  "simple_quorumAll predicate servers =
     (if servers = [] then True
      else length servers div 2 + 1 \<le> length (filter predicate servers))"

definition simple_quorumMin :: "('s \<Rightarrow> nat) \<Rightarrow> 's list \<Rightarrow> nat" where
  "simple_quorumMin getValue servers =
     (if servers = [] then 0
      else sort (map getValue servers) ! ((length servers - 1) div 2))"

section \<open>Configurations\<close>

definition mkConfiguration :: "nat \<Rightarrow> Configuration" where
  "mkConfiguration sid = \<lparr>knownServers = [(sid, mkServer sid (LocalServer 0))], localServer = sid,
     conf_state = BLANK, conf_id = 0, description = emptyConfigurationDesc,
     oldServers = [], newServers = []\<rparr>"

definition lookupServers :: "Configuration \<Rightarrow> nat list \<Rightarrow> Server list" where
  "lookupServers c ids = List.map_filter (map_of (knownServers c)) ids"

definition forEach :: "(Server \<Rightarrow> Server) \<Rightarrow> Configuration \<Rightarrow> Configuration" where
  "forEach f c = c\<lparr>knownServers := map (\<lambda>(i, sv). (i, f sv)) (knownServers c)\<rparr>"

definition updateServer :: "nat \<Rightarrow> (Server \<Rightarrow> Server) \<Rightarrow> Configuration \<Rightarrow> Configuration" where
  "updateServer i f c = c\<lparr>knownServers := map (\<lambda>(j, sv). (j, if j = i then f sv else sv)) (knownServers c)\<rparr>"

definition hasVote :: "Configuration \<Rightarrow> nat \<Rightarrow> bool" where
  "hasVote c sv = (if conf_state c = TRANSITIONAL then sv \<in> set (oldServers c) \<or> sv \<in> set (newServers c)
                   else sv \<in> set (oldServers c))"

definition lookupAddress :: "Configuration \<Rightarrow> nat \<Rightarrow> string" where
  "lookupAddress c i = (case map_of (knownServers c) i of Some sv \<Rightarrow> addresses sv | None \<Rightarrow> [])"

definition quorumAll :: "(Server \<Rightarrow> bool) \<Rightarrow> Configuration \<Rightarrow> bool" where
  "quorumAll predicate c =
     (if conf_state c = TRANSITIONAL
      then simple_quorumAll predicate (lookupServers c (oldServers c)) \<and>
           simple_quorumAll predicate (lookupServers c (newServers c))
      else simple_quorumAll predicate (lookupServers c (oldServers c)))"

definition quorumMin :: "(Server \<Rightarrow> nat) \<Rightarrow> Configuration \<Rightarrow> nat" where
  "quorumMin getValue c =
     (if conf_state c = TRANSITIONAL
      then min (simple_quorumMin getValue (lookupServers c (oldServers c)))
               (simple_quorumMin getValue (lookupServers c (newServers c)))
      else simple_quorumMin getValue (lookupServers c (oldServers c)))"

definition stagingAll :: "(Server \<Rightarrow> bool) \<Rightarrow> Configuration \<Rightarrow> bool" where
  "stagingAll predicate c =
     (if conf_state c = STAGING then simple_all predicate (lookupServers c (newServers c)) else True)"

definition stagingMin :: "(Server \<Rightarrow> nat) \<Rightarrow> Configuration \<Rightarrow> nat" where
  "stagingMin getValue c =
     (if conf_state c = STAGING then simple_min getValue (lookupServers c (newServers c)) else 0)"

text \<open>\<^verbatim>\<open>getServer\<close> creates a peer for an identifier that is not known yet, and starts its thread.\<close>

definition getServer :: "nat \<Rightarrow> Raft \<Rightarrow> Raft" where
  "getServer newServerId s =
     (case map_of (knownServers (configuration s)) newServerId of
        Some _ \<Rightarrow> s
      | None \<Rightarrow>
          (let (now1, s1) = Clock_now s;
               p = mkPeer (nextIncarnation s1) (lastLog s1) now1;
               (now2, s2) = Clock_now s1;
               p2 = p\<lparr>thisCatchUpIterationStart := now2, thisCatchUpIterationGoalId := lastLog s2\<rparr>
           in s2\<lparr>nextIncarnation := Suc (nextIncarnation s2), numPeerThreads := Suc (numPeerThreads s2),
                 configuration := (configuration s2)\<lparr>knownServers :=
                   om_set newServerId (mkServer newServerId (Peer p2)) (knownServers (configuration s2))\<rparr>\<rparr>))"

text \<open>One step of the loops that build the lists of servers: find or create the server and set its
  addresses.\<close>

definition addServer :: "ServerDesc \<Rightarrow> Raft \<Rightarrow> Raft" where
  "addServer d s0 = (let s = getServer (sd_server_id d) s0 in
     s\<lparr>configuration := updateServer (sd_server_id d) (\<lambda>sv. sv\<lparr>addresses := sd_addresses d\<rparr>) (configuration s)\<rparr>)"

text \<open>The last loop of \<^verbatim>\<open>setConfiguration\<close>: servers without the mark are told to exit and forgotten,
  the marks of the others are cleared.\<close>

definition collectServers :: "nat list \<Rightarrow> Configuration \<Rightarrow> Configuration" where
  "collectServers marked c = c\<lparr>knownServers :=
     map (\<lambda>(i, sv). (i, sv\<lparr>gcFlag := False\<rparr>))
       (filter (\<lambda>(i, sv). gcFlag sv \<or> i \<in> set marked) (knownServers c))\<rparr>"

definition setConfiguration_conf :: "nat \<Rightarrow> ConfigurationDesc \<Rightarrow> Raft \<Rightarrow> Raft" where
  "setConfiguration_conf newId newDescription s0 =
     (let s1 = s0\<lparr>configuration := (configuration s0)\<lparr>
            conf_state := (if next_configuration newDescription = [] then STABLE else TRANSITIONAL),
            conf_id := newId, description := newDescription, oldServers := [], newServers := []\<rparr>\<rparr>;
          s2 = fold addServer (prev_configuration newDescription) s1;
          s3 = s2\<lparr>configuration := (configuration s2)\<lparr>
            oldServers := map sd_server_id (prev_configuration newDescription)\<rparr>\<rparr>;
          s4 = fold addServer (next_configuration newDescription) s3;
          s5 = s4\<lparr>configuration := (configuration s4)\<lparr>
            newServers := map sd_server_id (next_configuration newDescription)\<rparr>\<rparr>;
          c = configuration s5
      in s5\<lparr>configuration := collectServers (localServer c # oldServers c @ newServers c) c\<rparr>)"

definition resetStagingServers :: "Raft \<Rightarrow> Raft" where
  "resetStagingServers s =
     (if conf_state (configuration s) = STAGING
      then setConfiguration_conf (conf_id (configuration s)) (description (configuration s)) s
      else s)"

text \<open>\<^verbatim>\<open>Configuration::reset\<close>: the local server object stays, everything else goes.\<close>

definition conf_reset :: "Raft \<Rightarrow> Raft" where
  "conf_reset s = (let c = configuration s in
     s\<lparr>configuration := c\<lparr>conf_state := BLANK, conf_id := 0, description := emptyConfigurationDesc,
        oldServers := [], newServers := [],
        knownServers := filter (\<lambda>(i, sv). i = localServer c) (knownServers c)\<rparr>\<rparr>)"

definition setStagingServers :: "ServerDesc list \<Rightarrow> Raft \<Rightarrow> Raft option" where
  "setStagingServers servers s0 = do {
     require (conf_state (configuration s0) = STABLE);
     let s1 = s0\<lparr>configuration := (configuration s0)\<lparr>conf_state := STAGING\<rparr>\<rparr>;
     let s2 = fold addServer servers s1;
     Some (s2\<lparr>configuration := (configuration s2)\<lparr>
        newServers := newServers (configuration s2) @ map sd_server_id servers\<rparr>\<rparr>) }"

section \<open>The configuration manager\<close>

definition mkConfigurationManager :: ConfigurationManager where
  "mkConfigurationManager = \<lparr>descriptions = [], cm_snapshot = (0, emptyConfigurationDesc)\<rparr>"

definition restoreInvariants :: "Raft \<Rightarrow> Raft" where
  "restoreInvariants s0 =
     (let cm0 = configurationManager s0;
          cm = (if fst (cm_snapshot cm0) \<noteq> 0
                then cm0\<lparr>descriptions := om_insert (fst (cm_snapshot cm0)) (snd (cm_snapshot cm0)) (descriptions cm0)\<rparr>
                else cm0);
          s = s0\<lparr>configurationManager := cm\<rparr>
      in if descriptions cm = [] then conf_reset s
         else (let it = last (descriptions cm)
               in if conf_id (configuration s) \<noteq> fst it then setConfiguration_conf (fst it) (snd it) s else s))"

definition cm_add :: "nat \<Rightarrow> ConfigurationDesc \<Rightarrow> Raft \<Rightarrow> Raft" where
  "cm_add index d s = restoreInvariants (s\<lparr>configurationManager := (configurationManager s)\<lparr>
     descriptions := om_set index d (descriptions (configurationManager s))\<rparr>\<rparr>)"

definition cm_truncatePrefix :: "nat \<Rightarrow> Raft \<Rightarrow> Raft" where
  "cm_truncatePrefix firstIndexKept s = restoreInvariants (s\<lparr>configurationManager := (configurationManager s)\<lparr>
     descriptions := filter (\<lambda>e. firstIndexKept \<le> fst e) (descriptions (configurationManager s))\<rparr>\<rparr>)"

definition cm_truncateSuffix :: "nat \<Rightarrow> Raft \<Rightarrow> Raft" where
  "cm_truncateSuffix lastIndexKept s = restoreInvariants (s\<lparr>configurationManager := (configurationManager s)\<lparr>
     descriptions := filter (\<lambda>e. fst e \<le> lastIndexKept) (descriptions (configurationManager s))\<rparr>\<rparr>)"

definition cm_setSnapshot :: "nat \<Rightarrow> ConfigurationDesc \<Rightarrow> Raft \<Rightarrow> Raft option" where
  "cm_setSnapshot index d s = do {
     require (fst (cm_snapshot (configurationManager s)) \<le> index);
     Some (restoreInvariants (s\<lparr>configurationManager := (configurationManager s)\<lparr>cm_snapshot := (index, d)\<rparr>\<rparr>)) }"

definition getLatestConfigurationAsOf :: "ConfigurationManager \<Rightarrow> nat \<Rightarrow> nat \<times> ConfigurationDesc" where
  "getLatestConfigurationAsOf cm lastIncludedIndex =
     (case om_floor lastIncludedIndex (descriptions cm) of
        None \<Rightarrow> (0, emptyConfigurationDesc) | Some e \<Rightarrow> e)"

section \<open>Quorums\<close>

text \<open>Two majorities of the same servers have a server in common.\<close>

lemma simple_quorum_intersect:
  assumes "simple_quorumAll P xs" "simple_quorumAll Q xs" "xs \<noteq> []"
  shows "\<exists>x \<in> set xs. P x \<and> Q x"
proof (rule ccontr)
  assume "\<not> ?thesis"
  then have "length (filter Q xs) \<le> length (filter (\<lambda>x. \<not> P x) xs)"
    by (intro length_filter_mono) blast
  moreover have "length (filter P xs) + length (filter (\<lambda>x. \<not> P x) xs) = length xs"
    by (rule sum_length_filter_compl)
  ultimately show False using assms by (simp add: simple_quorumAll_def)
qed

lemma sorted_nth_count:
  fixes ys :: "nat list"
  assumes "sorted ys" "k < length ys"
  shows "n \<le> ys ! k \<longleftrightarrow> length ys - k \<le> length (filter (\<lambda>y. n \<le> y) ys)"
proof -
  let ?j = "length (takeWhile (\<lambda>y. y < n) ys)"
  have "filter (\<lambda>y. n \<le> y) ys = dropWhile (\<lambda>y. y < n) ys"
    using assms(1)
  proof (induction ys)
    case (Cons y ys)
    have "\<forall>x \<in> set ys. n \<le> x" if "\<not> y < n" using Cons.prems that by auto
    then show ?case using Cons by (cases "y < n") (auto simp: filter_id_conv)
  qed simp
  then have c: "length (filter (\<lambda>y. n \<le> y) ys) = length ys - ?j"
    by (metis add_diff_cancel_left' length_append takeWhile_dropWhile_id)
  have le: "?j \<le> length ys" by (rule length_takeWhile_le)
  have "n \<le> ys ! k \<longleftrightarrow> ?j \<le> k"
  proof
    assume "n \<le> ys ! k"
    then show "?j \<le> k" using nth_length_takeWhile
      by (metis (no_types, lifting) leI nth_mem order.strict_iff_not set_takeWhileD takeWhile_nth)
  next
    assume j: "?j \<le> k"
    then have "?j < length ys" using assms(2) by simp
    then have "n \<le> ys ! ?j" using nth_length_takeWhile [of "\<lambda>y. y < n" ys] by simp
    also have "ys ! ?j \<le> ys ! k" using assms j by (simp add: sorted_nth_mono)
    finally show "n \<le> ys ! k" .
  qed
  then show ?thesis using c le assms(2) by auto
qed

text \<open>\<^verbatim>\<open>quorumMin\<close> is the largest value that a majority of the servers has reached.\<close>

lemma simple_quorumMin_iff:
  assumes "xs \<noteq> []"
  shows "n \<le> simple_quorumMin v xs \<longleftrightarrow> simple_quorumAll (\<lambda>x. n \<le> v x) xs"
proof -
  let ?ys = "sort (map v xs)" and ?k = "(length xs - 1) div 2"
  have "length (filter (\<lambda>y. n \<le> y) ?ys) = length (filter (\<lambda>y. n \<le> y) (map v xs))"
    by (simp add: filter_sort)
  also have "\<dots> = length (filter (\<lambda>x. n \<le> v x) xs)" by (simp add: filter_map comp_def)
  finally have c: "length (filter (\<lambda>y. n \<le> y) ?ys) = length (filter (\<lambda>x. n \<le> v x) xs)" .
  have "?k < length ?ys" "length ?ys - ?k = length xs div 2 + 1" using assms
    by (simp_all add: Suc_leI less_eq_Suc_le) (cases xs; simp)+
  then show ?thesis
    using sorted_nth_count [of ?ys ?k n] c assms
    by (simp add: simple_quorumMin_def simple_quorumAll_def)
qed

definition conf_nonempty :: "Configuration \<Rightarrow> bool" where
  "conf_nonempty c \<longleftrightarrow> lookupServers c (oldServers c) \<noteq> [] \<and>
     (conf_state c = TRANSITIONAL \<longrightarrow> lookupServers c (newServers c) \<noteq> [])"

lemma quorumMin_iff:
  "conf_nonempty c \<Longrightarrow> n \<le> quorumMin v c \<longleftrightarrow> quorumAll (\<lambda>x. n \<le> v x) c"
  by (simp add: conf_nonempty_def quorumMin_def quorumAll_def simple_quorumMin_iff)

lemma quorum_intersect:
  assumes "quorumAll P c" "quorumAll Q c" "conf_nonempty c"
  shows "\<exists>x \<in> set (lookupServers c (oldServers c)). P x \<and> Q x"
  using assms simple_quorum_intersect by (auto simp: quorumAll_def conf_nonempty_def split: if_splits)

end
