(* ===== verification/LC_RaftCore.thy ===== *)
theory LC_RaftCore
  imports LC_Configuration
begin

text \<open>
  The private operations of the consensus module (\<^verbatim>\<open>src/Server/RaftConsensus.cc\<close>): stepping down,
  elections, becoming leader, appending to the log, advancing the commit index, and reading and
  applying snapshots. An operation with an \<^verbatim>\<open>assert\<close> or a \<^verbatim>\<open>PANIC\<close> returns \<open>None\<close> when it fails.
\<close>

definition updateLogMetadata :: "Raft \<Rightarrow> Raft" where
  "updateLogMetadata s = s\<lparr>rlog := (rlog s)\<lparr>metadata :=
     \<lparr>md_current_term = Some (currentTerm s), md_voted_for = Some (votedFor s)\<rparr>\<rparr>\<rparr>"

definition getLastLogTerm :: "Raft \<Rightarrow> nat option" where
  "getLastLogTerm s =
     (if logStart s \<le> lastLog s then map_option le_term (getEntry (rlog s) (lastLog s))
      else do { require (lastLog s = lastSnapshotIndex s); Some (lastSnapshotTerm s) })"

definition interruptAll :: "Raft \<Rightarrow> Raft" where
  "interruptAll s = notify_all s"

definition setElectionTimer :: "Raft \<Rightarrow> Raft" where
  "setElectionTimer s0 =
     (let duration = random s0 (randomReads s0);
          (now, s) = Clock_now (s0\<lparr>randomReads := Suc (randomReads s0)\<rparr>)
      in notify_all (s\<lparr>startElectionAt := now + duration\<rparr>))"

text \<open>Taking a sync object, waiting for it and returning it to the log.\<close>

definition syncLog :: "Raft \<Rightarrow> Raft" where
  "syncLog s = s\<lparr>rlog := snd (takeSync (rlog s))\<rparr>"

text \<open>Leaders leave it to the disk thread.\<close>

definition syncLater :: "Raft \<Rightarrow> Raft" where
  "syncLater s = (if state s = LEADER then s\<lparr>logSyncQueued := True\<rparr> else syncLog s)"

text \<open>The polling loop at the end waits for the disk thread to finish its write, which clears
  \<^verbatim>\<open>leaderDiskThreadWorking\<close>.\<close>

definition stepDown :: "nat \<Rightarrow> Raft \<Rightarrow> Raft option" where
  "stepDown newTerm s0 = do {
     require (currentTerm s0 \<le> newTerm);
     let s1 = (if currentTerm s0 < newTerm
       then (resetStagingServers (updateLogMetadata
               (s0\<lparr>currentTerm := newTerm, leaderId := 0, votedFor := 0\<rparr>)))
              \<lparr>snapshotWriter := None, state := FOLLOWER\<rparr>
       else s0\<lparr>state := FOLLOWER\<rparr>);
     let s2 = (if startElectionAt s1 = timeMax then setElectionTimer s1 else s1);
     let s3 = (if withholdVotesUntil s2 = timeMax then s2\<lparr>withholdVotesUntil := timeMin\<rparr> else s2);
     let s4 = (interruptAll s3)\<lparr>leaderDiskThreadWorking := False\<rparr>;
     Some (if logSyncQueued s4 then (syncLog s4)\<lparr>logSyncQueued := False\<rparr> else s4) }"

text \<open>The loop of \<open>append\<close> that tells the configuration manager about new configurations.\<close>

fun addConfigurations :: "nat \<Rightarrow> LogEntry list \<Rightarrow> Raft \<Rightarrow> Raft" where
  "addConfigurations index [] s = s"
| "addConfigurations index (e # es) s =
     addConfigurations (Suc index) es
       (if le_type e = CONFIGURATION then cm_add index (le_configuration e) s else s)"

definition raft_append :: "LogEntry list \<Rightarrow> Raft \<Rightarrow> Raft option" where
  "raft_append es s0 = do {
     require (list_all (\<lambda>e. le_term e \<noteq> 0) es);
     let (range, l) = log_append (rlog s0) es;
     let s1 = syncLater (s0\<lparr>rlog := l\<rparr>);
     Some (notify_all (addConfigurations (fst range) es s1)) }"

definition advanceCommitIndex :: "Raft \<Rightarrow> Raft option" where
  "advanceCommitIndex s =
     (if state s \<noteq> LEADER then Some s
      else (let newCommitIndex = quorumMin getMatchIndex (configuration s) in
        if commitIndex s \<ge> newCommitIndex then Some s
        else do {
          require (logStart s \<le> newCommitIndex);
          e \<leftarrow> getEntry (rlog s) newCommitIndex;
          if le_term e \<noteq> currentTerm s then Some s
          else do {
            let s1 = s\<lparr>commitIndex := newCommitIndex\<rparr>;
            require (commitIndex s1 \<le> lastLog s1);
            let s2 = notify_all s1;
            if conf_id (configuration s2) \<le> commitIndex s2 then
              (if \<not> hasVote (configuration s2) (localServer (configuration s2))
               then stepDown (currentTerm s2 + 1) s2
               else if conf_state (configuration s2) = TRANSITIONAL then do {
                 (t, s3) \<leftarrow> leaderStamp s2;
                 raft_append [\<lparr>le_term = currentTerm s3, le_index = None, le_cluster_time = t,
                   le_type = CONFIGURATION,
                   le_configuration = \<lparr>prev_configuration =
                       next_configuration (description (configuration s3)), next_configuration = []\<rparr>,
                   le_data = []\<rparr>] s3 }
               else Some s2)
            else Some s2 } }))"

definition becomeLeader :: "Raft \<Rightarrow> Raft option" where
  "becomeLeader s0 = do {
     require (state s0 = CANDIDATE);
     let s1 = s0\<lparr>state := LEADER, leaderId := serverId s0,
                startElectionAt := timeMax, withholdVotesUntil := timeMax\<rparr>;
     let s2 = newEpoch (clusterTimeAtEpoch s1) s1;
     let s3 = s2\<lparr>configuration := forEach (beginLeadership (lastLog s2)) (configuration s2)\<rparr>;
     (t, s4) \<leftarrow> leaderStamp s3;
     s5 \<leftarrow> raft_append [\<lparr>le_term = currentTerm s4, le_index = None, le_cluster_time = t,
         le_type = NOOP, le_configuration = emptyConfigurationDesc, le_data = []\<rparr>] s4;
     Some (interruptAll s5) }"

definition startNewElection :: "Raft \<Rightarrow> Raft option" where
  "startNewElection s0 =
     (if conf_id (configuration s0) = 0 then Some (setElectionTimer s0)
      else (let
        s1 = s0\<lparr>currentTerm := currentTerm s0 + 1, state := CANDIDATE, leaderId := 0,
                votedFor := serverId s0\<rparr>;
        s2 = setElectionTimer s1;
        s3 = s2\<lparr>configuration := forEach beginRequestVote (configuration s2), snapshotWriter := None\<rparr>;
        s4 = interruptAll (updateLogMetadata s3)
      in if quorumAll (haveVote (votedFor s4)) (configuration s4) then becomeLeader s4 else Some s4))"

section \<open>Snapshots\<close>

definition discardUnneededEntries :: "Raft \<Rightarrow> Raft" where
  "discardUnneededEntries s =
     (if logStart s \<le> lastSnapshotIndex s
      then (let s1 = s\<lparr>rlog := log_truncatePrefix (rlog s) (lastSnapshotIndex s + 1)\<rparr>;
                s2 = cm_truncatePrefix (lastSnapshotIndex s1 + 1) s1
            in syncLater (notify_all s2))
      else s)"

text \<open>The part of \<open>readSnapshot\<close> that opens the file and reads the header: the format version has to
  be 1.\<close>

definition openSnapshot :: "ProtoBuf \<Rightarrow> string \<Rightarrow> (SnapshotHeader \<times> Reader) option" where
  "openSnapshot pb f = do {
     let (version, r1) = readRaw 1 (mkReader f);
     require (version = [CHR 0x01]);
     let (h, r2) = readMessage (parseHeader pb) r1;
     header \<leftarrow> h;
     Some (header, r2) }"

definition readSnapshot :: "ProtoBuf \<Rightarrow> Raft \<Rightarrow> Raft option" where
  "readSnapshot pb s0 = do {
     (reader, s) \<leftarrow> (case snapshotOnDisk s0 of
        None \<Rightarrow> Some (None, s0)
      | Some f \<Rightarrow> do {
          (header, r) \<leftarrow> openSnapshot pb f;
          require (lastSnapshotIndex s0 \<le> last_included_index header);
          let s1 = s0\<lparr>lastSnapshotIndex := last_included_index header,
                     lastSnapshotTerm := last_included_term header,
                     lastSnapshotClusterTime := last_cluster_time header,
                     lastSnapshotBytes := reader_getSizeBytes r,
                     commitIndex := max (last_included_index header) (commitIndex s0)\<rparr>;
          differs \<leftarrow> (if lastLog s1 < lastSnapshotIndex s1 then Some True
                     else if logStart s1 \<le> lastSnapshotIndex s1 then
                       map_option (\<lambda>e. le_term e \<noteq> lastSnapshotTerm s1) (getEntry (rlog s1) (lastSnapshotIndex s1))
                     else Some False);
          let s2 = (if differs then
             (let a = s1\<lparr>rlog := log_truncateSuffix
                          (log_truncatePrefix (rlog s1) (lastSnapshotIndex s1 + 1)) (lastSnapshotIndex s1)\<rparr>;
                  b = cm_truncateSuffix (lastSnapshotIndex a) (cm_truncatePrefix (lastSnapshotIndex a + 1) a)
              in newEpoch (lastSnapshotClusterTime b) (syncLater b))
             else s1);
          let s3 = discardUnneededEntries s2;
          s4 \<leftarrow> (case (sh_configuration_index header, sh_configuration header) of
                  (Some i, Some c) \<Rightarrow> cm_setSnapshot i c s3
                | _ \<Rightarrow> Some s3);
          Some (Some r, notify_all s4) });
     require (logStart s \<le> lastSnapshotIndex s + 1);
     Some (s\<lparr>snapshotReader := reader\<rparr>) }"

end
