(* ===== verification/LC_RaftConf.thy ===== *)
theory LC_RaftConf
  imports LC_RaftCore
begin

text \<open>
  What the operations on configurations change and keep: they touch only the configuration, its
  manager and the bookkeeping for new peers; they keep the configuration well-formed; and a peer
  they create has not voted.
\<close>

section \<open>Only the configuration changes\<close>

definition conf_only :: "Raft \<Rightarrow> Raft \<Rightarrow> bool" where
  "conf_only s s' \<longleftrightarrow> (\<exists>c cm cr ni np. s' = s\<lparr>configuration := c, configurationManager := cm,
     clockReads := cr, nextIncarnation := ni, numPeerThreads := np\<rparr>)"

lemma conf_onlyI:
  "conf_only s (s\<lparr>configuration := c, configurationManager := cm,
     clockReads := cr, nextIncarnation := ni, numPeerThreads := np\<rparr>)"
  unfolding conf_only_def by (intro exI) (rule refl)

lemma conf_only_configuration [intro]: "conf_only s (s\<lparr>configuration := c\<rparr>)"
  using conf_onlyI [where s = s and c = c and cm = "configurationManager s" and cr = "clockReads s"
      and ni = "nextIncarnation s" and np = "numPeerThreads s"] by simp

lemma conf_only_manager [intro]: "conf_only s (s\<lparr>configurationManager := cm\<rparr>)"
  using conf_onlyI [where s = s and c = "configuration s" and cm = cm and cr = "clockReads s"
      and ni = "nextIncarnation s" and np = "numPeerThreads s"] by simp

lemma conf_only_refl [simp, intro]: "conf_only s s"
  using conf_only_configuration [of s "configuration s"] by simp

lemma conf_only_trans: "conf_only s s' \<Longrightarrow> conf_only s' s'' \<Longrightarrow> conf_only s s''"
proof -
  assume "conf_only s s'" "conf_only s' s''"
  then obtain c cm cr ni np c' cm' cr' ni' np' where
    "s' = s\<lparr>configuration := c, configurationManager := cm, clockReads := cr, nextIncarnation := ni, numPeerThreads := np\<rparr>"
    "s'' = s'\<lparr>configuration := c', configurationManager := cm', clockReads := cr', nextIncarnation := ni', numPeerThreads := np'\<rparr>"
    unfolding conf_only_def by (elim exE) blast
  then have "s'' = s\<lparr>configuration := c', configurationManager := cm', clockReads := cr', nextIncarnation := ni',
    numPeerThreads := np'\<rparr>" by simp
  then show "conf_only s s''" by (simp only: conf_onlyI)
qed

lemma conf_only_frame:
  assumes "conf_only s s'"
  shows "params s' = params s" "serverId s' = serverId s" "clock s' = clock s"
    "snapshotOnDisk s' = snapshotOnDisk s" "stateChanged s' = stateChanged s" "r_exiting s' = r_exiting s"
    "rlog s' = rlog s" "logSyncQueued s' = logSyncQueued s" "currentTerm s' = currentTerm s"
    "state s' = state s" "lastSnapshotIndex s' = lastSnapshotIndex s" "lastSnapshotTerm s' = lastSnapshotTerm s"
    "lastSnapshotClusterTime s' = lastSnapshotClusterTime s"
    "snapshotWriter s' = snapshotWriter s" "commitIndex s' = commitIndex s" "leaderId s' = leaderId s"
    "votedFor s' = votedFor s" "currentEpoch s' = currentEpoch s" "clusterTimeAtEpoch s' = clusterTimeAtEpoch s"
    "startElectionAt s' = startElectionAt s" "withholdVotesUntil s' = withholdVotesUntil s"
    "random s' = random s" "randomReads s' = randomReads s"
  using assms by (auto simp: conf_only_def)

lemma conf_only_getServer: "conf_only s (getServer i s)"
proof (cases "map_of (knownServers (configuration s)) i")
  case None
  then have "getServer i s = s\<lparr>configuration := configuration (getServer i s), configurationManager := configurationManager s,
      clockReads := Suc (Suc (clockReads s)), nextIncarnation := Suc (nextIncarnation s),
      numPeerThreads := Suc (numPeerThreads s)\<rparr>"
    by (simp add: getServer_def Clock_now_def Let_def)
  then show ?thesis using conf_onlyI by metis
qed (simp add: getServer_def)

lemma conf_only_addServer: "conf_only s (addServer d s)"
  unfolding addServer_def Let_def by (rule conf_only_trans [OF conf_only_getServer]) auto

lemma conf_only_fold_addServer: "conf_only s (fold addServer ds s)"
  by (induction ds arbitrary: s) (auto intro: conf_only_trans [OF conf_only_addServer])

lemma conf_only_setConfiguration: "conf_only s (setConfiguration_conf i d s)"
  unfolding setConfiguration_conf_def Let_def
  by (intro conf_only_trans [OF _ conf_only_configuration] conf_only_trans [OF _ conf_only_fold_addServer]
      conf_only_configuration)

lemma conf_only_reset: "conf_only s (conf_reset s)"
  unfolding conf_reset_def Let_def by (rule conf_only_configuration)

lemma conf_only_resetStagingServers: "conf_only s (resetStagingServers s)"
  by (simp add: resetStagingServers_def conf_only_setConfiguration)

lemma conf_only_restoreInvariants: "conf_only s (restoreInvariants s)"
  unfolding restoreInvariants_def Let_def
  by (auto intro: conf_only_trans [OF conf_only_manager conf_only_reset]
      conf_only_trans [OF conf_only_manager conf_only_setConfiguration]
      conf_only_reset conf_only_setConfiguration)

lemma conf_only_cm_add: "conf_only s (cm_add i d s)"
  unfolding cm_add_def by (rule conf_only_trans [OF conf_only_manager conf_only_restoreInvariants])

lemma conf_only_cm_truncatePrefix: "conf_only s (cm_truncatePrefix i s)"
  unfolding cm_truncatePrefix_def by (rule conf_only_trans [OF conf_only_manager conf_only_restoreInvariants])

lemma conf_only_cm_truncateSuffix: "conf_only s (cm_truncateSuffix i s)"
  unfolding cm_truncateSuffix_def by (rule conf_only_trans [OF conf_only_manager conf_only_restoreInvariants])

lemma conf_only_cm_setSnapshot: "cm_setSnapshot i d s = Some s' \<Longrightarrow> conf_only s s'"
  using conf_only_trans [OF conf_only_manager conf_only_restoreInvariants]
  by (auto simp: cm_setSnapshot_def split: if_splits)

lemma conf_only_addConfigurations: "conf_only s (addConfigurations i es s)"
  by (induction es arbitrary: i s) (auto intro: conf_only_trans [OF conf_only_cm_add])

lemma conf_only_setStagingServers: "setStagingServers ds s = Some s' \<Longrightarrow> conf_only s s'"
  unfolding setStagingServers_def
  by (auto simp: Let_def split: if_splits
      intro!: conf_only_trans [OF conf_only_trans [OF conf_only_configuration conf_only_fold_addServer] conf_only_configuration])

lemmas conf_only_intros = conf_only_setConfiguration conf_only_reset conf_only_resetStagingServers
  conf_only_restoreInvariants conf_only_cm_add conf_only_cm_truncatePrefix conf_only_cm_truncateSuffix
  conf_only_addConfigurations conf_only_configuration

lemmas conf_frames [frame_simps] = conf_only_intros [THEN conf_only_frame(1)]
  conf_only_intros [THEN conf_only_frame(2)] conf_only_intros [THEN conf_only_frame(3)]
  conf_only_intros [THEN conf_only_frame(4)] conf_only_intros [THEN conf_only_frame(5)]
  conf_only_intros [THEN conf_only_frame(6)] conf_only_intros [THEN conf_only_frame(7)]
  conf_only_intros [THEN conf_only_frame(8)] conf_only_intros [THEN conf_only_frame(9)]
  conf_only_intros [THEN conf_only_frame(10)] conf_only_intros [THEN conf_only_frame(11)]
  conf_only_intros [THEN conf_only_frame(12)] conf_only_intros [THEN conf_only_frame(13)]
  conf_only_intros [THEN conf_only_frame(14)] conf_only_intros [THEN conf_only_frame(15)]
  conf_only_intros [THEN conf_only_frame(16)] conf_only_intros [THEN conf_only_frame(17)]
  conf_only_intros [THEN conf_only_frame(18)] conf_only_intros [THEN conf_only_frame(19)]
  conf_only_intros [THEN conf_only_frame(20)] conf_only_intros [THEN conf_only_frame(21)]
  conf_only_intros [THEN conf_only_frame(22)] conf_only_intros [THEN conf_only_frame(23)]

section \<open>Well-formed configurations\<close>

definition is_local :: "Server \<Rightarrow> bool" where
  "is_local sv = (case kind sv of LocalServer _ \<Rightarrow> True | Peer _ \<Rightarrow> False)"

text \<open>Every server is filed under its identifier, and exactly the local one is not a peer.\<close>

definition known_wf :: "nat \<Rightarrow> Configuration \<Rightarrow> bool" where
  "known_wf sid c \<longleftrightarrow> om_wf (knownServers c) \<and> localServer c = sid \<and>
     (\<forall>e \<in> set (knownServers c). srv_id (snd e) = fst e \<and> (is_local (snd e) \<longleftrightarrow> fst e = sid)) \<and>
     sid \<in> fst ` set (knownServers c)"

definition conf_wf :: "nat \<Rightarrow> Configuration \<Rightarrow> bool" where
  "conf_wf sid c \<longleftrightarrow> known_wf sid c \<and>
     set (oldServers c) \<subseteq> fst ` set (knownServers c) \<and> set (newServers c) \<subseteq> fst ` set (knownServers c)"

text \<open>The peers whose vote the server holds.\<close>

definition voters :: "Configuration \<Rightarrow> nat set" where
  "voters c = {i. \<exists>sv p. (i, sv) \<in> set (knownServers c) \<and> kind sv = Peer p \<and> p_haveVote p}"

lemma known_wf_fields [simp]:
  "known_wf sid (c\<lparr>oldServers := x\<rparr>) = known_wf sid c" "known_wf sid (c\<lparr>newServers := x\<rparr>) = known_wf sid c"
  "known_wf sid (c\<lparr>conf_state := y\<rparr>) = known_wf sid c" "known_wf sid (c\<lparr>conf_id := z\<rparr>) = known_wf sid c"
  "known_wf sid (c\<lparr>description := d\<rparr>) = known_wf sid c"
  by (simp_all add: known_wf_def)

lemma voters_fields [simp]:
  "voters (c\<lparr>oldServers := x\<rparr>) = voters c" "voters (c\<lparr>newServers := x\<rparr>) = voters c"
  "voters (c\<lparr>conf_state := y\<rparr>) = voters c" "voters (c\<lparr>conf_id := z\<rparr>) = voters c"
  "voters (c\<lparr>description := d\<rparr>) = voters c"
  by (simp_all add: voters_def)

lemma conf_wf_mkConfiguration: "conf_wf sid (mkConfiguration sid)"
  by (auto simp: conf_wf_def known_wf_def mkConfiguration_def om_wf_def mkServer_def is_local_def)

lemma keys_map_servers: "fst ` set (map (\<lambda>(i, sv). (i, f i sv)) m) = fst ` set m"
  by force

lemma om_wf_map_servers: "om_wf (map (\<lambda>(i, sv). (i, f i sv)) m) = om_wf m"
  by (induction m) (auto simp: om_wf_def)

lemma known_wf_map:
  assumes "known_wf sid c" "\<And>i sv. srv_id (f i sv) = srv_id sv \<and> is_local (f i sv) = is_local sv"
  shows "known_wf sid (c\<lparr>knownServers := map (\<lambda>(i, sv). (i, f i sv)) (knownServers c)\<rparr>)"
  using assms keys_map_servers [of f "knownServers c"]
  by (auto simp: known_wf_def om_wf_map_servers simp del: set_map) auto

lemma known_wf_updateServer:
  assumes "known_wf sid c" "\<And>sv. srv_id (f sv) = srv_id sv \<and> is_local (f sv) = is_local sv"
  shows "known_wf sid (updateServer i f c)"
  unfolding updateServer_def using assms by (intro known_wf_map) auto

lemma keys_updateServer [simp]: "fst ` set (knownServers (updateServer i f c)) = fst ` set (knownServers c)"
  by (force simp: updateServer_def)

lemma updateServer_fields [simp]:
  "oldServers (updateServer i f c) = oldServers c" "newServers (updateServer i f c) = newServers c"
  "localServer (updateServer i f c) = localServer c" "conf_state (updateServer i f c) = conf_state c"
  "conf_id (updateServer i f c) = conf_id c" "description (updateServer i f c) = description c"
  by (simp_all add: updateServer_def)

lemma known_wf_getServer:
  assumes "known_wf sid (configuration s)"
  shows "known_wf sid (configuration (getServer i s)) \<and>
    fst ` set (knownServers (configuration (getServer i s))) = insert i (fst ` set (knownServers (configuration s))) \<and>
    voters (configuration (getServer i s)) \<subseteq> voters (configuration s)"
proof (cases "map_of (knownServers (configuration s)) i")
  case None
  then have i: "i \<notin> fst ` set (knownServers (configuration s))" by (simp add: map_of_eq_None_iff)
  obtain p where g: "configuration (getServer i s) = (configuration s)\<lparr>knownServers :=
      om_set i (mkServer i (Peer p)) (knownServers (configuration s))\<rparr>" "\<not> p_haveVote p"
    using None by (simp add: getServer_def Clock_now_def Let_def mkPeer_def)
  have "i \<noteq> sid" using i assms by (auto simp: known_wf_def)
  then have "known_wf sid (configuration (getServer i s))"
    using assms set_om_set [of i "mkServer i (Peer p)" "knownServers (configuration s)"]
    by (auto simp: g(1) known_wf_def om_wf_set keys_om_set mkServer_def is_local_def)
  moreover have "voters (configuration (getServer i s)) \<subseteq> voters (configuration s)"
  proof
    fix x assume "x \<in> voters (configuration (getServer i s))"
    then obtain sv q where v: "(x, sv) \<in> set (om_set i (mkServer i (Peer p)) (knownServers (configuration s)))"
      "kind sv = Peer q" "p_haveVote q" by (auto simp: voters_def g(1))
    then have "(x, sv) \<in> set (knownServers (configuration s))"
      using g(2) set_om_set by (fastforce simp: mkServer_def)
    then show "x \<in> voters (configuration s)" using v by (auto simp: voters_def)
  qed
  ultimately show ?thesis by (simp add: g(1) keys_om_set)
next
  case (Some sv)
  then have "i \<in> fst ` set (knownServers (configuration s))" by (force dest: map_of_SomeD)
  then show ?thesis using assms Some by (auto simp: getServer_def)
qed

lemma voters_updateServer:
  "(\<And>sv p'. kind (f sv) = Peer p' \<Longrightarrow> p_haveVote p' \<Longrightarrow> \<exists>p. kind sv = Peer p \<and> p_haveVote p) \<Longrightarrow>
   voters (updateServer i f c) \<subseteq> voters c"
proof
  fix x
  assume f: "\<And>sv p'. kind (f sv) = Peer p' \<Longrightarrow> p_haveVote p' \<Longrightarrow> \<exists>p. kind sv = Peer p \<and> p_haveVote p"
  assume "x \<in> voters (updateServer i f c)"
  then obtain sv p' where "(x, sv) \<in> set (knownServers c)"
    "kind (if x = i then f sv else sv) = Peer p'" "p_haveVote p'"
    by (auto simp: voters_def updateServer_def)
  then show "x \<in> voters c" using f by (auto simp: voters_def split: if_splits)
qed

text \<open>Adding a server keeps the lists of members, the known servers and their votes.\<close>

lemma addServer_lists:
  "oldServers (configuration (addServer d s)) = oldServers (configuration s)"
  "newServers (configuration (addServer d s)) = newServers (configuration s)"
  "conf_state (configuration (addServer d s)) = conf_state (configuration s)"
  "conf_id (configuration (addServer d s)) = conf_id (configuration s)"
  "description (configuration (addServer d s)) = description (configuration s)"
  "localServer (configuration (addServer d s)) = localServer (configuration s)"
  by (simp_all add: addServer_def getServer_def Clock_now_def Let_def split: option.split)

lemma fold_addServer_lists:
  "oldServers (configuration (fold addServer ds s)) = oldServers (configuration s)"
  "newServers (configuration (fold addServer ds s)) = newServers (configuration s)"
  "conf_state (configuration (fold addServer ds s)) = conf_state (configuration s)"
  "conf_id (configuration (fold addServer ds s)) = conf_id (configuration s)"
  "description (configuration (fold addServer ds s)) = description (configuration s)"
  "localServer (configuration (fold addServer ds s)) = localServer (configuration s)"
  by (induction ds arbitrary: s) (simp_all add: addServer_lists)

lemma known_wf_addServer:
  assumes "known_wf sid (configuration s)"
  shows "known_wf sid (configuration (addServer d s)) \<and>
    fst ` set (knownServers (configuration (addServer d s))) =
      insert (sd_server_id d) (fst ` set (knownServers (configuration s))) \<and>
    voters (configuration (addServer d s)) \<subseteq> voters (configuration s)"
proof -
  note g = known_wf_getServer [OF assms, of "sd_server_id d"]
  have "known_wf sid (configuration (addServer d s))"
    unfolding addServer_def Let_def using g by (auto intro!: known_wf_updateServer simp: is_local_def)
  moreover have "voters (configuration (addServer d s)) \<subseteq> voters (configuration (getServer (sd_server_id d) s))"
    unfolding addServer_def Let_def by (simp, rule voters_updateServer) simp
  ultimately show ?thesis using g by (auto simp: addServer_def Let_def)
qed

lemma known_wf_fold_addServer:
  "known_wf sid (configuration s) \<Longrightarrow> known_wf sid (configuration (fold addServer ds s)) \<and>
    fst ` set (knownServers (configuration (fold addServer ds s))) =
      sd_server_id ` set ds \<union> fst ` set (knownServers (configuration s)) \<and>
    voters (configuration (fold addServer ds s)) \<subseteq> voters (configuration s)"
proof (induction ds arbitrary: s)
  case (Cons d ds)
  note a = known_wf_addServer [OF Cons.prems, of d]
  show ?case using Cons.IH [of "addServer d s"] a by auto
qed simp

lemma collectServers_wf:
  assumes "known_wf sid c" "sid \<in> set marked"
  shows "known_wf sid (collectServers marked c) \<and>
    set marked \<inter> fst ` set (knownServers c) \<subseteq> fst ` set (knownServers (collectServers marked c)) \<and>
    voters (collectServers marked c) \<subseteq> voters c"
proof -
  let ?m = "filter (\<lambda>(i, sv). gcFlag sv \<or> i \<in> set marked) (knownServers c)"
  have keys: "fst ` set (map (\<lambda>(i, sv). (i, sv\<lparr>gcFlag := False\<rparr>)) ?m) = fst ` set ?m" by force
  have "known_wf sid (c\<lparr>knownServers := ?m\<rparr>)" using assms by (force simp: known_wf_def om_wf_filter)
  then have "known_wf sid (collectServers marked c)"
    using known_wf_map [of sid "c\<lparr>knownServers := ?m\<rparr>" "\<lambda>i sv. sv\<lparr>gcFlag := False\<rparr>"]
    by (simp add: collectServers_def is_local_def)
  moreover have "set marked \<inter> fst ` set (knownServers c) \<subseteq> fst ` set (knownServers (collectServers marked c))"
  proof -
    have "fst ` set (knownServers (collectServers marked c)) = fst ` set ?m"
      using keys by (simp add: collectServers_def)
    then show ?thesis by force
  qed
  moreover have "voters (collectServers marked c) \<subseteq> voters c"
    by (auto simp: voters_def collectServers_def)
  ultimately show ?thesis by blast
qed

text \<open>What activating a configuration establishes.\<close>

lemma setConfiguration_lists:
  fixes s i d
  defines "c \<equiv> configuration (setConfiguration_conf i d s)"
  shows "oldServers c = map sd_server_id (prev_configuration d)"
    "newServers c = map sd_server_id (next_configuration d)" "conf_id c = i" "description c = d"
    "conf_state c = (if next_configuration d = [] then STABLE else TRANSITIONAL)"
    "localServer c = localServer (configuration s)"
  unfolding c_def setConfiguration_conf_def Let_def
  by (simp_all add: collectServers_def fold_addServer_lists)

lemma setConfiguration_wf:
  assumes "known_wf sid (configuration s)"
  shows "conf_wf sid (configuration (setConfiguration_conf i d s)) \<and>
    voters (configuration (setConfiguration_conf i d s)) \<subseteq> voters (configuration s)"
proof -
  define s1 where "s1 = s\<lparr>configuration := (configuration s)\<lparr>
            conf_state := (if next_configuration d = [] then STABLE else TRANSITIONAL),
            conf_id := i, description := d, oldServers := [], newServers := []\<rparr>\<rparr>"
  define s2 where "s2 = fold addServer (prev_configuration d) s1"
  define s3 where "s3 = s2\<lparr>configuration := (configuration s2)\<lparr>
            oldServers := map sd_server_id (prev_configuration d)\<rparr>\<rparr>"
  define s4 where "s4 = fold addServer (next_configuration d) s3"
  define c5 where "c5 = (configuration s4)\<lparr>newServers := map sd_server_id (next_configuration d)\<rparr>"
  have "known_wf sid (configuration s1)" "voters (configuration s1) = voters (configuration s)"
    using assms by (simp_all add: s1_def)
  note f2 = known_wf_fold_addServer [OF this(1), of "prev_configuration d", folded s2_def] this(2)
  have "known_wf sid (configuration s3)" "voters (configuration s3) = voters (configuration s2)"
    "fst ` set (knownServers (configuration s3)) = fst ` set (knownServers (configuration s2))"
    using f2 by (simp_all add: s3_def)
  note f4 = known_wf_fold_addServer [OF this(1), of "next_configuration d", folded s4_def] this(2,3)
  have k5: "known_wf sid c5" "voters c5 = voters (configuration s4)"
    "fst ` set (knownServers c5) = fst ` set (knownServers (configuration s4))"
    using f4 by (simp_all add: c5_def)
  have lists: "oldServers c5 = map sd_server_id (prev_configuration d)"
    "newServers c5 = map sd_server_id (next_configuration d)" "localServer c5 = sid"
    using k5(1) by (simp_all add: c5_def s4_def s3_def fold_addServer_lists known_wf_def)
  define m where "m = localServer c5 # oldServers c5 @ newServers c5"
  note col = collectServers_wf [OF k5(1), of m]
  have "sid \<in> fst ` set (knownServers c5)" using k5(1) unfolding known_wf_def by blast
  moreover have "fst ` set (knownServers c5) = sd_server_id ` set (next_configuration d) \<union>
      (sd_server_id ` set (prev_configuration d) \<union> fst ` set (knownServers (configuration s1)))"
    using f2 f4 k5(3) by metis
  ultimately have mk: "sid \<in> set m" "set m \<subseteq> fst ` set (knownServers c5)"
    using lists by (auto simp: m_def)
  have conf: "configuration (setConfiguration_conf i d s) = collectServers m c5"
    unfolding setConfiguration_conf_def Let_def m_def c5_def s4_def s3_def s2_def s1_def by simp
  have "oldServers (collectServers m c5) = oldServers c5" "newServers (collectServers m c5) = newServers c5"
    by (simp_all add: collectServers_def)
  moreover have "set m \<subseteq> fst ` set (knownServers (collectServers m c5))"
    using col [OF mk(1)] mk(2) by (simp add: Int_absorb2)
  ultimately have "conf_wf sid (collectServers m c5)"
    using col [OF mk(1)] by (simp add: conf_wf_def m_def)
  moreover have "voters (collectServers m c5) \<subseteq> voters (configuration s)"
  proof -
    have "voters (collectServers m c5) \<subseteq> voters (configuration s4)" using col [OF mk(1)] k5(2) by simp
    also have "\<dots> \<subseteq> voters (configuration s2)" using f4 by simp
    also have "\<dots> \<subseteq> voters (configuration s)" using f2 by simp
    finally show ?thesis .
  qed
  ultimately show ?thesis by (simp add: conf)
qed

section \<open>Operations that keep the configuration well-formed\<close>

definition keeps :: "Raft \<Rightarrow> Raft \<Rightarrow> bool" where
  "keeps s s' \<longleftrightarrow> conf_only s s' \<and>
     (conf_wf (serverId s) (configuration s) \<longrightarrow> conf_wf (serverId s) (configuration s') \<and>
        voters (configuration s') \<subseteq> voters (configuration s))"

lemma keeps_refl [simp, intro]: "keeps s s"
  by (simp add: keeps_def)

lemma keeps_trans: "keeps s s' \<Longrightarrow> keeps s' s'' \<Longrightarrow> keeps s s''"
  unfolding keeps_def using conf_only_trans [of s s' s''] conf_only_frame(2) [of s s'] by auto

lemma keeps_manager [intro]: "keeps s (s\<lparr>configurationManager := cm\<rparr>)"
  by (auto simp: keeps_def)

lemma keeps_setConfiguration: "keeps s (setConfiguration_conf i d s)"
  using setConfiguration_wf [of "serverId s" s i d] conf_only_setConfiguration
  unfolding keeps_def by (metis conf_wf_def)

lemma keeps_conf_reset: "keeps s (conf_reset s)"
  unfolding keeps_def
proof (intro conjI impI)
  show "conf_only s (conf_reset s)" by (rule conf_only_reset)
  assume wf: "conf_wf (serverId s) (configuration s)"
  let ?m = "filter (\<lambda>(i, sv). i = localServer (configuration s)) (knownServers (configuration s))"
  have "\<forall>e \<in> set ?m. e \<in> set (knownServers (configuration s))" "om_wf ?m"
    "serverId s \<in> fst ` set ?m"
    using wf by (auto simp: conf_wf_def known_wf_def om_wf_filter)
  then show "conf_wf (serverId s) (configuration (conf_reset s))"
    using wf by (auto simp: conf_reset_def Let_def conf_wf_def known_wf_def)
  show "voters (configuration (conf_reset s)) \<subseteq> voters (configuration s)"
    by (auto simp: voters_def conf_reset_def Let_def)
qed

lemma keeps_resetStagingServers: "keeps s (resetStagingServers s)"
  by (simp add: resetStagingServers_def keeps_setConfiguration)

lemma keeps_restoreInvariants: "keeps s (restoreInvariants s)"
  unfolding restoreInvariants_def Let_def
  by (auto intro: keeps_trans [OF keeps_manager keeps_conf_reset]
      keeps_trans [OF keeps_manager keeps_setConfiguration] keeps_conf_reset keeps_setConfiguration)

lemma keeps_cm_add: "keeps s (cm_add i d s)"
  unfolding cm_add_def by (rule keeps_trans [OF keeps_manager keeps_restoreInvariants])

lemma keeps_cm_truncatePrefix: "keeps s (cm_truncatePrefix i s)"
  unfolding cm_truncatePrefix_def by (rule keeps_trans [OF keeps_manager keeps_restoreInvariants])

lemma keeps_cm_truncateSuffix: "keeps s (cm_truncateSuffix i s)"
  unfolding cm_truncateSuffix_def by (rule keeps_trans [OF keeps_manager keeps_restoreInvariants])

lemma keeps_cm_setSnapshot: "cm_setSnapshot i d s = Some s' \<Longrightarrow> keeps s s'"
  using keeps_trans [OF keeps_manager keeps_restoreInvariants]
  by (auto simp: cm_setSnapshot_def split: if_splits)

lemma keeps_addConfigurations: "keeps s (addConfigurations i es s)"
  by (induction es arbitrary: i s) (auto intro: keeps_trans [OF keeps_cm_add])

lemma keeps_setStagingServers:
  assumes "setStagingServers ds s = Some s'"
  shows "keeps s s'"
  unfolding keeps_def
proof (intro conjI impI)
  show "conf_only s s'" using conf_only_setStagingServers [OF assms] .
  assume wf: "conf_wf (serverId s) (configuration s)"
  define s1 where "s1 = s\<lparr>configuration := (configuration s)\<lparr>conf_state := STAGING\<rparr>\<rparr>"
  define s2 where "s2 = fold addServer ds s1"
  have s': "s' = s2\<lparr>configuration := (configuration s2)\<lparr>
        newServers := newServers (configuration s2) @ map sd_server_id ds\<rparr>\<rparr>"
    using assms by (auto simp: setStagingServers_def s2_def s1_def Let_def split: if_splits)
  have k1: "known_wf (serverId s) (configuration s1)" "voters (configuration s1) = voters (configuration s)"
    "fst ` set (knownServers (configuration s1)) = fst ` set (knownServers (configuration s))"
    using wf by (simp_all add: s1_def conf_wf_def)
  note f = known_wf_fold_addServer [OF k1(1), of ds, folded s2_def]
  have "oldServers (configuration s2) = oldServers (configuration s)"
    "newServers (configuration s2) = newServers (configuration s)"
    by (simp_all add: s2_def s1_def fold_addServer_lists)
  then show "conf_wf (serverId s) (configuration s')"
    using f k1(3) wf by (auto simp: s' conf_wf_def)
  show "voters (configuration s') \<subseteq> voters (configuration s)"
    using f k1(2) by (simp add: s')
qed

lemmas keeps_intros = keeps_setConfiguration keeps_conf_reset keeps_resetStagingServers
  keeps_restoreInvariants keeps_cm_add keeps_cm_truncatePrefix keeps_cm_truncateSuffix keeps_addConfigurations

end
