(* ===== verification/LC_RaftRPC.thy ===== *)
theory LC_RaftRPC
  imports LC_RaftCore
begin

text \<open>
  The three RPCs of the protocol (\<^verbatim>\<open>src/Server/RaftConsensus.cc\<close>): the handlers on the receiving side,
  and on the calling side the two halves of each call. The lock is released while an RPC is
  under way, so the first half builds the request and the second processes the outcome in
  whatever state the server is in by then.
\<close>

section \<open>RequestVote\<close>

definition handleRequestVote :: "RequestVoteRequest \<Rightarrow> Raft \<Rightarrow> (RequestVoteResponse \<times> Raft) option" where
  "handleRequestVote request s0 = do {
     require (\<not> r_exiting s0);
     let lastLogIndex = lastLog s0;
     lastLogTerm \<leftarrow> getLastLogTerm s0;
     let logIsOk = (rv_last_log_term request > lastLogTerm \<or>
                    (rv_last_log_term request = lastLogTerm \<and> rv_last_log_index request \<ge> lastLogIndex));
     let (now, s1) = Clock_now s0;
     if withholdVotesUntil s1 > now
     then Some (\<lparr>rvr_term = currentTerm s1, rvr_granted = False, rvr_log_ok = logIsOk\<rparr>, s1)
     else do {
       s2 \<leftarrow> (if rv_term request > currentTerm s1 then stepDown (rv_term request) s1 else Some s1);
       s3 \<leftarrow> (if rv_term request = currentTerm s2 \<and> logIsOk \<and> votedFor s2 = 0 then do {
                a \<leftarrow> stepDown (currentTerm s2) s2;
                Some (updateLogMetadata ((setElectionTimer a)\<lparr>votedFor := rv_server_id request\<rparr>)) }
              else Some s2);
       Some (\<lparr>rvr_term = currentTerm s3,
              rvr_granted = (rv_term request = currentTerm s3 \<and> votedFor s3 = rv_server_id request),
              rvr_log_ok = logIsOk\<rparr>, s3) } }"

section \<open>AppendEntries\<close>

text \<open>A sign of life from the leader of the current term: shared by the handlers of AppendEntries and
  InstallSnapshot.\<close>

definition hearFromLeader :: "nat \<Rightarrow> nat \<Rightarrow> Raft \<Rightarrow> Raft option" where
  "hearFromLeader term leader s0 = do {
     s1 \<leftarrow> stepDown term s0;
     let s2 = setElectionTimer s1;
     let (now, s3) = Clock_now s2;
     let s4 = s3\<lparr>withholdVotesUntil := now + ELECTION_TIMEOUT (params s3)\<rparr>;
     if leaderId s4 = 0 then Some (s4\<lparr>leaderId := leader\<rparr>)
     else do { require (leaderId s4 = leader); Some s4 } }"

text \<open>Removing the conflicting suffix of the log, from \<open>index\<close> on.\<close>

definition truncateConflict :: "nat \<Rightarrow> Raft \<Rightarrow> Raft" where
  "truncateConflict index s =
     (let lastIndexKept = index - 1;
          s1 = s\<lparr>numEntriesTruncated := numEntriesTruncated s + (lastLog s - lastIndexKept),
                 rlog := log_truncateSuffix (rlog s) lastIndexKept\<rparr>
      in cm_truncateSuffix lastIndexKept s1)"

text \<open>The loop over the entries of a request; \<open>index\<close> is the index before the first of them.\<close>

fun storeEntries :: "nat \<Rightarrow> LogEntry list \<Rightarrow> Raft \<Rightarrow> Raft option" where
  "storeEntries index [] s = Some s"
| "storeEntries index (e # es) s = do {
     let index = Suc index;
     require (case le_index e of None \<Rightarrow> True | Some i \<Rightarrow> i = index);
     if index < logStart s then storeEntries index es s
     else do {
       (present, s1) \<leftarrow> (if lastLog s \<ge> index then do {
            old \<leftarrow> getEntry (rlog s) index;
            if le_term old = le_term e then Some (True, s)
            else do { require (commitIndex s < index); Some (False, truncateConflict index s) } }
          else Some (False, s));
       if present then storeEntries index es s1
       else do {
         require (list_all (\<lambda>x. le_type x \<noteq> UNKNOWN) (e # es));
         s2 \<leftarrow> raft_append (e # es) s1;
         Some (newEpoch (le_cluster_time (last (e # es))) s2) } } }"

definition capabilities :: "Raft \<Rightarrow> nat option \<times> nat option" where
  "capabilities s = (case map_of (knownServers (configuration s)) (localServer (configuration s)) of
     Some sv \<Rightarrow> (if haveStateMachineSupportedVersions sv
                then (Some (minStateMachineVersion sv), Some (maxStateMachineVersion sv)) else (None, None))
   | None \<Rightarrow> (None, None))"

text \<open>The checks that the previous entry is present, and that it has the leader's term if it is still
  in the log.\<close>

definition prevEntryOk :: "AppendEntriesRequest \<Rightarrow> Raft \<Rightarrow> bool option" where
  "prevEntryOk request s =
     (if ae_prev_log_index request > lastLog s then Some False
      else if ae_prev_log_index request \<ge> logStart s then
        map_option (\<lambda>e. le_term e = ae_prev_log_term request) (getEntry (rlog s) (ae_prev_log_index request))
      else Some True)"

definition acceptEntries :: "AppendEntriesRequest \<Rightarrow> Raft \<Rightarrow> Raft option" where
  "acceptEntries request s0 = do {
     s1 \<leftarrow> storeEntries (ae_prev_log_index request) (ae_entries request) s0;
     s2 \<leftarrow> (if commitIndex s1 < ae_commit_index request then do {
              let a = s1\<lparr>commitIndex := ae_commit_index request\<rparr>;
              require (commitIndex a \<le> lastLog a);
              Some (notify_all a) }
            else Some s1);
     let s3 = setElectionTimer s2;
     let (now, s4) = Clock_now s3;
     Some (s4\<lparr>withholdVotesUntil := now + ELECTION_TIMEOUT (params s4)\<rparr>) }"

definition handleAppendEntries ::
  "AppendEntriesRequest \<Rightarrow> Raft \<Rightarrow> (AppendEntriesResponse \<times> Raft) option" where
  "handleAppendEntries request s0 = do {
     require (\<not> r_exiting s0);
     let rejection = \<lparr>aer_term = currentTerm s0, aer_success = False, aer_last_log_index = Some (lastLog s0),
          aer_min_supported = fst (capabilities s0), aer_max_supported = snd (capabilities s0)\<rparr>;
     if ae_term request < currentTerm s0 then Some (rejection, s0)
     else do {
       let response = rejection\<lparr>aer_term := ae_term request\<rparr>;
       s1 \<leftarrow> hearFromLeader (ae_term request) (ae_server_id request) s0;
       ok \<leftarrow> prevEntryOk request s1;
       if \<not> ok then Some (response, s1)
       else do {
         s2 \<leftarrow> acceptEntries request s1;
         Some (response\<lparr>aer_success := True, aer_last_log_index := Some (lastLog s2)\<rparr>, s2) } } }"

section \<open>InstallSnapshot\<close>

definition handleInstallSnapshot ::
  "ProtoBuf \<Rightarrow> InstallSnapshotRequest \<Rightarrow> Raft \<Rightarrow> (InstallSnapshotResponse \<times> Raft) option" where
  "handleInstallSnapshot pb request s0 = do {
     require (\<not> r_exiting s0);
     if is_term request < currentTerm s0
     then Some (\<lparr>isr_term = currentTerm s0, isr_bytes_stored = None\<rparr>, s0)
     else do {
       s1 \<leftarrow> hearFromLeader (is_term request) (is_server_id request) s0;
       let w = (case snapshotWriter s1 of None \<Rightarrow> mkWriter | Some w \<Rightarrow> w);
       let s2 = s1\<lparr>snapshotWriter := Some w\<rparr>;
       let response = \<lparr>isr_term = is_term request, isr_bytes_stored = Some (bytesWritten w)\<rparr>;
       if is_byte_offset request < bytesWritten w then Some (response, s2)
       else if is_byte_offset request > bytesWritten w then
         (if (case is_version request of None \<Rightarrow> True | Some v \<Rightarrow> v < 2)
          then do { s3 \<leftarrow> stepDown (currentTerm s2 + 1) s2;
                    Some (response\<lparr>isr_term := currentTerm s3\<rparr>, s3) }
          else Some (response, s2))
       else do {
         let w2 = writeRaw (is_data request) w;
         let s3 = s2\<lparr>snapshotWriter := Some w2\<rparr>;
         let response2 = response\<lparr>isr_bytes_stored := Some (bytesWritten w2)\<rparr>;
         if is_done request then
           (if is_last_snapshot_index request < lastSnapshotIndex s3
            then Some (response2, s3\<lparr>snapshotWriter := None\<rparr>)
            else do {
              s4 \<leftarrow> readSnapshot pb (s3\<lparr>snapshotOnDisk := Some (fst (writer_save w2)), snapshotWriter := None\<rparr>);
              Some (response2, notify_all s4) })
         else Some (response2, s3) } } }"

section \<open>The calling side\<close>

definition findPeer :: "nat \<Rightarrow> nat \<Rightarrow> Raft \<Rightarrow> PeerState option" where
  "findPeer i incarnation s = (case map_of (knownServers (configuration s)) i of
     None \<Rightarrow> None
   | Some sv \<Rightarrow> (case kind sv of
        LocalServer _ \<Rightarrow> None
      | Peer p \<Rightarrow> if p_incarnation p = incarnation then Some p else None))"

definition updatePeer :: "nat \<Rightarrow> nat \<Rightarrow> (PeerState \<Rightarrow> PeerState) \<Rightarrow> Raft \<Rightarrow> Raft" where
  "updatePeer i incarnation f s = s\<lparr>configuration := updateServer i (\<lambda>sv. case kind sv of
      LocalServer _ \<Rightarrow> sv
    | Peer p \<Rightarrow> if p_incarnation p = incarnation then sv\<lparr>kind := Peer (f p)\<rparr> else sv) (configuration s)\<rparr>"

datatype 'r callStatus = CallOK 'r | CallFailed | CallInvalidRequest

text \<open>What a thread remembers between the two halves of a call.\<close>

record 'q Call =
  call_peer :: nat
  call_incarnation :: nat
  call_request :: 'q
  call_start :: int
  call_epoch :: nat
  call_count :: nat

definition callFailed :: "'q Call \<Rightarrow> Raft \<Rightarrow> Raft" where
  "callFailed c s = updatePeer (call_peer c) (call_incarnation c)
     (\<lambda>p. p\<lparr>suppressBulkData := True, backoffUntil := call_start c + RPC_FAILURE_BACKOFF (params s)\<rparr>) s"

definition beginCall :: "nat \<Rightarrow> nat \<Rightarrow> 'q \<Rightarrow> nat \<Rightarrow> Raft \<Rightarrow> 'q Call \<times> Raft" where
  "beginCall i incarnation request n s0 =
     (let (start, s) = Clock_now s0 in
      (\<lparr>call_peer = i, call_incarnation = incarnation, call_request = request, call_start = start,
        call_epoch = currentEpoch s, call_count = n\<rparr>, s))"

subsection \<open>RequestVote\<close>

definition requestVote_send :: "nat \<Rightarrow> nat \<Rightarrow> Raft \<Rightarrow> (RequestVoteRequest Call \<times> Raft) option" where
  "requestVote_send i incarnation s = do {
     t \<leftarrow> getLastLogTerm s;
     Some (beginCall i incarnation \<lparr>rv_server_id = serverId s, rv_term = currentTerm s,
       rv_last_log_term = t, rv_last_log_index = lastLog s\<rparr> 0 s) }"

definition requestVote_receive ::
  "RequestVoteRequest Call \<Rightarrow> RequestVoteResponse callStatus \<Rightarrow> Raft \<Rightarrow> Raft option" where
  "requestVote_receive c st s = (case st of
     CallFailed \<Rightarrow> Some (callFailed c s)
   | CallInvalidRequest \<Rightarrow> None
   | CallOK response \<Rightarrow>
       (if currentTerm s \<noteq> rv_term (call_request c) \<or> state s \<noteq> CANDIDATE \<or>
           (case findPeer (call_peer c) (call_incarnation c) s of None \<Rightarrow> True | Some p \<Rightarrow> p_exiting p)
        then Some s
        else if rvr_term response > currentTerm s then stepDown (rvr_term response) s
        else (let s1 = notify_all (updatePeer (call_peer c) (call_incarnation c)
                    (\<lambda>p. p\<lparr>requestVoteDone := True, lastAckEpoch := call_epoch c\<rparr>) s) in
          if rvr_granted response then
            (let s2 = updatePeer (call_peer c) (call_incarnation c) (\<lambda>p. p\<lparr>p_haveVote := True\<rparr>) s1 in
             if quorumAll (haveVote (votedFor s2)) (configuration s2) then becomeLeader s2 else Some s2)
          else Some s1)))"

subsection \<open>AppendEntries\<close>

fun packLoop :: "ProtoBuf \<Rightarrow> AppendEntriesRequest \<Rightarrow> Raft \<Rightarrow> nat \<Rightarrow> nat \<Rightarrow> nat \<Rightarrow> LogEntry list \<Rightarrow>
    LogEntry list option" where
  "packLoop pb request s index 0 currentSize acc = Some acc"
| "packLoop pb request s index (Suc n) currentSize acc = do {
     e \<leftarrow> getEntry (rlog s) index;
     let size = currentSize + entryByteSize pb e + 20;
     if size \<ge> SOFT_RPC_SIZE_LIMIT (params s) then do {
       let actual = requestByteSize pb (request\<lparr>ae_entries := acc @ [e]\<rparr>);
       require (actual \<le> size);
       if actual \<ge> SOFT_RPC_SIZE_LIMIT (params s) \<and> acc \<noteq> [] then Some acc
       else packLoop pb request s (Suc index) n actual (acc @ [e]) }
     else packLoop pb request s (Suc index) n size (acc @ [e]) }"

definition packEntries :: "ProtoBuf \<Rightarrow> nat \<Rightarrow> AppendEntriesRequest \<Rightarrow> Raft \<Rightarrow> LogEntry list option" where
  "packEntries pb next request s =
     (let lastIndex = min (lastLog s) (next + MAX_LOG_ENTRIES_PER_REQUEST (params s) - 1)
      in packLoop pb request s next (lastIndex + 1 - next) (requestByteSize pb request) [])"

datatype outgoing = SendAppendEntries "AppendEntriesRequest Call" | SendInstallSnapshot "InstallSnapshotRequest Call"

definition installSnapshot_send :: "nat \<Rightarrow> nat \<Rightarrow> PeerState \<Rightarrow> Raft \<Rightarrow> (outgoing \<times> Raft) option" where
  "installSnapshot_send i incarnation p0 s0 = do {
     (f, p, s) \<leftarrow> (case snapshotFile p0 of
        Some f \<Rightarrow> Some (f, p0, s0)
      | None \<Rightarrow> do {
          f \<leftarrow> snapshotOnDisk s0;
          let p = p0\<lparr>snapshotFile := Some f, snapshotFileOffset := 0, p_lastSnapshotIndex := lastSnapshotIndex s0\<rparr>;
          Some (f, p, updatePeer i incarnation (\<lambda>_. p) s0) });
     let numDataBytes = (if suppressBulkData p then 0
          else min (u64_sub (length f) (snapshotFileOffset p)) (SOFT_RPC_SIZE_LIMIT (params s)));
     require (numDataBytes = 0 \<or> snapshotFileOffset p + numDataBytes \<le> length f);
     let (c, s') = beginCall i incarnation
        \<lparr>is_server_id = serverId s, is_term = currentTerm s,
         is_last_snapshot_index = p_lastSnapshotIndex p, is_byte_offset = snapshotFileOffset p,
         is_data = take numDataBytes (drop (snapshotFileOffset p) f),
         is_done = (snapshotFileOffset p + numDataBytes = length f), is_version = Some 2\<rparr> numDataBytes s;
     Some (SendInstallSnapshot c, s') }"

definition appendEntries_send :: "ProtoBuf \<Rightarrow> nat \<Rightarrow> nat \<Rightarrow> Raft \<Rightarrow> (outgoing \<times> Raft) option" where
  "appendEntries_send pb i incarnation s = do {
     p \<leftarrow> findPeer i incarnation s;
     let prevLogIndex = (if nextIndex p = 0 then u64_max else nextIndex p - 1);
     require (prevLogIndex \<le> lastLog s);
     if nextIndex p < logStart s then installSnapshot_send i incarnation p s
     else do {
       prevLogTerm \<leftarrow> (if prevLogIndex \<ge> logStart s
                        then map_option (\<lambda>e. Some (le_term e)) (getEntry (rlog s) prevLogIndex)
                      else if prevLogIndex = 0 then Some (Some 0)
                      else if prevLogIndex = lastSnapshotIndex s then Some (Some (lastSnapshotTerm s))
                      else Some None);
       case prevLogTerm of
         None \<Rightarrow> installSnapshot_send i incarnation p s
       | Some t \<Rightarrow> do {
           let request = \<lparr>ae_server_id = serverId s, ae_term = currentTerm s, ae_prev_log_index = prevLogIndex,
                ae_prev_log_term = t, ae_entries = [], ae_commit_index = 0\<rparr>;
           es \<leftarrow> (if suppressBulkData p then Some [] else packEntries pb (nextIndex p) request s);
           let (c, s') = beginCall i incarnation (request\<lparr>ae_entries := es,
                ae_commit_index := min (commitIndex s) (prevLogIndex + length es)\<rparr>) (length es) s;
           Some (SendAppendEntries c, s') } } }"

text \<open>Catching up: whether the time of an iteration is close enough to that of the previous one, in the
  64-bit arithmetic of the code.\<close>

definition toMs :: "int \<Rightarrow> nat" where
  "toMs d = nat ((if d < 0 then - ((- d) div 1000000) else d div 1000000) mod 2 ^ 64)"

definition caughtUpIteration :: "nat \<Rightarrow> nat \<Rightarrow> int \<Rightarrow> bool" where
  "caughtUpIteration lastMs thisMs timeout \<longleftrightarrow>
     i64 (\<bar>i64 (int (u64_sub lastMs thisMs))\<bar> * 1000 * 1000) < timeout"

definition checkCaughtUp :: "nat \<Rightarrow> nat \<Rightarrow> PeerState \<Rightarrow> Raft \<Rightarrow> Raft" where
  "checkCaughtUp i incarnation p s =
     (if \<not> p_isCaughtUp p \<and> thisCatchUpIterationGoalId p \<le> matchIndex p then
        (let (now, s1) = Clock_now s;
             thisMs = toMs (now - thisCatchUpIterationStart p) in
         if caughtUpIteration (lastCatchUpIterationMs p) thisMs (ELECTION_TIMEOUT (params s1))
         then notify_all (updatePeer i incarnation (\<lambda>q. q\<lparr>p_isCaughtUp := True\<rparr>) s1)
         else (let (now2, s2) = Clock_now s1 in
           updatePeer i incarnation (\<lambda>q. q\<lparr>lastCatchUpIterationMs := thisMs,
             thisCatchUpIterationStart := now2, thisCatchUpIterationGoalId := lastLog s2\<rparr>) s2))
      else s)"

definition recordCapabilities :: "nat \<Rightarrow> nat \<Rightarrow> AppendEntriesResponse \<Rightarrow> Raft \<Rightarrow> Raft option" where
  "recordCapabilities i incarnation response s =
     (case (aer_min_supported response, aer_max_supported response) of
        (Some lo, Some hi) \<Rightarrow> do {
          require (lo < 2 ^ 16 \<and> hi < 2 ^ 16);
          Some (notify_all (s\<lparr>configuration := updateServer i (\<lambda>sv. case kind sv of
              LocalServer _ \<Rightarrow> sv
            | Peer p \<Rightarrow> if p_incarnation p = incarnation
                then sv\<lparr>haveStateMachineSupportedVersions := True,
                        minStateMachineVersion := lo, maxStateMachineVersion := hi\<rparr> else sv) (configuration s)\<rparr>)) }
      | _ \<Rightarrow> Some s)"

text \<open>A response of the current term, with the peer object \<open>p\<close> as it was when it arrived.\<close>

definition appendEntries_ack ::
  "AppendEntriesRequest Call \<Rightarrow> AppendEntriesResponse \<Rightarrow> PeerState \<Rightarrow> Raft \<Rightarrow> Raft option" where
  "appendEntries_ack c response p0 s0 =
     (let i = call_peer c; inc = call_incarnation c;
          p = p0\<lparr>lastAckEpoch := call_epoch c, nextHeartbeatTime := call_start c + HEARTBEAT_PERIOD (params s0)\<rparr>;
          s = notify_all (updatePeer i inc (\<lambda>_. p) s0);
          agreed = ae_prev_log_index (call_request c) + call_count c
      in if aer_success response then do {
           let p1 = (if matchIndex p > agreed then p else p\<lparr>matchIndex := agreed\<rparr>);
           s1 \<leftarrow> (if matchIndex p > agreed then Some s
                  else advanceCommitIndex (updatePeer i inc (\<lambda>_. p1) s));
           let p2 = p1\<lparr>nextIndex := matchIndex p1 + 1, suppressBulkData := False\<rparr>;
           let s2 = updatePeer i inc (\<lambda>q. q\<lparr>nextIndex := matchIndex p1 + 1, suppressBulkData := False\<rparr>) s1;
           Some (checkCaughtUp i inc p2 s2) }
         else (let n1 = (if nextIndex p > 1 then nextIndex p - 1 else nextIndex p);
                   n2 = (case aer_last_log_index response of
                           Some l \<Rightarrow> if n1 > l + 1 then l + 1 else n1 | None \<Rightarrow> n1)
               in Some (updatePeer i inc (\<lambda>q. q\<lparr>nextIndex := n2\<rparr>) s)))"

definition appendEntries_receive ::
  "AppendEntriesRequest Call \<Rightarrow> AppendEntriesResponse callStatus \<Rightarrow> Raft \<Rightarrow> Raft option" where
  "appendEntries_receive c st s = (case st of
     CallFailed \<Rightarrow> Some (callFailed c s)
   | CallInvalidRequest \<Rightarrow> None
   | CallOK response \<Rightarrow>
       (case findPeer (call_peer c) (call_incarnation c) s of
          None \<Rightarrow> Some s
        | Some p \<Rightarrow>
            if currentTerm s \<noteq> ae_term (call_request c) \<or> p_exiting p then Some s
            else do {
              require (state s = LEADER);
              s1 \<leftarrow> (if aer_term response > currentTerm s then stepDown (aer_term response) s
                     else do { require (aer_term response = currentTerm s); appendEntries_ack c response p s });
              recordCapabilities (call_peer c) (call_incarnation c) response s1 }))"

subsection \<open>InstallSnapshot\<close>

definition installSnapshot_ack ::
  "InstallSnapshotRequest Call \<Rightarrow> InstallSnapshotResponse \<Rightarrow> PeerState \<Rightarrow> Raft \<Rightarrow> Raft option" where
  "installSnapshot_ack c response p0 s0 =
     (let i = call_peer c; inc = call_incarnation c;
          p = p0\<lparr>lastAckEpoch := call_epoch c, nextHeartbeatTime := call_start c + HEARTBEAT_PERIOD (params s0),
                 suppressBulkData := False,
                 snapshotFileOffset := (case isr_bytes_stored response of
                    Some n \<Rightarrow> n | None \<Rightarrow> snapshotFileOffset p0 + call_count c)\<rparr>;
          s = notify_all (updatePeer i inc (\<lambda>_. p) s0)
      in do {
        f \<leftarrow> snapshotFile p;
        if snapshotFileOffset p = length f then do {
          s1 \<leftarrow> advanceCommitIndex (updatePeer i inc (\<lambda>q. q\<lparr>matchIndex := p_lastSnapshotIndex p,
                 nextIndex := p_lastSnapshotIndex p + 1\<rparr>) s);
          Some (updatePeer i inc (\<lambda>q. q\<lparr>snapshotFile := None, snapshotFileOffset := 0,
                 p_lastSnapshotIndex := 0\<rparr>) s1) }
        else Some s })"

definition installSnapshot_receive ::
  "InstallSnapshotRequest Call \<Rightarrow> InstallSnapshotResponse callStatus \<Rightarrow> Raft \<Rightarrow> Raft option" where
  "installSnapshot_receive c st s = (case st of
     CallFailed \<Rightarrow> Some (callFailed c s)
   | CallInvalidRequest \<Rightarrow> None
   | CallOK response \<Rightarrow>
       (case findPeer (call_peer c) (call_incarnation c) s of
          None \<Rightarrow> Some s
        | Some p \<Rightarrow>
            if currentTerm s \<noteq> is_term (call_request c) \<or> p_exiting p then Some s
            else do {
              require (state s = LEADER);
              if isr_term response > currentTerm s then stepDown (isr_term response) s
              else do { require (isr_term response = currentTerm s); installSnapshot_ack c response p s } }))"

end
