(* ===== verification/LC_RaftThreads.thy ===== *)
theory LC_RaftThreads
  imports LC_RaftRPC LC_StateMachine
begin

text \<open>
  The rest of the consensus module (\<^verbatim>\<open>src/Server/RaftConsensus.cc\<close>): start-up, the operations that
  clients and the state machine call, and one iteration of each of its threads. A loop that
  waits on the condition variable is given by its decision in the current state: \<open>Blocked\<close> when
  it waits, \<open>Done\<close> when it returns.
\<close>

section \<open>Start-up\<close>

text \<open>The constructor; the cluster clock reads the time.\<close>

definition mkRaft :: "RaftConfig \<Rightarrow> nat \<Rightarrow> string \<Rightarrow> (nat \<Rightarrow> int) \<Rightarrow> (nat \<Rightarrow> int) \<Rightarrow> string option \<Rightarrow> MemoryLog \<Rightarrow> Raft" where
  "mkRaft cfg sid addrs clk rnd disk l = \<lparr>params = cfg, serverId = sid, serverAddresses = addrs,
     clock = clk, clockReads = 1, random = rnd, randomReads = 0, nextIncarnation = 0,
     snapshotOnDisk = disk, stateChanged = 0, r_exiting = False, numPeerThreads = 0,
     rlog = l, logSyncQueued = False, leaderDiskThreadWorking = False,
     configuration = mkConfiguration sid, configurationManager = mkConfigurationManager,
     currentTerm = 0, state = FOLLOWER, lastSnapshotIndex = 0, lastSnapshotTerm = 0,
     lastSnapshotClusterTime = 0, lastSnapshotBytes = 0, snapshotReader = None, snapshotWriter = None,
     commitIndex = 0, leaderId = 0, votedFor = 0, currentEpoch = 0,
     clusterTimeAtEpoch = 0, localTimeAtEpoch = clk 0,
     startElectionAt = timeMax, withholdVotesUntil = timeMin, numEntriesTruncated = 0\<rparr>"

definition init :: "ProtoBuf \<Rightarrow> Raft \<Rightarrow> Raft option" where
  "init pb s0 = do {
     require (list_all (\<lambda>e. le_type e \<noteq> UNKNOWN) (entries (rlog s0)));
     let s1 = addConfigurations (logStart s0) (entries (rlog s0)) s0;
     s2 \<leftarrow> (if logStart s1 \<le> lastLog s1 then do {
              e \<leftarrow> getEntry (rlog s1) (lastLog s1);
              Some (newEpoch (le_cluster_time e) s1) }
            else Some s1);
     let md = metadata (rlog s2);
     let s3 = s2\<lparr>currentTerm := (case md_current_term md of Some t \<Rightarrow> t | None \<Rightarrow> currentTerm s2),
                votedFor := (case md_voted_for md of Some v \<Rightarrow> v | None \<Rightarrow> votedFor s2)\<rparr>;
     s4 \<leftarrow> readSnapshot pb (updateLogMetadata s3);
     s5 \<leftarrow> stepDown (currentTerm s4) s4;
     Some (notify_all s5) }"

definition raft_exit :: "Raft \<Rightarrow> Raft" where
  "raft_exit s = interruptAll (s\<lparr>r_exiting := True, configuration := forEach server_exit (configuration s)\<rparr>)"

definition bootstrapConfiguration :: "Raft \<Rightarrow> Raft option" where
  "bootstrapConfiguration s = do {
     require (\<not> (currentTerm s \<noteq> 0 \<or> logStart s \<noteq> 1 \<or> lastLog s \<noteq> 0 \<or> lastSnapshotIndex s \<noteq> 0));
     s1 \<leftarrow> stepDown 1 s;
     raft_append [\<lparr>le_term = 1, le_index = None, le_cluster_time = 0, le_type = CONFIGURATION,
       le_configuration = \<lparr>prev_configuration = [\<lparr>sd_server_id = serverId s1, sd_addresses = serverAddresses s1\<rparr>],
                           next_configuration = []\<rparr>, le_data = []\<rparr>] s1 }"

section \<open>Operations of clients\<close>

datatype ClientResult = SUCCESS | FAIL | RETRY | NOT_LEADER

text \<open>\<^verbatim>\<open>upToDateLeader\<close>: the part before the loop (it returns the epoch to wait for), and one
  evaluation of the loop body.\<close>

fun scheduleHeartbeats :: "nat list \<Rightarrow> Raft \<Rightarrow> Raft" where
  "scheduleHeartbeats [] s = s"
| "scheduleHeartbeats (i # is) s = (case map_of (knownServers (configuration s)) i of
     Some sv \<Rightarrow> (case kind sv of
        LocalServer _ \<Rightarrow> scheduleHeartbeats is s
      | Peer p \<Rightarrow> (let (now, s1) = Clock_now s in
          scheduleHeartbeats is (updatePeer i (p_incarnation p) (\<lambda>q. q\<lparr>nextHeartbeatTime := now\<rparr>) s1)))
   | None \<Rightarrow> scheduleHeartbeats is s)"

definition upToDateLeader_begin :: "Raft \<Rightarrow> nat \<times> Raft" where
  "upToDateLeader_begin s = (let s1 = s\<lparr>currentEpoch := currentEpoch s + 1\<rparr> in
     (currentEpoch s1, notify_all (scheduleHeartbeats (map fst (knownServers (configuration s1))) s1)))"

definition upToDateLeader_check :: "nat \<Rightarrow> Raft \<Rightarrow> bool waitResult option" where
  "upToDateLeader_check epoch s =
     (if r_exiting s \<or> state s \<noteq> LEADER then Some (Done False)
      else if quorumMin (getLastAckEpoch (currentEpoch s)) (configuration s) \<ge> epoch then do {
        commitTerm \<leftarrow> (if commitIndex s = lastSnapshotIndex s then Some (lastSnapshotTerm s)
          else do {
            require (commitIndex s > lastSnapshotIndex s);
            require (commitIndex s \<ge> logStart s);
            require (commitIndex s \<le> lastLog s);
            map_option le_term (getEntry (rlog s) (commitIndex s)) });
        Some (if commitTerm = currentTerm s then Done True else Blocked) }
      else Some Blocked)"

text \<open>\<^verbatim>\<open>getConfiguration\<close> and \<^verbatim>\<open>getLastCommitIndex\<close>, once \<^verbatim>\<open>upToDateLeader\<close> has returned.\<close>

definition getConfiguration :: "bool \<Rightarrow> Raft \<Rightarrow> ClientResult \<times> (ServerDesc list \<times> nat) option" where
  "getConfiguration upToDate s =
     (if \<not> upToDate then (NOT_LEADER, None)
      else if conf_state (configuration s) \<noteq> STABLE \<or> commitIndex s < conf_id (configuration s) then (RETRY, None)
      else (SUCCESS, Some (prev_configuration (description (configuration s)), conf_id (configuration s))))"

definition getLastCommitIndex :: "bool \<Rightarrow> Raft \<Rightarrow> ClientResult \<times> nat" where
  "getLastCommitIndex upToDate s = (if \<not> upToDate then (NOT_LEADER, 0) else (SUCCESS, commitIndex s))"

definition getLeaderHint :: "Raft \<Rightarrow> string" where
  "getLeaderHint s = lookupAddress (configuration s) (leaderId s)"

text \<open>\<^verbatim>\<open>replicateEntry\<close>: the append, with the index and term to wait for, and the wait.\<close>

definition replicateEntry_begin :: "LogEntry \<Rightarrow> Raft \<Rightarrow> ((nat \<times> nat) option \<times> Raft) option" where
  "replicateEntry_begin e s =
     (if state s = LEADER then do {
        (t, s1) \<leftarrow> leaderStamp s;
        s2 \<leftarrow> raft_append [e\<lparr>le_term := currentTerm s, le_cluster_time := t\<rparr>] s1;
        Some (Some (lastLog s2, currentTerm s), s2) }
      else Some (None, s))"

definition replicateEntry_wait :: "(nat \<times> nat) option \<Rightarrow> Raft \<Rightarrow> (ClientResult \<times> nat) waitResult" where
  "replicateEntry_wait w s = (case w of
     None \<Rightarrow> Done (NOT_LEADER, 0)
   | Some (index, t) \<Rightarrow>
       if \<not> r_exiting s \<and> currentTerm s = t
       then (if commitIndex s \<ge> index then Done (SUCCESS, index) else Blocked)
       else Done (NOT_LEADER, 0))"

definition replicate_begin :: "string \<Rightarrow> Raft \<Rightarrow> ((nat \<times> nat) option \<times> Raft) option" where
  "replicate_begin operation s = replicateEntry_begin \<lparr>le_term = 0, le_index = None, le_cluster_time = 0,
     le_type = DATA_ENTRY, le_configuration = emptyConfigurationDesc, le_data = operation\<rparr> s"

text \<open>\<^verbatim>\<open>setConfiguration\<close> in its phases: the checks and the staging of the new servers, one round of
  waiting for them to catch up, the transitional entry, and the wait for the final one.\<close>

datatype SetConfigurationResult = ConfigurationOk | ConfigurationChanged
  | ConfigurationBad "ServerDesc list" | NotLeaderAnymore

record Staging =
  stg_term :: nat
  stg_epoch :: nat
  stg_checkProgressAt :: int

definition setConfiguration_begin ::
  "nat \<Rightarrow> ServerDesc list \<Rightarrow> Raft \<Rightarrow> ((SetConfigurationResult + Staging) \<times> Raft) option" where
  "setConfiguration_begin old_id new_servers s =
     (if r_exiting s \<or> state s \<noteq> LEADER then Some (Inl NotLeaderAnymore, s)
      else if conf_id (configuration s) \<noteq> old_id then Some (Inl ConfigurationChanged, s)
      else if conf_state (configuration s) \<noteq> STABLE then Some (Inl ConfigurationChanged, s)
      else do {
        s1 \<leftarrow> setStagingServers new_servers s;
        let s2 = (notify_all s1)\<lparr>currentEpoch := currentEpoch s1 + 1\<rparr>;
        let (now, s3) = Clock_now s2;
        Some (Inr \<lparr>stg_term = currentTerm s3, stg_epoch = currentEpoch s3,
                stg_checkProgressAt = now + ELECTION_TIMEOUT (params s3)\<rparr>, s3) })"

definition stagingProgressing :: "nat \<Rightarrow> Raft \<Rightarrow> ServerDesc option" where
  "stagingProgressing epoch s =
     (if conf_state (configuration s) = STAGING then
        (case find (\<lambda>sv. getLastAckEpoch (currentEpoch s) sv < epoch)
                (lookupServers (configuration s) (newServers (configuration s))) of
           Some sv \<Rightarrow> Some \<lparr>sd_server_id = srv_id sv, sd_addresses = addresses sv\<rparr>
         | None \<Rightarrow> None)
      else None)"

text \<open>The result is a value to return, the order to go on, or a new waiting state.\<close>

datatype catchUpStep = CatchUpReturn SetConfigurationResult | CatchUpDone | CatchUpWait Staging

definition setConfiguration_catchUp :: "Staging \<Rightarrow> Raft \<Rightarrow> catchUpStep \<times> Raft" where
  "setConfiguration_catchUp stg s =
     (if r_exiting s \<or> stg_term stg \<noteq> currentTerm s then (CatchUpReturn NotLeaderAnymore, s)
      else if stagingAll isCaughtUp (configuration s) then (CatchUpDone, s)
      else (let (now, s1) = Clock_now s in
        if now \<ge> stg_checkProgressAt stg then
          (case stagingProgressing (stg_epoch stg) s1 of
             Some bad \<Rightarrow> (CatchUpReturn (ConfigurationBad [bad]), notify_all (resetStagingServers s1))
           | None \<Rightarrow>
               (let s2 = s1\<lparr>currentEpoch := currentEpoch s1 + 1\<rparr>;
                    (now2, s3) = Clock_now s2
                in (CatchUpWait (stg\<lparr>stg_epoch := currentEpoch s3,
                      stg_checkProgressAt := now2 + ELECTION_TIMEOUT (params s3)\<rparr>), s3)))
        else (CatchUpWait stg, s1)))"

definition setConfiguration_transition :: "ServerDesc list \<Rightarrow> Raft \<Rightarrow> ((nat \<times> nat) option \<times> Raft) option" where
  "setConfiguration_transition new_servers s = replicateEntry_begin \<lparr>le_term = 0, le_index = None,
     le_cluster_time = 0, le_type = CONFIGURATION,
     le_configuration = \<lparr>prev_configuration = prev_configuration (description (configuration s)),
                         next_configuration = new_servers\<rparr>, le_data = []\<rparr> s"

definition setConfiguration_finish :: "nat \<Rightarrow> nat \<Rightarrow> Raft \<Rightarrow> SetConfigurationResult waitResult" where
  "setConfiguration_finish transitionalId t s =
     (if conf_id (configuration s) > transitionalId \<and> commitIndex s \<ge> conf_id (configuration s)
      then Done ConfigurationOk
      else if r_exiting s \<or> t \<noteq> currentTerm s then Done NotLeaderAnymore
      else Blocked)"

definition setSupportedStateMachineVersions :: "nat \<Rightarrow> nat \<Rightarrow> Raft \<Rightarrow> Raft" where
  "setSupportedStateMachineVersions lo hi s =
     (case map_of (knownServers (configuration s)) (localServer (configuration s)) of
        None \<Rightarrow> s
      | Some sv \<Rightarrow>
          if \<not> haveStateMachineSupportedVersions sv \<or> minStateMachineVersion sv \<noteq> lo \<or> maxStateMachineVersion sv \<noteq> hi
          then notify_all (s\<lparr>configuration := updateServer (localServer (configuration s))
                 (\<lambda>sv. sv\<lparr>haveStateMachineSupportedVersions := True, minStateMachineVersion := lo,
                         maxStateMachineVersion := hi\<rparr>) (configuration s)\<rparr>)
          else s)"

section \<open>Operations of the state machine\<close>

datatype nextEntry = Interrupted | Next "Reader Entry"

definition getNextEntry :: "ProtoBuf \<Rightarrow> nat \<Rightarrow> Raft \<Rightarrow> (nextEntry waitResult \<times> Raft) option" where
  "getNextEntry pb lastIndex s =
     (let next = lastIndex + 1 in
      if r_exiting s then Some (Done Interrupted, s)
      else if commitIndex s \<ge> next then
        (if logStart s > next then do {
           s1 \<leftarrow> (case snapshotReader s of Some _ \<Rightarrow> Some s | None \<Rightarrow> readSnapshot pb s);
           Some (Done (Next \<lparr>e_index = lastSnapshotIndex s1, e_type = SNAPSHOT, e_command = [],
              e_snapshot = snapshotReader s1, e_clusterTime = lastSnapshotClusterTime s1\<rparr>),
              s1\<lparr>snapshotReader := None\<rparr>) }
         else do {
           e \<leftarrow> getEntry (rlog s) next;
           Some (Done (Next \<lparr>e_index = next, e_type = (if le_type e = DATA_ENTRY then DATA else SKIP),
              e_command = (if le_type e = DATA_ENTRY then le_data e else []),
              e_snapshot = None, e_clusterTime = le_cluster_time e\<rparr>), s) })
      else Some (Blocked, s))"

definition getSnapshotStats :: "ProtoBuf \<Rightarrow> Raft \<Rightarrow> SnapshotStats" where
  "getSnapshotStats pb s = \<lparr>last_snapshot_index = lastSnapshotIndex s,
     last_snapshot_bytes = lastSnapshotBytes s, log_start_index = logStart s,
     last_log_index = lastLog s, log_bytes = getSizeBytes (entryByteSize pb) (rlog s),
     is_leader = (state s = LEADER)\<rparr>"

definition snapshotHeader :: "nat \<Rightarrow> Raft \<Rightarrow> SnapshotHeader option" where
  "snapshotHeader lastIncludedIndex s = do {
     (t, ct) \<leftarrow> (if lastIncludedIndex \<ge> logStart s \<and> lastIncludedIndex \<le> lastLog s
                then map_option (\<lambda>e. (le_term e, le_cluster_time e)) (getEntry (rlog s) lastIncludedIndex)
                else if lastIncludedIndex = 0 then Some (0, 0)
                else if lastIncludedIndex = lastSnapshotIndex s
                  then Some (lastSnapshotTerm s, lastSnapshotClusterTime s)
                else Some (0, 0));
     let (ci, c) = getLatestConfigurationAsOf (configurationManager s) lastIncludedIndex;
     Some \<lparr>last_included_index = lastIncludedIndex, last_included_term = t, last_cluster_time = ct,
       sh_configuration = (if ci = 0 then None else Some c),
       sh_configuration_index = (if ci = 0 then None else Some ci)\<rparr> }"

definition beginSnapshot :: "ProtoBuf \<Rightarrow> nat \<Rightarrow> Raft \<Rightarrow> Writer option" where
  "beginSnapshot pb lastIncludedIndex s = do {
     require (lastIncludedIndex \<le> commitIndex s);
     header \<leftarrow> snapshotHeader lastIncludedIndex s;
     Some (writeMessage (serializeHeader pb) header (writeRaw [CHR 0x01] mkWriter)) }"

definition snapshotDone :: "nat \<Rightarrow> Writer \<Rightarrow> Raft \<Rightarrow> Raft option" where
  "snapshotDone lastIncludedIndex w s =
     (if lastIncludedIndex \<le> lastSnapshotIndex s then Some s
      else do {
        require (lastIncludedIndex \<ge> logStart s);
        require (lastIncludedIndex \<le> lastLog s);
        e \<leftarrow> getEntry (rlog s) lastIncludedIndex;
        let s1 = s\<lparr>snapshotOnDisk := Some (fst (writer_save w)), lastSnapshotBytes := snd (writer_save w),
                  lastSnapshotIndex := lastIncludedIndex, lastSnapshotTerm := le_term e,
                  lastSnapshotClusterTime := le_cluster_time e\<rparr>;
        let (ci, c) = getLatestConfigurationAsOf (configurationManager s1) lastIncludedIndex;
        s2 \<leftarrow> (if ci = 0 then Some s1 else cm_setSnapshot ci c s1);
        Some (discardUnneededEntries s2) })"

section \<open>Threads\<close>

text \<open>The disk thread: taking the sync object (the term and the last index it covers), finishing the
  write without the lock, and reacting to it with the lock.\<close>

definition leaderDisk_take :: "Raft \<Rightarrow> (nat \<times> nat) option \<times> Raft" where
  "leaderDisk_take s =
     (if \<not> r_exiting s \<and> state s = LEADER \<and> logSyncQueued s
      then (let (sync, l) = takeSync (rlog s)
            in (Some (currentTerm s, sync), s\<lparr>rlog := l, logSyncQueued := False, leaderDiskThreadWorking := True\<rparr>))
      else (None, s))"

definition leaderDisk_written :: "Raft \<Rightarrow> Raft" where
  "leaderDisk_written s = s\<lparr>leaderDiskThreadWorking := False\<rparr>"

definition leaderDisk_done :: "nat \<times> nat \<Rightarrow> Raft \<Rightarrow> Raft option" where
  "leaderDisk_done sync s =
     (if state s = LEADER \<and> currentTerm s = fst sync
      then advanceCommitIndex (s\<lparr>configuration := updateServer (localServer (configuration s))
             (\<lambda>sv. case kind sv of LocalServer _ \<Rightarrow> sv\<lparr>kind := LocalServer (snd sync)\<rparr> | Peer _ \<Rightarrow> sv)
             (configuration s)\<rparr>)
      else Some s)"

definition timerThread_iter :: "Raft \<Rightarrow> Raft option" where
  "timerThread_iter s0 =
     (if r_exiting s0 then Some s0
      else (let (now, s) = Clock_now s0 in
        if now \<ge> startElectionAt s then startNewElection s else Some s))"

datatype peerAction = PeerExit | PeerWait int | PeerRequestVote | PeerAppendEntries

definition peerThread_iter :: "nat \<Rightarrow> nat \<Rightarrow> Raft \<Rightarrow> peerAction \<times> Raft" where
  "peerThread_iter i incarnation s0 = (case findPeer i incarnation s0 of
     None \<Rightarrow> (PeerExit, notify_all (s0\<lparr>numPeerThreads := numPeerThreads s0 - 1\<rparr>))
   | Some p \<Rightarrow>
       if p_exiting p then (PeerExit, notify_all (s0\<lparr>numPeerThreads := numPeerThreads s0 - 1\<rparr>))
       else (let (now, s) = Clock_now s0 in
         if backoffUntil p > now then (PeerWait (backoffUntil p), s)
         else (case state s of
             FOLLOWER \<Rightarrow> (PeerWait timeMax, s)
           | CANDIDATE \<Rightarrow> (if \<not> requestVoteDone p then PeerRequestVote else PeerWait timeMax, s)
           | LEADER \<Rightarrow> (if matchIndex p < lastLog s \<or> nextHeartbeatTime p < now then PeerAppendEntries
                       else PeerWait (nextHeartbeatTime p), s))))"

text \<open>The step-down thread: waiting to be leader (with the time, term and epoch of a new round), and one
  evaluation of the inner loop of a round.\<close>

record StepDownRound =
  sdr_at :: int
  sdr_term :: nat
  sdr_epoch :: nat

definition stepDownThread_outer :: "Raft \<Rightarrow> StepDownRound option \<times> Raft" where
  "stepDownThread_outer s =
     (if r_exiting s \<or> state s \<noteq> LEADER then (None, s)
      else (let s1 = s\<lparr>currentEpoch := currentEpoch s + 1\<rparr> in
        if quorumMin (getLastAckEpoch (currentEpoch s1)) (configuration s1) < currentEpoch s1
        then (let (now, s2) = Clock_now s1 in
           (Some \<lparr>sdr_at = now + ELECTION_TIMEOUT (params s2), sdr_term = currentTerm s2,
                   sdr_epoch = currentEpoch s2\<rparr>, s2))
        else (None, s1)))"

text \<open>The first component says whether the round goes on.\<close>

definition stepDownThread_inner :: "StepDownRound \<Rightarrow> Raft \<Rightarrow> (bool \<times> Raft) option" where
  "stepDownThread_inner r s =
     (if r_exiting s then Some (False, s)
      else if currentTerm s > sdr_term r then Some (False, s)
      else if quorumMin (getLastAckEpoch (currentEpoch s)) (configuration s) \<ge> sdr_epoch r then Some (False, s)
      else (let (now, s1) = Clock_now s in
        if now \<ge> sdr_at r then do { s2 \<leftarrow> stepDown (currentTerm s1 + 1) s1; Some (False, s2) }
        else Some (True, s1)))"

record VersionIntersection =
  missingCount :: nat
  allCount :: nat
  vi_minVersion :: nat
  vi_maxVersion :: nat

definition stateMachineVersionIntersection :: "Configuration \<Rightarrow> VersionIntersection" where
  "stateMachineVersionIntersection c = fold (\<lambda>(i, sv) v.
     if haveStateMachineSupportedVersions sv
     then v\<lparr>allCount := allCount v + 1, vi_minVersion := max (minStateMachineVersion sv) (vi_minVersion v),
            vi_maxVersion := min (maxStateMachineVersion sv) (vi_maxVersion v)\<rparr>
     else v\<lparr>allCount := allCount v + 1, missingCount := missingCount v + 1\<rparr>)
     (knownServers c) \<lparr>missingCount = 0, allCount = 0, vi_minVersion = 0, vi_maxVersion = 2 ^ 16 - 1\<rparr>"

text \<open>One iteration of the state machine updater, with its two local variables. It either waits, or
  appends an entry for the version; \<open>serialize\<close> encodes the command that asks for a version.\<close>

datatype updaterAction = UpdaterWait int | UpdaterReplicate nat "(nat \<times> nat) option"

definition stateMachineUpdater_iter ::
  "(nat \<Rightarrow> string) \<Rightarrow> nat \<Rightarrow> int \<Rightarrow> Raft \<Rightarrow> (updaterAction \<times> Raft) option" where
  "stateMachineUpdater_iter serialize lastVersionCommitted backoff s0 =
     (let (now, s) = Clock_now s0;
          later = now + STATE_MACHINE_UPDATER_BACKOFF (params s) in
      if backoff \<le> now \<and> state s = LEADER then
        (let v = stateMachineVersionIntersection (configuration s) in
         if missingCount v = 0 then
           (if vi_minVersion v > vi_maxVersion v then Some (UpdaterWait later, s)
            else if vi_maxVersion v > lastVersionCommitted then do {
              (t, s1) \<leftarrow> leaderStamp s;
              (w, s2) \<leftarrow> replicateEntry_begin \<lparr>le_term = currentTerm s1, le_index = None, le_cluster_time = t,
                 le_type = DATA_ENTRY, le_configuration = emptyConfigurationDesc,
                 le_data = serialize (vi_maxVersion v)\<rparr> s1;
              Some (UpdaterReplicate (vi_maxVersion v) w, s2) }
            else Some (UpdaterWait backoff, s))
         else Some (UpdaterWait later, s))
      else Some (UpdaterWait backoff, s))"

end
