(* ===== verification/LC_RaftEvolve.thy ===== *)
theory LC_RaftEvolve
  imports LC_RaftConf LC_RaftThreads
begin

text \<open>
  The invariant of one server and how its operations may change its state: the checks of
  \<^verbatim>\<open>src/Server/RaftConsensusInvariants.cc\<close> that concern terms, votes, leaders, the commit index and the
  metadata on disk. \<open>evolve s s'\<close> holds when a step from \<open>s\<close> to \<open>s'\<close> keeps the invariant, lets the
  monotone variables grow only, sets vote and leader at most once per term, does not make the
  server a candidate or leader, lets a leader give up its role only together with its term, and
  does not follow a new leader. \<open>hears\<close> is the weaker relation for messages from a leader.
\<close>

section \<open>The invariant of a server\<close>

text \<open>Term and vote are on disk.\<close>

definition persisted :: "Raft \<Rightarrow> bool" where
  "persisted s \<longleftrightarrow> metadata (rlog s) = \<lparr>md_current_term = Some (currentTerm s), md_voted_for = Some (votedFor s)\<rparr>"

definition server_ok :: "Raft \<Rightarrow> bool" where
  "server_ok s \<longleftrightarrow> serverId s \<noteq> 0 \<and> persisted s \<and> log_inv (rlog s) \<and> conf_wf (serverId s) (configuration s) \<and>
     (state s = LEADER \<longrightarrow> leaderId s = serverId s \<and> votedFor s = serverId s) \<and>
     (state s = CANDIDATE \<longrightarrow> leaderId s = 0 \<and> votedFor s = serverId s)"

text \<open>\<^verbatim>\<open>Invariants::checkDelta\<close>, apart from the notifications and the rule for leaders.\<close>

definition delta :: "Raft \<Rightarrow> Raft \<Rightarrow> bool" where
  "delta s s' \<longleftrightarrow> serverId s' = serverId s \<and> currentTerm s \<le> currentTerm s' \<and>
     commitIndex s \<le> commitIndex s' \<and> currentEpoch s \<le> currentEpoch s' \<and> (r_exiting s \<longrightarrow> r_exiting s') \<and>
     (currentTerm s' = currentTerm s \<longrightarrow>
        (votedFor s \<noteq> 0 \<longrightarrow> votedFor s' = votedFor s) \<and> (leaderId s \<noteq> 0 \<longrightarrow> leaderId s' = leaderId s))"

definition evolve :: "Raft \<Rightarrow> Raft \<Rightarrow> bool" where
  "evolve s s' \<longleftrightarrow> (server_ok s \<longrightarrow> server_ok s' \<and> delta s s' \<and>
     (state s' \<noteq> FOLLOWER \<longrightarrow> state s' = state s \<and> currentTerm s' = currentTerm s) \<and>
     voters (configuration s') \<subseteq> voters (configuration s) \<and>
     (leaderId s' = 0 \<or> leaderId s' = leaderId s \<and> currentTerm s' = currentTerm s) \<and>
     (state s = LEADER \<longrightarrow> currentTerm s' = currentTerm s \<longrightarrow> state s' = LEADER))"

definition hears :: "nat \<Rightarrow> nat \<Rightarrow> Raft \<Rightarrow> Raft \<Rightarrow> bool" where
  "hears t l s s' \<longleftrightarrow> (server_ok s \<longrightarrow> server_ok s' \<and> delta s s' \<and>
     (state s' \<noteq> FOLLOWER \<longrightarrow> state s' = state s \<and> currentTerm s' = currentTerm s) \<and>
     voters (configuration s') \<subseteq> voters (configuration s) \<and>
     (leaderId s' = 0 \<or> leaderId s' = leaderId s \<and> currentTerm s' = currentTerm s \<or>
      leaderId s' = l \<and> currentTerm s' = t) \<and>
     (state s = LEADER \<longrightarrow> currentTerm s' = currentTerm s \<longrightarrow> state s' = LEADER \<or> currentTerm s' = t))"

lemma delta_refl [simp, intro]: "delta s s"
  by (simp add: delta_def)

lemma delta_trans: "delta s s' \<Longrightarrow> delta s' s'' \<Longrightarrow> delta s s''"
  unfolding delta_def by (intro conjI impI; elim conjE) (auto simp: le_antisym intro: order_trans)

lemma evolve_refl [simp, intro]: "evolve s s"
  by (simp add: evolve_def)

lemma evolve_trans: "evolve s s' \<Longrightarrow> evolve s' s'' \<Longrightarrow> evolve s s''"
proof -
  assume a: "evolve s s'" "evolve s' s''"
  show ?thesis unfolding evolve_def
  proof (intro impI)
    assume ok: "server_ok s"
    have b: "server_ok s'" "delta s s'" "state s' \<noteq> FOLLOWER \<longrightarrow> state s' = state s \<and> currentTerm s' = currentTerm s"
      "voters (configuration s') \<subseteq> voters (configuration s)"
      "leaderId s' = 0 \<or> leaderId s' = leaderId s \<and> currentTerm s' = currentTerm s"
      "state s = LEADER \<longrightarrow> currentTerm s' = currentTerm s \<longrightarrow> state s' = LEADER"
      using a(1) ok unfolding evolve_def by blast+
    have c: "server_ok s''" "delta s' s''" "state s'' \<noteq> FOLLOWER \<longrightarrow> state s'' = state s' \<and> currentTerm s'' = currentTerm s'"
      "voters (configuration s'') \<subseteq> voters (configuration s')"
      "leaderId s'' = 0 \<or> leaderId s'' = leaderId s' \<and> currentTerm s'' = currentTerm s'"
      "state s' = LEADER \<longrightarrow> currentTerm s'' = currentTerm s' \<longrightarrow> state s'' = LEADER"
      using a(2) b(1) unfolding evolve_def by blast+
    have "currentTerm s \<le> currentTerm s'" "currentTerm s' \<le> currentTerm s''" using b(2) c(2) by (auto simp: delta_def)
    then have m: "currentTerm s'' = currentTerm s \<Longrightarrow> currentTerm s' = currentTerm s" by simp
    have "state s'' \<noteq> FOLLOWER \<longrightarrow> state s'' = state s \<and> currentTerm s'' = currentTerm s" using b(3) c(3) by auto
    moreover have "leaderId s'' = 0 \<or> leaderId s'' = leaderId s \<and> currentTerm s'' = currentTerm s" using b(5) c(5) by auto
    moreover have "state s = LEADER \<longrightarrow> currentTerm s'' = currentTerm s \<longrightarrow> state s'' = LEADER" using b(6) c(6) m by auto
    ultimately show "server_ok s'' \<and> delta s s'' \<and>
       (state s'' \<noteq> FOLLOWER \<longrightarrow> state s'' = state s \<and> currentTerm s'' = currentTerm s) \<and>
       voters (configuration s'') \<subseteq> voters (configuration s) \<and>
       (leaderId s'' = 0 \<or> leaderId s'' = leaderId s \<and> currentTerm s'' = currentTerm s) \<and>
       (state s = LEADER \<longrightarrow> currentTerm s'' = currentTerm s \<longrightarrow> state s'' = LEADER)"
      using c(1) delta_trans [OF b(2) c(2)] subset_trans [OF c(4) b(4)] by blast
  qed
qed

lemma hears_evolve: "evolve s s' \<Longrightarrow> hears t l s s'"
  unfolding evolve_def hears_def by blast

lemma hears_trans:
  assumes a: "hears t l s s'" "evolve s' s''"
  shows "hears t l s s''"
  unfolding hears_def
proof (intro impI)
  assume ok: "server_ok s"
  have b: "server_ok s'" "delta s s'" "state s' \<noteq> FOLLOWER \<longrightarrow> state s' = state s \<and> currentTerm s' = currentTerm s"
    "voters (configuration s') \<subseteq> voters (configuration s)"
    "leaderId s' = 0 \<or> leaderId s' = leaderId s \<and> currentTerm s' = currentTerm s \<or> leaderId s' = l \<and> currentTerm s' = t"
    "state s = LEADER \<longrightarrow> currentTerm s' = currentTerm s \<longrightarrow> state s' = LEADER \<or> currentTerm s' = t"
    using a(1) ok unfolding hears_def by blast+
  have c: "server_ok s''" "delta s' s''" "state s'' \<noteq> FOLLOWER \<longrightarrow> state s'' = state s' \<and> currentTerm s'' = currentTerm s'"
    "voters (configuration s'') \<subseteq> voters (configuration s')"
    "leaderId s'' = 0 \<or> leaderId s'' = leaderId s' \<and> currentTerm s'' = currentTerm s'"
    "state s' = LEADER \<longrightarrow> currentTerm s'' = currentTerm s' \<longrightarrow> state s'' = LEADER"
    using a(2) b(1) unfolding evolve_def by blast+
  have "currentTerm s \<le> currentTerm s'" "currentTerm s' \<le> currentTerm s''" using b(2) c(2) by (auto simp: delta_def)
  then have "currentTerm s'' = currentTerm s \<Longrightarrow> currentTerm s' = currentTerm s" by simp
  then have "state s = LEADER \<longrightarrow> currentTerm s'' = currentTerm s \<longrightarrow> state s'' = LEADER \<or> currentTerm s'' = t"
    using b(6) c(6) by auto
  moreover have "state s'' \<noteq> FOLLOWER \<longrightarrow> state s'' = state s \<and> currentTerm s'' = currentTerm s" using b(3) c(3) by auto
  moreover have "leaderId s'' = 0 \<or> leaderId s'' = leaderId s \<and> currentTerm s'' = currentTerm s \<or>
      leaderId s'' = l \<and> currentTerm s'' = t" using b(5) c(5) by auto
  ultimately show "server_ok s'' \<and> delta s s'' \<and>
     (state s'' \<noteq> FOLLOWER \<longrightarrow> state s'' = state s \<and> currentTerm s'' = currentTerm s) \<and>
     voters (configuration s'') \<subseteq> voters (configuration s) \<and>
     (leaderId s'' = 0 \<or> leaderId s'' = leaderId s \<and> currentTerm s'' = currentTerm s \<or>
      leaderId s'' = l \<and> currentTerm s'' = t) \<and>
     (state s = LEADER \<longrightarrow> currentTerm s'' = currentTerm s \<longrightarrow> state s'' = LEADER \<or> currentTerm s'' = t)"
    using c(1) delta_trans [OF b(2) c(2)] subset_trans [OF c(4) b(4)] by blast
qed

text \<open>A step that leaves the variables of the invariant alone.\<close>

lemma evolve_frame:
  assumes "serverId s' = serverId s" "currentTerm s' = currentTerm s" "votedFor s' = votedFor s"
    "leaderId s' = leaderId s" "state s' = state s" "commitIndex s \<le> commitIndex s'"
    "currentEpoch s \<le> currentEpoch s'" "r_exiting s \<Longrightarrow> r_exiting s'"
    "metadata (rlog s') = metadata (rlog s)" "log_inv (rlog s) \<Longrightarrow> log_inv (rlog s')"
    "conf_wf (serverId s) (configuration s) \<Longrightarrow> conf_wf (serverId s) (configuration s') \<and>
       voters (configuration s') \<subseteq> voters (configuration s)"
  shows "evolve s s'"
  using assms by (auto simp: evolve_def server_ok_def delta_def persisted_def)

lemma evolve_same_conf:
  assumes "serverId s' = serverId s" "currentTerm s' = currentTerm s" "votedFor s' = votedFor s"
    "leaderId s' = leaderId s" "state s' = state s" "commitIndex s \<le> commitIndex s'"
    "currentEpoch s \<le> currentEpoch s'" "r_exiting s \<Longrightarrow> r_exiting s'"
    "metadata (rlog s') = metadata (rlog s)" "log_inv (rlog s) \<Longrightarrow> log_inv (rlog s')"
    "configuration s' = configuration s"
  shows "evolve s s'"
  using assms by (intro evolve_frame) simp_all

lemma evolve_keeps: "keeps s s' \<Longrightarrow> evolve s s'"
  by (rule evolve_frame) (auto simp: keeps_def conf_only_frame)

section \<open>The basic operations\<close>

lemma takeSync_frame [simp]:
  "metadata (snd (takeSync l)) = metadata l" "startIndex (snd (takeSync l)) = startIndex l"
  "entries (snd (takeSync l)) = entries l"
  by (simp_all add: takeSync_def)

lemma log_inv_ops:
  "log_inv (snd (takeSync l)) = log_inv l" "log_inv (snd (log_append l es)) = log_inv l"
  "log_inv l \<Longrightarrow> log_inv (log_truncatePrefix l i)" "log_inv (log_truncateSuffix l i) = log_inv l"
  by (auto simp: log_inv_def log_append_def Let_def log_truncatePrefix_def log_truncateSuffix_def)

lemma metadata_ops:
  "metadata (snd (log_append l es)) = metadata l" "metadata (log_truncatePrefix l i) = metadata l"
  "metadata (log_truncateSuffix l i) = metadata l"
  by (simp_all add: log_append_def Let_def log_truncatePrefix_def log_truncateSuffix_def)

lemmas basic_defs = Clock_now_def notify_all_def interruptAll_def syncLog_def syncLater_def newEpoch_def Let_def

lemma evolve_basic:
  "evolve s (notify_all s)" "evolve s (snd (Clock_now s))" "evolve s (interruptAll s)"
  "evolve s (syncLog s)" "evolve s (syncLater s)" "evolve s (newEpoch ct s)" "evolve s (setElectionTimer s)"
  by (rule evolve_same_conf; simp add: basic_defs setElectionTimer_def log_inv_ops)+

lemma evolve_leaderStamp: "leaderStamp s = Some (t, s') \<Longrightarrow> evolve s s'"
  by (rule evolve_same_conf) (auto simp: leaderStamp_def Clock_now_def Let_def split: if_splits)

lemma evolve_addConfigurations: "evolve s (addConfigurations i es s)"
  by (rule evolve_keeps [OF keeps_addConfigurations])

lemma evolve_raft_append:
  assumes "raft_append es s = Some s'"
  shows "evolve s s'"
proof -
  obtain i l where s': "s' = notify_all (addConfigurations i es (syncLater (s\<lparr>rlog := l\<rparr>)))"
    "l = snd (log_append (rlog s) es)"
    using assms by (auto simp: raft_append_def Let_def split: if_splits prod.splits)
  have "evolve s (s\<lparr>rlog := l\<rparr>)" by (rule evolve_same_conf) (simp_all add: s'(2) log_inv_ops metadata_ops)
  then show ?thesis unfolding s'(1)
    by (intro evolve_trans [OF _ evolve_basic(1)] evolve_trans [OF _ evolve_addConfigurations]
        evolve_trans [OF _ evolve_basic(5)])
qed

text \<open>The local part of \<open>stepDown\<close> in a new term.\<close>

lemma evolve_newTerm:
  assumes "currentTerm s < t"
  shows "evolve s ((resetStagingServers (updateLogMetadata (s\<lparr>currentTerm := t, leaderId := 0, votedFor := 0\<rparr>)))
              \<lparr>snapshotWriter := None, state := FOLLOWER\<rparr>)"
proof -
  define a where "a = updateLogMetadata (s\<lparr>currentTerm := t, leaderId := 0, votedFor := 0\<rparr>)"
  define b where "b = resetStagingServers a"
  have k: "keeps a b" unfolding b_def by (rule keeps_resetStagingServers)
  then have co: "conf_only a b" by (simp add: keeps_def)
  have a: "serverId a = serverId s" "configuration a = configuration s" "currentTerm a = t" "votedFor a = 0"
    "leaderId a = 0" "commitIndex a = commitIndex s" "currentEpoch a = currentEpoch s" "r_exiting a = r_exiting s"
    "persisted a" "log_inv (rlog a) = log_inv (rlog s)"
    by (simp_all add: a_def updateLogMetadata_def persisted_def log_inv_def)
  have f: "serverId b = serverId s" "currentTerm b = t" "votedFor b = 0" "leaderId b = 0"
    "commitIndex b = commitIndex s" "currentEpoch b = currentEpoch s" "r_exiting b = r_exiting s" "rlog b = rlog a"
    using a by (simp_all add: conf_only_frame [OF co])
  have p: "persisted b" using a f by (simp add: persisted_def)
  have "evolve s (b\<lparr>snapshotWriter := None, state := FOLLOWER\<rparr>)"
    using assms f k p a(1,2,10) by (auto simp: evolve_def server_ok_def delta_def keeps_def persisted_def)
  then show ?thesis by (simp add: a_def b_def)
qed

lemma evolve_follower: "state s \<noteq> LEADER \<Longrightarrow> evolve s (s\<lparr>state := FOLLOWER\<rparr>)"
  by (simp add: evolve_def server_ok_def delta_def persisted_def)

lemma hears_follower: "currentTerm s = t \<Longrightarrow> hears t l s (s\<lparr>state := FOLLOWER\<rparr>)"
  by (simp add: hears_def server_ok_def delta_def persisted_def)

lemma stepDown_steps:
  assumes "stepDown t s = Some s'"
  obtains s1 where "s1 = (if currentTerm s < t
       then (resetStagingServers (updateLogMetadata (s\<lparr>currentTerm := t, leaderId := 0, votedFor := 0\<rparr>)))
              \<lparr>snapshotWriter := None, state := FOLLOWER\<rparr>
       else s\<lparr>state := FOLLOWER\<rparr>)" "evolve s1 s'"
proof -
  define s1 where "s1 = (if currentTerm s < t
       then (resetStagingServers (updateLogMetadata (s\<lparr>currentTerm := t, leaderId := 0, votedFor := 0\<rparr>)))
              \<lparr>snapshotWriter := None, state := FOLLOWER\<rparr>
       else s\<lparr>state := FOLLOWER\<rparr>)"
  define s2 where "s2 = (if startElectionAt s1 = timeMax then setElectionTimer s1 else s1)"
  define s3 where "s3 = (if withholdVotesUntil s2 = timeMax then s2\<lparr>withholdVotesUntil := timeMin\<rparr> else s2)"
  define s4 where "s4 = (interruptAll s3)\<lparr>leaderDiskThreadWorking := False\<rparr>"
  have s': "s' = (if logSyncQueued s4 then (syncLog s4)\<lparr>logSyncQueued := False\<rparr> else s4)"
    using assms unfolding stepDown_def s4_def s3_def s2_def s1_def Let_def by (simp split: if_splits)
  have "evolve s1 s2" using evolve_basic(7) by (simp add: s2_def)
  moreover have "evolve s2 s'"
    by (rule evolve_same_conf) (simp_all add: s' s4_def s3_def basic_defs log_inv_ops)
  ultimately show ?thesis using that [OF s1_def] evolve_trans by blast
qed

lemma evolve_stepDown:
  assumes "stepDown t s = Some s'" "currentTerm s < t \<or> state s \<noteq> LEADER"
  shows "evolve s s'"
  using stepDown_steps [OF assms(1)]
proof (cases)
  case (1 s1)
  have "evolve s s1" using assms(2) evolve_newTerm evolve_follower by (auto simp: 1(1))
  then show ?thesis using 1(2) evolve_trans by blast
qed

lemma hears_stepDown:
  assumes "stepDown t s = Some s'"
  shows "hears t l s s'"
  using stepDown_steps [OF assms(1)]
proof (cases)
  case (1 s1)
  have "currentTerm s \<le> t" using assms by (auto simp: stepDown_def split: if_splits)
  then have "hears t l s s1" using hears_evolve [OF evolve_newTerm] hears_follower by (auto simp: 1(1))
  then show ?thesis using 1(2) hears_trans by blast
qed

lemma stepDown_result:
  assumes "stepDown t s = Some s'"
  shows "currentTerm s' = t" "state s' = FOLLOWER" "currentTerm s \<le> t"
    "currentTerm s < t \<Longrightarrow> leaderId s' = 0 \<and> votedFor s' = 0"
    "currentTerm s = t \<Longrightarrow> leaderId s' = leaderId s \<and> votedFor s' = votedFor s"
  using assms by (auto simp: stepDown_def basic_defs setElectionTimer_def frame_simps updateLogMetadata_def
      split: if_splits)

lemma stepDown_frame:
  assumes "stepDown t s = Some s'"
  shows "entries (rlog s') = entries (rlog s)" "startIndex (rlog s') = startIndex (rlog s)"
    "commitIndex s' = commitIndex s" "lastSnapshotIndex s' = lastSnapshotIndex s"
    "lastSnapshotTerm s' = lastSnapshotTerm s" "r_exiting s' = r_exiting s"
  using assms by (auto simp: stepDown_def basic_defs setElectionTimer_def frame_simps updateLogMetadata_def
      split: if_splits)

text \<open>Stepping down never fails for a term that is not in the past.\<close>

lemma stepDown_total: "currentTerm s \<le> t \<Longrightarrow> \<exists>s'. stepDown t s = Some s'"
  by (simp add: stepDown_def Let_def)

end
