(* ===== verification/LC_RaftSteps.thy ===== *)
theory LC_RaftSteps
  imports LC_RaftEvolve
begin

text \<open>
  Every operation of the consensus module, apart from starting an election and receiving votes,
  is an \<open>evolve\<close> step, or a \<open>hears\<close> step when it is a message from a leader.
\<close>

section \<open>Private operations\<close>

lemma conf_wf_updateServer:
  assumes "conf_wf sid c" "\<And>sv. srv_id (f sv) = srv_id sv \<and> is_local (f sv) = is_local sv"
  shows "conf_wf sid (updateServer i f c)"
  using assms known_wf_updateServer [of sid c f i] by (simp add: conf_wf_def)

lemma evolve_updateServer:
  assumes "\<And>sv. srv_id (f sv) = srv_id sv \<and> is_local (f sv) = is_local sv"
    "\<And>sv p'. kind (f sv) = Peer p' \<Longrightarrow> p_haveVote p' \<Longrightarrow> \<exists>p. kind sv = Peer p \<and> p_haveVote p"
  shows "evolve s (s\<lparr>configuration := updateServer i f (configuration s)\<rparr>)"
  using conf_wf_updateServer [OF _ assms(1)] voters_updateServer [of f, OF assms(2)]
  by (intro evolve_frame) auto

lemma evolve_updatePeer:
  assumes "\<And>p. p_haveVote (f p) \<Longrightarrow> p_haveVote p"
  shows "evolve s (updatePeer i inc f s)"
  unfolding updatePeer_def
  by (rule evolve_updateServer)
    (use assms in \<open>auto simp: is_local_def split: ServerKind.splits if_splits\<close>)

lemma evolve_commit: "n \<ge> commitIndex s \<Longrightarrow> evolve s (s\<lparr>commitIndex := n\<rparr>)"
  by (rule evolve_same_conf) simp_all

lemma evolve_advanceCommitIndex:
  assumes "advanceCommitIndex s = Some s'"
  shows "evolve s s'"
proof -
  let ?n = "quorumMin getMatchIndex (configuration s)"
  let ?s2 = "notify_all (s\<lparr>commitIndex := ?n\<rparr>)"
  have e2: "evolve s ?s2" if "commitIndex s < ?n"
    using that by (intro evolve_trans [OF evolve_commit evolve_basic(1)]) simp
  have "s' = s \<or> commitIndex s < ?n \<and> (s' = ?s2 \<or> stepDown (currentTerm ?s2 + 1) ?s2 = Some s' \<or>
      (\<exists>es t s3. leaderStamp ?s2 = Some (t, s3) \<and> raft_append es s3 = Some s'))"
    using assms unfolding advanceCommitIndex_def Let_def
    by (auto simp: not_le split: if_splits elim!: bind_SomeE)
  then show ?thesis
  proof (elim disjE conjE exE)
    assume n: "commitIndex s < ?n" and st: "stepDown (currentTerm ?s2 + 1) ?s2 = Some s'"
    show ?thesis by (rule evolve_trans [OF e2 [OF n] evolve_stepDown [OF st]]) simp
  next
    fix es t s3
    assume n: "commitIndex s < ?n" and st: "leaderStamp ?s2 = Some (t, s3)" "raft_append es s3 = Some s'"
    show ?thesis
      using evolve_trans [OF evolve_trans [OF e2 [OF n] evolve_leaderStamp [OF st(1)]] evolve_raft_append [OF st(2)]] .
  qed (use e2 in simp_all)
qed

lemma evolve_discardUnneededEntries: "evolve s (discardUnneededEntries s)"
proof -
  let ?s1 = "s\<lparr>rlog := log_truncatePrefix (rlog s) (lastSnapshotIndex s + 1)\<rparr>"
  have "evolve s ?s1" by (rule evolve_same_conf) (simp_all add: log_inv_ops metadata_ops)
  then have "evolve s (syncLater (notify_all (cm_truncatePrefix (lastSnapshotIndex ?s1 + 1) ?s1)))"
    by (intro evolve_trans [OF _ evolve_basic(5)] evolve_trans [OF _ evolve_basic(1)]
        evolve_trans [OF _ evolve_keeps [OF keeps_cm_truncatePrefix]])
  then show ?thesis by (simp add: discardUnneededEntries_def)
qed

text \<open>Dropping a log that does not agree with the snapshot.\<close>

definition dropLog :: "Raft \<Rightarrow> Raft" where
  "dropLog s1 = (let a = s1\<lparr>rlog := log_truncateSuffix
        (log_truncatePrefix (rlog s1) (lastSnapshotIndex s1 + 1)) (lastSnapshotIndex s1)\<rparr>;
      b = cm_truncateSuffix (lastSnapshotIndex a) (cm_truncatePrefix (lastSnapshotIndex a + 1) a)
    in newEpoch (lastSnapshotClusterTime b) (syncLater b))"

lemma evolve_dropLog: "evolve s (dropLog s)"
  unfolding dropLog_def Let_def
  by (intro evolve_trans [OF _ evolve_basic(6)] evolve_trans [OF _ evolve_basic(5)]
      evolve_trans [OF _ evolve_keeps [OF keeps_cm_truncateSuffix]]
      evolve_trans [OF _ evolve_keeps [OF keeps_cm_truncatePrefix]] evolve_same_conf)
    (simp_all add: log_inv_ops metadata_ops)

text \<open>The state after the header of a snapshot was read.\<close>

definition loadHeader :: "SnapshotHeader \<Rightarrow> Reader \<Rightarrow> Raft \<Rightarrow> Raft" where
  "loadHeader header r s0 = s0\<lparr>lastSnapshotIndex := last_included_index header,
     lastSnapshotTerm := last_included_term header, lastSnapshotClusterTime := last_cluster_time header,
     lastSnapshotBytes := reader_getSizeBytes r, commitIndex := max (last_included_index header) (commitIndex s0)\<rparr>"

lemma evolve_loadHeader: "evolve s (loadHeader h r s)"
  by (rule evolve_same_conf) (simp_all add: loadHeader_def)

lemma readSnapshot_cases:
  assumes "readSnapshot pb s0 = Some s'"
  obtains (no_file) "snapshotOnDisk s0 = None" "s' = s0\<lparr>snapshotReader := None\<rparr>" "logStart s0 \<le> lastSnapshotIndex s0 + 1"
  | (loaded) f h r d s1 s2 s4 where "snapshotOnDisk s0 = Some f" "openSnapshot pb f = Some (h, r)"
      "lastSnapshotIndex s0 \<le> last_included_index h" "s1 = loadHeader h r s0"
      "s2 = (if d then dropLog s1 else s1)"
      "d \<longrightarrow> lastLog s1 < lastSnapshotIndex s1 \<or>
        (\<exists>e. getEntry (rlog s1) (lastSnapshotIndex s1) = Some e \<and> le_term e \<noteq> lastSnapshotTerm s1)"
      "\<not> d \<longrightarrow> lastSnapshotIndex s1 \<le> lastLog s1 \<and> (lastSnapshotIndex s1 < logStart s1 \<or>
        (\<exists>e. getEntry (rlog s1) (lastSnapshotIndex s1) = Some e \<and> le_term e = lastSnapshotTerm s1))"
      "s4 = discardUnneededEntries s2 \<or> (\<exists>i c. cm_setSnapshot i c (discardUnneededEntries s2) = Some s4)"
      "s' = (notify_all s4)\<lparr>snapshotReader := Some r\<rparr>" "logStart s' \<le> lastSnapshotIndex s' + 1"
proof (cases "snapshotOnDisk s0")
  case None
  then have "s' = s0\<lparr>snapshotReader := None\<rparr>" "logStart s0 \<le> lastSnapshotIndex s0 + 1"
    using assms by (auto simp: readSnapshot_def split: if_splits)
  with None show ?thesis by (rule no_file)
next
  case (Some f)
  obtain h r where op: "openSnapshot pb f = Some (h, r)" and le: "lastSnapshotIndex s0 \<le> last_included_index h"
    using assms Some by (auto simp: readSnapshot_def split: if_splits elim!: bind_SomeE)
  let ?s1 = "loadHeader h r s0"
  obtain d s4 where
    d: "(if lastLog ?s1 < lastSnapshotIndex ?s1 then Some True
                     else if logStart ?s1 \<le> lastSnapshotIndex ?s1 then
                       map_option (\<lambda>e. le_term e \<noteq> lastSnapshotTerm ?s1) (getEntry (rlog ?s1) (lastSnapshotIndex ?s1))
                     else Some False) = Some d"
    and s4: "(case (sh_configuration_index h, sh_configuration h) of
                  (Some i, Some c) \<Rightarrow> cm_setSnapshot i c (discardUnneededEntries (if d then dropLog ?s1 else ?s1))
                | _ \<Rightarrow> Some (discardUnneededEntries (if d then dropLog ?s1 else ?s1))) = Some s4"
    and fin: "logStart (notify_all s4) \<le> lastSnapshotIndex (notify_all s4) + 1"
    and s': "s' = (notify_all s4)\<lparr>snapshotReader := Some r\<rparr>"
    using assms Some op le unfolding readSnapshot_def loadHeader_def [symmetric] Let_def dropLog_def
    by (auto split: if_splits elim!: bind_SomeE)
  have "d \<longrightarrow> lastLog ?s1 < lastSnapshotIndex ?s1 \<or>
        (\<exists>e. getEntry (rlog ?s1) (lastSnapshotIndex ?s1) = Some e \<and> le_term e \<noteq> lastSnapshotTerm ?s1)"
    and "\<not> d \<longrightarrow> lastSnapshotIndex ?s1 \<le> lastLog ?s1 \<and> (lastSnapshotIndex ?s1 < logStart ?s1 \<or>
        (\<exists>e. getEntry (rlog ?s1) (lastSnapshotIndex ?s1) = Some e \<and> le_term e = lastSnapshotTerm ?s1))"
    using d by (auto split: if_splits)
  moreover have "s4 = discardUnneededEntries (if d then dropLog ?s1 else ?s1) \<or>
      (\<exists>i c. cm_setSnapshot i c (discardUnneededEntries (if d then dropLog ?s1 else ?s1)) = Some s4)"
    using s4 by (auto split: option.splits)
  moreover have "logStart s' \<le> lastSnapshotIndex s' + 1" using fin by (simp add: s')
  ultimately show ?thesis using loaded [OF Some op le refl refl, of d s4] s' by blast
qed

lemma evolve_readSnapshot:
  assumes "readSnapshot pb s0 = Some s'"
  shows "evolve s0 s'"
  using assms
proof (cases rule: readSnapshot_cases)
  case no_file
  then show ?thesis by (auto intro: evolve_same_conf)
next
  case (loaded f h r d s1 s2 s4)
  have "evolve s0 s2" 
    using loaded(4,5) evolve_loadHeader evolve_trans [OF evolve_loadHeader evolve_dropLog] by (cases d) simp_all
  moreover have "evolve s2 s4"
    using loaded(8) evolve_discardUnneededEntries keeps_cm_setSnapshot evolve_keeps evolve_trans by blast
  moreover have "evolve s4 s'" unfolding loaded(9)
    by (rule evolve_same_conf) (simp_all add: notify_all_def)
  ultimately show ?thesis using evolve_trans by blast
qed

section \<open>Handlers of requests\<close>

lemma evolve_Clock: "Clock_now s = (t, s') \<Longrightarrow> evolve s s'"
  using evolve_basic(2) [of s] by simp

lemma evolve_vote:
  assumes "state a = FOLLOWER" "votedFor a = 0"
  shows "evolve a (updateLogMetadata ((setElectionTimer a)\<lparr>votedFor := v\<rparr>))"
  using assms by (auto simp: evolve_def server_ok_def delta_def persisted_def updateLogMetadata_def
      setElectionTimer_def basic_defs log_inv_def)

text \<open>The comparison of logs, and the three outcomes of a request for a vote.\<close>

definition logIsOk :: "RequestVoteRequest \<Rightarrow> nat \<Rightarrow> nat \<Rightarrow> bool" where
  "logIsOk req lastTerm lastIndex \<longleftrightarrow> rv_last_log_term req > lastTerm \<or>
     (rv_last_log_term req = lastTerm \<and> rv_last_log_index req \<ge> lastIndex)"

lemma handleRequestVote_cases:
  assumes "handleRequestVote req s0 = Some (resp, s')"
  obtains (withheld) "s' = snd (Clock_now s0)" "\<not> rvr_granted resp"
  | (refused) s2 where "s2 = snd (Clock_now s0) \<or>
        currentTerm s0 < rv_term req \<and> stepDown (rv_term req) (snd (Clock_now s0)) = Some s2" "s' = s2"
      "rvr_granted resp \<longleftrightarrow> rv_term req = currentTerm s' \<and> votedFor s' = rv_server_id req"
      "rv_term req \<noteq> currentTerm s2 \<or> votedFor s2 \<noteq> 0 \<or> (\<exists>t. getLastLogTerm s0 = Some t \<and> \<not> logIsOk req t (lastLog s0))"
  | (granted) s2 a t where "s2 = snd (Clock_now s0) \<or>
        currentTerm s0 < rv_term req \<and> stepDown (rv_term req) (snd (Clock_now s0)) = Some s2"
      "rv_term req = currentTerm s2" "votedFor s2 = 0" "stepDown (currentTerm s2) s2 = Some a"
      "s' = updateLogMetadata ((setElectionTimer a)\<lparr>votedFor := rv_server_id req\<rparr>)"
      "getLastLogTerm s0 = Some t" "logIsOk req t (lastLog s0)"
      "rvr_granted resp \<longleftrightarrow> rv_term req = currentTerm s' \<and> votedFor s' = rv_server_id req"
proof -
  obtain now s1 where c: "Clock_now s0 = (now, s1)" by fastforce
  obtain t where t: "getLastLogTerm s0 = Some t"
    using assms by (auto simp: handleRequestVote_def Let_def split: if_splits elim!: bind_SomeE)
  show ?thesis
  proof (cases "withholdVotesUntil s1 > now")
    case True
    then have "s' = s1" "\<not> rvr_granted resp"
      using assms c t unfolding handleRequestVote_def by (auto simp: Let_def split: if_splits)
    then show ?thesis using withheld c by simp
  next
    case False
    obtain s2 where s2: "(if rv_term req > currentTerm s1 then stepDown (rv_term req) s1 else Some s1) = Some s2"
      and s3: "(if rv_term req = currentTerm s2 \<and> logIsOk req t (lastLog s0) \<and> votedFor s2 = 0 then do {
                a \<leftarrow> stepDown (currentTerm s2) s2;
                Some (updateLogMetadata ((setElectionTimer a)\<lparr>votedFor := rv_server_id req\<rparr>)) }
              else Some s2) = Some s'"
      and g: "rvr_granted resp \<longleftrightarrow> rv_term req = currentTerm s' \<and> votedFor s' = rv_server_id req"
      using assms c t False unfolding handleRequestVote_def Let_def logIsOk_def
      by (simp add: not_less del: bind_eq_Some_conv split: if_splits) (auto elim!: bind_SomeE)
    have s2': "s2 = snd (Clock_now s0) \<or>
        currentTerm s0 < rv_term req \<and> stepDown (rv_term req) (snd (Clock_now s0)) = Some s2"
      using s2 c by (auto simp: Clock_now_def split: if_splits)
    show ?thesis
    proof (cases "rv_term req = currentTerm s2 \<and> logIsOk req t (lastLog s0) \<and> votedFor s2 = 0")
      case True
      then obtain a where "stepDown (currentTerm s2) s2 = Some a"
        "s' = updateLogMetadata ((setElectionTimer a)\<lparr>votedFor := rv_server_id req\<rparr>)"
        using s3 by (auto elim: bind_SomeE)
      then show ?thesis using granted [OF s2' _ _ _ _ t] True g by blast
    next
      case False
      then have eq: "s' = s2" using s3 by (simp only: if_False option.inject)
      show ?thesis by (rule refused [OF s2' eq g]) (use False t in auto)
    qed
  qed
qed

lemma evolve_maybe_stepDown:
  assumes "s2 = snd (Clock_now s0) \<or> currentTerm s0 < t \<and> stepDown t (snd (Clock_now s0)) = Some s2"
  shows "evolve s0 s2"
  using assms
proof (elim disjE conjE)
  assume "currentTerm s0 < t" "stepDown t (snd (Clock_now s0)) = Some s2"
  then show ?thesis
    using evolve_trans [OF evolve_basic(2) evolve_stepDown, of t s0 s2] by (simp add: Clock_now_def)
qed (simp add: evolve_basic(2))

lemma evolve_handleRequestVote:
  assumes "handleRequestVote req s0 = Some (resp, s')"
  shows "evolve s0 s'"
proof (cases "server_ok s0")
  case ok: True
  show ?thesis using assms
  proof (cases rule: handleRequestVote_cases)
    case withheld
    then show ?thesis using evolve_basic(2) by simp
  next
    case (refused s2)
    then show ?thesis using evolve_maybe_stepDown by simp
  next
    case (granted s2 a t)
    note e2 = evolve_maybe_stepDown [OF granted(1)]
    have "server_ok s2" using e2 ok by (simp add: evolve_def)
    then have "state s2 \<noteq> LEADER" using granted(3) by (auto simp: server_ok_def)
    then have "evolve s2 a" using evolve_stepDown [OF granted(4)] by simp
    moreover have "evolve a s'"
      unfolding granted(5) using stepDown_result [OF granted(4)] granted(3) by (intro evolve_vote) auto
    ultimately show ?thesis using e2 evolve_trans by blast
  qed
qed (simp add: evolve_def)

lemma hears_hearFromLeader:
  assumes "hearFromLeader t l s0 = Some s'"
  shows "hears t l s0 s'" "state s' = FOLLOWER" "leaderId s' = l" "currentTerm s' = t"
    "currentTerm s0 = t \<Longrightarrow> leaderId s0 = 0 \<or> leaderId s0 = l"
    "entries (rlog s') = entries (rlog s0)" "startIndex (rlog s') = startIndex (rlog s0)"
    "commitIndex s' = commitIndex s0" "lastSnapshotIndex s' = lastSnapshotIndex s0"
proof -
  obtain s1 where s1: "stepDown t s0 = Some s1" using assms by (auto simp: hearFromLeader_def elim: bind_SomeE)
  note r = stepDown_result [OF s1] and f = stepDown_frame [OF s1]
  have s': "s' = (snd (Clock_now (setElectionTimer s1)))\<lparr>
      withholdVotesUntil := fst (Clock_now (setElectionTimer s1)) + ELECTION_TIMEOUT (params s1), leaderId := l\<rparr>"
    and l: "leaderId s1 = 0 \<or> leaderId s1 = l"
    using assms s1 by (auto simp: hearFromLeader_def Let_def basic_defs setElectionTimer_def split: if_splits)
  have g: "state s' = FOLLOWER" "leaderId s' = l" "currentTerm s' = t" "serverId s' = serverId s1"
    "votedFor s' = votedFor s1" "commitIndex s' = commitIndex s1" "currentEpoch s' = currentEpoch s1"
    "r_exiting s' = r_exiting s1" "configuration s' = configuration s1" "rlog s' = rlog s1"
    using r by (simp_all add: s' basic_defs setElectionTimer_def)
  have h1: "hears t l s0 s1" by (rule hears_stepDown [OF s1])
  show "hears t l s0 s'" unfolding hears_def
  proof (intro impI)
    assume ok: "server_ok s0"
    have "server_ok s1" "delta s0 s1" "voters (configuration s1) \<subseteq> voters (configuration s0)"
      using h1 ok unfolding hears_def by blast+
    moreover from this have "server_ok s'" using g r(1,2) by (simp add: server_ok_def persisted_def)
    moreover have "delta s0 s'" using \<open>delta s0 s1\<close> g r(1) l by (auto simp: delta_def)
    ultimately show "server_ok s' \<and> delta s0 s' \<and>
       (state s' \<noteq> FOLLOWER \<longrightarrow> state s' = state s0 \<and> currentTerm s' = currentTerm s0) \<and>
       voters (configuration s') \<subseteq> voters (configuration s0) \<and>
       (leaderId s' = 0 \<or> leaderId s' = leaderId s0 \<and> currentTerm s' = currentTerm s0 \<or>
        leaderId s' = l \<and> currentTerm s' = t) \<and>
       (state s0 = LEADER \<longrightarrow> currentTerm s' = currentTerm s0 \<longrightarrow> state s' = LEADER \<or> currentTerm s' = t)" using g by simp
  qed
  show "state s' = FOLLOWER" "leaderId s' = l" "currentTerm s' = t"
    "entries (rlog s') = entries (rlog s0)" "startIndex (rlog s') = startIndex (rlog s0)"
    "commitIndex s' = commitIndex s0" "lastSnapshotIndex s' = lastSnapshotIndex s0"
    using r f by (simp_all add: s' basic_defs setElectionTimer_def)
  show "currentTerm s0 = t \<Longrightarrow> leaderId s0 = 0 \<or> leaderId s0 = l" using r(5) l by auto
qed

lemma evolve_truncateConflict: "evolve s (truncateConflict i s)"
  unfolding truncateConflict_def Let_def
  by (intro evolve_trans [OF _ evolve_keeps [OF keeps_cm_truncateSuffix]] evolve_same_conf)
    (simp_all add: log_inv_ops metadata_ops)

lemma storeEntries_cases:
  assumes "storeEntries i (e # es) s = Some s'"
  obtains (discarded) "Suc i < logStart s" "storeEntries (Suc i) es s = Some s'"
  | (present) old where "logStart s \<le> Suc i" "Suc i \<le> lastLog s" "getEntry (rlog s) (Suc i) = Some old"
      "le_term old = le_term e" "storeEntries (Suc i) es s = Some s'"
  | (new) s1 s2 where "logStart s \<le> Suc i"
      "lastLog s < Suc i \<and> s1 = s \<or> Suc i \<le> lastLog s \<and> commitIndex s < Suc i \<and> s1 = truncateConflict (Suc i) s \<and>
        (\<exists>old. getEntry (rlog s) (Suc i) = Some old \<and> le_term old \<noteq> le_term e)"
      "raft_append (e # es) s1 = Some s2" "s' = newEpoch (le_cluster_time (last (e # es))) s2"
proof (cases "Suc i < logStart s")
  case True
  then show ?thesis using assms discarded by (auto split: if_splits)
next
  case start: False
  show ?thesis
  proof (cases "Suc i \<le> lastLog s")
    case False
    then show ?thesis using assms start new [of s] by (auto simp: Let_def split: if_splits elim!: bind_SomeE)
  next
    case True
    then obtain old where old: "getEntry (rlog s) (Suc i) = Some old"
      using assms start by (auto simp: Let_def split: if_splits elim!: bind_SomeE)
    show ?thesis
    proof (cases "le_term old = le_term e")
      case same: True
      then have "storeEntries (Suc i) es s = Some s'"
        using assms start True old by (auto simp: Let_def split: if_splits)
      then show ?thesis using present old start True same by simp
    next
      case False
      then obtain s2 where "commitIndex s < Suc i" "raft_append (e # es) (truncateConflict (Suc i) s) = Some s2"
        "s' = newEpoch (le_cluster_time (last (e # es))) s2"
        using assms start True old by (auto simp: Let_def split: if_splits elim!: bind_SomeE)
      then show ?thesis using new [of "truncateConflict (Suc i) s" s2] start True old False by auto
    qed
  qed
qed

lemma evolve_storeEntries: "storeEntries i es s = Some s' \<Longrightarrow> evolve s s'"
proof (induction es arbitrary: i)
  case (Cons e es)
  from Cons.prems show ?case
  proof (cases rule: storeEntries_cases)
    case (new s1 s2)
    have "evolve s s1" using new(2) evolve_truncateConflict by auto
    moreover have "evolve s2 s'" using new(4) evolve_basic(6) by simp
    ultimately show ?thesis using evolve_raft_append [OF new(3)] evolve_trans by blast
  qed (use Cons.IH in blast)+
qed simp

lemma evolve_acceptEntries:
  assumes "acceptEntries req s = Some s'"
  shows "evolve s s'"
proof -
  obtain s1 s2 where s1: "storeEntries (ae_prev_log_index req) (ae_entries req) s = Some s1"
    and st: "(if commitIndex s1 < ae_commit_index req then do {
              let a = s1\<lparr>commitIndex := ae_commit_index req\<rparr>;
              require (commitIndex a \<le> lastLog a);
              Some (notify_all a) }
            else Some s1) = Some s2"
    and s': "s' = (case Clock_now (setElectionTimer s2) of (now, s4) \<Rightarrow>
        s4\<lparr>withholdVotesUntil := now + ELECTION_TIMEOUT (params s4)\<rparr>)"
    using assms unfolding acceptEntries_def
    by (elim bind_SomeE) (auto simp: Let_def split: prod.splits)
  have s2: "s2 = s1 \<or> commitIndex s1 < ae_commit_index req \<and> s2 = notify_all (s1\<lparr>commitIndex := ae_commit_index req\<rparr>)"
    using st by (auto split: if_splits)
  have "evolve s1 s2" using s2 evolve_trans [OF evolve_commit evolve_basic(1)] by auto
  moreover have "evolve s2 s'" unfolding s'
    by (rule evolve_same_conf) (simp_all add: basic_defs setElectionTimer_def)
  ultimately show ?thesis using evolve_storeEntries [OF s1] evolve_trans by blast
qed

lemma handleAppendEntries_cases:
  assumes "handleAppendEntries req s0 = Some (resp, s')"
  obtains (stale) "ae_term req < currentTerm s0" "s' = s0" "\<not> aer_success resp" "aer_term resp = currentTerm s0"
  | (rejected) s1 where "currentTerm s0 \<le> ae_term req"
      "hearFromLeader (ae_term req) (ae_server_id req) s0 = Some s1" "prevEntryOk req s1 = Some False"
      "s' = s1" "\<not> aer_success resp" "aer_term resp = ae_term req"
  | (accepted) s1 where "currentTerm s0 \<le> ae_term req"
      "hearFromLeader (ae_term req) (ae_server_id req) s0 = Some s1" "prevEntryOk req s1 = Some True"
      "acceptEntries req s1 = Some s'" "aer_success resp" "aer_term resp = ae_term req"
      "aer_last_log_index resp = Some (lastLog s')"
proof (cases "ae_term req < currentTerm s0")
  case True
  then have "s' = s0 \<and> \<not> aer_success resp \<and> aer_term resp = currentTerm s0"
    using assms by (auto simp: handleAppendEntries_def Let_def split: if_splits)
  then show ?thesis using stale True by blast
next
  case False
  then obtain s1 ok where h: "hearFromLeader (ae_term req) (ae_server_id req) s0 = Some s1"
    and ok: "prevEntryOk req s1 = Some ok"
    and rest: "if ok then acceptEntries req s1 = Some s' \<and> aer_success resp \<and> aer_term resp = ae_term req \<and>
          aer_last_log_index resp = Some (lastLog s')
        else s' = s1 \<and> \<not> aer_success resp \<and> aer_term resp = ae_term req"
    using assms by (auto simp: handleAppendEntries_def Let_def split: if_splits elim!: bind_SomeE)
  then show ?thesis using rejected [of s1] accepted [of s1] False by (cases ok) auto
qed

lemma hears_handleAppendEntries:
  assumes "handleAppendEntries req s0 = Some (resp, s')"
  shows "hears (ae_term req) (ae_server_id req) s0 s'"
  using assms
proof (cases rule: handleAppendEntries_cases)
  case (accepted s1)
  then show ?thesis using hears_trans [OF hears_hearFromLeader(1) evolve_acceptEntries] by blast
qed (simp_all add: hears_hearFromLeader(1) hears_evolve)

lemma evolve_writer: "evolve s (s\<lparr>snapshotWriter := w\<rparr>)" "evolve s (s\<lparr>snapshotOnDisk := d, snapshotWriter := w\<rparr>)"
  "evolve s (s\<lparr>snapshotReader := r\<rparr>)"
  by (rule evolve_same_conf; simp)+

text \<open>The outcomes of a chunk of a snapshot.\<close>

lemma handleInstallSnapshot_cases:
  assumes "handleInstallSnapshot pb req s0 = Some (resp, s')"
  obtains (stale) "is_term req < currentTerm s0" "s' = s0"
  | (heard) s1 w w2 where "currentTerm s0 \<le> is_term req"
      "hearFromLeader (is_term req) (is_server_id req) s0 = Some s1"
      "w = (case snapshotWriter s1 of None \<Rightarrow> mkWriter | Some w \<Rightarrow> w)"
      "w2 = writeRaw (is_data req) w"
      "s' = s1\<lparr>snapshotWriter := Some w\<rparr> \<or>
       stepDown (currentTerm s1 + 1) (s1\<lparr>snapshotWriter := Some w\<rparr>) = Some s' \<or>
       s' = s1\<lparr>snapshotWriter := Some w2\<rparr> \<or> s' = s1\<lparr>snapshotWriter := None\<rparr> \<or>
       (lastSnapshotIndex s1 \<le> is_last_snapshot_index req \<and> is_byte_offset req = bytesWritten w \<and> is_done req \<and>
        (\<exists>s4. readSnapshot pb (s1\<lparr>snapshotOnDisk := Some (staged w2), snapshotWriter := None\<rparr>) = Some s4 \<and>
              s' = notify_all s4))"
proof (cases "is_term req < currentTerm s0")
  case True
  then have "s' = s0" using assms by (auto simp: handleInstallSnapshot_def split: if_splits)
  then show ?thesis using stale True by blast
next
  case False
  then obtain s1 where h: "hearFromLeader (is_term req) (is_server_id req) s0 = Some s1"
    using assms by (auto simp: handleInstallSnapshot_def split: if_splits elim!: bind_SomeE)
  define w where "w = (case snapshotWriter s1 of None \<Rightarrow> mkWriter | Some w \<Rightarrow> w)"
  define w2 where "w2 = writeRaw (is_data req) w"
  have "s' = s1\<lparr>snapshotWriter := Some w\<rparr> \<or>
       stepDown (currentTerm s1 + 1) (s1\<lparr>snapshotWriter := Some w\<rparr>) = Some s' \<or>
       s' = s1\<lparr>snapshotWriter := Some w2\<rparr> \<or> s' = s1\<lparr>snapshotWriter := None\<rparr> \<or>
       (lastSnapshotIndex s1 \<le> is_last_snapshot_index req \<and> is_byte_offset req = bytesWritten w \<and> is_done req \<and>
        (\<exists>s4. readSnapshot pb (s1\<lparr>snapshotOnDisk := Some (staged w2), snapshotWriter := None\<rparr>) = Some s4 \<and>
              s' = notify_all s4))"
    using assms False h unfolding handleInstallSnapshot_def w_def [symmetric]
    by (auto simp: Let_def w_def [symmetric] w2_def [symmetric] writer_save_def not_less
        split: if_splits elim!: bind_SomeE)
  then show ?thesis using heard [OF _ h w_def w2_def] False by simp
qed

lemma hears_handleInstallSnapshot:
  assumes "handleInstallSnapshot pb req s0 = Some (resp, s')"
  shows "hears (is_term req) (is_server_id req) s0 s'"
  using assms
proof (cases rule: handleInstallSnapshot_cases)
  case (heard s1 w w2)
  note h = hears_hearFromLeader(1) [OF heard(2)]
  from heard(5) show ?thesis
  proof (elim disjE conjE exE)
    assume st: "stepDown (currentTerm s1 + 1) (s1\<lparr>snapshotWriter := Some w\<rparr>) = Some s'"
    show ?thesis by (rule hears_trans [OF h evolve_trans [OF evolve_writer(1) evolve_stepDown [OF st]]]) simp
  next
    fix s4 assume st: "readSnapshot pb (s1\<lparr>snapshotOnDisk := Some (staged w2), snapshotWriter := None\<rparr>) = Some s4"
      "s' = notify_all s4"
    show ?thesis unfolding st(2)
      by (rule hears_trans [OF h evolve_trans [OF evolve_writer(2) evolve_trans
            [OF evolve_readSnapshot [OF st(1)] evolve_basic(1)]]])
  qed (simp_all, (rule hears_trans [OF h evolve_writer(1)])+)
qed (simp add: hears_evolve)

section \<open>The calling side\<close>

lemma evolve_callFailed: "evolve s (callFailed c s)"
  unfolding callFailed_def by (rule evolve_updatePeer) simp

lemma evolve_beginCall: "beginCall i inc q n s = (c, s') \<Longrightarrow> evolve s s'"
  using evolve_Clock by (auto simp: beginCall_def split: prod.splits)

lemma evolve_requestVote_send: "requestVote_send i inc s = Some (c, s') \<Longrightarrow> evolve s s'"
  using evolve_beginCall by (auto simp: requestVote_send_def elim!: bind_SomeE)

lemma findPeer_vote:
  assumes "findPeer i inc s = Some p" "p_haveVote p"
  shows "i \<in> voters (configuration s)"
  using assms by (auto simp: findPeer_def voters_def split: option.splits ServerKind.splits if_splits
      dest: map_of_SomeD)

text \<open>Overwriting the peer that was looked up.\<close>

lemma voters_updatePeer_found:
  assumes "findPeer i inc s = Some p" "p_haveVote q \<longrightarrow> p_haveVote p"
  shows "voters (configuration (updatePeer i inc (\<lambda>_. q) s)) \<subseteq> voters (configuration s)"
proof
  fix x assume "x \<in> voters (configuration (updatePeer i inc (\<lambda>_. q) s))"
  then obtain sv p' where "(x, sv) \<in> set (knownServers (configuration s))"
    "kind (if x = i then (case kind sv of LocalServer _ \<Rightarrow> sv
       | Peer p \<Rightarrow> if p_incarnation p = inc then sv\<lparr>kind := Peer q\<rparr> else sv) else sv) = Peer p'" "p_haveVote p'"
    by (auto simp: voters_def updatePeer_def updateServer_def)
  then show "x \<in> voters (configuration s)"
    using findPeer_vote [OF assms(1)] assms(2) by (auto simp: voters_def split: if_splits ServerKind.splits)
qed

lemma evolve_updatePeer_found:
  assumes "findPeer i inc s = Some p" "p_haveVote q \<longrightarrow> p_haveVote p"
  shows "evolve s (updatePeer i inc (\<lambda>_. q) s)"
proof (rule evolve_frame)
  assume wf: "conf_wf (serverId s) (configuration s)"
  have "conf_wf (serverId s) (configuration (updatePeer i inc (\<lambda>_. q) s))"
    unfolding updatePeer_def using wf
    by (auto intro!: conf_wf_updateServer simp: is_local_def split: ServerKind.splits if_splits)
  then show "conf_wf (serverId s) (configuration (updatePeer i inc (\<lambda>_. q) s)) \<and>
      voters (configuration (updatePeer i inc (\<lambda>_. q) s)) \<subseteq> voters (configuration s)"
    using voters_updatePeer_found [OF assms] by blast
qed (simp_all add: updatePeer_def)

text \<open>A snapshot is sent from the file that the peer object holds, which is opened first if need be.\<close>

lemma installSnapshot_send_cases:
  assumes "installSnapshot_send i inc p0 s0 = Some (out, s')"
  obtains p s f c where "p = p0 \<and> s = s0 \<or>
      p = p0\<lparr>snapshotFile := Some f, snapshotFileOffset := 0, p_lastSnapshotIndex := lastSnapshotIndex s0\<rparr> \<and>
      s = updatePeer i inc (\<lambda>_. p) s0"
    "out = SendInstallSnapshot c" "\<exists>q n. beginCall i inc q n s = (c, s') \<and>
      is_server_id q = serverId s0 \<and> is_term q = currentTerm s0"
proof -
  define open_file where "open_file = (case snapshotFile p0 of
        Some f \<Rightarrow> Some (f, p0, s0)
      | None \<Rightarrow> do {
          f \<leftarrow> snapshotOnDisk s0;
          let p = p0\<lparr>snapshotFile := Some f, snapshotFileOffset := 0, p_lastSnapshotIndex := lastSnapshotIndex s0\<rparr>;
          Some (f, p, updatePeer i inc (\<lambda>_. p) s0) })"
  obtain f p s where r: "open_file = Some (f, p, s)"
    using assms unfolding installSnapshot_send_def open_file_def [symmetric] by (cases open_file) auto
  have b: "\<exists>c. out = SendInstallSnapshot c \<and> (\<exists>q n. beginCall i inc q n s = (c, s') \<and>
      is_server_id q = serverId s \<and> is_term q = currentTerm s)"
    using assms unfolding installSnapshot_send_def open_file_def [symmetric] r
    by (simp add: Let_def del: bind_eq_Some_conv split: prod.splits if_splits) force+
  have "p = p0 \<and> s = s0 \<or>
      p = p0\<lparr>snapshotFile := Some f, snapshotFileOffset := 0, p_lastSnapshotIndex := lastSnapshotIndex s0\<rparr> \<and>
      s = updatePeer i inc (\<lambda>_. p) s0"
    using r unfolding open_file_def by (auto simp: Let_def split: option.splits elim!: bind_SomeE)
  moreover from this have "serverId s = serverId s0" "currentTerm s = currentTerm s0"
    by (auto simp: updatePeer_def)
  ultimately show ?thesis using that b by metis
qed

lemma evolve_installSnapshot_send:
  assumes "installSnapshot_send i inc p0 s0 = Some (out, s')" "findPeer i inc s0 = Some p0"
  shows "evolve s0 s'"
  using assms(1)
proof (cases rule: installSnapshot_send_cases)
  case (1 p s f c)
  then have "evolve s0 s" using evolve_updatePeer_found [OF assms(2)] by auto
  then show ?thesis using 1(3) evolve_beginCall evolve_trans by metis
qed

text \<open>The two outcomes of building a request for a peer: a chunk of a snapshot, or entries that follow one
  whose term is known.\<close>

definition knownTerm :: "Raft \<Rightarrow> nat \<Rightarrow> nat \<Rightarrow> bool" where
  "knownTerm s prev t \<longleftrightarrow>
     (if logStart s \<le> prev then \<exists>e. getEntry (rlog s) prev = Some e \<and> t = le_term e
      else if prev = 0 then t = 0
      else prev = lastSnapshotIndex s \<and> t = lastSnapshotTerm s)"

lemma appendEntries_send_cases:
  assumes "appendEntries_send pb i inc s = Some (out, s')"
  obtains (snapshot) p where "findPeer i inc s = Some p" "installSnapshot_send i inc p s = Some (out, s')"
  | (entries) p prev t request es c where "findPeer i inc s = Some p"
      "prev = (if nextIndex p = 0 then u64_max else nextIndex p - 1)" "prev \<le> lastLog s" "logStart s \<le> nextIndex p"
      "knownTerm s prev t"
      "request = \<lparr>ae_server_id = serverId s, ae_term = currentTerm s, ae_prev_log_index = prev,
                ae_prev_log_term = t, ae_entries = [], ae_commit_index = 0\<rparr>"
      "(if suppressBulkData p then Some [] else packEntries pb (nextIndex p) request s) = Some es"
      "beginCall i inc (request\<lparr>ae_entries := es, ae_commit_index := min (commitIndex s) (prev + length es)\<rparr>)
         (length es) s = (c, s')" "out = SendAppendEntries c"
proof -
  obtain p where p: "findPeer i inc s = Some p"
    using assms by (auto simp: appendEntries_send_def elim: bind_SomeE)
  define prev where "prev = (if nextIndex p = 0 then u64_max else nextIndex p - 1)"
  define pt where "pt = (if prev \<ge> logStart s then map_option (\<lambda>e. Some (le_term e)) (getEntry (rlog s) prev)
      else if prev = 0 then Some (Some 0)
      else if prev = lastSnapshotIndex s then Some (Some (lastSnapshotTerm s)) else Some None)"
  define rest where "rest = (\<lambda>t. let request = \<lparr>ae_server_id = serverId s, ae_term = currentTerm s,
        ae_prev_log_index = prev, ae_prev_log_term = t, ae_entries = [], ae_commit_index = 0\<rparr> in
      (if suppressBulkData p then Some [] else packEntries pb (nextIndex p) request s) \<bind> (\<lambda>es.
        let (c, s') = beginCall i inc (request\<lparr>ae_entries := es,
              ae_commit_index := min (commitIndex s) (prev + length es)\<rparr>) (length es) s in
        Some (SendAppendEntries c, s')))"
  have eq: "appendEntries_send pb i inc s = (if prev \<le> lastLog s then
      if nextIndex p < logStart s then installSnapshot_send i inc p s
      else pt \<bind> (\<lambda>x. case x of None \<Rightarrow> installSnapshot_send i inc p s | Some t \<Rightarrow> rest t) else None)"
    unfolding appendEntries_send_def p bind.bind_lunit prev_def [symmetric] Let_def pt_def rest_def
    by (simp add: require_def)
  have le: "prev \<le> lastLog s" using assms eq by (simp split: if_splits)
  show ?thesis
  proof (cases "installSnapshot_send i inc p s = Some (out, s')")
    case True
    then show ?thesis using snapshot p by blast
  next
    case False
    then have start: "logStart s \<le> nextIndex p" using assms eq le by (simp split: if_splits)
    then obtain t where pt: "pt = Some (Some t)" and r: "rest t = Some (out, s')"
      using assms eq le False by (auto split: option.splits elim!: bind_SomeE)
    have kt: "knownTerm s prev t" using pt by (auto simp: pt_def knownTerm_def split: if_splits)
    show ?thesis
      using entries [OF p prev_def le start kt refl] r unfolding rest_def Let_def
      by (auto split: prod.splits elim!: bind_SomeE simp del: bind_eq_Some_conv)
  qed
qed

lemma evolve_appendEntries_send:
  assumes "appendEntries_send pb i inc s = Some (out, s')"
  shows "evolve s s'"
  using assms
  by (cases rule: appendEntries_send_cases) (auto intro: evolve_installSnapshot_send evolve_beginCall)

lemma evolve_checkCaughtUp: "evolve s (checkCaughtUp i inc p s)"
proof -
  obtain now s1 where c1: "Clock_now s = (now, s1)" by fastforce
  obtain now2 s2 where c2: "Clock_now s1 = (now2, s2)" by fastforce
  have "evolve s1 (notify_all (updatePeer i inc (\<lambda>q. q\<lparr>p_isCaughtUp := True\<rparr>) s1))"
    by (rule evolve_trans [OF evolve_updatePeer evolve_basic(1)]) simp
  moreover have "evolve s2 (updatePeer i inc (\<lambda>q. q\<lparr>lastCatchUpIterationMs := m,
      thisCatchUpIterationStart := x, thisCatchUpIterationGoalId := g\<rparr>) s2)" for m x g
    by (rule evolve_updatePeer) simp
  ultimately show ?thesis
    using evolve_Clock [OF c1] evolve_Clock [OF c2] evolve_trans c1 c2
    by (simp add: checkCaughtUp_def Let_def)
qed

lemma evolve_recordCapabilities:
  assumes "recordCapabilities i inc resp s = Some s'"
  shows "evolve s s'"
proof -
  let ?f = "\<lambda>lo hi sv. case kind sv of LocalServer _ \<Rightarrow> sv
      | Peer p \<Rightarrow> if p_incarnation p = inc then sv\<lparr>haveStateMachineSupportedVersions := True,
          minStateMachineVersion := lo, maxStateMachineVersion := hi\<rparr> else sv"
  have "s' = s \<or> (\<exists>lo hi. s' = notify_all (s\<lparr>configuration := updateServer i (?f lo hi) (configuration s)\<rparr>))"
    using assms by (auto simp: recordCapabilities_def split: option.splits if_splits)
  moreover have "evolve s (notify_all (s\<lparr>configuration := updateServer i (?f lo hi) (configuration s)\<rparr>))" for lo hi
    by (rule evolve_trans [OF evolve_updateServer evolve_basic(1)])
      (auto simp: is_local_def split: ServerKind.splits if_splits)
  ultimately show ?thesis by auto
qed

lemma findPeer_updatePeer:
  assumes "\<And>p. p_incarnation p = inc \<Longrightarrow> p_incarnation (f p) = inc"
  shows "findPeer i inc (updatePeer i inc f s) = map_option f (findPeer i inc s)"
proof -
  have "map_of (map (\<lambda>(j, sv). (j, if j = i then g sv else sv)) m) i = map_option g (map_of m i)"
    for g :: "Server \<Rightarrow> Server" and m by (induction m) auto
  then show ?thesis using assms
    by (auto simp: findPeer_def updatePeer_def updateServer_def split: option.splits ServerKind.splits if_splits)
qed

lemma findPeer_incarnation: "findPeer i inc s = Some p \<Longrightarrow> p_incarnation p = inc"
  by (auto simp: findPeer_def split: option.splits ServerKind.splits if_splits)

text \<open>Notifying after an update, and updating the same peer object twice.\<close>

lemma findPeer_notify [simp]: "findPeer i inc (notify_all s) = findPeer i inc s"
  by (simp add: findPeer_def notify_all_def)

lemma evolve_appendEntries_ack:
  assumes "appendEntries_ack c resp p0 s0 = Some s'" "findPeer (call_peer c) (call_incarnation c) s0 = Some p0"
  shows "evolve s0 s'"
proof -
  let ?i = "call_peer c" and ?inc = "call_incarnation c"
  define p where "p = p0\<lparr>lastAckEpoch := call_epoch c, nextHeartbeatTime := call_start c + HEARTBEAT_PERIOD (params s0)\<rparr>"
  define s where "s = notify_all (updatePeer ?i ?inc (\<lambda>_. p) s0)"
  define agreed where "agreed = ae_prev_log_index (call_request c) + call_count c"
  define p1 where "p1 = (if matchIndex p > agreed then p else p\<lparr>matchIndex := agreed\<rparr>)"
  have e: "evolve s0 s" unfolding s_def
    by (rule evolve_trans [OF evolve_updatePeer_found [OF assms(2)] evolve_basic(1)]) (simp add: p_def)
  have f: "findPeer ?i ?inc s = Some p"
    using findPeer_updatePeer [of ?inc "\<lambda>_. p" ?i s0] findPeer_incarnation [OF assms(2)] assms(2)
    by (simp add: s_def p_def)
  have e1: "evolve s (updatePeer ?i ?inc (\<lambda>_. p1) s)"
    by (rule evolve_updatePeer_found [OF f]) (simp add: p1_def)
  show ?thesis
  proof (cases "aer_success resp")
    case True
    obtain s1 where s1: "(if matchIndex p > agreed then Some s
        else advanceCommitIndex (updatePeer ?i ?inc (\<lambda>_. p1) s)) = Some s1"
      and s': "s' = checkCaughtUp ?i ?inc (p1\<lparr>nextIndex := matchIndex p1 + 1, suppressBulkData := False\<rparr>)
         (updatePeer ?i ?inc (\<lambda>q. q\<lparr>nextIndex := matchIndex p1 + 1, suppressBulkData := False\<rparr>) s1)"
      using assms(1) True unfolding appendEntries_ack_def p1_def agreed_def s_def p_def Let_def
      by (auto split: if_splits elim!: bind_SomeE)
    have "evolve s s1" using s1 evolve_trans [OF e1 evolve_advanceCommitIndex] by (auto split: if_splits)
    moreover have "evolve s1 s'" unfolding s'
      by (rule evolve_trans [OF evolve_updatePeer evolve_checkCaughtUp]) simp
    ultimately show ?thesis using e evolve_trans by blast
  next
    case False
    then obtain n where "s' = updatePeer ?i ?inc (\<lambda>q. q\<lparr>nextIndex := n\<rparr>) s"
      using assms(1) unfolding appendEntries_ack_def s_def p_def Let_def by (auto split: if_splits)
    moreover have "evolve s (updatePeer ?i ?inc (\<lambda>q. q\<lparr>nextIndex := n\<rparr>) s)" by (rule evolve_updatePeer) simp
    ultimately show ?thesis using e evolve_trans by blast
  qed
qed

lemma evolve_appendEntries_receive:
  assumes "appendEntries_receive c st s = Some s'"
  shows "evolve s s'"
proof -
  have "s' = s \<or> s' = callFailed c s \<or> (\<exists>resp p s1. findPeer (call_peer c) (call_incarnation c) s = Some p \<and>
      (currentTerm s < aer_term resp \<and> stepDown (aer_term resp) s = Some s1 \<or> appendEntries_ack c resp p s = Some s1) \<and>
      recordCapabilities (call_peer c) (call_incarnation c) resp s1 = Some s')"
    using assms by (auto simp: appendEntries_receive_def split: callStatus.splits option.splits if_splits elim!: bind_SomeE)
  then show ?thesis
  proof (elim disjE exE conjE)
    fix resp p s1 assume "recordCapabilities (call_peer c) (call_incarnation c) resp s1 = Some s'"
      "stepDown (aer_term resp) s = Some s1" "currentTerm s < aer_term resp"
    then show ?thesis using evolve_trans [OF evolve_stepDown evolve_recordCapabilities] by blast
  next
    fix resp p s1 assume "recordCapabilities (call_peer c) (call_incarnation c) resp s1 = Some s'"
      "findPeer (call_peer c) (call_incarnation c) s = Some p" "appendEntries_ack c resp p s = Some s1"
    then show ?thesis using evolve_trans [OF evolve_appendEntries_ack evolve_recordCapabilities] by blast
  qed (use evolve_callFailed in simp_all)
qed

lemma evolve_installSnapshot_ack:
  assumes "installSnapshot_ack c resp p0 s0 = Some s'" "findPeer (call_peer c) (call_incarnation c) s0 = Some p0"
  shows "evolve s0 s'"
proof -
  let ?i = "call_peer c" and ?inc = "call_incarnation c"
  define p where "p = p0\<lparr>lastAckEpoch := call_epoch c, nextHeartbeatTime := call_start c + HEARTBEAT_PERIOD (params s0),
     suppressBulkData := False, snapshotFileOffset := (case isr_bytes_stored resp of
        Some n \<Rightarrow> n | None \<Rightarrow> snapshotFileOffset p0 + call_count c)\<rparr>"
  define s where "s = notify_all (updatePeer ?i ?inc (\<lambda>_. p) s0)"
  have e: "evolve s0 s" unfolding s_def
    by (rule evolve_trans [OF evolve_updatePeer_found [OF assms(2)] evolve_basic(1)]) (simp add: p_def)
  have "s' = s \<or> (\<exists>s1. advanceCommitIndex (updatePeer ?i ?inc (\<lambda>q. q\<lparr>matchIndex := p_lastSnapshotIndex p,
        nextIndex := p_lastSnapshotIndex p + 1\<rparr>) s) = Some s1 \<and>
      s' = updatePeer ?i ?inc (\<lambda>q. q\<lparr>snapshotFile := None, snapshotFileOffset := 0, p_lastSnapshotIndex := 0\<rparr>) s1)"
    using assms(1) unfolding installSnapshot_ack_def s_def p_def Let_def by (auto split: if_splits elim!: bind_SomeE)
  then show ?thesis
  proof (elim disjE exE conjE)
    fix s1
    assume adv: "advanceCommitIndex (updatePeer ?i ?inc (\<lambda>q. q\<lparr>matchIndex := p_lastSnapshotIndex p,
        nextIndex := p_lastSnapshotIndex p + 1\<rparr>) s) = Some s1"
      and s': "s' = updatePeer ?i ?inc (\<lambda>q. q\<lparr>snapshotFile := None, snapshotFileOffset := 0, p_lastSnapshotIndex := 0\<rparr>) s1"
    have a: "evolve s (updatePeer ?i ?inc (\<lambda>q. q\<lparr>matchIndex := p_lastSnapshotIndex p,
        nextIndex := p_lastSnapshotIndex p + 1\<rparr>) s)" by (rule evolve_updatePeer) simp
    have b: "evolve s1 s'" unfolding s' by (rule evolve_updatePeer) simp
    show ?thesis by (rule evolve_trans [OF e evolve_trans [OF a evolve_trans [OF evolve_advanceCommitIndex [OF adv] b]]])
  qed (use e in simp)
qed

lemma evolve_installSnapshot_receive:
  assumes "installSnapshot_receive c st s = Some s'"
  shows "evolve s s'"
proof -
  have "s' = s \<or> s' = callFailed c s \<or> (\<exists>resp p. findPeer (call_peer c) (call_incarnation c) s = Some p \<and>
      (currentTerm s < isr_term resp \<and> stepDown (isr_term resp) s = Some s' \<or> installSnapshot_ack c resp p s = Some s'))"
    using assms by (auto simp: installSnapshot_receive_def split: callStatus.splits option.splits if_splits elim!: bind_SomeE)
  then show ?thesis
    by (elim disjE exE conjE) (simp_all add: evolve_callFailed evolve_stepDown evolve_installSnapshot_ack)
qed

end
