(* ===== verification/LC_RaftOps.thy ===== *)
theory LC_RaftOps
  imports LC_RaftSteps
begin

text \<open>
  The operations of clients, of the state machine and of the threads as \<open>evolve\<close> steps, what a
  restart keeps, and what elections and the receipt of votes do: the cases that \<open>evolve\<close> leaves
  out. \<open>raft_local\<close> collects the steps that a server takes by itself.
\<close>

section \<open>Operations of clients and of the state machine\<close>

lemma evolve_raft_exit: "evolve s (raft_exit s)"
proof -
  have f: "srv_id (server_exit sv) = srv_id sv" "is_local (server_exit sv) = is_local sv"
    "kind (server_exit sv) = Peer p' \<Longrightarrow> p_haveVote p' \<Longrightarrow> \<exists>p. kind sv = Peer p \<and> p_haveVote p" for sv p'
    by (auto simp: server_exit_def is_local_def split: ServerKind.splits)
  have "conf_wf i c \<Longrightarrow> conf_wf i (forEach server_exit c)" for i c
    using known_wf_map [of i c "\<lambda>_. server_exit"] f keys_map_servers [of "\<lambda>_. server_exit" "knownServers c"]
    by (simp add: conf_wf_def forEach_def)
  moreover have "voters (forEach server_exit c) \<subseteq> voters c" for c
    using f(3) by (fastforce simp: voters_def forEach_def)
  ultimately have "evolve s (s\<lparr>r_exiting := True, configuration := forEach server_exit (configuration s)\<rparr>)"
    by (intro evolve_frame) auto
  then show ?thesis unfolding raft_exit_def by (rule evolve_trans [OF _ evolve_basic(3)])
qed

lemma evolve_bootstrapConfiguration:
  assumes "bootstrapConfiguration s = Some s'"
  shows "evolve s s'"
proof -
  obtain s1 es where "stepDown 1 s = Some s1" "raft_append es s1 = Some s'" "currentTerm s < 1"
    using assms by (auto simp: bootstrapConfiguration_def split: if_splits elim!: bind_SomeE)
  then show ?thesis using evolve_trans [OF evolve_stepDown evolve_raft_append] by blast
qed

lemma evolve_scheduleHeartbeats: "evolve s (scheduleHeartbeats ids s)"
proof (induction ids arbitrary: s)
  case (Cons i ids)
  have "evolve s (updatePeer i inc (\<lambda>q. q\<lparr>nextHeartbeatTime := t\<rparr>) (snd (Clock_now s)))" for inc t
    by (rule evolve_trans [OF evolve_basic(2) evolve_updatePeer]) simp
  then show ?case
    using Cons.IH evolve_trans by (auto simp: Let_def split: option.split ServerKind.split prod.split) (metis snd_conv)
qed simp

lemma evolve_epoch: "evolve s (s\<lparr>currentEpoch := currentEpoch s + 1\<rparr>)"
  by (rule evolve_same_conf) simp_all

lemma evolve_upToDateLeader_begin: "evolve s (snd (upToDateLeader_begin s))"
  unfolding upToDateLeader_begin_def Let_def snd_conv
  by (rule evolve_trans [OF evolve_epoch evolve_trans [OF evolve_scheduleHeartbeats evolve_basic(1)]])

lemma evolve_replicateEntry_begin:
  assumes "replicateEntry_begin e s = Some (w, s')"
  shows "evolve s s'"
proof -
  have "s' = s \<or> (\<exists>t s1 es. leaderStamp s = Some (t, s1) \<and> raft_append es s1 = Some s')"
    using assms by (auto simp: replicateEntry_begin_def split: if_splits elim!: bind_SomeE)
  then show ?thesis using evolve_trans [OF evolve_leaderStamp evolve_raft_append] by auto
qed

lemma evolve_setConfiguration_begin:
  assumes "setConfiguration_begin old ds s = Some (r, s')"
  shows "evolve s s'"
proof -
  have "s' = s \<or> (\<exists>s1. setStagingServers ds s = Some s1 \<and>
      s' = snd (Clock_now ((notify_all s1)\<lparr>currentEpoch := currentEpoch s1 + 1\<rparr>)))"
    using assms unfolding setConfiguration_begin_def
    by (auto simp: Let_def split: if_splits prod.splits elim!: bind_SomeE)
  moreover have "evolve s1 (snd (Clock_now ((notify_all s1)\<lparr>currentEpoch := currentEpoch s1 + 1\<rparr>)))" for s1
    by (rule evolve_same_conf) (simp_all add: basic_defs)
  ultimately show ?thesis using evolve_trans [OF evolve_keeps [OF keeps_setStagingServers]] by auto
qed

lemma evolve_setConfiguration_catchUp: "evolve s (snd (setConfiguration_catchUp stg s))"
proof -
  obtain now s1 where c1: "Clock_now s = (now, s1)" by fastforce
  have e1: "evolve s s1" by (rule evolve_Clock [OF c1])
  have a: "evolve s (notify_all (resetStagingServers s1))"
    by (rule evolve_trans [OF e1 evolve_trans [OF evolve_keeps [OF keeps_resetStagingServers] evolve_basic(1)]])
  have b: "evolve s (snd (Clock_now (s1\<lparr>currentEpoch := currentEpoch s1 + 1\<rparr>)))"
    by (rule evolve_trans [OF e1 evolve_trans [OF evolve_epoch evolve_basic(2)]])
  show ?thesis using a b e1 c1
    by (auto simp: setConfiguration_catchUp_def Let_def split: option.split prod.split)
qed

lemma evolve_setSupportedStateMachineVersions: "evolve s (setSupportedStateMachineVersions lo hi s)"
proof -
  let ?f = "\<lambda>sv. sv\<lparr>haveStateMachineSupportedVersions := True, minStateMachineVersion := lo, maxStateMachineVersion := hi\<rparr>"
  have "evolve s (notify_all (s\<lparr>configuration := updateServer i ?f (configuration s)\<rparr>))" for i
    by (rule evolve_trans [OF evolve_updateServer evolve_basic(1)]) (auto simp: is_local_def)
  then show ?thesis by (auto simp: setSupportedStateMachineVersions_def split: option.split)
qed

lemma evolve_getNextEntry:
  assumes "getNextEntry pb i s = Some (r, s')"
  shows "evolve s s'"
proof -
  have "s' = s \<or> s' = s\<lparr>snapshotReader := None\<rparr> \<or> (\<exists>s1. readSnapshot pb s = Some s1 \<and> s' = s1\<lparr>snapshotReader := None\<rparr>)"
    using assms by (auto simp: getNextEntry_def Let_def split: if_splits option.splits elim!: bind_SomeE)
  then show ?thesis
    using evolve_writer(3) evolve_trans [OF evolve_readSnapshot evolve_writer(3)] by auto
qed

lemma snapshotDone_cases:
  assumes "snapshotDone i w s = Some s'"
  obtains (stale) "i \<le> lastSnapshotIndex s" "s' = s"
  | (saved) e s1 s2 where "lastSnapshotIndex s < i" "logStart s \<le> i" "i \<le> lastLog s" "getEntry (rlog s) i = Some e"
      "s1 = s\<lparr>snapshotOnDisk := Some (fst (writer_save w)), lastSnapshotBytes := snd (writer_save w),
                  lastSnapshotIndex := i, lastSnapshotTerm := le_term e,
                  lastSnapshotClusterTime := le_cluster_time e\<rparr>"
      "s2 = s1 \<or> (\<exists>ci c. cm_setSnapshot ci c s1 = Some s2)" "s' = discardUnneededEntries s2"
proof (cases "i \<le> lastSnapshotIndex s")
  case True
  then show ?thesis using stale assms by (simp add: snapshotDone_def)
next
  case False
  then obtain e where e: "logStart s \<le> i" "i \<le> lastLog s" "getEntry (rlog s) i = Some e"
    using assms by (auto simp: snapshotDone_def split: if_splits elim!: bind_SomeE)
  define s1 where "s1 = s\<lparr>snapshotOnDisk := Some (fst (writer_save w)), lastSnapshotBytes := snd (writer_save w),
      lastSnapshotIndex := i, lastSnapshotTerm := le_term e, lastSnapshotClusterTime := le_cluster_time e\<rparr>"
  obtain ci c where g: "getLatestConfigurationAsOf (configurationManager s1) i = (ci, c)" by fastforce
  have "(if ci = 0 then Some s1 else cm_setSnapshot ci c s1) \<bind> (\<lambda>s2. Some (discardUnneededEntries s2)) = Some s'"
    using assms False e g unfolding snapshotDone_def s1_def by (simp add: Let_def)
  then obtain s2 where "(if ci = 0 then Some s1 else cm_setSnapshot ci c s1) = Some s2" "s' = discardUnneededEntries s2"
    by (auto elim: bind_SomeE)
  then show ?thesis using saved [OF _ e s1_def, of s2] False by (cases "ci = 0") auto
qed

lemma evolve_snapshotDone:
  assumes "snapshotDone i w s = Some s'"
  shows "evolve s s'"
  using assms
proof (cases rule: snapshotDone_cases)
  case (saved e s1 s2)
  have "evolve s s1" unfolding saved(5) by (rule evolve_same_conf) simp_all
  moreover have "evolve s1 s2" using saved(6) evolve_keeps [OF keeps_cm_setSnapshot] by auto
  ultimately show ?thesis unfolding saved(7) using evolve_trans [OF _ evolve_discardUnneededEntries] evolve_trans by blast
qed simp

section \<open>Threads\<close>

lemma evolve_leaderDisk_take: "evolve s (snd (leaderDisk_take s))"
  by (rule evolve_same_conf) (auto simp: leaderDisk_take_def takeSync_def log_inv_def)

lemma evolve_leaderDisk_written: "evolve s (leaderDisk_written s)"
  by (rule evolve_same_conf) (simp_all add: leaderDisk_written_def)

lemma evolve_leaderDisk_done:
  assumes "leaderDisk_done sync s = Some s'"
  shows "evolve s s'"
proof -
  let ?f = "\<lambda>sv. case kind sv of LocalServer _ \<Rightarrow> sv\<lparr>kind := LocalServer (snd sync)\<rparr> | Peer _ \<Rightarrow> sv"
  have "evolve s (s\<lparr>configuration := updateServer i ?f (configuration s)\<rparr>)" for i
    by (rule evolve_updateServer) (auto simp: is_local_def split: ServerKind.splits)
  then show ?thesis
    using assms evolve_trans [OF _ evolve_advanceCommitIndex] by (auto simp: leaderDisk_done_def split: if_splits)
qed

lemma evolve_peerThread_iter: "evolve s (snd (peerThread_iter i inc s))"
proof -
  obtain now s1 where c1: "Clock_now s = (now, s1)" by fastforce
  have "evolve s (notify_all (s\<lparr>numPeerThreads := numPeerThreads s - 1\<rparr>))"
    by (rule evolve_same_conf) (simp_all add: notify_all_def)
  then show ?thesis
    using evolve_Clock [OF c1] c1 by (auto simp: peerThread_iter_def split: option.split RaftState.split)
qed

lemma evolve_stepDownThread_outer: "evolve s (snd (stepDownThread_outer s))"
proof -
  let ?s1 = "s\<lparr>currentEpoch := currentEpoch s + 1\<rparr>"
  have "evolve s (snd (Clock_now ?s1))" by (rule evolve_trans [OF evolve_epoch evolve_basic(2)])
  then show ?thesis using evolve_epoch by (auto simp: stepDownThread_outer_def Let_def split: prod.split)
qed

lemma evolve_stepDownThread_inner:
  assumes "stepDownThread_inner r s = Some (b, s')"
  shows "evolve s s'"
proof -
  obtain now s1 where c1: "Clock_now s = (now, s1)" by fastforce
  have "s' = s \<or> s' = s1 \<or> stepDown (currentTerm s1 + 1) s1 = Some s'"
    using assms c1 by (auto simp: stepDownThread_inner_def split: if_splits elim!: bind_SomeE)
  then show ?thesis using evolve_Clock [OF c1] evolve_trans [OF _ evolve_stepDown] by (elim disjE) auto
qed

lemma evolve_stateMachineUpdater_iter:
  assumes "stateMachineUpdater_iter ser v b s = Some (a, s')"
  shows "evolve s s'"
proof -
  obtain now s1 where c1: "Clock_now s = (now, s1)" by fastforce
  have "s' = s1 \<or> (\<exists>t s2 e w. leaderStamp s1 = Some (t, s2) \<and> replicateEntry_begin e s2 = Some (w, s'))"
    using assms c1 unfolding stateMachineUpdater_iter_def
    by (auto simp: Let_def split: if_splits elim!: bind_SomeE)
  then show ?thesis
    using evolve_Clock [OF c1] evolve_trans [OF evolve_leaderStamp evolve_replicateEntry_begin] evolve_trans by blast
qed

section \<open>Elections\<close>

text \<open>The simple configurations that a decision needs a majority of.\<close>

definition membership :: "Configuration \<Rightarrow> nat list list" where
  "membership c = (if conf_state c = TRANSITIONAL then [oldServers c, newServers c] else [oldServers c])"

lemma quorumAll_membership:
  "quorumAll P c \<longleftrightarrow> (\<forall>ids \<in> set (membership c). simple_quorumAll P (lookupServers c ids))"
  by (simp add: quorumAll_def membership_def)

text \<open>A step that may start or win an election. \<open>X\<close> are the peers whose votes for the current term arrive
  in this step. A new candidate has no votes yet, and a new leader has the votes of a quorum.\<close>

definition ballots :: "nat set \<Rightarrow> Raft \<Rightarrow> Raft \<Rightarrow> bool" where
  "ballots X s s' \<longleftrightarrow> (if currentTerm s' = currentTerm s
     then state s \<noteq> FOLLOWER \<and> voters (configuration s') \<subseteq> voters (configuration s) \<union> X
     else voters (configuration s') = {})"

definition elected :: "Raft \<Rightarrow> bool" where
  "elected s \<longleftrightarrow> (\<exists>c. conf_wf (serverId s) c \<and> membership c = membership (configuration s) \<and>
     voters c = voters (configuration s) \<and> quorumAll (haveVote (serverId s)) c)"

text \<open>\<open>P\<close> are the terms and leaders that the server hears of in this step.\<close>

definition follows :: "(nat \<times> nat) set \<Rightarrow> Raft \<Rightarrow> Raft \<Rightarrow> bool" where
  "follows P s s' \<longleftrightarrow>
     (leaderId s' = 0 \<or> leaderId s' = leaderId s \<and> currentTerm s' = currentTerm s \<or>
      leaderId s' = serverId s' \<and> state s' = LEADER \<or> (currentTerm s', leaderId s') \<in> P) \<and>
     (state s = LEADER \<longrightarrow> currentTerm s' = currentTerm s \<longrightarrow> state s' = LEADER \<or> (\<exists>l. (currentTerm s', l) \<in> P))"

definition campaign :: "nat set \<Rightarrow> (nat \<times> nat) set \<Rightarrow> Raft \<Rightarrow> Raft \<Rightarrow> bool" where
  "campaign X P s s' \<longleftrightarrow> (server_ok s \<longrightarrow> server_ok s' \<and> delta s s' \<and> follows P s s' \<and>
     (state s' \<noteq> FOLLOWER \<longrightarrow> ballots X s s') \<and>
     (state s' = LEADER \<longrightarrow> state s = LEADER \<and> currentTerm s' = currentTerm s \<or> elected s'))"

lemma campaign_evolve: "evolve s s' \<Longrightarrow> campaign X P s s'"
  unfolding campaign_def
proof (intro impI)
  assume e: "evolve s s'" and ok: "server_ok s"
  have b: "server_ok s'" "delta s s'" "state s' \<noteq> FOLLOWER \<longrightarrow> state s' = state s \<and> currentTerm s' = currentTerm s"
    "voters (configuration s') \<subseteq> voters (configuration s)"
    "leaderId s' = 0 \<or> leaderId s' = leaderId s \<and> currentTerm s' = currentTerm s"
    "state s = LEADER \<longrightarrow> currentTerm s' = currentTerm s \<longrightarrow> state s' = LEADER"
    using e ok unfolding evolve_def by blast+
  have "follows P s s'" unfolding follows_def using b(5,6) by blast
  moreover have "state s' \<noteq> FOLLOWER \<longrightarrow> ballots X s s'" using b(3,4) by (auto simp: ballots_def)
  moreover have "state s' = LEADER \<longrightarrow> state s = LEADER \<and> currentTerm s' = currentTerm s" using b(3) by auto
  ultimately show "server_ok s' \<and> delta s s' \<and> follows P s s' \<and> (state s' \<noteq> FOLLOWER \<longrightarrow> ballots X s s') \<and>
     (state s' = LEADER \<longrightarrow> state s = LEADER \<and> currentTerm s' = currentTerm s \<or> elected s')" using b(1,2) by blast
qed

lemma campaign_hears: "hears t l s s' \<Longrightarrow> campaign X {(t, l)} s s'"
  unfolding campaign_def
proof (intro impI)
  assume e: "hears t l s s'" and ok: "server_ok s"
  have b: "server_ok s'" "delta s s'" "state s' \<noteq> FOLLOWER \<longrightarrow> state s' = state s \<and> currentTerm s' = currentTerm s"
    "voters (configuration s') \<subseteq> voters (configuration s)"
    "leaderId s' = 0 \<or> leaderId s' = leaderId s \<and> currentTerm s' = currentTerm s \<or> leaderId s' = l \<and> currentTerm s' = t"
    "state s = LEADER \<longrightarrow> currentTerm s' = currentTerm s \<longrightarrow> state s' = LEADER \<or> currentTerm s' = t"
    using e ok unfolding hears_def by blast+
  have "follows {(t, l)} s s'" unfolding follows_def using b(5,6) by blast
  moreover have "state s' \<noteq> FOLLOWER \<longrightarrow> ballots X s s'" using b(3,4) by (auto simp: ballots_def)
  moreover have "state s' = LEADER \<longrightarrow> state s = LEADER \<and> currentTerm s' = currentTerm s" using b(3) by auto
  ultimately show "server_ok s' \<and> delta s s' \<and> follows {(t, l)} s s' \<and> (state s' \<noteq> FOLLOWER \<longrightarrow> ballots X s s') \<and>
     (state s' = LEADER \<longrightarrow> state s = LEADER \<and> currentTerm s' = currentTerm s \<or> elected s')" using b(1,2) by blast
qed

lemma forEach_fields [simp]:
  "oldServers (forEach f c) = oldServers c" "newServers (forEach f c) = newServers c"
  "localServer (forEach f c) = localServer c" "conf_state (forEach f c) = conf_state c"
  "conf_id (forEach f c) = conf_id c" "membership (forEach f c) = membership c"
  by (simp_all add: forEach_def membership_def)

lemma conf_wf_forEach:
  assumes "conf_wf i c" "\<And>sv. srv_id (f sv) = srv_id sv \<and> is_local (f sv) = is_local sv"
  shows "conf_wf i (forEach f c)"
  using assms known_wf_map [of i c "\<lambda>_. f"] keys_map_servers [of "\<lambda>_. f" "knownServers c"]
  by (simp add: conf_wf_def forEach_def)

lemma voters_forEach:
  assumes "\<And>sv. (\<exists>p. kind (f sv) = Peer p \<and> p_haveVote p) \<longleftrightarrow> (\<exists>p. kind sv = Peer p \<and> p_haveVote p)"
  shows "voters (forEach f c) = voters c"
proof -
  have "(\<exists>sv. (i, sv) \<in> set (knownServers (forEach f c)) \<and> (\<exists>p. kind sv = Peer p \<and> p_haveVote p)) \<longleftrightarrow>
      (\<exists>sv. (i, sv) \<in> set (knownServers c) \<and> (\<exists>p. kind sv = Peer p \<and> p_haveVote p))" for i
    using assms by (auto simp: forEach_def)
  then show ?thesis unfolding voters_def by auto
qed

lemma raft_append_noop:
  assumes "raft_append [e] s = Some s'" "le_type e \<noteq> CONFIGURATION"
  shows "s' = notify_all (syncLater (s\<lparr>rlog := snd (log_append (rlog s) [e])\<rparr>))"
  using assms by (auto simp: raft_append_def Let_def split: prod.splits if_splits)

lemma becomeLeader_result:
  assumes "becomeLeader s0 = Some s'"
  shows "state s0 = CANDIDATE" "state s' = LEADER" "leaderId s' = serverId s0" "serverId s' = serverId s0"
    "currentTerm s' = currentTerm s0" "votedFor s' = votedFor s0" "commitIndex s' = commitIndex s0"
    "currentEpoch s' = currentEpoch s0" "r_exiting s' = r_exiting s0"
    "metadata (rlog s') = metadata (rlog s0)" "log_inv (rlog s') = log_inv (rlog s0)"
    "configuration s' = forEach (beginLeadership (lastLog s0)) (configuration s0)"
proof -
  define s1 where "s1 = s0\<lparr>state := LEADER, leaderId := serverId s0, startElectionAt := timeMax, withholdVotesUntil := timeMax\<rparr>"
  define s2 where "s2 = newEpoch (clusterTimeAtEpoch s1) s1"
  define s3 where "s3 = s2\<lparr>configuration := forEach (beginLeadership (lastLog s2)) (configuration s2)\<rparr>"
  obtain t s4 s5 e where c: "state s0 = CANDIDATE" "leaderStamp s3 = Some (t, s4)" "raft_append [e] s4 = Some s5"
    "le_type e \<noteq> CONFIGURATION" "s' = interruptAll s5"
    using assms unfolding becomeLeader_def Let_def s3_def s2_def s1_def
    by (auto split: if_splits elim!: bind_SomeE)
  have s4: "s4 = s3\<lparr>clockReads := clockReads s4, clusterTimeAtEpoch := clusterTimeAtEpoch s4, localTimeAtEpoch := localTimeAtEpoch s4\<rparr>"
    using c(2) by (auto simp: leaderStamp_def Clock_now_def Let_def split: if_splits)
  have s': "s' = notify_all (notify_all (syncLater (s4\<lparr>rlog := snd (log_append (rlog s4) [e])\<rparr>)))"
    using c(5) raft_append_noop [OF c(3,4)] by (simp add: interruptAll_def)
  have f: "state s4 = LEADER" "leaderId s4 = serverId s0" "serverId s4 = serverId s0" "currentTerm s4 = currentTerm s0"
    "votedFor s4 = votedFor s0" "commitIndex s4 = commitIndex s0" "currentEpoch s4 = currentEpoch s0"
    "r_exiting s4 = r_exiting s0" "rlog s4 = rlog s0"
    "configuration s4 = forEach (beginLeadership (lastLog s0)) (configuration s0)"
    by (subst s4, simp add: s3_def s2_def s1_def basic_defs)+
  show "state s0 = CANDIDATE" by (rule c(1))
  show "state s' = LEADER" "leaderId s' = serverId s0" "serverId s' = serverId s0"
    "currentTerm s' = currentTerm s0" "votedFor s' = votedFor s0" "commitIndex s' = commitIndex s0"
    "currentEpoch s' = currentEpoch s0" "r_exiting s' = r_exiting s0"
    "metadata (rlog s') = metadata (rlog s0)" "log_inv (rlog s') = log_inv (rlog s0)"
    "configuration s' = forEach (beginLeadership (lastLog s0)) (configuration s0)"
    using f by (simp_all add: s' basic_defs metadata_ops log_inv_ops)
qed

lemma beginLeadership_conf:
  assumes "conf_wf i c"
  shows "conf_wf i (forEach (beginLeadership n) c)" "voters (forEach (beginLeadership n) c) = voters c"
proof -
  show "conf_wf i (forEach (beginLeadership n) c)"
    by (rule conf_wf_forEach [OF assms]) (auto simp: beginLeadership_def is_local_def split: ServerKind.splits)
  show "voters (forEach (beginLeadership n) c) = voters c"
    by (rule voters_forEach) (auto simp: beginLeadership_def split: ServerKind.splits)
qed

lemma beginRequestVote_conf:
  assumes "conf_wf i c"
  shows "conf_wf i (forEach beginRequestVote c)" "voters (forEach beginRequestVote c) = {}"
proof -
  show "conf_wf i (forEach beginRequestVote c)"
    by (rule conf_wf_forEach [OF assms]) (auto simp: beginRequestVote_def is_local_def split: ServerKind.splits)
  show "voters (forEach beginRequestVote c) = {}"
    by (auto simp: voters_def forEach_def beginRequestVote_def split: ServerKind.splits)
qed

text \<open>Winning an election with the votes that have arrived.\<close>

lemma campaign_becomeLeader:
  assumes c: "campaign X P s s1" and win: "becomeLeader s1 = Some s'"
    and q: "quorumAll (haveVote (votedFor s1)) (configuration s1)"
  shows "campaign X P s s'"
  unfolding campaign_def
proof (intro impI)
  note r = becomeLeader_result [OF win]
  assume "server_ok s"
  then have ok1: "server_ok s1" and d: "delta s s1" and v: "ballots X s s1"
    using c r(1) by (simp_all add: campaign_def)
  have wf: "conf_wf (serverId s1) (configuration s1)" and vf: "votedFor s1 = serverId s1" and l: "leaderId s1 = 0"
    using ok1 r(1) by (simp_all add: server_ok_def)
  note b = beginLeadership_conf [OF wf, of "lastLog s1"]
  have "server_ok s'" using ok1 r b vf by (simp add: server_ok_def persisted_def)
  moreover have "delta s s'" using d r l by (auto simp: delta_def)
  moreover have "ballots X s s'" using v r b by (simp add: ballots_def)
  moreover have "follows P s s'" using r by (simp add: follows_def)
  moreover have "elected s'" unfolding elected_def using q vf wf r b by (auto intro!: exI [of _ "configuration s1"])
  ultimately show "server_ok s' \<and> delta s s' \<and> follows P s s' \<and> (state s' \<noteq> FOLLOWER \<longrightarrow> ballots X s s') \<and>
     (state s' = LEADER \<longrightarrow> state s = LEADER \<and> currentTerm s' = currentTerm s \<or> elected s')" by blast
qed

text \<open>The state of a server right after it became a candidate.\<close>

definition candidacy :: "Raft \<Rightarrow> Raft" where
  "candidacy s0 = (let
        s1 = s0\<lparr>currentTerm := currentTerm s0 + 1, state := CANDIDATE, leaderId := 0, votedFor := serverId s0\<rparr>;
        s2 = setElectionTimer s1;
        s3 = s2\<lparr>configuration := forEach beginRequestVote (configuration s2), snapshotWriter := None\<rparr>
      in interruptAll (updateLogMetadata s3))"

lemma candidacy_result:
  "state (candidacy s) = CANDIDATE" "leaderId (candidacy s) = 0" "serverId (candidacy s) = serverId s"
  "currentTerm (candidacy s) = currentTerm s + 1" "votedFor (candidacy s) = serverId s"
  "commitIndex (candidacy s) = commitIndex s" "currentEpoch (candidacy s) = currentEpoch s"
  "r_exiting (candidacy s) = r_exiting s" "persisted (candidacy s)" "log_inv (rlog (candidacy s)) = log_inv (rlog s)"
  "configuration (candidacy s) = forEach beginRequestVote (configuration s)"
  by (simp_all add: candidacy_def Let_def basic_defs setElectionTimer_def updateLogMetadata_def persisted_def log_inv_def)

lemma campaign_candidacy: "campaign X P s (candidacy s)"
  using beginRequestVote_conf [of "serverId s" "configuration s"] candidacy_result [of s]
  by (auto simp: campaign_def ballots_def follows_def server_ok_def delta_def)

lemma startNewElection_cases:
  assumes "startNewElection s = Some s'"
  obtains (no_configuration) "conf_id (configuration s) = 0" "s' = setElectionTimer s"
  | (campaigning) "conf_id (configuration s) \<noteq> 0" "s' = candidacy s"
  | (elected) "conf_id (configuration s) \<noteq> 0"
      "quorumAll (haveVote (votedFor (candidacy s))) (configuration (candidacy s))"
      "becomeLeader (candidacy s) = Some s'"
proof (cases "conf_id (configuration s) = 0")
  case True
  then show ?thesis using no_configuration assms by (simp add: startNewElection_def)
next
  case False
  have "(if quorumAll (haveVote (votedFor (candidacy s))) (configuration (candidacy s))
      then becomeLeader (candidacy s) else Some (candidacy s)) = Some s'"
    using assms False unfolding startNewElection_def candidacy_def Let_def by simp
  then show ?thesis using campaigning elected False by (auto split: if_splits)
qed

lemma campaign_startNewElection:
  assumes "startNewElection s = Some s'"
  shows "campaign X P s s'"
  using assms
proof (cases rule: startNewElection_cases)
  case no_configuration
  then show ?thesis using campaign_evolve [OF evolve_basic(7)] by simp
next
  case campaigning
  then show ?thesis using campaign_candidacy by simp
next
  case elected
  then show ?thesis using campaign_becomeLeader [OF campaign_candidacy] by blast
qed

lemma ballots_after_evolve:
  assumes "delta s s1" "state s1 \<noteq> FOLLOWER \<longrightarrow> state s1 = state s \<and> currentTerm s1 = currentTerm s"
    "voters (configuration s1) \<subseteq> voters (configuration s)" "delta s1 s'" "ballots X s1 s'"
  shows "ballots X s s'"
proof (cases "currentTerm s' = currentTerm s1")
  case True
  then have "state s1 \<noteq> FOLLOWER" "voters (configuration s') \<subseteq> voters (configuration s1) \<union> X"
    using assms(5) by (simp_all add: ballots_def)
  then show ?thesis using assms(2,3) True by (auto simp: ballots_def)
next
  case False
  then have "currentTerm s < currentTerm s'" using assms(1,4) by (simp add: delta_def)
  then show ?thesis using assms(5) False by (simp add: ballots_def)
qed

lemma campaign_after_evolve:
  assumes e: "evolve s s1" and c: "campaign X P s1 s'"
  shows "campaign X P s s'"
  unfolding campaign_def
proof (intro impI)
  assume "server_ok s"
  then have e: "server_ok s1" "delta s s1" "state s1 \<noteq> FOLLOWER \<longrightarrow> state s1 = state s \<and> currentTerm s1 = currentTerm s"
    "voters (configuration s1) \<subseteq> voters (configuration s)"
    "leaderId s1 = 0 \<or> leaderId s1 = leaderId s \<and> currentTerm s1 = currentTerm s"
    "state s = LEADER \<longrightarrow> currentTerm s1 = currentTerm s \<longrightarrow> state s1 = LEADER"
    using e unfolding evolve_def by blast+
  then have c: "server_ok s'" "delta s1 s'" "state s' \<noteq> FOLLOWER \<longrightarrow> ballots X s1 s'"
    "state s' = LEADER \<longrightarrow> state s1 = LEADER \<and> currentTerm s' = currentTerm s1 \<or> elected s'" "follows P s1 s'"
    using c unfolding campaign_def by blast+
  have "currentTerm s \<le> currentTerm s1" "currentTerm s1 \<le> currentTerm s'" using e(2) c(2) by (auto simp: delta_def)
  then have m: "currentTerm s' = currentTerm s \<Longrightarrow> currentTerm s1 = currentTerm s" by simp
  have "follows P s s'" using c(5) e(5,6) m by (auto simp: follows_def)
  moreover have "state s' = LEADER \<longrightarrow> state s = LEADER \<and> currentTerm s' = currentTerm s \<or> elected s'"
    using c(4) e(3) by (metis RaftState.distinct(3))
  ultimately show "server_ok s' \<and> delta s s' \<and> follows P s s' \<and> (state s' \<noteq> FOLLOWER \<longrightarrow> ballots X s s') \<and>
     (state s' = LEADER \<longrightarrow> state s = LEADER \<and> currentTerm s' = currentTerm s \<or> elected s')"
    using c(1,3) delta_trans [OF e(2) c(2)] ballots_after_evolve [OF e(2-4) c(2)] by blast
qed

lemma campaign_timerThread_iter:
  assumes "timerThread_iter s = Some s'"
  shows "campaign X P s s'"
proof -
  obtain now s1 where c: "Clock_now s = (now, s1)" by fastforce
  have "s' = s \<or> s' = s1 \<or> startNewElection s1 = Some s'"
    using assms c by (auto simp: timerThread_iter_def split: if_splits)
  then show ?thesis
    using campaign_evolve [OF evolve_Clock [OF c]] campaign_evolve [OF evolve_refl]
      campaign_after_evolve [OF evolve_Clock [OF c] campaign_startNewElection] by blast
qed

text \<open>A vote that arrives is counted for the peer that was asked, and only in the term of the request.\<close>

lemma updatePeer_vote:
  fixes s :: Raft
  assumes "server_ok s" "state s \<noteq> FOLLOWER" "\<And>p. p_incarnation (f p) = p_incarnation p"
  shows "campaign {i} P s (updatePeer i inc f s)"
proof -
  have wf: "conf_wf (serverId s) (configuration (updatePeer i inc f s))"
    unfolding updatePeer_def using assms(1)
    by (auto intro!: conf_wf_updateServer simp: server_ok_def is_local_def split: ServerKind.splits if_splits)
  have "voters (configuration (updatePeer i inc f s)) \<subseteq> voters (configuration s) \<union> {i}"
    by (auto simp: voters_def updatePeer_def updateServer_def split: if_splits)
  then show ?thesis using assms(1,2) wf
    by (auto simp: campaign_def ballots_def follows_def server_ok_def delta_def persisted_def updatePeer_def)
qed

lemma requestVote_receive_cases:
  assumes "requestVote_receive c st s = Some s'"
  obtains (other) "evolve s s'"
  | (vote) resp s1 s2 where "st = CallOK resp" "rvr_granted resp" "currentTerm s = rv_term (call_request c)"
      "state s = CANDIDATE" "rvr_term resp \<le> currentTerm s"
      "s1 = notify_all (updatePeer (call_peer c) (call_incarnation c)
         (\<lambda>p. p\<lparr>requestVoteDone := True, lastAckEpoch := call_epoch c\<rparr>) s)"
      "s2 = updatePeer (call_peer c) (call_incarnation c) (\<lambda>p. p\<lparr>p_haveVote := True\<rparr>) s1"
      "s' = s2 \<or> quorumAll (haveVote (votedFor s2)) (configuration s2) \<and> becomeLeader s2 = Some s'"
proof -
  define s1 where "s1 = notify_all (updatePeer (call_peer c) (call_incarnation c)
         (\<lambda>p. p\<lparr>requestVoteDone := True, lastAckEpoch := call_epoch c\<rparr>) s)"
  define s2 where "s2 = updatePeer (call_peer c) (call_incarnation c) (\<lambda>p. p\<lparr>p_haveVote := True\<rparr>) s1"
  have "s' = callFailed c s \<or> s' = s \<or> s' = s1 \<or> (\<exists>t. currentTerm s < t \<and> stepDown t s = Some s') \<or>
     (\<exists>resp. st = CallOK resp \<and> rvr_granted resp \<and> currentTerm s = rv_term (call_request c) \<and>
      state s = CANDIDATE \<and> rvr_term resp \<le> currentTerm s \<and>
      (s' = s2 \<or> quorumAll (haveVote (votedFor s2)) (configuration s2) \<and> becomeLeader s2 = Some s'))"
    using assms unfolding requestVote_receive_def Let_def s1_def [symmetric] s2_def [symmetric]
    by (auto simp: not_less split: callStatus.splits if_splits)
  then show ?thesis
  proof (elim disjE exE conjE)
    assume "s' = s1"
    moreover have "evolve s s1" unfolding s1_def
      by (rule evolve_trans [OF evolve_updatePeer evolve_basic(1)]) simp
    ultimately show ?thesis using other by simp
  next
    assume "s' = callFailed c s"
    then show ?thesis using other evolve_callFailed [of s c] by simp
  next
    assume "s' = s"
    then show ?thesis using other by simp
  next
    fix t assume "currentTerm s < t" "stepDown t s = Some s'"
    then show ?thesis using other evolve_stepDown by blast
  qed (use vote [OF _ _ _ _ _ s1_def s2_def] in blast)+
qed

lemma campaign_requestVote_receive:
  assumes "requestVote_receive c st s = Some s'"
  shows "campaign (if \<exists>resp. st = CallOK resp \<and> rvr_granted resp \<and> currentTerm s = rv_term (call_request c)
    then {call_peer c} else {}) P s s'"
  using assms
proof (cases rule: requestVote_receive_cases)
  case other
  then show ?thesis by (rule campaign_evolve)
next
  case (vote resp s1 s2)
  have e: "evolve s s1" unfolding vote(6) by (rule evolve_trans [OF evolve_updatePeer evolve_basic(1)]) simp
  have st: "state s1 \<noteq> FOLLOWER" using vote(4) by (simp add: vote(6) notify_all_def updatePeer_def)
  have c2: "campaign {call_peer c} P s s2"
  proof (cases "server_ok s")
    case True
    then have "server_ok s1" using e by (simp add: evolve_def)
    then show ?thesis unfolding vote(7)
      by (intro campaign_after_evolve [OF e] updatePeer_vote) (simp_all add: st)
  qed (simp add: campaign_def)
  have "campaign {call_peer c} P s s'" using vote(8) c2 campaign_becomeLeader [OF c2] by auto
  then show ?thesis using vote(1,2,3) by simp
qed

section \<open>Restarting\<close>

lemma snapshot_ops_frame:
  "currentTerm (discardUnneededEntries s) = currentTerm s" "votedFor (discardUnneededEntries s) = votedFor s"
  "serverId (discardUnneededEntries s) = serverId s" "currentTerm (dropLog s) = currentTerm s"
  "votedFor (dropLog s) = votedFor s" "serverId (dropLog s) = serverId s"
  by (simp_all add: discardUnneededEntries_def dropLog_def basic_defs frame_simps)

lemma readSnapshot_frame:
  assumes "readSnapshot pb s0 = Some s'"
  shows "currentTerm s' = currentTerm s0" "votedFor s' = votedFor s0" "serverId s' = serverId s0"
proof -
  have "currentTerm s' = currentTerm s0 \<and> votedFor s' = votedFor s0 \<and> serverId s' = serverId s0"
    using assms
  proof (cases rule: readSnapshot_cases)
    case (loaded f h r d s1 s2 s4)
    have co: "conf_only (discardUnneededEntries s2) s4" using loaded(8) conf_only_cm_setSnapshot by blast
    show ?thesis using loaded(4,5,9)
      by (simp add: conf_only_frame [OF co] snapshot_ops_frame loadHeader_def notify_all_def)
  qed simp
  then show "currentTerm s' = currentTerm s0" "votedFor s' = votedFor s0" "serverId s' = serverId s0" by simp_all
qed

text \<open>A restarted server has the term and the vote that are on disk, and is a follower.\<close>

lemma init_result:
  assumes "init pb (mkRaft cfg sid addrs clk rnd disk l) = Some s'" "sid \<noteq> 0" "log_inv l"
    "t = (case md_current_term (metadata l) of Some t \<Rightarrow> t | None \<Rightarrow> 0)"
    "v = (case md_voted_for (metadata l) of Some v \<Rightarrow> v | None \<Rightarrow> 0)"
  shows "server_ok s'" "serverId s' = sid" "currentTerm s' = t" "votedFor s' = v" "state s' = FOLLOWER" "leaderId s' = 0"
proof -
  define s0 where "s0 = mkRaft cfg sid addrs clk rnd disk l"
  define s1 where "s1 = addConfigurations (logStart s0) (entries (rlog s0)) s0"
  obtain s2 s4 s5 where
    s2: "s2 = s1 \<or> (\<exists>ct. s2 = newEpoch ct s1)"
    and s4: "readSnapshot pb (updateLogMetadata (s2\<lparr>currentTerm := (case md_current_term (metadata (rlog s2)) of
          Some t \<Rightarrow> t | None \<Rightarrow> currentTerm s2), votedFor := (case md_voted_for (metadata (rlog s2)) of
          Some v \<Rightarrow> v | None \<Rightarrow> votedFor s2)\<rparr>)) = Some s4"
    and s5: "stepDown (currentTerm s4) s4 = Some s5" and s': "s' = notify_all s5"
    using assms(1) unfolding init_def s0_def [symmetric] Let_def s1_def
    by (auto split: if_splits elim!: bind_SomeE)
  have k: "keeps s0 s1" unfolding s1_def by (rule keeps_addConfigurations)
  have c1: "conf_wf sid (configuration s1)" "serverId s1 = sid" "rlog s1 = l" "state s1 = FOLLOWER"
    "leaderId s1 = 0" "currentTerm s1 = 0" "votedFor s1 = 0"
    using k conf_wf_mkConfiguration [of sid] conf_only_frame [of s0 s1]
    by (simp_all add: keeps_def s0_def mkRaft_def)
  have c2: "configuration s2 = configuration s1" "serverId s2 = sid" "rlog s2 = l" "state s2 = FOLLOWER"
    "currentTerm s2 = 0" "votedFor s2 = 0" "leaderId s2 = 0"
    using s2 c1 by (auto simp: basic_defs)
  define s3 where "s3 = updateLogMetadata (s2\<lparr>currentTerm := t, votedFor := v\<rparr>)"
  have ok3: "server_ok s3" "currentTerm s3 = t" "votedFor s3 = v" "serverId s3 = sid"
    "leaderId s3 = 0" "state s3 = FOLLOWER"
    using c1 c2 assms(2,3) by (simp_all add: s3_def server_ok_def persisted_def updateLogMetadata_def log_inv_def)
  have s4: "readSnapshot pb s3 = Some s4" using s4 c2 assms(4,5)
    by (cases "md_current_term (metadata l)"; cases "md_voted_for (metadata l)") (simp_all add: s3_def)
  note e4 = evolve_readSnapshot [OF s4]
  have t4: "currentTerm s4 = t" "votedFor s4 = v" "serverId s4 = sid"
    using readSnapshot_frame [OF s4] ok3 by simp_all
  have st4: "state s4 = FOLLOWER" using e4 ok3(1,6) unfolding evolve_def by metis
  have e: "evolve s3 s'" unfolding s'
    by (rule evolve_trans [OF e4 evolve_trans [OF evolve_stepDown [OF s5] evolve_basic(1)]]) (simp add: st4)
  have "leaderId s' = 0 \<or> leaderId s' = leaderId s3" using e ok3(1) unfolding evolve_def by blast
  then show "leaderId s' = 0" using ok3(5) by auto
  show "server_ok s'" using e ok3(1) by (simp add: evolve_def)
  show "serverId s' = sid" using e ok3 by (simp add: evolve_def delta_def)
  show "currentTerm s' = t" "votedFor s' = v" "state s' = FOLLOWER"
    using stepDown_result [OF s5] t4 by (simp_all add: s' notify_all_def)
qed

end
