(* ===== verification/LC_Cluster.thy ===== *)
theory LC_Cluster
  imports LC_RaftOps
begin

text \<open>
  A cluster: servers that exchange the messages of the protocol over a network which may lose,
  delay, repeat and reorder them, that crash and restart, and whose threads and clients take
  steps at any time. A message stays in the network for ever, so receiving it again models
  repetition, and never receiving it models its loss. Each step of the cluster is one critical
  section of one server, as the model of \<^verbatim>\<open>src/Server/RaftConsensus.cc\<close> defines it.

  Two history variables record who voted for whom and who was leader in each term. The main
  result is that a term has at most one leader, in every run in which one simple configuration
  is part of all the configurations in use: a stable configuration, or either half of a change
  of membership by joint consensus.
\<close>

section \<open>Steps\<close>

text \<open>The index up to which the disk thread has reported the log of a leader to be on disk.\<close>

definition lastSynced :: "Raft \<Rightarrow> nat" where
  "lastSynced s = (case map_of (knownServers (configuration s)) (serverId s) of Some sv \<Rightarrow> getMatchIndex sv | None \<Rightarrow> 0)"

text \<open>The steps that a server takes on its own, apart from its election timer. The disk thread finishes its writes
  in the order in which it takes them, so the index that it reports never falls.\<close>

inductive raft_local :: "ProtoBuf \<Rightarrow> (nat \<Rightarrow> string) \<Rightarrow> Raft \<Rightarrow> Raft \<Rightarrow> bool" for pb serialize where
  exit: "raft_local pb serialize s (raft_exit s)"
| bootstrap: "bootstrapConfiguration s = Some s' \<Longrightarrow> raft_local pb serialize s s'"
| upToDate: "raft_local pb serialize s (snd (upToDateLeader_begin s))"
| replicate: "replicate_begin operation s = Some (w, s') \<Longrightarrow> raft_local pb serialize s s'"
| stage: "setConfiguration_begin old new s = Some (r, s') \<Longrightarrow> raft_local pb serialize s s'"
| catchUp: "raft_local pb serialize s (snd (setConfiguration_catchUp stg s))"
| transition: "setConfiguration_transition new s = Some (w, s') \<Longrightarrow> raft_local pb serialize s s'"
| supported: "raft_local pb serialize s (setSupportedStateMachineVersions lo hi s)"
| deliver: "getNextEntry pb i s = Some (r, s') \<Longrightarrow> raft_local pb serialize s s'"
| snapshot: "snapshotDone i w s = Some s' \<Longrightarrow> raft_local pb serialize s s'"
| disk_take: "raft_local pb serialize s (snd (leaderDisk_take s))"
| disk_written: "raft_local pb serialize s (leaderDisk_written s)"
| disk_done: "leaderDisk_done sync s = Some s' \<Longrightarrow> lastSynced s \<le> snd sync \<Longrightarrow> raft_local pb serialize s s'"
| idle: "raft_local pb serialize s (snd (peerThread_iter j inc s))"
| round_begin: "raft_local pb serialize s (snd (stepDownThread_outer s))"
| round: "stepDownThread_inner r s = Some (b, s') \<Longrightarrow> raft_local pb serialize s s'"
| updater: "stateMachineUpdater_iter serialize v backoff s = Some (a, s') \<Longrightarrow> raft_local pb serialize s s'"

lemma evolve_raft_local: "raft_local pb serialize s s' \<Longrightarrow> evolve s s'"
  by (induction rule: raft_local.induct)
    (auto simp: replicate_begin_def setConfiguration_transition_def intro: evolve_raft_exit evolve_bootstrapConfiguration
      evolve_upToDateLeader_begin evolve_replicateEntry_begin evolve_setConfiguration_begin
      evolve_setConfiguration_catchUp evolve_setSupportedStateMachineVersions evolve_getNextEntry evolve_snapshotDone
      evolve_leaderDisk_take evolve_leaderDisk_written evolve_leaderDisk_done evolve_peerThread_iter
      evolve_stepDownThread_outer evolve_stepDownThread_inner evolve_stateMachineUpdater_iter)

text \<open>A request carries its receiver and a reply its sender, together with the request it answers.\<close>

datatype Message =
    VoteRequest nat RequestVoteRequest
  | VoteReply nat RequestVoteRequest RequestVoteResponse
  | EntriesRequest nat AppendEntriesRequest
  | EntriesReply nat AppendEntriesRequest AppendEntriesResponse
  | SnapshotRequest nat InstallSnapshotRequest
  | SnapshotReply nat InstallSnapshotRequest InstallSnapshotResponse

datatype PendingCall =
    VoteCall "RequestVoteRequest Call"
  | EntriesCall "AppendEntriesRequest Call"
  | SnapshotCall "InstallSnapshotRequest Call"

record Cluster =
  servers :: "nat \<Rightarrow> Raft option"
  net :: "Message set"
  pending :: "(nat \<times> PendingCall) set"
  votes :: "(nat \<times> nat \<times> nat) set"
  leaders :: "(nat \<times> nat) set"

definition emptyCluster :: Cluster where
  "emptyCluster = \<lparr>servers = Map.empty, net = {}, pending = {}, votes = {}, leaders = {}\<rparr>"

text \<open>Server \<open>i\<close> moves to the state \<open>s\<close>, sends the messages \<open>ms\<close> and starts the calls \<open>cs\<close>; its vote and its
  leadership are recorded.\<close>

definition advance :: "nat \<Rightarrow> Raft \<Rightarrow> Message set \<Rightarrow> PendingCall set \<Rightarrow> Cluster \<Rightarrow> Cluster" where
  "advance i s ms cs C = C\<lparr>servers := (servers C)(i \<mapsto> s), net := net C \<union> ms,
     pending := pending C \<union> (\<lambda>c. (i, c)) ` cs,
     votes := votes C \<union> (if votedFor s = 0 then {} else {(i, currentTerm s, votedFor s)}),
     leaders := leaders C \<union> (if state s = LEADER then {(currentTerm s, i)} else {})\<rparr>"

text \<open>What the log of a server keeps over a crash: the metadata, and a prefix of the entries with all that were synced. A
  leader leaves syncing to its disk thread, and any other server syncs before it goes on.\<close>

definition synced :: "Raft \<Rightarrow> nat" where
  "synced s = (if state s = LEADER then min (lastSynced s) (lastLog s) else lastLog s)"

definition survives :: "Raft \<Rightarrow> MemoryLog \<Rightarrow> bool" where
  "survives s l \<longleftrightarrow> metadata l = metadata (rlog s) \<and> startIndex l = startIndex (rlog s) \<and>
     (\<exists>n. entries l = take n (entries (rlog s))) \<and> synced s \<le> getLastLogIndex l"

fun outMessages :: "nat \<Rightarrow> outgoing \<Rightarrow> Message" where
  "outMessages j (SendAppendEntries c) = EntriesRequest j (call_request c)"
| "outMessages j (SendInstallSnapshot c) = SnapshotRequest j (call_request c)"

fun outCall :: "outgoing \<Rightarrow> PendingCall" where
  "outCall (SendAppendEntries c) = EntriesCall c"
| "outCall (SendInstallSnapshot c) = SnapshotCall c"

inductive cluster_step :: "ProtoBuf \<Rightarrow> (nat \<Rightarrow> string) \<Rightarrow> Cluster \<Rightarrow> Cluster \<Rightarrow> bool" for pb serialize where
  boot: "servers C i = None \<Longrightarrow> i \<noteq> 0 \<Longrightarrow> log_inv l \<Longrightarrow>
    metadata l = \<lparr>md_current_term = None, md_voted_for = None\<rparr> \<Longrightarrow>
    init pb (mkRaft cfg i addrs clk rnd None l) = Some s' \<Longrightarrow>
    cluster_step pb serialize C (advance i s' {} {} C)"
| restart: "servers C i = Some s \<Longrightarrow> survives s l \<Longrightarrow>
    init pb (mkRaft cfg i addrs clk rnd (snapshotOnDisk s) l) = Some s' \<Longrightarrow>
    cluster_step pb serialize C (advance i s' {} {} (C\<lparr>pending := {(k, c) \<in> pending C. k \<noteq> i}\<rparr>))"
| own: "servers C i = Some s \<Longrightarrow> raft_local pb serialize s s' \<Longrightarrow>
    cluster_step pb serialize C (advance i s' {} {} C)"
| timer: "servers C i = Some s \<Longrightarrow> timerThread_iter s = Some s' \<Longrightarrow>
    cluster_step pb serialize C (advance i s' {} {} C)"
| ask: "servers C i = Some s \<Longrightarrow> peerThread_iter j inc s = (PeerRequestVote, s1) \<Longrightarrow>
    requestVote_send j inc s1 = Some (c, s') \<Longrightarrow>
    cluster_step pb serialize C (advance i s' {VoteRequest j (call_request c)} {VoteCall c} C)"
| send: "servers C i = Some s \<Longrightarrow> peerThread_iter j inc s = (PeerAppendEntries, s1) \<Longrightarrow>
    appendEntries_send pb j inc s1 = Some (out, s') \<Longrightarrow>
    cluster_step pb serialize C (advance i s' {outMessages j out} {outCall out} C)"
| vote: "servers C i = Some s \<Longrightarrow> VoteRequest i req \<in> net C \<Longrightarrow> handleRequestVote req s = Some (resp, s') \<Longrightarrow>
    cluster_step pb serialize C (advance i s' {VoteReply i req resp} {} C)"
| store: "servers C i = Some s \<Longrightarrow> EntriesRequest i req \<in> net C \<Longrightarrow> handleAppendEntries req s = Some (resp, s') \<Longrightarrow>
    cluster_step pb serialize C (advance i s' {EntriesReply i req resp} {} C)"
| install: "servers C i = Some s \<Longrightarrow> SnapshotRequest i req \<in> net C \<Longrightarrow>
    handleInstallSnapshot pb req s = Some (resp, s') \<Longrightarrow>
    cluster_step pb serialize C (advance i s' {SnapshotReply i req resp} {} C)"
| count: "servers C i = Some s \<Longrightarrow> (i, VoteCall c) \<in> pending C \<Longrightarrow>
    st = CallFailed \<or> (\<exists>resp. st = CallOK resp \<and> VoteReply (call_peer c) (call_request c) resp \<in> net C) \<Longrightarrow>
    requestVote_receive c st s = Some s' \<Longrightarrow>
    cluster_step pb serialize C (advance i s' {} {} C)"
| stored: "servers C i = Some s \<Longrightarrow> (i, EntriesCall c) \<in> pending C \<Longrightarrow>
    st = CallFailed \<or> (\<exists>resp. st = CallOK resp \<and> EntriesReply (call_peer c) (call_request c) resp \<in> net C) \<Longrightarrow>
    appendEntries_receive c st s = Some s' \<Longrightarrow>
    cluster_step pb serialize C (advance i s' {} {} C)"
| installed: "servers C i = Some s \<Longrightarrow> (i, SnapshotCall c) \<in> pending C \<Longrightarrow>
    st = CallFailed \<or> (\<exists>resp. st = CallOK resp \<and> SnapshotReply (call_peer c) (call_request c) resp \<in> net C) \<Longrightarrow>
    installSnapshot_receive c st s = Some s' \<Longrightarrow>
    cluster_step pb serialize C (advance i s' {} {} C)"

text \<open>The simple configuration \<open>V\<close> is part of what every candidate and leader needs a quorum of.\<close>

definition shares :: "nat list \<Rightarrow> Cluster \<Rightarrow> bool" where
  "shares V C \<longleftrightarrow> (\<forall>i s. servers C i = Some s \<longrightarrow> state s \<noteq> FOLLOWER \<longrightarrow> V \<in> set (membership (configuration s)))"

inductive cluster_run :: "ProtoBuf \<Rightarrow> (nat \<Rightarrow> string) \<Rightarrow> nat list \<Rightarrow> Cluster \<Rightarrow> bool" for pb serialize V where
  start: "cluster_run pb serialize V emptyCluster"
| step: "cluster_run pb serialize V C \<Longrightarrow> cluster_step pb serialize C C' \<Longrightarrow> shares V C' \<Longrightarrow>
    cluster_run pb serialize V C'"

section \<open>The invariant\<close>

definition inv_servers :: "Cluster \<Rightarrow> bool" where
  "inv_servers C \<longleftrightarrow> (\<forall>i s. servers C i = Some s \<longrightarrow> server_ok s \<and> serverId s = i) \<and>
     (\<forall>i k. (i, k) \<in> pending C \<longrightarrow> servers C i \<noteq> None)"

text \<open>A server votes once per term, and remembers its vote of the current term.\<close>

definition inv_votes :: "Cluster \<Rightarrow> bool" where
  "inv_votes C \<longleftrightarrow>
     (\<forall>j t c. (j, t, c) \<in> votes C \<longrightarrow> c \<noteq> 0 \<and>
        (\<exists>s. servers C j = Some s \<and> t \<le> currentTerm s \<and> (t = currentTerm s \<longrightarrow> votedFor s = c))) \<and>
     (\<forall>j t c c'. (j, t, c) \<in> votes C \<longrightarrow> (j, t, c') \<in> votes C \<longrightarrow> c = c') \<and>
     (\<forall>i s. servers C i = Some s \<longrightarrow> votedFor s \<noteq> 0 \<longrightarrow> (i, currentTerm s, votedFor s) \<in> votes C)"

text \<open>Candidates count votes that were cast, and a leader had a majority of \<open>V\<close>.\<close>

definition inv_leaders :: "nat list \<Rightarrow> Cluster \<Rightarrow> bool" where
  "inv_leaders V C \<longleftrightarrow>
     (\<forall>i s j. servers C i = Some s \<longrightarrow> state s \<noteq> FOLLOWER \<longrightarrow> j \<in> voters (configuration s) \<longrightarrow> (j, currentTerm s, i) \<in> votes C) \<and>
     (\<forall>t i. (t, i) \<in> leaders C \<longrightarrow> length V div 2 + 1 \<le> length (filter (\<lambda>j. (j, t, i) \<in> votes C) V)) \<and>
     (\<forall>i s. servers C i = Some s \<longrightarrow> state s = LEADER \<longrightarrow> (currentTerm s, i) \<in> leaders C) \<and>
     (\<forall>i s. servers C i = Some s \<longrightarrow> leaderId s \<noteq> 0 \<longrightarrow> (currentTerm s, leaderId s) \<in> leaders C)"

text \<open>Granted votes were cast, only leaders send entries and snapshots, and a reply is not older than its
  request.\<close>

fun message_ok :: "Cluster \<Rightarrow> Message \<Rightarrow> bool" where
  "message_ok C (VoteRequest j req) \<longleftrightarrow> rv_server_id req \<noteq> 0"
| "message_ok C (VoteReply j req resp) \<longleftrightarrow> (rvr_granted resp \<longrightarrow> (j, rv_term req, rv_server_id req) \<in> votes C)"
| "message_ok C (EntriesRequest j req) \<longleftrightarrow> (ae_term req, ae_server_id req) \<in> leaders C \<and> j \<noteq> ae_server_id req"
| "message_ok C (SnapshotRequest j req) \<longleftrightarrow> (is_term req, is_server_id req) \<in> leaders C \<and> j \<noteq> is_server_id req"
| "message_ok C (EntriesReply j req resp) \<longleftrightarrow> ae_term req \<le> aer_term resp"
| "message_ok C (SnapshotReply j req resp) \<longleftrightarrow> is_term req \<le> isr_term resp"

text \<open>A call for entries or a snapshot was made as a leader.\<close>

definition call_ok :: "nat \<Rightarrow> nat \<Rightarrow> Raft \<Rightarrow> bool" where
  "call_ok i t s \<longleftrightarrow> t \<le> currentTerm s \<and> (t = currentTerm s \<longrightarrow> state s = LEADER)"

fun pending_ok :: "Cluster \<Rightarrow> nat \<times> PendingCall \<Rightarrow> bool" where
  "pending_ok C (i, VoteCall c) \<longleftrightarrow> rv_server_id (call_request c) = i"
| "pending_ok C (i, EntriesCall c) \<longleftrightarrow> (\<forall>s. servers C i = Some s \<longrightarrow> call_ok i (ae_term (call_request c)) s)"
| "pending_ok C (i, SnapshotCall c) \<longleftrightarrow> (\<forall>s. servers C i = Some s \<longrightarrow> call_ok i (is_term (call_request c)) s)"

definition inv_net :: "Cluster \<Rightarrow> bool" where
  "inv_net C \<longleftrightarrow> (\<forall>m \<in> net C. message_ok C m) \<and> (\<forall>p \<in> pending C. pending_ok C p)"

definition cluster_inv :: "nat list \<Rightarrow> Cluster \<Rightarrow> bool" where
  "cluster_inv V C \<longleftrightarrow> inv_servers C \<and> inv_votes C \<and> inv_leaders V C \<and> inv_net C"

lemma leaders_unique:
  assumes "cluster_inv V C" "V \<noteq> []" "(t, i) \<in> leaders C" "(t, i') \<in> leaders C"
  shows "i = i'"
proof -
  have "simple_quorumAll (\<lambda>j. (j, t, i) \<in> votes C) V" "simple_quorumAll (\<lambda>j. (j, t, i') \<in> votes C) V"
    using assms by (simp_all add: cluster_inv_def inv_leaders_def simple_quorumAll_def)
  then obtain j where "(j, t, i) \<in> votes C" "(j, t, i') \<in> votes C"
    using simple_quorum_intersect [OF _ _ assms(2)] by blast
  then show ?thesis using assms(1) unfolding cluster_inv_def inv_votes_def by blast
qed

section \<open>Winning an election\<close>

lemma lookupServers_map:
  assumes "set ids \<subseteq> fst ` set (knownServers c)"
  shows "lookupServers c ids = map (\<lambda>i. the (map_of (knownServers c) i)) ids"
proof -
  have "map_of (knownServers c) i \<noteq> None" if "i \<in> set ids" for i
    using assms that by (auto simp: map_of_eq_None_iff)
  then show ?thesis unfolding lookupServers_def
  proof (induction ids)
    case (Cons a ids)
    then obtain y where "map_of (knownServers c) a = Some y" by (metis list.set_intros(1) not_None_eq)
    then show ?case using Cons by (simp add: map_filter_simps)
  qed (simp add: map_filter_simps)
qed

lemma haveVote_known:
  assumes "conf_wf sid c" "i \<in> fst ` set (knownServers c)" "haveVote sid (the (map_of (knownServers c) i))"
  shows "i = sid \<or> i \<in> voters c"
proof -
  obtain sv where sv: "map_of (knownServers c) i = Some sv"
    using assms(2) by (metis map_of_eq_None_iff not_None_eq)
  then have e: "(i, sv) \<in> set (knownServers c)" by (rule map_of_SomeD)
  then have "srv_id sv = i" using assms(1) by (auto simp: conf_wf_def known_wf_def)
  then show ?thesis using assms(3) sv e by (auto simp: haveVote_def voters_def split: ServerKind.splits)
qed

lemma elected_majority:
  assumes "elected s" "V \<in> set (membership (configuration s))" "V \<noteq> []"
    "\<forall>j \<in> voters (configuration s). R j" "R (serverId s)"
  shows "length V div 2 + 1 \<le> length (filter R V)"
proof -
  obtain c where c: "conf_wf (serverId s) c" "membership c = membership (configuration s)"
    "voters c = voters (configuration s)" "quorumAll (haveVote (serverId s)) c"
    using assms(1) by (auto simp: elected_def)
  have V: "set V \<subseteq> fst ` set (knownServers c)"
    using c(1,2) assms(2) by (auto simp: conf_wf_def membership_def split: if_splits)
  let ?g = "\<lambda>i. the (map_of (knownServers c) i)"
  have "simple_quorumAll (haveVote (serverId s)) (lookupServers c V)"
    using c(2,4) assms(2) by (simp add: quorumAll_membership)
  then have "length V div 2 + 1 \<le> length (filter (\<lambda>i. haveVote (serverId s) (?g i)) V)"
    using assms(3) by (simp add: simple_quorumAll_def lookupServers_map [OF V] filter_map comp_def)
  also have "\<dots> \<le> length (filter R V)"
  proof (rule length_filter_mono)
    fix i assume "i \<in> set V" "haveVote (serverId s) (?g i)"
    then have "i = serverId s \<or> i \<in> voters c" using haveVote_known [OF c(1), of i] V by blast
    then show "R i" using c(3) assms(4,5) by auto
  qed
  finally show ?thesis .
qed

section \<open>Every step keeps the invariant\<close>

lemma advance_fields [simp]:
  "servers (advance i s ms cs C) = (servers C)(i \<mapsto> s)" "net (advance i s ms cs C) = net C \<union> ms"
  "pending (advance i s ms cs C) = pending C \<union> (\<lambda>c. (i, c)) ` cs"
  by (simp_all add: advance_def)

lemma advance_grows: "votes C \<subseteq> votes (advance i s ms cs C)" "leaders C \<subseteq> leaders (advance i s ms cs C)"
  by (auto simp: advance_def)

lemma message_ok_mono:
  "message_ok C m \<Longrightarrow> votes C \<subseteq> votes C' \<Longrightarrow> leaders C \<subseteq> leaders C' \<Longrightarrow> message_ok C' m"
  by (cases m) auto

text \<open>What the invariant needs of a step of one server; a restart qualifies too.\<close>

definition moves :: "nat set \<Rightarrow> (nat \<times> nat) set \<Rightarrow> Raft \<Rightarrow> Raft \<Rightarrow> bool" where
  "moves X P s s' \<longleftrightarrow> server_ok s' \<and> serverId s' = serverId s \<and> currentTerm s \<le> currentTerm s' \<and>
     (currentTerm s' = currentTerm s \<longrightarrow> votedFor s \<noteq> 0 \<longrightarrow> votedFor s' = votedFor s) \<and>
     (leaderId s' = 0 \<or> leaderId s' = leaderId s \<and> currentTerm s' = currentTerm s \<or>
      leaderId s' = serverId s' \<and> state s' = LEADER \<or> (currentTerm s', leaderId s') \<in> P) \<and>
     (state s' \<noteq> FOLLOWER \<longrightarrow> ballots X s s') \<and>
     (state s' = LEADER \<longrightarrow> state s = LEADER \<and> currentTerm s' = currentTerm s \<or> elected s')"

lemma campaign_moves: "campaign X P s s' \<Longrightarrow> server_ok s \<Longrightarrow> moves X P s s'"
  unfolding campaign_def moves_def delta_def follows_def by blast

lemma inv_votes_advance:
  assumes inv: "inv_votes C" and s: "servers C i = Some s" and d: "moves X P s s'"
  shows "inv_votes (advance i s' ms cs C)"
proof -
  let ?C = "advance i s' ms cs C"
  have old: "c \<noteq> 0" "\<exists>u. servers C j = Some u \<and> t \<le> currentTerm u \<and> (t = currentTerm u \<longrightarrow> votedFor u = c)"
    if "(j, t, c) \<in> votes C" for j t c
    using inv that unfolding inv_votes_def by blast+
  have mine: "t \<le> currentTerm s'" "t = currentTerm s' \<Longrightarrow> votedFor s' = c" if "(i, t, c) \<in> votes C" for t c
    using old [OF that] s d by (auto simp: moves_def)
  have split: "(j, t, c) \<in> votes ?C \<longleftrightarrow> (j, t, c) \<in> votes C \<or>
      j = i \<and> t = currentTerm s' \<and> c = votedFor s' \<and> votedFor s' \<noteq> 0" for j t c
    by (auto simp: advance_def)
  show ?thesis unfolding inv_votes_def
  proof (intro conjI allI impI)
    fix j t c assume v: "(j, t, c) \<in> votes ?C"
    show "c \<noteq> 0" using v old(1) unfolding split by blast
    show "\<exists>u. servers ?C j = Some u \<and> t \<le> currentTerm u \<and> (t = currentTerm u \<longrightarrow> votedFor u = c)"
    proof (cases "j = i")
      case True
      then show ?thesis using v mine unfolding split by auto
    next
      case False
      then show ?thesis using v old(2) unfolding split by auto
    qed
  next
    fix j t c c' assume "(j, t, c) \<in> votes ?C" "(j, t, c') \<in> votes ?C"
    then show "c = c'" using mine inv unfolding split inv_votes_def by blast
  next
    fix j u assume "servers ?C j = Some u" "votedFor u \<noteq> 0"
    then show "(j, currentTerm u, votedFor u) \<in> votes ?C"
      using inv unfolding split inv_votes_def by (cases "j = i") auto
  qed
qed

text \<open>The rules for leaders, when server \<open>i\<close> takes a step.\<close>

lemma inv_leaders_advance:
  assumes inv: "cluster_inv V C" and s: "servers C i = Some s" and V: "V \<noteq> []"
    and c: "moves X P s s'" and X: "\<forall>j \<in> X. (j, currentTerm s, i) \<in> votes C" and P: "P \<subseteq> leaders C"
    and sh: "shares V (advance i s' ms cs C)"
  shows "inv_leaders V (advance i s' ms cs C)"
proof -
  let ?C = "advance i s' ms cs C"
  have ok: "server_ok s" "serverId s = i" using inv s by (auto simp: cluster_inv_def inv_servers_def)
  have c: "server_ok s'" "serverId s' = serverId s"
    "leaderId s' = 0 \<or> leaderId s' = leaderId s \<and> currentTerm s' = currentTerm s \<or>
      leaderId s' = serverId s' \<and> state s' = LEADER \<or> (currentTerm s', leaderId s') \<in> P"
    "state s' \<noteq> FOLLOWER \<longrightarrow> ballots X s s'"
    "state s' = LEADER \<longrightarrow> state s = LEADER \<and> currentTerm s' = currentTerm s \<or> elected s'"
    using c unfolding moves_def by blast+
  have sid: "serverId s' = i" using c(2) ok(2) by simp
  have inv: "\<And>i s j. servers C i = Some s \<Longrightarrow> state s \<noteq> FOLLOWER \<Longrightarrow> j \<in> voters (configuration s) \<Longrightarrow> (j, currentTerm s, i) \<in> votes C"
    "\<And>t i. (t, i) \<in> leaders C \<Longrightarrow> length V div 2 + 1 \<le> length (filter (\<lambda>j. (j, t, i) \<in> votes C) V)"
    "\<And>i s. servers C i = Some s \<Longrightarrow> state s = LEADER \<Longrightarrow> (currentTerm s, i) \<in> leaders C"
    "\<And>i s. servers C i = Some s \<Longrightarrow> leaderId s \<noteq> 0 \<Longrightarrow> (currentTerm s, leaderId s) \<in> leaders C"
    using inv unfolding cluster_inv_def inv_leaders_def by blast+
  have vote: "(j, currentTerm s', i) \<in> votes ?C" if "state s' \<noteq> FOLLOWER" "j \<in> voters (configuration s')" for j
  proof -
    have "currentTerm s' = currentTerm s" "state s \<noteq> FOLLOWER" "j \<in> voters (configuration s) \<union> X"
      using c(4) that by (auto simp: ballots_def split: if_splits)
    then show ?thesis using inv(1) [OF s] X advance_grows(1) by fastforce
  qed
  have self: "(i, currentTerm s', i) \<in> votes ?C" if "state s' \<noteq> FOLLOWER"
  proof -
    have "votedFor s' = i" "i \<noteq> 0" using c(1) that sid by (cases "state s'"; auto simp: server_ok_def)+
    then show ?thesis by (simp add: advance_def)
  qed
  have maj: "length V div 2 + 1 \<le> length (filter (\<lambda>j. (j, currentTerm s', i) \<in> votes ?C) V)" if l: "state s' = LEADER"
  proof (cases "state s = LEADER \<and> currentTerm s' = currentTerm s")
    case True
    then have "length V div 2 + 1 \<le> length (filter (\<lambda>j. (j, currentTerm s', i) \<in> votes C) V)" using inv(2,3) s by simp
    also have "\<dots> \<le> length (filter (\<lambda>j. (j, currentTerm s', i) \<in> votes ?C) V)"
      by (rule length_filter_mono) (use advance_grows(1) in blast)
    finally show ?thesis .
  next
    case False
    have "V \<in> set (membership (configuration s'))" using sh l unfolding shares_def
      by (metis RaftState.distinct(3) advance_fields(1) fun_upd_same)
    then show ?thesis using elected_majority [of s' V "\<lambda>j. (j, currentTerm s', i) \<in> votes ?C"] c(5) False l V vote self sid by auto
  qed
  show ?thesis unfolding inv_leaders_def
  proof (intro conjI allI impI)
    fix k u j assume "servers ?C k = Some u" "state u \<noteq> FOLLOWER" "j \<in> voters (configuration u)"
    then show "(j, currentTerm u, k) \<in> votes ?C"
      using vote inv(1) advance_grows(1) by (cases "k = i") fastforce+
  next
    fix t k assume "(t, k) \<in> leaders ?C"
    then consider "(t, k) \<in> leaders C" | "state s' = LEADER" "t = currentTerm s'" "k = i"
      by (auto simp: advance_def split: if_splits)
    then show "length V div 2 + 1 \<le> length (filter (\<lambda>j. (j, t, k) \<in> votes ?C) V)"
    proof cases
      case 1
      have "length (filter (\<lambda>j. (j, t, k) \<in> votes C) V) \<le> length (filter (\<lambda>j. (j, t, k) \<in> votes ?C) V)"
        by (rule length_filter_mono) (use advance_grows(1) in blast)
      then show ?thesis using inv(2) [OF 1] by simp
    qed (use maj in simp)
  next
    fix k u assume "servers ?C k = Some u" "state u = LEADER"
    then show "(currentTerm u, k) \<in> leaders ?C"
      using inv(3) by (cases "k = i") (auto simp: advance_def)
  next
    fix k u assume k: "servers ?C k = Some u" "leaderId u \<noteq> 0"
    show "(currentTerm u, leaderId u) \<in> leaders ?C"
    proof (cases "k = i")
      case True
      then have u: "u = s'" using k by simp
      then show ?thesis using c(3) k(2) inv(4) [OF s] P sid advance_grows(2) by (fastforce simp: advance_def)
    next
      case False
      then show ?thesis using k inv(4) advance_grows(2) by fastforce
    qed
  qed
qed

lemma call_ok_step:
  assumes inv: "cluster_inv V C" and s: "servers C i = Some s" and V: "V \<noteq> []"
    and c: "campaign X P s s'" and P: "P \<subseteq> leaders C" "\<forall>(t, l) \<in> P. l \<noteq> i" and k: "call_ok i t s"
  shows "call_ok i t s'"
proof -
  have ok: "server_ok s" using inv s by (auto simp: cluster_inv_def inv_servers_def)
  have d: "delta s s'" and f: "follows P s s'" using c ok unfolding campaign_def by blast+
  have "state s' = LEADER" if t: "t = currentTerm s'"
  proof -
    have "currentTerm s \<le> currentTerm s'" "t \<le> currentTerm s" using k d by (simp_all add: call_ok_def delta_def)
    then have eq: "currentTerm s' = currentTerm s" using t by simp
    then have eq: "currentTerm s' = currentTerm s" "state s = LEADER" using k t by (simp_all add: call_ok_def)
    have "(currentTerm s, i) \<in> leaders C" using inv s eq unfolding cluster_inv_def inv_leaders_def by blast
    then have "l = i" if "(currentTerm s', l) \<in> P" for l
      using leaders_unique [OF inv V, of "currentTerm s" l i] P(1) eq(1) that by auto
    then have "\<not> (\<exists>l. (currentTerm s', l) \<in> P)" using P(2) by blast
    then show ?thesis using f eq by (auto simp: follows_def)
  qed
  moreover have "t \<le> currentTerm s'" using k d by (simp add: call_ok_def delta_def)
  ultimately show ?thesis by (simp add: call_ok_def)
qed

lemma ok_pending [simp]:
  "message_ok (C\<lparr>pending := p\<rparr>) m = message_ok C m" "pending_ok (C\<lparr>pending := p\<rparr>) (i, k) = pending_ok C (i, k)"
  by (cases m; simp) (cases k; simp)

text \<open>One step of server \<open>i\<close>: the new messages and the calls of \<open>i\<close> have to be right in the new state.\<close>

lemma cluster_inv_moves:
  assumes inv: "cluster_inv V C" and s: "servers C i = Some s" and V: "V \<noteq> []"
    and c: "moves X P s s'" and X: "\<forall>j \<in> X. (j, currentTerm s, i) \<in> votes C"
    and P: "P \<subseteq> leaders C" and sh: "shares V (advance i s' ms cs C)"
    and ms: "\<forall>m \<in> ms. message_ok (advance i s' ms cs C) m"
    and cs: "\<forall>k. (i, k) \<in> pending (advance i s' ms cs C) \<longrightarrow> pending_ok (advance i s' ms cs C) (i, k)"
  shows "cluster_inv V (advance i s' ms cs C)"
proof -
  let ?C = "advance i s' ms cs C"
  have ok: "serverId s = i" using inv s by (auto simp: cluster_inv_def inv_servers_def)
  have ok': "server_ok s'" "serverId s' = i" using c ok unfolding moves_def by auto
  have "inv_servers ?C" using inv ok' by (auto simp: cluster_inv_def inv_servers_def)
  moreover have "inv_votes ?C" using inv inv_votes_advance [OF _ s c] by (simp add: cluster_inv_def)
  moreover have "inv_leaders V ?C" by (rule inv_leaders_advance [OF inv s V c X P(1) sh])
  moreover have "inv_net ?C" unfolding inv_net_def
  proof (intro conjI ballI)
    fix m assume "m \<in> net ?C"
    then show "message_ok ?C m"
      using ms inv message_ok_mono [OF _ advance_grows] by (auto simp: cluster_inv_def inv_net_def)
  next
    fix p assume p: "p \<in> pending ?C"
    obtain k q where q: "p = (k, q)" by (cases p)
    show "pending_ok ?C p"
    proof (cases "k = i")
      case False
      then have "pending_ok C (k, q)" using inv p q by (auto simp: cluster_inv_def inv_net_def)
      then show ?thesis using False unfolding q by (cases q) auto
    next
      case True
      then show ?thesis using p cs unfolding q by blast
    qed
  qed
  ultimately show ?thesis by (simp add: cluster_inv_def)
qed

lemma cluster_inv_campaign:
  assumes inv: "cluster_inv V C" and s: "servers C i = Some s" and V: "V \<noteq> []"
    and c: "campaign X P s s'" and X: "\<forall>j \<in> X. (j, currentTerm s, i) \<in> votes C"
    and P: "P \<subseteq> leaders C" "\<forall>(t, l) \<in> P. l \<noteq> i"
    and sh: "shares V (advance i s' ms cs C)"
    and ms: "\<forall>m \<in> ms. message_ok (advance i s' ms cs C) m"
    and cs: "\<forall>k \<in> cs. pending_ok (advance i s' ms cs C) (i, k)"
  shows "cluster_inv V (advance i s' ms cs C)"
proof (rule cluster_inv_moves [OF inv s V _ X P(1) sh ms])
  have ok: "server_ok s" using inv s by (auto simp: cluster_inv_def inv_servers_def)
  show "moves X P s s'" by (rule campaign_moves [OF c ok])
  have "pending_ok (advance i s' ms cs C) (i, k)" if "(i, k) \<in> pending C" for k
  proof -
    have "pending_ok C (i, k)" using inv that by (auto simp: cluster_inv_def inv_net_def)
    then show ?thesis using call_ok_step [OF inv s V c P] s by (cases k) auto
  qed
  then show "\<forall>k. (i, k) \<in> pending (advance i s' ms cs C) \<longrightarrow> pending_ok (advance i s' ms cs C) (i, k)"
    using cs by auto
qed

text \<open>The common case: nothing is sent.\<close>

lemma cluster_inv_evolve:
  assumes "cluster_inv V C" "servers C i = Some s" "V \<noteq> []" "evolve s s'" "shares V (advance i s' ms cs C)"
    "\<forall>m \<in> ms. message_ok (advance i s' ms cs C) m" "\<forall>k \<in> cs. pending_ok (advance i s' ms cs C) (i, k)"
  shows "cluster_inv V (advance i s' ms cs C)"
  by (rule cluster_inv_campaign [OF assms(1-3) campaign_evolve [OF assms(4), of "{}" "{}"] _ _ _ assms(5-7)]) simp_all

lemma cluster_inv_restart:
  assumes inv: "cluster_inv V C" and s: "servers C i = Some s" and V: "V \<noteq> []"
    and l: "survives s l" and r: "init pb (mkRaft cfg i addrs clk rnd (snapshotOnDisk s) l) = Some s'"
    and sh: "shares V (advance i s' {} {} (C\<lparr>pending := {(k, c) \<in> pending C. k \<noteq> i}\<rparr>))"
  shows "cluster_inv V (advance i s' {} {} (C\<lparr>pending := {(k, c) \<in> pending C. k \<noteq> i}\<rparr>))"
proof -
  let ?C = "C\<lparr>pending := {(k, c) \<in> pending C. k \<noteq> i}\<rparr>"
  have ok: "server_ok s" "serverId s = i" using inv s by (auto simp: cluster_inv_def inv_servers_def)
  have l': "log_inv l" using l ok(1) by (simp add: survives_def log_inv_def server_ok_def)
  have md: "metadata l = \<lparr>md_current_term = Some (currentTerm s), md_voted_for = Some (votedFor s)\<rparr>"
    using l ok(1) by (simp add: survives_def server_ok_def persisted_def)
  have i: "i \<noteq> 0" using ok by (simp add: server_ok_def)
  note ir = init_result [OF r i l' refl refl]
  have mv: "moves {} {} s s'" using ir ok(2) md by (simp add: moves_def)
  have inv': "cluster_inv V ?C"
    using inv by (auto simp: cluster_inv_def inv_servers_def inv_votes_def inv_leaders_def inv_net_def)
  show ?thesis
    by (rule cluster_inv_moves [OF inv' _ V mv _ _ sh]) (use s in simp_all)
qed

lemma cluster_inv_boot:
  assumes inv: "cluster_inv V C" and new: "servers C i = None" and i: "i \<noteq> 0" and l: "log_inv l"
    and md: "metadata l = \<lparr>md_current_term = None, md_voted_for = None\<rparr>"
    and r: "init pb (mkRaft cfg i addrs clk rnd None l) = Some s'"
  shows "cluster_inv V (advance i s' {} {} C)"
proof -
  let ?C = "advance i s' {} {} C"
  note ir = init_result [OF r i l refl refl]
  have s': "server_ok s'" "serverId s' = i" "votedFor s' = 0" "state s' = FOLLOWER" "leaderId s' = 0"
    using ir md by simp_all
  have C: "votes ?C = votes C" "leaders ?C = leaders C" using s' by (simp_all add: advance_def)
  have nv: "(i, t, c) \<notin> votes C" for t c
    using inv new unfolding cluster_inv_def inv_votes_def by (metis option.distinct(1))
  have p: "(i, k) \<notin> pending C" for k using inv new unfolding cluster_inv_def inv_servers_def by blast
  have "inv_servers ?C" using inv s' by (auto simp: cluster_inv_def inv_servers_def)
  moreover have "inv_votes ?C"
    using inv nv s' unfolding cluster_inv_def inv_votes_def C by (auto simp del: not_None_eq)
  moreover have "inv_leaders V ?C"
    using inv s' unfolding cluster_inv_def inv_leaders_def C by auto
  moreover have "inv_net ?C" unfolding inv_net_def
  proof (intro conjI ballI)
    fix m assume "m \<in> net ?C"
    then show "message_ok ?C m"
      using inv message_ok_mono [OF _ advance_grows] by (auto simp: cluster_inv_def inv_net_def)
  next
    fix q assume "q \<in> pending ?C"
    moreover obtain k u where q: "q = (k, u)" by (cases q)
    ultimately have "pending_ok C (k, u)" "k \<noteq> i" using inv p by (auto simp: cluster_inv_def inv_net_def)
    then show "pending_ok ?C q" unfolding q by (cases u) auto
  qed
  ultimately show ?thesis by (simp add: cluster_inv_def)
qed

text \<open>Only candidates ask for votes and only leaders send entries; both name themselves, and never
  address themselves.\<close>

lemma peerThread_iter_state:
  "peerThread_iter j inc s = (PeerRequestVote, s1) \<Longrightarrow> state s1 = CANDIDATE"
  "peerThread_iter j inc s = (PeerAppendEntries, s1) \<Longrightarrow> state s1 = LEADER"
  by (auto simp: peerThread_iter_def Clock_now_def Let_def split: option.splits if_splits RaftState.splits)

lemma findPeer_other: "server_ok s \<Longrightarrow> findPeer j inc s = Some p \<Longrightarrow> j \<noteq> serverId s"
  by (auto simp: findPeer_def server_ok_def conf_wf_def known_wf_def is_local_def
      split: option.splits ServerKind.splits if_splits dest!: map_of_SomeD)

lemma beginCall_frame:
  assumes "beginCall i inc q n s = (c, s')"
  shows "call_request c = q" "call_peer c = i" "currentTerm s' = currentTerm s" "state s' = state s"
    "votedFor s' = votedFor s" "serverId s' = serverId s"
  using assms by (auto simp: beginCall_def Clock_now_def)

lemma requestVote_send_frame:
  assumes "requestVote_send i inc s = Some (c, s')"
  shows "rv_server_id (call_request c) = serverId s" "rv_term (call_request c) = currentTerm s" "call_peer c = i"
  using assms by (auto simp: requestVote_send_def beginCall_def Clock_now_def elim!: bind_SomeE)

definition outgoing_from :: "Raft \<Rightarrow> outgoing \<Rightarrow> bool" where
  "outgoing_from s out = (case out of
     SendAppendEntries c \<Rightarrow> ae_server_id (call_request c) = serverId s \<and> ae_term (call_request c) = currentTerm s
   | SendInstallSnapshot c \<Rightarrow> is_server_id (call_request c) = serverId s \<and> is_term (call_request c) = currentTerm s)"

lemma appendEntries_send_frame:
  assumes "appendEntries_send pb j inc s = Some (out, s')"
  shows "outgoing_from s out" "currentTerm s' = currentTerm s" "state s' = state s" "findPeer j inc s \<noteq> None"
proof -
  have "outgoing_from s out \<and> currentTerm s' = currentTerm s \<and> state s' = state s \<and> findPeer j inc s \<noteq> None"
    using assms
  proof (cases rule: appendEntries_send_cases)
    case (snapshot p)
    from snapshot(2) show ?thesis
    proof (cases rule: installSnapshot_send_cases)
      case (1 q u f c)
      then obtain req n where b: "beginCall j inc req n u = (c, s')" "is_server_id req = serverId s" "is_term req = currentTerm s"
        by blast
      have "currentTerm u = currentTerm s" "state u = state s" using 1(1) by (auto simp: updatePeer_def)
      then show ?thesis using beginCall_frame [OF b(1)] b(2,3) 1(2) snapshot(1) by (simp add: outgoing_from_def)
    qed
  next
    case (entries p prev t request es c)
    then show ?thesis using beginCall_frame [OF entries(8)] by (simp add: outgoing_from_def)
  qed
  then show "outgoing_from s out" "currentTerm s' = currentTerm s" "state s' = state s" "findPeer j inc s \<noteq> None"
    by blast+
qed

lemma handleRequestVote_granted:
  assumes "handleRequestVote req s = Some (resp, s')" "rvr_granted resp"
  shows "currentTerm s' = rv_term req" "votedFor s' = rv_server_id req"
  using assms by (auto elim!: handleRequestVote_cases)

lemma reply_term:
  "handleAppendEntries req s = Some (resp, s') \<Longrightarrow> ae_term req \<le> aer_term resp"
  by (auto elim!: handleAppendEntries_cases)

lemma snapshot_reply_term:
  assumes "handleInstallSnapshot pb ireq s = Some (iresp, s')"
  shows "is_term ireq \<le> isr_term iresp"
proof (cases "is_term ireq < currentTerm s")
  case True
  then show ?thesis using assms by (auto simp: handleInstallSnapshot_def split: if_splits)
next
  case False
  then obtain s1 where h: "hearFromLeader (is_term ireq) (is_server_id ireq) s = Some s1"
    using assms by (auto simp: handleInstallSnapshot_def split: if_splits elim!: bind_SomeE)
  have up: "currentTerm (s1\<lparr>snapshotWriter := w\<rparr>) = is_term ireq" for w using hears_hearFromLeader(4) [OF h] by simp
  have "is_term ireq \<le> currentTerm s3" if "stepDown (currentTerm (s1\<lparr>snapshotWriter := w\<rparr>) + 1) (s1\<lparr>snapshotWriter := w\<rparr>) = Some s3"
    for s3 w using stepDown_result(1) [OF that] up [of w] by simp
  then show ?thesis using assms False h
    by (auto simp: handleInstallSnapshot_def Let_def split: if_splits elim!: bind_SomeE)
qed

lemma cluster_inv_step:
  assumes "cluster_step pb serialize C C'" "cluster_inv V C" "V \<noteq> []" "shares V C'"
  shows "cluster_inv V C'"
  using assms
proof (induction rule: cluster_step.induct)
  case (boot C i l cfg addrs clk rnd s')
  then show ?case using cluster_inv_boot by blast
next
  case (restart C i s l cfg addrs clk rnd s')
  then show ?case using cluster_inv_restart by blast
next
  case (own C i s s')
  then show ?case using cluster_inv_evolve [OF _ _ _ evolve_raft_local] by simp
next
  case (timer C i s s')
  then show ?case using cluster_inv_campaign [OF _ _ _ campaign_timerThread_iter [of s s' "{}" "{}"]] by simp
next
  case (ask C i s j inc s1 c s')
  have e1: "evolve s s1" using evolve_peerThread_iter [of s j inc] ask(2) by simp
  have ok: "server_ok s" "serverId s = i" using ask(1,4) by (auto simp: cluster_inv_def inv_servers_def)
  then have "serverId s1 = i" "i \<noteq> 0" using e1 by (auto simp: evolve_def delta_def server_ok_def)
  then show ?case
    using ask requestVote_send_frame(1) [OF ask(3)]
    by (intro cluster_inv_evolve [OF _ _ _ evolve_trans [OF e1 evolve_requestVote_send [OF ask(3)]]]) auto
next
  case (send C i s j inc s1 out s')
  let ?C = "advance i s' {outMessages j out} {outCall out} C"
  have e1: "evolve s s1" using evolve_peerThread_iter [of s j inc] send(2) by simp
  have ok: "server_ok s" "serverId s = i" using send(1,4) by (auto simp: cluster_inv_def inv_servers_def)
  then have ok1: "server_ok s1" "serverId s1 = i" using e1 by (auto simp: evolve_def delta_def)
  note f = appendEntries_send_frame [OF send(3)]
  have st: "state s' = LEADER" using peerThread_iter_state(2) [OF send(2)] f(3) by simp
  then have l: "(currentTerm s', i) \<in> leaders ?C" by (simp add: advance_def)
  have j: "j \<noteq> i" using findPeer_other [OF ok1(1)] f(4) ok1(2) by blast
  have "message_ok ?C (outMessages j out)" "pending_ok ?C (i, outCall out)"
    using f(1,2) l j st ok1(2) by (cases out; simp add: outgoing_from_def call_ok_def)+
  then show ?case
    using send by (intro cluster_inv_evolve [OF _ _ _ evolve_trans [OF e1 evolve_appendEntries_send [OF send(3)]]]) auto
next
  case (vote C i s req resp s')
  let ?C = "advance i s' {VoteReply i req resp} {} C"
  have "rv_server_id req \<noteq> 0" using vote(2,4) by (auto simp: cluster_inv_def inv_net_def)
  then have "message_ok ?C (VoteReply i req resp)"
    using handleRequestVote_granted [OF vote(3)] by (auto simp: advance_def)
  then show ?case using vote by (intro cluster_inv_evolve [OF _ _ _ evolve_handleRequestVote [OF vote(3)]]) auto
next
  case (store C i s req resp s')
  have "message_ok C (EntriesRequest i req)" using store(2,4) unfolding cluster_inv_def inv_net_def by blast
  then show ?case using store
    by (intro cluster_inv_campaign [OF _ _ _ campaign_hears [OF hears_handleAppendEntries [OF store(3)], of "{}"]])
      (auto simp: reply_term [OF store(3)])
next
  case (install C i s req resp s')
  have "message_ok C (SnapshotRequest i req)" using install(2,4) unfolding cluster_inv_def inv_net_def by blast
  then show ?case using install
    by (intro cluster_inv_campaign [OF _ _ _ campaign_hears [OF hears_handleInstallSnapshot [OF install(3)], of "{}"]])
      (auto simp: snapshot_reply_term [OF install(3)])
next
  case (count C i s c st s')
  let ?X = "if \<exists>resp. st = CallOK resp \<and> rvr_granted resp \<and> currentTerm s = rv_term (call_request c) then {call_peer c} else {}"
  have id: "rv_server_id (call_request c) = i" using count(2,5) by (auto simp: cluster_inv_def inv_net_def)
  have "(j, currentTerm s, i) \<in> votes C" if j: "j \<in> ?X" for j
  proof -
    obtain resp where r: "st = CallOK resp" "rvr_granted resp" "currentTerm s = rv_term (call_request c)" "j = call_peer c"
      using j by (auto split: if_splits)
    then have "message_ok C (VoteReply j (call_request c) resp)"
      using count(3,5) unfolding cluster_inv_def inv_net_def by auto
    then show ?thesis using r id by simp
  qed
  then show ?case using count
    by (intro cluster_inv_campaign [OF _ _ _ campaign_requestVote_receive [OF count(4), of "{}"]]) auto
next
  case (stored C i s c st s')
  then show ?case using cluster_inv_evolve [OF _ _ _ evolve_appendEntries_receive] by simp
next
  case (installed C i s c st s')
  then show ?case using cluster_inv_evolve [OF _ _ _ evolve_installSnapshot_receive] by simp
qed

lemma cluster_inv_run: "cluster_run pb serialize V C \<Longrightarrow> V \<noteq> [] \<Longrightarrow> cluster_inv V C"
proof (induction rule: cluster_run.induct)
  case start
  then show ?case
    by (simp add: cluster_inv_def inv_servers_def inv_votes_def inv_leaders_def inv_net_def emptyCluster_def)
next
  case (step C C')
  then show ?case using cluster_inv_step by blast
qed

end
