(* ===== verification/LC_RaftLog.thy ===== *)
theory LC_RaftLog
  imports LC_RaftOps
begin

text \<open>
  What the operations of the consensus module do to the log: appending, storing the entries of a
  leader, discarding what a snapshot covers.
\<close>

section \<open>Appending and truncating\<close>

lemma lastLog_eq: "log_inv (rlog s) \<Longrightarrow> lastLog s + 1 = startIndex (rlog s) + length (entries (rlog s))"
  by (simp add: getLastLogIndex_def log_inv_def)

lemma getEntry_cong:
  "startIndex l' = startIndex l \<Longrightarrow> entries l' = entries l \<Longrightarrow> getEntry l' i = getEntry l i"
  by (simp add: getEntry_def)

lemma bounds_cong:
  assumes "startIndex l' = startIndex l" "entries l' = entries l"
  shows "getLogStartIndex l' = getLogStartIndex l" "getLastLogIndex l' = getLastLogIndex l"
    "getEntry l' = getEntry l"
  using assms by (auto simp: getLogStartIndex_def getLastLogIndex_def getEntry_def)

lemma log_append_log: "entries (snd (log_append l es)) = entries l @ es" "startIndex (snd (log_append l es)) = startIndex l"
  by (simp_all add: log_append_def Let_def)

lemma log_truncateSuffix_log:
  "log_inv l \<Longrightarrow> entries (log_truncateSuffix l i) = take (i + 1 - startIndex l) (entries l)"
  "startIndex (log_truncateSuffix l i) = startIndex l"
  using ml.suffix_law [of l i] by (auto simp: log_stored_def log_truncateSuffix_def)

lemma raft_append_log:
  assumes "raft_append es s = Some s'"
  shows "entries (rlog s') = entries (rlog s) @ es" "startIndex (rlog s') = startIndex (rlog s)"
    "commitIndex s' = commitIndex s" "currentTerm s' = currentTerm s" "state s' = state s"
    "lastSnapshotIndex s' = lastSnapshotIndex s" "lastSnapshotTerm s' = lastSnapshotTerm s" "params s' = params s"
    "\<forall>e \<in> set es. le_term e \<noteq> 0" "snapshotOnDisk s' = snapshotOnDisk s"
  using assms
  by (auto simp: raft_append_def Let_def basic_defs frame_simps log_append_log list_all_iff
      split: prod.splits if_splits) (simp_all add: log_append_def Let_def)

lemma raft_append_total: "\<forall>e \<in> set es. le_term e \<noteq> 0 \<Longrightarrow> \<exists>s'. raft_append es s = Some s'"
  by (auto simp: raft_append_def Let_def list_all_iff split: prod.splits)

lemma truncateConflict_log:
  "log_inv (rlog s) \<Longrightarrow> entries (rlog (truncateConflict i s)) = take (i - 1 + 1 - startIndex (rlog s)) (entries (rlog s))"
  "startIndex (rlog (truncateConflict i s)) = startIndex (rlog s)"
  "commitIndex (truncateConflict i s) = commitIndex s" "currentTerm (truncateConflict i s) = currentTerm s"
  "state (truncateConflict i s) = state s" "lastSnapshotIndex (truncateConflict i s) = lastSnapshotIndex s"
  "lastSnapshotTerm (truncateConflict i s) = lastSnapshotTerm s" "params (truncateConflict i s) = params s"
  "snapshotOnDisk (truncateConflict i s) = snapshotOnDisk s"
  by (simp_all add: truncateConflict_def Let_def frame_simps log_truncateSuffix_log)

lemma newEpoch_log [simp]:
  "rlog (newEpoch t s) = rlog s" "commitIndex (newEpoch t s) = commitIndex s" "currentTerm (newEpoch t s) = currentTerm s"
  "state (newEpoch t s) = state s" "lastSnapshotIndex (newEpoch t s) = lastSnapshotIndex s"
  "lastSnapshotTerm (newEpoch t s) = lastSnapshotTerm s" "params (newEpoch t s) = params s"
  "snapshotOnDisk (newEpoch t s) = snapshotOnDisk s"
  by (simp_all add: newEpoch_def Clock_now_def)

lemma leaderStamp_frame:
  assumes "leaderStamp s = Some (t, s')"
  shows "rlog s' = rlog s" "commitIndex s' = commitIndex s" "currentTerm s' = currentTerm s" "state s' = state s"
    "lastSnapshotIndex s' = lastSnapshotIndex s" "lastSnapshotTerm s' = lastSnapshotTerm s" "configuration s' = configuration s"
    "snapshotOnDisk s' = snapshotOnDisk s" "params s' = params s"
  using assms by (auto simp: leaderStamp_def Clock_now_def Let_def split: if_splits)

section \<open>Storing the entries of a leader\<close>

text \<open>The entry at an index has the given term.\<close>

definition termAt :: "Raft \<Rightarrow> nat \<Rightarrow> nat \<Rightarrow> bool" where
  "termAt s i t \<longleftrightarrow> (\<exists>e. getEntry (rlog s) i = Some e \<and> le_term e = t)"

text \<open>The first \<open>k\<close> entries after index \<open>i\<close> are in the log already, or before its start.\<close>

definition agrees :: "Raft \<Rightarrow> nat \<Rightarrow> LogEntry list \<Rightarrow> bool" where
  "agrees s i es \<longleftrightarrow> (\<forall>m < length es. logStart s \<le> i + 1 + m \<longrightarrow> termAt s (i + 1 + m) (le_term (es ! m)))"

lemma agrees_Nil [simp]: "agrees s i []"
  by (simp add: agrees_def)

lemma agrees_Cons:
  "agrees s i (e # es) \<longleftrightarrow> (logStart s \<le> Suc i \<longrightarrow> termAt s (Suc i) (le_term e)) \<and> agrees s (Suc i) es"
proof -
  have "(\<forall>m < Suc n. P m) \<longleftrightarrow> P 0 \<and> (\<forall>m < n. P (Suc m))" for P and n :: nat by (auto simp: less_Suc_eq_0_disj)
  then show ?thesis by (simp add: agrees_def)
qed

text \<open>The loop either finds all entries present, or stores everything from the first missing one on,
  after removing a conflicting suffix that is not committed.\<close>

lemma storeEntries_log:
  assumes "storeEntries i es s = Some s'" "log_inv (rlog s)" "i \<le> lastLog s"
  obtains (present) "agrees s i es" "s' = s"
  | (stored) k where "k < length es" "agrees s i (take k es)" "logStart s \<le> i + 1 + k" "i + k \<le> lastLog s"
      "entries (rlog s') = take (i + 1 + k - startIndex (rlog s)) (entries (rlog s)) @ drop k es"
      "startIndex (rlog s') = startIndex (rlog s)" "commitIndex s' = commitIndex s"
      "i + k < lastLog s \<longrightarrow> commitIndex s < i + 1 + k \<and> \<not> termAt s (i + 1 + k) (le_term (es ! k))"
      "\<forall>e \<in> set (drop k es). le_term e \<noteq> 0" "currentTerm s' = currentTerm s" "state s' = state s"
      "lastSnapshotIndex s' = lastSnapshotIndex s" "lastSnapshotTerm s' = lastSnapshotTerm s" "params s' = params s"
      "snapshotOnDisk s' = snapshotOnDisk s"
  using assms
proof (induction es arbitrary: i thesis)
  case Nil
  then show ?case by simp
next
  case (Cons e es)
  from Cons.prems(3) show ?case
  proof (cases rule: storeEntries_cases)
    case discarded
    have "i < lastLog s" using discarded(1) lastLog_eq [OF Cons.prems(4)] by (simp add: getLogStartIndex_def)
    then have le: "Suc i \<le> lastLog s" by simp
    show ?thesis
    proof (rule Cons.IH [OF _ _ discarded(2) Cons.prems(4) le], goal_cases)
      case 1
      then show ?case using Cons.prems(1) discarded(1) by (simp add: agrees_Cons)
    next
      case (2 k)
      then show ?case using discarded(1) by (intro Cons.prems(2) [of "Suc k"]) (simp_all add: agrees_Cons)
    qed
  next
    case (present old)
    have t: "termAt s (Suc i) (le_term e)" using present(3,4) by (simp add: termAt_def)
    show ?thesis
    proof (rule Cons.IH [OF _ _ present(5) Cons.prems(4) present(2)], goal_cases)
      case 1
      then show ?case using Cons.prems(1) t by (simp add: agrees_Cons)
    next
      case (2 k)
      then show ?case using t by (intro Cons.prems(2) [of "Suc k"]) (simp_all add: agrees_Cons)
    qed
  next
    case (new s1 s2)
    note a = raft_append_log [OF new(3)]
    have n: "lastLog s + 1 = startIndex (rlog s) + length (entries (rlog s))" by (rule lastLog_eq [OF Cons.prems(4)])
    have s1: "entries (rlog s1) = take (i + 1 - startIndex (rlog s)) (entries (rlog s))"
      "startIndex (rlog s1) = startIndex (rlog s)" "commitIndex s1 = commitIndex s" "currentTerm s1 = currentTerm s"
      "state s1 = state s" "lastSnapshotIndex s1 = lastSnapshotIndex s" "lastSnapshotTerm s1 = lastSnapshotTerm s"
      "params s1 = params s" "snapshotOnDisk s1 = snapshotOnDisk s"
      using new(2) n Cons.prems(4) truncateConflict_log [where s = s and i = "Suc i"] by auto
    have "i < lastLog s \<longrightarrow> commitIndex s < i + 1 \<and> \<not> termAt s (i + 1) (le_term e)"
      using new(2) by (auto simp: termAt_def)
    then show ?thesis
      using new(1,4) a s1 Cons.prems(5) by (intro Cons.prems(2) [of 0]) simp_all
  qed
qed

text \<open>The entries at two logs with the same start, one of which extends a prefix of the other.\<close>

lemma getEntry_splice:
  assumes "startIndex l' = startIndex l" "entries l' = take (n + 1 - startIndex l) (entries l) @ fs"
    "startIndex l \<le> n + 1" "n < startIndex l + length (entries l)"
  shows "j \<le> n \<Longrightarrow> getEntry l' j = getEntry l j"
    and "m < length fs \<Longrightarrow> getEntry l' (n + 1 + m) = Some (fs ! m)"
proof -
  have len: "length (take (n + 1 - startIndex l) (entries l)) = n + 1 - startIndex l" using assms(3,4) by simp
  show "getEntry l' j = getEntry l j" if "j \<le> n"
    using that assms len by (auto simp: getEntry_def nth_append)
  show "getEntry l' (n + 1 + m) = Some (fs ! m)" if "m < length fs"
  proof -
    have "n + 1 + m - startIndex l = n + 1 - startIndex l + m" using assms(3) by simp
    moreover have "n + 1 - startIndex l + m < length (entries l')" using that assms(2) len by simp
    ultimately show ?thesis using assms(1-3) len by (simp add: getEntry_def nth_append)
  qed
qed

text \<open>What the loop achieves.\<close>

lemma storeEntries_effect:
  assumes "storeEntries i es s = Some s'" "log_inv (rlog s)" "i \<le> lastLog s"
  shows "agrees s' i es" "j \<le> i \<or> j \<le> commitIndex s \<and> j \<le> lastLog s \<Longrightarrow> getEntry (rlog s') j = getEntry (rlog s) j"
    "commitIndex s' = commitIndex s" "logStart s' = logStart s" "i + length es \<le> lastLog s'"
    "log_inv (rlog s')"
proof -
  have n: "lastLog s + 1 = startIndex (rlog s) + length (entries (rlog s))" by (rule lastLog_eq [OF assms(2)])
  have "agrees s' i es \<and> (j \<le> i \<or> j \<le> commitIndex s \<and> j \<le> lastLog s \<longrightarrow> getEntry (rlog s') j = getEntry (rlog s) j) \<and>
    commitIndex s' = commitIndex s \<and> logStart s' = logStart s \<and> i + length es \<le> lastLog s' \<and> log_inv (rlog s')" for j
    using assms
  proof (cases rule: storeEntries_log)
    case present
    have "i + length es \<le> lastLog s"
    proof (cases "es = [] \<or> i + length es < logStart s")
      case True
      then show ?thesis using assms(3) n by (auto simp: getLogStartIndex_def)
    next
      case False
      have "length es - 1 < length es \<and> i + 1 + (length es - 1) = i + length es" using False by (cases es) auto
      then have "termAt s (i + length es) (le_term (es ! (length es - 1)))"
        using False present(1) unfolding agrees_def by (metis leI)
      then show ?thesis using n by (auto simp: termAt_def getEntry_def split: if_splits)
    qed
    then show ?thesis using present assms(2) by simp
  next
    case (stored k)
    have st: "startIndex (rlog s) \<le> i + k + 1" "i + k < startIndex (rlog s) + length (entries (rlog s))"
      using stored(3,4) n by (simp_all add: getLogStartIndex_def)
    have ent: "entries (rlog s') = take (i + k + 1 - startIndex (rlog s)) (entries (rlog s)) @ drop k es"
      using stored(5) by simp
    note sp = getEntry_splice [OF stored(6) ent st]
    have ls: "logStart s' = logStart s" using stored(6) by (simp add: getLogStartIndex_def)
    have "agrees s' i es" unfolding agrees_def
    proof (intro allI impI)
      fix m assume m: "m < length es" "logStart s' \<le> i + 1 + m"
      show "termAt s' (i + 1 + m) (le_term (es ! m))"
      proof (cases "m < k")
        case True
        then have "termAt s (i + 1 + m) (le_term (take k es ! m))"
          using stored(1,2) m ls by (simp add: agrees_def)
        then show ?thesis using True sp(1) [of "i + 1 + m"] by (simp add: termAt_def)
      next
        case False
        then have "getEntry (rlog s') (i + k + 1 + (m - k)) = Some (drop k es ! (m - k))" using m(1) by (intro sp(2)) simp
        then show ?thesis using False m(1) by (simp add: termAt_def)
      qed
    qed
    moreover have "getEntry (rlog s') j = getEntry (rlog s) j" if "j \<le> i \<or> j \<le> commitIndex s \<and> j \<le> lastLog s" for j
      using sp(1) [of j] stored(4,8) that by (cases "i + k < lastLog s") auto
    moreover have "log_inv (rlog s')" using assms(2) stored(6) by (simp add: log_inv_def)
    moreover have "i + length es \<le> lastLog s'"
      using lastLog_eq [OF calculation(3)] ent st stored(1,6) by simp
    ultimately show ?thesis using ls stored(7) by blast
  qed
  then show "agrees s' i es" "j \<le> i \<or> j \<le> commitIndex s \<and> j \<le> lastLog s \<Longrightarrow> getEntry (rlog s') j = getEntry (rlog s) j"
    "commitIndex s' = commitIndex s" "logStart s' = logStart s" "i + length es \<le> lastLog s'" "log_inv (rlog s')"
    by blast+
qed

text \<open>Entries that pass the checks of the loop, and that do not contradict what is committed.\<close>

definition entries_ok :: "nat \<Rightarrow> LogEntry list \<Rightarrow> bool" where
  "entries_ok i es \<longleftrightarrow> (\<forall>m < length es. (le_index (es ! m) = None \<or> le_index (es ! m) = Some (i + 1 + m)) \<and>
     le_term (es ! m) \<noteq> 0 \<and> le_type (es ! m) \<noteq> UNKNOWN)"

definition no_conflict :: "Raft \<Rightarrow> nat \<Rightarrow> LogEntry list \<Rightarrow> bool" where
  "no_conflict s i es \<longleftrightarrow> (\<forall>m < length es. logStart s \<le> i + 1 + m \<longrightarrow> i + 1 + m \<le> commitIndex s \<longrightarrow>
     i + 1 + m \<le> lastLog s \<longrightarrow> termAt s (i + 1 + m) (le_term (es ! m)))"

lemma all_less_Suc: "(\<forall>m < Suc n. P m) \<longleftrightarrow> P 0 \<and> (\<forall>m < n. P (Suc m))"
  by (auto simp: less_Suc_eq_0_disj)

lemma entries_ok_Cons:
  "entries_ok i (e # es) \<longleftrightarrow> (le_index e = None \<or> le_index e = Some (Suc i)) \<and> le_term e \<noteq> 0 \<and> le_type e \<noteq> UNKNOWN \<and>
     entries_ok (Suc i) es"
  by (simp add: entries_ok_def all_less_Suc)

lemma entries_ok_all: "entries_ok i es \<Longrightarrow> \<forall>e \<in> set es. le_term e \<noteq> 0 \<and> le_type e \<noteq> UNKNOWN"
  by (induction es arbitrary: i) (auto simp: entries_ok_Cons)

lemma no_conflict_Cons:
  "no_conflict s i (e # es) \<longleftrightarrow> (logStart s \<le> Suc i \<longrightarrow> Suc i \<le> commitIndex s \<longrightarrow> Suc i \<le> lastLog s \<longrightarrow>
     termAt s (Suc i) (le_term e)) \<and> no_conflict s (Suc i) es"
  by (simp add: no_conflict_def all_less_Suc)

lemma index_check:
  "le_index e = None \<or> le_index e = Some j \<Longrightarrow> (case le_index e of None \<Rightarrow> True | Some i \<Rightarrow> i = j)"
  by auto

lemma storeEntries_total:
  assumes "entries_ok i es" "no_conflict s i es" "log_inv (rlog s)"
  shows "\<exists>s'. storeEntries i es s = Some s'"
  using assms
proof (induction es arbitrary: i)
  case (Cons e es)
  note ok = Cons.prems(1) [unfolded entries_ok_Cons] and nc = Cons.prems(2) [unfolded no_conflict_Cons]
  obtain s' where IH: "storeEntries (Suc i) es s = Some s'" using Cons.IH ok nc Cons.prems(3) by blast
  have types: "list_all (\<lambda>x. le_type x \<noteq> UNKNOWN) (e # es)" "\<forall>x \<in> set (e # es). le_term x \<noteq> 0"
    using entries_ok_all [OF Cons.prems(1)] by (auto simp: list_all_iff)
  have ap: "\<exists>s2. raft_append (e # es) s1 = Some s2" for s1 using raft_append_total [OF types(2)] .
  have ix: "case le_index e of None \<Rightarrow> True | Some j \<Rightarrow> j = Suc i" using ok index_check by blast
  show ?case
  proof (cases "Suc i < logStart s")
    case True
    then show ?thesis using IH ix by simp
  next
    case start: False
    show ?thesis
    proof (cases "Suc i \<le> lastLog s")
      case False
      then show ?thesis using start ix types(1) ap [of s] by (auto simp: Let_def)
    next
      case True
      then obtain old where old: "getEntry (rlog s) (Suc i) = Some old"
        using ml.get_defined [OF Cons.prems(3)] start by (metis leI)
      then show ?thesis
        using start True ix types(1) IH nc ap [of "truncateConflict (Suc i) s"]
        by (cases "le_term old = le_term e") (auto simp: Let_def termAt_def not_less)
    qed
  qed
qed simp

lemma storeEntries_again:
  assumes "entries_ok i es" "agrees s i es"
  shows "storeEntries i es s = Some s"
  using assms
proof (induction es arbitrary: i)
  case (Cons e es)
  note ok = Cons.prems(1) [unfolded entries_ok_Cons] and ag = Cons.prems(2) [unfolded agrees_Cons]
  have ix: "case le_index e of None \<Rightarrow> True | Some j \<Rightarrow> j = Suc i" using ok index_check by blast
  have "Suc i \<le> lastLog s" if "termAt s (Suc i) (le_term e)"
    using that by (auto simp: termAt_def getEntry_def getLastLogIndex_def split: if_splits)
  then show ?case using Cons.IH ok ag ix by (auto simp: Let_def termAt_def)
qed simp

lemma acceptEntries_effect:
  assumes "acceptEntries req s = Some s'"
  obtains s1 where "storeEntries (ae_prev_log_index req) (ae_entries req) s = Some s1"
    "rlog s' = rlog s1" "commitIndex s' = max (commitIndex s1) (ae_commit_index req)" "currentTerm s' = currentTerm s1"
    "state s' = state s1" "lastSnapshotIndex s' = lastSnapshotIndex s1" "lastSnapshotTerm s' = lastSnapshotTerm s1"
    "leaderId s' = leaderId s1" "commitIndex s1 < ae_commit_index req \<longrightarrow> ae_commit_index req \<le> lastLog s1"
    "snapshotOnDisk s' = snapshotOnDisk s1"
  using assms
  by (auto simp: acceptEntries_def basic_defs setElectionTimer_def max_def split: if_splits elim!: bind_SomeE)

lemma hearFromLeader_frame:
  assumes "hearFromLeader t l s = Some s'"
  shows "getEntry (rlog s') = getEntry (rlog s)" "lastLog s' = lastLog s" "logStart s' = logStart s"
    "log_inv (rlog s') = log_inv (rlog s)"
  using bounds_cong [OF hears_hearFromLeader(7,6) [OF assms]] hears_hearFromLeader(7) [OF assms]
  by (simp_all add: log_inv_def)

lemma hearFromLeader_total:
  assumes "currentTerm s \<le> t" "currentTerm s = t \<Longrightarrow> leaderId s = 0 \<or> leaderId s = l"
  shows "\<exists>s'. hearFromLeader t l s = Some s'"
proof -
  obtain s1 where s1: "stepDown t s = Some s1" using stepDown_total assms(1) by blast
  have "leaderId s1 = 0 \<or> leaderId s1 = l"
    using stepDown_result [OF s1] assms by (cases "currentTerm s < t") auto
  then show ?thesis by (auto simp: hearFromLeader_def s1 basic_defs setElectionTimer_def)
qed

section \<open>Packing entries into a request\<close>

lemma packLoop_slice:
  assumes "packLoop pb request s i n sz0 acc = Some es"
  shows "\<exists>k \<le> n. length es = length acc + k \<and> take (length acc) es = acc \<and>
    (\<forall>m < k. getEntry (rlog s) (i + m) = Some (es ! (length acc + m))) \<and> (0 < n \<longrightarrow> acc = [] \<longrightarrow> 0 < k)"
  using assms
proof (induction n arbitrary: i sz0 acc)
  case (Suc n)
  have stop: ?case if "es = acc" "acc \<noteq> []" using that by (intro exI [of _ 0]) simp
  have go: ?case if e: "getEntry (rlog s) i = Some e" and r: "packLoop pb request s (Suc i) n sz (acc @ [e]) = Some es" for e sz
  proof -
    obtain k where k: "k \<le> n" "length es = length (acc @ [e]) + k" "take (length (acc @ [e])) es = acc @ [e]"
      "\<forall>m < k. getEntry (rlog s) (Suc i + m) = Some (es ! (length (acc @ [e]) + m))" using Suc.IH [OF r] by blast
    have "take (length acc) es = take (length acc) (take (length (acc @ [e])) es)" by simp
    also have "\<dots> = acc" unfolding k(3) by simp
    finally have tk: "take (length acc) es = acc" .
    have "es ! length acc = take (length (acc @ [e])) es ! length acc" by (rule nth_take [symmetric]) simp
    also have "\<dots> = e" unfolding k(3) by simp
    finally have "es ! length acc = e" .
    then have "\<forall>m < Suc k. getEntry (rlog s) (i + m) = Some (es ! (length acc + m))"
      using k(4) e by (auto simp: all_less_Suc)
    then show ?thesis using k(1,2) tk by (intro exI [of _ "Suc k"]) simp
  qed
  show ?case using Suc.prems stop go by (auto simp: Let_def split: if_splits elim!: bind_SomeE)
qed simp

lemma packEntries_slice:
  assumes "packEntries pb next request s = Some es"
  shows "\<forall>m < length es. getEntry (rlog s) (next + m) = Some (es ! m)"
    "0 < next \<Longrightarrow> length es \<le> MAX_LOG_ENTRIES_PER_REQUEST (params s)"
    "next \<le> lastLog s \<Longrightarrow> 0 < MAX_LOG_ENTRIES_PER_REQUEST (params s) \<Longrightarrow> es \<noteq> []"
proof -
  define n where "n = min (lastLog s) (next + MAX_LOG_ENTRIES_PER_REQUEST (params s) - 1) + 1 - next"
  have "packLoop pb request s next n (requestByteSize pb request) [] = Some es"
    using assms by (simp add: packEntries_def n_def)
  then obtain k where k: "k \<le> n" "length es = k" "\<forall>m < k. getEntry (rlog s) (next + m) = Some (es ! m)" "0 < n \<longrightarrow> 0 < k"
    using packLoop_slice by fastforce
  show "\<forall>m < length es. getEntry (rlog s) (next + m) = Some (es ! m)" using k by simp
  show "length es \<le> MAX_LOG_ENTRIES_PER_REQUEST (params s)" if "0 < next"
    using that k(1,2) by (auto simp: n_def)
  show "es \<noteq> []" if "next \<le> lastLog s" "0 < MAX_LOG_ENTRIES_PER_REQUEST (params s)"
    using that k(2,4) by (auto simp: n_def)
qed

section \<open>Snapshots\<close>

lemma discard_log:
  assumes inv: "log_inv (rlog s)"
  shows "getEntry (rlog (discardUnneededEntries s)) j = (if j \<le> lastSnapshotIndex s then None else getEntry (rlog s) j)"
    "logStart (discardUnneededEntries s) = max (logStart s) (lastSnapshotIndex s + 1)"
    "lastLog (discardUnneededEntries s) = max (lastLog s) (lastSnapshotIndex s)"
proof -
  let ?l = "log_truncatePrefix (rlog s) (lastSnapshotIndex s + 1)"
  have "getEntry (rlog (discardUnneededEntries s)) j = (if j \<le> lastSnapshotIndex s then None else getEntry (rlog s) j) \<and>
    logStart (discardUnneededEntries s) = max (logStart s) (lastSnapshotIndex s + 1) \<and>
    lastLog (discardUnneededEntries s) = max (lastLog s) (lastSnapshotIndex s)"
  proof (cases "logStart s \<le> lastSnapshotIndex s")
    case True
    have "entries (rlog (discardUnneededEntries s)) = entries ?l" "startIndex (rlog (discardUnneededEntries s)) = startIndex ?l"
      using True by (simp_all add: discardUnneededEntries_def basic_defs frame_simps)
    then have "getEntry (rlog (discardUnneededEntries s)) = getEntry ?l" "logStart (discardUnneededEntries s) = getLogStartIndex ?l"
      "lastLog (discardUnneededEntries s) = getLastLogIndex ?l" using bounds_cong by blast+
    then show ?thesis using ml.prefix_get [OF inv] ml.prefix_bounds [OF inv] True by (simp add: less_Suc_eq_le)
  next
    case False
    then have "getEntry (rlog s) j = None" if "j \<le> lastSnapshotIndex s" using that by (simp add: getEntry_def getLogStartIndex_def)
    then show ?thesis using False ml.last_bounds [OF inv] by (simp add: discardUnneededEntries_def max_def)
  qed
  then show "getEntry (rlog (discardUnneededEntries s)) j = (if j \<le> lastSnapshotIndex s then None else getEntry (rlog s) j)"
    "logStart (discardUnneededEntries s) = max (logStart s) (lastSnapshotIndex s + 1)"
    "lastLog (discardUnneededEntries s) = max (lastLog s) (lastSnapshotIndex s)" by blast+
qed

lemma discard_frame:
  "lastSnapshotIndex (discardUnneededEntries s) = lastSnapshotIndex s" "lastSnapshotTerm (discardUnneededEntries s) = lastSnapshotTerm s"
  "lastSnapshotClusterTime (discardUnneededEntries s) = lastSnapshotClusterTime s"
  "commitIndex (discardUnneededEntries s) = commitIndex s" "snapshotOnDisk (discardUnneededEntries s) = snapshotOnDisk s"
  by (simp_all add: discardUnneededEntries_def basic_defs frame_simps)

lemma dropLog_log:
  assumes "log_inv (rlog s)" "logStart s \<le> lastSnapshotIndex s + 1"
  shows "entries (rlog (dropLog s)) = []" "startIndex (rlog (dropLog s)) = lastSnapshotIndex s + 1"
proof -
  let ?p = "log_truncatePrefix (rlog s) (lastSnapshotIndex s + 1)"
  have "startIndex ?p = lastSnapshotIndex s + 1"
    using ml.prefix_law [OF assms(1), of "lastSnapshotIndex s + 1"] assms(2) by (simp add: log_stored_def getLogStartIndex_def)
  then show "entries (rlog (dropLog s)) = []" "startIndex (rlog (dropLog s)) = lastSnapshotIndex s + 1"
    by (simp_all add: dropLog_def basic_defs frame_simps log_truncateSuffix_def)
qed

lemma dropLog_frame:
  "lastSnapshotIndex (dropLog s) = lastSnapshotIndex s" "lastSnapshotTerm (dropLog s) = lastSnapshotTerm s"
  "lastSnapshotClusterTime (dropLog s) = lastSnapshotClusterTime s" "commitIndex (dropLog s) = commitIndex s"
  "snapshotOnDisk (dropLog s) = snapshotOnDisk s"
  by (simp_all add: dropLog_def basic_defs frame_simps)

end
