(* ===== verification/LC_Demo.thy ===== *)
theory LC_Demo
  imports LC_RaftOps
begin

text \<open>
  Concrete inputs on which the theorems about the consensus module are applied: the parameters of a
  cluster of three servers whose logs start with the configuration that names them.
\<close>

definition demo_pb :: ProtoBuf where
  "demo_pb = \<lparr>parseHeader = (\<lambda>_. None), serializeHeader = (\<lambda>_. []), entryByteSize = (\<lambda>_. 10), requestByteSize = (\<lambda>_. 30)\<rparr>"

definition demo_conf :: RaftConfig where
  "demo_conf = \<lparr>ELECTION_TIMEOUT = 500000000, HEARTBEAT_PERIOD = 250000000, MAX_LOG_ENTRIES_PER_REQUEST = 5000,
     RPC_FAILURE_BACKOFF = 250000000, STATE_MACHINE_UPDATER_BACKOFF = 10000000000, SOFT_RPC_SIZE_LIMIT = 1000\<rparr>"

definition demo_entry :: LogEntry where
  "demo_entry = \<lparr>le_term = 1, le_index = None, le_cluster_time = 0, le_type = CONFIGURATION,
     le_configuration = \<lparr>prev_configuration = map (\<lambda>i. \<lparr>sd_server_id = i, sd_addresses = []\<rparr>) [1, 2, 3],
       next_configuration = []\<rparr>, le_data = []\<rparr>"

definition demo_memlog :: MemoryLog where
  "demo_memlog = mkMemoryLog\<lparr>entries := [demo_entry]\<rparr>"

definition demo_fresh :: "nat \<Rightarrow> Raft" where
  "demo_fresh i = mkRaft demo_conf i [] (\<lambda>_. 0) (\<lambda>_. 0) None demo_memlog"

text \<open>A server that just started, an entry and a message of the leader of term 2.\<close>

definition demo_server :: "nat \<Rightarrow> Raft" where
  "demo_server i = the (init demo_pb (demo_fresh i))"

definition demo_noop :: LogEntry where
  "demo_noop = \<lparr>le_term = 2, le_index = None, le_cluster_time = 7, le_type = NOOP,
     le_configuration = emptyConfigurationDesc, le_data = []\<rparr>"

definition demo_append :: AppendEntriesRequest where
  "demo_append = \<lparr>ae_server_id = 1, ae_term = 2, ae_prev_log_index = 1, ae_prev_log_term = 1,
     ae_entries = [demo_noop], ae_commit_index = 2\<rparr>"

definition demo_voteRequest :: RequestVoteRequest where
  "demo_voteRequest = \<lparr>rv_server_id = 1, rv_term = 2, rv_last_log_term = 1, rv_last_log_index = 1\<rparr>"

lemma demo_server_init:
  "init demo_pb (demo_fresh 1) = Some (demo_server 1)" "init demo_pb (demo_fresh 2) = Some (demo_server 2)"
proof -
  have "\<not> Option.is_none (init demo_pb (demo_fresh 1))" by code_simp
  then show "init demo_pb (demo_fresh 1) = Some (demo_server 1)"
    by (cases "init demo_pb (demo_fresh 1)") (auto simp: demo_server_def)
  have "\<not> Option.is_none (init demo_pb (demo_fresh 2))" by code_simp
  then show "init demo_pb (demo_fresh 2) = Some (demo_server 2)"
    by (cases "init demo_pb (demo_fresh 2)") (auto simp: demo_server_def)
qed

lemma demo_server_ok: "server_ok (demo_server 1)" "server_ok (demo_server 2)"
proof -
  have l: "log_inv demo_memlog" by (simp add: log_inv_def demo_memlog_def mkMemoryLog_def)
  show "server_ok (demo_server 1)" "server_ok (demo_server 2)"
    using init_result(1) [OF demo_server_init(1) [unfolded demo_fresh_def] _ l refl refl]
      init_result(1) [OF demo_server_init(2) [unfolded demo_fresh_def] _ l refl refl] by simp_all
qed

lemma demo_server_fields:
  "\<not> r_exiting (demo_server 2)" "currentTerm (demo_server 2) = 0" "leaderId (demo_server 2) = 0" "lastLog (demo_server 2) = 1"
  "logStart (demo_server 2) = 1" "commitIndex (demo_server 2) = 0" "getEntry (rlog (demo_server 2)) 1 = Some demo_entry"
  by code_simp+

text \<open>A cluster of one server that elected itself and wrote its first entry to disk.\<close>

definition demo_single :: MemoryLog where
  "demo_single = mkMemoryLog\<lparr>entries := [demo_entry\<lparr>le_configuration :=
     \<lparr>prev_configuration = [\<lparr>sd_server_id = 1, sd_addresses = []\<rparr>], next_configuration = []\<rparr>\<rparr>]\<rparr>"

definition demo_alone :: Raft where
  "demo_alone = the (Option.bind (init demo_pb (mkRaft demo_conf 1 [] (\<lambda>_. 0) (\<lambda>_. 0) None demo_single)) timerThread_iter)"

definition demo_synced :: Raft where
  "demo_synced = demo_alone\<lparr>configuration := updateServer 1 (\<lambda>sv. sv\<lparr>kind := LocalServer 2\<rparr>) (configuration demo_alone)\<rparr>"

end
