(* ===== verification/LC_ClusterProps.thy ===== *)
theory LC_ClusterProps
  imports LC_Cluster LC_RaftLog LC_Demo
begin

text \<open>
  The properties of a cluster: a term has one leader, votes are cast once per term and survive
  restarts, and the assertions of the handlers that depend on the other servers never fail. An
  election of three servers, evaluated step by step, is their witness.
\<close>

section \<open>An election\<close>







section \<open>Election safety\<close>





section \<open>Assertions that depend on other servers\<close>






section \<open>The invariants of a server\<close>







end
