(* ===== verification/LC_RaftProps.thy ===== *)
theory LC_RaftProps
  imports LC_RaftLog LC_Demo
begin

text \<open>
  The properties of one server's consensus module: what the handlers of the protocol do on every
  branch, and that the checks of \<^verbatim>\<open>src/Server/RaftConsensusInvariants.cc\<close> hold.
\<close>

section \<open>AppendEntries\<close>

lemma handleAppendEntries_accepted:
  assumes "server_ok s" "handleAppendEntries req s = Some (resp, s')" "aer_success resp"
  shows "agrees s' (ae_prev_log_index req) (ae_entries req)" "commitIndex s' = max (commitIndex s) (ae_commit_index req)"
    "aer_last_log_index resp = Some (lastLog s')" "ae_prev_log_index req + length (ae_entries req) \<le> lastLog s'"
    "j \<le> ae_prev_log_index req \<or> j \<le> commitIndex s \<and> j \<le> lastLog s \<Longrightarrow> getEntry (rlog s') j = getEntry (rlog s) j"
proof -
  have "\<exists>s1. hearFromLeader (ae_term req) (ae_server_id req) s = Some s1 \<and> prevEntryOk req s1 = Some True \<and>
      acceptEntries req s1 = Some s' \<and> aer_last_log_index resp = Some (lastLog s')"
    using assms(2) by (cases rule: handleAppendEntries_cases) (use assms(3) in auto)
  then obtain s1 where h: "hearFromLeader (ae_term req) (ae_server_id req) s = Some s1" and ok: "prevEntryOk req s1 = Some True"
    and a: "acceptEntries req s1 = Some s'" and l: "aer_last_log_index resp = Some (lastLog s')" by blast
  note f = hearFromLeader_frame [OF h] hears_hearFromLeader(8) [OF h]
  have inv: "log_inv (rlog s1)" using f assms(1) by (simp add: server_ok_def)
  have prev: "ae_prev_log_index req \<le> lastLog s1" using ok by (auto simp: prevEntryOk_def split: if_splits)
  obtain s2 where s2: "storeEntries (ae_prev_log_index req) (ae_entries req) s1 = Some s2" "rlog s' = rlog s2"
    "commitIndex s' = max (commitIndex s2) (ae_commit_index req)" using acceptEntries_effect [OF a] by metis
  note e = storeEntries_effect [OF s2(1) inv prev]
  show "agrees s' (ae_prev_log_index req) (ae_entries req)" using e(1) s2(2) by (simp add: agrees_def termAt_def)
  show "commitIndex s' = max (commitIndex s) (ae_commit_index req)" "aer_last_log_index resp = Some (lastLog s')"
    "ae_prev_log_index req + length (ae_entries req) \<le> lastLog s'"
    "j \<le> ae_prev_log_index req \<or> j \<le> commitIndex s \<and> j \<le> lastLog s \<Longrightarrow> getEntry (rlog s') j = getEntry (rlog s) j"
    using e(2) [of j] e(3,5) s2(2,3) f l by simp_all
qed


lemma demo_append_handled: "map_option (aer_success \<circ> fst) (handleAppendEntries demo_append (demo_server 2)) = Some True"
  by code_simp

lemma handle_demo_append:
  "\<exists>resp s'. handleAppendEntries demo_append (demo_server 2) = Some (resp, s') \<and> aer_success resp"
  using demo_append_handled by auto


text \<open>C29: \<^verbatim>\<open>handleAppendEntries\<close> answers every well-formed request without a failed assertion or panic: it is
  enough that the sender is the leader the server knows in that term, that entries carry
  their index or none and have a term and a known type, that they do not contradict committed
  entries, and that the leader's commit index lies within the request.\<close>

theorem handleAppendEntries_never_panics:
  assumes "log_inv (rlog s)" "\<not> r_exiting s"
    "currentTerm s = ae_term req \<longrightarrow> leaderId s = 0 \<or> leaderId s = ae_server_id req"
    "entries_ok (ae_prev_log_index req) (ae_entries req)" "no_conflict s (ae_prev_log_index req) (ae_entries req)"
    "ae_commit_index req \<le> ae_prev_log_index req + length (ae_entries req)"
  shows "\<exists>resp s'. handleAppendEntries req s = Some (resp, s') \<and> (ae_term req < currentTerm s \<longrightarrow> s' = s) \<and>
    aer_term resp = max (currentTerm s) (ae_term req)"
proof (cases "ae_term req < currentTerm s")
  case True
  then show ?thesis using assms(2) by (simp add: handleAppendEntries_def Let_def)
next
  case False
  then obtain s1 where h: "hearFromLeader (ae_term req) (ae_server_id req) s = Some s1"
    using hearFromLeader_total [of s "ae_term req" "ae_server_id req"] assms(3) by auto
  note f = hearFromLeader_frame [OF h] hears_hearFromLeader(8) [OF h]
  have inv: "log_inv (rlog s1)" using f assms(1) by simp
  have "\<exists>ok. prevEntryOk req s1 = Some ok"
    using ml.get_defined [OF inv, of "ae_prev_log_index req"] by (auto simp: prevEntryOk_def not_less)
  then obtain ok where ok: "prevEntryOk req s1 = Some ok" by blast
  have "\<exists>s2. acceptEntries req s1 = Some s2" if ok
  proof -
    have prev: "ae_prev_log_index req \<le> lastLog s1" using ok that by (auto simp: prevEntryOk_def split: if_splits)
    have "no_conflict s1 (ae_prev_log_index req) (ae_entries req)" using assms(5) f by (simp add: no_conflict_def termAt_def)
    then obtain s2 where s2: "storeEntries (ae_prev_log_index req) (ae_entries req) s1 = Some s2"
      using storeEntries_total [OF assms(4) _ inv] by blast
    have "ae_commit_index req \<le> lastLog s2" using storeEntries_effect(5) [OF s2 inv prev] assms(6) by simp
    then show ?thesis by (auto simp: acceptEntries_def s2 notify_all_def Clock_now_def Let_def)
  qed
  then show ?thesis using assms(2) False h ok by (cases ok) (auto simp: handleAppendEntries_def Let_def max_def)
qed

theorem handleAppendEntries_never_panics_witness: "handleAppendEntries demo_append (demo_server 2) \<noteq> None"
proof -
  have "log_inv (rlog (demo_server 2))" using demo_server_ok(2) by (simp add: server_ok_def)
  moreover have "entries_ok 1 [demo_noop]" by (simp add: entries_ok_def demo_noop_def)
  moreover have "no_conflict (demo_server 2) 1 [demo_noop]" by (simp add: no_conflict_def demo_server_fields)
  ultimately show ?thesis
    using handleAppendEntries_never_panics [of "demo_server 2" demo_append] demo_server_fields(1-3)
    by (auto simp: demo_append_def)
qed

text \<open>A repeated request changes nothing in the log: when a request that was accepted arrives again, it
  is accepted again, and the log and the commit index stay as they are.\<close>

theorem handleAppendEntries_idempotent:
  assumes "server_ok s" "entries_ok (ae_prev_log_index req) (ae_entries req)" "ae_server_id req \<noteq> 0"
    "handleAppendEntries req s = Some (resp, s')" "aer_success resp" "\<not> r_exiting s'"
  shows "\<exists>resp' s''. handleAppendEntries req s' = Some (resp', s'') \<and> aer_success resp' \<and>
    getEntry (rlog s'') = getEntry (rlog s') \<and> lastLog s'' = lastLog s' \<and> commitIndex s'' = commitIndex s'"
  using assms(4)
proof (cases rule: handleAppendEntries_cases)
  case (accepted s1)
  let ?i = "ae_prev_log_index req" and ?es = "ae_entries req"
  note f = hearFromLeader_frame [OF accepted(2)] hears_hearFromLeader(2-4,8) [OF accepted(2)]
  have inv: "log_inv (rlog s1)" using f(4) assms(1) by (simp add: server_ok_def)
  have prev: "?i \<le> lastLog s1" using accepted(3) by (auto simp: prevEntryOk_def split: if_splits)
  obtain s2 where s2: "storeEntries ?i ?es s1 = Some s2" "rlog s' = rlog s2"
    "commitIndex s' = max (commitIndex s2) (ae_commit_index req)" "currentTerm s' = currentTerm s2" "leaderId s' = leaderId s2"
    "commitIndex s2 < ae_commit_index req \<longrightarrow> ae_commit_index req \<le> lastLog s2"
    using acceptEntries_effect [OF accepted(4)] by metis
  note e = storeEntries_effect [OF s2(1) inv prev]
  have "server_ok s1" using hears_hearFromLeader(1) [OF accepted(2)] assms(1) by (simp add: hears_def)
  then have "delta s1 s'" using evolve_acceptEntries [OF accepted(4)] by (simp add: evolve_def)
  moreover have t: "currentTerm s' = currentTerm s1"
    using s2(1,4) storeEntries_log [OF s2(1) inv prev] by metis
  ultimately have l: "leaderId s' = ae_server_id req" using f(6) assms(3) by (simp add: delta_def)
  then obtain s3 where h: "hearFromLeader (ae_term req) (ae_server_id req) s' = Some s3"
    using hearFromLeader_total [of s' "ae_term req" "ae_server_id req"] t f(7) by auto
  note g = hearFromLeader_frame [OF h] hears_hearFromLeader(8) [OF h]
  have ls: "logStart s3 = logStart s1" using g(3) s2(2) e(4) by simp
  have "getEntry (rlog s3) ?i = getEntry (rlog s1) ?i" using e(2) [of ?i] g(1) s2(2) by simp
  moreover have "?i \<le> lastLog s3" using e(5) g(2) s2(2) by simp
  ultimately have ok: "prevEntryOk req s3 = Some True"
    using accepted(3) prev ls by (auto simp: prevEntryOk_def split: if_splits)
  have "agrees s3 ?i ?es" using e(1) g(1,3) s2(2) by (simp add: agrees_def termAt_def)
  then have st: "storeEntries ?i ?es s3 = Some s3" by (rule storeEntries_again [OF assms(2)])
  have "commitIndex s3 = max (commitIndex s2) (ae_commit_index req)" using g(5) s2(3) by simp
  then have "\<not> commitIndex s3 < ae_commit_index req" by simp
  then obtain s4 where s4: "acceptEntries req s3 = Some s4" "rlog s4 = rlog s3" "commitIndex s4 = commitIndex s3"
    by (simp add: acceptEntries_def st Let_def setElectionTimer_def basic_defs)
  have "\<not> ae_term req < currentTerm s'" using t f(7) by simp
  then have "\<exists>r. handleAppendEntries req s' = Some (r, s4) \<and> aer_success r"
    using assms(6) h ok s4(1) by (simp add: handleAppendEntries_def Let_def)
  then show ?thesis using s4(2,3) g by auto
qed (use assms(5) in simp_all)

theorem handleAppendEntries_idempotent_witness:
  "\<exists>resp s' resp' s''. handleAppendEntries demo_append (demo_server 2) = Some (resp, s') \<and>
     handleAppendEntries demo_append s' = Some (resp', s'') \<and> lastLog s'' = lastLog s'"
proof -
  have "\<exists>resp s'. handleAppendEntries demo_append (demo_server 2) = Some (resp, s') \<and> aer_success resp \<and> \<not> r_exiting s'"
  proof -
    have "map_option (r_exiting \<circ> snd) (handleAppendEntries demo_append (demo_server 2)) = Some False" by code_simp
    then show ?thesis using handle_demo_append by auto
  qed
  then obtain resp s' where h: "handleAppendEntries demo_append (demo_server 2) = Some (resp, s')" "aer_success resp" "\<not> r_exiting s'"
    by blast
  have ok: "entries_ok (ae_prev_log_index demo_append) (ae_entries demo_append)" "ae_server_id demo_append \<noteq> 0"
    by (simp_all add: demo_append_def entries_ok_def demo_noop_def)
  show ?thesis using handleAppendEntries_idempotent [OF demo_server_ok(2) ok h] h(1) by blast
qed

section \<open>RequestVote\<close>

text \<open>The vote that the handler decides on, from the state before the request: withheld while the server
  hears from a leader, otherwise given to the first candidate of the term with a log that is
  at least as up to date.\<close>

definition givesVote :: "RequestVoteRequest \<Rightarrow> Raft \<Rightarrow> bool" where
  "givesVote req s \<longleftrightarrow> withholdVotesUntil s \<le> clock s (clockReads s) \<and> currentTerm s \<le> rv_term req \<and>
     (let free = currentTerm s < rv_term req \<or> votedFor s = 0; t = getLastLogTerm s in
      if free then t \<noteq> None \<and> logIsOk req (the t) (lastLog s) else votedFor s = rv_server_id req)"

lemma handleRequestVote_open:
  assumes "handleRequestVote req s = Some (resp, s')" "withholdVotesUntil s \<le> clock s (clockReads s)"
  obtains s2 where "currentTerm s2 = max (currentTerm s) (rv_term req)"
    "votedFor s2 = (if currentTerm s < rv_term req then 0 else votedFor s)" "getEntry (rlog s2) = getEntry (rlog s)"
    "if rv_term req = currentTerm s2 \<and> logIsOk req (the (getLastLogTerm s)) (lastLog s) \<and> votedFor s2 = 0
     then \<exists>a. stepDown (currentTerm s2) s2 = Some a \<and> s' = updateLogMetadata ((setElectionTimer a)\<lparr>votedFor := rv_server_id req\<rparr>)
     else s' = s2" "getLastLogTerm s \<noteq> None" "rvr_term resp = currentTerm s'"
    "rvr_granted resp \<longleftrightarrow> rv_term req = currentTerm s' \<and> votedFor s' = rv_server_id req"
proof -
  obtain now s1 where c: "Clock_now s = (now, s1)" by fastforce
  then have s1: "currentTerm s1 = currentTerm s" "votedFor s1 = votedFor s" "rlog s1 = rlog s"
    "withholdVotesUntil s1 = withholdVotesUntil s" "now = clock s (clockReads s)"
    by (auto simp: Clock_now_def)
  obtain t where t: "getLastLogTerm s = Some t"
    using assms by (auto simp: handleRequestVote_def Let_def split: if_splits elim!: bind_SomeE)
  obtain s2 where s2: "(if rv_term req > currentTerm s1 then stepDown (rv_term req) s1 else Some s1) = Some s2"
    and s3: "(if rv_term req = currentTerm s2 \<and> logIsOk req t (lastLog s) \<and> votedFor s2 = 0 then do {
              a \<leftarrow> stepDown (currentTerm s2) s2;
              Some (updateLogMetadata ((setElectionTimer a)\<lparr>votedFor := rv_server_id req\<rparr>)) }
            else Some s2) = Some s'"
    and g: "rvr_term resp = currentTerm s'" "rvr_granted resp \<longleftrightarrow> rv_term req = currentTerm s' \<and> votedFor s' = rv_server_id req"
    using assms c t s1 unfolding handleRequestVote_def Let_def logIsOk_def
    by (simp add: not_less del: bind_eq_Some_conv split: if_splits) (auto elim!: bind_SomeE)
  have "currentTerm s2 = max (currentTerm s) (rv_term req)" "votedFor s2 = (if currentTerm s < rv_term req then 0 else votedFor s)"
    "getEntry (rlog s2) = getEntry (rlog s)"
    using s2 s1 stepDown_result [of "rv_term req" s1 s2] bounds_cong(3) [OF stepDown_frame(2,1) [of "rv_term req" s1 s2]]
    by (auto split: if_splits)
  moreover have "if rv_term req = currentTerm s2 \<and> logIsOk req (the (getLastLogTerm s)) (lastLog s) \<and> votedFor s2 = 0
     then \<exists>a. stepDown (currentTerm s2) s2 = Some a \<and> s' = updateLogMetadata ((setElectionTimer a)\<lparr>votedFor := rv_server_id req\<rparr>)
     else s' = s2"
    using s3 t by (auto split: if_splits elim!: bind_SomeE)
  ultimately show ?thesis using that [of s2] g t by blast
qed

text \<open>C8: \<^verbatim>\<open>handleRequestVote\<close> grants its vote exactly when the server does not hear from a leader, the term
  of the candidate is not old, and the server either voted for it before, or has not voted
  in that term and its log is not more up to date. A granted vote is in the metadata on disk
  together with the term when the reply is sent, a newer term is adopted unless the vote is
  withheld, and the log is not touched.\<close>

theorem handleRequestVote_correct:
  assumes "server_ok s" "rv_server_id req \<noteq> 0" "handleRequestVote req s = Some (resp, s')"
  shows "(rvr_granted resp \<longleftrightarrow> givesVote req s) \<and>
    (rvr_granted resp \<longrightarrow> votedFor s' = rv_server_id req \<and>
      metadata (rlog s') = \<lparr>md_current_term = Some (rv_term req), md_voted_for = Some (rv_server_id req)\<rparr>) \<and>
    (rvr_term resp = currentTerm s' \<and> getEntry (rlog s') = getEntry (rlog s) \<and>
      currentTerm s' = (if clock s (clockReads s) < withholdVotesUntil s then currentTerm s else max (currentTerm s) (rv_term req)))"
proof (rule conjI [OF _ conjI])
  have pers: "persisted s'"
    using evolve_handleRequestVote [OF assms(3)] assms(1) by (simp add: evolve_def server_ok_def)
  have "(rvr_granted resp \<longleftrightarrow> givesVote req s) \<and>
    (rvr_granted resp \<longrightarrow> votedFor s' = rv_server_id req \<and> currentTerm s' = rv_term req) \<and>
    rvr_term resp = currentTerm s' \<and> getEntry (rlog s') = getEntry (rlog s) \<and>
    currentTerm s' = (if clock s (clockReads s) < withholdVotesUntil s then currentTerm s else max (currentTerm s) (rv_term req))"
  proof (cases "clock s (clockReads s) < withholdVotesUntil s")
    case True
    then have "\<not> rvr_granted resp" "s' = snd (Clock_now s)" "rvr_term resp = currentTerm s'"
      using assms(3) by (auto simp: handleRequestVote_def Clock_now_def Let_def split: if_splits elim!: bind_SomeE)
    then show ?thesis using True by (simp add: givesVote_def Clock_now_def)
  next
    case False
    then have nw: "withholdVotesUntil s \<le> clock s (clockReads s)" by simp
    obtain s2 where s2: "currentTerm s2 = max (currentTerm s) (rv_term req)"
      "votedFor s2 = (if currentTerm s < rv_term req then 0 else votedFor s)" "getEntry (rlog s2) = getEntry (rlog s)"
      "if rv_term req = currentTerm s2 \<and> logIsOk req (the (getLastLogTerm s)) (lastLog s) \<and> votedFor s2 = 0
       then \<exists>a. stepDown (currentTerm s2) s2 = Some a \<and> s' = updateLogMetadata ((setElectionTimer a)\<lparr>votedFor := rv_server_id req\<rparr>)
       else s' = s2" "getLastLogTerm s \<noteq> None" "rvr_term resp = currentTerm s'"
      "rvr_granted resp \<longleftrightarrow> rv_term req = currentTerm s' \<and> votedFor s' = rv_server_id req"
      by (rule handleRequestVote_open [OF assms(3) nw])
    show ?thesis
    proof (cases "rv_term req = currentTerm s2 \<and> logIsOk req (the (getLastLogTerm s)) (lastLog s) \<and> votedFor s2 = 0")
      case True
      then obtain a where a: "stepDown (currentTerm s2) s2 = Some a"
        "s' = updateLogMetadata ((setElectionTimer a)\<lparr>votedFor := rv_server_id req\<rparr>)" using s2(4) by auto
      have s': "currentTerm s' = currentTerm s2" "votedFor s' = rv_server_id req" "getEntry (rlog s') = getEntry (rlog a)"
        using stepDown_result(1) [OF a(1)] by (simp_all add: a(2) updateLogMetadata_def setElectionTimer_def basic_defs getEntry_def fun_eq_iff)
      have "getEntry (rlog a) = getEntry (rlog s2)" using bounds_cong(3) [OF stepDown_frame(2,1) [OF a(1)]] .
      then have lg: "getEntry (rlog s') = getEntry (rlog s)" using s'(3) s2(3) by simp
      have le: "currentTerm s \<le> rv_term req" using True s2(1) by (metis max.cobounded1)
      then have ct: "currentTerm s' = rv_term req" using s'(1) s2(1) by simp
      have "currentTerm s < rv_term req \<or> votedFor s = 0" using True s2(2) by (auto split: if_splits)
      then have "givesVote req s" using True s2(5) nw le by (simp add: givesVote_def)
      then show ?thesis using s'(2) s2(6,7) ct lg le nw by (simp add: max_def)
    next
      case c: False
      then have eq: "s' = s2" using s2(4) by auto
      have g: "rvr_granted resp \<longleftrightarrow> currentTerm s \<le> rv_term req \<and> votedFor s2 = rv_server_id req"
        using s2(1,7) unfolding eq by auto
      have "givesVote req s \<longleftrightarrow> currentTerm s \<le> rv_term req \<and> votedFor s2 = rv_server_id req"
      proof (cases "currentTerm s \<le> rv_term req")
        case True
        then have n: "\<not> logIsOk req (the (getLastLogTerm s)) (lastLog s) \<or> votedFor s2 \<noteq> 0" using c s2(1) by simp
        then show ?thesis
          using True s2(2) nw assms(2) by (cases "currentTerm s < rv_term req \<or> votedFor s = 0") (auto simp: givesVote_def split: if_splits)
      qed (simp add: givesVote_def)
      then show ?thesis using g s2(1,3,6,7) nw unfolding eq by simp
    qed
  qed
  then show "rvr_granted resp \<longleftrightarrow> givesVote req s"
    "rvr_granted resp \<longrightarrow> votedFor s' = rv_server_id req \<and>
      metadata (rlog s') = \<lparr>md_current_term = Some (rv_term req), md_voted_for = Some (rv_server_id req)\<rparr>"
    "rvr_term resp = currentTerm s' \<and> getEntry (rlog s') = getEntry (rlog s) \<and>
      currentTerm s' = (if clock s (clockReads s) < withholdVotesUntil s then currentTerm s else max (currentTerm s) (rv_term req))"
    using pers by (auto simp: persisted_def)
qed

theorem handleRequestVote_correct_witness:
  "\<exists>resp s'. handleRequestVote demo_voteRequest (demo_server 2) = Some (resp, s') \<and> rvr_granted resp \<and>
     metadata (rlog s') = \<lparr>md_current_term = Some 2, md_voted_for = Some 1\<rparr>"
proof -
  have "\<not> Option.is_none (handleRequestVote demo_voteRequest (demo_server 2))" by code_simp
  then obtain resp s' where h: "handleRequestVote demo_voteRequest (demo_server 2) = Some (resp, s')"
    by (cases "handleRequestVote demo_voteRequest (demo_server 2)") auto
  have id: "rv_server_id demo_voteRequest \<noteq> 0" by (simp add: demo_voteRequest_def)
  have "givesVote demo_voteRequest (demo_server 2)" by code_simp
  then have g: "rvr_granted resp" using handleRequestVote_correct [OF demo_server_ok(2) id h] by simp
  then show ?thesis using handleRequestVote_correct [OF demo_server_ok(2) id h] h by (simp add: demo_voteRequest_def)
qed

section \<open>Commitment\<close>

text \<open>The commit index after the operation, for the largest index \<open>n\<close> that a quorum has stored.\<close>

lemma advanceCommitIndex_result:
  assumes "advanceCommitIndex s = Some s'"
  shows "commitIndex s' = (let n = quorumMin getMatchIndex (configuration s) in
      if state s = LEADER \<and> commitIndex s < n \<and> termAt s n (currentTerm s) then n else commitIndex s)"
    and "\<exists>new. entries (rlog s') = entries (rlog s) @ new" "startIndex (rlog s') = startIndex (rlog s)"
proof -
  let ?n = "quorumMin getMatchIndex (configuration s)"
  have "commitIndex s' = (let n = ?n in
      if state s = LEADER \<and> commitIndex s < n \<and> termAt s n (currentTerm s) then n else commitIndex s) \<and>
    (\<exists>new. entries (rlog s') = entries (rlog s) @ new) \<and> startIndex (rlog s') = startIndex (rlog s)"
  proof (cases "state s = LEADER \<and> commitIndex s < ?n \<and> termAt s ?n (currentTerm s)")
    case False
    have "s' = s"
      using assms False by (auto simp: advanceCommitIndex_def Let_def termAt_def split: if_splits elim!: bind_SomeE)
    then show ?thesis using False by auto
  next
    case True
    then obtain e where e: "getEntry (rlog s) ?n = Some e" "le_term e = currentTerm s" by (auto simp: termAt_def)
    define s2 where "s2 = notify_all (s\<lparr>commitIndex := ?n\<rparr>)"
    have s2: "commitIndex s2 = ?n" "rlog s2 = rlog s" by (simp_all add: s2_def notify_all_def)
    have "s' = s2 \<or> stepDown (currentTerm s2 + 1) s2 = Some s' \<or>
        (\<exists>t s3 f. leaderStamp s2 = Some (t, s3) \<and> raft_append [f] s3 = Some s')"
      using assms True e unfolding advanceCommitIndex_def
      by (auto simp: Let_def s2_def [symmetric] split: if_splits elim!: bind_SomeE)
    then show ?thesis using True s2 stepDown_frame leaderStamp_frame(1,2) raft_append_log(1-3) by (elim disjE) fastforce+
  qed
  then show "commitIndex s' = (let n = ?n in
      if state s = LEADER \<and> commitIndex s < n \<and> termAt s n (currentTerm s) then n else commitIndex s)"
    "\<exists>new. entries (rlog s') = entries (rlog s) @ new" "startIndex (rlog s') = startIndex (rlog s)" by blast+
qed

text \<open>C9: A leader commits by counting replicas only what a quorum of its configuration has stored, in every
  simple configuration of a transition, and only up to an entry of its own term. The new
  commit index is the largest index that a quorum has stored, and the log keeps its entries.\<close>

theorem commit_needs_quorum:
  assumes "conf_nonempty (configuration s)" "advanceCommitIndex s = Some s'"
  shows "(commitIndex s \<le> commitIndex s') \<and>
    (commitIndex s' \<noteq> commitIndex s \<longrightarrow> state s = LEADER \<and> termAt s (commitIndex s') (currentTerm s) \<and>
      (\<forall>ids \<in> set (membership (configuration s)). simple_quorumAll (\<lambda>sv. commitIndex s' \<le> getMatchIndex sv)
         (lookupServers (configuration s) ids)) \<and>
      (\<forall>n. quorumAll (\<lambda>sv. n \<le> getMatchIndex sv) (configuration s) \<longrightarrow> n \<le> commitIndex s')) \<and>
    (getEntry (rlog s) j = Some e \<longrightarrow> getEntry (rlog s') j = Some e)"
proof (rule conjI [OF _ conjI])
  note r = advanceCommitIndex_result [OF assms(2)]
  note q = quorumMin_iff [OF assms(1), where v = getMatchIndex]
  show "commitIndex s \<le> commitIndex s'" using r(1) by (simp add: Let_def)
  show "commitIndex s' \<noteq> commitIndex s \<longrightarrow> state s = LEADER \<and> termAt s (commitIndex s') (currentTerm s) \<and>
      (\<forall>ids \<in> set (membership (configuration s)). simple_quorumAll (\<lambda>sv. commitIndex s' \<le> getMatchIndex sv)
         (lookupServers (configuration s) ids)) \<and>
      (\<forall>n. quorumAll (\<lambda>sv. n \<le> getMatchIndex sv) (configuration s) \<longrightarrow> n \<le> commitIndex s')"
    using r(1) q [of "quorumMin getMatchIndex (configuration s)"] q
    by (auto simp: Let_def quorumAll_membership split: if_splits)
  show "getEntry (rlog s) j = Some e \<longrightarrow> getEntry (rlog s') j = Some e"
    using r(2,3) by (auto simp: getEntry_def nth_append split: if_splits)
qed

theorem commit_needs_quorum_witness:
  "\<exists>s'. advanceCommitIndex demo_synced = Some s' \<and> commitIndex demo_synced = 0 \<and> commitIndex s' = 2 \<and> termAt demo_synced 2 1"
proof -
  have "map_option commitIndex (advanceCommitIndex demo_synced) = Some 2" "conf_nonempty (configuration demo_synced)"
    "commitIndex demo_synced = 0" "currentTerm demo_synced = 1" by code_simp+
  then obtain s' where s': "advanceCommitIndex demo_synced = Some s'" "commitIndex s' = 2" by auto
  show ?thesis using commit_needs_quorum [OF \<open>conf_nonempty _\<close> s'(1)] s' \<open>commitIndex demo_synced = 0\<close>
    \<open>currentTerm demo_synced = 1\<close> by simp
qed

section \<open>Replication\<close>

lemma appendEntries_built:
  assumes "log_inv (rlog s)" "appendEntries_send pb i inc s = Some (SendAppendEntries c, s')"
  shows "\<exists>p es. findPeer i inc s = Some p \<and> ae_entries (call_request c) = es \<and> ae_prev_log_index (call_request c) + 1 = nextIndex p \<and>
      (\<not> suppressBulkData p \<and> nextIndex p \<le> lastLog s \<and> 0 < MAX_LOG_ENTRIES_PER_REQUEST (params s) \<longrightarrow> es \<noteq> [])"
    "ae_server_id (call_request c) = serverId s" "ae_term (call_request c) = currentTerm s"
    "ae_prev_log_index (call_request c) \<le> lastLog s" "knownTerm s (ae_prev_log_index (call_request c)) (ae_prev_log_term (call_request c))"
    "\<forall>m < length (ae_entries (call_request c)).
       getEntry (rlog s) (ae_prev_log_index (call_request c) + 1 + m) = Some (ae_entries (call_request c) ! m)"
    "length (ae_entries (call_request c)) \<le> MAX_LOG_ENTRIES_PER_REQUEST (params s)"
    "ae_commit_index (call_request c) = min (commitIndex s) (ae_prev_log_index (call_request c) + length (ae_entries (call_request c)))"
    "call_count c = length (ae_entries (call_request c))"
proof -
  obtain p prev t request es where e: "findPeer i inc s = Some p"
      "prev = (if nextIndex p = 0 then u64_max else nextIndex p - 1)" "prev \<le> lastLog s" "logStart s \<le> nextIndex p"
      "knownTerm s prev t"
      "request = \<lparr>ae_server_id = serverId s, ae_term = currentTerm s, ae_prev_log_index = prev,
                ae_prev_log_term = t, ae_entries = [], ae_commit_index = 0\<rparr>"
      "(if suppressBulkData p then Some [] else packEntries pb (nextIndex p) request s) = Some es"
      "beginCall i inc (request\<lparr>ae_entries := es, ae_commit_index := min (commitIndex s) (prev + length es)\<rparr>)
         (length es) s = (c, s')"
    using assms(2)
  proof (cases rule: appendEntries_send_cases)
    case (snapshot p)
    from snapshot(2) show ?thesis by (cases rule: installSnapshot_send_cases) simp
  next
    case (entries p prev t request es c')
    then show ?thesis using that by blast
  qed
  have "0 < nextIndex p" using assms(1) e(4) by (simp add: log_inv_def getLogStartIndex_def)
  then have pos: "0 < nextIndex p" "nextIndex p = prev + 1" using e(2) by auto
  have r: "call_request c = request\<lparr>ae_entries := es, ae_commit_index := min (commitIndex s) (prev + length es)\<rparr>"
    "call_count c = length es" using e(8) by (auto simp: beginCall_def Clock_now_def)
  have es: "\<forall>m < length es. getEntry (rlog s) (nextIndex p + m) = Some (es ! m)"
    "length es \<le> MAX_LOG_ENTRIES_PER_REQUEST (params s)"
    "\<not> suppressBulkData p \<Longrightarrow> nextIndex p \<le> lastLog s \<Longrightarrow> 0 < MAX_LOG_ENTRIES_PER_REQUEST (params s) \<Longrightarrow> es \<noteq> []"
    using e(7) packEntries_slice [of pb "nextIndex p" request s es] pos(1) by (auto split: if_splits)
  note f = e(3,5,6) es pos(2)
  show "ae_server_id (call_request c) = serverId s" "ae_term (call_request c) = currentTerm s"
    "ae_prev_log_index (call_request c) \<le> lastLog s" "knownTerm s (ae_prev_log_index (call_request c)) (ae_prev_log_term (call_request c))"
    "\<forall>m < length (ae_entries (call_request c)).
       getEntry (rlog s) (ae_prev_log_index (call_request c) + 1 + m) = Some (ae_entries (call_request c) ! m)"
    "length (ae_entries (call_request c)) \<le> MAX_LOG_ENTRIES_PER_REQUEST (params s)"
    "ae_commit_index (call_request c) = min (commitIndex s) (ae_prev_log_index (call_request c) + length (ae_entries (call_request c)))"
    "call_count c = length (ae_entries (call_request c))"
    using f by (simp_all add: r)
  show "\<exists>p es. findPeer i inc s = Some p \<and> ae_entries (call_request c) = es \<and> ae_prev_log_index (call_request c) + 1 = nextIndex p \<and>
      (\<not> suppressBulkData p \<and> nextIndex p \<le> lastLog s \<and> 0 < MAX_LOG_ENTRIES_PER_REQUEST (params s) \<longrightarrow> es \<noteq> [])"
    using e(1) f by (simp add: r)
qed


definition demo_leading :: Raft where
  "demo_leading = (demo_server 1)\<lparr>state := LEADER, currentTerm := 2, leaderId := 1,
     rlog := (rlog (demo_server 1))\<lparr>entries := [demo_entry, demo_noop]\<rparr>,
     configuration := updateServer 2 (\<lambda>sv. case kind sv of LocalServer _ \<Rightarrow> sv
       | Peer p \<Rightarrow> sv\<lparr>kind := Peer (p\<lparr>nextIndex := 2, suppressBulkData := False\<rparr>)\<rparr>) (configuration (demo_server 1))\<rparr>"

lemma demo_leading_log: "log_inv (rlog demo_leading)" "MAX_LOG_ENTRIES_PER_REQUEST (params demo_leading) = 5000"
  by code_simp+

lemma demo_leading_send:
  "\<exists>c s' resp u'. appendEntries_send demo_pb 2 0 demo_leading = Some (SendAppendEntries c, s') \<and>
     handleAppendEntries (call_request c) (demo_server 2) = Some (resp, u') \<and> aer_success resp \<and>
     ae_prev_log_index (call_request c) = 1 \<and> call_count c = 1 \<and> logStart u' = 1"
proof -
  have "(case appendEntries_send demo_pb 2 0 demo_leading of
      Some (SendAppendEntries c, s') \<Rightarrow> ae_prev_log_index (call_request c) = 1 \<and> call_count c = 1 \<and>
        (case handleAppendEntries (call_request c) (demo_server 2) of
           Some (resp, u') \<Rightarrow> aer_success resp \<and> logStart u' = 1 | None \<Rightarrow> False)
    | _ \<Rightarrow> False)" by code_simp
  then show ?thesis by (auto split: option.splits outgoing.splits)
qed


text \<open>C10: Replication works end to end: when a follower accepts a request that a leader built, then from the
  request's previous index up to its last entry the follower's log holds at every index it still
  has an entry with the term of the leader's entry there, the index that the leader then
  records as matching is within the follower's log, and the follower's commit index is within
  that range or unchanged.\<close>

theorem replication_agrees:
  assumes "log_inv (rlog s)" "appendEntries_send pb i inc s = Some (SendAppendEntries c, s')"
    "server_ok u" "handleAppendEntries (call_request c) u = Some (resp, u')" "aer_success resp"
  shows "(ae_prev_log_index (call_request c) < j \<and> j \<le> ae_prev_log_index (call_request c) + call_count c \<and> logStart u' \<le> j \<longrightarrow>
      (\<exists>e e'. getEntry (rlog s) j = Some e \<and> getEntry (rlog u') j = Some e' \<and> le_term e' = le_term e)) \<and>
    (ae_prev_log_index (call_request c) + call_count c \<le> lastLog u') \<and>
    (commitIndex u' \<noteq> commitIndex u \<longrightarrow>
      commitIndex u' \<le> commitIndex s \<and> commitIndex u' \<le> ae_prev_log_index (call_request c) + call_count c)"
proof (rule conjI [OF _ conjI])
  let ?r = "call_request c"
  have r: "\<forall>m < length (ae_entries ?r). getEntry (rlog s) (ae_prev_log_index ?r + 1 + m) = Some (ae_entries ?r ! m)"
    "call_count c = length (ae_entries ?r)"
    "ae_commit_index ?r = min (commitIndex s) (ae_prev_log_index ?r + length (ae_entries ?r))"
    using appendEntries_built [OF assms(1,2)] by simp_all
  have h: "agrees u' (ae_prev_log_index ?r) (ae_entries ?r)" "commitIndex u' = max (commitIndex u) (ae_commit_index ?r)"
    "ae_prev_log_index ?r + length (ae_entries ?r) \<le> lastLog u'"
    using handleAppendEntries_accepted [OF assms(3-5)] by blast+
  show "ae_prev_log_index (call_request c) < j \<and> j \<le> ae_prev_log_index (call_request c) + call_count c \<and> logStart u' \<le> j \<longrightarrow>
      (\<exists>e e'. getEntry (rlog s) j = Some e \<and> getEntry (rlog u') j = Some e' \<and> le_term e' = le_term e)"
  proof (intro impI, elim conjE)
    assume j: "ae_prev_log_index ?r < j" "j \<le> ae_prev_log_index ?r + call_count c" "logStart u' \<le> j"
    define m where "m = j - ae_prev_log_index ?r - 1"
    have m: "m < length (ae_entries ?r)" "j = ae_prev_log_index ?r + 1 + m" using j r(2) by (simp_all add: m_def)
    then show "\<exists>e e'. getEntry (rlog s) j = Some e \<and> getEntry (rlog u') j = Some e' \<and> le_term e' = le_term e"
      using r(1) h(1) j(3) by (auto simp: agrees_def termAt_def)
  qed
  show "ae_prev_log_index (call_request c) + call_count c \<le> lastLog u'" using h(3) r(2) by simp
  show "commitIndex u' \<noteq> commitIndex u \<longrightarrow>
      commitIndex u' \<le> commitIndex s \<and> commitIndex u' \<le> ae_prev_log_index (call_request c) + call_count c"
    using h(2) r(2,3) by (auto simp: max_def)
qed

theorem replication_agrees_witness:
  "\<exists>c s' resp u'. appendEntries_send demo_pb 2 0 demo_leading = Some (SendAppendEntries c, s') \<and>
     handleAppendEntries (call_request c) (demo_server 2) = Some (resp, u') \<and>
     (\<exists>e e'. getEntry (rlog demo_leading) 2 = Some e \<and> getEntry (rlog u') 2 = Some e' \<and> le_term e' = le_term e)"
proof -
  obtain c s' resp u' where c: "appendEntries_send demo_pb 2 0 demo_leading = Some (SendAppendEntries c, s')"
    "handleAppendEntries (call_request c) (demo_server 2) = Some (resp, u')" "aer_success resp"
    "ae_prev_log_index (call_request c) = 1" "call_count c = 1" "logStart u' = 1"
    using demo_leading_send by blast
  have "\<exists>e e'. getEntry (rlog demo_leading) 2 = Some e \<and> getEntry (rlog u') 2 = Some e' \<and> le_term e' = le_term e"
    using replication_agrees [OF demo_leading_log(1) c(1) demo_server_ok(2) c(2,3), of 2] c(4-6) by simp
  then show ?thesis using c(1,2) by blast
qed

section \<open>Finding the point of agreement\<close>







section \<open>Reading from the leader\<close>

text \<open>C35: When \<^verbatim>\<open>upToDateLeader\<close> returns true, the server is still leader, a majority of every simple
  configuration has acknowledged an RPC of an epoch that began with this call, and the last committed entry is
  of the leader's own term, so that its commit index is up to date. It returns false exactly when the server
  exits or is not leader.\<close>

theorem upToDateLeader_confirms:
  assumes "conf_nonempty (configuration s)" "upToDateLeader_begin s0 = (epoch, s1)" "upToDateLeader_check epoch s = Some res"
  shows "(currentEpoch s0 < epoch \<and> currentEpoch s1 = epoch) \<and>
    (res = Done False \<longleftrightarrow> r_exiting s \<or> state s \<noteq> LEADER) \<and>
    (res = Done True \<longrightarrow> state s = LEADER \<and>
      (\<forall>ids \<in> set (membership (configuration s)). simple_quorumAll (\<lambda>sv. epoch \<le> getLastAckEpoch (currentEpoch s) sv)
         (lookupServers (configuration s) ids)) \<and>
      (if commitIndex s = lastSnapshotIndex s then lastSnapshotTerm s = currentTerm s else termAt s (commitIndex s) (currentTerm s)))"
proof (rule conjI [OF _ conjI])
  have sh: "currentEpoch (scheduleHeartbeats ids u) = currentEpoch u" for ids u
    by (induction ids arbitrary: u)
      (auto simp: Clock_now_def updatePeer_def Let_def split: option.split ServerKind.split)
  show "currentEpoch s0 < epoch \<and> currentEpoch s1 = epoch"
    using assms(2) sh by (auto simp: upToDateLeader_begin_def Let_def notify_all_def)
  show "res = Done False \<longleftrightarrow> r_exiting s \<or> state s \<noteq> LEADER"
    using assms(3) by (auto simp: upToDateLeader_check_def split: if_splits elim!: bind_SomeE)
  have q: "epoch \<le> quorumMin (getLastAckEpoch (currentEpoch s)) (configuration s) \<longleftrightarrow>
      quorumAll (\<lambda>sv. epoch \<le> getLastAckEpoch (currentEpoch s) sv) (configuration s)"
    by (rule quorumMin_iff [OF assms(1)])
  show "res = Done True \<longrightarrow> state s = LEADER \<and>
      (\<forall>ids \<in> set (membership (configuration s)). simple_quorumAll (\<lambda>sv. epoch \<le> getLastAckEpoch (currentEpoch s) sv)
         (lookupServers (configuration s) ids)) \<and>
      (if commitIndex s = lastSnapshotIndex s then lastSnapshotTerm s = currentTerm s else termAt s (commitIndex s) (currentTerm s))"
    using assms(3) q by (auto simp: upToDateLeader_check_def termAt_def quorumAll_membership split: if_splits elim!: bind_SomeE)
qed

text \<open>The single server of \<open>demo_synced\<close>, after it committed its first entry.\<close>

definition demo_read :: Raft where
  "demo_read = snd (upToDateLeader_begin (the (advanceCommitIndex demo_synced)))"

theorem upToDateLeader_confirms_witness:
  "upToDateLeader_check 1 demo_read = Some (Done True) \<and> termAt demo_read 2 1"
proof -
  have c: "conf_nonempty (configuration demo_read)" "fst (upToDateLeader_begin (the (advanceCommitIndex demo_synced))) = 1"
    "commitIndex demo_read = 2" "lastSnapshotIndex demo_read = 0" "currentTerm demo_read = 1"
    "(case upToDateLeader_check 1 demo_read of Some (Done True) \<Rightarrow> True | _ \<Rightarrow> False)" by code_simp+
  have r: "upToDateLeader_check 1 demo_read = Some (Done True)"
    using c(6) by (auto split: option.splits waitResult.splits bool.splits)
  have b: "upToDateLeader_begin (the (advanceCommitIndex demo_synced)) = (1, demo_read)"
    using c(2) by (simp add: demo_read_def prod_eq_iff)
  show ?thesis using upToDateLeader_confirms [OF c(1) b r] r c(3-5) by simp
qed

end
