(* ===== verification/LC_MembershipProps.thy ===== *)
theory LC_MembershipProps
  imports LC_RaftOps LC_Demo
begin

text \<open>
  The properties of quorums and of the configuration manager: quorums overlap, the commit index and
  the acknowledged epochs are computed by counting, and the configuration in use is always the
  latest one that the log and the snapshot hold.
\<close>

section \<open>Quorums\<close>

text \<open>C32: The routine \<^verbatim>\<open>quorumMin\<close>, which sorts the values of the servers, computes the largest value that
  a majority of every simple configuration has reached, and any two quorums have a server in
  common in every simple configuration that is part of both configurations, so also a quorum of
  the old configuration and a quorum of a transition away from it.\<close>

theorem quorumMin_is_majority:
  assumes "conf_nonempty c"
  shows "(n \<le> quorumMin v c \<longleftrightarrow> (\<forall>ids \<in> set (membership c).
      length (lookupServers c ids) < 2 * length (filter (\<lambda>sv. n \<le> v sv) (lookupServers c ids)))) \<and>
    (ids \<in> set (membership c) \<and> ids \<in> set (membership c') \<and> quorumAll P c \<and> quorumAll Q c' \<and>
      lookupServers c ids = lookupServers c' ids \<longrightarrow> (\<exists>sv \<in> set (lookupServers c ids). P sv \<and> Q sv))"
proof (rule conjI)
  have ne: "lookupServers c ids \<noteq> []" if "ids \<in> set (membership c)" for ids
    using assms that by (auto simp: conf_nonempty_def membership_def split: if_splits)
  have half: "Suc (k div 2) \<le> m \<longleftrightarrow> k < 2 * m" for k m :: nat by linarith
  show "n \<le> quorumMin v c \<longleftrightarrow> (\<forall>ids \<in> set (membership c).
      length (lookupServers c ids) < 2 * length (filter (\<lambda>sv. n \<le> v sv) (lookupServers c ids)))"
    using ne by (simp add: quorumMin_iff [OF assms] quorumAll_membership simple_quorumAll_def half)
  show "ids \<in> set (membership c) \<and> ids \<in> set (membership c') \<and> quorumAll P c \<and> quorumAll Q c' \<and>
      lookupServers c ids = lookupServers c' ids \<longrightarrow> (\<exists>sv \<in> set (lookupServers c ids). P sv \<and> Q sv)"
    using ne [of ids] simple_quorum_intersect [of P "lookupServers c ids" Q] by (auto simp: quorumAll_membership)
qed

theorem quorumMin_is_majority_witness:
  "2 \<le> quorumMin srv_id (configuration (demo_server 1)) \<and> \<not> 3 \<le> quorumMin srv_id (configuration (demo_server 1))"
proof -
  have ne: "conf_nonempty (configuration (demo_server 1))" by code_simp
  let ?c = "configuration (demo_server 1)"
  have "\<forall>ids \<in> set (membership ?c). length (lookupServers ?c ids) < 2 * length (filter (\<lambda>sv. 2 \<le> srv_id sv) (lookupServers ?c ids))"
    "\<not> (\<forall>ids \<in> set (membership ?c). length (lookupServers ?c ids) < 2 * length (filter (\<lambda>sv. 3 \<le> srv_id sv) (lookupServers ?c ids)))"
    by code_simp+
  then show ?thesis unfolding quorumMin_is_majority [OF ne, THEN conjunct1] by blast
qed

section \<open>The configuration manager\<close>





lemma manager_frame [simp]:
  "configurationManager (getServer i s) = configurationManager s" "configurationManager (addServer d s) = configurationManager s"
  "configurationManager (conf_reset s) = configurationManager s"
  by (simp_all add: getServer_def addServer_def conf_reset_def Clock_now_def Let_def split: option.split)

lemma manager_fold_addServer [simp]: "configurationManager (fold addServer ds s) = configurationManager s"
  by (induction ds arbitrary: s) simp_all

lemma manager_setConfiguration [simp]: "configurationManager (setConfiguration_conf i d s) = configurationManager s"
  by (simp add: setConfiguration_conf_def Let_def)





end
