(* ===== verification/LC_SnapshotProps.thy ===== *)
theory LC_SnapshotProps
  imports LC_RaftLog LC_Demo
begin

text \<open>
  The properties of snapshots in the consensus module: the header that is written is the one that is
  read, taking a snapshot keeps the rest of the log, loading one keeps what follows it, the
  chunks of a transfer reassemble the file, and the state machine is given committed entries
  in order.
\<close>

section \<open>Writing and reading a snapshot\<close>

lemma openSnapshot_written:
  assumes "parseHeader pb (serializeHeader pb h) = Some h" "length (serializeHeader pb h) < 2 ^ 32"
  shows "openSnapshot pb (staged (writeRaw d (writeMessage (serializeHeader pb) h (writeRaw [CHR 0x01] mkWriter)))) =
    Some (h, \<lparr>file_contents = staged (writeRaw d (writeMessage (serializeHeader pb) h (writeRaw [CHR 0x01] mkWriter))),
      bytesRead = bytesWritten (writeMessage (serializeHeader pb) h (writeRaw [CHR 0x01] mkWriter))\<rparr>)"
proof -
  let ?m = "staged (writeMessage (serializeHeader pb) h mkWriter)" and ?v = "[CHR 0x01]"
  let ?f = "?v @ ?m @ d"
  have f: "staged (writeRaw d (writeMessage (serializeHeader pb) h (writeRaw ?v mkWriter))) = ?f"
    "bytesWritten (writeMessage (serializeHeader pb) h (writeRaw ?v mkWriter)) = length (?v @ ?m)"
    by (simp_all add: writeRaw_def writeMessage_def mkWriter_def Let_def)
  have r1: "readRaw 1 (mkReader ?f) = (?v, \<lparr>file_contents = ?f, bytesRead = 1\<rparr>)"
    by (simp add: readRaw_def mkReader_def)
  have r2: "readMessage (parseHeader pb) \<lparr>file_contents = ?f, bytesRead = 1\<rparr> =
      (parseHeader pb (serializeHeader pb h), \<lparr>file_contents = ?f, bytesRead = length (?v @ ?m)\<rparr>)"
    using readMessage_at [of "\<lparr>file_contents = ?f, bytesRead = 1\<rparr>" ?v "serializeHeader pb" h d "parseHeader pb"] assms(2)
    by simp
  show ?thesis unfolding f openSnapshot_def r1 using assms(1) r2 by simp
qed

text \<open>A snapshot file that \<^verbatim>\<open>beginSnapshot\<close> started and the state machine completed with its data is read
  back by \<^verbatim>\<open>readSnapshot\<close> with the same header, and the reader is then positioned at the data.
  The protocol buffer library is assumed to parse what it serialized.\<close>

theorem snapshot_header_roundtrip:
  assumes "snapshotHeader i s = Some h" "beginSnapshot pb i s = Some w"
    "parseHeader pb (serializeHeader pb h) = Some h" "length (serializeHeader pb h) < 2 ^ 32"
  shows "(last_included_index h = i) \<and>
    (\<exists>r. openSnapshot pb (fst (writer_save (writeRaw d w))) = Some (h, r) \<and> drop (bytesRead r) (file_contents r) = d)"
proof (rule conjI)
  have w: "w = writeMessage (serializeHeader pb) h (writeRaw [CHR 0x01] mkWriter)"
    using assms(1,2) by (auto simp: beginSnapshot_def split: if_splits)
  show "last_included_index h = i" using assms(1) by (auto simp: snapshotHeader_def elim!: bind_SomeE split: prod.splits)
  have "bytesWritten w = length (staged w)" unfolding w by (simp add: writeRaw_def writeMessage_def mkWriter_def Let_def)
  then have "drop (bytesWritten w) (staged (writeRaw d w)) = d" by (simp add: writeRaw_def)
  then show "\<exists>r. openSnapshot pb (fst (writer_save (writeRaw d w))) = Some (h, r) \<and> drop (bytesRead r) (file_contents r) = d"
    using openSnapshot_written [OF assms(3,4), of d] w by (simp add: writer_save_def)
qed

definition demo_committed :: Raft where
  "demo_committed = (demo_server 1)\<lparr>commitIndex := 1\<rparr>"

definition demo_header :: SnapshotHeader where
  "demo_header = the (snapshotHeader 1 demo_committed)"

definition demo_pbh :: ProtoBuf where
  "demo_pbh = demo_pb\<lparr>serializeHeader := (\<lambda>h. ''header''), parseHeader := (\<lambda>x. if x = ''header'' then Some demo_header else None)\<rparr>"

lemma demo_begun:
  "snapshotHeader 1 demo_committed = Some demo_header" "\<exists>w. beginSnapshot demo_pbh 1 demo_committed = Some w"
proof -
  have "\<not> Option.is_none (snapshotHeader 1 demo_committed)" by code_simp
  then show h: "snapshotHeader 1 demo_committed = Some demo_header"
    by (cases "snapshotHeader 1 demo_committed") (simp_all add: demo_header_def)
  have "1 \<le> commitIndex demo_committed" by code_simp
  then show "\<exists>w. beginSnapshot demo_pbh 1 demo_committed = Some w" using h by (simp add: beginSnapshot_def)
qed

theorem snapshot_header_roundtrip_witness:
  "\<exists>w r. beginSnapshot demo_pbh 1 demo_committed = Some w \<and>
     openSnapshot demo_pbh (fst (writer_save (writeRaw ''data'' w))) = Some (demo_header, r) \<and>
     drop (bytesRead r) (file_contents r) = ''data''"
proof -
  obtain w where w: "beginSnapshot demo_pbh 1 demo_committed = Some w" using demo_begun(2) by blast
  have "\<exists>r. openSnapshot demo_pbh (fst (writer_save (writeRaw ''data'' w))) = Some (demo_header, r) \<and>
      drop (bytesRead r) (file_contents r) = ''data''"
    by (rule snapshot_header_roundtrip [OF demo_begun(1) w, THEN conjunct2]) (simp_all add: demo_pbh_def)
  then show ?thesis using w by blast
qed

section \<open>Taking a snapshot\<close>

text \<open>When the state machine finished a snapshot that is newer than the last one, \<^verbatim>\<open>snapshotDone\<close> records the
  index and the term of the last entry it covers, discards exactly the entries up to it, and
  leaves the rest of the log, its last index and last term and the commit index as they were, so that
  elections and replication are not affected. A snapshot that is not newer changes nothing.\<close>

theorem snapshotDone_keeps_log:
  assumes "log_inv (rlog s)" "snapshotDone i w s = Some s'"
  shows "(i \<le> lastSnapshotIndex s \<longrightarrow> s' = s) \<and>
    (lastSnapshotIndex s < i \<longrightarrow> lastSnapshotIndex s' = i \<and> termAt s i (lastSnapshotTerm s') \<and>
      snapshotOnDisk s' = Some (staged w) \<and> logStart s' = i + 1 \<and>
      (\<forall>j. getEntry (rlog s') j = (if j \<le> i then None else getEntry (rlog s) j))) \<and>
    (lastLog s' = lastLog s \<and> commitIndex s' = commitIndex s \<and> getLastLogTerm s' = getLastLogTerm s)"
proof (rule conjI [OF _ conjI])
  have "(i \<le> lastSnapshotIndex s \<longrightarrow> s' = s) \<and>
    (lastSnapshotIndex s < i \<longrightarrow> lastSnapshotIndex s' = i \<and> termAt s i (lastSnapshotTerm s') \<and>
      snapshotOnDisk s' = Some (staged w) \<and> logStart s' = i + 1 \<and>
      (\<forall>j. getEntry (rlog s') j = (if j \<le> i then None else getEntry (rlog s) j))) \<and>
    lastLog s' = lastLog s \<and> commitIndex s' = commitIndex s \<and> getLastLogTerm s' = getLastLogTerm s"
    using assms(2)
  proof (cases rule: snapshotDone_cases)
    case stale
    then show ?thesis by simp
  next
    case (saved e s1 s2)
    have co: "conf_only s1 s2" using saved(6) conf_only_cm_setSnapshot by auto
    note f = conf_only_frame [OF co]
    have s2: "rlog s2 = rlog s" "lastSnapshotIndex s2 = i" "lastSnapshotTerm s2 = le_term e" "commitIndex s2 = commitIndex s"
      "snapshotOnDisk s2 = Some (staged w)" using f saved(5) by (simp_all add: writer_save_def)
    have inv: "log_inv (rlog s2)" using s2(1) assms(1) by simp
    note d = discard_log [OF inv] discard_frame [of s2]
    have b: "logStart s' = i + 1" "lastLog s' = lastLog s" "\<And>j. getEntry (rlog s') j = (if j \<le> i then None else getEntry (rlog s) j)"
      using d(1-3) s2 saved(2,3,7) by simp_all
    have "getLastLogTerm s' = getLastLogTerm s"
    proof (cases "i = lastLog s")
      case True
      then show ?thesis using b(1,2) saved(2,4,7) d(4,5) s2 by (simp add: getLastLogTerm_def)
    next
      case False
      then show ?thesis using b saved(2,3) by (simp add: getLastLogTerm_def)
    qed
    then show ?thesis using b saved(1,4,7) d(4-) s2 by (simp add: termAt_def)
  qed
  then show "i \<le> lastSnapshotIndex s \<longrightarrow> s' = s"
    "lastSnapshotIndex s < i \<longrightarrow> lastSnapshotIndex s' = i \<and> termAt s i (lastSnapshotTerm s') \<and>
      snapshotOnDisk s' = Some (staged w) \<and> logStart s' = i + 1 \<and>
      (\<forall>j. getEntry (rlog s') j = (if j \<le> i then None else getEntry (rlog s) j))"
    "lastLog s' = lastLog s \<and> commitIndex s' = commitIndex s \<and> getLastLogTerm s' = getLastLogTerm s"
    by blast+
qed

theorem snapshotDone_keeps_log_witness:
  "\<exists>s'. snapshotDone 1 mkWriter demo_committed = Some s' \<and> lastSnapshotIndex s' = 1 \<and> logStart s' = 2 \<and>
     getLastLogTerm s' = getLastLogTerm demo_committed"
proof -
  have d: "\<not> Option.is_none (snapshotDone 1 mkWriter demo_committed)" "log_inv (rlog demo_committed)"
    "lastSnapshotIndex demo_committed < 1" by code_simp+
  then obtain s' where s': "snapshotDone 1 mkWriter demo_committed = Some s'"
    by (cases "snapshotDone 1 mkWriter demo_committed") auto
  show ?thesis using snapshotDone_keeps_log [OF d(2) s'] d(3) s' by auto
qed

section \<open>Loading a snapshot\<close>

lemma snapshot_writer_frame:
  "snapshotWriter (discardUnneededEntries s) = snapshotWriter s" "snapshotWriter (dropLog s) = snapshotWriter s"
  by (simp_all add: discardUnneededEntries_def dropLog_def basic_defs frame_simps)

lemma readSnapshot_frame2:
  assumes "readSnapshot pb s = Some s'"
  shows "snapshotOnDisk s' = snapshotOnDisk s" "snapshotWriter s' = snapshotWriter s"
proof -
  have "snapshotOnDisk s' = snapshotOnDisk s \<and> snapshotWriter s' = snapshotWriter s"
    using assms
  proof (cases rule: readSnapshot_cases)
    case (loaded f h r d s1 s2 s4)
    have co: "conf_only (discardUnneededEntries s2) s4" using loaded(8) conf_only_cm_setSnapshot by auto
    show ?thesis
      using conf_only_frame [OF co] loaded(4,5,9)
      by (simp add: discard_frame dropLog_frame snapshot_writer_frame loadHeader_def notify_all_def)
  qed simp
  then show "snapshotOnDisk s' = snapshotOnDisk s" "snapshotWriter s' = snapshotWriter s" by blast+
qed

text \<open>C37: Loading a snapshot file adopts the index and the term of its header and counts what it covers as
  committed. The log keeps its entries after the snapshot if it has the snapshot's last entry with the same
  term (or discarded it before), and is emptied otherwise.\<close>

theorem readSnapshot_loads:
  assumes "log_inv (rlog s)" "logStart s \<le> lastSnapshotIndex s + 1" "snapshotOnDisk s = Some f"
    "openSnapshot pb f = Some (h, r)" "readSnapshot pb s = Some s'"
    and "agree \<longleftrightarrow> last_included_index h \<le> lastLog s \<and>
      (logStart s \<le> last_included_index h \<longrightarrow> termAt s (last_included_index h) (last_included_term h))"
  shows "(lastSnapshotIndex s' = last_included_index h \<and> lastSnapshotTerm s' = last_included_term h \<and>
      commitIndex s' = max (last_included_index h) (commitIndex s) \<and> snapshotReader s' = Some r) \<and>
    (logStart s' = last_included_index h + 1 \<and> lastLog s' = (if agree then lastLog s else last_included_index h)) \<and>
    (getEntry (rlog s') j = (if agree \<and> last_included_index h < j then getEntry (rlog s) j else None))"
proof (rule conjI [OF _ conjI])
  have "(lastSnapshotIndex s' = last_included_index h \<and> lastSnapshotTerm s' = last_included_term h \<and>
      commitIndex s' = max (last_included_index h) (commitIndex s) \<and> snapshotReader s' = Some r) \<and>
    (logStart s' = last_included_index h + 1 \<and> lastLog s' = (if agree then lastLog s else last_included_index h)) \<and>
    getEntry (rlog s') j = (if agree \<and> last_included_index h < j then getEntry (rlog s) j else None)"
    using assms(5)
  proof (cases rule: readSnapshot_cases)
    case no_file
    then show ?thesis using assms(3) by simp
  next
    case (loaded f' h' r' d s1 s2 s4)
    have eq: "f' = f" "h' = h" "r' = r" using loaded(1,2) assms(3,4) by simp_all
    let ?i = "last_included_index h"
    have s1: "rlog s1 = rlog s" "lastSnapshotIndex s1 = ?i" "lastSnapshotTerm s1 = last_included_term h"
      "commitIndex s1 = max ?i (commitIndex s)" using loaded(4) by (simp_all add: loadHeader_def eq)
    have ls: "logStart s \<le> ?i + 1" using assms(2) loaded(3) eq by simp
    have d: "d \<longleftrightarrow> \<not> agree"
      using loaded(6,7) assms(6) s1 ml.get_defined [OF assms(1), of ?i] by (auto simp: termAt_def)
    have inv: "log_inv (rlog s2)"
      using loaded(5) s1(1) assms(1) dropLog_log(2) [of s1] ls s1(2) by (auto simp: log_inv_def)
    have s2: "lastSnapshotIndex s2 = ?i" "lastSnapshotTerm s2 = last_included_term h" "commitIndex s2 = max ?i (commitIndex s)"
      using loaded(5) s1 by (auto simp: dropLog_frame)
    have b2: "lastLog s2 = (if agree then lastLog s else ?i)" "logStart s2 = (if agree then logStart s else ?i + 1)"
      "\<And>j. getEntry (rlog s2) j = (if agree then getEntry (rlog s) j else None)"
      using loaded(5) s1(1,2) dropLog_log [of s1] ls assms(1) d
      by (auto simp: getLastLogIndex_def getLogStartIndex_def getEntry_def)
    have co: "conf_only (discardUnneededEntries s2) s4" using loaded(8) conf_only_cm_setSnapshot by auto
    note c = conf_only_frame [OF co] and dl = discard_log [OF inv] and df = discard_frame [of s2]
    have s': "rlog s' = rlog (discardUnneededEntries s2)" "lastSnapshotIndex s' = ?i" "lastSnapshotTerm s' = last_included_term h"
      "commitIndex s' = max ?i (commitIndex s)" "snapshotReader s' = Some r"
      using c df s2 loaded(9) eq by (simp_all add: notify_all_def)
    have "logStart s' = ?i + 1 \<and> lastLog s' = (if agree then lastLog s else ?i)"
      using s'(1) dl(2,3) s2(1) b2(1,2) ls assms(6) by auto
    moreover have "getEntry (rlog s') j = (if agree \<and> ?i < j then getEntry (rlog s) j else None)"
      using s'(1) dl(1) [of j] s2(1) b2(3) [of j] by auto
    ultimately show ?thesis using s' by blast
  qed
  then show "lastSnapshotIndex s' = last_included_index h \<and> lastSnapshotTerm s' = last_included_term h \<and>
      commitIndex s' = max (last_included_index h) (commitIndex s) \<and> snapshotReader s' = Some r"
    "logStart s' = last_included_index h + 1 \<and> lastLog s' = (if agree then lastLog s else last_included_index h)"
    "getEntry (rlog s') j = (if agree \<and> last_included_index h < j then getEntry (rlog s) j else None)"
    by blast+
qed

section \<open>Transferring a snapshot\<close>

text \<open>A message with a chunk of the file \<open>f\<close>, and a receiver that has a prefix of it.\<close>

definition chunk_of :: "string \<Rightarrow> InstallSnapshotRequest \<Rightarrow> bool" where
  "chunk_of f req \<longleftrightarrow> is_byte_offset req + length (is_data req) \<le> length f \<and>
     is_data req = take (length (is_data req)) (drop (is_byte_offset req) f) \<and>
     (is_done req \<longleftrightarrow> is_byte_offset req + length (is_data req) = length f)"

definition receiving :: "string \<Rightarrow> Raft \<Rightarrow> bool" where
  "receiving f s \<longleftrightarrow> (case snapshotWriter s of None \<Rightarrow> True
     | Some w \<Rightarrow> bytesWritten w \<le> length f \<and> staged w = take (bytesWritten w) f)"

lemma writer_frame:
  "stepDown t s = Some s' \<Longrightarrow> snapshotWriter s' = (if currentTerm s < t then None else snapshotWriter s) \<and>
     snapshotOnDisk s' = snapshotOnDisk s"
  by (auto simp: stepDown_def basic_defs setElectionTimer_def frame_simps updateLogMetadata_def split: if_splits)

lemma hear_writer:
  assumes "hearFromLeader t l s = Some s'"
  shows "snapshotWriter s' = (if currentTerm s < t then None else snapshotWriter s)" "snapshotOnDisk s' = snapshotOnDisk s"
    "lastSnapshotIndex s' = lastSnapshotIndex s"
proof -
  obtain s1 where "stepDown t s = Some s1" "snapshotWriter s' = snapshotWriter s1" "snapshotOnDisk s' = snapshotOnDisk s1"
    using assms by (auto simp: hearFromLeader_def basic_defs setElectionTimer_def split: if_splits elim!: bind_SomeE)
  then show "snapshotWriter s' = (if currentTerm s < t then None else snapshotWriter s)" "snapshotOnDisk s' = snapshotOnDisk s"
    using writer_frame by simp_all
  show "lastSnapshotIndex s' = lastSnapshotIndex s" by (rule hears_hearFromLeader(9) [OF assms])
qed

lemma write_chunk:
  assumes "chunk_of f req" "bytesWritten w = is_byte_offset req" "staged w = take (bytesWritten w) f"
  shows "staged (writeRaw (is_data req) w) = take (bytesWritten (writeRaw (is_data req) w)) f"
    "bytesWritten (writeRaw (is_data req) w) = is_byte_offset req + length (is_data req)"
proof -
  show b: "bytesWritten (writeRaw (is_data req) w) = is_byte_offset req + length (is_data req)"
    using assms(2) by (simp add: writeRaw_def)
  have "take (is_byte_offset req) f @ take (length (is_data req)) (drop (is_byte_offset req) f) =
      take (is_byte_offset req + length (is_data req)) f" by (rule take_add [symmetric])
  then show "staged (writeRaw (is_data req) w) = take (bytesWritten (writeRaw (is_data req) w)) f"
    using assms by (simp add: b chunk_of_def) (simp add: writeRaw_def)
qed

text \<open>C38: The chunks of a snapshot reassemble the file, whatever the network does to them: with chunks of one
  file that are lost, repeated or late, what the receiver staged stays a prefix of the file, its
  reply tells how long that prefix is, a chunk that starts there is appended, and when the
  last chunk completes the file and is not superseded by a newer snapshot, the file on disk
  is exactly the one that was sent.\<close>

theorem snapshot_chunks_reassemble:
  assumes "handleInstallSnapshot pb req s = Some (resp, s')" "chunk_of f req" "receiving f s" "is_version req = Some 2"
    and "n = (case snapshotWriter s of Some w \<Rightarrow> if currentTerm s < is_term req then 0 else bytesWritten w | None \<Rightarrow> 0)"
    and "currentTerm s \<le> is_term req"
  shows "(receiving f s') \<and>
    (isr_bytes_stored resp = Some (if is_byte_offset req = n then n + length (is_data req) else n)) \<and>
    (is_byte_offset req = n \<and> is_done req \<and> lastSnapshotIndex s \<le> is_last_snapshot_index req \<longrightarrow> snapshotOnDisk s' = Some f)"
proof (rule conjI [OF _ conjI])
  obtain s1 where h: "hearFromLeader (is_term req) (is_server_id req) s = Some s1"
    using assms(1,6) by (auto simp: handleInstallSnapshot_def split: if_splits elim!: bind_SomeE)
  define w where "w = (case snapshotWriter s1 of None \<Rightarrow> mkWriter | Some w \<Rightarrow> w)"
  note hw = hear_writer [OF h]
  have w: "bytesWritten w = n" "bytesWritten w \<le> length f" "staged w = take (bytesWritten w) f"
    using hw(1) assms(3,5) by (auto simp: w_def receiving_def mkWriter_def split: option.splits if_splits)
  define w2 where "w2 = writeRaw (is_data req) w"
  have res: "if is_byte_offset req \<noteq> n then s' = s1\<lparr>snapshotWriter := Some w\<rparr> \<and> isr_bytes_stored resp = Some n
    else isr_bytes_stored resp = Some (bytesWritten w2) \<and>
      (if is_done req \<and> lastSnapshotIndex s \<le> is_last_snapshot_index req
       then \<exists>s4. readSnapshot pb (s1\<lparr>snapshotOnDisk := Some (staged w2), snapshotWriter := None\<rparr>) = Some s4 \<and> s' = notify_all s4
       else snapshotWriter s' = (if is_done req then None else Some w2))"
    using assms(1,4,6) h hw(3) w(1) unfolding handleInstallSnapshot_def w_def [symmetric]
    by (auto simp: Let_def w_def [symmetric] w2_def [symmetric] writer_save_def not_less not_le split: if_splits elim!: bind_SomeE)
  have w2: "bytesWritten w2 = n + length (is_data req)" "staged w2 = take (bytesWritten w2) f"
    if "is_byte_offset req = n" using write_chunk [OF assms(2) _ w(3)] w(1) that by (simp_all add: w2_def)
  have full: "staged w2 = f" if "is_byte_offset req = n" "is_done req"
    using w2 [OF that(1)] assms(2) that by (simp add: chunk_of_def)
  have "receiving f s' \<and> isr_bytes_stored resp = Some (if is_byte_offset req = n then n + length (is_data req) else n) \<and>
    (is_byte_offset req = n \<and> is_done req \<and> lastSnapshotIndex s \<le> is_last_snapshot_index req \<longrightarrow> snapshotOnDisk s' = Some f)"
  proof (cases "is_byte_offset req = n")
    case False
    then show ?thesis using res w by (simp add: receiving_def)
  next
    case True
    have le: "bytesWritten w2 \<le> length f" using w2(1) [OF True] assms(2) True by (simp add: chunk_of_def)
    show ?thesis
    proof (cases "is_done req \<and> lastSnapshotIndex s \<le> is_last_snapshot_index req")
      case fin: True
      then obtain s4 where "readSnapshot pb (s1\<lparr>snapshotOnDisk := Some (staged w2), snapshotWriter := None\<rparr>) = Some s4"
        "s' = notify_all s4" using res True by auto
      then have "snapshotOnDisk s' = Some f" "snapshotWriter s' = None"
        using readSnapshot_frame2 full [OF True] fin by (fastforce simp: notify_all_def)+
      then show ?thesis using res True w2(1) by (simp add: receiving_def)
    next
      case False
      then show ?thesis using res True w2 le by (auto simp: receiving_def split: if_splits)
    qed
  qed
  then show "receiving f s'" "isr_bytes_stored resp = Some (if is_byte_offset req = n then n + length (is_data req) else n)"
    "is_byte_offset req = n \<and> is_done req \<and> lastSnapshotIndex s \<le> is_last_snapshot_index req \<longrightarrow> snapshotOnDisk s' = Some f"
    by blast+
qed

text \<open>The sender's requests are such chunks, as long as the receiver does not claim more than the file has.\<close>

lemma installSnapshot_send_chunk:
  assumes "installSnapshot_send i inc p s = Some (SendInstallSnapshot c, s')"
    "f = (case snapshotFile p of Some f \<Rightarrow> f | None \<Rightarrow> the (snapshotOnDisk s))"
    "snapshotFile p \<noteq> None \<longrightarrow> snapshotFileOffset p \<le> length f"
  shows "chunk_of f (call_request c) \<and> is_version (call_request c) = Some 2"
proof -
  define q where "q = (case snapshotFile p of Some f \<Rightarrow> p | None \<Rightarrow>
    p\<lparr>snapshotFile := Some f, snapshotFileOffset := 0, p_lastSnapshotIndex := lastSnapshotIndex s\<rparr>)"
  have off: "snapshotFileOffset q \<le> length f" using assms(3) by (auto simp: q_def split: option.splits)
  define n where "n = (if suppressBulkData q then 0
    else min (u64_sub (length f) (snapshotFileOffset q)) (SOFT_RPC_SIZE_LIMIT (params s)))"
  have r: "(n = 0 \<or> snapshotFileOffset q + n \<le> length f) \<and> is_byte_offset (call_request c) = snapshotFileOffset q \<and>
      is_data (call_request c) = take n (drop (snapshotFileOffset q) f) \<and>
      (is_done (call_request c) \<longleftrightarrow> snapshotFileOffset q + n = length f) \<and> is_version (call_request c) = Some 2"
    using assms(1) unfolding installSnapshot_send_def
    by (cases "snapshotFile p") (auto simp: q_def n_def updatePeer_def assms(2) beginCall_def Clock_now_def Let_def split: if_splits elim!: bind_SomeE)
  then have "length (is_data (call_request c)) = n" using off by auto
  then show ?thesis using r off by (auto simp: chunk_of_def)
qed

lemma demo_install:
  fixes req :: InstallSnapshotRequest
  defines "req \<equiv> \<lparr>is_server_id = 1, is_term = 1, is_last_snapshot_index = 5, is_byte_offset = 0, is_data = ''ab'',
    is_done = False, is_version = Some 2\<rparr>"
  shows "chunk_of ''abc'' req" "\<exists>resp s'. handleInstallSnapshot demo_pb req (demo_server 2) = Some (resp, s')"
    "receiving ''abc'' (demo_server 2)" "snapshotWriter (demo_server 2) = None"
proof -
  show "chunk_of ''abc'' req" by (simp add: chunk_of_def req_def)
  have "\<not> Option.is_none (handleInstallSnapshot demo_pb req (demo_server 2))" unfolding req_def by code_simp
  then show "\<exists>resp s'. handleInstallSnapshot demo_pb req (demo_server 2) = Some (resp, s')"
    by (cases "handleInstallSnapshot demo_pb req (demo_server 2)") auto
  show w: "snapshotWriter (demo_server 2) = None" by code_simp
  show "receiving ''abc'' (demo_server 2)" using w by (simp add: receiving_def)
qed

theorem snapshot_chunks_reassemble_witness:
  "\<exists>req resp s'. handleInstallSnapshot demo_pb req (demo_server 2) = Some (resp, s') \<and> isr_bytes_stored resp = Some 2"
proof -
  obtain resp s' where h: "handleInstallSnapshot demo_pb \<lparr>is_server_id = 1, is_term = 1, is_last_snapshot_index = 5,
      is_byte_offset = 0, is_data = ''ab'', is_done = False, is_version = Some 2\<rparr> (demo_server 2) = Some (resp, s')"
    using demo_install(2) by blast
  have "isr_bytes_stored resp = Some 2"
    using snapshot_chunks_reassemble [OF h demo_install(1,3), of 0] demo_install(4) demo_server_fields(2) by simp
  then show ?thesis using h by blast
qed

text \<open>A snapshot on the disk of server 2 that covers its whole log.\<close>

definition demo_pbl :: ProtoBuf where
  "demo_pbl = demo_pb\<lparr>parseHeader := (\<lambda>x. Some \<lparr>last_included_index = 5, last_included_term = 3, last_cluster_time = 9,
     sh_configuration = None, sh_configuration_index = None\<rparr>)\<rparr>"

definition demo_disk :: Raft where
  "demo_disk = (demo_server 2)\<lparr>snapshotOnDisk := Some (CHR 0x01 # htobe32 0)\<rparr>"

theorem readSnapshot_loads_witness:
  "\<exists>s'. readSnapshot demo_pbl demo_disk = Some s' \<and> lastSnapshotIndex s' = 5 \<and> logStart s' = 6 \<and> lastLog s' = 5"
proof -
  have f: "snapshotOnDisk demo_disk = Some (CHR 0x01 # htobe32 0)" by (simp add: demo_disk_def)
  have "map_option (last_included_index \<circ> fst) (openSnapshot demo_pbl (CHR 0x01 # htobe32 0)) = Some 5" by code_simp
  then obtain h r where o: "openSnapshot demo_pbl (CHR 0x01 # htobe32 0) = Some (h, r)" "last_included_index h = 5" by auto
  have d: "log_inv (rlog demo_disk)" "logStart demo_disk \<le> lastSnapshotIndex demo_disk + 1" "lastLog demo_disk = 1"
    "\<not> Option.is_none (readSnapshot demo_pbl demo_disk)" by code_simp+
  then obtain s' where s': "readSnapshot demo_pbl demo_disk = Some s'" by (cases "readSnapshot demo_pbl demo_disk") auto
  show ?thesis
    using readSnapshot_loads [OF d(1,2) f o(1) s', of False] o(2) d(3) s' by simp
qed

section \<open>Entries for the state machine\<close>

text \<open>C39: What \<^verbatim>\<open>getNextEntry\<close> hands to the state machine is committed and comes after what it asked for: either
  the very next entry of the log, with its data and cluster time, or a snapshot that replaces
  entries the log no longer has and ends at a later index. It waits exactly when nothing more is
  committed and the server is not exiting.\<close>

theorem getNextEntry_committed:
  assumes "getNextEntry pb prev s = Some (res, s')" "logStart s \<le> lastSnapshotIndex s + 1" "lastSnapshotIndex s \<le> commitIndex s"
  shows "(res = Blocked \<longleftrightarrow> \<not> r_exiting s \<and> commitIndex s \<le> prev) \<and>
    (res = Done (Next e) \<longrightarrow> prev < e_index e \<and> e_index e \<le> commitIndex s' \<and>
      (if e_type e = SNAPSHOT then prev + 1 < logStart s \<and> e_index e = lastSnapshotIndex s'
       else e_index e = prev + 1 \<and> s' = s \<and> (\<exists>le. getEntry (rlog s) (prev + 1) = Some le \<and>
         e_clusterTime e = le_cluster_time le \<and> (e_type e = DATA \<longleftrightarrow> le_type le = DATA_ENTRY) \<and>
         (e_type e = DATA \<longrightarrow> e_command e = le_data le))))"
proof (rule conjI)
  have r: "lastSnapshotIndex s \<le> lastSnapshotIndex s1 \<and> lastSnapshotIndex s1 \<le> commitIndex s1 "
    if "readSnapshot pb s = Some s1" for s1
    using that
  proof (cases rule: readSnapshot_cases)
    case no_file
    then show ?thesis using assms(3) by simp
  next
    case (loaded f h rd d u s2 s4)
    have co: "conf_only (discardUnneededEntries s2) s4" using loaded(8) conf_only_cm_setSnapshot by auto
    have "lastSnapshotIndex s1 = last_included_index h" "commitIndex s1 = max (last_included_index h) (commitIndex s)"
      using conf_only_frame [OF co] loaded(4,5,9) by (auto simp: discard_frame dropLog_frame loadHeader_def notify_all_def)
    then show ?thesis using loaded(3) by simp
  qed
  show "res = Blocked \<longleftrightarrow> \<not> r_exiting s \<and> commitIndex s \<le> prev"
    using assms(1) by (auto simp: getNextEntry_def Let_def not_less split: if_splits option.splits elim!: bind_SomeE)
  show "res = Done (Next e) \<longrightarrow> prev < e_index e \<and> e_index e \<le> commitIndex s' \<and>
      (if e_type e = SNAPSHOT then prev + 1 < logStart s \<and> e_index e = lastSnapshotIndex s'
       else e_index e = prev + 1 \<and> s' = s \<and> (\<exists>le. getEntry (rlog s) (prev + 1) = Some le \<and>
         e_clusterTime e = le_cluster_time le \<and> (e_type e = DATA \<longleftrightarrow> le_type le = DATA_ENTRY) \<and>
         (e_type e = DATA \<longrightarrow> e_command e = le_data le)))"
  proof
    assume e: "res = Done (Next e)"
    show "prev < e_index e \<and> e_index e \<le> commitIndex s' \<and>
      (if e_type e = SNAPSHOT then prev + 1 < logStart s \<and> e_index e = lastSnapshotIndex s'
       else e_index e = prev + 1 \<and> s' = s \<and> (\<exists>le. getEntry (rlog s) (prev + 1) = Some le \<and>
         e_clusterTime e = le_cluster_time le \<and> (e_type e = DATA \<longleftrightarrow> le_type le = DATA_ENTRY) \<and>
         (e_type e = DATA \<longrightarrow> e_command e = le_data le)))"
    proof (cases "prev + 1 < logStart s")
      case True
      then obtain s1 where a: "(case snapshotReader s of Some _ \<Rightarrow> Some s | None \<Rightarrow> readSnapshot pb s) = Some s1"
        and s1: "s' = s1\<lparr>snapshotReader := None\<rparr>" "e_index e = lastSnapshotIndex s1" "e_type e = SNAPSHOT"
        using assms(1) e unfolding getNextEntry_def Let_def
        by (simp del: bind_eq_Some_conv split: if_splits) (erule bind_SomeE, auto)
      have "s1 = s \<or> readSnapshot pb s = Some s1" using a by (auto split: option.splits)
      then have "lastSnapshotIndex s \<le> lastSnapshotIndex s1 \<and> lastSnapshotIndex s1 \<le> commitIndex s1" using r assms(3) by auto
      then show ?thesis using True s1 assms(2) by simp
    next
      case False
      then show ?thesis using assms(1) e by (auto simp: getNextEntry_def Let_def split: if_splits elim!: bind_SomeE)
    qed
  qed
qed

theorem getNextEntry_committed_witness:
  "\<exists>e s'. getNextEntry demo_pb 0 demo_committed = Some (Done (Next e), s') \<and> e_index e = 1 \<and> e_type e = SKIP"
proof -
  have "(case getNextEntry demo_pb 0 demo_committed of Some (Done (Next e), s') \<Rightarrow> e_type e = SKIP | _ \<Rightarrow> False)"
    "logStart demo_committed \<le> lastSnapshotIndex demo_committed + 1" "lastSnapshotIndex demo_committed \<le> commitIndex demo_committed"
    by code_simp+
  then obtain e s' where e: "getNextEntry demo_pb 0 demo_committed = Some (Done (Next e), s')" "e_type e = SKIP"
    and ok: "logStart demo_committed \<le> lastSnapshotIndex demo_committed + 1" "lastSnapshotIndex demo_committed \<le> commitIndex demo_committed"
    by (auto split: option.splits waitResult.splits nextEntry.splits) (metis nextEntry.exhaust)
  then show ?thesis using getNextEntry_committed [OF e(1) ok, of e] by auto
qed

end
