(* ===== verification/LC_Checksum.thy ===== *)
theory LC_Checksum
  imports LC_Prelude
begin

text \<open>
  Checksums of records on disk (\<^verbatim>\<open>src/Core/Checksum.cc\<close>) and the byte order of lengths. A checksum is the
  name of an algorithm, a colon, the digest in hexadecimal digits and a null character. The table of
  algorithms is an argument: it lists the hash functions of the Crypto++ library by name.
\<close>

section \<open>Definitions\<close>

type_synonym algorithms = "(string \<times> (string \<Rightarrow> string)) list"

definition MAX_LENGTH :: nat where
  "MAX_LENGTH = 256"

definition hexArray :: string where
  "hexArray = ''0123456789abcdef''"

definition hexByte :: "char \<Rightarrow> string" where
  "hexByte c = [hexArray ! (of_char c div 16), hexArray ! (of_char c mod 16)]"

text \<open>The \<^verbatim>\<open>assert\<close> on the size of the output is the \<open>None\<close> case.\<close>

definition writeChecksum :: "string \<times> (string \<Rightarrow> string) \<Rightarrow> string \<Rightarrow> string option" where
  "writeChecksum = (\<lambda>(name, hashFn) data. do {
     let digest = hashFn data;
     require (length name + 1 + length digest * 2 + 1 \<le> MAX_LENGTH);
     Some (name @ '':'' @ concat (map hexByte digest) @ [CHR 0x00])
   })"

definition checksum_find :: "algorithms \<Rightarrow> string \<Rightarrow> (string \<times> (string \<Rightarrow> string)) option" where
  "checksum_find algs name = map_option (Pair name) (map_of algs name)"

definition checksum_calculate :: "algorithms \<Rightarrow> string \<Rightarrow> string \<Rightarrow> string option" where
  "checksum_calculate algs algorithm data = do {
     algo \<leftarrow> checksum_find algs algorithm;
     writeChecksum algo data
   }"

text \<open>The loop of \<^verbatim>\<open>length\<close>; the list is what is left of the bytes that may be looked at.\<close>

fun checksum_length_from :: "nat \<Rightarrow> string \<Rightarrow> nat" where
  "checksum_length_from len [] = 0"
| "checksum_length_from len (c # cs) =
     (if len = MAX_LENGTH then 0
      else if c = CHR 0x00 then len + 1
      else checksum_length_from (len + 1) cs)"

definition checksum_length :: "string \<Rightarrow> nat" where
  "checksum_length = checksum_length_from 0"

definition display :: "char \<Rightarrow> bool" where
  "display c \<longleftrightarrow> 32 \<le> (of_char c :: nat) \<and> (of_char c :: nat) < 127"

text \<open>\<^verbatim>\<open>isPrintable\<close> of a null-terminated string, given without its terminator.\<close>

definition isPrintable :: "string \<Rightarrow> bool" where
  "isPrintable s = list_all display s"

datatype ChecksumError = NotPrintable | MissingColon | NoSuchAlgorithm | ChecksumMismatch

text \<open>\<open>Some None\<close> is the empty error string. The checksum is given without its null character.\<close>

definition checksum_verify :: "algorithms \<Rightarrow> string \<Rightarrow> string \<Rightarrow> ChecksumError option option" where
  "checksum_verify algs checksum data =
     (if \<not> isPrintable checksum then Some (Some NotPrintable)
      else if CHR '':'' \<notin> set checksum then Some (Some MissingColon)
      else case checksum_find algs (takeWhile (\<lambda>c. c \<noteq> CHR '':'') checksum) of
          None \<Rightarrow> Some (Some NoSuchAlgorithm)
        | Some algo \<Rightarrow> do {
            calculated \<leftarrow> writeChecksum algo data;
            Some (if butlast calculated \<noteq> checksum then Some ChecksumMismatch else None)
          })"

text \<open>Lengths are stored as eight bytes, most significant first.\<close>

definition htobe64 :: "nat \<Rightarrow> string" where
  "htobe64 n = map (\<lambda>i. char_of (n div 256 ^ (7 - i))) [0..<8]"

definition be64toh :: "string \<Rightarrow> nat" where
  "be64toh s = foldl (\<lambda>n c. 256 * n + of_char c) 0 s"

section \<open>Byte order\<close>

lemma length_htobe64 [simp]: "length (htobe64 n) = 8"
  by (simp add: htobe64_def)

text \<open>The first \<open>k\<close> bytes of a number hold what is left after dropping the other \<open>8 - k\<close> bytes.\<close>

lemma be64_prefix:
  assumes "n < 2 ^ 64"
  shows "k \<le> 8 \<Longrightarrow> be64toh (take k (htobe64 n)) = n div 256 ^ (8 - k)"
proof (induction k)
  case 0
  have "(256::nat) ^ 8 = 2 ^ 64" by simp
  then show ?case using assms by (simp add: be64toh_def)
next
  case (Suc k)
  have "take (Suc k) (htobe64 n) = take k (htobe64 n) @ [char_of (n div 256 ^ (7 - k))]"
    using Suc.prems by (simp add: take_Suc_conv_app_nth htobe64_def del: upt_Suc)
  then have "be64toh (take (Suc k) (htobe64 n)) =
      256 * (n div 256 ^ (8 - k)) + (n div 256 ^ (7 - k)) mod 256"
    using Suc by (simp add: be64toh_def)
  moreover have "8 - k = Suc (7 - k)" using Suc.prems by simp
  then have "n div 256 ^ (8 - k) = n div 256 ^ (7 - k) div 256"
    by (simp only: power_Suc2 div_mult2_eq)
  moreover have "8 - Suc k = 7 - k" by simp
  ultimately show ?case by simp
qed

lemma be64_htobe64: "n < 2 ^ 64 \<Longrightarrow> be64toh (htobe64 n) = n"
  using be64_prefix [of n 8] by simp

lemma of_char_less: "(of_char c :: nat) < 256"
  using mod_less_divisor [of 256 "of_char c"] by simp

lemma be64toh_less: "be64toh s < 256 ^ length s"
proof (induction s rule: rev_induct)
  case (snoc c s)
  have "Suc (be64toh s) \<le> 256 ^ length s" using snoc by simp
  then have "256 * Suc (be64toh s) \<le> 256 * 256 ^ length s" by (rule mult_le_mono2)
  moreover have "256 * be64toh s + of_char c < 256 * Suc (be64toh s)"
    using of_char_less [of c] by (simp only: mult_Suc_right add.commute nat_add_left_cancel_less)
  ultimately have "256 * be64toh s + of_char c < 256 * 256 ^ length s" by (rule less_le_trans [rotated])
  then show ?case by (simp add: be64toh_def)
qed (simp add: be64toh_def)

section \<open>A checksum is found and verified\<close>

text \<open>A usable algorithm: it has a printable name without a colon, and digests that leave room for it.\<close>

definition algorithm_ok :: "algorithms \<Rightarrow> string \<Rightarrow> string \<Rightarrow> bool" where
  "algorithm_ok algs name data \<longleftrightarrow>
     (case map_of algs name of None \<Rightarrow> False | Some h \<Rightarrow>
        length name + 1 + length (h data) * 2 + 1 \<le> MAX_LENGTH \<and> isPrintable name \<and> CHR '':'' \<notin> set name)"

lemma display_hex: "i < 16 \<Longrightarrow> display (hexArray ! i)"
proof -
  assume "i < 16"
  moreover have "length hexArray = 16" by (simp add: hexArray_def)
  ultimately have "hexArray ! i \<in> set hexArray" by simp
  moreover have "\<forall>c \<in> set hexArray. display c" by (simp add: hexArray_def display_def)
  ultimately show ?thesis by blast
qed

lemma isPrintable_hex: "isPrintable (concat (map hexByte d))"
proof -
  have "display x" if "x \<in> set (hexByte c)" for x c
  proof -
    have "(of_char c :: nat) div 16 < 16" "(of_char c :: nat) mod 16 < 16"
      using of_char_less [of c] by (simp_all add: less_mult_imp_div_less)
    then show ?thesis using that display_hex by (auto simp: hexByte_def)
  qed
  then show ?thesis by (auto simp: isPrintable_def list_all_iff)
qed

lemma isPrintable_append [simp]: "isPrintable (a @ b) \<longleftrightarrow> isPrintable a \<and> isPrintable b"
  by (simp add: isPrintable_def)

lemma isPrintable_no_null: "isPrintable s \<Longrightarrow> CHR 0x00 \<notin> set s"
  by (auto simp: isPrintable_def list_all_iff display_def)

lemma length_concat_hex [simp]: "length (concat (map hexByte d)) = 2 * length d"
  by (induction d) (simp_all add: hexByte_def)

text \<open>What a usable algorithm writes: a printable string with a null character at its end.\<close>

lemma calculate_form:
  assumes "algorithm_ok algs name data"
  obtains cs where "checksum_calculate algs name data = Some (cs @ [CHR 0x00])" "isPrintable cs"
    "length cs < MAX_LENGTH" "checksum_verify algs cs data = Some None"
proof -
  obtain h where h: "map_of algs name = Some h"
    and len: "length name + 1 + length (h data) * 2 + 1 \<le> MAX_LENGTH"
    and name: "isPrintable name" "CHR '':'' \<notin> set name"
    using assms by (auto simp: algorithm_ok_def split: option.splits)
  let ?cs = "name @ '':'' @ concat (map hexByte (h data))"
  have w: "writeChecksum (name, h) data = Some (?cs @ [CHR 0x00])"
    using len by (simp add: writeChecksum_def)
  then have calc: "checksum_calculate algs name data = Some (?cs @ [CHR 0x00])"
    using h by (simp add: checksum_calculate_def checksum_find_def)
  have pr: "isPrintable ?cs" using name isPrintable_hex by (simp add: isPrintable_def display_def)
  have "takeWhile (\<lambda>c. c \<noteq> CHR '':'') ?cs = name"
  proof (subst takeWhile_append2)
    show "x \<noteq> CHR '':''" if "x \<in> set name" for x using that name(2) by blast
  qed simp
  then have v: "checksum_verify algs ?cs data = Some None"
    using pr h w by (simp add: checksum_verify_def checksum_find_def butlast_append)
  have "length ?cs < MAX_LENGTH" using len by simp
  then show thesis using that [OF calc pr _ v] by simp
qed

lemma checksum_length_from_at:
  "CHR 0x00 \<notin> set cs \<Longrightarrow> n + length cs < MAX_LENGTH \<Longrightarrow>
   checksum_length_from n (cs @ CHR 0x00 # rest) = n + length cs + 1"
  by (induction cs arbitrary: n) auto

lemma checksum_length_at:
  "isPrintable cs \<Longrightarrow> length cs < MAX_LENGTH \<Longrightarrow>
   checksum_length (cs @ CHR 0x00 # rest) = length cs + 1"
  using checksum_length_from_at [of cs 0 rest] isPrintable_no_null
  by (simp add: checksum_length_def)

text \<open>When a length is found, the bytes before it end with the first null character.\<close>

lemma checksum_length_from_bounds:
  "checksum_length_from n s = 0 \<or> n < checksum_length_from n s \<and> checksum_length_from n s \<le> n + length s"
proof (induction n s rule: checksum_length_from.induct)
  case (2 len c cs)
  then show ?case by auto
qed simp

lemma checksum_length_bounds: "checksum_length s \<le> length s"
  using checksum_length_from_bounds [of 0 s] by (auto simp: checksum_length_def)

end
