(* ===== verification/LC_SegmentFormat.thy ===== *)
theory LC_SegmentFormat
  imports LC_Checksum
begin

text \<open>
  What the segmented log puts on disk (\<^verbatim>\<open>src/Storage/SegmentedLog.cc\<close>): the names of segment files and how
  \<^verbatim>\<open>sscanf\<close> reads them, and records, which are a checksum, a length and a message. The
  encodings of messages are those of the protocol buffer library and come as an argument (\<open>Codec\<close>).
\<close>

section \<open>Names of segment files\<close>

text \<open>\<^verbatim>\<open>%lu\<close> and \<^verbatim>\<open>%020lu\<close>\<close>

fun decimal :: "nat \<Rightarrow> string" where
  "decimal n = (if n < 10 then [char_of (48 + n)] else decimal (n div 10) @ [char_of (48 + n mod 10)])"

declare decimal.simps [simp del]

definition padZeros :: "nat \<Rightarrow> string \<Rightarrow> string" where
  "padZeros w s = replicate (w - length s) (CHR ''0'') @ s"

definition closedFilename :: "nat \<Rightarrow> nat \<Rightarrow> string" where
  "closedFilename start end = padZeros 20 (decimal start) @ ''-'' @ padZeros 20 (decimal end)"

definition openFilename :: "nat \<Rightarrow> string" where
  "openFilename fileId = ''open-'' @ decimal fileId"

definition isspace :: "char \<Rightarrow> bool" where
  "isspace c \<longleftrightarrow> c = CHR '' '' \<or> 9 \<le> (of_char c :: nat) \<and> (of_char c :: nat) \<le> 13"

definition isdigit :: "char \<Rightarrow> bool" where
  "isdigit c \<longleftrightarrow> 48 \<le> (of_char c :: nat) \<and> (of_char c :: nat) \<le> 57"

definition digits_value :: "string \<Rightarrow> nat" where
  "digits_value s = foldl (\<lambda>n c. 10 * n + (of_char c - 48)) 0 s"

text \<open>
  The conversion \<^verbatim>\<open>%lu\<close> of \<^verbatim>\<open>sscanf\<close> with a field width: white space is skipped, a sign is
  accepted, and the digits are converted as by \<^verbatim>\<open>strtoul\<close>, which saturates at \<^verbatim>\<open>ULONG_MAX\<close> and
  negates modulo \<open>2 ^ 64\<close>.
\<close>

definition scan_lu :: "nat \<Rightarrow> string \<Rightarrow> (nat \<times> string) option" where
  "scan_lu width s0 =
     (let s = dropWhile isspace s0;
          signed = (s \<noteq> [] \<and> hd s \<in> {CHR ''+'', CHR ''-''} \<and> 0 < width);
          negative = (signed \<and> hd s = CHR ''-'');
          body = (if signed then tl s else s);
          w = (if signed then width - 1 else width);
          ds = takeWhile isdigit (take w body);
          v = digits_value ds
      in if ds = [] then None
         else Some (if 2 ^ 64 \<le> v then u64_max else if negative then u64_sub 0 v else v,
                    drop (length ds) body))"

definition scan_literal :: "string \<Rightarrow> string \<Rightarrow> string option" where
  "scan_literal lit s = (if prefix lit s then Some (drop (length lit) s) else None)"

text \<open>A name matches a format when both numbers are converted and nothing is left over.\<close>

definition scanClosedFilename :: "string \<Rightarrow> (nat \<times> nat) option" where
  "scanClosedFilename name = do {
     (startIndex, r) \<leftarrow> scan_lu 20 name;
     r \<leftarrow> scan_literal ''-'' r;
     (endIndex, r) \<leftarrow> scan_lu 20 r;
     if r = [] then Some (startIndex, endIndex) else None
   }"

definition scanOpenFilename :: "string \<Rightarrow> nat option" where
  "scanOpenFilename name = do {
     r \<leftarrow> scan_literal ''open-'' name;
     (counter, r) \<leftarrow> scan_lu (length r) r;
     if r = [] then Some counter else None
   }"

section \<open>Records\<close>

datatype Encoding = TEXT | BINARY

record 'm Codec =
  cd_serialize :: "'m \<Rightarrow> string"
  cd_parse :: "string \<Rightarrow> 'm option"
  cd_dumpString :: "'m \<Rightarrow> string"
  cd_fromString :: "string \<Rightarrow> 'm"

definition encode :: "Encoding \<Rightarrow> 'm Codec \<Rightarrow> 'm \<Rightarrow> string" where
  "encode encoding codec m =
     (case encoding of BINARY \<Rightarrow> cd_serialize codec m | TEXT \<Rightarrow> cd_dumpString codec m)"

definition serializeProto :: "algorithms \<Rightarrow> string \<Rightarrow> Encoding \<Rightarrow> 'm Codec \<Rightarrow> 'm \<Rightarrow> string option" where
  "serializeProto algs checksumAlgorithm encoding codec m = do {
     let data = encode encoding codec m;
     let netLen = htobe64 (length data);
     checksum \<leftarrow> checksum_calculate algs checksumAlgorithm (netLen @ data);
     Some (checksum @ netLen @ data)
   }"

text \<open>
  \<^verbatim>\<open>FileContents::get\<close>: the check against the length of the file is done modulo \<open>2 ^ 64\<close>; a range that
  passes it but leaves the mapped file is a memory fault. Both are \<open>None\<close>.
\<close>

definition reader_get :: "string \<Rightarrow> nat \<Rightarrow> nat \<Rightarrow> string option" where
  "reader_get file offset len = do {
     require (\<not> (len \<noteq> 0 \<and> u64 (offset + len) > length file));
     require (len = 0 \<or> offset + len \<le> length file);
     Some (take len (drop offset file))
   }"

datatype ReadError = MissingChecksum | LengthTruncated | ProtoTruncated
  | ChecksumFailure ChecksumError | ParseFailure

text \<open>The left summand is a non-empty error string; otherwise the message and the offset behind it.\<close>

definition decode :: "Encoding \<Rightarrow> 'm Codec \<Rightarrow> string \<Rightarrow> nat \<Rightarrow> (ReadError + 'm \<times> nat) option" where
  "decode encoding codec data next =
     (case encoding of
        BINARY \<Rightarrow> do {
          require (length data < 2 ^ 31);
          Some (case cd_parse codec data of None \<Rightarrow> Inl ParseFailure | Some m \<Rightarrow> Inr (m, next))
        }
      | TEXT \<Rightarrow> Some (Inr (cd_fromString codec data, next)))"

definition readProtoFromFile ::
  "algorithms \<Rightarrow> Encoding \<Rightarrow> 'm Codec \<Rightarrow> string \<Rightarrow> nat \<Rightarrow> (ReadError + 'm \<times> nat) option" where
  "readProtoFromFile algs encoding codec file offset =
     (let checksum = take MAX_LENGTH (drop offset file);
          checksumBytes = checksum_length checksum
      in if checksumBytes = 0 then Some (Inl MissingChecksum)
      else let loffset = offset + checksumBytes;
               lenBytes = take 8 (drop loffset file)
      in if length lenBytes < 8 then Some (Inl LengthTruncated)
      else let dataLen = be64toh lenBytes
      in if length file < u64 (loffset + 8 + dataLen) then Some (Inl ProtoTruncated)
      else do {
        coverage \<leftarrow> reader_get file loffset (u64 (8 + dataLen));
        error \<leftarrow> checksum_verify algs (take (checksumBytes - 1) checksum) coverage;
        case error of
          Some e \<Rightarrow> Some (Inl (ChecksumFailure e))
        | None \<Rightarrow> do {
            data \<leftarrow> reader_get file (loffset + 8) dataLen;
            decode encoding codec data (loffset + 8 + dataLen)
          }
      })"

section \<open>Printed numbers are scanned\<close>

lemma decimal_digits: "list_all isdigit (decimal n)"
proof (induction n rule: decimal.induct)
  case (1 n)
  have d: "isdigit (char_of (48 + k))" if "k < 10" for k :: nat
    using that by (simp add: isdigit_def)
  show ?case
    using 1 d [of n] d [of "n mod 10"] by (subst decimal.simps) simp
qed

lemma decimal_nonempty [simp]: "decimal n \<noteq> []"
  by (subst decimal.simps) simp

lemma digits_value_append: "digits_value (a @ [c]) = 10 * digits_value a + (of_char c - 48)"
  by (simp add: digits_value_def)

lemma digits_value_decimal: "digits_value (decimal n) = n"
proof (induction n rule: decimal.induct)
  case (1 n)
  show ?case
  proof (cases "n < 10")
    case True
    then show ?thesis by (subst decimal.simps) (simp add: digits_value_def)
  next
    case False
    then have "decimal n = decimal (n div 10) @ [char_of (48 + n mod 10)]" by (subst decimal.simps) simp
    then show ?thesis using 1 False by (simp add: digits_value_append)
  qed
qed

lemma digits_value_zeros: "digits_value (replicate k (CHR ''0'') @ s) = digits_value s"
proof (induction k)
  case (Suc k)
  then show ?case by (simp add: digits_value_def)
qed simp

lemma length_decimal: "n < 10 ^ k \<Longrightarrow> 0 < k \<Longrightarrow> length (decimal n) \<le> k"
proof (induction n arbitrary: k rule: decimal.induct)
  case (1 n)
  show ?case
  proof (cases "n < 10")
    case True
    then show ?thesis using 1(3) by (subst decimal.simps) simp
  next
    case False
    then obtain j where j: "k = Suc j" "0 < j"
      using 1(2,3) by (cases k; cases "k = 1") auto
    then have "n div 10 < 10 ^ j" using 1(2) by (simp add: less_mult_imp_div_less mult.commute)
    then have "length (decimal (n div 10)) \<le> j" using 1(1) False j by blast
    then show ?thesis using False j by (subst decimal.simps) simp
  qed
qed

lemma isdigit_not_space: "isdigit c \<Longrightarrow> \<not> isspace c"
  by (auto simp: isdigit_def isspace_def)

lemma scan_lu_digits:
  assumes ds: "list_all isdigit ds" "ds \<noteq> []" "length ds \<le> w" and v: "digits_value ds < 2 ^ 64"
    and rest: "r = [] \<or> \<not> isdigit (hd r)"
  shows "scan_lu w (ds @ r) = Some (digits_value ds, r)"
proof -
  obtain c cs where c: "ds = c # cs" using ds(2) by (cases ds) auto
  have "isdigit c" using ds(1) c by simp
  then have "c \<noteq> CHR ''+''" "c \<noteq> CHR ''-''" "\<not> isspace c"
    by (auto simp: isdigit_not_space) (auto simp: isdigit_def)
  moreover have "takeWhile isdigit (ds @ take (w - length ds) r) = ds"
    using ds(1) rest by (subst takeWhile_append2) (auto simp: list_all_iff takeWhile_eq_Nil_iff take_Cons' hd_take)
  then have "takeWhile isdigit (take w (ds @ r)) = ds" using ds(3) by simp
  ultimately show ?thesis using v c by (simp add: scan_lu_def Let_def)
qed

lemma padZeros_digits: "list_all isdigit (padZeros w (decimal n))"
proof -
  have "isdigit (CHR ''0'')" by (simp add: isdigit_def)
  then have "list_all isdigit (replicate k (CHR ''0''))" for k by (simp add: list_all_iff)
  then show ?thesis using decimal_digits by (simp add: padZeros_def)
qed

lemma padZeros_nonempty [simp]: "padZeros w (decimal n) \<noteq> []"
  by (simp add: padZeros_def)

lemma digits_value_padZeros [simp]: "digits_value (padZeros w (decimal n)) = n"
  by (simp add: padZeros_def digits_value_zeros digits_value_decimal)

lemma length_padZeros: "n < 2 ^ 64 \<Longrightarrow> length (padZeros 20 (decimal n)) = 20"
  using length_decimal [of n 20] by (simp add: padZeros_def)

lemma scan_closedFilename:
  assumes "s < 2 ^ 64" "e < 2 ^ 64"
  shows "scanClosedFilename (closedFilename s e) = Some (s, e)"
proof -
  have "scan_lu 20 (closedFilename s e) = Some (s, ''-'' @ padZeros 20 (decimal e))"
    unfolding closedFilename_def
    by (subst scan_lu_digits) (use assms padZeros_digits in \<open>simp_all add: length_padZeros, simp add: isdigit_def\<close>)
  moreover have "scan_lu 20 (padZeros 20 (decimal e)) = Some (e, [])"
    using scan_lu_digits [of "padZeros 20 (decimal e)" 20 "[]"] assms padZeros_digits
    by (simp add: length_padZeros)
  ultimately show ?thesis by (simp add: scanClosedFilename_def scan_literal_def)
qed

lemma scan_openFilename: "n < 2 ^ 64 \<Longrightarrow> scanOpenFilename (openFilename n) = Some n"
  using scan_lu_digits [of "decimal n" "length (decimal n)" "[]"] decimal_digits digits_value_decimal
  by (simp add: scanOpenFilename_def scan_literal_def openFilename_def)

text \<open>Neither kind of name is mistaken for the other.\<close>

lemma scanClosed_open: "scanClosedFilename (openFilename n) = None"
  by (simp add: scanClosedFilename_def openFilename_def scan_lu_def isspace_def isdigit_def)

lemma closedFilename_inj:
  assumes "closedFilename s e = closedFilename s' e'"
  shows "s = s' \<and> e = e'"
proof -
  have start: "takeWhile isdigit (closedFilename a b) = padZeros 20 (decimal a)" for a b
    unfolding closedFilename_def
    using padZeros_digits [of 20 a] by (subst takeWhile_append2) (auto simp: list_all_iff isdigit_def)
  have s: "padZeros 20 (decimal s) = padZeros 20 (decimal s')"
    using assms start [of s e] start [of s' e'] by simp
  then have "padZeros 20 (decimal e) = padZeros 20 (decimal e')" using assms by (simp add: closedFilename_def)
  then show ?thesis using s digits_value_padZeros by metis
qed

lemma closed_not_open: "closedFilename s e \<noteq> ''open-'' @ x"
proof
  assume eq: "closedFilename s e = ''open-'' @ x"
  have "isdigit (hd (closedFilename s e))"
    using padZeros_digits [of 20 s] padZeros_nonempty [of 20 s]
    by (cases "padZeros 20 (decimal s)") (simp_all add: closedFilename_def)
  then show False by (simp add: eq isdigit_def)
qed

lemma openFilename_inj: "openFilename n = openFilename m \<longleftrightarrow> n = m"
  by (metis append_same_eq digits_value_decimal openFilename_def same_append_eq)

section \<open>Records are read back\<close>

text \<open>A message that the encoding can represent and the checksum algorithm can cover.\<close>

definition record_ok :: "algorithms \<Rightarrow> string \<Rightarrow> Encoding \<Rightarrow> 'm Codec \<Rightarrow> 'm \<Rightarrow> bool" where
  "record_ok algs alg encoding codec m \<longleftrightarrow>
     (let data = encode encoding codec m in
      algorithm_ok algs alg (htobe64 (length data) @ data) \<and> length data < 2 ^ 31 \<and>
      (case encoding of BINARY \<Rightarrow> cd_parse codec data = Some m | TEXT \<Rightarrow> cd_fromString codec data = m))"

lemma decode_encode:
  "record_ok algs alg encoding codec m \<Longrightarrow>
   decode encoding codec (encode encoding codec m) n = Some (Inr (m, n))"
  by (cases encoding) (simp_all add: record_ok_def decode_def Let_def)

lemma serializeProto_form:
  assumes "record_ok algs alg encoding codec m"
  obtains cs where "serializeProto algs alg encoding codec m =
      Some (cs @ CHR 0x00 # htobe64 (length (encode encoding codec m)) @ encode encoding codec m)"
    "isPrintable cs" "length cs < MAX_LENGTH"
    "checksum_verify algs cs (htobe64 (length (encode encoding codec m)) @ encode encoding codec m) = Some None"
proof -
  let ?e = "encode encoding codec m"
  have a: "algorithm_ok algs alg (htobe64 (length ?e) @ ?e)" using assms by (simp add: record_ok_def Let_def)
  obtain cs where "checksum_calculate algs alg (htobe64 (length ?e) @ ?e) = Some (cs @ [CHR 0x00])"
    "isPrintable cs" "length cs < MAX_LENGTH" "checksum_verify algs cs (htobe64 (length ?e) @ ?e) = Some None"
    using calculate_form [OF a] .
  then show thesis using that [of cs] by (simp add: serializeProto_def Let_def)
qed

lemma serializeProto_Some:
  assumes "record_ok algs alg encoding codec m"
  obtains rec where "serializeProto algs alg encoding codec m = Some rec" "9 \<le> length rec"
proof -
  obtain cs where "serializeProto algs alg encoding codec m =
      Some (cs @ CHR 0x00 # htobe64 (length (encode encoding codec m)) @ encode encoding codec m)"
    using serializeProto_form [OF assms] .
  then show thesis using that by simp
qed

lemma readProto_at:
  assumes ok: "record_ok algs alg encoding codec m"
    and ser: "serializeProto algs alg encoding codec m = Some rec"
    and len: "length (pre @ rec @ rest) < 2 ^ 64"
  shows "readProtoFromFile algs encoding codec (pre @ rec @ rest) (length pre) =
    Some (Inr (m, length pre + length rec))"
proof -
  define e where "e = encode encoding codec m"
  define h where "h = htobe64 (length e)"
  define f where "f = pre @ rec @ rest"
  obtain cs where rec: "rec = cs @ CHR 0x00 # h @ e"
    and cs: "isPrintable cs" "length cs < MAX_LENGTH" "checksum_verify algs cs (h @ e) = Some None"
    using serializeProto_form [OF ok] ser unfolding e_def h_def by (metis option.inject)
  have f: "f = pre @ cs @ CHR 0x00 # h @ e @ rest" by (simp add: f_def rec)
  have lh: "length h = 8" by (simp add: h_def)
  have lf: "length pre + (length cs + 1) + 8 + length e \<le> length f" "length f < 2 ^ 64"
    using len by (simp_all add: f lh rec)
  have be: "be64toh h = length e"
    unfolding h_def by (rule be64_htobe64) (use lf in linarith)
  have "take MAX_LENGTH (drop (length pre) f) = cs @ CHR 0x00 # take (MAX_LENGTH - length cs - 1) (h @ e @ rest)"
    using cs(2) by (simp add: f take_Cons')
  then have cl: "checksum_length (take MAX_LENGTH (drop (length pre) f)) = length cs + 1"
    and ct: "take (length cs + 1 - 1) (take MAX_LENGTH (drop (length pre) f)) = cs"
    using checksum_length_at [OF cs(1,2)] by (simp_all del: take_take)
  have lb: "take 8 (drop (length pre + (length cs + 1)) f) = h" by (simp add: f lh)
  have u: "u64 (length pre + (length cs + 1) + 8 + length e) = length pre + (length cs + 1) + 8 + length e"
      "u64 (8 + length e) = 8 + length e"
      "u64 (length pre + (length cs + 1) + (8 + length e)) = length pre + (length cs + 1) + (8 + length e)"
    using lf by (simp_all add: u64_def)
  have g1: "reader_get f (length pre + (length cs + 1)) (8 + length e) = Some (h @ e)"
    using lf u by (simp add: reader_get_def) (simp add: f lh)
  have g2: "reader_get f (length pre + (length cs + 1) + 8) (length e) = Some e"
    using lf u by (simp add: reader_get_def) (simp add: f lh)
  have d: "decode encoding codec e n = Some (Inr (m, n))" for n
    unfolding e_def using ok by (rule decode_encode)
  have "readProtoFromFile algs encoding codec f (length pre) =
      Some (Inr (m, length pre + (length cs + 1) + 8 + length e))"
    using cs(3) lf(1) u g1 g2 d by (simp only: readProtoFromFile_def Let_def cl ct lb lh be) simp
  then show ?thesis by (simp add: f_def rec lh)
qed

text \<open>A record that is read lies within the file and takes at least nine bytes.\<close>

lemma decode_next: "decode encoding codec data n = Some (Inr (m, n')) \<Longrightarrow> n' = n"
  by (auto simp: decode_def split: Encoding.splits option.splits if_splits)

lemma reader_get_bounds: "reader_get f off len = Some d \<Longrightarrow> len = 0 \<or> off + len \<le> length f"
  by (simp add: reader_get_def split: if_splits)

lemma readProto_bounds:
  assumes "readProtoFromFile algs encoding codec f off = Some (Inr (m, n))"
  shows "off + 9 \<le> n \<and> n \<le> length f"
proof -
  let ?c = "checksum_length (take MAX_LENGTH (drop off f))"
  let ?l = "take 8 (drop (off + ?c) f)"
  have c: "?c \<noteq> 0" and l: "\<not> length ?l < 8"
    using assms by (auto simp: readProtoFromFile_def Let_def split: if_splits)
  obtain d where d: "reader_get f (off + ?c + 8) (be64toh ?l) = Some d"
      and n: "decode encoding codec d (off + ?c + 8 + be64toh ?l) = Some (Inr (m, n))"
    using assms c l
    by (auto simp: readProtoFromFile_def Let_def elim!: bind_SomeE split: if_splits option.splits)
  have "n = off + ?c + 8 + be64toh ?l" using decode_next [OF n] .
  moreover have "off + ?c + 8 \<le> length f" using l by simp
  ultimately show ?thesis using reader_get_bounds [OF d] c by auto
qed

text \<open>Behind the end of the file, and where there are only null bytes, no record is found.\<close>

lemma readProto_end: "length f \<le> off \<Longrightarrow> readProtoFromFile algs encoding codec f off = Some (Inl MissingChecksum)"
  by (simp add: readProtoFromFile_def checksum_length_def Let_def)

lemma be64toh_zeros: "be64toh (replicate k (CHR 0x00)) = 0"
proof (induction k)
  case (Suc k)
  have "replicate (Suc k) (CHR 0x00) = replicate k (CHR 0x00) @ [CHR 0x00]" by (simp add: replicate_append_same)
  then show ?case using Suc by (simp only: be64toh_def foldl_append) simp
qed (simp add: be64toh_def)

lemma readProto_zeros:
  assumes f: "drop off f = replicate k (CHR 0x00)" and len: "length f < 2 ^ 64"
  obtains e where "readProtoFromFile algs encoding codec f off = Some (Inl e)"
proof (cases k)
  case 0
  then have "length f \<le> off" using f by simp
  then show thesis using that readProto_end by blast
next
  case (Suc j)
  have "checksum_length (take MAX_LENGTH (drop off f)) = 1"
    by (simp add: f Suc checksum_length_def MAX_LENGTH_def)
  moreover have z: "take 8 (drop (off + 1) f) = replicate (min 8 j) (CHR 0x00)"
  proof -
    have "drop (off + 1) f = drop 1 (drop off f)" by simp
    also have "\<dots> = replicate j (CHR 0x00)" by (simp only: f Suc) simp
    finally show ?thesis by simp
  qed
  moreover have "take 0 x = ([] :: string)" for x by simp
  moreover have "length f = off + k"
    using arg_cong [OF f, of length] Suc by simp
  ultimately show thesis
    using that len Suc
    by (cases "j < 8")
      (simp_all add: readProtoFromFile_def Let_def be64toh_zeros u64_def reader_get_def checksum_verify_def
        isPrintable_def)
qed

end
