(* ===== verification/LC_Disk.thy ===== *)
theory LC_Disk
  imports LC_Prelude
begin

text \<open>
  The file system as the storage module sees it (\<^verbatim>\<open>src/Storage/FilesystemUtil.cc\<close>): one directory whose
  names refer to files, the bytes of the files, and open descriptors with their offsets. Of the
  directory and of every file there are two versions: what system calls see, and what has been
  forced to stable storage by \<^verbatim>\<open>fsync\<close> or \<^verbatim>\<open>fdatasync\<close>. A failing system call that the wrappers answer with a \<^verbatim>\<open>PANIC\<close>
  is \<open>None\<close>; the calls fail for the reasons the program can cause (missing or existing
  names, invalid descriptors), not for lack of space or broken hardware.
\<close>

section \<open>The disk\<close>

record Disk =
  d_names :: "(string, nat) omap"
  d_dnames :: "(string, nat) omap"
  d_data :: "nat \<Rightarrow> string"
  d_durable :: "nat \<Rightarrow> string"
  d_fds :: "nat \<rightharpoonup> nat \<times> nat"
  d_next :: nat

definition emptyDisk :: Disk where
  "emptyDisk = \<lparr>d_names = [], d_dnames = [], d_data = (\<lambda>_. []), d_durable = (\<lambda>_. []),
     d_fds = Map.empty, d_next = 1\<rparr>"

text \<open>The descriptor of the directory itself.\<close>

definition dirFd :: nat where
  "dirFd = 0"

definition zeros :: "nat \<Rightarrow> string" where
  "zeros n = replicate n (CHR 0x00)"

section \<open>Wrappers of system calls\<close>

definition fs_ls :: "Disk \<Rightarrow> string list" where
  "fs_ls d = map fst (d_names d)"

text \<open>\<^verbatim>\<open>openat\<close> on a name without a slash at its start. The result \<open>None\<close> is \<^verbatim>\<open>ENOENT\<close> or
  \<^verbatim>\<open>EEXIST\<close>; the flags are \<^verbatim>\<open>O_CREAT\<close>, \<^verbatim>\<open>O_EXCL\<close> and \<^verbatim>\<open>O_TRUNC\<close>.\<close>

definition fs_openat :: "bool \<Rightarrow> bool \<Rightarrow> bool \<Rightarrow> string \<Rightarrow> Disk \<Rightarrow> (nat \<times> Disk) option" where
  "fs_openat creat excl trunc name d =
     (case map_of (d_names d) name of
        Some i \<Rightarrow>
          if creat \<and> excl then None
          else Some (d_next d, d\<lparr>d_fds := (d_fds d)(d_next d \<mapsto> (i, 0)), d_next := d_next d + 1,
                 d_data := (if trunc then (d_data d)(i := []) else d_data d)\<rparr>)
      | None \<Rightarrow>
          if creat
          then Some (d_next d, d\<lparr>d_names := om_set name (d_next d) (d_names d),
                 d_data := (d_data d)(d_next d := []), d_durable := (d_durable d)(d_next d := []),
                 d_fds := (d_fds d)(d_next d \<mapsto> (d_next d, 0)), d_next := d_next d + 1\<rparr>)
          else None)"

definition fs_openFile :: "bool \<Rightarrow> bool \<Rightarrow> bool \<Rightarrow> string \<Rightarrow> Disk \<Rightarrow> (nat \<times> Disk) option" where
  "fs_openFile creat excl trunc child d = do {
     require (\<not> prefix ''/'' child);
     fs_openat creat excl trunc child d
   }"

text \<open>The descriptor \<open>None\<close> is \<^verbatim>\<open>-1\<close>, for a file that is not there (or already is).\<close>

definition fs_tryOpenFile :: "bool \<Rightarrow> bool \<Rightarrow> bool \<Rightarrow> string \<Rightarrow> Disk \<Rightarrow> (nat option \<times> Disk) option" where
  "fs_tryOpenFile creat excl trunc child d = do {
     require (\<not> prefix ''/'' child);
     Some (case fs_openat creat excl trunc child d of
        None \<Rightarrow> (None, d)
      | Some (fd, d') \<Rightarrow> (Some fd, d'))
   }"

definition fs_close :: "nat \<Rightarrow> Disk \<Rightarrow> Disk option" where
  "fs_close fd d = do {
     require (fd \<in> dom (d_fds d));
     Some (d\<lparr>d_fds := (d_fds d)(fd := None)\<rparr>)
   }"

text \<open>The bytes of an open file, as \<^verbatim>\<open>FileContents\<close> maps them into memory.\<close>

definition fs_contents :: "nat \<Rightarrow> Disk \<Rightarrow> string option" where
  "fs_contents fd d = map_option (\<lambda>(i, pos). d_data d i) (d_fds d fd)"

definition fs_getSize :: "nat \<Rightarrow> Disk \<Rightarrow> nat option" where
  "fs_getSize fd d = map_option length (fs_contents fd d)"

definition fs_allocate :: "nat \<Rightarrow> nat \<Rightarrow> nat \<Rightarrow> Disk \<Rightarrow> Disk option" where
  "fs_allocate fd offset bytes d = do {
     (i, pos) \<leftarrow> d_fds d fd;
     Some (d\<lparr>d_data := (d_data d)(i := d_data d i @ zeros (offset + bytes - length (d_data d i)))\<rparr>)
   }"

definition fs_truncate :: "nat \<Rightarrow> nat \<Rightarrow> Disk \<Rightarrow> Disk option" where
  "fs_truncate fd bytes d = do {
     (i, pos) \<leftarrow> d_fds d fd;
     Some (d\<lparr>d_data := (d_data d)(i := take bytes (d_data d i) @ zeros (bytes - length (d_data d i)))\<rparr>)
   }"

text \<open>Bytes are written at the offset of the descriptor, which moves past them.\<close>

definition overwrite :: "nat \<Rightarrow> string \<Rightarrow> string \<Rightarrow> string" where
  "overwrite pos buf old = take pos old @ zeros (pos - length old) @ buf @ drop (pos + length buf) old"

definition fs_write :: "nat \<Rightarrow> string \<Rightarrow> Disk \<Rightarrow> Disk option" where
  "fs_write fd buf d = do {
     (i, pos) \<leftarrow> d_fds d fd;
     Some (d\<lparr>d_data := (d_data d)(i := overwrite pos buf (d_data d i)),
             d_fds := (d_fds d)(fd \<mapsto> (i, pos + length buf))\<rparr>)
   }"

definition fs_fsync :: "nat \<Rightarrow> Disk \<Rightarrow> Disk option" where
  "fs_fsync fd d =
     (if fd = dirFd then Some (d\<lparr>d_dnames := d_names d\<rparr>)
      else do {
        (i, pos) \<leftarrow> d_fds d fd;
        Some (d\<lparr>d_durable := (d_durable d)(i := d_data d i)\<rparr>)
      })"

text \<open>\<^verbatim>\<open>fdatasync\<close> also forces the size of the file, which is needed to read its data.\<close>

definition fs_fdatasync :: "nat \<Rightarrow> Disk \<Rightarrow> Disk option" where
  "fs_fdatasync = fs_fsync"

definition fs_removeFile :: "string \<Rightarrow> Disk \<Rightarrow> Disk option" where
  "fs_removeFile path d = do {
     require (\<not> prefix ''/'' path);
     Some (d\<lparr>d_names := om_erase path (d_names d)\<rparr>)
   }"

definition fs_rename :: "string \<Rightarrow> string \<Rightarrow> Disk \<Rightarrow> Disk option" where
  "fs_rename oldChild newChild d = do {
     require (\<not> prefix ''/'' oldChild);
     require (\<not> prefix ''/'' newChild);
     i \<leftarrow> map_of (d_names d) oldChild;
     Some (d\<lparr>d_names := om_set newChild i (om_erase oldChild (d_names d))\<rparr>)
   }"

section \<open>Writing with partial writes\<close>

text \<open>
  \<^verbatim>\<open>write\<close> calls \<^verbatim>\<open>writev\<close> until all bytes are written. What the calls answer is the first argument;
  the chunks are what is left of the buffers, and the last argument what has reached the file. A call
  writes at most what it is given. The result says whether the bytes were all written; \<open>None\<close> means that
  the loop is still running after the given answers.
\<close>

datatype WritevResult = Interrupted | WriteFailed | Written nat

fun advanceBuffers :: "nat \<Rightarrow> string list \<Rightarrow> string list" where
  "advanceBuffers written [] = []"
| "advanceBuffers written (iov # iovs) =
     (if length iov < written then [] # advanceBuffers (written - length iov) iovs
      else drop written iov # iovs)"

fun writeLoop :: "WritevResult list \<Rightarrow> nat \<Rightarrow> string list \<Rightarrow> string \<Rightarrow> (bool \<times> string) option" where
  "writeLoop [] bytesRemaining iovs out = None"
| "writeLoop (Interrupted # rs) bytesRemaining iovs out = writeLoop rs bytesRemaining iovs out"
| "writeLoop (WriteFailed # rs) bytesRemaining iovs out = Some (False, out)"
| "writeLoop (Written n # rs) bytesRemaining iovs out =
     (let written = min n (length (concat iovs));
          out' = out @ take written (concat iovs)
      in if bytesRemaining - written = 0 then Some (True, out')
         else writeLoop rs (bytesRemaining - written) (advanceBuffers written iovs) out')"

definition write_all :: "WritevResult list \<Rightarrow> string list \<Rightarrow> (bool \<times> string) option" where
  "write_all rs data = writeLoop rs (length (concat data)) data []"

lemma concat_advanceBuffers: "concat (advanceBuffers n iovs) = drop n (concat iovs)"
  by (induction n iovs rule: advanceBuffers.induct) auto

text \<open>Whenever the loop reports success it has written exactly the buffers.\<close>

lemma writeLoop_success:
  "writeLoop rs (length (concat iovs)) iovs out = Some (True, out') \<Longrightarrow> out' = out @ concat iovs"
proof (induction rs "length (concat iovs)" iovs out rule: writeLoop.induct)
  case (4 n rs iovs out)
  let ?w = "min n (length (concat iovs))"
  have rest: "length (concat iovs) - ?w = length (concat (advanceBuffers ?w iovs))"
    by (simp add: concat_advanceBuffers)
  show ?case
  proof (cases "length (concat iovs) - ?w = 0")
    case True
    then have "take ?w (concat iovs) = concat iovs" by simp
    then show ?thesis using 4(2) True by simp
  next
    case False
    then have "out' = (out @ take ?w (concat iovs)) @ concat (advanceBuffers ?w iovs)"
      using 4(1) [OF refl refl False rest] 4(2) by (simp only: writeLoop.simps Let_def if_False rest [symmetric])
    then show ?thesis by (simp add: concat_advanceBuffers)
  qed
qed auto

text \<open>Every answer other than an interruption makes progress, so the loop ends.\<close>

definition progress :: "WritevResult list \<Rightarrow> nat" where
  "progress rs = sum_list (map (\<lambda>r. case r of Written n \<Rightarrow> n | _ \<Rightarrow> 0) rs)"

lemma writeLoop_ends:
  "WriteFailed \<notin> set rs \<Longrightarrow> (\<exists>n. Written n \<in> set rs) \<Longrightarrow> length (concat iovs) \<le> progress rs \<Longrightarrow>
   \<exists>out'. writeLoop rs (length (concat iovs)) iovs out = Some (True, out')"
proof (induction rs "length (concat iovs)" iovs out rule: writeLoop.induct)
  case (4 n rs iovs out)
  let ?w = "min n (length (concat iovs))"
  have rest: "length (concat iovs) - ?w = length (concat (advanceBuffers ?w iovs))"
    by (simp add: concat_advanceBuffers)
  show ?case
  proof (cases "length (concat iovs) - ?w = 0")
    case False
    then have "n < length (concat iovs)" by (simp only: min_def split: if_splits)
    moreover have "length (concat iovs) \<le> n + progress rs" using 4(4) by (simp add: progress_def)
    ultimately have "length (concat (advanceBuffers ?w iovs)) \<le> progress rs" and pos: "0 < progress rs"
      by (simp_all only: rest [symmetric])
    moreover have "\<exists>n. Written n \<in> set rs"
    proof (rule ccontr)
      assume "\<not> ?thesis"
      then have "\<forall>r \<in> set rs. (case r of Written n \<Rightarrow> n | _ \<Rightarrow> 0) = 0"
        by (auto split: WritevResult.split)
      then have "progress rs = 0" by (simp add: progress_def)
      then show False using pos by simp
    qed
    ultimately have "\<exists>out'. writeLoop rs (length (concat iovs) - ?w) (advanceBuffers ?w iovs)
        (out @ take ?w (concat iovs)) = Some (True, out')"
      using 4(1) [OF refl refl False rest] 4(2) rest by simp
    then show ?thesis using False by simp
  qed simp
qed (auto simp: progress_def)

end
