(* ===== verification/LC_SegmentedLog.thy ===== *)
theory LC_SegmentedLog
  imports LC_SegmentFormat LC_Disk LC_RaftTypes
begin

text \<open>
  The log on disk (\<^verbatim>\<open>src/Storage/SegmentedLog.cc\<close>): a sequence of segment files, of which the last is open for
  appending, two alternating metadata files, and a queue of prepared files for future segments. File
  operations of \<^verbatim>\<open>append\<close> and \<^verbatim>\<open>truncatePrefix\<close> are queued in the current \<^verbatim>\<open>Sync\<close> object and run by
  \<^verbatim>\<open>wait\<close>; the others act on the disk at once. The result \<open>None\<close> is a failed assertion or a \<^verbatim>\<open>PANIC\<close>.
  Statistics and messages to the debug log are left out.
\<close>

section \<open>State\<close>

text \<open>\<^verbatim>\<open>SegmentedLogMetadata::Metadata\<close>\<close>

record SLMetadata =
  slm_format_version :: nat
  slm_version :: nat
  slm_raft_metadata :: "Metadata option"
  slm_entries_start :: nat

text \<open>Settings, and the parts of other libraries that the log uses. \<open>debugInvariants\<close> is a debug build with
  \<^verbatim>\<open>storageDebug\<close> set.\<close>

record StorageEnv =
  se_algorithms :: algorithms
  se_checksumAlgorithm :: string
  se_encoding :: Encoding
  se_entry :: "LogEntry Codec"
  se_metadata :: "SLMetadata Codec"
  MAX_SEGMENT_SIZE :: nat
  storageOpenSegments :: nat
  debugInvariants :: bool

record PreparedSegments =
  ps_exiting :: bool
  ps_demanded :: nat
  filenameCounter :: nat
  openSegments :: "(string \<times> nat) list"

text \<open>A queued operation: the descriptor it is applied to and its arguments.\<close>

datatype Op =
    WRITE nat string
  | TRUNCATE nat nat
  | RENAME nat string string
  | FDATASYNC nat
  | FSYNC nat
  | CLOSE nat
  | UNLINKAT nat string
  | NOOP_OP nat

record Sync =
  sync_lastIndex :: nat
  sync_ops :: "Op list"

text \<open>The entries of a segment come with their offsets in the file.\<close>

record Segment =
  seg_isOpen :: bool
  seg_start :: nat
  seg_end :: nat
  seg_bytes :: nat
  seg_filename :: string
  seg_entries :: "(nat \<times> LogEntry) list"

text \<open>\<open>sl_raft_metadata\<close> is the member of the base class \<^verbatim>\<open>Log\<close>; \<open>openSegmentFile\<close> is \<open>None\<close> when its
  descriptor is negative.\<close>

record SegmentedLog =
  sl_metadata :: SLMetadata
  sl_raft_metadata :: Metadata
  sl_disk :: Disk
  openSegmentFile :: "nat option"
  logStartIndex :: nat
  segmentsByStartIndex :: "(nat, Segment) omap"
  totalClosedSegmentBytes :: nat
  preparedSegments :: PreparedSegments
  sl_currentSync :: Sync

text \<open>The size of a segment header, which is one byte with the version of the format.\<close>

definition headerSize :: nat where
  "headerSize = 1"

definition segmentHeader :: string where
  "segmentHeader = [CHR 0x01]"

section \<open>Prepared segments\<close>

text \<open>The outcome of a call that may wait on a condition variable or be interrupted by \<^verbatim>\<open>exit\<close>.\<close>

datatype 'a Waiting = WouldBlock | ThreadInterrupted | Ready 'a

definition mkPreparedSegments :: "nat \<Rightarrow> PreparedSegments" where
  "mkPreparedSegments queueSize =
     \<lparr>ps_exiting = False, ps_demanded = queueSize, filenameCounter = 0, openSegments = []\<rparr>"

definition ps_exit :: "PreparedSegments \<Rightarrow> PreparedSegments" where
  "ps_exit p = p\<lparr>ps_exiting := True\<rparr>"

definition foundFile :: "nat \<Rightarrow> PreparedSegments \<Rightarrow> PreparedSegments" where
  "foundFile fileId p = (if filenameCounter p < fileId then p\<lparr>filenameCounter := fileId\<rparr> else p)"

definition releaseAll :: "PreparedSegments \<Rightarrow> (string \<times> nat) list \<times> PreparedSegments" where
  "releaseAll p = (openSegments p, p\<lparr>openSegments := []\<rparr>)"

definition submitOpenSegment :: "string \<times> nat \<Rightarrow> PreparedSegments \<Rightarrow> PreparedSegments" where
  "submitOpenSegment segment p = p\<lparr>openSegments := openSegments p @ [segment]\<rparr>"

definition waitForDemand :: "PreparedSegments \<Rightarrow> (nat \<times> PreparedSegments) Waiting" where
  "waitForDemand p =
     (if ps_exiting p then ThreadInterrupted
      else if 0 < ps_demanded p
        then Ready (filenameCounter p + 1,
               p\<lparr>ps_demanded := ps_demanded p - 1, filenameCounter := filenameCounter p + 1\<rparr>)
      else WouldBlock)"

definition waitForOpenSegment :: "PreparedSegments \<Rightarrow> ((string \<times> nat) \<times> PreparedSegments) Waiting" where
  "waitForOpenSegment p =
     (if ps_exiting p then ThreadInterrupted
      else case openSegments p of
        [] \<Rightarrow> WouldBlock
      | s # ss \<Rightarrow> Ready (s, p\<lparr>openSegments := ss, ps_demanded := ps_demanded p + 1\<rparr>))"

section \<open>Queued operations\<close>

text \<open>A flush is dropped when the next two operations are a write and a flush of the same file.\<close>

fun optimize :: "Op list \<Rightarrow> Op list" where
  "optimize (prev # it # next # ops) =
     (let prev' = (case (prev, it, next) of
          (FDATASYNC a, WRITE b buf, FDATASYNC c) \<Rightarrow> if a = b \<and> b = c then NOOP_OP a else prev
        | _ \<Rightarrow> prev)
      in prev' # optimize (it # next # ops))"
| "optimize ops = ops"

fun runOp :: "Op \<Rightarrow> Disk \<Rightarrow> Disk option" where
  "runOp (WRITE fd writeData) d = fs_write fd writeData d"
| "runOp (TRUNCATE fd newSize) d = fs_truncate fd newSize d"
| "runOp (RENAME fd filename1 filename2) d = fs_rename filename1 filename2 d"
| "runOp (FDATASYNC fd) d = fs_fdatasync fd d"
| "runOp (FSYNC fd) d = fs_fsync fd d"
| "runOp (CLOSE fd) d = fs_close fd d"
| "runOp (UNLINKAT fd filename1) d = fs_removeFile filename1 d"
| "runOp (NOOP_OP fd) d = Some d"

fun runOps :: "Op list \<Rightarrow> Disk \<Rightarrow> Disk option" where
  "runOps [] d = Some d"
| "runOps (op # ops) d = runOp op d \<bind> runOps ops"

definition sync_wait :: "Sync \<Rightarrow> Disk \<Rightarrow> Disk option" where
  "sync_wait sync d = runOps (optimize (sync_ops sync)) d"

section \<open>Access to segments\<close>

definition makeClosedFilename :: "Segment \<Rightarrow> string" where
  "makeClosedFilename s = closedFilename (seg_start s) (seg_end s)"

definition getOpenSegment :: "SegmentedLog \<Rightarrow> Segment option" where
  "getOpenSegment l =
     (if segmentsByStartIndex l = [] then None else Some (snd (last (segmentsByStartIndex l))))"

text \<open>Assigning through the reference that \<^verbatim>\<open>getOpenSegment\<close> returns.\<close>

definition updateOpenSegment :: "(Segment \<Rightarrow> Segment) \<Rightarrow> SegmentedLog \<Rightarrow> SegmentedLog" where
  "updateOpenSegment f l =
     l\<lparr>segmentsByStartIndex := butlast (segmentsByStartIndex l) @
         [(fst (last (segmentsByStartIndex l)), f (snd (last (segmentsByStartIndex l))))]\<rparr>"

definition addOp :: "Op \<Rightarrow> SegmentedLog \<Rightarrow> SegmentedLog" where
  "addOp op l = l\<lparr>sl_currentSync := (sl_currentSync l)\<lparr>sync_ops := sync_ops (sl_currentSync l) @ [op]\<rparr>\<rparr>"

definition onDisk :: "(Disk \<Rightarrow> Disk option) \<Rightarrow> SegmentedLog \<Rightarrow> SegmentedLog option" where
  "onDisk f l = do { d \<leftarrow> f (sl_disk l); Some (l\<lparr>sl_disk := d\<rparr>) }"

definition sl_getLogStartIndex :: "SegmentedLog \<Rightarrow> nat" where
  "sl_getLogStartIndex l = logStartIndex l"

definition sl_getLastLogIndex :: "SegmentedLog \<Rightarrow> nat" where
  "sl_getLastLogIndex l =
     (case getOpenSegment l of None \<Rightarrow> logStartIndex l - 1 | Some s \<Rightarrow> seg_end s)"

definition sl_getName :: "StorageEnv \<Rightarrow> string" where
  "sl_getName env = (case se_encoding env of BINARY \<Rightarrow> ''Segmented-Binary'' | TEXT \<Rightarrow> ''Segmented-Text'')"

definition sl_getSizeBytes :: "SegmentedLog \<Rightarrow> nat option" where
  "sl_getSizeBytes l = do { s \<leftarrow> getOpenSegment l; Some (totalClosedSegmentBytes l + seg_bytes s) }"

text \<open>The segment before \<^verbatim>\<open>upper_bound(index)\<close>; \<^verbatim>\<open>entries.at\<close> throws out of range.\<close>

definition sl_getEntry :: "SegmentedLog \<Rightarrow> nat \<Rightarrow> LogEntry option" where
  "sl_getEntry l index = do {
     require (\<not> (index < sl_getLogStartIndex l \<or> index > sl_getLastLogIndex l));
     (k, segment) \<leftarrow> om_floor index (segmentsByStartIndex l);
     require (seg_start segment \<le> index);
     require (index \<le> seg_end segment);
     require (index - seg_start segment < length (seg_entries segment));
     Some (snd (seg_entries segment ! (index - seg_start segment)))
   }"

definition sl_takeSync :: "SegmentedLog \<Rightarrow> Sync \<times> SegmentedLog" where
  "sl_takeSync l =
     (sl_currentSync l, l\<lparr>sl_currentSync := \<lparr>sync_lastIndex = sl_getLastLogIndex l, sync_ops = []\<rparr>\<rparr>)"

section \<open>The invariants that a debug build asserts\<close>

fun checkOffsets :: "nat \<Rightarrow> nat \<Rightarrow> nat \<Rightarrow> (nat \<times> LogEntry) list \<Rightarrow> bool" where
  "checkOffsets startIndex i lastOffset [] = True"
| "checkOffsets startIndex i lastOffset ((offset, entry) # es) =
     (le_index entry = Some (startIndex + i) \<and>
      (if i = 0 then offset = headerSize else lastOffset < offset) \<and>
      checkOffsets startIndex (i + 1) offset es)"

definition checkSegment :: "nat \<times> Segment \<Rightarrow> bool" where
  "checkSegment = (\<lambda>(k, segment).
     k = seg_start segment \<and> seg_start segment > 0 \<and>
     length (seg_entries segment) = seg_end segment + 1 - seg_start segment \<and>
     checkOffsets (seg_start segment) 0 0 (seg_entries segment))"

text \<open>The loop over the segments; the result is the number of bytes in closed segments.\<close>

fun checkSegments :: "(nat, Segment) omap \<Rightarrow> nat option" where
  "checkSegments [] = Some 0"
| "checkSegments [(k, segment)] =
     (if checkSegment (k, segment) \<and> seg_isOpen segment \<and> seg_end segment \<ge> seg_start segment - 1 \<and>
         prefix ''open-'' (seg_filename segment) \<and> seg_bytes segment \<ge> headerSize
      then Some 0 else None)"
| "checkSegments ((k, segment) # (k', s') # rest) =
     (if checkSegment (k, segment) \<and> \<not> seg_isOpen segment \<and> seg_end segment \<ge> seg_start segment \<and>
         seg_start s' = seg_end segment + 1 \<and> seg_bytes segment > headerSize \<and>
         seg_filename segment = makeClosedFilename segment
      then map_option (\<lambda>n. seg_bytes segment + n) (checkSegments ((k', s') # rest)) else None)"

definition checkInvariants :: "SegmentedLog \<Rightarrow> bool" where
  "checkInvariants l \<longleftrightarrow>
     openSegmentFile l \<noteq> None \<and> segmentsByStartIndex l \<noteq> [] \<and>
     logStartIndex l \<ge> seg_start (snd (hd (segmentsByStartIndex l))) \<and>
     logStartIndex l \<le> seg_end (snd (hd (segmentsByStartIndex l))) + 1 \<and>
     checkSegments (segmentsByStartIndex l) = Some (totalClosedSegmentBytes l)"

definition assertInvariants :: "StorageEnv \<Rightarrow> SegmentedLog \<Rightarrow> unit option" where
  "assertInvariants env l = require (debugInvariants env \<longrightarrow> checkInvariants l)"

section \<open>Opening and closing segments\<close>

definition prepareNewSegment :: "StorageEnv \<Rightarrow> nat \<Rightarrow> Disk \<Rightarrow> ((string \<times> nat) \<times> Disk) option" where
  "prepareNewSegment env fileId d = do {
     let filename = openFilename fileId;
     (file, d) \<leftarrow> fs_openFile True True False filename d;
     d \<leftarrow> fs_allocate file 0 (MAX_SEGMENT_SIZE env) d;
     d \<leftarrow> fs_write file segmentHeader d;
     d \<leftarrow> fs_fsync file d;
     d \<leftarrow> fs_fsync dirFd d;
     Some ((filename, file), d)
   }"

text \<open>One iteration of the thread that prepares segments.\<close>

definition segmentPreparerMain_iter :: "StorageEnv \<Rightarrow> SegmentedLog \<Rightarrow> SegmentedLog Waiting option" where
  "segmentPreparerMain_iter env l =
     (case waitForDemand (preparedSegments l) of
        Ready (fileId, p) \<Rightarrow> do {
          (segment, d) \<leftarrow> prepareNewSegment env fileId (sl_disk l);
          Some (Ready (l\<lparr>sl_disk := d, preparedSegments := submitOpenSegment segment p\<rparr>))
        }
      | WouldBlock \<Rightarrow> Some WouldBlock
      | ThreadInterrupted \<Rightarrow> Some ThreadInterrupted)"

text \<open>
  Waiting for a prepared segment: when the queue is empty, the caller sleeps until the preparer has
  finished a segment. Without a demand for one the wait would never end, which is \<open>None\<close> like the exception.
\<close>

definition takePrepared :: "StorageEnv \<Rightarrow> SegmentedLog \<Rightarrow> ((string \<times> nat) \<times> SegmentedLog) option" where
  "takePrepared env l =
     (case waitForOpenSegment (preparedSegments l) of
        Ready (s, p) \<Rightarrow> Some (s, l\<lparr>preparedSegments := p\<rparr>)
      | ThreadInterrupted \<Rightarrow> None
      | WouldBlock \<Rightarrow> do {
          r \<leftarrow> segmentPreparerMain_iter env l;
          (case r of
             Ready l' \<Rightarrow>
               (case waitForOpenSegment (preparedSegments l') of
                  Ready (s, p) \<Rightarrow> Some (s, l'\<lparr>preparedSegments := p\<rparr>)
                | _ \<Rightarrow> None)
           | _ \<Rightarrow> None)
        })"

definition openNewSegment :: "StorageEnv \<Rightarrow> SegmentedLog \<Rightarrow> SegmentedLog option" where
  "openNewSegment env l = do {
     require (openSegmentFile l = None);
     require (segmentsByStartIndex l = [] \<or> \<not> seg_isOpen (snd (last (segmentsByStartIndex l))));
     let start = sl_getLastLogIndex l + 1;
     (s, l) \<leftarrow> takePrepared env l;
     let newSegment = \<lparr>seg_isOpen = True, seg_start = start, seg_end = start - 1, seg_bytes = headerSize,
                       seg_filename = fst s, seg_entries = []\<rparr>;
     Some (l\<lparr>openSegmentFile := Some (snd s),
             segmentsByStartIndex := om_insert start newSegment (segmentsByStartIndex l)\<rparr>)
   }"

definition closeSegment :: "SegmentedLog \<Rightarrow> SegmentedLog option" where
  "closeSegment l =
     (case openSegmentFile l of
        None \<Rightarrow> Some l
      | Some fd \<Rightarrow> do {
          openSegment \<leftarrow> getOpenSegment l;
          if seg_start openSegment > seg_end openSegment
          then do {
            l \<leftarrow> onDisk (fs_close fd) l;
            let l = l\<lparr>openSegmentFile := None\<rparr>;
            l \<leftarrow> onDisk (fs_removeFile (seg_filename openSegment)) l;
            l \<leftarrow> onDisk (fs_fsync dirFd) l;
            Some (l\<lparr>segmentsByStartIndex := om_erase (seg_start openSegment) (segmentsByStartIndex l)\<rparr>)
          }
          else do {
            l \<leftarrow> onDisk (fs_truncate fd (seg_bytes openSegment)) l;
            l \<leftarrow> onDisk (fs_fsync fd) l;
            l \<leftarrow> onDisk (fs_close fd) l;
            let l = l\<lparr>openSegmentFile := None\<rparr>;
            let newFilename = makeClosedFilename openSegment;
            l \<leftarrow> onDisk (fs_rename (seg_filename openSegment) newFilename) l;
            l \<leftarrow> onDisk (fs_fsync dirFd) l;
            let l = updateOpenSegment (\<lambda>s. s\<lparr>seg_filename := newFilename, seg_isOpen := False\<rparr>) l;
            Some (l\<lparr>totalClosedSegmentBytes := totalClosedSegmentBytes l + seg_bytes openSegment\<rparr>)
          }
        })"

section \<open>Metadata\<close>

definition metadataFilename :: "nat \<Rightarrow> string" where
  "metadataFilename version = (if version mod 2 = 1 then ''metadata1'' else ''metadata2'')"

definition serializeMetadata :: "StorageEnv \<Rightarrow> SLMetadata \<Rightarrow> string option" where
  "serializeMetadata env m =
     serializeProto (se_algorithms env) (se_checksumAlgorithm env) (se_encoding env) (se_metadata env) m"

text \<open>A metadata message without any field has a \<^verbatim>\<open>ByteSize\<close> of zero.\<close>

definition sl_updateMetadata :: "StorageEnv \<Rightarrow> SegmentedLog \<Rightarrow> SegmentedLog option" where
  "sl_updateMetadata env l = do {
     let raft = sl_raft_metadata l;
     let metadata = \<lparr>slm_format_version = 1, slm_version = slm_version (sl_metadata l) + 1,
           slm_raft_metadata =
             (if md_current_term raft = None \<and> md_voted_for raft = None then None else Some raft),
           slm_entries_start = logStartIndex l\<rparr>;
     let l = l\<lparr>sl_metadata := metadata\<rparr>;
     (file, d) \<leftarrow> fs_openFile True False True (metadataFilename (slm_version metadata)) (sl_disk l);
     record \<leftarrow> serializeMetadata env metadata;
     d \<leftarrow> fs_write file record d;
     d \<leftarrow> fs_fsync file d;
     d \<leftarrow> fs_close file d;
     Some (l\<lparr>sl_disk := d\<rparr>)
   }"

section \<open>Appending and truncating\<close>

definition serializeEntry :: "StorageEnv \<Rightarrow> LogEntry \<Rightarrow> string option" where
  "serializeEntry env e =
     serializeProto (se_algorithms env) (se_checksumAlgorithm env) (se_encoding env) (se_entry env) e"

definition setIndex :: "nat \<Rightarrow> LogEntry \<Rightarrow> LogEntry option" where
  "setIndex index entry =
     (case le_index entry of
        Some i \<Rightarrow> do { require (index = i); Some entry }
      | None \<Rightarrow> Some (entry\<lparr>le_index := Some index\<rparr>))"

text \<open>Rolling over to a new head segment: the file operations are queued.\<close>

definition rollOver :: "StorageEnv \<Rightarrow> SegmentedLog \<Rightarrow> SegmentedLog option" where
  "rollOver env l = do {
     openSegment \<leftarrow> getOpenSegment l;
     fd \<leftarrow> openSegmentFile l;
     let l = addOp (TRUNCATE fd (seg_bytes openSegment)) l;
     let l = addOp (FSYNC fd) l;
     let l = addOp (CLOSE fd) (l\<lparr>openSegmentFile := None\<rparr>);
     let newFilename = makeClosedFilename openSegment;
     let l = addOp (RENAME dirFd (seg_filename openSegment) newFilename) l;
     let l = addOp (FSYNC dirFd) l;
     let l = updateOpenSegment (\<lambda>s. s\<lparr>seg_filename := newFilename, seg_isOpen := False\<rparr>) l;
     let l = l\<lparr>totalClosedSegmentBytes := totalClosedSegmentBytes l + seg_bytes openSegment\<rparr>;
     openNewSegment env l
   }"

definition appendRecord :: "StorageEnv \<Rightarrow> LogEntry \<Rightarrow> string \<Rightarrow> SegmentedLog \<Rightarrow> SegmentedLog option" where
  "appendRecord env entry buf l = do {
     openSegment \<leftarrow> getOpenSegment l;
     l \<leftarrow> (if seg_bytes openSegment > headerSize \<and>
              seg_bytes openSegment + length buf > MAX_SEGMENT_SIZE env
           then rollOver env l else Some l);
     fd \<leftarrow> openSegmentFile l;
     let l = updateOpenSegment (\<lambda>s. s\<lparr>seg_entries := seg_entries s @ [(seg_bytes s, entry)],
                seg_bytes := seg_bytes s + length buf, seg_end := seg_end s + 1\<rparr>) l;
     Some (addOp (WRITE fd buf) l)
   }"

fun sl_appendLoop :: "StorageEnv \<Rightarrow> nat \<Rightarrow> LogEntry list \<Rightarrow> SegmentedLog \<Rightarrow> SegmentedLog option" where
  "sl_appendLoop env index [] l = Some l"
| "sl_appendLoop env index (e # es) l = do {
     entry \<leftarrow> setIndex index e;
     buf \<leftarrow> serializeEntry env entry;
     l \<leftarrow> appendRecord env entry buf l;
     sl_appendLoop env (index + 1) es l
   }"

definition sl_append ::
  "StorageEnv \<Rightarrow> SegmentedLog \<Rightarrow> LogEntry list \<Rightarrow> ((nat \<times> nat) \<times> SegmentedLog) option" where
  "sl_append env l entries = do {
     openSegment \<leftarrow> getOpenSegment l;
     let startIndex = seg_end openSegment + 1;
     l \<leftarrow> sl_appendLoop env startIndex entries l;
     fd \<leftarrow> openSegmentFile l;
     let l = addOp (FDATASYNC fd) l;
     let l = l\<lparr>sl_currentSync := (sl_currentSync l)\<lparr>sync_lastIndex := sl_getLastLogIndex l\<rparr>\<rparr>;
     assertInvariants env l;
     Some ((startIndex, sl_getLastLogIndex l), l)
   }"

text \<open>The loop of \<^verbatim>\<open>truncatePrefix\<close>; the first argument is what is left of the segments.\<close>

fun deleteSegments :: "(nat, Segment) omap \<Rightarrow> SegmentedLog \<Rightarrow> SegmentedLog option" where
  "deleteSegments [] l = Some (l\<lparr>segmentsByStartIndex := []\<rparr>)"
| "deleteSegments ((k, segment) # rest) l =
     (if logStartIndex l \<le> seg_end segment
      then Some (l\<lparr>segmentsByStartIndex := (k, segment) # rest\<rparr>)
      else do {
        let l = addOp (UNLINKAT dirFd (seg_filename segment)) l;
        l \<leftarrow> (if seg_isOpen segment
              then do {
                fd \<leftarrow> openSegmentFile l;
                Some (addOp (CLOSE fd) (l\<lparr>openSegmentFile := None\<rparr>))
              }
              else Some (l\<lparr>totalClosedSegmentBytes := totalClosedSegmentBytes l - seg_bytes segment\<rparr>));
        deleteSegments rest l
      })"

definition sl_truncatePrefix :: "StorageEnv \<Rightarrow> SegmentedLog \<Rightarrow> nat \<Rightarrow> SegmentedLog option" where
  "sl_truncatePrefix env l newStartIndex =
     (if newStartIndex \<le> logStartIndex l then Some l
      else do {
        l \<leftarrow> sl_updateMetadata env (l\<lparr>logStartIndex := newStartIndex\<rparr>);
        l \<leftarrow> deleteSegments (segmentsByStartIndex l) l;
        l \<leftarrow> (if segmentsByStartIndex l = [] then openNewSegment env l else Some l);
        let l = (if sync_lastIndex (sl_currentSync l) < logStartIndex l - 1
                 then l\<lparr>sl_currentSync := (sl_currentSync l)\<lparr>sync_lastIndex := logStartIndex l - 1\<rparr>\<rparr> else l);
        assertInvariants env l;
        Some l
      })"

text \<open>Cutting a segment in memory: the entries before the given index are kept.\<close>

definition cutSegment :: "nat \<Rightarrow> Segment \<Rightarrow> Segment option" where
  "cutSegment newEndIndex s = do {
     let i = newEndIndex + 1 - seg_start s;
     require (i < length (seg_entries s));
     Some (s\<lparr>seg_bytes := fst (seg_entries s ! i), seg_entries := take i (seg_entries s),
             seg_end := newEndIndex\<rparr>)
   }"

definition removeClosedSegment :: "Segment \<Rightarrow> SegmentedLog \<Rightarrow> SegmentedLog option" where
  "removeClosedSegment segment l = do {
     l \<leftarrow> onDisk (fs_removeFile (seg_filename segment)) l;
     l \<leftarrow> onDisk (fs_fsync dirFd) l;
     Some (l\<lparr>totalClosedSegmentBytes := totalClosedSegmentBytes l - seg_bytes segment,
             segmentsByStartIndex := om_erase (seg_start segment) (segmentsByStartIndex l)\<rparr>)
   }"

definition truncateClosedSegment :: "nat \<Rightarrow> Segment \<Rightarrow> SegmentedLog \<Rightarrow> SegmentedLog option" where
  "truncateClosedSegment newEndIndex segment l = do {
     cut \<leftarrow> cutSegment newEndIndex segment;
     let newFilename = makeClosedFilename cut;
     let l = l\<lparr>totalClosedSegmentBytes := totalClosedSegmentBytes l - (seg_bytes segment - seg_bytes cut)\<rparr>;
     l \<leftarrow> onDisk (fs_rename (seg_filename segment) newFilename) l;
     l \<leftarrow> onDisk (fs_fsync dirFd) l;
     let l = updateOpenSegment (\<lambda>s. cut\<lparr>seg_filename := newFilename\<rparr>) l;
     (f, d) \<leftarrow> fs_openFile False False False newFilename (sl_disk l);
     d \<leftarrow> fs_truncate f (seg_bytes cut) d;
     d \<leftarrow> fs_fsync f d;
     d \<leftarrow> fs_close f d;
     Some (l\<lparr>sl_disk := d\<rparr>)
   }"

text \<open>
  The loop over closed segments from the end. Nothing in it changes the log when the last segment ends before
  the new end, so it might run forever: then there is no result.
\<close>

partial_function (option) truncateClosedSegments :: "nat \<Rightarrow> SegmentedLog \<Rightarrow> SegmentedLog option" where
  [code]: "truncateClosedSegments newEndIndex l =
     (if segmentsByStartIndex l = [] then Some l
      else let segment = snd (last (segmentsByStartIndex l)) in
        if seg_end segment = newEndIndex then Some l
        else if seg_start segment > newEndIndex
          then removeClosedSegment segment l \<bind> truncateClosedSegments newEndIndex
        else if seg_end segment > newEndIndex
          then truncateClosedSegment newEndIndex segment l \<bind> truncateClosedSegments newEndIndex
        else truncateClosedSegments newEndIndex l)"

definition sl_truncateSuffix :: "StorageEnv \<Rightarrow> SegmentedLog \<Rightarrow> nat \<Rightarrow> SegmentedLog option" where
  "sl_truncateSuffix env l newEndIndex =
     (if newEndIndex \<ge> sl_getLastLogIndex l then Some l
      else do {
        openSegment \<leftarrow> getOpenSegment l;
        if newEndIndex \<ge> seg_start openSegment
        then do {
          cut \<leftarrow> cutSegment newEndIndex openSegment;
          l \<leftarrow> closeSegment (updateOpenSegment (\<lambda>s. cut) l);
          l \<leftarrow> openNewSegment env l;
          assertInvariants env l;
          Some l
        }
        else do {
          l \<leftarrow> closeSegment (updateOpenSegment (\<lambda>s. s\<lparr>seg_end := seg_start s - 1, seg_bytes := 0\<rparr>) l);
          l \<leftarrow> truncateClosedSegments newEndIndex l;
          l \<leftarrow> openNewSegment env l;
          assertInvariants env l;
          Some l
        }
      })"

section \<open>Starting up and shutting down\<close>

definition readSegmentFilename :: "string \<Rightarrow> PreparedSegments \<Rightarrow> Segment option \<times> PreparedSegments" where
  "readSegmentFilename filename p =
     (if filename = ''metadata1'' \<or> filename = ''metadata2'' then (None, p)
      else case scanClosedFilename filename of
          Some (start, end) \<Rightarrow>
            (Some \<lparr>seg_isOpen = False, seg_start = start, seg_end = end, seg_bytes = 0,
                   seg_filename = filename, seg_entries = []\<rparr>, p)
        | None \<Rightarrow>
            (case scanOpenFilename filename of
               Some counter \<Rightarrow>
                 (Some \<lparr>seg_isOpen = True, seg_start = u64_max, seg_end = u64_max - 1, seg_bytes = 0,
                        seg_filename = filename, seg_entries = []\<rparr>, foundFile counter p)
             | None \<Rightarrow> (None, p)))"

fun readSegmentFilenames :: "string list \<Rightarrow> PreparedSegments \<Rightarrow> Segment list \<times> PreparedSegments" where
  "readSegmentFilenames [] p = ([], p)"
| "readSegmentFilenames (f # fs) p =
     (let (s, p) = readSegmentFilename f p;
          (ss, p) = readSegmentFilenames fs p
      in (case s of None \<Rightarrow> ss | Some s \<Rightarrow> s # ss, p))"

text \<open>The result is \<open>None\<close> inside when the file could not be read.\<close>

definition readMetadata :: "StorageEnv \<Rightarrow> string \<Rightarrow> Disk \<Rightarrow> (SLMetadata option \<times> Disk) option" where
  "readMetadata env filename d = do {
     (file, d) \<leftarrow> fs_tryOpenFile False False False filename d;
     case file of
       None \<Rightarrow> Some (None, d)
     | Some fd \<Rightarrow> do {
         contents \<leftarrow> fs_contents fd d;
         r \<leftarrow> readProtoFromFile (se_algorithms env) (se_encoding env) (se_metadata env) contents 0;
         d \<leftarrow> fs_close fd d;
         case r of
           Inl error \<Rightarrow> Some (None, d)
         | Inr (m, offset) \<Rightarrow> do {
             require (\<not> slm_format_version m > 1);
             Some (Some m, d)
           }
       }
   }"

text \<open>The records of a closed segment: every entry of the range in the name has to be there.\<close>

fun readClosedEntries ::
  "StorageEnv \<Rightarrow> string \<Rightarrow> nat \<Rightarrow> nat \<Rightarrow> ((nat \<times> LogEntry) list \<times> nat) option" where
  "readClosedEntries env file 0 offset = Some ([], offset)"
| "readClosedEntries env file (Suc n) offset = do {
     require (offset < length file);
     r \<leftarrow> readProtoFromFile (se_algorithms env) (se_encoding env) (se_entry env) file offset;
     case r of
       Inl error \<Rightarrow> None
     | Inr (entry, offset') \<Rightarrow> do {
         (es, end) \<leftarrow> readClosedEntries env file n offset';
         Some ((offset, entry) # es, end)
       }
   }"

definition loadClosedSegment ::
  "StorageEnv \<Rightarrow> Segment \<Rightarrow> nat \<Rightarrow> SegmentedLog \<Rightarrow> (Segment option \<times> SegmentedLog) option" where
  "loadClosedSegment env segment start l = do {
     require (\<not> seg_isOpen segment);
     (fd, d) \<leftarrow> fs_openFile False False False (seg_filename segment) (sl_disk l);
     file \<leftarrow> fs_contents fd d;
     require (length file \<ge> 1);
     require (hd file = CHR 0x01);
     if seg_end segment < start
     then do {
       d \<leftarrow> fs_removeFile (seg_filename segment) d;
       d \<leftarrow> fs_fsync dirFd d;
       d \<leftarrow> fs_close fd d;
       Some (None, l\<lparr>sl_disk := d\<rparr>)
     }
     else do {
       (es, offset) \<leftarrow> readClosedEntries env file (seg_end segment + 1 - seg_start segment) 1;
       d \<leftarrow> (if offset < length file then do { d \<leftarrow> fs_truncate fd offset d; fs_fsync fd d } else Some d);
       d \<leftarrow> fs_close fd d;
       Some (Some (segment\<lparr>seg_entries := es, seg_bytes := offset\<rparr>),
             l\<lparr>sl_disk := d, totalClosedSegmentBytes := totalClosedSegmentBytes l + offset\<rparr>)
     }
   }"

text \<open>The records of an open segment, up to the first that cannot be read; the flag says that there was one.\<close>

function readOpenEntries ::
  "StorageEnv \<Rightarrow> string \<Rightarrow> nat \<Rightarrow> ((nat \<times> LogEntry) list \<times> nat \<times> bool) option" where
  "readOpenEntries env file offset =
     (if offset < length file
      then case readProtoFromFile (se_algorithms env) (se_encoding env) (se_entry env) file offset of
          None \<Rightarrow> None
        | Some (Inl error) \<Rightarrow> Some ([], offset, True)
        | Some (Inr (entry, offset')) \<Rightarrow> do {
            (es, end, broken) \<leftarrow> readOpenEntries env file offset';
            Some ((offset, entry) # es, end, broken)
          }
      else Some ([], offset, False))"
  by pat_completeness auto
termination
proof (relation "measure (\<lambda>(env, file, offset). length file - offset)")
  fix env :: StorageEnv and f offset r rr and entry :: LogEntry and offset'
  assume "offset < length f" "readProtoFromFile (se_algorithms env) (se_encoding env) (se_entry env) f offset = Some r"
    "r = Inr rr" "(entry, offset') = rr"
  then have "offset + 9 \<le> offset' \<and> offset' \<le> length f" using readProto_bounds by metis
  then show "((env, f, offset'), env, f, offset) \<in> measure (\<lambda>(env, file, offset). length file - offset)"
    using \<open>offset < length f\<close> by (auto intro: diff_less_mono2)
qed simp

declare readOpenEntries.simps [simp del]

definition entryIndex :: "LogEntry \<Rightarrow> nat" where
  "entryIndex e = (case le_index e of None \<Rightarrow> 0 | Some i \<Rightarrow> i)"

definition loadOpenSegment ::
  "StorageEnv \<Rightarrow> Segment \<Rightarrow> nat \<Rightarrow> SegmentedLog \<Rightarrow> (Segment option \<times> SegmentedLog) option" where
  "loadOpenSegment env segment start l = do {
     require (seg_isOpen segment);
     (fd, d) \<leftarrow> fs_openFile False False False (seg_filename segment) (sl_disk l);
     file \<leftarrow> fs_contents fd d;
     require (file = [] \<or> hd file = CHR 0x01);
     (es, offset, broken) \<leftarrow> readOpenEntries env file (if file = [] then 0 else 1);
     d \<leftarrow> (if broken then do { d \<leftarrow> fs_truncate fd offset d; fs_fsync fd d } else Some d);
     if es = [] \<or> entryIndex (snd (last es)) < start
     then do {
       d \<leftarrow> fs_removeFile (seg_filename segment) d;
       d \<leftarrow> fs_fsync dirFd d;
       d \<leftarrow> fs_close fd d;
       Some (None, l\<lparr>sl_disk := d\<rparr>)
     }
     else do {
       let segment' = segment\<lparr>seg_entries := es, seg_bytes := offset, seg_isOpen := False,
             seg_start := entryIndex (snd (hd es)), seg_end := entryIndex (snd (last es))\<rparr>;
       let newFilename = makeClosedFilename segment';
       d \<leftarrow> fs_rename (seg_filename segment) newFilename d;
       d \<leftarrow> fs_fsync dirFd d;
       d \<leftarrow> fs_close fd d;
       Some (Some (segment'\<lparr>seg_filename := newFilename\<rparr>),
             l\<lparr>sl_disk := d, totalClosedSegmentBytes := totalClosedSegmentBytes l + offset\<rparr>)
     }
   }"

text \<open>Loading all segments; two segments with the same first entry are a \<^verbatim>\<open>PANIC\<close>.\<close>

fun loadSegments :: "StorageEnv \<Rightarrow> Segment list \<Rightarrow> SegmentedLog \<Rightarrow> SegmentedLog option" where
  "loadSegments env [] l = Some l"
| "loadSegments env (segment # rest) l = do {
     (r, l) \<leftarrow> (if seg_isOpen segment then loadOpenSegment env segment (logStartIndex l) l
                else loadClosedSegment env segment (logStartIndex l) l);
     case r of
       None \<Rightarrow> loadSegments env rest l
     | Some s \<Rightarrow> do {
         require (\<not> seg_isOpen s);
         require (map_of (segmentsByStartIndex l) (seg_start s) = None);
         loadSegments env rest
           (l\<lparr>segmentsByStartIndex := om_insert (seg_start s) s (segmentsByStartIndex l)\<rparr>)
       }
   }"

text \<open>No entry may be missing or be in two segments.\<close>

fun checkContiguous :: "nat \<Rightarrow> (nat, Segment) omap \<Rightarrow> unit option" where
  "checkContiguous nextIndex [] = Some ()"
| "checkContiguous nextIndex ((k, segment) # rest) = do {
     require (\<not> nextIndex < seg_start segment);
     require (\<not> seg_start segment < nextIndex);
     checkContiguous (seg_end segment + 1) rest
   }"

definition chooseMetadata :: "SLMetadata option \<Rightarrow> SLMetadata option \<Rightarrow> SLMetadata option" where
  "chooseMetadata metadata1 metadata2 =
     (case (metadata1, metadata2) of
        (Some m1, Some m2) \<Rightarrow> Some (if slm_version m1 > slm_version m2 then m1 else m2)
      | (Some m1, None) \<Rightarrow> Some m1
      | (None, m2) \<Rightarrow> m2)"

definition mkSegmentedLog :: "StorageEnv \<Rightarrow> Disk \<Rightarrow> SegmentedLog option" where
  "mkSegmentedLog env d = do {
     let (segments, p) = readSegmentFilenames (sort (fs_ls d))
                           (mkPreparedSegments (max (storageOpenSegments env) 1));
     (metadata1, d) \<leftarrow> readMetadata env ''metadata1'' d;
     (metadata2, d) \<leftarrow> readMetadata env ''metadata2'' d;
     metadata \<leftarrow> (case chooseMetadata metadata1 metadata2 of
         Some m \<Rightarrow> Some m
       | None \<Rightarrow> do {
           require (segments = []);
           Some \<lparr>slm_format_version = 0, slm_version = 0, slm_raft_metadata = None, slm_entries_start = 1\<rparr>
         });
     let l = \<lparr>sl_metadata = metadata,
              sl_raft_metadata = (case slm_raft_metadata metadata of
                  None \<Rightarrow> \<lparr>md_current_term = None, md_voted_for = None\<rparr> | Some r \<Rightarrow> r),
              sl_disk = d, openSegmentFile = None, logStartIndex = slm_entries_start metadata,
              segmentsByStartIndex = [], totalClosedSegmentBytes = 0, preparedSegments = p,
              sl_currentSync = \<lparr>sync_lastIndex = 0, sync_ops = []\<rparr>\<rparr>;
     l \<leftarrow> sl_updateMetadata env l;
     l \<leftarrow> sl_updateMetadata env l;
     l \<leftarrow> onDisk (fs_fsync dirFd) l;
     l \<leftarrow> loadSegments env segments l;
     (case segmentsByStartIndex l of
        [] \<Rightarrow> Some ()
      | (k, s) # rest \<Rightarrow> checkContiguous k (segmentsByStartIndex l));
     r \<leftarrow> segmentPreparerMain_iter env l;
     l \<leftarrow> (case r of Ready l \<Rightarrow> Some l | _ \<Rightarrow> None);
     l \<leftarrow> openNewSegment env l;
     assertInvariants env l;
     Some l
   }"

fun removePrepared :: "(string \<times> nat) list \<Rightarrow> Disk \<Rightarrow> Disk option" where
  "removePrepared [] d = Some d"
| "removePrepared ((filename, fd) # rest) d = do {
     d \<leftarrow> fs_removeFile filename d;
     d \<leftarrow> fs_close fd d;
     removePrepared rest d
   }"

text \<open>The destructor, once the preparer thread has ended.\<close>

definition sl_exit :: "SegmentedLog \<Rightarrow> SegmentedLog option" where
  "sl_exit l = do {
     l \<leftarrow> closeSegment l;
     let (prepared, p) = releaseAll (ps_exit (preparedSegments l));
     let l = l\<lparr>preparedSegments := p\<rparr>;
     l \<leftarrow> onDisk (removePrepared prepared) l;
     onDisk (fs_fsync dirFd) l
   }"

end
