(* ===== verification/LC_SegmentedLogInv.thy ===== *)
theory LC_SegmentedLogInv
  imports LC_SegmentedLog LC_Log
begin

text \<open>
  The invariant of the segmented log. It has the assertions of \<^verbatim>\<open>checkInvariants\<close> as a consequence and adds
  what the operations rely on: offsets are the sums of the sizes of the records before them, the open
  segment and the prepared ones have their files, and the names of future files are unused.
\<close>

section \<open>Segments\<close>

text \<open>The checksum algorithm works for all data.\<close>

definition env_ok :: "StorageEnv \<Rightarrow> bool" where
  "env_ok env \<longleftrightarrow> (\<forall>data. algorithm_ok (se_algorithms env) (se_checksumAlgorithm env) data)"

definition recordOf :: "StorageEnv \<Rightarrow> LogEntry \<Rightarrow> string" where
  "recordOf env e = the (serializeEntry env e)"

text \<open>Records that start at an offset and end at another one.\<close>

fun layout :: "StorageEnv \<Rightarrow> nat \<Rightarrow> (nat \<times> LogEntry) list \<Rightarrow> nat \<Rightarrow> bool" where
  "layout env off [] end \<longleftrightarrow> off = end"
| "layout env off ((o1, e) # es) end \<longleftrightarrow> o1 = off \<and> layout env (off + length (recordOf env e)) es end"

definition seg_ok :: "StorageEnv \<Rightarrow> Segment \<Rightarrow> bool" where
  "seg_ok env s \<longleftrightarrow>
     0 < seg_start s \<and> seg_end s + 1 = seg_start s + length (seg_entries s) \<and>
     (\<forall>i < length (seg_entries s). le_index (snd (seg_entries s ! i)) = Some (seg_start s + i)) \<and>
     layout env headerSize (seg_entries s) (seg_bytes s)"

definition closed_seg :: "StorageEnv \<Rightarrow> Segment \<Rightarrow> bool" where
  "closed_seg env s \<longleftrightarrow>
     seg_ok env s \<and> \<not> seg_isOpen s \<and> seg_entries s \<noteq> [] \<and> seg_filename s = makeClosedFilename s"

definition open_seg :: "StorageEnv \<Rightarrow> Segment \<Rightarrow> bool" where
  "open_seg env s \<longleftrightarrow> seg_ok env s \<and> seg_isOpen s \<and> prefix ''open-'' (seg_filename s)"

text \<open>Segments that follow each other, from a first index to the one after the last.\<close>

fun contig :: "nat \<Rightarrow> (nat, Segment) omap \<Rightarrow> nat \<Rightarrow> bool" where
  "contig n [] m \<longleftrightarrow> n = m"
| "contig n ((k, s) # rest) m \<longleftrightarrow> k = n \<and> seg_start s = n \<and> contig (seg_end s + 1) rest m"

definition seg_list :: "(nat, Segment) omap \<Rightarrow> LogEntry list" where
  "seg_list segs = concat (map (\<lambda>(k, s). map snd (seg_entries s)) segs)"

definition seg_sum :: "(nat, Segment) omap \<Rightarrow> nat" where
  "seg_sum segs = sum_list (map (\<lambda>(k, s). seg_bytes s) segs)"

lemma serializeEntry_recordOf:
  assumes "env_ok env"
  shows "serializeEntry env e = Some (recordOf env e)" "9 \<le> length (recordOf env e)"
proof -
  let ?d = "encode (se_encoding env) (se_entry env) e"
  obtain cs where "checksum_calculate (se_algorithms env) (se_checksumAlgorithm env)
      (htobe64 (length ?d) @ ?d) = Some (cs @ [CHR 0x00])"
    using calculate_form assms unfolding env_ok_def by metis
  then have s: "serializeEntry env e = Some (cs @ CHR 0x00 # htobe64 (length ?d) @ ?d)"
    by (simp add: serializeEntry_def serializeProto_def Let_def)
  then show "serializeEntry env e = Some (recordOf env e)" by (simp add: recordOf_def)
  show "9 \<le> length (recordOf env e)" using s by (simp add: recordOf_def)
qed

lemma serializeMetadata_Some:
  assumes "env_ok env"
  obtains r where "serializeMetadata env m = Some r"
proof -
  let ?d = "encode (se_encoding env) (se_metadata env) m"
  obtain cs where "checksum_calculate (se_algorithms env) (se_checksumAlgorithm env)
      (htobe64 (length ?d) @ ?d) = Some (cs @ [CHR 0x00])"
    using calculate_form assms unfolding env_ok_def by metis
  then show thesis using that by (simp add: serializeMetadata_def serializeProto_def Let_def)
qed

lemma layout_append: "layout env off (a @ b) e \<longleftrightarrow> (\<exists>m. layout env off a m \<and> layout env m b e)"
  by (induction a arbitrary: off) auto

lemma layout_le: "layout env off es e \<Longrightarrow> off \<le> e"
proof (induction es arbitrary: off)
  case (Cons x es)
  then show ?case by (cases x) (fastforce dest: add_leD1)
qed simp

lemma recordOf_nonempty: "env_ok env \<Longrightarrow> 0 < length (recordOf env e)"
  using serializeEntry_recordOf(2) [of env e] by linarith

lemma layout_nonempty:
  assumes "env_ok env" "layout env off es e" "es \<noteq> []"
  shows "off < e"
proof -
  obtain o1 x rest where es: "es = (o1, x) # rest" using assms(3) by (cases es) auto
  then have "off + length (recordOf env x) \<le> e" using assms(2) by (intro layout_le [of env _ rest]) simp
  then show ?thesis using recordOf_nonempty [OF assms(1), of x] by linarith
qed

text \<open>The offset of an entry is where the entries before it end.\<close>

lemma layout_take:
  "layout env off es e \<Longrightarrow> i < length es \<Longrightarrow> layout env off (take i es) (fst (es ! i))"
proof (induction es arbitrary: off i)
  case (Cons x es)
  then show ?case by (cases x; cases i) auto
qed simp

lemma checkOffsets_layout:
  assumes "env_ok env"
  shows "layout env off es e \<Longrightarrow> (\<forall>i < length es. le_index (snd (es ! i)) = Some (start + j + i)) \<Longrightarrow>
    (if j = 0 then off = headerSize else lastOff < off) \<Longrightarrow> checkOffsets start j lastOff es"
proof (induction es arbitrary: off j lastOff)
  case (Cons x es)
  obtain o1 en where x: "x = (o1, en)" by fastforce
  have "o1 < off + length (recordOf env en)" 
    using Cons.prems(1) recordOf_nonempty [OF assms, of en] by (simp add: x)
  moreover have "le_index (snd (es ! i)) = Some (start + (j + 1) + i)" if "i < length es" for i
    using Cons.prems(2) [rule_format, of "Suc i"] that by simp
  ultimately have "checkOffsets start (j + 1) o1 es"
    using Cons.IH [of "off + length (recordOf env en)" "j + 1" o1] Cons.prems(1) by (simp add: x)
  then show ?case using Cons.prems Cons.prems(2) [rule_format, of 0] by (auto simp: x)
qed simp

lemma contig_append: "contig n (xs @ ys) m \<longleftrightarrow> (\<exists>k. contig n xs k \<and> contig k ys m)"
  by (induction xs arbitrary: n) auto

lemma seg_list_append [simp]: "seg_list (xs @ ys) = seg_list xs @ seg_list ys"
  by (simp add: seg_list_def)

lemma seg_list_simps [simp]:
  "seg_list [] = []" "seg_list ((k, s) # rest) = map snd (seg_entries s) @ seg_list rest"
  by (simp_all add: seg_list_def)

lemma seg_sum_append [simp]: "seg_sum (xs @ ys) = seg_sum xs + seg_sum ys"
  by (simp add: seg_sum_def)

lemma seg_sum_simps [simp]: "seg_sum [] = 0" "seg_sum ((k, s) # rest) = seg_bytes s + seg_sum rest"
  by (simp_all add: seg_sum_def)

abbreviation all_segs :: "(Segment \<Rightarrow> bool) \<Rightarrow> (nat, Segment) omap \<Rightarrow> bool" where
  "all_segs P segs \<equiv> \<forall>(k, s) \<in> set segs. P s"

lemma all_segs_last: "all_segs P segs \<Longrightarrow> segs \<noteq> [] \<Longrightarrow> P (snd (last segs))"
  using last_in_set [of segs] by (fastforce split: prod.splits)

lemma contig_length:
  "contig n segs m \<Longrightarrow> all_segs (seg_ok env) segs \<Longrightarrow> m = n + length (seg_list segs)"
proof (induction segs arbitrary: n)
  case (Cons x segs)
  obtain k s where x: "x = (k, s)" by fastforce
  have "contig (seg_end s + 1) segs m" "all_segs (seg_ok env) segs" using Cons.prems by (auto simp: x)
  then have "m = seg_end s + 1 + length (seg_list segs)" using Cons.IH by blast
  then show ?case using Cons.prems by (simp add: x seg_ok_def)
qed simp

lemma contig_le: "contig n segs m \<Longrightarrow> all_segs (seg_ok env) segs \<Longrightarrow> n \<le> m"
  using contig_length by fastforce

lemma contig_keys:
  "contig n segs m \<Longrightarrow> all_segs (seg_ok env) segs \<Longrightarrow> all_segs (\<lambda>s. seg_entries s \<noteq> []) segs \<Longrightarrow>
   x \<in> fst ` set segs \<Longrightarrow> n \<le> x \<and> x < m"
proof (induction segs arbitrary: n)
  case (Cons y segs)
  obtain k s where y: "y = (k, s)" by fastforce
  have "n < seg_end s + 1" using Cons.prems by (auto simp: y seg_ok_def)
  moreover have "seg_end s + 1 \<le> m" using Cons.prems by (intro contig_le [of "seg_end s + 1" segs m env]) (auto simp: y)
  moreover have "seg_end s + 1 \<le> x \<and> x < m" if "x \<in> fst ` set segs"
    using that Cons.prems by (intro Cons.IH) (auto simp: y)
  moreover have "x = n \<or> x \<in> fst ` set segs" using Cons.prems by (simp add: y)
  ultimately show ?case by (elim disjE) (simp, force)
qed simp

lemma contig_key: "contig n segs m \<Longrightarrow> (k, s) \<in> set segs \<Longrightarrow> k = seg_start s"
  by (induction segs arbitrary: n) auto

lemma contig_wf:
  "contig n segs m \<Longrightarrow> all_segs (seg_ok env) segs \<Longrightarrow> all_segs (\<lambda>s. seg_entries s \<noteq> []) segs \<Longrightarrow> om_wf segs"
proof (induction segs arbitrary: n)
  case (Cons y segs)
  obtain k s where y: "y = (k, s)" by fastforce
  have "n < seg_end s + 1" using Cons.prems by (auto simp: y seg_ok_def)
  moreover have "\<forall>x \<in> fst ` set segs. seg_end s + 1 \<le> x"
    using contig_keys [of "seg_end s + 1" segs m] Cons.prems by (auto simp: y)
  moreover have "om_wf segs" using Cons.prems by (intro Cons.IH [of "seg_end s + 1"]) (auto simp: y)
  ultimately show ?case using Cons.prems(1) by (force simp: y om_wf_Cons)
qed simp

lemma closed_seg_ok: "all_segs (closed_seg env) xs \<Longrightarrow> all_segs (seg_ok env) xs"
  and closed_seg_ne: "all_segs (closed_seg env) xs \<Longrightarrow> all_segs (\<lambda>s. seg_entries s \<noteq> []) xs"
  by (auto simp: closed_seg_def)

text \<open>Looking for the segment of an index finds the one that contains it.\<close>

lemma floor_contig:
  assumes "contig n segs m" "all_segs (seg_ok env) segs" "n \<le> i" "i < m"
  shows "\<exists>k s. om_floor i segs = Some (k, s) \<and> seg_start s \<le> i \<and> i \<le> seg_end s \<and>
    i - seg_start s < length (seg_entries s) \<and> snd (seg_entries s ! (i - seg_start s)) = seg_list segs ! (i - n)"
  using assms
proof (induction segs arbitrary: n)
  case (Cons y segs)
  obtain k s where y: "y = (k, s)" by fastforce
  have ok: "k = n" "seg_start s = n" "seg_end s + 1 = n + length (seg_entries s)"
    and rest: "contig (seg_end s + 1) segs m" "all_segs (seg_ok env) segs"
    using Cons.prems by (auto simp: y seg_ok_def)
  show ?case
  proof (cases "i \<le> seg_end s")
    case True
    have "j < fst x" if mem: "x \<in> set segs" and j: "j \<le> seg_end s" for x j
    proof -
      obtain as bs where "segs = as @ x # bs" using split_list [OF mem] by blast
      then obtain q where "contig (seg_end s + 1) as q" "fst x = q" "all_segs (seg_ok env) as"
        using rest by (cases x) (auto simp: contig_append)
      then show ?thesis using contig_le [of "seg_end s + 1" as q env] j by simp
    qed
    then have "filter (\<lambda>e. fst e \<le> i) segs = []" using True by (auto simp: filter_empty_conv not_le)
    then have "om_floor i ((k, s) # segs) = Some (k, s)"
      using ok Cons.prems(3) by (simp add: om_floor_def)
    then show ?thesis using True ok Cons.prems(3) by (auto simp: y nth_append)
  next
    case False
    then obtain k' s' where IH: "om_floor i segs = Some (k', s')" "seg_start s' \<le> i" "i \<le> seg_end s'"
        "i - seg_start s' < length (seg_entries s')"
        "snd (seg_entries s' ! (i - seg_start s')) = seg_list segs ! (i - (seg_end s + 1))"
      using Cons.IH [of "seg_end s + 1"] rest Cons.prems(4) by auto
    have "om_floor i ((k, s) # segs) = Some (k', s')"
      using IH(1) by (auto simp: om_floor_def Let_def split: if_splits)
    moreover have "i - n - length (seg_entries s) = i - (seg_end s + 1)" using ok False by simp
    ultimately show ?thesis using IH ok False by (auto simp: y nth_append)
  qed
qed simp

section \<open>The whole log\<close>

text \<open>The segments in memory: closed ones, then the open one; the log starts in the first or right behind it.\<close>

definition sl_shape :: "StorageEnv \<Rightarrow> SegmentedLog \<Rightarrow> nat \<Rightarrow> (nat, Segment) omap \<Rightarrow> Segment \<Rightarrow> bool" where
  "sl_shape env l n xs os \<longleftrightarrow>
     segmentsByStartIndex l = xs @ [(seg_start os, os)] \<and> contig n xs (seg_start os) \<and>
     all_segs (closed_seg env) xs \<and> open_seg env os \<and> openSegmentFile l \<noteq> None \<and>
     n \<le> logStartIndex l \<and> logStartIndex l \<le> seg_end (snd (hd (xs @ [(seg_start os, os)]))) + 1 \<and>
     totalClosedSegmentBytes l = seg_sum xs"

text \<open>The monitor of prepared segments, and the files on disk that memory refers to.\<close>

definition prepared_ok :: "Disk \<Rightarrow> PreparedSegments \<Rightarrow> bool" where
  "prepared_ok d p \<longleftrightarrow>
     \<not> ps_exiting p \<and> 0 < ps_demanded p + length (openSegments p) \<and>
     (\<forall>k > filenameCounter p. map_of (d_names d) (openFilename k) = None) \<and>
     distinct (map fst (openSegments p)) \<and> distinct (map snd (openSegments p)) \<and>
     (\<forall>(name, fd) \<in> set (openSegments p). prefix ''open-'' name \<and>
        map_of (d_names d) name \<noteq> None \<and> fd \<in> dom (d_fds d) \<and> fd \<noteq> dirFd)"

definition disk_wf :: "Disk \<Rightarrow> bool" where
  "disk_wf d \<longleftrightarrow> dirFd < d_next d \<and> (\<forall>fd \<in> dom (d_fds d). fd < d_next d)"

definition has_file :: "Disk \<Rightarrow> string \<Rightarrow> nat option \<Rightarrow> bool" where
  "has_file d name f \<longleftrightarrow> map_of (d_names d) name \<noteq> None \<and>
     (case f of None \<Rightarrow> False | Some fd \<Rightarrow> fd \<in> dom (d_fds d) \<and> fd \<noteq> dirFd)"

definition off_queue :: "PreparedSegments \<Rightarrow> string \<Rightarrow> nat option \<Rightarrow> bool" where
  "off_queue p name f \<longleftrightarrow> name \<notin> fst ` set (openSegments p) \<and>
     (case f of None \<Rightarrow> True | Some fd \<Rightarrow> fd \<notin> snd ` set (openSegments p))"

text \<open>The file of the open segment, which is none of the prepared ones.\<close>

definition has_head :: "SegmentedLog \<Rightarrow> Segment \<Rightarrow> bool" where
  "has_head l os \<longleftrightarrow> has_file (sl_disk l) (seg_filename os) (openSegmentFile l) \<and>
     off_queue (preparedSegments l) (seg_filename os) (openSegmentFile l)"

definition sl_inv :: "StorageEnv \<Rightarrow> SegmentedLog \<Rightarrow> bool" where
  "sl_inv env l \<longleftrightarrow> (\<exists>n xs os. sl_shape env l n xs os \<and> has_head l os) \<and>
     disk_wf (sl_disk l) \<and> prepared_ok (sl_disk l) (preparedSegments l)"

definition sl_stored :: "SegmentedLog \<Rightarrow> nat \<times> LogEntry list" where
  "sl_stored l =
     (logStartIndex l,
      drop (logStartIndex l - seg_start (snd (hd (segmentsByStartIndex l)))) (seg_list (segmentsByStartIndex l)))"

end
