(* ===== verification/LC_SegmentedLogOps.thy ===== *)
theory LC_SegmentedLogOps
  imports LC_SegmentedLogInv
begin

text \<open>
  What the operations of the segmented log do to its invariant and to the entries it stores. Every lemma
  also shows that the operation returns: no assertion fails, no file is missing and the loop of
  \<^verbatim>\<open>truncateSuffix\<close> ends.
\<close>

lemma sl_invI:
  "sl_shape env l n xs os \<Longrightarrow> has_head l os \<Longrightarrow>
   disk_wf (sl_disk l) \<Longrightarrow> prepared_ok (sl_disk l) (preparedSegments l) \<Longrightarrow> sl_inv env l"
  unfolding sl_inv_def by blast

lemma sl_invE:
  assumes "sl_inv env l"
  obtains n xs os where "sl_shape env l n xs os" "has_head l os"
    "disk_wf (sl_disk l)" "prepared_ok (sl_disk l) (preparedSegments l)"
  using assms unfolding sl_inv_def by blast

section \<open>Observers\<close>

lemma shape_open:
  assumes "sl_shape env l n xs os"
  shows "getOpenSegment l = Some os" "sl_getLastLogIndex l = seg_end os" "seg_ok env os"
  using assms by (simp_all add: sl_shape_def getOpenSegment_def sl_getLastLogIndex_def open_seg_def)

lemma shape_segs:
  assumes "sl_shape env l n xs os"
  shows "contig n (segmentsByStartIndex l) (seg_end os + 1)"
    "all_segs (seg_ok env) (segmentsByStartIndex l)"
  using assms by (auto simp: sl_shape_def open_seg_def closed_seg_def contig_append)

lemma shape_head:
  assumes "sl_shape env l n xs os"
  shows "seg_start (snd (hd (segmentsByStartIndex l))) = n" "0 < n"
proof -
  obtain k s rest where s: "segmentsByStartIndex l = (k, s) # rest"
    using assms by (cases "segmentsByStartIndex l") (auto simp: sl_shape_def)
  then show "seg_start (snd (hd (segmentsByStartIndex l))) = n" "0 < n"
    using shape_segs [OF assms] by (auto simp: seg_ok_def)
qed

text \<open>What is stored, by the segments.\<close>

lemma shape_stored:
  assumes "sl_shape env l n xs os"
  shows "sl_stored l = (logStartIndex l, drop (logStartIndex l - n) (seg_list xs @ map snd (seg_entries os)))"
    and "seg_end os + 1 = n + length (seg_list xs @ map snd (seg_entries os))"
    and "n \<le> logStartIndex l" and "logStartIndex l \<le> seg_end os + 1"
proof -
  have segs: "segmentsByStartIndex l = xs @ [(seg_start os, os)]" using assms by (simp add: sl_shape_def)
  show "sl_stored l = (logStartIndex l, drop (logStartIndex l - n) (seg_list xs @ map snd (seg_entries os)))"
    using shape_head(1) [OF assms] by (simp add: sl_stored_def) (simp add: segs)
  show "seg_end os + 1 = n + length (seg_list xs @ map snd (seg_entries os))"
    using contig_length [OF shape_segs [OF assms]] by (simp add: segs)
  show "n \<le> logStartIndex l" using assms by (simp add: sl_shape_def)
  show "logStartIndex l \<le> seg_end os + 1"
  proof (cases xs)
    case Nil
    then show ?thesis using assms by (simp add: sl_shape_def)
  next
    case (Cons x ys)
    obtain k s where x: "x = (k, s)" by fastforce
    have c: "contig (seg_end s + 1) (ys @ [(seg_start os, os)]) (seg_end os + 1)"
      and a: "all_segs (seg_ok env) (ys @ [(seg_start os, os)])"
      using shape_segs [OF assms] by (simp_all add: segs Cons x)
    have "seg_end s + 1 \<le> seg_end os + 1" by (rule contig_le [OF c a])
    moreover have "logStartIndex l \<le> seg_end s + 1" using assms by (simp add: sl_shape_def Cons x)
    ultimately show ?thesis by simp
  qed
qed

lemma shape_last_law:
  assumes "sl_shape env l n xs os"
  shows "sl_getLastLogIndex l + 1 = fst (sl_stored l) + length (snd (sl_stored l))"
  using shape_stored [OF assms] shape_open(2) [OF assms] by simp

lemma shape_getEntry:
  assumes "sl_shape env l n xs os"
  shows "sl_getEntry l i =
    (if fst (sl_stored l) \<le> i \<and> i < fst (sl_stored l) + length (snd (sl_stored l))
     then Some (snd (sl_stored l) ! (i - fst (sl_stored l))) else None)"
proof (cases "logStartIndex l \<le> i \<and> i \<le> seg_end os")
  case True
  note s = shape_stored [OF assms]
  have "n \<le> i" "i < seg_end os + 1" using True s by simp_all
  then obtain k sg where f: "om_floor i (segmentsByStartIndex l) = Some (k, sg)" "seg_start sg \<le> i"
      "i \<le> seg_end sg" "i - seg_start sg < length (seg_entries sg)"
      "snd (seg_entries sg ! (i - seg_start sg)) = seg_list (segmentsByStartIndex l) ! (i - n)"
    using floor_contig [OF shape_segs [OF assms]] by blast
  have "seg_list (segmentsByStartIndex l) = seg_list xs @ map snd (seg_entries os)"
    using assms by (simp add: sl_shape_def)
  moreover have "logStartIndex l - n \<le> length (seg_list xs @ map snd (seg_entries os))"
    using s by linarith
  ultimately have "seg_list (segmentsByStartIndex l) ! (i - n) = snd (sl_stored l) ! (i - logStartIndex l)"
    using True s by (simp del: drop_append length_append)
  then show ?thesis
    using True f shape_open(2) [OF assms] shape_last_law [OF assms] s(1)
    by (simp add: sl_getEntry_def sl_getLogStartIndex_def)
next
  case False
  then have "sl_getEntry l i = None"
    using shape_open(2) [OF assms] by (auto simp: sl_getEntry_def sl_getLogStartIndex_def)
  then show ?thesis
    using False shape_last_law [OF assms] shape_open(2) [OF assms] shape_stored(1) [OF assms] by auto
qed

text \<open>The invariant implies the assertions of a debug build.\<close>

lemma checkSegment_ok: "env_ok env \<Longrightarrow> seg_ok env s \<Longrightarrow> checkSegment (seg_start s, s)"
  using checkOffsets_layout [of env headerSize "seg_entries s" "seg_bytes s" "seg_start s" 0]
  by (auto simp: checkSegment_def seg_ok_def)

lemma checkSegments_ok:
  assumes "env_ok env" "open_seg env os"
  shows "contig n xs (seg_start os) \<Longrightarrow> all_segs (closed_seg env) xs \<Longrightarrow>
    checkSegments (xs @ [(seg_start os, os)]) = Some (seg_sum xs)"
proof (induction xs arbitrary: n)
  case Nil
  have "headerSize \<le> seg_bytes os" using assms(2) layout_le by (auto simp: open_seg_def seg_ok_def)
  then show ?case using assms checkSegment_ok by (auto simp: open_seg_def seg_ok_def)
next
  case (Cons x xs)
  obtain k s where x: "x = (k, s)" by fastforce
  have c: "closed_seg env s" and k: "k = seg_start s" and rest: "contig (seg_end s + 1) xs (seg_start os)"
    using Cons.prems by (auto simp: x)
  have IH: "checkSegments (xs @ [(seg_start os, os)]) = Some (seg_sum xs)"
    using Cons.IH [OF rest] Cons.prems by (auto simp: x)
  have b: "headerSize < seg_bytes s" "seg_start s \<le> seg_end s"
    using c layout_nonempty [OF assms(1), of headerSize "seg_entries s" "seg_bytes s"]
    by (cases "seg_entries s"; simp add: closed_seg_def seg_ok_def)+
  obtain k' s' rest' where ys: "xs @ [(seg_start os, os)] = (k', s') # rest'" "seg_start s' = seg_end s + 1"
    using rest by (cases xs) auto
  show ?case
    using IH b c checkSegment_ok [OF assms(1), of s] by (simp add: x k ys closed_seg_def)
qed

lemma shape_check: "env_ok env \<Longrightarrow> sl_shape env l n xs os \<Longrightarrow> checkInvariants l"
  using checkSegments_ok [of env os n xs] shape_head(1) [of env l n xs os]
  by (auto simp: sl_shape_def checkInvariants_def)

lemma shape_assert [simp]:
  "env_ok env \<Longrightarrow> sl_shape env l n xs os \<Longrightarrow> assertInvariants env l = Some ()"
  using shape_check by (simp add: assertInvariants_def require_def)

section \<open>Files\<close>

text \<open>Everything that is named or open stays so, and keeps its bytes.\<close>

definition disk_ext :: "Disk \<Rightarrow> Disk \<Rightarrow> bool" where
  "disk_ext d d' \<longleftrightarrow>
     (\<forall>name i. map_of (d_names d) name = Some i \<longrightarrow> map_of (d_names d') name = Some i) \<and>
     (\<forall>fd \<in> dom (d_fds d). d_fds d' fd = d_fds d fd)"

lemma disk_ext_refl [simp]: "disk_ext d d"
  by (simp add: disk_ext_def)

lemma has_file_ext: "disk_ext d d' \<Longrightarrow> has_file d name f \<Longrightarrow> has_file d' name f"
  by (auto simp: disk_ext_def has_file_def split: option.splits) (metis domI domIff)+

lemma openFilename_slash [simp]: "\<not> prefix ''/'' (openFilename k)"
  by (simp add: openFilename_def)

lemma prefix_openFilename [simp]: "prefix ''open-'' (openFilename k)"
  by (simp add: openFilename_def)

text \<open>A prepared segment is a new file with a header and zeros.\<close>

definition preparedDisk :: "StorageEnv \<Rightarrow> string \<Rightarrow> Disk \<Rightarrow> Disk" where
  "preparedDisk env name d =
     (let i = d_next d; bytes = segmentHeader @ zeros (MAX_SEGMENT_SIZE env - 1)
      in d\<lparr>d_names := om_set name i (d_names d), d_dnames := om_set name i (d_names d),
           d_data := (d_data d)(i := bytes), d_durable := (d_durable d)(i := bytes),
           d_fds := (d_fds d)(i \<mapsto> (i, 1)), d_next := i + 1\<rparr>)"

lemma zeros_simps [simp]: "zeros 0 = []" "zeros (Suc n) = CHR 0x00 # zeros n" "length (zeros n) = n"
  "drop k (zeros n) = zeros (n - k)"
  by (simp_all add: zeros_def)

lemma prepareNewSegment_eq:
  assumes "map_of (d_names d) (openFilename k) = None" "disk_wf d"
  shows "prepareNewSegment env k d = Some ((openFilename k, d_next d), preparedDisk env (openFilename k) d)"
  using assms
  by (simp add: prepareNewSegment_def fs_openFile_def fs_openat_def fs_allocate_def fs_write_def fs_fsync_def
      Let_def preparedDisk_def disk_wf_def overwrite_def segmentHeader_def)

lemma preparedDisk_ext:
  "disk_wf d \<Longrightarrow> map_of (d_names d) name = None \<Longrightarrow> disk_ext d (preparedDisk env name d)"
  by (auto simp: disk_ext_def preparedDisk_def Let_def map_of_om_set disk_wf_def)

lemma preparedDisk_wf: "disk_wf d \<Longrightarrow> disk_wf (preparedDisk env name d)"
  by (auto simp: disk_wf_def preparedDisk_def Let_def intro: less_SucI)

lemma preparedDisk_new:
  "disk_wf d \<Longrightarrow> has_file (preparedDisk env name d) name (Some (d_next d))"
  by (simp add: has_file_def preparedDisk_def Let_def map_of_om_set disk_wf_def)

lemma prepared_ok_ext:
  assumes "prepared_ok d p" "disk_ext d d'"
    "\<And>k. k > filenameCounter p \<Longrightarrow> map_of (d_names d') (openFilename k) = map_of (d_names d) (openFilename k)"
  shows "prepared_ok d' p"
proof -
  have "map_of (d_names d') name \<noteq> None \<and> fd \<in> dom (d_fds d')"
    if "map_of (d_names d) name \<noteq> None" "fd \<in> dom (d_fds d)" for name fd
    using assms(2) that unfolding disk_ext_def by (metis domIff not_None_eq)
  then show ?thesis using assms(1,3) unfolding prepared_ok_def by fastforce
qed

text \<open>An iteration of the preparer, when it has something to do.\<close>

lemma preparer_step:
  assumes ok: "prepared_ok (sl_disk l) (preparedSegments l)" "disk_wf (sl_disk l)"
    and dem: "0 < ps_demanded (preparedSegments l)"
  obtains p where "segmentPreparerMain_iter env l = Some (Ready (l\<lparr>sl_disk :=
        preparedDisk env (openFilename (filenameCounter (preparedSegments l) + 1)) (sl_disk l),
      preparedSegments := p\<rparr>))"
    "p = (preparedSegments l)\<lparr>ps_demanded := ps_demanded (preparedSegments l) - 1,
      filenameCounter := filenameCounter (preparedSegments l) + 1,
      openSegments := openSegments (preparedSegments l) @
        [(openFilename (filenameCounter (preparedSegments l) + 1), d_next (sl_disk l))]\<rparr>"
    "prepared_ok (preparedDisk env (openFilename (filenameCounter (preparedSegments l) + 1)) (sl_disk l)) p"
proof -
  let ?p = "preparedSegments l" and ?d = "sl_disk l"
  let ?k = "filenameCounter ?p + 1"
  define p where "p = ?p\<lparr>ps_demanded := ps_demanded ?p - 1, filenameCounter := ?k,
    openSegments := openSegments ?p @ [(openFilename ?k, d_next ?d)]\<rparr>"
  have none: "map_of (d_names ?d) (openFilename ?k) = None" using ok by (simp add: prepared_ok_def)
  have iter: "segmentPreparerMain_iter env l =
      Some (Ready (l\<lparr>sl_disk := preparedDisk env (openFilename ?k) ?d, preparedSegments := p\<rparr>))"
    using ok dem prepareNewSegment_eq [OF none ok(2)]
    by (simp add: segmentPreparerMain_iter_def waitForDemand_def prepared_ok_def submitOpenSegment_def p_def)
  have ext: "disk_ext ?d (preparedDisk env (openFilename ?k) ?d)"
    by (rule preparedDisk_ext [OF ok(2) none])
  have "prepared_ok (preparedDisk env (openFilename ?k) ?d) (?p\<lparr>filenameCounter := ?k\<rparr>)"
  proof (rule prepared_ok_ext [OF _ ext])
    show "prepared_ok ?d (?p\<lparr>filenameCounter := ?k\<rparr>)" using ok(1) by (simp add: prepared_ok_def)
    show "map_of (d_names (preparedDisk env (openFilename ?k) ?d)) (openFilename j) =
        map_of (d_names ?d) (openFilename j)" if "j > filenameCounter (?p\<lparr>filenameCounter := ?k\<rparr>)" for j
      using that openFilename_inj [of j ?k] by (simp add: preparedDisk_def Let_def map_of_om_set)
  qed
  moreover have "openFilename ?k \<notin> fst ` set (openSegments ?p)"
    using ok(1) none unfolding prepared_ok_def by fastforce
  moreover have "d_next ?d \<notin> snd ` set (openSegments ?p)"
    using ok unfolding prepared_ok_def disk_wf_def by fastforce
  ultimately have "prepared_ok (preparedDisk env (openFilename ?k) ?d) p"
    using preparedDisk_new [OF ok(2), of env "openFilename ?k"]
    by (simp add: prepared_ok_def p_def has_file_def)
  then show thesis using that [OF iter p_def] by blast
qed

text \<open>A prepared file is always obtained, from the queue or from the preparer.\<close>

lemma takePrepared_ok:
  assumes ok: "prepared_ok (sl_disk l) (preparedSegments l)" "disk_wf (sl_disk l)"
  obtains name fd d p where
    "takePrepared env l = Some ((name, fd), l\<lparr>sl_disk := d, preparedSegments := p\<rparr>)"
    "prefix ''open-'' name" "has_file d name (Some fd)" "off_queue p name (Some fd)" "disk_ext (sl_disk l) d" "disk_wf d" "prepared_ok d p"
proof (cases "openSegments (preparedSegments l)")
  case Nil
  let ?k = "filenameCounter (preparedSegments l) + 1"
  let ?d = "preparedDisk env (openFilename ?k) (sl_disk l)"
  have dem: "0 < ps_demanded (preparedSegments l)" and ex: "\<not> ps_exiting (preparedSegments l)"
    using ok(1) Nil by (simp_all add: prepared_ok_def)
  obtain p where it: "segmentPreparerMain_iter env l = Some (Ready (l\<lparr>sl_disk := ?d, preparedSegments := p\<rparr>))"
    and p: "p = (preparedSegments l)\<lparr>ps_demanded := ps_demanded (preparedSegments l) - 1,
      filenameCounter := ?k, openSegments := openSegments (preparedSegments l) @ [(openFilename ?k, d_next (sl_disk l))]\<rparr>"
    and pok: "prepared_ok ?d p"
    using preparer_step [OF ok dem, of env] .
  define p' where "p' = p\<lparr>openSegments := [], ps_demanded := ps_demanded p + 1\<rparr>"
  have "takePrepared env l = Some ((openFilename ?k, d_next (sl_disk l)), l\<lparr>sl_disk := ?d, preparedSegments := p'\<rparr>)"
    using Nil ex it p by (simp add: takePrepared_def waitForOpenSegment_def p'_def)
  moreover have "map_of (d_names (sl_disk l)) (openFilename ?k) = None" using ok(1) by (simp add: prepared_ok_def)
  moreover have "prepared_ok ?d p'" using pok by (simp add: prepared_ok_def p'_def)
  moreover have "off_queue p' name f" for name f by (simp add: off_queue_def p'_def split: option.split)
  ultimately show thesis
    using that [where name = "openFilename ?k" and fd = "d_next (sl_disk l)" and d = ?d and p = p']
      preparedDisk_new [OF ok(2)] preparedDisk_ext [OF ok(2)] preparedDisk_wf [OF ok(2)] by simp
next
  case (Cons s ss)
  obtain name fd where s: "s = (name, fd)" by fastforce
  define p where "p = (preparedSegments l)\<lparr>openSegments := ss, ps_demanded := ps_demanded (preparedSegments l) + 1\<rparr>"
  have ex: "\<not> ps_exiting (preparedSegments l)" using ok(1) by (simp add: prepared_ok_def)
  then have "takePrepared env l = Some ((name, fd), l\<lparr>preparedSegments := p\<rparr>)"
    using Cons by (simp add: takePrepared_def waitForOpenSegment_def p_def s)
  then have "takePrepared env l = Some ((name, fd), l\<lparr>sl_disk := sl_disk l, preparedSegments := p\<rparr>)" by simp
  then show thesis
    using that [where name = name and fd = fd and d = "sl_disk l" and p = p] ok Cons
    by (auto simp: prepared_ok_def p_def s has_file_def off_queue_def)
qed

text \<open>The queue of prepared segments with files, and an unoccupied head, as needed to open a new segment.\<close>

definition ready :: "StorageEnv \<Rightarrow> SegmentedLog \<Rightarrow> nat \<Rightarrow> (nat, Segment) omap \<Rightarrow> nat \<Rightarrow> bool" where
  "ready env l n xs m \<longleftrightarrow>
     segmentsByStartIndex l = xs \<and> openSegmentFile l = None \<and> contig n xs m \<and> 0 < m \<and>
     all_segs (closed_seg env) xs \<and> totalClosedSegmentBytes l = seg_sum xs \<and>
     n \<le> logStartIndex l \<and> (if xs = [] then logStartIndex l = m else logStartIndex l \<le> seg_end (snd (hd xs)) + 1) \<and>
     disk_wf (sl_disk l) \<and> prepared_ok (sl_disk l) (preparedSegments l)"

lemma ready_last: "ready env l n xs m \<Longrightarrow> sl_getLastLogIndex l + 1 = m"
  unfolding ready_def
  by (cases xs rule: rev_cases)
    (auto simp: sl_getLastLogIndex_def getOpenSegment_def contig_append)

lemma openNewSegment_ok:
  assumes r: "ready env l n xs m"
  obtains os fd d p where "openNewSegment env l = Some (l\<lparr>sl_disk := d, preparedSegments := p,
        openSegmentFile := Some fd, segmentsByStartIndex := xs @ [(m, os)]\<rparr>)"
    "seg_isOpen os" "seg_start os = m" "seg_end os + 1 = m" "seg_bytes os = headerSize" "seg_entries os = []"
    "prefix ''open-'' (seg_filename os)" "has_file d (seg_filename os) (Some fd)" "off_queue p (seg_filename os) (Some fd)"
    "disk_ext (sl_disk l) d" "disk_wf d" "prepared_ok d p"
proof -
  have ok: "prepared_ok (sl_disk l) (preparedSegments l)" "disk_wf (sl_disk l)"
    using r by (simp_all add: ready_def)
  obtain name fd d p where
    tp: "takePrepared env l = Some ((name, fd), l\<lparr>sl_disk := d, preparedSegments := p\<rparr>)"
    and f: "prefix ''open-'' name" "has_file d name (Some fd)" "off_queue p name (Some fd)" "disk_ext (sl_disk l) d" "disk_wf d" "prepared_ok d p"
    using takePrepared_ok [OF ok, of env] .
  define os where "os = \<lparr>seg_isOpen = True, seg_start = m, seg_end = m - 1, seg_bytes = headerSize,
       seg_filename = name, seg_entries = []\<rparr>"
  have segs: "segmentsByStartIndex l = xs" "openSegmentFile l = None" using r by (simp_all add: ready_def)
  have "\<not> seg_isOpen (snd (last xs))" if "xs \<noteq> []"
    using r that all_segs_last [of xs "closed_seg env"] by (simp add: ready_def closed_seg_def)
  moreover have keys: "\<forall>x \<in> fst ` set xs. x < m"
    using r contig_keys [of n xs m env] closed_seg_ok [of xs env] closed_seg_ne [of xs env]
    by (auto simp: ready_def)
  then have "map_of xs m = None" by (auto simp: map_of_eq_None_iff)
  then have "om_insert m os xs = xs @ [(m, os)]"
    using om_set_append [OF keys] by (simp add: om_insert_def)
  ultimately have "openNewSegment env l = Some (l\<lparr>sl_disk := d, preparedSegments := p,
        openSegmentFile := Some fd, segmentsByStartIndex := xs @ [(m, os)]\<rparr>)"
    using ready_last [OF r] tp segs by (auto simp: openNewSegment_def Let_def os_def)
  moreover have "0 < m" using r by (simp add: ready_def)
  ultimately show thesis using that [where d = d and p = p and fd = fd and os = os] f by (simp add: os_def)
qed

text \<open>After opening a new segment the log is complete again.\<close>

lemma openNewSegment_shape:
  assumes r: "ready env l n xs m" and o: "openNewSegment env l = Some l'"
  shows "\<exists>os. sl_shape env l' n xs os \<and> has_head l' os \<and>
      seg_entries os = [] \<and> seg_start os = m"
    and "sl_inv env l'" and "disk_ext (sl_disk l) (sl_disk l')"
    and "logStartIndex l' = logStartIndex l"
    and "sl_metadata l' = sl_metadata l" and "sl_raft_metadata l' = sl_raft_metadata l"
    and "sl_currentSync l' = sl_currentSync l"
proof -
  obtain os fd d p where l': "openNewSegment env l = Some (l\<lparr>sl_disk := d, preparedSegments := p,
        openSegmentFile := Some fd, segmentsByStartIndex := xs @ [(m, os)]\<rparr>)"
    and os': "seg_isOpen os" "seg_start os = m" "seg_end os + 1 = m" "seg_bytes os = headerSize" "seg_entries os = []"
    and f: "prefix ''open-'' (seg_filename os)" "has_file d (seg_filename os) (Some fd)" "off_queue p (seg_filename os) (Some fd)"
      "disk_ext (sl_disk l) d" "disk_wf d" "prepared_ok d p"
    using openNewSegment_ok [OF r] .
  have e: "l' = l\<lparr>sl_disk := d, preparedSegments := p, openSegmentFile := Some fd,
      segmentsByStartIndex := xs @ [(m, os)]\<rparr>" using l' o by simp
  have m: "0 < m" using r by (simp add: ready_def)
  have "open_seg env os" using os' f(1) m by (simp add: open_seg_def seg_ok_def)
  moreover have "logStartIndex l \<le> seg_end (snd (hd (xs @ [(m, os)]))) + 1"
    using r os'(3) by (cases xs) (auto simp: ready_def)
  ultimately have s: "sl_shape env l' n xs os"
    using r os' by (simp add: sl_shape_def ready_def e)
  show ex: "\<exists>os. sl_shape env l' n xs os \<and> has_head l' os \<and>
      seg_entries os = [] \<and> seg_start os = m"
    using s f(2,3) os' by (auto simp: e has_head_def)
  show "sl_inv env l'" using ex f by (auto simp: sl_inv_def e)
  show "disk_ext (sl_disk l) (sl_disk l')" "logStartIndex l' = logStartIndex l"
    "sl_metadata l' = sl_metadata l" "sl_raft_metadata l' = sl_raft_metadata l"
    "sl_currentSync l' = sl_currentSync l"
    using f by (simp_all add: e)
qed

section \<open>Appending\<close>

definition closeMem :: "Segment \<Rightarrow> Segment" where
  "closeMem s = s\<lparr>seg_filename := makeClosedFilename s, seg_isOpen := False\<rparr>"

lemma closeMem_simps [simp]:
  "seg_start (closeMem s) = seg_start s" "seg_end (closeMem s) = seg_end s" "seg_bytes (closeMem s) = seg_bytes s"
  "seg_entries (closeMem s) = seg_entries s" "seg_filename (closeMem s) = makeClosedFilename s"
  by (simp_all add: closeMem_def)

lemma closed_closeMem: "open_seg env s \<Longrightarrow> seg_entries s \<noteq> [] \<Longrightarrow> closed_seg env (closeMem s)"
  by (simp add: open_seg_def closed_seg_def closeMem_def seg_ok_def makeClosedFilename_def)

lemma updateOpenSegment_snoc:
  "segmentsByStartIndex l = xs @ [(k, s)] \<Longrightarrow>
   updateOpenSegment f l = l\<lparr>segmentsByStartIndex := xs @ [(k, f s)]\<rparr>"
  by (simp add: updateOpenSegment_def)

text \<open>A log whose open segment was closed in memory is ready for a new one.\<close>

lemma ready_closed:
  assumes s: "sl_shape env l n xs os" and ne: "seg_entries os \<noteq> []"
    and wf: "disk_wf (sl_disk l')" "prepared_ok (sl_disk l') (preparedSegments l')"
    and l': "segmentsByStartIndex l' = xs @ [(seg_start os, closeMem os)]" "openSegmentFile l' = None"
      "totalClosedSegmentBytes l' = totalClosedSegmentBytes l + seg_bytes os" "logStartIndex l' = logStartIndex l"
  shows "ready env l' n (xs @ [(seg_start os, closeMem os)]) (seg_end os + 1)"
proof -
  have "closed_seg env (closeMem os)" using s ne closed_closeMem by (simp add: sl_shape_def)
  then show ?thesis
    using s wf l' by (cases xs) (auto simp: ready_def sl_shape_def contig_append)
qed

lemma rollOver_ok:
  assumes s: "sl_shape env l n xs os" and ne: "seg_entries os \<noteq> []" and f: "openSegmentFile l = Some fd"
    and wf: "disk_wf (sl_disk l)" "prepared_ok (sl_disk l) (preparedSegments l)"
  obtains l' os' where "rollOver env l = Some l'" "sl_inv env l'"
    "sl_shape env l' n (xs @ [(seg_start os, closeMem os)]) os'"
    "has_head l' os'"
    "seg_entries os' = []" "seg_start os' = seg_end os + 1" "logStartIndex l' = logStartIndex l"
    "sl_metadata l' = sl_metadata l" "sl_raft_metadata l' = sl_raft_metadata l"
proof -
  have o: "getOpenSegment l = Some os" using shape_open(1) [OF s] .
  have segs: "segmentsByStartIndex l = xs @ [(seg_start os, os)]" using s by (simp add: sl_shape_def)
  define ops where "ops = sync_ops (sl_currentSync l) @ [TRUNCATE fd (seg_bytes os), FSYNC fd, CLOSE fd,
      RENAME dirFd (seg_filename os) (makeClosedFilename os), FSYNC dirFd]"
  define l1 where "l1 = l\<lparr>openSegmentFile := None,
      sl_currentSync := (sl_currentSync l)\<lparr>sync_ops := ops\<rparr>,
      segmentsByStartIndex := xs @ [(seg_start os, closeMem os)],
      totalClosedSegmentBytes := totalClosedSegmentBytes l + seg_bytes os\<rparr>"
  have r: "ready env l1 n (xs @ [(seg_start os, closeMem os)]) (seg_end os + 1)"
    using ready_closed [OF s ne, of l1] wf by (simp add: l1_def)
  have "rollOver env l = openNewSegment env l1"
    by (simp add: rollOver_def o f addOp_def updateOpenSegment_def segs l1_def closeMem_def ops_def Let_def)
  moreover obtain l' where l': "openNewSegment env l1 = Some l'"
    using openNewSegment_ok [OF r] by metis
  moreover note n = openNewSegment_shape [OF r l']
  ultimately show thesis using that n by (auto simp: l1_def)
qed

text \<open>One record: the log gets one entry longer, rolling over to a new segment when the open one is full.\<close>

lemma appendRecord_fits:
  assumes env: "env_ok env" and s: "sl_shape env l n xs os"
    and h: "has_head l os"
    and wf: "disk_wf (sl_disk l)" "prepared_ok (sl_disk l) (preparedSegments l)"
    and i: "le_index e = Some (seg_end os + 1)"
    and f: "openSegmentFile l = Some fd"
    and l': "l' = addOp (WRITE fd (recordOf env e)) (updateOpenSegment (\<lambda>s. s\<lparr>seg_entries := seg_entries s @ [(seg_bytes s, e)],
                seg_bytes := seg_bytes s + length (recordOf env e), seg_end := seg_end s + 1\<rparr>) l)"
  shows "sl_inv env l'" and "sl_stored l' = (fst (sl_stored l), snd (sl_stored l) @ [e])"
    and "sl_getLastLogIndex l' = seg_end os + 1"
proof -
  define os' where "os' = os\<lparr>seg_entries := seg_entries os @ [(seg_bytes os, e)],
    seg_bytes := seg_bytes os + length (recordOf env e), seg_end := seg_end os + 1\<rparr>"
  have segs: "segmentsByStartIndex l = xs @ [(seg_start os, os)]" using s by (simp add: sl_shape_def)
  have l'': "segmentsByStartIndex l' = xs @ [(seg_start os, os')]" "logStartIndex l' = logStartIndex l"
      "sl_disk l' = sl_disk l" "preparedSegments l' = preparedSegments l" "openSegmentFile l' = openSegmentFile l"
      "totalClosedSegmentBytes l' = totalClosedSegmentBytes l"
    by (simp_all add: l' addOp_def updateOpenSegment_snoc [OF segs] os'_def)
  have "seg_ok env os'"
  proof -
    have ok: "seg_ok env os" using shape_open(3) [OF s] .
    have "le_index (snd ((seg_entries os @ [(seg_bytes os, e)]) ! j)) = Some (seg_start os + j)"
      if "j < length (seg_entries os) + 1" for j
      using ok that i by (cases "j < length (seg_entries os)") (auto simp: seg_ok_def nth_append less_Suc_eq)
    then show ?thesis using ok by (simp add: seg_ok_def os'_def layout_append)
  qed
  then have "open_seg env os'" using s by (simp add: sl_shape_def open_seg_def os'_def)
  then have s': "sl_shape env l' n xs os'"
    using s l'' by (cases xs) (simp_all add: sl_shape_def os'_def)
  have "has_head l' os'" using h l'' by (simp add: os'_def has_head_def)
  then show "sl_inv env l'" using s' wf l'' by (auto simp: sl_inv_def)
  show "sl_stored l' = (fst (sl_stored l), snd (sl_stored l) @ [e])"
    using shape_stored(1) [OF s] shape_stored(1) [OF s'] shape_stored(2,4) [OF s] l''(2)
    by (simp add: os'_def)
  show "sl_getLastLogIndex l' = seg_end os + 1" using shape_open(2) [OF s'] by (simp add: os'_def)
qed

lemma appendRecord_ok:
  assumes env: "env_ok env" and inv: "sl_inv env l" and i: "le_index e = Some (sl_getLastLogIndex l + 1)"
  obtains l' where "appendRecord env e (recordOf env e) l = Some l'" "sl_inv env l'"
    "sl_stored l' = (fst (sl_stored l), snd (sl_stored l) @ [e])"
    "sl_getLastLogIndex l' = sl_getLastLogIndex l + 1"
proof -
  obtain n xs os where s: "sl_shape env l n xs os"
    and h: "has_head l os"
    and wf: "disk_wf (sl_disk l)" "prepared_ok (sl_disk l) (preparedSegments l)"
    using inv by (auto simp: sl_inv_def)
  obtain fd where f: "openSegmentFile l = Some fd" using s by (auto simp: sl_shape_def)
  note o = shape_open [OF s]
  show thesis
  proof (cases "seg_bytes os > headerSize \<and> seg_bytes os + length (recordOf env e) > MAX_SEGMENT_SIZE env")
    case False
    define l' where "l' = addOp (WRITE fd (recordOf env e)) (updateOpenSegment (\<lambda>s. s\<lparr>seg_entries := seg_entries s @ [(seg_bytes s, e)],
                seg_bytes := seg_bytes s + length (recordOf env e), seg_end := seg_end s + 1\<rparr>) l)"
    have "appendRecord env e (recordOf env e) l = Some l'"
      using False f o(1) by (auto simp: appendRecord_def l'_def)
    then show thesis
      using that appendRecord_fits [OF env s h wf _ f l'_def] i o(2) by simp
  next
    case True
    then have ne: "seg_entries os \<noteq> []" using o(3) by (auto simp: seg_ok_def)
    obtain l1 os1 where r: "rollOver env l = Some l1" "sl_inv env l1"
      and s1: "sl_shape env l1 n (xs @ [(seg_start os, closeMem os)]) os1"
      and h1: "has_head l1 os1"
      and e1: "seg_entries os1 = []" "seg_start os1 = seg_end os + 1" "logStartIndex l1 = logStartIndex l"
      using rollOver_ok [OF s ne f wf] .
    have wf1: "disk_wf (sl_disk l1)" "prepared_ok (sl_disk l1) (preparedSegments l1)"
      using r(2) by (simp_all add: sl_inv_def)
    obtain fd1 where f1: "openSegmentFile l1 = Some fd1" using s1 by (auto simp: sl_shape_def)
    define l' where "l' = addOp (WRITE fd1 (recordOf env e)) (updateOpenSegment (\<lambda>s. s\<lparr>seg_entries := seg_entries s @ [(seg_bytes s, e)],
                seg_bytes := seg_bytes s + length (recordOf env e), seg_end := seg_end s + 1\<rparr>) l1)"
    have "appendRecord env e (recordOf env e) l = Some l'"
      using True f1 o(1) r(1) by (simp add: appendRecord_def l'_def)
    moreover have "seg_end os1 = seg_end os"
      using shape_open(3) [OF s1] e1 by (simp add: seg_ok_def)
    moreover have "sl_stored l1 = sl_stored l"
      using shape_stored(1) [OF s] shape_stored(1) [OF s1] e1 by simp
    ultimately show thesis
      using that appendRecord_fits [OF env s1 h1 wf1 _ f1 l'_def] i o(2) by simp
  qed
qed

text \<open>What the log does to an entry: it records the index.\<close>

definition stampIndex :: "nat \<Rightarrow> LogEntry \<Rightarrow> LogEntry" where
  "stampIndex i e = e\<lparr>le_index := Some i\<rparr>"

text \<open>Entries that may be appended: an index that is already set has to be the right one.\<close>

definition indexes_ok :: "nat \<Rightarrow> LogEntry list \<Rightarrow> bool" where
  "indexes_ok start es \<longleftrightarrow> (\<forall>j < length es. le_index (es ! j) \<in> {None, Some (start + j)})"

lemma indexes_ok_Cons:
  "indexes_ok start (e # es) \<longleftrightarrow> le_index e \<in> {None, Some start} \<and> indexes_ok (start + 1) es"
  unfolding indexes_ok_def by (auto simp: All_less_Suc2)

lemma setIndex_ok: "le_index e \<in> {None, Some i} \<Longrightarrow> setIndex i e = Some (stampIndex i e)"
  by (auto simp: setIndex_def stampIndex_def)

definition stamped :: "nat \<Rightarrow> LogEntry list \<Rightarrow> LogEntry list" where
  "stamped start es = map (\<lambda>(i, e). stampIndex (start + i) e) (zip [0..<length es] es)"

lemma stamped_Cons: "stamped start (e # es) = stampIndex start e # stamped (start + 1) es"
proof (rule nth_equalityI)
  fix j assume "j < length (stamped start (e # es))"
  then show "stamped start (e # es) ! j = (stampIndex start e # stamped (start + 1) es) ! j"
    by (cases j) (simp_all add: stamped_def nth_append del: upt_Suc)
qed (simp add: stamped_def)

lemma appendLoop_ok:
  assumes env: "env_ok env"
  shows "sl_inv env l \<Longrightarrow> indexes_ok (sl_getLastLogIndex l + 1) es \<Longrightarrow>
    \<exists>l'. sl_appendLoop env (sl_getLastLogIndex l + 1) es l = Some l' \<and> sl_inv env l' \<and>
      sl_stored l' = (fst (sl_stored l), snd (sl_stored l) @ stamped (sl_getLastLogIndex l + 1) es)"
proof (induction es arbitrary: l)
  case Nil
  then show ?case by (simp add: stamped_def)
next
  case (Cons e es)
  let ?i = "sl_getLastLogIndex l + 1"
  have idx: "setIndex ?i e = Some (stampIndex ?i e)" "indexes_ok (?i + 1) es"
    using Cons.prems(2) setIndex_ok by (simp_all only: indexes_ok_Cons)
  obtain l1 where l1: "appendRecord env (stampIndex ?i e) (recordOf env (stampIndex ?i e)) l = Some l1" "sl_inv env l1"
    "sl_stored l1 = (fst (sl_stored l), snd (sl_stored l) @ [stampIndex ?i e])" "sl_getLastLogIndex l1 = ?i"
    using appendRecord_ok [OF env Cons.prems(1), of "stampIndex ?i e"] by (auto simp: stampIndex_def)
  then show ?case
    using Cons.IH [of l1] idx serializeEntry_recordOf(1) [OF env] by (simp add: stamped_Cons)
qed

lemma sl_append_ok:
  assumes env: "env_ok env" and inv: "sl_inv env l" and es: "indexes_ok (sl_getLastLogIndex l + 1) es"
  obtains l' where "sl_append env l es = Some ((sl_getLastLogIndex l + 1, sl_getLastLogIndex l + length es), l')"
    "sl_inv env l'"
    "sl_stored l' = (fst (sl_stored l), snd (sl_stored l) @ stamped (sl_getLastLogIndex l + 1) es)"
proof -
  obtain l1 where l1: "sl_appendLoop env (sl_getLastLogIndex l + 1) es l = Some l1" "sl_inv env l1"
      "sl_stored l1 = (fst (sl_stored l), snd (sl_stored l) @ stamped (sl_getLastLogIndex l + 1) es)"
    using appendLoop_ok [OF env inv es] by blast
  obtain n xs os where s: "sl_shape env l n xs os" using inv by (auto simp: sl_inv_def)
  obtain n1 xs1 os1 where s1: "sl_shape env l1 n1 xs1 os1"
      and h1: "has_head l1 os1"
    using l1(2) by (auto simp: sl_inv_def)
  obtain fd where f: "openSegmentFile l1 = Some fd" using s1 by (auto simp: sl_shape_def)
  define l2 where "l2 = addOp (FDATASYNC fd) l1"
  define l' where "l' = l2\<lparr>sl_currentSync := (sl_currentSync l2)\<lparr>sync_lastIndex := sl_getLastLogIndex l2\<rparr>\<rparr>"
  have s': "sl_shape env l' n1 xs1 os1" using s1 by (simp add: l'_def l2_def addOp_def sl_shape_def)
  have st: "sl_stored l' = sl_stored l1" by (simp add: l'_def l2_def addOp_def sl_stored_def)
  have inv': "sl_inv env l'"
    using h1 l1(2) by (intro sl_invI [OF s']) (simp_all add: sl_inv_def has_head_def l'_def l2_def addOp_def)
  have la: "sl_getLastLogIndex l' = sl_getLastLogIndex l + length es"
    using shape_last_law [OF s'] shape_last_law [OF s] st l1(3) by (simp add: stamped_def)
  have "sl_append env l es = Some ((sl_getLastLogIndex l + 1, sl_getLastLogIndex l'), l')"
    using shape_open [OF s] l1(1) f shape_assert [OF env s']
    by (simp add: sl_append_def Let_def l'_def l2_def)
  then show thesis using that inv' st l1(3) la by simp
qed

section \<open>Metadata\<close>

definition nextMetadata :: "SegmentedLog \<Rightarrow> SLMetadata" where
  "nextMetadata l = \<lparr>slm_format_version = 1, slm_version = slm_version (sl_metadata l) + 1,
     slm_raft_metadata = (if md_current_term (sl_raft_metadata l) = None \<and> md_voted_for (sl_raft_metadata l) = None
                          then None else Some (sl_raft_metadata l)),
     slm_entries_start = logStartIndex l\<rparr>"

text \<open>The disk after writing a metadata file: the file has exactly the given bytes, also durably.\<close>

definition metadataDisk :: "string \<Rightarrow> string \<Rightarrow> Disk \<Rightarrow> Disk" where
  "metadataDisk name bytes d =
     (case map_of (d_names d) name of
        Some i \<Rightarrow> d\<lparr>d_data := (d_data d)(i := bytes), d_durable := (d_durable d)(i := bytes),
                     d_fds := (d_fds d)(d_next d := None), d_next := d_next d + 1\<rparr>
      | None \<Rightarrow> d\<lparr>d_names := om_set name (d_next d) (d_names d),
                   d_data := (d_data d)(d_next d := bytes), d_durable := (d_durable d)(d_next d := bytes),
                   d_fds := (d_fds d)(d_next d := None), d_next := d_next d + 1\<rparr>)"

lemma updateMetadata_eq:
  assumes "serializeMetadata env (nextMetadata l) = Some r" "disk_wf (sl_disk l)"
  shows "sl_updateMetadata env l = Some (l\<lparr>sl_metadata := nextMetadata l,
    sl_disk := metadataDisk (metadataFilename (slm_version (nextMetadata l))) r (sl_disk l)\<rparr>)"
proof -
  let ?name = "metadataFilename (slm_version (nextMetadata l))"
  have name: "\<not> prefix ''/'' (metadataFilename v)" for v by (simp add: metadataFilename_def)
  have dir: "d_next (sl_disk l) \<noteq> dirFd" using assms(2) by (simp add: disk_wf_def)
  have step: "sl_updateMetadata env l = do {
      (fd, d) \<leftarrow> fs_openFile True False True ?name (sl_disk l);
      d \<leftarrow> fs_write fd r d; d \<leftarrow> fs_fsync fd d; d \<leftarrow> fs_close fd d;
      Some (l\<lparr>sl_metadata := nextMetadata l, sl_disk := d\<rparr>) }"
    using assms(1) by (simp add: sl_updateMetadata_def Let_def nextMetadata_def)
  show ?thesis
    by (cases "map_of (d_names (sl_disk l)) ?name")
      (simp_all add: step name dir fs_openFile_def fs_openat_def fs_write_def fs_fsync_def fs_close_def
        metadataDisk_def overwrite_def)
qed

lemma metadataDisk_wf: "disk_wf d \<Longrightarrow> disk_wf (metadataDisk name r d)"
  by (auto simp: disk_wf_def metadataDisk_def intro: less_SucI split: option.split)

lemma metadataDisk_ext: "disk_wf d \<Longrightarrow> disk_ext d (metadataDisk name r d)"
  by (auto simp: disk_ext_def metadataDisk_def map_of_om_set disk_wf_def split: option.split)

lemma metadata_not_open [simp]: "metadataFilename v \<noteq> openFilename k" "openFilename k \<noteq> metadataFilename v"
  by (simp_all add: metadataFilename_def openFilename_def)

lemma metadataDisk_prepared:
  "disk_wf d \<Longrightarrow> prepared_ok d p \<Longrightarrow> prepared_ok (metadataDisk (metadataFilename v) r d) p"
  by (rule prepared_ok_ext [OF _ metadataDisk_ext])
    (auto simp: metadataDisk_def map_of_om_set split: option.split)

lemma updateMetadata_ok:
  assumes env: "env_ok env" and wf: "disk_wf (sl_disk l)" "prepared_ok (sl_disk l) (preparedSegments l)"
  obtains d where "sl_updateMetadata env l = Some (l\<lparr>sl_metadata := nextMetadata l, sl_disk := d\<rparr>)"
    "disk_ext (sl_disk l) d" "disk_wf d" "prepared_ok d (preparedSegments l)"
proof -
  obtain r where r: "serializeMetadata env (nextMetadata l) = Some r"
    using serializeMetadata_Some [OF env] .
  show thesis
    using that [OF updateMetadata_eq [OF r wf(1)]] metadataDisk_ext [OF wf(1)] metadataDisk_wf [OF wf(1)]
      metadataDisk_prepared [OF wf] by blast
qed

section \<open>Truncating a prefix\<close>

text \<open>The loop drops the segments that end before the start of the log.\<close>

lemma deleteSegments_closed:
  "all_segs (closed_seg env) xs \<Longrightarrow> all_segs (\<lambda>s. seg_end s < logStartIndex l) xs \<Longrightarrow>
   seg_sum xs \<le> totalClosedSegmentBytes l \<Longrightarrow>
   deleteSegments (xs @ ys) l = deleteSegments ys (l\<lparr>
      totalClosedSegmentBytes := totalClosedSegmentBytes l - seg_sum xs,
      sl_currentSync := (sl_currentSync l)\<lparr>sync_ops := sync_ops (sl_currentSync l) @
        map (\<lambda>(k, s). UNLINKAT dirFd (seg_filename s)) xs\<rparr>\<rparr>)"
proof (induction xs arbitrary: l)
  case (Cons x xs)
  obtain k s where x: "x = (k, s)" by fastforce
  let ?l = "(addOp (UNLINKAT dirFd (seg_filename s)) l)\<lparr>
    totalClosedSegmentBytes := totalClosedSegmentBytes l - seg_bytes s\<rparr>"
  have ih: "deleteSegments (xs @ ys) ?l = deleteSegments ys (?l\<lparr>
      totalClosedSegmentBytes := totalClosedSegmentBytes ?l - seg_sum xs,
      sl_currentSync := (sl_currentSync ?l)\<lparr>sync_ops := sync_ops (sl_currentSync ?l) @
        map (\<lambda>(k, s). UNLINKAT dirFd (seg_filename s)) xs\<rparr>\<rparr>)"
    using Cons.prems by (intro Cons.IH) (auto simp: x addOp_def)
  have "deleteSegments ((x # xs) @ ys) l = deleteSegments (xs @ ys) ?l"
    using Cons.prems by (auto simp: x closed_seg_def addOp_def)
  then show ?case by (simp only: ih) (simp add: x addOp_def)
qed simp

text \<open>Segments before an index come first.\<close>

lemma split_before:
  assumes "contig n xs m" "all_segs (closed_seg env) xs"
  shows "\<exists>as bs. xs = as @ bs \<and> all_segs (\<lambda>s. seg_end s < i) as \<and> (bs = [] \<or> i \<le> seg_end (snd (hd bs)))"
proof -
  have "all_segs (\<lambda>s. seg_end s < i) (takeWhile (\<lambda>(k, s). seg_end s < i) xs)"
    by (auto dest: set_takeWhileD)
  moreover have "dropWhile (\<lambda>(k, s). seg_end s < i) xs = [] \<or>
      i \<le> seg_end (snd (hd (dropWhile (\<lambda>(k, s). seg_end s < i) xs)))"
    using hd_dropWhile [of "\<lambda>(k, s). seg_end s < i" xs]
    by (cases "dropWhile (\<lambda>(k, s). seg_end s < i) xs = []")
      (simp_all add: case_prod_beta not_less del: dropWhile_eq_Nil_conv)
  ultimately show ?thesis by (metis takeWhile_dropWhile_id)
qed

lemma sl_truncatePrefix_ok:
  assumes env: "env_ok env" and inv: "sl_inv env l"
  obtains l' where "sl_truncatePrefix env l i = Some l'" "sl_inv env l'"
    "sl_stored l' = (max (fst (sl_stored l)) i, drop (i - fst (sl_stored l)) (snd (sl_stored l)))"
proof (cases "i \<le> logStartIndex l")
  case True
  then show thesis using that [of l] inv by (simp add: sl_truncatePrefix_def sl_stored_def max_def)
next
  case False
  obtain n xs os where s: "sl_shape env l n xs os"
    and h: "has_head l os"
    and wf: "disk_wf (sl_disk l)" "prepared_ok (sl_disk l) (preparedSegments l)"
    using inv by (auto simp: sl_inv_def)
  obtain fd where f: "openSegmentFile l = Some fd" using s by (auto simp: sl_shape_def)
  define l0 where "l0 = l\<lparr>logStartIndex := i\<rparr>"
  obtain d where u: "sl_updateMetadata env l0 = Some (l0\<lparr>sl_metadata := nextMetadata l0, sl_disk := d\<rparr>)"
    and d: "disk_ext (sl_disk l) d" "disk_wf d" "prepared_ok d (preparedSegments l)"
    using updateMetadata_ok [OF env, of l0] wf by (auto simp: l0_def)
  define l1 where "l1 = l0\<lparr>sl_metadata := nextMetadata l0, sl_disk := d\<rparr>"
  have segs: "segmentsByStartIndex l = xs @ [(seg_start os, os)]" "contig n xs (seg_start os)"
      "all_segs (closed_seg env) xs" "open_seg env os" "totalClosedSegmentBytes l = seg_sum xs"
    using s by (simp_all add: sl_shape_def)
  obtain as bs where ab: "xs = as @ bs" "all_segs (\<lambda>s. seg_end s < i) as" "bs = [] \<or> i \<le> seg_end (snd (hd bs))"
    using split_before [OF segs(2,3), of i] by blast
  obtain k where k: "contig n as k" "contig k bs (seg_start os)" using segs(2) by (auto simp: ab contig_append)
  define l2 where "l2 = l1\<lparr>totalClosedSegmentBytes := seg_sum bs,
      sl_currentSync := (sl_currentSync l1)\<lparr>sync_ops := sync_ops (sl_currentSync l1) @
        map (\<lambda>(k, s). UNLINKAT dirFd (seg_filename s)) as\<rparr>\<rparr>"
  have del: "deleteSegments (segmentsByStartIndex l1) l1 = deleteSegments (bs @ [(seg_start os, os)]) l2"
    using deleteSegments_closed [of as env l1 "bs @ [(seg_start os, os)]"] segs ab
    by (simp add: l1_def l0_def l2_def)
  have len: "length (seg_list as) = k - n" "n \<le> k"
  proof -
    have "all_segs (seg_ok env) as" using segs(3) by (auto simp: ab closed_seg_def)
    then have "k = n + length (seg_list as)" using contig_length [OF k(1)] by blast
    then show "length (seg_list as) = k - n" "n \<le> k" by simp_all
  qed
  note st = shape_stored [OF s]
  show thesis
  proof (cases "bs = [] \<and> seg_end os < i")
    case True
    define l3 where "l3 = l2\<lparr>openSegmentFile := None, segmentsByStartIndex := [],
      sl_currentSync := (sl_currentSync l2)\<lparr>sync_ops := sync_ops (sl_currentSync l2) @
        [UNLINKAT dirFd (seg_filename os), CLOSE fd]\<rparr>\<rparr>"
    have d3: "deleteSegments (bs @ [(seg_start os, os)]) l2 = Some l3"
      using True segs(4) f by (simp add: l3_def l2_def l1_def l0_def addOp_def open_seg_def)
    have r: "ready env l3 i [] i"
      using False d True by (simp add: ready_def l3_def l2_def l1_def l0_def)
    obtain l4 where l4: "openNewSegment env l3 = Some l4" using openNewSegment_ok [OF r] by metis
    note o = openNewSegment_shape [OF r l4]
    obtain os4 where s4: "sl_shape env l4 i [] os4" "seg_entries os4 = []"
      "has_head l4 os4" using o(1) by blast
    define l' where "l' = (if sync_lastIndex (sl_currentSync l4) < logStartIndex l4 - 1
        then l4\<lparr>sl_currentSync := (sl_currentSync l4)\<lparr>sync_lastIndex := logStartIndex l4 - 1\<rparr>\<rparr> else l4)"
    have s': "sl_shape env l' i [] os4" using s4(1) by (simp add: l'_def sl_shape_def)
    have "sl_inv env l'"
      using s4(3) o(2) by (intro sl_invI [OF s']) (simp_all add: sl_inv_def has_head_def l'_def)
    moreover have "sl_truncatePrefix env l i = Some l'"
      using False u del d3 l4 shape_assert [OF env s']
      by (simp add: sl_truncatePrefix_def l0_def l1_def [symmetric, unfolded l0_def] Let_def l'_def l3_def)
    moreover have "sl_stored l' = (i, [])"
      using shape_stored(1) [OF s'] s4(2) o(4) by (simp add: l'_def l3_def l2_def l1_def l0_def)
    moreover have fs: "fst (sl_stored l) = logStartIndex l" by (simp add: st(1))
    moreover have "drop (i - logStartIndex l) (snd (sl_stored l)) = []"
      using shape_last_law [OF s] shape_open(2) [OF s] True [THEN conjunct2] fs
      by (simp only: drop_eq_Nil)
    ultimately show thesis using that [of l'] False by (simp add: max_def)
  next
    case keep: False
    define l' where "l' = (let l3 = l2\<lparr>segmentsByStartIndex := bs @ [(seg_start os, os)]\<rparr> in
      if sync_lastIndex (sl_currentSync l3) < logStartIndex l3 - 1
        then l3\<lparr>sl_currentSync := (sl_currentSync l3)\<lparr>sync_lastIndex := logStartIndex l3 - 1\<rparr>\<rparr> else l3)"
    have d3: "deleteSegments (bs @ [(seg_start os, os)]) l2 = Some (l2\<lparr>segmentsByStartIndex := bs @ [(seg_start os, os)]\<rparr>)"
      using keep ab(3) by (cases bs) (auto simp: l2_def l1_def l0_def)
    have "k \<le> i"
    proof (cases as rule: rev_cases)
      case Nil
      then show ?thesis using k(1) st(3) False by simp
    next
      case (snoc as' a)
      then show ?thesis using k(1) ab(2) by (cases a) (auto simp: contig_append)
    qed
    moreover have "i \<le> seg_end (snd (hd (bs @ [(seg_start os, os)]))) + 1"
      using keep ab(3) by (cases bs) auto
    ultimately have s': "sl_shape env l' k bs os"
      using segs k(2) ab f by (simp add: sl_shape_def l'_def Let_def l2_def l1_def l0_def)
    have "has_head l' os"
      using has_file_ext [OF d(1)] h by (simp add: has_head_def l'_def Let_def l2_def l1_def l0_def)
    then have "sl_inv env l'"
      using d by (intro sl_invI [OF s']) (simp_all add: l'_def Let_def l2_def l1_def l0_def)
    moreover have "sl_truncatePrefix env l i = Some l'"
      using False u del d3 shape_assert [OF env s']
      by (simp add: sl_truncatePrefix_def l0_def l1_def [symmetric, unfolded l0_def] Let_def l'_def)
    moreover have "sl_stored l' = (i, drop (i - k) (seg_list bs @ map snd (seg_entries os)))"
      using shape_stored(1) [OF s'] by (simp add: l'_def Let_def l2_def l1_def l0_def)
    moreover have "drop (i - n) (seg_list as @ seg_list bs @ map snd (seg_entries os)) =
        drop (i - k) (seg_list bs @ map snd (seg_entries os))"
      using \<open>k \<le> i\<close> len by (subst drop_append) simp
    ultimately show thesis
      using that [of l'] st(1,3) False ab(1) by (simp add: max_def del: drop_append)
  qed
qed

section \<open>Truncating a suffix\<close>

text \<open>
  The callers have to wait for pending operations first, so that every closed segment has its file, and the
  new end must not lie before the start of the log.
\<close>

definition can_truncateSuffix :: "SegmentedLog \<Rightarrow> nat \<Rightarrow> bool" where
  "can_truncateSuffix l i \<longleftrightarrow> logStartIndex l \<le> i + 1 \<and>
     (\<forall>(k, s) \<in> set (butlast (segmentsByStartIndex l)). map_of (d_names (sl_disk l)) (seg_filename s) \<noteq> None)"

abbreviation named :: "Disk \<Rightarrow> (nat, Segment) omap \<Rightarrow> bool" where
  "named d xs \<equiv> all_segs (\<lambda>s. map_of (d_names d) (seg_filename s) \<noteq> None) xs"

lemma open_not_closed: "prefix ''open-'' name \<Longrightarrow> name \<noteq> makeClosedFilename s"
  by (metis closed_not_open makeClosedFilename_def prefix_def)

lemma closed_slash [simp]: "\<not> prefix ''/'' (closedFilename s e)" 
proof
  assume "prefix ''/'' (closedFilename s e)"
  then have "hd (closedFilename s e) = CHR ''/''" by (auto simp: prefix_def)
  moreover have "isdigit (hd (closedFilename s e))"
    using padZeros_digits [of 20 s] padZeros_nonempty [of 20 s]
    by (cases "padZeros 20 (decimal s)") (simp_all add: closedFilename_def)
  ultimately show False by (simp add: isdigit_def)
qed

text \<open>Removing or renaming a file that is not a prepared one leaves the prepared ones alone.\<close>

lemma prepared_ok_erase:
  assumes p: "prepared_ok d p" and name: "name \<notin> fst ` set (openSegments p)"
    and d': "map_of (d_names d') = (map_of (d_names d))(name := None, name' := y)"
    and name': "\<not> prefix ''open-'' name' \<or> name' = name \<and> y = None"
    and fds: "\<And>fd. fd \<in> snd ` set (openSegments p) \<Longrightarrow> d_fds d' fd = d_fds d fd"
  shows "prepared_ok d' p"
proof -
  have "map_of (d_names d') (openFilename k) = None" if "k > filenameCounter p" for k
    using p d' name' that by (auto simp: prepared_ok_def)
  moreover have "map_of (d_names d') n \<noteq> None \<and> fd \<in> dom (d_fds d')" if q: "(n, fd) \<in> set (openSegments p)" for n fd
  proof -
    have n: "n \<noteq> name" using q name by force
    have o: "prefix ''open-'' n" "map_of (d_names d) n \<noteq> None" "fd \<in> dom (d_fds d)"
      using p q unfolding prepared_ok_def by blast+
    have "n \<noteq> name'" using n o(1) name' by blast
    moreover have "d_fds d' fd = d_fds d fd" using fds q by force
    ultimately show ?thesis using n o d' by (auto simp: domIff)
  qed
  ultimately show ?thesis using p unfolding prepared_ok_def by fastforce
qed

text \<open>Closing the open segment: empty, its file is removed; otherwise it becomes a closed segment.\<close>

lemma closeSegment_empty:
  assumes f: "openSegmentFile l = Some fd" "fd \<in> dom (d_fds (sl_disk l))"
    and segs: "segmentsByStartIndex l = xs @ [(seg_start os, os)]" "\<forall>x \<in> fst ` set xs. x < seg_start os"
    and e: "seg_end os < seg_start os" and o: "prefix ''open-'' (seg_filename os)"
  shows "closeSegment l = Some (l\<lparr>sl_disk := (sl_disk l)\<lparr>d_fds := (d_fds (sl_disk l))(fd := None),
       d_names := om_erase (seg_filename os) (d_names (sl_disk l)),
       d_dnames := om_erase (seg_filename os) (d_names (sl_disk l))\<rparr>,
     openSegmentFile := None, segmentsByStartIndex := xs\<rparr>)"
proof -
  have slash: "\<not> prefix ''/'' (seg_filename os)" using o by (auto simp: prefix_def)
  have "om_erase (seg_start os) (xs @ [(seg_start os, os)]) = xs"
    using segs(2) by (auto simp: om_erase_def filter_id_conv)
  then show ?thesis
    using f segs(1) e slash
    by (simp add: closeSegment_def getOpenSegment_def onDisk_def fs_close_def fs_removeFile_def fs_fsync_def)
qed

lemma closeSegment_full:
  assumes f: "openSegmentFile l = Some fd" "d_fds (sl_disk l) fd = Some (i, pos)" "fd \<noteq> dirFd"
    and name: "map_of (d_names (sl_disk l)) (seg_filename os) = Some j"
    and segs: "segmentsByStartIndex l = xs @ [(seg_start os, os)]"
    and e: "seg_start os \<le> seg_end os" and o: "prefix ''open-'' (seg_filename os)"
    and d: "d = sl_disk l" and bytes: "bytes = take (seg_bytes os) (d_data d i) @ zeros (seg_bytes os - length (d_data d i))"
  shows "closeSegment l = Some (l\<lparr>sl_disk := d\<lparr>d_data := (d_data d)(i := bytes),
       d_durable := (d_durable d)(i := bytes), d_fds := (d_fds d)(fd := None),
       d_names := om_set (makeClosedFilename os) j (om_erase (seg_filename os) (d_names d)),
       d_dnames := om_set (makeClosedFilename os) j (om_erase (seg_filename os) (d_names d))\<rparr>,
     openSegmentFile := None, segmentsByStartIndex := xs @ [(seg_start os, closeMem os)],
     totalClosedSegmentBytes := totalClosedSegmentBytes l + seg_bytes os\<rparr>)"
proof -
  have "\<not> prefix ''/'' (seg_filename os)" using o by (auto simp: prefix_def)
  moreover have "\<not> prefix ''/'' (makeClosedFilename os)" by (simp add: makeClosedFilename_def)
  ultimately show ?thesis
    using f segs e name
    by (simp add: closeSegment_def getOpenSegment_def onDisk_def fs_close_def fs_truncate_def fs_rename_def
        fs_fsync_def updateOpenSegment_def Let_def closeMem_def d bytes domI)
qed

text \<open>Cutting a segment keeps the entries up to the new end.\<close>

lemma cutSegment_ok:
  assumes ok: "seg_ok env s" and i: "seg_start s \<le> i" "i < seg_end s"
  obtains c where "cutSegment i s = Some c" "seg_ok env c" "seg_start c = seg_start s" "seg_end c = i"
    "seg_entries c = take (i + 1 - seg_start s) (seg_entries s)" "seg_entries c \<noteq> []" "seg_isOpen c = seg_isOpen s"
    "seg_filename c = seg_filename s" "seg_bytes c \<le> seg_bytes s"
proof -
  let ?i = "i + 1 - seg_start s"
  define c where "c = s\<lparr>seg_bytes := fst (seg_entries s ! ?i), seg_entries := take ?i (seg_entries s), seg_end := i\<rparr>"
  have len: "?i < length (seg_entries s)" using ok i by (simp add: seg_ok_def) linarith
  then have cut: "cutSegment i s = Some c" by (simp add: cutSegment_def c_def Let_def)
  have lay: "layout env headerSize (take ?i (seg_entries s)) (fst (seg_entries s ! ?i))"
    using ok len by (auto simp: seg_ok_def intro: layout_take)
  then have "seg_ok env c" using ok len i by (simp add: seg_ok_def c_def)
  moreover have "fst (seg_entries s ! ?i) \<le> seg_bytes s"
  proof -
    have "layout env headerSize (take ?i (seg_entries s) @ drop ?i (seg_entries s)) (seg_bytes s)"
      using ok by (simp add: seg_ok_def)
    moreover obtain o1 x where "seg_entries s ! ?i = (o1, x)" by fastforce
    moreover have "drop ?i (seg_entries s) = seg_entries s ! ?i # drop (Suc ?i) (seg_entries s)"
      using len by (rule Cons_nth_drop_Suc [symmetric])
    ultimately show ?thesis using layout_le by (auto simp only: layout_append layout.simps fst_conv) (meson add_leE)
  qed
  moreover have "seg_entries s \<noteq> []" using len by auto
  ultimately show thesis using that [OF cut] i len by (simp add: c_def)
qed

text \<open>One turn of the loop that cuts the last closed segment.\<close>

lemma truncateClosedSegment_ok:
  assumes segs: "segmentsByStartIndex l = xs @ [(seg_start s, s)]" and s: "closed_seg env s"
    and i: "seg_start s \<le> i" "i < seg_end s"
    and name: "map_of (d_names (sl_disk l)) (seg_filename s) = Some j"
    and wf: "disk_wf (sl_disk l)" "prepared_ok (sl_disk l) (preparedSegments l)"
    and total: "totalClosedSegmentBytes l = seg_sum xs + seg_bytes s"
  obtains c d where "truncateClosedSegment i s l = Some (l\<lparr>sl_disk := d,
      totalClosedSegmentBytes := seg_sum xs + seg_bytes c, segmentsByStartIndex := xs @ [(seg_start s, c)]\<rparr>)"
    "closed_seg env c" "seg_start c = seg_start s" "seg_end c = i"
    "seg_entries c = take (i + 1 - seg_start s) (seg_entries s)"
    "disk_wf d" "prepared_ok d (preparedSegments l)"
proof -
  obtain c0 where c0: "cutSegment i s = Some c0" "seg_ok env c0" "seg_start c0 = seg_start s" "seg_end c0 = i"
    "seg_entries c0 = take (i + 1 - seg_start s) (seg_entries s)" "seg_entries c0 \<noteq> []" "seg_isOpen c0 = seg_isOpen s"
    "seg_filename c0 = seg_filename s" "seg_bytes c0 \<le> seg_bytes s"
    using cutSegment_ok [of env s i] s i unfolding closed_seg_def by metis
  define c where "c = c0\<lparr>seg_filename := makeClosedFilename c0\<rparr>"
  define d where "d = sl_disk l"
  define names where "names = om_set (makeClosedFilename c0) j (om_erase (seg_filename s) (d_names d))"
  define bytes where "bytes = take (seg_bytes c0) (d_data d j) @ zeros (seg_bytes c0 - length (d_data d j))"
  define d' where "d' = d\<lparr>d_names := names, d_dnames := names, d_fds := (d_fds d)(d_next d := None),
      d_next := d_next d + 1, d_data := (d_data d)(j := bytes), d_durable := (d_durable d)(j := bytes)\<rparr>"
  have slash: "\<not> prefix ''/'' (seg_filename s)" "\<not> prefix ''/'' (makeClosedFilename c0)"
    using s by (simp_all add: closed_seg_def makeClosedFilename_def)
  have nd: "d_next d \<noteq> dirFd" using wf(1) by (simp add: disk_wf_def d_def)
  have mo: "map_of names (makeClosedFilename c0) = Some j" by (simp add: names_def map_of_om_set)
  have tot: "seg_sum xs + seg_bytes s - (seg_bytes s - seg_bytes c0) = seg_sum xs + seg_bytes c0"
    using c0(9) by simp
  have "truncateClosedSegment i s l = Some (l\<lparr>sl_disk := d',
      totalClosedSegmentBytes := seg_sum xs + seg_bytes c, segmentsByStartIndex := xs @ [(seg_start s, c)]\<rparr>)"
    using segs total tot name slash nd mo
    by (simp add: truncateClosedSegment_def c0(1) onDisk_def fs_rename_def fs_fsync_def updateOpenSegment_def
        fs_openFile_def fs_openat_def fs_truncate_def fs_close_def names_def [symmetric] d_def [symmetric] Let_def
        d'_def bytes_def c_def)
  moreover have "closed_seg env c"
    using s c0 by (simp add: closed_seg_def c_def seg_ok_def makeClosedFilename_def)
  moreover have "disk_wf d'" using wf(1) by (auto simp: disk_wf_def d'_def d_def intro: less_SucI)
  moreover have "prepared_ok d' (preparedSegments l)"
  proof (rule prepared_ok_erase [OF wf(2)])
    have closed: "prefix ''open-'' x \<Longrightarrow> x \<noteq> seg_filename s" for x
      using s open_not_closed by (simp add: closed_seg_def)
    show "seg_filename s \<notin> fst ` set (openSegments (preparedSegments l))"
      using wf(2) closed unfolding prepared_ok_def by fastforce
    show "map_of (d_names d') = (map_of (d_names (sl_disk l)))(seg_filename s := None, makeClosedFilename c0 := Some j)"
      by (simp add: d'_def names_def d_def map_of_om_set map_of_om_erase)
    show "\<not> prefix ''open-'' (makeClosedFilename c0) \<or> makeClosedFilename c0 = seg_filename s \<and> Some j = None"
      using open_not_closed by blast
    show "d_fds d' fd = d_fds (sl_disk l) fd" if q: "fd \<in> snd ` set (openSegments (preparedSegments l))" for fd
    proof -
      have "fd \<in> dom (d_fds (sl_disk l))" using q wf(2) by (auto simp: prepared_ok_def)
      then have "fd < d_next d" using wf(1) by (auto simp: disk_wf_def d_def)
      then show ?thesis by (simp add: d'_def d_def)
    qed
  qed
  moreover have "seg_start c = seg_start s" "seg_end c = i" "seg_entries c = take (i + 1 - seg_start s) (seg_entries s)"
    using c0 by (simp_all add: c_def)
  ultimately show thesis using that by blast
qed

text \<open>The loop over the closed segments ends, and what is left are the entries up to the new end.\<close>

lemma truncateClosedSegments_ok:
  assumes env: "env_ok env"
  shows "segmentsByStartIndex l = xs \<Longrightarrow> openSegmentFile l = None \<Longrightarrow> contig n xs m \<Longrightarrow> 0 < n \<Longrightarrow>
    all_segs (closed_seg env) xs \<Longrightarrow> totalClosedSegmentBytes l = seg_sum xs \<Longrightarrow> named (sl_disk l) xs \<Longrightarrow>
    n \<le> logStartIndex l \<Longrightarrow> (xs \<noteq> [] \<longrightarrow> logStartIndex l \<le> seg_end (snd (hd xs)) + 1) \<Longrightarrow>
    logStartIndex l \<le> i + 1 \<Longrightarrow> i + 1 \<le> m \<Longrightarrow>
    disk_wf (sl_disk l) \<Longrightarrow> prepared_ok (sl_disk l) (preparedSegments l) \<Longrightarrow>
    \<exists>l' xs'. truncateClosedSegments i l = Some l' \<and> ready env l' n xs' (i + 1) \<and>
      logStartIndex l' = logStartIndex l \<and> seg_list xs' = take (i + 1 - n) (seg_list xs) \<and>
      sl_metadata l' = sl_metadata l \<and> sl_raft_metadata l' = sl_raft_metadata l"
proof (induction xs arbitrary: l m rule: rev_induct)
  case Nil
  then have "logStartIndex l = i + 1" "n = i + 1" by auto
  then have "ready env l n [] (i + 1)" using Nil by (simp add: ready_def)
  then show ?case using Nil.prems(1) by (subst truncateClosedSegments.simps) auto
next
  case (snoc x xs)
  obtain k s where x: "x = (k, s)" by fastforce
  have c: "contig n xs (seg_start s)" "k = seg_start s" "m = seg_end s + 1" and s: "closed_seg env s"
    and xs: "all_segs (closed_seg env) xs" and nm: "named (sl_disk l) xs"
    using snoc.prems(3,5,7) by (auto simp: contig_append x)
  obtain j where j: "map_of (d_names (sl_disk l)) (seg_filename s) = Some j" using snoc.prems(7) by (auto simp: x)
  have segs: "segmentsByStartIndex l = xs @ [(seg_start s, s)]" using snoc.prems(1) by (simp add: x c)
  have lenxs: "length (seg_list xs) = seg_start s - n" "n \<le> seg_start s"
    using contig_length [OF c(1) closed_seg_ok [OF xs]] by simp_all
  have lens: "length (seg_entries s) = seg_end s + 1 - seg_start s" using s by (auto simp: closed_seg_def seg_ok_def)
  have le: "i \<le> seg_end s" using snoc.prems(11) c by simp
  consider "seg_end s = i" | "i < seg_start s" "i < seg_end s" | "seg_start s \<le> i" "i < seg_end s"
    using le by linarith
  then show ?case
  proof cases
    case 1
    have r: "ready env l n (xs @ [x]) (i + 1)" using snoc.prems c 1 by (simp add: ready_def)
    moreover have "truncateClosedSegments i l = Some l"
      by (subst truncateClosedSegments.simps) (simp add: segs 1)
    moreover have "take (i + 1 - n) (seg_list (xs @ [x])) = seg_list (xs @ [x])"
    proof -
      have "length (seg_list (xs @ [x])) = i + 1 - n"
        using contig_length [OF snoc.prems(3) closed_seg_ok [OF snoc.prems(5)]] c(3) 1 by simp
      then show ?thesis by simp
    qed
    ultimately show ?thesis by metis
  next
    case 2
    define d where "d = (sl_disk l)\<lparr>d_names := om_erase (seg_filename s) (d_names (sl_disk l)),
      d_dnames := om_erase (seg_filename s) (d_names (sl_disk l))\<rparr>"
    define l1 where "l1 = l\<lparr>sl_disk := d, totalClosedSegmentBytes := seg_sum xs, segmentsByStartIndex := xs\<rparr>"
    have "\<forall>y \<in> fst ` set xs. y < seg_start s"
      using contig_keys [OF c(1) closed_seg_ok [OF xs] closed_seg_ne [OF xs]] by blast
    then have er: "om_erase (seg_start s) (xs @ [(seg_start s, s)]) = xs"
      by (auto simp: om_erase_def filter_id_conv)
    have slash: "\<not> prefix ''/'' (seg_filename s)" using s by (simp add: closed_seg_def makeClosedFilename_def)
    have rem: "removeClosedSegment s l = Some l1"
      using slash snoc.prems(6) er
      by (simp add: removeClosedSegment_def onDisk_def fs_removeFile_def fs_fsync_def l1_def d_def segs x)
    have p: "prepared_ok d (preparedSegments l)"
    proof (rule prepared_ok_erase [OF snoc.prems(13)])
      show "seg_filename s \<notin> fst ` set (openSegments (preparedSegments l))"
        using snoc.prems(13) s open_not_closed unfolding prepared_ok_def closed_seg_def by fastforce
      show "map_of (d_names d) = (map_of (d_names (sl_disk l)))(seg_filename s := None, seg_filename s := None)"
        by (simp add: d_def map_of_om_erase)
    qed (simp_all add: d_def)
    have wf: "disk_wf d" using snoc.prems(12) by (simp add: disk_wf_def d_def)
    have names: "named d xs"
    proof -
      have "seg_filename s' \<noteq> seg_filename s" if q: "(k', s') \<in> set xs" for k' s'
      proof
        assume eq: "seg_filename s' = seg_filename s"
        have "closed_seg env s'" "k' = seg_start s'" "k' < seg_start s"
          using q xs contig_keys [OF c(1) closed_seg_ok [OF xs] closed_seg_ne [OF xs], of k'] contig_key [OF c(1) q]
          by force+
        then show False using eq s closedFilename_inj by (fastforce simp: closed_seg_def makeClosedFilename_def)
      qed
      then show ?thesis using nm by (fastforce simp: d_def map_of_om_erase)
    qed
    have h: "xs \<noteq> [] \<longrightarrow> logStartIndex l1 \<le> seg_end (snd (hd xs)) + 1" using snoc.prems(9) by (auto simp: l1_def)
    obtain l' xs' where ih: "truncateClosedSegments i l1 = Some l'" "ready env l' n xs' (i + 1)"
      "logStartIndex l' = logStartIndex l1" "seg_list xs' = take (i + 1 - n) (seg_list xs)"
      "sl_metadata l' = sl_metadata l1" "sl_raft_metadata l' = sl_raft_metadata l1"
      using snoc.IH [of l1 "seg_start s"] c xs snoc.prems(2,4,8,10) h p wf names 2 by (auto simp: l1_def)
    have "truncateClosedSegments i l = truncateClosedSegments i l1"
      using 2 by (subst truncateClosedSegments.simps) (simp add: segs rem)
    moreover have "take (i + 1 - n) (seg_list (xs @ [x])) = take (i + 1 - n) (seg_list xs)"
      using lenxs 2 by simp
    ultimately show ?thesis using ih by (auto simp: l1_def)
  next
    case 3
    obtain c1 d where t: "truncateClosedSegment i s l = Some (l\<lparr>sl_disk := d,
        totalClosedSegmentBytes := seg_sum xs + seg_bytes c1, segmentsByStartIndex := xs @ [(seg_start s, c1)]\<rparr>)"
      and c1: "closed_seg env c1" "seg_start c1 = seg_start s" "seg_end c1 = i"
        "seg_entries c1 = take (i + 1 - seg_start s) (seg_entries s)"
      and wf: "disk_wf d" "prepared_ok d (preparedSegments l)"
      using truncateClosedSegment_ok [OF segs s 3 j snoc.prems(12,13)] snoc.prems(6) by (auto simp: x)
    define l1 where "l1 = l\<lparr>sl_disk := d, totalClosedSegmentBytes := seg_sum xs + seg_bytes c1,
      segmentsByStartIndex := xs @ [(seg_start s, c1)]\<rparr>"
    have "truncateClosedSegments i l1 = Some l1"
      by (subst truncateClosedSegments.simps) (simp add: l1_def c1)
    then have "truncateClosedSegments i l = Some l1"
      using 3 by (subst truncateClosedSegments.simps) (simp add: segs t l1_def [symmetric])
    moreover have "ready env l1 n (xs @ [(seg_start s, c1)]) (i + 1)"
      using snoc.prems(2,8,9,10) c xs c1 wf
      by (cases xs) (auto simp: ready_def l1_def contig_append)
    moreover have "seg_list (xs @ [(seg_start s, c1)]) = take (i + 1 - n) (seg_list (xs @ [x]))"
      using lenxs 3 c1(4) by (simp add: x take_map)
    ultimately show ?thesis by (auto simp: l1_def)
  qed
qed

text \<open>Closing the open segment on disk and in memory: the two cases with what holds afterwards.\<close>

lemma head_file:
  assumes "has_head l os"
  obtains fd i pos j where "openSegmentFile l = Some fd" "d_fds (sl_disk l) fd = Some (i, pos)" "fd \<noteq> dirFd"
    "map_of (d_names (sl_disk l)) (seg_filename os) = Some j"
    "seg_filename os \<notin> fst ` set (openSegments (preparedSegments l))"
    "fd \<notin> snd ` set (openSegments (preparedSegments l))"
  using assms that by (auto simp: has_head_def has_file_def off_queue_def split: option.splits)

lemma closeSegment_full_ready:
  assumes s: "sl_shape env l n xs os" and h: "has_head l os" and ne: "seg_entries os \<noteq> []"
    and wf: "disk_wf (sl_disk l)" "prepared_ok (sl_disk l) (preparedSegments l)"
  obtains l' where "closeSegment l = Some l'" "ready env l' n (xs @ [(seg_start os, closeMem os)]) (seg_end os + 1)"
    "logStartIndex l' = logStartIndex l" "sl_metadata l' = sl_metadata l" "sl_raft_metadata l' = sl_raft_metadata l"
proof -
  obtain fd i pos j where f: "openSegmentFile l = Some fd" "d_fds (sl_disk l) fd = Some (i, pos)" "fd \<noteq> dirFd"
    and j: "map_of (d_names (sl_disk l)) (seg_filename os) = Some j"
    and q: "seg_filename os \<notin> fst ` set (openSegments (preparedSegments l))"
      "fd \<notin> snd ` set (openSegments (preparedSegments l))"
    using head_file [OF h] .
  have o: "prefix ''open-'' (seg_filename os)" "segmentsByStartIndex l = xs @ [(seg_start os, os)]"
    using s by (simp_all add: sl_shape_def open_seg_def)
  have "0 < length (seg_entries os)" using ne by simp
  then have e: "seg_start os \<le> seg_end os"
    using shape_open(3) [OF s] unfolding seg_ok_def by linarith
  note cl = closeSegment_full [OF f j o(2) e o(1) refl refl]
  have "prepared_ok d' (preparedSegments l)"
    if "map_of (d_names d') = (map_of (d_names (sl_disk l)))(seg_filename os := None, makeClosedFilename os := Some j)"
      "d_fds d' = (d_fds (sl_disk l))(fd := None)" for d'
    by (rule prepared_ok_erase [OF wf(2) q(1) that(1)]) (use that(2) q(2) open_not_closed in auto)
  moreover have "disk_wf d'" if "d_fds d' = (d_fds (sl_disk l))(fd := None)" "d_next d' = d_next (sl_disk l)" for d'
    using that wf(1) by (auto simp: disk_wf_def)
  ultimately show thesis
    using that [OF cl ready_closed [OF s ne]] by (simp add: map_of_om_set map_of_om_erase)
qed

text \<open>Opening a new segment behind what is left ends both ways of truncating a suffix.\<close>

lemma reopen_ok:
  assumes env: "env_ok env" and s: "sl_shape env l n xs os" and start: "logStartIndex l \<le> i + 1"
    and r: "ready env l2 n ys (i + 1)" and ls: "logStartIndex l2 = logStartIndex l"
    and ys: "seg_list ys = take (i + 1 - n) (seg_list xs @ map snd (seg_entries os))"
  obtains l' where "do { l1 \<leftarrow> openNewSegment env l2; assertInvariants env l1; Some l1 } = Some l'" "sl_inv env l'"
    "sl_stored l' = (fst (sl_stored l), take (i + 1 - fst (sl_stored l)) (snd (sl_stored l)))"
proof -
  note st = shape_stored [OF s]
  obtain l' where l': "openNewSegment env l2 = Some l'" using openNewSegment_ok [OF r] by metis
  note n' = openNewSegment_shape [OF r l']
  obtain os' where s': "sl_shape env l' n ys os'" "seg_entries os' = []" using n'(1) by blast
  have "sl_stored l' = (logStartIndex l, drop (logStartIndex l - n) (seg_list ys))"
    using shape_stored(1) [OF s'(1)] s'(2) n'(4) ls by simp
  also have "\<dots> = (fst (sl_stored l), take (i + 1 - fst (sl_stored l)) (snd (sl_stored l)))"
    using start st(1,3) by (simp add: ys drop_take del: drop_append take_append)
  finally show thesis using that l' n'(2) shape_assert [OF env s'(1)] by simp
qed

lemma shape_closed_length:
  assumes "sl_shape env l n xs os"
  shows "length (seg_list xs) = seg_start os - n" "n \<le> seg_start os"
proof -
  have "contig n xs (seg_start os)" "all_segs (seg_ok env) xs"
    using assms by (auto simp: sl_shape_def closed_seg_def)
  then show "length (seg_list xs) = seg_start os - n" "n \<le> seg_start os" using contig_length by fastforce+
qed

text \<open>The new end lies in the open segment, which is cut and closed.\<close>

lemma truncateSuffix_in_open:
  assumes env: "env_ok env" and s: "sl_shape env l n xs os" and h: "has_head l os"
    and wf: "disk_wf (sl_disk l)" "prepared_ok (sl_disk l) (preparedSegments l)"
    and start: "logStartIndex l \<le> i + 1" and i: "i < seg_end os" "seg_start os \<le> i"
  obtains l2 ys where "sl_truncateSuffix env l i =
      do { l1 \<leftarrow> openNewSegment env l2; assertInvariants env l1; Some l1 }"
    "ready env l2 n ys (i + 1)" "logStartIndex l2 = logStartIndex l"
    "seg_list ys = take (i + 1 - n) (seg_list xs @ map snd (seg_entries os))"
proof -
  note o = shape_open [OF s]
  have segs: "segmentsByStartIndex l = xs @ [(seg_start os, os)]" using s by (simp add: sl_shape_def)
  obtain c where c: "cutSegment i os = Some c" "seg_ok env c" "seg_start c = seg_start os" "seg_end c = i"
    "seg_entries c = take (i + 1 - seg_start os) (seg_entries os)" "seg_entries c \<noteq> []" "seg_isOpen c = seg_isOpen os"
    "seg_filename c = seg_filename os"
    using cutSegment_ok [OF o(3) i(2,1)] by metis
  define l1 where "l1 = updateOpenSegment (\<lambda>s. c) l"
  have l1: "l1 = l\<lparr>segmentsByStartIndex := xs @ [(seg_start os, c)]\<rparr>"
    by (simp add: l1_def updateOpenSegment_snoc [OF segs])
  have s1: "sl_shape env l1 n xs c"
    using s c start by (cases xs) (simp_all add: sl_shape_def l1 open_seg_def)
  have h1: "has_head l1 c" using h c by (simp add: has_head_def l1)
  obtain l2 where l2: "closeSegment l1 = Some l2" "ready env l2 n (xs @ [(seg_start c, closeMem c)]) (seg_end c + 1)"
    "logStartIndex l2 = logStartIndex l1"
    using closeSegment_full_ready [OF s1 h1 c(6)] wf by (auto simp: l1)
  have "sl_truncateSuffix env l i = do { l1 \<leftarrow> openNewSegment env l2; assertInvariants env l1; Some l1 }"
    using i o c(1) l2(1) by (simp add: sl_truncateSuffix_def l1_def)
  moreover have "seg_list (xs @ [(seg_start c, closeMem c)]) =
      take (i + 1 - n) (seg_list xs @ map snd (seg_entries os))"
    using shape_closed_length [OF s] i c(5) by (simp add: take_map)
  ultimately show thesis using that l2 c by (simp add: l1)
qed

text \<open>The new end lies before the open segment, which is removed before the closed ones are cut.\<close>

lemma truncateSuffix_in_closed:
  assumes env: "env_ok env" and s: "sl_shape env l n xs os" and h: "has_head l os"
    and wf: "disk_wf (sl_disk l)" "prepared_ok (sl_disk l) (preparedSegments l)"
    and can: "can_truncateSuffix l i" and i: "i < seg_end os" "i < seg_start os"
  obtains l2 ys where "sl_truncateSuffix env l i =
      do { l1 \<leftarrow> openNewSegment env l2; assertInvariants env l1; Some l1 }"
    "ready env l2 n ys (i + 1)" "logStartIndex l2 = logStartIndex l"
    "seg_list ys = take (i + 1 - n) (seg_list xs @ map snd (seg_entries os))"
proof -
  note o = shape_open [OF s]
  have segs: "segmentsByStartIndex l = xs @ [(seg_start os, os)]" using s by (simp add: sl_shape_def)
  define os0 where "os0 = os\<lparr>seg_end := seg_start os - 1, seg_bytes := 0\<rparr>"
  define l1 where "l1 = updateOpenSegment (\<lambda>s. s\<lparr>seg_end := seg_start s - 1, seg_bytes := 0\<rparr>) l"
  have l1: "l1 = l\<lparr>segmentsByStartIndex := xs @ [(seg_start os0, os0)]\<rparr>"
    by (simp add: l1_def updateOpenSegment_snoc [OF segs] os0_def)
  obtain fd fi pos j where f: "openSegmentFile l = Some fd" "d_fds (sl_disk l) fd = Some (fi, pos)" "fd \<noteq> dirFd"
    and q: "seg_filename os \<notin> fst ` set (openSegments (preparedSegments l))"
      "fd \<notin> snd ` set (openSegments (preparedSegments l))"
    using head_file [OF h] .
  define d where "d = (sl_disk l)\<lparr>d_fds := (d_fds (sl_disk l))(fd := None),
     d_names := om_erase (seg_filename os) (d_names (sl_disk l)),
     d_dnames := om_erase (seg_filename os) (d_names (sl_disk l))\<rparr>"
  define l2 where "l2 = l1\<lparr>sl_disk := d, openSegmentFile := None, segmentsByStartIndex := xs\<rparr>"
  have xs: "contig n xs (seg_start os)" "all_segs (closed_seg env) xs" "prefix ''open-'' (seg_filename os)"
      "totalClosedSegmentBytes l = seg_sum xs" "n \<le> logStartIndex l"
      "xs \<noteq> [] \<longrightarrow> logStartIndex l \<le> seg_end (snd (hd xs)) + 1"
    using s by (cases xs; simp add: sl_shape_def open_seg_def)+
  have pos: "0 < seg_start os" using o(3) by (simp add: seg_ok_def)
  have cl: "closeSegment l1 = Some l2"
    using closeSegment_empty [of l1 fd xs os0] f xs pos
      contig_keys [OF xs(1) closed_seg_ok [OF xs(2)] closed_seg_ne [OF xs(2)]]
    by (simp add: l1 l2_def d_def os0_def domI)
  have p: "prepared_ok d (preparedSegments l)"
    by (rule prepared_ok_erase [OF wf(2) q(1), of _ "seg_filename os" None])
      (use q(2) in \<open>auto simp: d_def map_of_om_erase\<close>)
  have w: "disk_wf d" using wf(1) by (auto simp: disk_wf_def d_def)
  have "seg_filename s' \<noteq> seg_filename os" if "(k', s') \<in> set xs" for k' s'
    using xs(2,3) that open_not_closed by (fastforce simp: closed_seg_def)
  then have nm: "named d xs" using can by (fastforce simp: can_truncateSuffix_def segs d_def map_of_om_erase)
  obtain l3 ys where l3: "truncateClosedSegments i l2 = Some l3" "ready env l3 n ys (i + 1)"
    "logStartIndex l3 = logStartIndex l2" "seg_list ys = take (i + 1 - n) (seg_list xs)"
    using truncateClosedSegments_ok [OF env, of l2 xs n "seg_start os" i] xs nm p w i can shape_head(2) [OF s]
    by (auto simp: l2_def l1 can_truncateSuffix_def)
  have "sl_truncateSuffix env l i = do { l1 \<leftarrow> openNewSegment env l3; assertInvariants env l1; Some l1 }"
    using i o l3(1) cl by (simp add: sl_truncateSuffix_def l1_def)
  moreover have "take (i + 1 - n) (seg_list xs @ map snd (seg_entries os)) = take (i + 1 - n) (seg_list xs)"
    using shape_closed_length [OF s] i by simp
  ultimately show thesis using that l3 by (simp add: l2_def l1)
qed

lemma sl_truncateSuffix_ok:
  assumes env: "env_ok env" and inv: "sl_inv env l" and can: "can_truncateSuffix l i"
  obtains l' where "sl_truncateSuffix env l i = Some l'" "sl_inv env l'"
    "sl_stored l' = (fst (sl_stored l), take (i + 1 - fst (sl_stored l)) (snd (sl_stored l)))"
proof -
  obtain n xs os where s: "sl_shape env l n xs os" and h: "has_head l os"
    and wf: "disk_wf (sl_disk l)" "prepared_ok (sl_disk l) (preparedSegments l)"
    using sl_invE [OF inv] .
  have start: "logStartIndex l \<le> i + 1" using can by (simp add: can_truncateSuffix_def)
  show thesis
  proof (cases "seg_end os \<le> i")
    case True
    then have "take (i + 1 - fst (sl_stored l)) (snd (sl_stored l)) = snd (sl_stored l)"
      using shape_last_law [OF s] shape_open(2) [OF s] by simp
    moreover have "sl_truncateSuffix env l i = Some l" using True shape_open(2) [OF s] by (simp add: sl_truncateSuffix_def)
    ultimately show thesis using that inv by simp
  next
    case False
    then have i: "i < seg_end os" by simp
    obtain l2 ys where t: "sl_truncateSuffix env l i =
        do { l1 \<leftarrow> openNewSegment env l2; assertInvariants env l1; Some l1 }"
      and l2: "ready env l2 n ys (i + 1)" "logStartIndex l2 = logStartIndex l"
        "seg_list ys = take (i + 1 - n) (seg_list xs @ map snd (seg_entries os))"
    proof (cases "seg_start os \<le> i")
      case True
      show thesis using truncateSuffix_in_open [OF env s h wf start i True] that .
    next
      case False
      then have "i < seg_start os" by simp
      then show thesis using truncateSuffix_in_closed [OF env s h wf can i] that by blast
    qed
    obtain l' where "do { l1 \<leftarrow> openNewSegment env l2; assertInvariants env l1; Some l1 } = Some l'" "sl_inv env l'"
      "sl_stored l' = (fst (sl_stored l), take (i + 1 - fst (sl_stored l)) (snd (sl_stored l)))"
      using reopen_ok [OF env s start l2] .
    then show thesis using that t by simp
  qed
qed

end
