(* ===== verification/LC_SegmentedLogLoad.thy ===== *)
theory LC_SegmentedLogLoad
  imports LC_SegmentedLogOps
begin

text \<open>
  Reading segment files back: what the loops over records return on the bytes that the log writes, with
  anything unreadable behind them, and what loading a single segment does to the log and to the disk.
\<close>

section \<open>The bytes of a segment\<close>

abbreviation readEntry :: "StorageEnv \<Rightarrow> string \<Rightarrow> nat \<Rightarrow> (ReadError + LogEntry \<times> nat) option" where
  "readEntry env \<equiv> readProtoFromFile (se_algorithms env) (se_encoding env) (se_entry env)"

definition entry_ok :: "StorageEnv \<Rightarrow> LogEntry \<Rightarrow> bool" where
  "entry_ok env e = record_ok (se_algorithms env) (se_checksumAlgorithm env) (se_encoding env) (se_entry env) e"

definition records :: "StorageEnv \<Rightarrow> (nat \<times> LogEntry) list \<Rightarrow> string" where
  "records env es = concat (map (\<lambda>(off, e). recordOf env e) es)"

definition fileBytes :: "StorageEnv \<Rightarrow> Segment \<Rightarrow> string" where
  "fileBytes env s = segmentHeader @ records env (seg_entries s)"

text \<open>Nothing can be read from a position on: it is the end of the file, or what is there is rejected.\<close>

definition unreadable :: "StorageEnv \<Rightarrow> string \<Rightarrow> nat \<Rightarrow> bool" where
  "unreadable env file off \<longleftrightarrow> length file \<le> off \<or> (\<exists>e. readEntry env file off = Some (Inl e))"

lemma records_simps [simp]:
  "records env [] = []" "records env ((off, e) # es) = recordOf env e @ records env es"
  by (simp_all add: records_def)

lemma layout_length: "layout env off es e \<Longrightarrow> e = off + length (records env es)"
proof (induction es arbitrary: off)
  case (Cons x es)
  obtain o1 en where x: "x = (o1, en)" by fastforce
  have "e = off + length (recordOf env en) + length (records env es)" using Cons by (simp only: x layout.simps)
  then show ?case by (simp add: x)
qed simp

lemma length_fileBytes: "seg_ok env s \<Longrightarrow> length (fileBytes env s) = seg_bytes s"
  using layout_length [of env headerSize "seg_entries s" "seg_bytes s"]
  by (simp add: seg_ok_def fileBytes_def segmentHeader_def headerSize_def)

lemma readEntry_at:
  assumes "env_ok env" "entry_ok env e" "length (pre @ recordOf env e @ rest) < 2 ^ 64"
  shows "readEntry env (pre @ recordOf env e @ rest) (length pre) = Some (Inr (e, length pre + length (recordOf env e)))"
  using readProto_at [OF _ _ assms(3)] assms(2) serializeEntry_recordOf(1) [OF assms(1), of e]
  by (simp add: entry_ok_def serializeEntry_def)

lemma readClosed_at:
  assumes env: "env_ok env"
  shows "layout env (length pre) es e \<Longrightarrow> \<forall>x \<in> snd ` set es. entry_ok env x \<Longrightarrow>
    length (pre @ records env es @ tail) < 2 ^ 64 \<Longrightarrow>
    readClosedEntries env (pre @ records env es @ tail) (length es) (length pre) = Some (es, e)"
proof (induction es arbitrary: pre)
  case (Cons x es)
  obtain en where x: "x = (length pre, en)" using Cons.prems(1) by (cases x) auto
  let ?f = "pre @ records env (x # es) @ tail"
  have read: "readEntry env ?f (length pre) = Some (Inr (en, length pre + length (recordOf env en)))"
    using readEntry_at [OF env, of en pre "records env es @ tail"] Cons.prems(2,3) by (simp add: x)
  have "readClosedEntries env ((pre @ recordOf env en) @ records env es @ tail) (length es)
      (length (pre @ recordOf env en)) = Some (es, e)"
    using Cons.prems by (intro Cons.IH) (auto simp: x)
  then have "readClosedEntries env ?f (length es) (length pre + length (recordOf env en)) = Some (es, e)"
    by (simp add: x)
  moreover have "length pre < length ?f" using recordOf_nonempty [OF env, of en] by (simp add: x)
  ultimately show ?case using read by (simp add: x)
qed simp

lemma readOpen_at:
  assumes env: "env_ok env"
  shows "layout env (length pre) es e \<Longrightarrow> \<forall>x \<in> snd ` set es. entry_ok env x \<Longrightarrow>
    length (pre @ records env es @ tail) < 2 ^ 64 \<Longrightarrow> unreadable env (pre @ records env es @ tail) e \<Longrightarrow>
    readOpenEntries env (pre @ records env es @ tail) (length pre) = Some (es, e, tail \<noteq> [])"
proof (induction es arbitrary: pre)
  case Nil
  then show ?case by (subst readOpenEntries.simps) (auto simp: unreadable_def split: option.splits sum.splits)
next
  case (Cons x es)
  obtain en where x: "x = (length pre, en)" using Cons.prems(1) by (cases x) auto
  let ?f = "pre @ records env (x # es) @ tail"
  have read: "readEntry env ?f (length pre) = Some (Inr (en, length pre + length (recordOf env en)))"
    using readEntry_at [OF env, of en pre "records env es @ tail"] Cons.prems(2,3) by (simp add: x)
  have "readOpenEntries env ((pre @ recordOf env en) @ records env es @ tail) (length (pre @ recordOf env en)) =
      Some (es, e, tail \<noteq> [])"
    using Cons.prems by (intro Cons.IH) (auto simp: x)
  then have "readOpenEntries env ?f (length pre + length (recordOf env en)) = Some (es, e, tail \<noteq> [])"
    by (simp add: x)
  moreover have "length pre < length ?f" using recordOf_nonempty [OF env, of en] by (simp add: x)
  ultimately show ?case using read by (subst readOpenEntries.simps) (simp add: x)
qed

text \<open>The zeros that a preallocated file has behind its records are unreadable.\<close>

lemma unreadable_zeros:
  assumes "length (bytes @ zeros k) < 2 ^ 64"
  shows "unreadable env (bytes @ zeros k) (length bytes)"
  using readProto_zeros [of "length bytes" "bytes @ zeros k" k "se_algorithms env" "se_encoding env" "se_entry env"] assms
  by (auto simp: unreadable_def zeros_def)

lemma openNewSegment_returns:
  assumes "ready env l n xs m"
  obtains l' where "openNewSegment env l = Some l'"
  using openNewSegment_ok [OF assms] by metis

section \<open>Loading one segment\<close>

text \<open>A disk with one more descriptor number used; opening and closing a file leaves nothing else behind.\<close>

lemma openFile_existing:
  assumes "map_of (d_names d) name = Some i" "\<not> prefix ''/'' name"
  shows "fs_openFile False False False name d =
    Some (d_next d, d\<lparr>d_fds := (d_fds d)(d_next d \<mapsto> (i, 0)), d_next := d_next d + 1\<rparr>)"
  using assms by (simp add: fs_openFile_def fs_openat_def)

text \<open>The disk after loading a segment: cut to its records, or removed.\<close>

definition keptDisk :: "nat \<Rightarrow> string \<Rightarrow> Disk \<Rightarrow> Disk" where
  "keptDisk i bytes d =
     d\<lparr>d_fds := (d_fds d)(d_next d := None), d_next := d_next d + 1, d_data := (d_data d)(i := bytes),
       d_durable := (if d_data d i = bytes then d_durable d else (d_durable d)(i := bytes))\<rparr>"

definition droppedDisk :: "string \<Rightarrow> nat \<Rightarrow> string \<Rightarrow> Disk \<Rightarrow> Disk" where
  "droppedDisk name i bytes d =
     (keptDisk i bytes d)\<lparr>d_names := om_erase name (d_names d), d_dnames := om_erase name (d_names d)\<rparr>"

definition renamedDisk :: "string \<Rightarrow> string \<Rightarrow> nat \<Rightarrow> string \<Rightarrow> Disk \<Rightarrow> Disk" where
  "renamedDisk name name' i bytes d =
     (keptDisk i bytes d)\<lparr>d_names := om_set name' i (om_erase name (d_names d)),
        d_dnames := om_set name' i (om_erase name (d_names d))\<rparr>"

definition rawClosed :: "string \<Rightarrow> nat \<Rightarrow> nat \<Rightarrow> Segment" where
  "rawClosed name a b = \<lparr>seg_isOpen = False, seg_start = a, seg_end = b, seg_bytes = 0, seg_filename = name,
     seg_entries = []\<rparr>"

definition rawOpen :: "string \<Rightarrow> Segment" where
  "rawOpen name = \<lparr>seg_isOpen = True, seg_start = u64_max, seg_end = u64_max - 1, seg_bytes = 0,
     seg_filename = name, seg_entries = []\<rparr>"

lemma loadClosed_stale:
  assumes "map_of (d_names (sl_disk l)) name = Some i" "d_data (sl_disk l) i \<noteq> []"
    "hd (d_data (sl_disk l) i) = CHR 0x01" "b < start" "\<not> prefix ''/'' name"
  shows "loadClosedSegment env (rawClosed name a b) start l =
    Some (None, l\<lparr>sl_disk := droppedDisk name i (d_data (sl_disk l) i) (sl_disk l)\<rparr>)"
  using assms
  by (simp add: loadClosedSegment_def rawClosed_def openFile_existing fs_contents_def fs_removeFile_def fs_fsync_def
      fs_close_def droppedDisk_def keptDisk_def Suc_le_eq dirFd_def)

lemma take_short: "n < length f \<Longrightarrow> take n f \<noteq> f"
proof
  assume "n < length f" "take n f = f"
  then have "length (take n f) = length f" by simp
  then show False using \<open>n < length f\<close> by simp
qed

lemma loadClosed_read:
  assumes "map_of (d_names (sl_disk l)) name = Some i" "d_data (sl_disk l) i = f" "f \<noteq> []" "hd f = CHR 0x01"
    "\<not> b < start" "readClosedEntries env f (b + 1 - a) 1 = Some (es, off)" "off \<le> length f"
    "\<not> prefix ''/'' name" "dirFd < d_next (sl_disk l)"
  shows "loadClosedSegment env (rawClosed name a b) start l =
    Some (Some ((rawClosed name a b)\<lparr>seg_entries := es, seg_bytes := off\<rparr>),
      l\<lparr>sl_disk := keptDisk i (take off f) (sl_disk l),
        totalClosedSegmentBytes := totalClosedSegmentBytes l + off\<rparr>)"
proof (cases "off < length f")
  case True
  then have "f \<noteq> take off f" by (rule take_short [symmetric])
  then show ?thesis
    using assms True
    by (simp add: loadClosedSegment_def rawClosed_def openFile_existing fs_contents_def fs_fsync_def fs_truncate_def
        fs_close_def keptDisk_def Suc_le_eq)
next
  case False
  then show ?thesis
    using assms fun_upd_idem [of "d_data (sl_disk l)" i f]
    by (simp add: loadClosedSegment_def rawClosed_def openFile_existing fs_contents_def fs_close_def keptDisk_def Suc_le_eq)
qed

text \<open>A closed segment that is still needed is read as it was written.\<close>

lemma loadClosed_kept:
  assumes env: "env_ok env" and s: "closed_seg env s" "\<forall>x \<in> snd ` set (seg_entries s). entry_ok env x"
    and i: "map_of (d_names (sl_disk l)) (seg_filename s) = Some i" "d_data (sl_disk l) i = fileBytes env s @ tail"
    and len: "length (fileBytes env s @ tail) < 2 ^ 64" and start: "\<not> seg_end s < start"
    and dn: "dirFd < d_next (sl_disk l)"
  shows "loadClosedSegment env (rawClosed (seg_filename s) (seg_start s) (seg_end s)) start l =
    Some (Some s, l\<lparr>sl_disk := keptDisk i (fileBytes env s) (sl_disk l),
      totalClosedSegmentBytes := totalClosedSegmentBytes l + seg_bytes s\<rparr>)"
proof -
  have ok: "seg_ok env s" "\<not> seg_isOpen s" "seg_filename s = makeClosedFilename s" using s by (simp_all add: closed_seg_def)
  have slash: "\<not> prefix ''/'' (seg_filename s)" using ok(3) by (simp add: makeClosedFilename_def)
  have n: "seg_end s + 1 - seg_start s = length (seg_entries s)" using ok(1) by (simp add: seg_ok_def)
  have "readClosedEntries env (segmentHeader @ records env (seg_entries s) @ tail) (length (seg_entries s))
      (length segmentHeader) = Some (seg_entries s, seg_bytes s)"
    using ok(1) s(2) len by (intro readClosed_at [OF env]) (auto simp: seg_ok_def segmentHeader_def headerSize_def fileBytes_def)
  then have rd: "readClosedEntries env (fileBytes env s @ tail) (seg_end s + 1 - seg_start s) 1 = Some (seg_entries s, seg_bytes s)"
    by (simp only: n) (simp add: fileBytes_def segmentHeader_def)
  have lb: "length (fileBytes env s) = seg_bytes s" by (rule length_fileBytes [OF ok(1)])
  have hd: "fileBytes env s @ tail \<noteq> []" "hd (fileBytes env s @ tail) = CHR 0x01"
    by (simp_all add: fileBytes_def segmentHeader_def)
  have seg: "(rawClosed (seg_filename s) (seg_start s) (seg_end s))\<lparr>seg_entries := seg_entries s, seg_bytes := seg_bytes s\<rparr> = s"
    using ok(2) by (simp add: rawClosed_def)
  show ?thesis
    using loadClosed_read [OF i hd start rd _ slash dn] by (simp add: lb seg)
qed

text \<open>Open segments: those with entries that are needed become closed segments, the others are removed.\<close>

lemma loadOpen_read:
  assumes i: "map_of (d_names (sl_disk l)) name = Some i" "d_data (sl_disk l) i = f"
    and f: "f = [] \<or> hd f = CHR 0x01"
    and rd: "readOpenEntries env f (if f = [] then 0 else 1) = Some (es, off, broken)"
    and off: "off \<le> length f" "\<not> broken \<Longrightarrow> off = length f" "broken \<Longrightarrow> off < length f"
    and slash: "\<not> prefix ''/'' name" and dn: "dirFd < d_next (sl_disk l)"
  shows "es = [] \<or> entryIndex (snd (last es)) < start \<Longrightarrow> loadOpenSegment env (rawOpen name) start l =
      Some (None, l\<lparr>sl_disk := droppedDisk name i (take off f) (sl_disk l)\<rparr>)"
    and "\<not> (es = [] \<or> entryIndex (snd (last es)) < start) \<Longrightarrow>
      s = (rawOpen name)\<lparr>seg_entries := es, seg_bytes := off, seg_isOpen := False,
             seg_start := entryIndex (snd (hd es)), seg_end := entryIndex (snd (last es))\<rparr> \<Longrightarrow>
      loadOpenSegment env (rawOpen name) start l =
      Some (Some (s\<lparr>seg_filename := makeClosedFilename s\<rparr>),
        l\<lparr>sl_disk := renamedDisk name (makeClosedFilename s) i (take off f) (sl_disk l),
          totalClosedSegmentBytes := totalClosedSegmentBytes l + off\<rparr>)"
proof -
  have ne': "f \<noteq> take off f" if broken using take_short [OF off(3) [OF that]] by (rule not_sym)
  have slash': "\<not> prefix ''/'' (makeClosedFilename x)" for x by (simp add: makeClosedFilename_def)
  have raw: "seg_isOpen (rawOpen name)" "seg_filename (rawOpen name) = name" by (simp_all add: rawOpen_def)
  show "es = [] \<or> entryIndex (snd (last es)) < start \<Longrightarrow> loadOpenSegment env (rawOpen name) start l =
      Some (None, l\<lparr>sl_disk := droppedDisk name i (take off f) (sl_disk l)\<rparr>)"
    using i f rd off slash dn ne' fun_upd_idem [of "d_data (sl_disk l)" i f]
    by (cases broken)
      (simp_all add: loadOpenSegment_def raw openFile_existing fs_contents_def fs_fsync_def fs_truncate_def fs_removeFile_def
        fs_close_def keptDisk_def droppedDisk_def)
  show "\<not> (es = [] \<or> entryIndex (snd (last es)) < start) \<Longrightarrow>
      s = (rawOpen name)\<lparr>seg_entries := es, seg_bytes := off, seg_isOpen := False,
             seg_start := entryIndex (snd (hd es)), seg_end := entryIndex (snd (last es))\<rparr> \<Longrightarrow>
      loadOpenSegment env (rawOpen name) start l =
      Some (Some (s\<lparr>seg_filename := makeClosedFilename s\<rparr>),
        l\<lparr>sl_disk := renamedDisk name (makeClosedFilename s) i (take off f) (sl_disk l),
          totalClosedSegmentBytes := totalClosedSegmentBytes l + off\<rparr>)"
    using i f rd off slash slash' dn ne' fun_upd_idem [of "d_data (sl_disk l)" i f]
    by (cases broken)
      (simp_all add: loadOpenSegment_def raw openFile_existing fs_contents_def fs_fsync_def fs_truncate_def fs_rename_def
        fs_close_def keptDisk_def renamedDisk_def Let_def)
qed

lemma seg_ok_indexes:
  assumes "seg_ok env s" "seg_entries s \<noteq> []"
  shows "entryIndex (snd (hd (seg_entries s))) = seg_start s" "entryIndex (snd (last (seg_entries s))) = seg_end s"
proof -
  let ?n = "length (seg_entries s)"
  have idx: "\<forall>i < ?n. le_index (snd (seg_entries s ! i)) = Some (seg_start s + i)" and n: "0 < ?n"
      "seg_end s + 1 = seg_start s + ?n"
    using assms by (auto simp: seg_ok_def)
  show "entryIndex (snd (hd (seg_entries s))) = seg_start s"
    using idx n(1) assms(2) by (simp add: hd_conv_nth entryIndex_def)
  have "?n - 1 < ?n" "seg_start s + (?n - 1) = seg_end s" using n by linarith+
  then show "entryIndex (snd (last (seg_entries s))) = seg_end s"
    using idx assms(2) by (simp add: last_conv_nth entryIndex_def)
qed

lemma loadOpen_kept:
  assumes env: "env_ok env" and s: "open_seg env s" "\<forall>x \<in> snd ` set (seg_entries s). entry_ok env x"
    and ne: "seg_entries s \<noteq> []" and start: "\<not> seg_end s < start"
    and i: "map_of (d_names (sl_disk l)) (seg_filename s) = Some i" "d_data (sl_disk l) i = fileBytes env s @ tail"
    and len: "length (fileBytes env s @ tail) < 2 ^ 64"
    and un: "unreadable env (fileBytes env s @ tail) (seg_bytes s)" and dn: "dirFd < d_next (sl_disk l)"
  shows "loadOpenSegment env (rawOpen (seg_filename s)) start l =
    Some (Some (closeMem s), l\<lparr>sl_disk :=
        renamedDisk (seg_filename s) (makeClosedFilename s) i (fileBytes env s) (sl_disk l),
      totalClosedSegmentBytes := totalClosedSegmentBytes l + seg_bytes s\<rparr>)"
proof -
  have ok: "seg_ok env s" "prefix ''open-'' (seg_filename s)" using s by (simp_all add: open_seg_def)
  have slash: "\<not> prefix ''/'' (seg_filename s)" using ok(2) by (auto simp: prefix_def)
  have lb: "length (fileBytes env s) = seg_bytes s" by (rule length_fileBytes [OF ok(1)])
  have "readOpenEntries env (segmentHeader @ records env (seg_entries s) @ tail) (length segmentHeader) =
      Some (seg_entries s, seg_bytes s, tail \<noteq> [])"
    using ok(1) s(2) len un by (intro readOpen_at [OF env]) (auto simp: seg_ok_def segmentHeader_def headerSize_def fileBytes_def)
  moreover have "length segmentHeader = (if fileBytes env s @ tail = [] then 0 else 1)"
    by (simp add: segmentHeader_def fileBytes_def)
  ultimately have rd: "readOpenEntries env (fileBytes env s @ tail) (if fileBytes env s @ tail = [] then 0 else 1) =
      Some (seg_entries s, seg_bytes s, tail \<noteq> [])"
    by (simp add: fileBytes_def)
  have hd: "fileBytes env s @ tail = [] \<or> hd (fileBytes env s @ tail) = CHR 0x01"
    by (simp add: fileBytes_def segmentHeader_def)
  define s1 where "s1 = (rawOpen (seg_filename s))\<lparr>seg_entries := seg_entries s, seg_bytes := seg_bytes s, seg_isOpen := False,
      seg_start := entryIndex (snd (hd (seg_entries s))), seg_end := entryIndex (snd (last (seg_entries s)))\<rparr>"
  have name: "makeClosedFilename s1 = makeClosedFilename s"
    using seg_ok_indexes [OF ok(1) ne] by (simp add: s1_def makeClosedFilename_def)
  have cm: "s1\<lparr>seg_filename := makeClosedFilename s\<rparr> = closeMem s"
    using seg_ok_indexes [OF ok(1) ne] by (simp add: s1_def rawOpen_def closeMem_def)
  have tk: "take (seg_bytes s) (fileBytes env s @ tail) = fileBytes env s" using lb by simp
  have "\<not> (seg_entries s = [] \<or> entryIndex (snd (last (seg_entries s))) < start)"
    using ne start seg_ok_indexes(2) [OF ok(1) ne] by simp
  then have "loadOpenSegment env (rawOpen (seg_filename s)) start l =
      Some (Some (s1\<lparr>seg_filename := makeClosedFilename s1\<rparr>),
        l\<lparr>sl_disk := renamedDisk (seg_filename s) (makeClosedFilename s1) i (take (seg_bytes s) (fileBytes env s @ tail)) (sl_disk l),
          totalClosedSegmentBytes := totalClosedSegmentBytes l + seg_bytes s\<rparr>)"
    using lb by (intro loadOpen_read(2) [OF i hd rd _ _ _ slash dn _ s1_def]) auto
  then show ?thesis by (simp only: name cm tk)
qed

end
