(* ===== verification/LC_LogContract.thy ===== *)
theory LC_LogContract
  imports LC_MemoryLog LC_SegmentedLogOps
begin

text \<open>
  The contract of \<^verbatim>\<open>Storage::Log\<close> for implementations whose operations may fail: under the conditions the
  interface names (\<open>can_append\<close>, \<open>can_cut\<close>) they return and have the specified effect. A log that never
  fails satisfies it, and so does the segmented log on disk. Its clients get that a sequence of
  operations behaves like the specification, whatever the implementation.
\<close>

section \<open>The specification\<close>

datatype 'e log_op = LogAppend "'e list" | LogTruncatePrefix nat | LogTruncateSuffix nat

text \<open>A log as its start index and its entries; appending returns the range of the new indexes.\<close>

fun spec_step :: "(nat \<Rightarrow> 'e \<Rightarrow> 'e) \<Rightarrow> nat \<times> 'e list \<Rightarrow> 'e log_op \<Rightarrow> (nat \<times> nat) option \<times> nat \<times> 'e list" where
  "spec_step stamp (s, es) (LogAppend xs) =
     (Some (s + length es, s + length es + length xs - 1),
      s, es @ map (\<lambda>(i, e). stamp (s + length es + i) e) (zip [0..<length xs] xs))"
| "spec_step stamp (s, es) (LogTruncatePrefix i) = (None, max s i, drop (i - s) es)"
| "spec_step stamp (s, es) (LogTruncateSuffix i) = (None, s, take (i + 1 - s) es)"

fun spec_run :: "(nat \<Rightarrow> 'e \<Rightarrow> 'e) \<Rightarrow> nat \<times> 'e list \<Rightarrow> 'e log_op list \<Rightarrow> (nat \<times> nat) option list \<times> nat \<times> 'e list" where
  "spec_run stamp l [] = ([], l)"
| "spec_run stamp l (op # ops) =
     (let (r, l1) = spec_step stamp l op; (rs, l2) = spec_run stamp l1 ops in (r # rs, l2))"

text \<open>The operations of an implementation.\<close>

record ('l, 'e) LogImpl =
  impl_append :: "'l \<Rightarrow> 'e list \<Rightarrow> ((nat \<times> nat) \<times> 'l) option"
  impl_truncatePrefix :: "'l \<Rightarrow> nat \<Rightarrow> 'l option"
  impl_truncateSuffix :: "'l \<Rightarrow> nat \<Rightarrow> 'l option"

fun impl_step :: "('l, 'e) LogImpl \<Rightarrow> 'l \<Rightarrow> 'e log_op \<Rightarrow> ((nat \<times> nat) option \<times> 'l) option" where
  "impl_step m l (LogAppend es) = map_option (\<lambda>(r, l'). (Some r, l')) (impl_append m l es)"
| "impl_step m l (LogTruncatePrefix i) = map_option (Pair None) (impl_truncatePrefix m l i)"
| "impl_step m l (LogTruncateSuffix i) = map_option (Pair None) (impl_truncateSuffix m l i)"

fun impl_run :: "('l, 'e) LogImpl \<Rightarrow> 'l \<Rightarrow> 'e log_op list \<Rightarrow> ((nat \<times> nat) option list \<times> 'l) option" where
  "impl_run m l [] = Some ([], l)"
| "impl_run m l (op # ops) = do {
     (r, l1) \<leftarrow> impl_step m l op;
     (rs, l2) \<leftarrow> impl_run m l1 ops;
     Some (r # rs, l2)
   }"

text \<open>Every operation of the sequence is allowed where it is called.\<close>

fun op_allowed :: "('l \<Rightarrow> 'e list \<Rightarrow> bool) \<Rightarrow> ('l \<Rightarrow> nat \<Rightarrow> bool) \<Rightarrow> 'l \<Rightarrow> 'e log_op \<Rightarrow> bool" where
  "op_allowed can_append can_cut l (LogAppend es) \<longleftrightarrow> can_append l es"
| "op_allowed can_append can_cut l (LogTruncatePrefix i) \<longleftrightarrow> True"
| "op_allowed can_append can_cut l (LogTruncateSuffix i) \<longleftrightarrow> can_cut l i"

fun run_allowed ::
  "('l \<Rightarrow> 'e list \<Rightarrow> bool) \<Rightarrow> ('l \<Rightarrow> nat \<Rightarrow> bool) \<Rightarrow> ('l, 'e) LogImpl \<Rightarrow> 'l \<Rightarrow> 'e log_op list \<Rightarrow> bool" where
  "run_allowed can_append can_cut m l [] \<longleftrightarrow> True"
| "run_allowed can_append can_cut m l (op # ops) \<longleftrightarrow>
     op_allowed can_append can_cut l op \<and>
     (case impl_step m l op of None \<Rightarrow> True | Some (r, l1) \<Rightarrow> run_allowed can_append can_cut m l1 ops)"

section \<open>The contract\<close>

locale log_contract =
  fixes inv :: "'l \<Rightarrow> bool"
    and stored :: "'l \<Rightarrow> nat \<times> 'e list"
    and stamp :: "nat \<Rightarrow> 'e \<Rightarrow> 'e"
    and can_append :: "'l \<Rightarrow> 'e list \<Rightarrow> bool"
    and can_cut :: "'l \<Rightarrow> nat \<Rightarrow> bool"
    and impl :: "('l, 'e) LogImpl"
    and getEntry :: "'l \<Rightarrow> nat \<Rightarrow> 'e option"
    and getLogStartIndex :: "'l \<Rightarrow> nat"
    and getLastLogIndex :: "'l \<Rightarrow> nat"
  assumes c_start_pos: "inv l \<Longrightarrow> 0 < fst (stored l)"
    and c_start: "inv l \<Longrightarrow> getLogStartIndex l = fst (stored l)"
    and c_last: "inv l \<Longrightarrow> getLastLogIndex l + 1 = fst (stored l) + length (snd (stored l))"
    and c_get: "inv l \<Longrightarrow> getEntry l i =
      (if fst (stored l) \<le> i \<and> i < fst (stored l) + length (snd (stored l))
       then Some (snd (stored l) ! (i - fst (stored l))) else None)"
    and c_step: "inv l \<Longrightarrow> op_allowed can_append can_cut l op \<Longrightarrow>
      \<exists>l'. impl_step impl l op = Some (fst (spec_step stamp (stored l) op), l') \<and> inv l' \<and>
        stored l' = snd (spec_step stamp (stored l) op)"
begin

text \<open>A sequence of allowed operations returns, with the results of the specification.\<close>

lemma run_refines:
  "inv l \<Longrightarrow> run_allowed can_append can_cut impl l ops \<Longrightarrow>
   \<exists>l'. impl_run impl l ops = Some (fst (spec_run stamp (stored l) ops), l') \<and> inv l' \<and>
     stored l' = snd (spec_run stamp (stored l) ops)"
proof (induction ops arbitrary: l)
  case (Cons op ops)
  obtain l1 where l1: "impl_step impl l op = Some (fst (spec_step stamp (stored l) op), l1)" "inv l1"
      "stored l1 = snd (spec_step stamp (stored l) op)"
    using c_step [OF Cons.prems(1), of op] Cons.prems(2) by auto
  then obtain l2 where "impl_run impl l1 ops = Some (fst (spec_run stamp (stored l1) ops), l2)" "inv l2"
      "stored l2 = snd (spec_run stamp (stored l1) ops)"
    using Cons.IH [of l1] Cons.prems(2) by auto
  then show ?case using l1 by (auto simp: case_prod_beta)
qed simp

text \<open>What a client sees is determined by what is stored.\<close>

lemma observe:
  assumes "inv l" "inv l'" "stored l = stored l'"
  shows "getLogStartIndex l = getLogStartIndex l' \<and> getLastLogIndex l = getLastLogIndex l' \<and>
    getEntry l i = getEntry l' i"
  using assms c_start c_last [OF assms(1)] c_last [OF assms(2)] c_get by (simp add: c_start)

end

text \<open>A log whose operations never fail satisfies the contract without conditions.\<close>

sublocale log_store \<subseteq> contract: log_contract inv stored stamp "\<lambda>l es. True" "\<lambda>l i. True"
  "\<lparr>impl_append = \<lambda>l es. Some (append l es), impl_truncatePrefix = \<lambda>l i. Some (truncatePrefix l i),
    impl_truncateSuffix = \<lambda>l i. Some (truncateSuffix l i)\<rparr>"
  getEntry getLogStartIndex getLastLogIndex
proof
  fix l and op :: "'e log_op"
  assume l: "inv l" and "op_allowed (\<lambda>l es. True) (\<lambda>l i. True) l op"
  obtain s es where st: "stored l = (s, es)" by fastforce
  show "\<exists>l'. impl_step \<lparr>impl_append = \<lambda>l es. Some (append l es),
      impl_truncatePrefix = \<lambda>l i. Some (truncatePrefix l i),
      impl_truncateSuffix = \<lambda>l i. Some (truncateSuffix l i)\<rparr> l op =
      Some (fst (spec_step stamp (stored l) op), l') \<and> inv l' \<and> stored l' = snd (spec_step stamp (stored l) op)"
  proof (cases op)
    case (LogAppend xs)
    obtain r l' where a: "append l xs = (r, l')" by fastforce
    note law = append_law [OF l a]
    have f: "fst r = s + length es" using law last_law [OF l] st by simp
    have "r = (s + length es, s + length es + length xs - 1)"
      by (rule prod_eqI) (use f conjunct1 [OF conjunct2 [OF conjunct2 [OF law]]] in simp_all)
    then show ?thesis using law a by (simp add: LogAppend st)
  qed (use prefix_law [OF l] suffix_law [OF l] st in simp_all)
qed (fact start_pos start_law last_law get_law)+

section \<open>The segmented log satisfies it\<close>

definition sl_valid :: "StorageEnv \<Rightarrow> SegmentedLog \<Rightarrow> bool" where
  "sl_valid env l \<longleftrightarrow> env_ok env \<and> sl_inv env l"

definition sl_can_append :: "SegmentedLog \<Rightarrow> LogEntry list \<Rightarrow> bool" where
  "sl_can_append l es = indexes_ok (sl_getLastLogIndex l + 1) es"

definition sl_impl :: "StorageEnv \<Rightarrow> (SegmentedLog, LogEntry) LogImpl" where
  "sl_impl env = \<lparr>impl_append = sl_append env, impl_truncatePrefix = sl_truncatePrefix env,
     impl_truncateSuffix = sl_truncateSuffix env\<rparr>"

interpretation sl: log_contract "sl_valid env" sl_stored stampIndex sl_can_append can_truncateSuffix
  "sl_impl env" sl_getEntry sl_getLogStartIndex sl_getLastLogIndex for env
proof
  fix l i op
  assume v: "sl_valid env l"
  then have env: "env_ok env" and inv: "sl_inv env l" by (simp_all add: sl_valid_def)
  obtain n xs os where s: "sl_shape env l n xs os" using sl_invE [OF inv] .
  show "0 < fst (sl_stored l)"
    using shape_stored(1,3) [OF s] shape_head(2) [OF s] by simp
  show "sl_getLogStartIndex l = fst (sl_stored l)" by (simp add: sl_getLogStartIndex_def sl_stored_def)
  show la: "sl_getLastLogIndex l + 1 = fst (sl_stored l) + length (snd (sl_stored l))" by (rule shape_last_law [OF s])
  show "sl_getEntry l i = (if fst (sl_stored l) \<le> i \<and> i < fst (sl_stored l) + length (snd (sl_stored l))
      then Some (snd (sl_stored l) ! (i - fst (sl_stored l))) else None)" by (rule shape_getEntry [OF s])
  obtain st es where st: "sl_stored l = (st, es)" by fastforce
  assume "op_allowed sl_can_append can_truncateSuffix l op"
  then show "\<exists>l'. impl_step (sl_impl env) l op = Some (fst (spec_step stampIndex (sl_stored l) op), l') \<and>
      sl_valid env l' \<and> sl_stored l' = snd (spec_step stampIndex (sl_stored l) op)"
  proof (cases op)
    case (LogAppend xs)
    assume "op_allowed sl_can_append can_truncateSuffix l op"
    then have idx: "indexes_ok (sl_getLastLogIndex l + 1) xs" by (simp add: LogAppend sl_can_append_def)
    obtain l' where l': "sl_append env l xs = Some ((sl_getLastLogIndex l + 1, sl_getLastLogIndex l + length xs), l')"
      "sl_inv env l'" "sl_stored l' = (fst (sl_stored l), snd (sl_stored l) @ stamped (sl_getLastLogIndex l + 1) xs)"
      using sl_append_ok [OF env inv idx] .
    have ix: "sl_getLastLogIndex l + 1 = st + length es"
        "sl_getLastLogIndex l + length xs = st + length es + length xs - 1"
      using la st by simp_all
    have "impl_step (sl_impl env) l op = Some (Some (st + length es, st + length es + length xs - 1), l')"
      using l'(1) by (simp add: LogAppend sl_impl_def ix [simplified])
    moreover have "sl_stored l' = (st, es @ stamped (st + length es) xs)" using l'(3) st by (simp add: ix [simplified])
    ultimately show ?thesis
      using l'(2) env st by (simp add: LogAppend sl_valid_def stamped_def)
  next
    case (LogTruncatePrefix i)
    then show ?thesis using sl_truncatePrefix_ok [OF env inv, of i] st env
      by (auto simp: sl_impl_def sl_valid_def)
  next
    case (LogTruncateSuffix i)
    assume "op_allowed sl_can_append can_truncateSuffix l op"
    then show ?thesis using sl_truncateSuffix_ok [OF env inv, of i] st env
      by (auto simp: LogTruncateSuffix sl_impl_def sl_valid_def)
  qed
qed

section \<open>The two implementations agree\<close>

lemma stamped_append: "stamped s (es @ xs) = stamped s es @ stamped (s + length es) xs"
  by (induction es arbitrary: s) (simp_all add: stamped_Cons, simp add: stamped_def)

lemma length_stamped [simp]: "length (stamped s es) = length es"
  by (simp add: stamped_def)

lemma nth_stamped: "i < length es \<Longrightarrow> stamped s es ! i = stampIndex (s + i) (es ! i)"
  by (simp add: stamped_def)

lemma stamped_drop: "drop k (stamped s es) = stamped (s + k) (drop k es)"
  by (rule nth_equalityI) (simp_all add: nth_stamped add.assoc)

lemma stamped_take: "take k (stamped s es) = stamped s (take k es)"
  by (rule nth_equalityI) (simp_all add: nth_stamped)

text \<open>Stamping the entries of a log commutes with the operations.\<close>

lemma spec_step_stamp:
  "spec_step stampIndex (s, stamped s es) op =
     (case spec_step (\<lambda>i e. e) (s, es) op of (r, s', es') \<Rightarrow> (r, s', stamped s' es'))"
proof (cases op)
  case (LogAppend xs)
  then show ?thesis by (simp add: map_snd_zip_upt stamped_append) (simp add: stamped_def)
next
  case (LogTruncatePrefix i)
  then show ?thesis by (cases "s \<le> i") (simp_all add: stamped_drop max_def)
qed (simp_all add: stamped_take)

lemma spec_run_stamp:
  "spec_run stampIndex (s, stamped s es) ops =
     (case spec_run (\<lambda>i e. e) (s, es) ops of (rs, s', es') \<Rightarrow> (rs, s', stamped s' es'))"
proof (induction ops arbitrary: s es)
  case (Cons op ops)
  obtain r s1 es1 where "spec_step (\<lambda>i e. e) (s, es) op = (r, s1, es1)" by (cases "spec_step (\<lambda>i e. e) (s, es) op") auto
  then show ?case using Cons.IH [of s1 es1] by (simp add: spec_step_stamp case_prod_beta)
qed simp

definition ml_impl :: "(MemoryLog, LogEntry) LogImpl" where
  "ml_impl = \<lparr>impl_append = \<lambda>l es. Some (log_append l es), impl_truncatePrefix = \<lambda>l i. Some (log_truncatePrefix l i),
     impl_truncateSuffix = \<lambda>l i. Some (log_truncateSuffix l i)\<rparr>"

lemma ml_allowed: "run_allowed (\<lambda>l es. True) (\<lambda>l i. True) m l ops"
proof (induction ops arbitrary: l)
  case (Cons op ops)
  then show ?case by (cases op) (auto split: option.split)
qed simp

lemma ml_refines:
  "log_inv l \<Longrightarrow> \<exists>l'. impl_run ml_impl l ops = Some (fst (spec_run (\<lambda>i e. e) (log_stored l) ops), l') \<and> log_inv l' \<and>
     log_stored l' = snd (spec_run (\<lambda>i e. e) (log_stored l) ops)"
  unfolding ml_impl_def by (rule ml.contract.run_refines [OF _ ml_allowed])

end
