(* ===== verification/LC_SegmentedLogRecovery.thy ===== *)
theory LC_SegmentedLogRecovery
  imports LC_SegmentedLogLoad LC_LogContract
begin

text \<open>
  Starting from the files that an earlier run has left: when the disk holds a log, the constructor of the
  segmented log returns one with the same entries, the same start and the same metadata, whatever has been
  left behind in open segments, in prepared files and in files that were no longer needed.
\<close>

section \<open>Disks that hold a log\<close>

definition closedForm :: "Segment \<Rightarrow> Segment" where
  "closedForm s = (if seg_isOpen s then closeMem s else s)"

abbreviation keyed :: "Segment list \<Rightarrow> (nat, Segment) omap" where
  "keyed segs \<equiv> map (\<lambda>s. (seg_start s, closedForm s)) segs"

text \<open>No two names refer to the same file, and the numbers of files are in use.\<close>

definition names_ok :: "Disk \<Rightarrow> bool" where
  "names_ok d \<longleftrightarrow>
     (\<forall>f g i. map_of (d_names d) f = Some i \<longrightarrow> map_of (d_names d) g = Some i \<longrightarrow> f = g) \<and>
     (\<forall>f i. map_of (d_names d) f = Some i \<longrightarrow> i < d_next d)"

text \<open>The file of a segment with entries that are needed, with something unreadable behind the entries when it is open.\<close>

definition holds_segment :: "StorageEnv \<Rightarrow> Disk \<Rightarrow> Segment \<Rightarrow> bool" where
  "holds_segment env d s \<longleftrightarrow>
     seg_entries s \<noteq> [] \<and> (\<forall>x \<in> snd ` set (seg_entries s). entry_ok env x) \<and>
     seg_start s < 2 ^ 64 \<and> seg_end s < 2 ^ 64 \<and>
     (closed_seg env s \<or> open_seg env s \<and> (\<exists>k. seg_filename s = openFilename k)) \<and>
     (\<exists>i tail. map_of (d_names d) (seg_filename s) = Some i \<and> d_data d i = fileBytes env s @ tail \<and>
        length (fileBytes env s @ tail) < 2 ^ 64 \<and>
        (seg_isOpen s \<longrightarrow> unreadable env (fileBytes env s @ tail) (seg_bytes s)))"

text \<open>Files that are not needed: of an earlier part of the log, or without entries.\<close>

definition stale_closed :: "Disk \<Rightarrow> nat \<Rightarrow> string \<Rightarrow> bool" where
  "stale_closed d start name \<longleftrightarrow> \<not> prefix ''/'' name \<and>
     (\<exists>a b i. scanClosedFilename name = Some (a, b) \<and> b < start \<and>
        map_of (d_names d) name = Some i \<and> d_data d i \<noteq> [] \<and> hd (d_data d i) = CHR 0x01)"

definition stale_open :: "StorageEnv \<Rightarrow> Disk \<Rightarrow> nat \<Rightarrow> string \<Rightarrow> bool" where
  "stale_open env d start name \<longleftrightarrow>
     (\<exists>k i es off broken. name = openFilename k \<and> map_of (d_names d) name = Some i \<and>
        (d_data d i = [] \<or> hd (d_data d i) = CHR 0x01) \<and>
        readOpenEntries env (d_data d i) (if d_data d i = [] then 0 else 1) = Some (es, off, broken) \<and>
        (es = [] \<or> entryIndex (snd (last es)) < start))"

definition rawSegment :: "string \<Rightarrow> Segment option" where
  "rawSegment name = fst (readSegmentFilename name (mkPreparedSegments 1))"

definition disk_holds :: "StorageEnv \<Rightarrow> Disk \<Rightarrow> nat \<Rightarrow> Segment list \<Rightarrow> bool" where
  "disk_holds env d start segs \<longleftrightarrow>
     om_wf (d_names d) \<and> disk_wf d \<and> names_ok d \<and>
     (\<forall>s \<in> set segs. holds_segment env d s \<and> start \<le> seg_end s) \<and>
     (\<forall>name \<in> fst ` set (d_names d). rawSegment name = None \<or> name \<in> seg_filename ` set segs \<or>
        stale_closed d start name \<or> stale_open env d start name)"

section \<open>Names\<close>

lemma rawSegment_fst: "fst (readSegmentFilename name p) = rawSegment name"
  by (simp add: rawSegment_def readSegmentFilename_def split: option.splits)

lemma readSegmentFilenames_fst: "fst (readSegmentFilenames fs p) = List.map_filter rawSegment fs"
proof (induction fs arbitrary: p)
  case Nil
  then show ?case by (simp add: List.map_filter_def)
next
  case (Cons f fs)
  obtain s p1 where r: "readSegmentFilename f p = (s, p1)" by fastforce
  obtain ss p2 where rs: "readSegmentFilenames fs p1 = (ss, p2)" by fastforce
  have "s = rawSegment f" using rawSegment_fst [of f p] r by simp
  moreover have "ss = List.map_filter rawSegment fs" using Cons [of p1] rs by simp
  ultimately show ?case using r rs by (simp add: map_filter_simps split: option.split)
qed

lemma readSegmentFilenames_prepared:
  "ps_exiting (snd (readSegmentFilenames fs p)) = ps_exiting p \<and>
   ps_demanded (snd (readSegmentFilenames fs p)) = ps_demanded p \<and>
   openSegments (snd (readSegmentFilenames fs p)) = openSegments p"
proof (induction fs arbitrary: p)
  case (Cons f fs)
  obtain s p1 where r: "readSegmentFilename f p = (s, p1)" by fastforce
  obtain ss p2 where rs: "readSegmentFilenames fs p1 = (ss, p2)" by fastforce
  have "ps_exiting p1 = ps_exiting p \<and> ps_demanded p1 = ps_demanded p \<and> openSegments p1 = openSegments p"
    using r by (auto simp: readSegmentFilename_def foundFile_def split: if_splits option.splits)
  then show ?case using Cons [of p1] r rs by simp
qed simp

lemma closed_not_metadata: "closedFilename a b \<noteq> metadataFilename v"
proof
  assume "closedFilename a b = metadataFilename v"
  moreover have "isdigit (hd (closedFilename a b))"
    using padZeros_digits [of 20 a] padZeros_nonempty [of 20 a]
    by (cases "padZeros 20 (decimal a)") (simp_all add: closedFilename_def)
  ultimately show False by (simp add: metadataFilename_def isdigit_def split: if_splits)
qed

lemma metadataFilenames: "metadataFilename 1 = ''metadata1''" "metadataFilename 0 = ''metadata2''"
  by (simp_all add: metadataFilename_def)

lemma rawSegment_closed:
  assumes "scanClosedFilename name = Some (a, b)"
  shows "rawSegment name = (if name = ''metadata1'' \<or> name = ''metadata2'' then None else Some (rawClosed name a b))"
  using assms by (simp add: rawSegment_def readSegmentFilename_def rawClosed_def)

lemma scan_metadata: "scanClosedFilename ''metadata1'' = None" "scanClosedFilename ''metadata2'' = None"
  by (simp_all add: scanClosedFilename_def scan_lu_def isspace_def isdigit_def)

lemma rawSegment_scan_closed:
  "scanClosedFilename name = Some (a, b) \<Longrightarrow> rawSegment name = Some (rawClosed name a b)"
  using scan_metadata by (auto simp: rawSegment_closed)

lemma scanOpen_openFilename: "\<exists>c. scanOpenFilename (openFilename k) = Some c"
proof -
  have "takeWhile isdigit (decimal k) = decimal k" using decimal_digits [of k] by (simp add: list_all_iff)
  moreover obtain c cs where "decimal k = c # cs" by (cases "decimal k") auto
  moreover have "isdigit c" using decimal_digits [of k] calculation(2) by simp
  then have "\<not> isspace c" "c \<noteq> CHR ''+''" "c \<noteq> CHR ''-''" using isdigit_not_space by (auto simp: isdigit_def)
  ultimately show ?thesis
    by (simp add: scanOpenFilename_def scan_literal_def openFilename_def scan_lu_def Let_def)
qed

lemma rawSegment_open: "rawSegment (openFilename k) = Some (rawOpen (openFilename k))"
proof -
  obtain c where "scanOpenFilename (openFilename k) = Some c" using scanOpen_openFilename by blast
  moreover have "openFilename k \<noteq> ''metadata1''" "openFilename k \<noteq> ''metadata2''" by (simp_all add: openFilename_def)
  ultimately show ?thesis
    by (simp add: rawSegment_def readSegmentFilename_def scanClosed_open rawOpen_def)
qed

lemma rawSegment_metadata: "rawSegment (metadataFilename v) = None"
  by (simp add: rawSegment_def readSegmentFilename_def metadataFilename_def)

lemma rawSegment_made:
  "seg_start s < 2 ^ 64 \<Longrightarrow> seg_end s < 2 ^ 64 \<Longrightarrow>
   rawSegment (makeClosedFilename s) = Some (rawClosed (makeClosedFilename s) (seg_start s) (seg_end s))"
  using scan_closedFilename [of "seg_start s" "seg_end s"]
  by (simp add: makeClosedFilename_def rawSegment_scan_closed)

section \<open>The loop over the files\<close>

text \<open>Files that are still to be looked at are as they were.\<close>

definition intact :: "Disk \<Rightarrow> string list \<Rightarrow> Disk \<Rightarrow> bool" where
  "intact d0 fs d \<longleftrightarrow> (\<forall>f \<in> set fs. map_of (d_names d) f = map_of (d_names d0) f \<and>
     (\<forall>i. map_of (d_names d0) f = Some i \<longrightarrow> d_data d i = d_data d0 i))"

text \<open>The state of the loop: the segments of files that were looked at are in the map, in closed form.\<close>

definition load_inv :: "StorageEnv \<Rightarrow> Disk \<Rightarrow> Segment list \<Rightarrow> string list \<Rightarrow> SegmentedLog \<Rightarrow> bool" where
  "load_inv env d0 segs fs l \<longleftrightarrow>
     intact d0 fs (sl_disk l) \<and> names_ok (sl_disk l) \<and> disk_wf (sl_disk l) \<and>
     om_wf (segmentsByStartIndex l) \<and>
     set (segmentsByStartIndex l) = (\<lambda>s. (seg_start s, closedForm s)) ` {s \<in> set segs. seg_filename s \<notin> set fs} \<and>
     totalClosedSegmentBytes l = seg_sum (segmentsByStartIndex l) \<and>
     (\<forall>k. map_of (d_names (sl_disk l)) (openFilename k) \<noteq> None \<longrightarrow> openFilename k \<in> set fs) \<and>
     (\<forall>s \<in> set segs. seg_filename s \<notin> set fs \<longrightarrow>
        (\<exists>i. map_of (d_names (sl_disk l)) (makeClosedFilename s) = Some i \<and> d_data (sl_disk l) i = fileBytes env s))"

text \<open>What may happen to the disk when the file of a name is looked at: another name may take its place.\<close>

definition file_step :: "Disk \<Rightarrow> string \<Rightarrow> nat \<Rightarrow> string option \<Rightarrow> Disk \<Rightarrow> bool" where
  "file_step d f i f' d' \<longleftrightarrow>
     map_of (d_names d') = (case f' of None \<Rightarrow> (map_of (d_names d))(f := None)
                            | Some g \<Rightarrow> (map_of (d_names d))(f := None, g \<mapsto> i)) \<and>
     (\<forall>j. j \<noteq> i \<longrightarrow> d_data d' j = d_data d j) \<and> d_next d' = d_next d + 1 \<and>
     d_fds d' = (d_fds d)(d_next d := None)"

lemma file_steps:
  "map_of (d_names d) f = Some i \<Longrightarrow> file_step d f i (Some f) (keptDisk i b d)"
  "file_step d f i None (droppedDisk f i b d)"
  "file_step d f i (Some g) (renamedDisk f g i b d)"
  by (auto simp: file_step_def keptDisk_def droppedDisk_def renamedDisk_def map_of_om_set map_of_om_erase fun_eq_iff)

lemma file_step_wf: "file_step d f i f' d' \<Longrightarrow> disk_wf d \<Longrightarrow> disk_wf d'"
  by (auto simp: file_step_def disk_wf_def intro: less_SucI)

lemma file_step_names:
  assumes st: "file_step d f i f' d'" and ok: "names_ok d" and i: "map_of (d_names d) f = Some i"
  shows "names_ok d'"
proof -
  have m: "map_of (d_names d') g = Some j \<Longrightarrow>
      (g \<noteq> f \<and> Some g \<noteq> f' \<and> map_of (d_names d) g = Some j) \<or> (Some g = f' \<and> j = i)" for g j
    using st by (auto simp: file_step_def split: option.splits if_splits)
  have inj: "\<forall>f g i. map_of (d_names d) f = Some i \<longrightarrow> map_of (d_names d) g = Some i \<longrightarrow> f = g"
    and lt: "\<forall>f i. map_of (d_names d) f = Some i \<longrightarrow> i < d_next d" using ok by (auto simp: names_ok_def)
  have "g = h" if "map_of (d_names d') g = Some j" "map_of (d_names d') h = Some j" for g h j
    using m [OF that(1)] m [OF that(2)] inj i by (metis option.inject)
  moreover have "j < d_next d'" if "map_of (d_names d') g = Some j" for g j
    using m [OF that] lt i st by (auto simp: file_step_def intro: less_SucI)
  ultimately show ?thesis unfolding names_ok_def by blast
qed

lemma file_step_intact:
  assumes st: "file_step d f i f' d'" and ok: "names_ok d" and i: "map_of (d_names d) f = Some i"
    and int: "intact d0 (f # fs) d" and f: "f \<notin> set fs" and f': "\<And>g. f' = Some g \<Longrightarrow> g \<notin> set fs"
  shows "intact d0 fs d'"
  unfolding intact_def
proof (intro ballI conjI allI impI)
  fix g assume g: "g \<in> set fs"
  have gf: "g \<noteq> f" "f' \<noteq> Some g" using g f f' by auto
  have old: "map_of (d_names d) g = map_of (d_names d0) g" using int g by (simp add: intact_def)
  show "map_of (d_names d') g = map_of (d_names d0) g"
    using st gf old by (auto simp: file_step_def split: option.splits)
  fix j assume j: "map_of (d_names d0) g = Some j"
  have "j \<noteq> i" using ok i j old gf(1) unfolding names_ok_def by metis
  then show "d_data d' j = d_data d0 j" using st int g j by (simp add: file_step_def intact_def)
qed

lemma seg_sum_insert:
  assumes "map_of m k = None"
  shows "seg_sum (om_insert k s m) = seg_bytes s + seg_sum m"
proof -
  have "\<forall>x \<in> set xs. fst x \<noteq> k \<Longrightarrow>
      seg_sum (filter (\<lambda>e. fst e < k) xs) + seg_sum (filter (\<lambda>e. k < fst e) xs) = seg_sum xs" for xs
    by (induction xs) auto
  moreover have "\<forall>x \<in> set m. fst x \<noteq> k" using assms by (force simp: map_of_eq_None_iff)
  ultimately show ?thesis using assms by (simp add: om_insert_def om_set_def)
qed

lemma set_om_insert: "map_of m k = None \<Longrightarrow> set (om_insert k v m) = insert (k, v) (set m)"
proof -
  assume "map_of m k = None"
  then have "\<forall>x \<in> set m. fst x \<noteq> k" by (force simp: map_of_eq_None_iff)
  then show ?thesis using \<open>map_of m k = None\<close> by (auto simp: om_insert_def om_set_def)
qed

text \<open>A file that is skipped or removed.\<close>

lemma load_skip:
  assumes inv: "load_inv env d0 segs (f # fs) l" and f: "f \<notin> set fs" "f \<notin> seg_filename ` set segs"
    and k: "\<And>k. openFilename k \<noteq> f"
  shows "load_inv env d0 segs fs l"
proof -
  have eq: "{s \<in> set segs. seg_filename s \<notin> set (f # fs)} = {s \<in> set segs. seg_filename s \<notin> set fs}" using f(2) by auto
  have int: "intact d0 fs (sl_disk l)" using inv by (simp add: load_inv_def intact_def)
  have op: "openFilename k \<in> set fs" if "map_of (d_names (sl_disk l)) (openFilename k) \<noteq> None" for k
    using that inv k [of k] by (auto simp: load_inv_def)
  have kept: "\<exists>j. map_of (d_names (sl_disk l)) (makeClosedFilename s) = Some j \<and> d_data (sl_disk l) j = fileBytes env s"
    if "s \<in> set segs" "seg_filename s \<notin> set fs" for s
    using inv that f(2) by (fastforce simp: load_inv_def)
  show ?thesis using inv int op kept by (simp add: load_inv_def eq [simplified])
qed

lemma load_drop:
  assumes inv: "load_inv env d0 segs (f # fs) l" and f: "f \<notin> set fs" "f \<notin> seg_filename ` set segs"
    and made: "f \<notin> makeClosedFilename ` set segs"
    and i: "map_of (d_names (sl_disk l)) f = Some i" and st: "file_step (sl_disk l) f i None d"
  shows "load_inv env d0 segs fs (l\<lparr>sl_disk := d\<rparr>)"
proof -
  have eq: "{s \<in> set segs. seg_filename s \<notin> set (f # fs)} = {s \<in> set segs. seg_filename s \<notin> set fs}" using f(2) by auto
  have nm: "names_ok (sl_disk l)" and int: "intact d0 (f # fs) (sl_disk l)" using inv by (simp_all add: load_inv_def)
  have op: "openFilename k \<in> set fs" if "map_of (d_names d) (openFilename k) \<noteq> None" for k
    using that st inv by (auto simp: file_step_def load_inv_def split: if_splits)
  have kept: "\<exists>j. map_of (d_names d) (makeClosedFilename s) = Some j \<and> d_data d j = fileBytes env s"
    if s: "s \<in> set segs" "seg_filename s \<notin> set fs" for s
  proof -
    obtain j where j: "map_of (d_names (sl_disk l)) (makeClosedFilename s) = Some j" "d_data (sl_disk l) j = fileBytes env s"
      using inv s f(2) by (fastforce simp: load_inv_def)
    have "makeClosedFilename s \<noteq> f" using made s(1) by auto
    moreover from this have "j \<noteq> i" using nm i j(1) unfolding names_ok_def by metis
    ultimately show ?thesis using st j by (auto simp: file_step_def)
  qed
  show ?thesis
    using inv file_step_wf [OF st] file_step_names [OF st nm i] file_step_intact [OF st nm i int f(1)] op kept
    by (simp add: load_inv_def eq [simplified])
qed

text \<open>A file whose segment is kept, under its own or its new name.\<close>

lemma load_keep:
  assumes inv: "load_inv env d0 segs (f # fs) l" and f: "f \<notin> set fs" and s: "s \<in> set segs" "f = seg_filename s"
    and form: "f = makeClosedFilename s \<or> prefix ''open-'' f"
    and inj: "inj_on seg_filename (set segs)" "inj_on seg_start (set segs)"
    and i: "map_of (d_names (sl_disk l)) f = Some i"
    and st: "file_step (sl_disk l) f i (Some (makeClosedFilename s)) d" and new: "makeClosedFilename s \<notin> set fs"
    and data: "d_data d i = fileBytes env s"
    and l': "l' = l\<lparr>sl_disk := d, totalClosedSegmentBytes := totalClosedSegmentBytes l + seg_bytes s,
      segmentsByStartIndex := om_insert (seg_start s) (closedForm s) (segmentsByStartIndex l)\<rparr>"
  shows "map_of (segmentsByStartIndex l) (seg_start s) = None" "load_inv env d0 segs fs l'"
proof -
  let ?old = "{s \<in> set segs. seg_filename s \<notin> set (f # fs)}"
  have nm: "names_ok (sl_disk l)" and int: "intact d0 (f # fs) (sl_disk l)"
    and set: "set (segmentsByStartIndex l) = (\<lambda>s. (seg_start s, closedForm s)) ` ?old"
    using inv by (simp_all add: load_inv_def)
  have "seg_start s \<notin> fst ` set (segmentsByStartIndex l)"
  proof
    assume "seg_start s \<in> fst ` set (segmentsByStartIndex l)"
    then obtain s' where "s' \<in> ?old" "seg_start s' = seg_start s" by (auto simp: set)
    then show False using inj(2) s by (auto dest: inj_onD)
  qed
  then show none: "map_of (segmentsByStartIndex l) (seg_start s) = None" by (simp add: map_of_eq_None_iff)
  have eq: "{s \<in> set segs. seg_filename s \<notin> set fs} = insert s ?old"
    using s f inj(1) by (auto dest: inj_onD)
  have op: "openFilename k \<in> set fs" if "map_of (d_names d) (openFilename k) \<noteq> None" for k
  proof -
    have "openFilename k \<noteq> makeClosedFilename s" using open_not_closed by simp
    then show ?thesis using that st inv by (auto simp: file_step_def load_inv_def split: if_splits)
  qed
  have kept: "\<exists>j. map_of (d_names d) (makeClosedFilename x) = Some j \<and> d_data d j = fileBytes env x"
    if x: "x \<in> set segs" "seg_filename x \<notin> set fs" for x
  proof (cases "x = s")
    case True
    then show ?thesis using st data by (auto simp: file_step_def)
  next
    case False
    then have "seg_filename x \<noteq> f" using inj(1) x(1) s by (auto dest: inj_onD)
    then obtain j where j: "map_of (d_names (sl_disk l)) (makeClosedFilename x) = Some j" "d_data (sl_disk l) j = fileBytes env x"
      using inv x by (fastforce simp: load_inv_def)
    have ns: "makeClosedFilename x \<noteq> makeClosedFilename s"
      using False inj(2) x(1) s(1) closedFilename_inj by (metis inj_onD makeClosedFilename_def)
    have nf: "makeClosedFilename x \<noteq> f" using form ns open_not_closed by metis
    then have "j \<noteq> i" using nm i j(1) unfolding names_ok_def by metis
    then show ?thesis using st j ns nf by (auto simp: file_step_def)
  qed
  show "load_inv env d0 segs fs l'"
    using inv file_step_wf [OF st] file_step_names [OF st nm i] file_step_intact [OF st nm i int f] new op kept none
      om_wf_insert [of "segmentsByStartIndex l"] set_om_insert [OF none] seg_sum_insert [OF none]
    by (simp add: load_inv_def l' set eq [simplified] closedForm_def)
qed

lemma readOpen_bounds:
  "readOpenEntries env f off0 = Some (es, off, broken) \<Longrightarrow> off0 \<le> length f \<Longrightarrow>
   off \<le> length f \<and> (\<not> broken \<longrightarrow> off = length f) \<and> (broken \<longrightarrow> off < length f)"
proof (induction env f off0 arbitrary: es rule: readOpenEntries.induct)
  case (1 env f off0)
  show ?case
  proof (cases "off0 < length f")
    case True
    then consider "readEntry env f off0 = None" | e where "readEntry env f off0 = Some (Inl e)"
      | m n where "readEntry env f off0 = Some (Inr (m, n))"
      by (metis old.prod.exhaust option.exhaust sumE)
    then show ?thesis
    proof cases
      case 3
      have "n \<le> length f" using readProto_bounds [OF 3] by simp
      moreover obtain es' where "readOpenEntries env f n = Some (es', off, broken)"
        using 1(2) True 3 by (auto simp: readOpenEntries.simps [of env f off0] elim!: bind_SomeE)
      ultimately show ?thesis using 1(1) [OF True 3 refl refl] by blast
    qed (use 1(2) True in \<open>simp_all add: readOpenEntries.simps [of env f off0]\<close>)
  next
    case False
    then have "readOpenEntries env f off0 = Some ([], off0, False)" by (subst readOpenEntries.simps) simp
    then show ?thesis using 1(2,3) False by simp
  qed
qed

definition segs_distinct :: "Segment list \<Rightarrow> bool" where
  "segs_distinct segs \<longleftrightarrow> inj_on seg_filename (set segs) \<and> inj_on seg_start (set segs)"

text \<open>The new name of an open segment is not the name of a file that is still to be looked at.\<close>

lemma closed_name_free:
  assumes h: "disk_holds env d0 start segs" and inj: "segs_distinct segs"
    and s: "s \<in> set segs" "seg_isOpen s" and g: "g \<in> fst ` set (d_names d0)"
  shows "makeClosedFilename s \<noteq> g"
proof
  assume eq: "makeClosedFilename s = g"
  have hs: "holds_segment env d0 s" "start \<le> seg_end s" using h s by (auto simp: disk_holds_def)
  then have lim: "seg_start s < 2 ^ 64" "seg_end s < 2 ^ 64" by (simp_all add: holds_segment_def)
  have "rawSegment g \<noteq> None" using rawSegment_made [OF lim] eq by simp
  moreover have "g \<notin> seg_filename ` set segs"
  proof
    assume "g \<in> seg_filename ` set segs"
    then obtain s' where s': "s' \<in> set segs" "g = seg_filename s'" by auto
    then have "closed_seg env s' \<or> prefix ''open-'' g" using h by (auto simp: disk_holds_def holds_segment_def open_seg_def)
    then have "closed_seg env s'" using open_not_closed eq by metis
    then have "makeClosedFilename s' = makeClosedFilename s" "\<not> seg_isOpen s'"
      using s' eq by (simp_all add: closed_seg_def)
    then have "seg_start s' = seg_start s" using closedFilename_inj by (metis makeClosedFilename_def)
    then have "s' = s" using inj s s' by (auto simp: segs_distinct_def dest: inj_onD)
    then show False using s(2) \<open>\<not> seg_isOpen s'\<close> by simp
  qed
  moreover have "\<not> stale_closed d0 start g"
    using scan_closedFilename [OF lim] hs(2) eq by (auto simp: stale_closed_def makeClosedFilename_def)
  moreover have "\<not> stale_open env d0 start g"
    using open_not_closed [of g s] eq by (auto simp: stale_open_def)
  ultimately show False using h g by (auto simp: disk_holds_def)
qed

text \<open>A log that differs from another only in what loading changes.\<close>

definition same_but_loaded :: "SegmentedLog \<Rightarrow> SegmentedLog \<Rightarrow> bool" where
  "same_but_loaded l l' \<longleftrightarrow> (\<exists>d tot sg. l' = l\<lparr>sl_disk := d, totalClosedSegmentBytes := tot, segmentsByStartIndex := sg\<rparr>)"

lemma same_but_loaded_refl: "same_but_loaded l l"
  unfolding same_but_loaded_def
  by (intro exI [of _ "sl_disk l"] exI [of _ "totalClosedSegmentBytes l"] exI [of _ "segmentsByStartIndex l"]) simp

lemma same_but_loaded_trans: "same_but_loaded l l' \<Longrightarrow> same_but_loaded l' l'' \<Longrightarrow> same_but_loaded l l''"
  unfolding same_but_loaded_def by fastforce

lemma same_but_loadedI:
  "same_but_loaded l (l\<lparr>sl_disk := d\<rparr>)"
  "same_but_loaded l (l\<lparr>sl_disk := d, totalClosedSegmentBytes := tot, segmentsByStartIndex := sg\<rparr>)"
proof -
  have "l\<lparr>sl_disk := d\<rparr> = l\<lparr>sl_disk := d, totalClosedSegmentBytes := totalClosedSegmentBytes l,
      segmentsByStartIndex := segmentsByStartIndex l\<rparr>" by simp
  then show "same_but_loaded l (l\<lparr>sl_disk := d\<rparr>)" unfolding same_but_loaded_def by metis
  show "same_but_loaded l (l\<lparr>sl_disk := d, totalClosedSegmentBytes := tot, segmentsByStartIndex := sg\<rparr>)"
    unfolding same_but_loaded_def by blast
qed

text \<open>One file, by what kind it is.\<close>

lemma load_step_closed:
  assumes h: "disk_holds env d0 (logStartIndex l) segs" and inv: "load_inv env d0 segs (f # fs) l" and f: "f \<notin> set fs"
    and st: "stale_closed d0 (logStartIndex l) f" "f \<notin> seg_filename ` set segs"
  shows "\<exists>l'. loadSegments env (List.map_filter rawSegment (f # fs)) l =
      loadSegments env (List.map_filter rawSegment fs) l' \<and> load_inv env d0 segs fs l' \<and> same_but_loaded l l'"
proof -
  obtain a b i where s: "scanClosedFilename f = Some (a, b)" "b < logStartIndex l"
    "map_of (d_names d0) f = Some i" "d_data d0 i \<noteq> []" "hd (d_data d0 i) = CHR 0x01" "\<not> prefix ''/'' f"
    using st(1) by (auto simp: stale_closed_def)
  have made: "f \<notin> makeClosedFilename ` set segs"
  proof
    assume "f \<in> makeClosedFilename ` set segs"
    then obtain x where x: "x \<in> set segs" "f = makeClosedFilename x" by auto
    then have "seg_start x < 2 ^ 64" "seg_end x < 2 ^ 64" "logStartIndex l \<le> seg_end x"
      using h by (auto simp: disk_holds_def holds_segment_def)
    then show False
      using s(1,2) x(2) scan_closedFilename [of "seg_start x" "seg_end x"] by (simp add: makeClosedFilename_def)
  qed
  have i: "map_of (d_names (sl_disk l)) f = Some i" "d_data (sl_disk l) i = d_data d0 i"
    using inv s(3) by (auto simp: load_inv_def intact_def)
  have "loadClosedSegment env (rawClosed f a b) (logStartIndex l) l =
      Some (None, l\<lparr>sl_disk := droppedDisk f i (d_data (sl_disk l) i) (sl_disk l)\<rparr>)"
    by (rule loadClosed_stale) (use s i in simp_all)
  then have "loadSegments env (List.map_filter rawSegment (f # fs)) l =
      loadSegments env (List.map_filter rawSegment fs) (l\<lparr>sl_disk := droppedDisk f i (d_data (sl_disk l) i) (sl_disk l)\<rparr>)"
    using rawSegment_scan_closed [OF s(1)] by (simp add: map_filter_simps rawClosed_def)
  then show ?thesis using load_drop [OF inv f st(2) made i(1) file_steps(2)] same_but_loadedI by blast
qed

lemma load_step_open:
  assumes inv: "load_inv env d0 segs (f # fs) l" and f: "f \<notin> set fs"
    and st: "stale_open env d0 (logStartIndex l) f" "f \<notin> seg_filename ` set segs"
  shows "\<exists>l'. loadSegments env (List.map_filter rawSegment (f # fs)) l =
      loadSegments env (List.map_filter rawSegment fs) l' \<and> load_inv env d0 segs fs l' \<and> same_but_loaded l l'"
proof -
  have wf: "dirFd < d_next (sl_disk l)" using inv by (simp add: load_inv_def disk_wf_def)
  obtain k i es off broken where s: "f = openFilename k" "map_of (d_names d0) f = Some i"
      "d_data d0 i = [] \<or> hd (d_data d0 i) = CHR 0x01"
      "readOpenEntries env (d_data d0 i) (if d_data d0 i = [] then 0 else 1) = Some (es, off, broken)"
      "es = [] \<or> entryIndex (snd (last es)) < logStartIndex l"
    using st(1) by (auto simp: stale_open_def)
  have i: "map_of (d_names (sl_disk l)) f = Some i" "d_data (sl_disk l) i = d_data d0 i"
    using inv s(2) by (auto simp: load_inv_def intact_def)
  have "(if d_data d0 i = [] then 0 else 1) \<le> length (d_data d0 i)" by (cases "d_data d0 i") simp_all
  note b = readOpen_bounds [OF s(4) this]
  have "loadOpenSegment env (rawOpen f) (logStartIndex l) l =
      Some (None, l\<lparr>sl_disk := droppedDisk f i (take off (d_data d0 i)) (sl_disk l)\<rparr>)"
    by (rule loadOpen_read(1) [OF i s(3,4) _ _ _ _ wf s(5)]) (use b s(1) in auto)
  then have "loadSegments env (List.map_filter rawSegment (f # fs)) l =
      loadSegments env (List.map_filter rawSegment fs) (l\<lparr>sl_disk := droppedDisk f i (take off (d_data d0 i)) (sl_disk l)\<rparr>)"
    using rawSegment_open [of k] s(1) by (simp add: map_filter_simps rawOpen_def)
  moreover have "f \<notin> makeClosedFilename ` set segs" using s(1) open_not_closed by auto
  ultimately show ?thesis
    using load_drop [OF inv f st(2) _ i(1) file_steps(2)] same_but_loadedI by blast
qed

text \<open>A segment that is needed: the effect of loading its file.\<close>

definition usedDisk :: "StorageEnv \<Rightarrow> Segment \<Rightarrow> nat \<Rightarrow> Disk \<Rightarrow> Disk" where
  "usedDisk env s i d =
     (if seg_isOpen s then renamedDisk (seg_filename s) (makeClosedFilename s) i (fileBytes env s) d
      else keptDisk i (fileBytes env s) d)"

lemma load_used:
  assumes env: "env_ok env" and hs: "holds_segment env d0 s" "\<not> seg_end s < logStartIndex l"
    and inv: "load_inv env d0 segs (seg_filename s # fs) l"
  obtains i where "map_of (d_names (sl_disk l)) (seg_filename s) = Some i"
    "file_step (sl_disk l) (seg_filename s) i (Some (makeClosedFilename s)) (usedDisk env s i (sl_disk l))"
    "seg_filename s = makeClosedFilename s \<or> prefix ''open-'' (seg_filename s)"
    "loadSegments env (List.map_filter rawSegment (seg_filename s # fs)) l =
      (if map_of (segmentsByStartIndex l) (seg_start s) = None
       then loadSegments env (List.map_filter rawSegment fs)
         (l\<lparr>sl_disk := usedDisk env s i (sl_disk l), totalClosedSegmentBytes := totalClosedSegmentBytes l + seg_bytes s,
            segmentsByStartIndex := om_insert (seg_start s) (closedForm s) (segmentsByStartIndex l)\<rparr>) else None)"
proof -
  let ?f = "seg_filename s"
  have wf: "dirFd < d_next (sl_disk l)" using inv by (simp add: load_inv_def disk_wf_def)
  obtain i tail where d0i: "map_of (d_names d0) ?f = Some i" "d_data d0 i = fileBytes env s @ tail"
      and len: "length (fileBytes env s @ tail) < 2 ^ 64"
      and un: "seg_isOpen s \<longrightarrow> unreadable env (fileBytes env s @ tail) (seg_bytes s)"
    using hs(1) by (auto simp: holds_segment_def)
  have i: "map_of (d_names (sl_disk l)) ?f = Some i" "d_data (sl_disk l) i = fileBytes env s @ tail"
    using inv d0i by (auto simp: load_inv_def intact_def)
  have es: "\<forall>x \<in> snd ` set (seg_entries s). entry_ok env x" "seg_entries s \<noteq> []"
      "seg_start s < 2 ^ 64" "seg_end s < 2 ^ 64"
    using hs(1) by (simp_all add: holds_segment_def)
  consider (c) "closed_seg env s" "\<not> seg_isOpen s" "?f = makeClosedFilename s"
    | (o) k where "open_seg env s" "seg_isOpen s" "?f = openFilename k"
    using hs(1) by (auto simp: holds_segment_def closed_seg_def open_seg_def)
  then show thesis
  proof cases
    case c
    have "loadClosedSegment env (rawClosed ?f (seg_start s) (seg_end s)) (logStartIndex l) l =
        Some (Some s, l\<lparr>sl_disk := keptDisk i (fileBytes env s) (sl_disk l),
          totalClosedSegmentBytes := totalClosedSegmentBytes l + seg_bytes s\<rparr>)"
      by (rule loadClosed_kept [OF env c(1) es(1) i len hs(2) wf])
    moreover have "rawSegment ?f = Some (rawClosed ?f (seg_start s) (seg_end s))"
      using rawSegment_made [OF es(3,4)] c(3) by simp
    moreover have "\<not> seg_isOpen (rawClosed ?f (seg_start s) (seg_end s))" by (simp add: rawClosed_def)
    ultimately show thesis
      using that [of i] i(1) c(2,3) file_steps(1) [OF i(1)] by (simp add: map_filter_simps usedDisk_def closedForm_def)
  next
    case o
    have "loadOpenSegment env (rawOpen ?f) (logStartIndex l) l =
        Some (Some (closeMem s), l\<lparr>sl_disk := renamedDisk ?f (makeClosedFilename s) i (fileBytes env s) (sl_disk l),
          totalClosedSegmentBytes := totalClosedSegmentBytes l + seg_bytes s\<rparr>)"
      by (rule loadOpen_kept [OF env o(1) es(1,2) hs(2) i len _ wf]) (use un o in simp)
    moreover have "rawSegment ?f = Some (rawOpen ?f)" using rawSegment_open [of k] o(3) by simp
    moreover have "seg_isOpen (rawOpen ?f)" "\<not> seg_isOpen (closeMem s)" by (simp_all add: rawOpen_def closeMem_def)
    ultimately show thesis
      using that [of i] i(1) o(2,3) file_steps(3) by (simp add: map_filter_simps usedDisk_def closedForm_def)
  qed
qed

lemma raw_used:
  assumes "holds_segment env d s"
  shows "rawSegment (seg_filename s) \<noteq> None"
proof -
  consider "seg_filename s = makeClosedFilename s" | k where "seg_filename s = openFilename k"
    using assms by (auto simp: holds_segment_def closed_seg_def)
  then show ?thesis using assms rawSegment_made rawSegment_open by cases (simp_all add: holds_segment_def)
qed

lemma load_step:
  assumes env: "env_ok env" and h: "disk_holds env d0 (logStartIndex l) segs" and inj: "segs_distinct segs"
    and inv: "load_inv env d0 segs (f # fs) l" and f: "f \<notin> set fs" "set (f # fs) \<subseteq> fst ` set (d_names d0)"
  shows "\<exists>l'. loadSegments env (List.map_filter rawSegment (f # fs)) l =
      loadSegments env (List.map_filter rawSegment fs) l' \<and> load_inv env d0 segs fs l' \<and> same_but_loaded l l'"
proof -
  have "rawSegment f = None \<or> f \<in> seg_filename ` set segs \<or> stale_closed d0 (logStartIndex l) f \<or>
      stale_open env d0 (logStartIndex l) f"
    using h f(2) by (auto simp: disk_holds_def)
  then consider (skip) "rawSegment f = None" | (used) s where "s \<in> set segs" "f = seg_filename s"
    | (closed) "stale_closed d0 (logStartIndex l) f" "f \<notin> seg_filename ` set segs"
    | (opened) "stale_open env d0 (logStartIndex l) f" "f \<notin> seg_filename ` set segs"
    by (auto simp: image_iff)
  then show ?thesis
  proof cases
    case skip
    have k: "openFilename k \<noteq> f" for k using skip rawSegment_open by auto
    have "seg_filename s \<noteq> f" if "s \<in> set segs" for s
      using skip raw_used [of env d0 s] h that by (auto simp: disk_holds_def)
    then have "f \<notin> seg_filename ` set segs" by auto
    then have "load_inv env d0 segs fs l" using load_skip [OF inv f(1)] k by blast
    then show ?thesis using skip same_but_loaded_refl by (auto simp: map_filter_simps)
  next
    case used
    have hs: "holds_segment env d0 s" "\<not> seg_end s < logStartIndex l" using h used(1) by (auto simp: disk_holds_def)
    obtain i where i: "map_of (d_names (sl_disk l)) f = Some i"
        "file_step (sl_disk l) f i (Some (makeClosedFilename s)) (usedDisk env s i (sl_disk l))"
        "f = makeClosedFilename s \<or> prefix ''open-'' f"
        "loadSegments env (List.map_filter rawSegment (f # fs)) l =
        (if map_of (segmentsByStartIndex l) (seg_start s) = None
         then loadSegments env (List.map_filter rawSegment fs)
           (l\<lparr>sl_disk := usedDisk env s i (sl_disk l), totalClosedSegmentBytes := totalClosedSegmentBytes l + seg_bytes s,
              segmentsByStartIndex := om_insert (seg_start s) (closedForm s) (segmentsByStartIndex l)\<rparr>) else None)"
      using load_used [OF env hs inv [unfolded used(2)]] unfolding used(2) .
    have ij: "inj_on seg_filename (set segs)" "inj_on seg_start (set segs)" using inj by (simp_all add: segs_distinct_def)
    have data: "d_data (usedDisk env s i (sl_disk l)) i = fileBytes env s"
      by (simp add: usedDisk_def renamedDisk_def keptDisk_def)
    have "makeClosedFilename s \<notin> set fs"
    proof (cases "seg_isOpen s")
      case True
      then show ?thesis using closed_name_free [OF h inj used(1)] f(2) by auto
    next
      case False
      then show ?thesis using hs(1) used(2) f(1) by (auto simp: holds_segment_def closed_seg_def open_seg_def)
    qed
    note k = load_keep [OF inv f(1) used i(3) ij i(1,2) this data refl]
    show ?thesis by (intro exI conjI) (use i(4) k same_but_loadedI(2) in auto)
  qed (use load_step_closed [OF h inv f(1)] load_step_open [OF inv f(1)] in blast)+
qed

lemma load_loop:
  assumes env: "env_ok env" and inj: "segs_distinct segs"
  shows "disk_holds env d0 (logStartIndex l) segs \<Longrightarrow> load_inv env d0 segs fs l \<Longrightarrow> distinct fs \<Longrightarrow>
    set fs \<subseteq> fst ` set (d_names d0) \<Longrightarrow>
    \<exists>l'. loadSegments env (List.map_filter rawSegment fs) l = Some l' \<and> load_inv env d0 segs [] l' \<and> same_but_loaded l l'"
proof (induction fs arbitrary: l)
  case Nil
  then show ?case using same_but_loaded_refl by (auto simp: map_filter_simps)
next
  case (Cons f fs)
  obtain l1 where l1: "loadSegments env (List.map_filter rawSegment (f # fs)) l =
      loadSegments env (List.map_filter rawSegment fs) l1" "load_inv env d0 segs fs l1" "same_but_loaded l l1"
    using load_step [OF env Cons.prems(1) inj Cons.prems(2)] Cons.prems(3,4) by auto
  have "logStartIndex l1 = logStartIndex l" using l1(3) by (auto simp: same_but_loaded_def)
  then obtain l' where "loadSegments env (List.map_filter rawSegment fs) l1 = Some l'" "load_inv env d0 segs [] l'"
      "same_but_loaded l1 l'"
    using Cons.IH [of l1] Cons.prems l1(2) by auto
  then show ?case using l1 same_but_loaded_trans by metis
qed

section \<open>Metadata files\<close>

text \<open>What the metadata file of a name says, if it can be read.\<close>

definition metadataIn :: "StorageEnv \<Rightarrow> Disk \<Rightarrow> string \<Rightarrow> SLMetadata option" where
  "metadataIn env d name =
     (case map_of (d_names d) name of None \<Rightarrow> None
      | Some i \<Rightarrow> (case readProtoFromFile (se_algorithms env) (se_encoding env) (se_metadata env) (d_data d i) 0 of
            Some (Inr (m, n)) \<Rightarrow> Some m | _ \<Rightarrow> None))"

text \<open>Reading it does not end the process: it is readable and of a known format, or rejected with an error.\<close>

definition metadata_safe :: "StorageEnv \<Rightarrow> Disk \<Rightarrow> string \<Rightarrow> bool" where
  "metadata_safe env d name \<longleftrightarrow>
     (case map_of (d_names d) name of None \<Rightarrow> True
      | Some i \<Rightarrow> (case readProtoFromFile (se_algorithms env) (se_encoding env) (se_metadata env) (d_data d i) 0 of
            None \<Rightarrow> False | Some (Inl e) \<Rightarrow> True | Some (Inr (m, n)) \<Rightarrow> slm_format_version m \<le> 1))"

text \<open>A disk on which only descriptor numbers have been used up.\<close>

definition opened_closed :: "Disk \<Rightarrow> Disk \<Rightarrow> bool" where
  "opened_closed d d' \<longleftrightarrow> d' = d \<or> d' = d\<lparr>d_fds := (d_fds d)(d_next d := None), d_next := d_next d + 1\<rparr>"

lemma readMetadata_eq:
  assumes "metadata_safe env d name" "\<not> prefix ''/'' name"
  obtains d' where "readMetadata env name d = Some (metadataIn env d name, d')" "opened_closed d d'"
proof (cases "map_of (d_names d) name")
  case None
  then have "readMetadata env name d = Some (metadataIn env d name, d)"
    using assms(2) by (simp add: readMetadata_def fs_tryOpenFile_def fs_openat_def metadataIn_def)
  then show thesis using that by (simp add: opened_closed_def)
next
  case (Some i)
  let ?d = "d\<lparr>d_fds := (d_fds d)(d_next d := None), d_next := d_next d + 1\<rparr>"
  have "readMetadata env name d = Some (metadataIn env d name, ?d)"
    using Some assms
    by (auto simp: readMetadata_def fs_tryOpenFile_def fs_openat_def metadataIn_def metadata_safe_def fs_contents_def
        fs_close_def split: option.splits sum.splits)
  then show thesis using that by (simp add: opened_closed_def)
qed

text \<open>What matters for segments is the same on two disks.\<close>

definition same_segments :: "Disk \<Rightarrow> Disk \<Rightarrow> bool" where
  "same_segments d d' \<longleftrightarrow>
     (\<forall>f. rawSegment f \<noteq> None \<longrightarrow> map_of (d_names d') f = map_of (d_names d) f \<and>
        (\<forall>i. map_of (d_names d) f = Some i \<longrightarrow> d_data d' i = d_data d i))"

lemma same_segments_trans:
  assumes "same_segments d d'" "same_segments d' d''"
  shows "same_segments d d''"
  using assms unfolding same_segments_def by (metis (no_types, lifting))

lemma opened_closed_ok:
  assumes "opened_closed d d'"
  shows "same_segments d d'" "disk_wf d \<Longrightarrow> disk_wf d'" "names_ok d \<Longrightarrow> names_ok d'" "om_wf (d_names d) \<Longrightarrow> om_wf (d_names d')"
    "metadata_safe env d f = metadata_safe env d' f" "metadataIn env d f = metadataIn env d' f"
proof -
  have e: "d_names d' = d_names d" "d_data d' = d_data d" using assms by (auto simp: opened_closed_def)
  show "same_segments d d'" "om_wf (d_names d) \<Longrightarrow> om_wf (d_names d')" by (simp_all add: e same_segments_def)
  show "metadata_safe env d f = metadata_safe env d' f" "metadataIn env d f = metadataIn env d' f"
    unfolding metadata_safe_def metadataIn_def e by (rule refl)+
  show "disk_wf d \<Longrightarrow> disk_wf d'"
    using assms by (fastforce simp: opened_closed_def disk_wf_def dom_def split: if_splits)
  have "d_next d \<le> d_next d'" using assms by (auto simp: opened_closed_def)
  then show "names_ok d \<Longrightarrow> names_ok d'" unfolding names_ok_def e by (meson le_trans less_le_trans)
qed

lemma metadataDisk_ok:
  assumes ok: "disk_wf d" "names_ok d" "om_wf (d_names d)"
  shows "same_segments d (metadataDisk (metadataFilename v) r d)" "names_ok (metadataDisk (metadataFilename v) r d)"
    "om_wf (d_names (metadataDisk (metadataFilename v) r d))"
proof -
  let ?m = "metadataFilename v"
  have inj: "\<forall>f g i. map_of (d_names d) f = Some i \<longrightarrow> map_of (d_names d) g = Some i \<longrightarrow> f = g"
    and lt: "\<forall>f i. map_of (d_names d) f = Some i \<longrightarrow> i < d_next d" using ok(2) by (auto simp: names_ok_def)
  have ne: "f \<noteq> ?m" if "rawSegment f \<noteq> None" for f using that rawSegment_metadata by auto
  show "same_segments d (metadataDisk ?m r d)"
    unfolding same_segments_def
  proof (intro allI impI conjI)
    fix f assume raw: "rawSegment f \<noteq> None"
    show "map_of (d_names (metadataDisk ?m r d)) f = map_of (d_names d) f"
      using ne [OF raw] by (simp add: metadataDisk_def map_of_om_set split: option.split)
    fix i assume i: "map_of (d_names d) f = Some i"
    show "d_data (metadataDisk ?m r d) i = d_data d i"
    proof (cases "map_of (d_names d) ?m")
      case None
      then show ?thesis using lt i by (auto simp: metadataDisk_def)
    next
      case (Some j)
      then have "i \<noteq> j" using inj i ne [OF raw] by blast
      then show ?thesis using Some by (simp add: metadataDisk_def)
    qed
  qed
  show "names_ok (metadataDisk ?m r d)"
  proof (cases "map_of (d_names d) ?m")
    case None
    have "g \<noteq> ?m \<longrightarrow> map_of (d_names d) g \<noteq> Some (d_next d)" for g using lt by auto
    then show ?thesis using None inj lt unfolding names_ok_def metadataDisk_def
      by (auto simp: map_of_om_set intro: less_SucI split: if_splits)
  next
    case (Some j)
    then show ?thesis using inj lt by (auto simp: names_ok_def metadataDisk_def intro: less_SucI)
  qed
  show "om_wf (d_names (metadataDisk ?m r d))"
    using ok(3) om_wf_set by (auto simp: metadataDisk_def split: option.split)
qed

lemma disk_holds_same:
  assumes h: "disk_holds env d start segs" and s: "same_segments d d'"
    and ok: "disk_wf d'" "names_ok d'" "om_wf (d_names d')"
  shows "disk_holds env d' start segs"
proof -
  have same: "map_of (d_names d') f = map_of (d_names d) f"
      "map_of (d_names d) f = Some i \<Longrightarrow> d_data d' i = d_data d i" if "rawSegment f \<noteq> None" for f i
    using s that by (auto simp: same_segments_def)
  have "holds_segment env d' x" if "x \<in> set segs" for x
  proof -
    have hx: "holds_segment env d x" using h that by (simp add: disk_holds_def)
    note f = same [OF raw_used [OF hx]]
    show ?thesis using hx f unfolding holds_segment_def by fastforce
  qed
  moreover have "rawSegment f = None \<or> f \<in> seg_filename ` set segs \<or> stale_closed d' start f \<or> stale_open env d' start f"
    if f: "f \<in> fst ` set (d_names d')" for f
  proof (cases "rawSegment f = None")
    case False
    have "map_of (d_names d') f \<noteq> None" using f by (simp add: map_of_eq_None_iff)
    then have "f \<in> fst ` set (d_names d)" using same(1) [OF False] by (metis map_of_eq_None_iff)
    then consider "f \<in> seg_filename ` set segs" | "stale_closed d start f" | "stale_open env d start f"
      using h False by (auto simp: disk_holds_def)
    then show ?thesis
    proof cases
      case 2
      then show ?thesis using same [OF False] unfolding stale_closed_def by fastforce
    next
      case 3
      then obtain k i where k: "f = openFilename k" "map_of (d_names d) f = Some i" by (auto simp: stale_open_def)
      have "stale_open env d' start f" using 3 same [OF False] k unfolding stale_open_def by fastforce
      then show ?thesis by blast
    qed blast
  qed blast
  ultimately show ?thesis using h ok by (auto simp: disk_holds_def)
qed

section \<open>The constructor\<close>

lemma checkContiguous_ok: "contig n xs m \<Longrightarrow> checkContiguous n xs = Some ()"
proof (induction xs arbitrary: n)
  case (Cons x xs)
  then show ?case by (cases x) simp
qed simp

lemma closedForm_simps [simp]:
  "seg_start (closedForm s) = seg_start s" "seg_end (closedForm s) = seg_end s"
  "seg_bytes (closedForm s) = seg_bytes s" "seg_entries (closedForm s) = seg_entries s"
  by (simp_all add: closedForm_def)

lemma closed_closedForm: "holds_segment env d s \<Longrightarrow> closed_seg env (closedForm s)"
  using closed_closeMem by (auto simp: holds_segment_def closedForm_def closed_seg_def open_seg_def)

text \<open>Segments that follow each other have different first entries and files.\<close>

lemma keyed_wf:
  assumes "contig n (keyed segs) m" "\<forall>s \<in> set segs. holds_segment env d s"
  shows "om_wf (keyed segs)" "inj_on seg_start (set segs)"
proof -
  have c: "all_segs (closed_seg env) (keyed segs)" using assms(2) closed_closedForm by fastforce
  show wf: "om_wf (keyed segs)" by (rule contig_wf [OF assms(1) closed_seg_ok [OF c] closed_seg_ne [OF c]])
  have "distinct (map seg_start segs)" using om_wf_distinct [OF wf] by (simp add: comp_def)
  then show "inj_on seg_start (set segs)" by (simp add: distinct_map)
qed

text \<open>The second half of the constructor: once all files are loaded, a new segment is opened.\<close>

lemma finish_ok:
  assumes env: "env_ok env" and li: "load_inv env d0 segs [] l"
    and c: "contig n (keyed segs) m" "0 < n" "\<forall>s \<in> set segs. holds_segment env d0 s \<and> logStartIndex l \<le> seg_end s"
    and start: "if segs = [] then n = logStartIndex l \<and> m = logStartIndex l else n \<le> logStartIndex l"
    and p: "\<not> ps_exiting (preparedSegments l)" "0 < ps_demanded (preparedSegments l)" "openSegments (preparedSegments l) = []"
    and f: "openSegmentFile l = None"
  obtains l' where
    "do { (case segmentsByStartIndex l of [] \<Rightarrow> Some () | (k, s) # rest \<Rightarrow> checkContiguous k (segmentsByStartIndex l));
          r \<leftarrow> segmentPreparerMain_iter env l;
          l \<leftarrow> (case r of Ready l \<Rightarrow> Some l | _ \<Rightarrow> None);
          l \<leftarrow> openNewSegment env l;
          assertInvariants env l;
          Some l } = Some l'"
    "sl_inv env l'" "sl_stored l' = (logStartIndex l, drop (logStartIndex l - n) (seg_list (keyed segs)))"
    "sl_raft_metadata l' = sl_raft_metadata l" "sl_metadata l' = sl_metadata l"
proof -
  have hs: "\<forall>s \<in> set segs. holds_segment env d0 s" using c(3) by blast
  have segs: "segmentsByStartIndex l = keyed segs"
  proof -
    have "set (segmentsByStartIndex l) = set (keyed segs)" "om_wf (segmentsByStartIndex l)"
      using li by (auto simp: load_inv_def)
    then show ?thesis
      using keyed_wf(1) [OF c(1) hs] om_wf_unique om_wf_distinct map_of_inject_set by metis
  qed
  have chk: "(case segmentsByStartIndex l of [] \<Rightarrow> Some () | (k, s) # rest \<Rightarrow> checkContiguous k (segmentsByStartIndex l)) = Some ()"
  proof (cases segs)
    case (Cons s rest)
    then have "seg_start s = n" using c(1) by simp
    then show ?thesis using checkContiguous_ok [OF c(1)] segs Cons by simp
  qed (simp add: segs)
  have wf: "disk_wf (sl_disk l)" using li by (simp add: load_inv_def)
  have pok: "prepared_ok (sl_disk l) (preparedSegments l)"
    using li p by (auto simp: load_inv_def prepared_ok_def)
  let ?d = "preparedDisk env (openFilename (filenameCounter (preparedSegments l) + 1)) (sl_disk l)"
  obtain p' where it: "segmentPreparerMain_iter env l = Some (Ready (l\<lparr>sl_disk := ?d, preparedSegments := p'\<rparr>))"
    and p': "prepared_ok ?d p'"
    using preparer_step [OF pok wf p(2), of env] .
  define l1 where "l1 = l\<lparr>sl_disk := ?d, preparedSegments := p'\<rparr>"
  have "all_segs (closed_seg env) (keyed segs)" using hs closed_closedForm by fastforce
  moreover have "0 < m" using c(1,2) contig_le [OF c(1) closed_seg_ok] calculation by fastforce
  moreover have "totalClosedSegmentBytes l = seg_sum (keyed segs)" using li segs by (simp add: load_inv_def)
  moreover have "segs \<noteq> [] \<longrightarrow> logStartIndex l \<le> seg_end (hd segs)" using c(3) by (cases segs) auto
  ultimately have r: "ready env l1 n (keyed segs) m"
    using c(1) start f p' preparedDisk_wf [OF wf] segs by (cases segs) (auto simp: ready_def l1_def)
  obtain l' where l': "openNewSegment env l1 = Some l'" using openNewSegment_returns [OF r] .
  note o = openNewSegment_shape [OF r l']
  obtain os where s: "sl_shape env l' n (keyed segs) os" "seg_entries os = []" using o(1) by blast
  have "sl_stored l' = (logStartIndex l, drop (logStartIndex l - n) (seg_list (keyed segs)))"
    using shape_stored(1) [OF s(1)] s(2) o(4) by (simp add: l1_def)
  then show thesis
    using that [of l'] chk it l' shape_assert [OF env s(1)] o(2,5,6) by (simp add: l1_def)
qed

definition raftMetadataOf :: "SLMetadata \<Rightarrow> Metadata" where
  "raftMetadataOf m = (case slm_raft_metadata m of
     None \<Rightarrow> \<lparr>md_current_term = None, md_voted_for = None\<rparr> | Some r \<Rightarrow> r)"

definition chosenMetadata :: "StorageEnv \<Rightarrow> Disk \<Rightarrow> SLMetadata option" where
  "chosenMetadata env d = chooseMetadata (metadataIn env d ''metadata1'') (metadataIn env d ''metadata2'')"

text \<open>The metadata on a disk: the start of the log and the metadata of the consensus module. A disk without
  readable metadata must not have segments; it is that of a new server.\<close>

definition holds_metadata :: "StorageEnv \<Rightarrow> Disk \<Rightarrow> nat \<Rightarrow> Metadata \<Rightarrow> bool" where
  "holds_metadata env d start raft \<longleftrightarrow>
     metadata_safe env d ''metadata1'' \<and> metadata_safe env d ''metadata2'' \<and>
     (case chosenMetadata env d of
        Some m \<Rightarrow> slm_entries_start m = start \<and> raftMetadataOf m = raft
      | None \<Rightarrow> start = 1 \<and> raft = \<lparr>md_current_term = None, md_voted_for = None\<rparr> \<and>
          (\<forall>name \<in> fst ` set (d_names d). rawSegment name = None))"

text \<open>Writing the metadata leaves the segments alone.\<close>

lemma updateMetadata_segments:
  assumes env: "env_ok env" and ok: "disk_wf (sl_disk l)" "names_ok (sl_disk l)" "om_wf (d_names (sl_disk l))"
  obtains d where "sl_updateMetadata env l = Some (l\<lparr>sl_metadata := nextMetadata l, sl_disk := d\<rparr>)"
    "same_segments (sl_disk l) d" "disk_wf d" "names_ok d" "om_wf (d_names d)" "disk_ext (sl_disk l) d"
proof -
  obtain r where r: "serializeMetadata env (nextMetadata l) = Some r" using serializeMetadata_Some [OF env] .
  show thesis
    using that [OF updateMetadata_eq [OF r ok(1)]] metadataDisk_ok [OF ok] metadataDisk_wf [OF ok(1)]
      metadataDisk_ext [OF ok(1)] by blast
qed

text \<open>The first half of the constructor, up to the loading of segments.\<close>

lemma metadata_ok:
  assumes env: "env_ok env" and h: "disk_holds env d start segs" and m: "holds_metadata env d start raft"
  obtains l where
    "do { (metadata1, d1) \<leftarrow> readMetadata env ''metadata1'' d;
          (metadata2, d2) \<leftarrow> readMetadata env ''metadata2'' d1;
          metadata \<leftarrow> (case chooseMetadata metadata1 metadata2 of
              Some m \<Rightarrow> Some m
            | None \<Rightarrow> do {
                require (List.map_filter rawSegment (sort (fs_ls d)) = []);
                Some \<lparr>slm_format_version = 0, slm_version = 0, slm_raft_metadata = None, slm_entries_start = 1\<rparr>
              });
          let l0 = \<lparr>sl_metadata = metadata,
              sl_raft_metadata = (case slm_raft_metadata metadata of
                  None \<Rightarrow> \<lparr>md_current_term = None, md_voted_for = None\<rparr> | Some r \<Rightarrow> r),
              sl_disk = d2, openSegmentFile = None, logStartIndex = slm_entries_start metadata,
              segmentsByStartIndex = [], totalClosedSegmentBytes = 0, preparedSegments = p,
              sl_currentSync = \<lparr>sync_lastIndex = 0, sync_ops = []\<rparr>\<rparr>;
          l1 \<leftarrow> sl_updateMetadata env l0;
          l2 \<leftarrow> sl_updateMetadata env l1;
          onDisk (fs_fsync dirFd) l2 } = Some l"
    "disk_holds env (sl_disk l) start segs" "logStartIndex l = start" "sl_raft_metadata l = raft"
    "segmentsByStartIndex l = []" "totalClosedSegmentBytes l = 0" "openSegmentFile l = None" "preparedSegments l = p"
    "fst ` set (d_names d) \<subseteq> fst ` set (d_names (sl_disk l))" "same_segments d (sl_disk l)"
proof -
  have ok: "disk_wf d" "names_ok d" "om_wf (d_names d)" using h by (simp_all add: disk_holds_def)
  obtain d1 where r1: "readMetadata env ''metadata1'' d = Some (metadataIn env d ''metadata1'', d1)" "opened_closed d d1"
    using readMetadata_eq [of env d "''metadata1''"] m by (auto simp: holds_metadata_def)
  obtain d2 where r2: "readMetadata env ''metadata2'' d1 = Some (metadataIn env d ''metadata2'', d2)" "opened_closed d1 d2"
    using readMetadata_eq [of env d1 "''metadata2''"] m opened_closed_ok(5,6) [OF r1(2)] by (auto simp: holds_metadata_def)
  define md where "md = (case chosenMetadata env d of Some m \<Rightarrow> m
    | None \<Rightarrow> \<lparr>slm_format_version = 0, slm_version = 0, slm_raft_metadata = None, slm_entries_start = 1\<rparr>)"
  have md: "slm_entries_start md = start" "raftMetadataOf md = raft"
    using m by (auto simp: holds_metadata_def md_def raftMetadataOf_def split: option.splits)
  have none: "List.map_filter rawSegment (sort (fs_ls d)) = []" if "chosenMetadata env d = None"
    using m that by (auto simp: holds_metadata_def List.map_filter_def filter_empty_conv fs_ls_def)
  have d2: "same_segments d d2" "disk_wf d2" "names_ok d2" "om_wf (d_names d2)" "d_names d2 = d_names d"
  proof -
    note o1 = opened_closed_ok [OF r1(2)] and o2 = opened_closed_ok [OF r2(2)]
    show "same_segments d d2" by (rule same_segments_trans [OF o1(1) o2(1)])
    show "disk_wf d2" "names_ok d2" "om_wf (d_names d2)" using o1(2-4) o2(2-4) ok by simp_all
    show "d_names d2 = d_names d" using r1(2) r2(2) by (auto simp: opened_closed_def)
  qed
  define l0 where "l0 = \<lparr>sl_metadata = md, sl_raft_metadata = raftMetadataOf md, sl_disk = d2, openSegmentFile = None,
      logStartIndex = slm_entries_start md, segmentsByStartIndex = [], totalClosedSegmentBytes = 0,
      preparedSegments = p, sl_currentSync = \<lparr>sync_lastIndex = 0, sync_ops = []\<rparr>\<rparr>"
  have l0d: "sl_disk l0 = d2" by (simp add: l0_def)
  obtain d3 where d3: "sl_updateMetadata env l0 = Some (l0\<lparr>sl_metadata := nextMetadata l0, sl_disk := d3\<rparr>)"
    "same_segments d2 d3" "disk_wf d3" "names_ok d3" "om_wf (d_names d3)" "disk_ext d2 d3"
    using updateMetadata_segments [OF env, of l0, unfolded l0d, OF d2(2-4)] .
  define l1 where "l1 = l0\<lparr>sl_metadata := nextMetadata l0, sl_disk := d3\<rparr>"
  have l1d: "sl_disk l1 = d3" by (simp add: l1_def)
  obtain d4 where d4: "sl_updateMetadata env l1 = Some (l1\<lparr>sl_metadata := nextMetadata l1, sl_disk := d4\<rparr>)"
    "same_segments d3 d4" "disk_wf d4" "names_ok d4" "om_wf (d_names d4)" "disk_ext d3 d4"
    using updateMetadata_segments [OF env, of l1, unfolded l1d, OF d3(3-5)] .
  define d5 where "d5 = d4\<lparr>d_dnames := d_names d4\<rparr>"
  define l where "l = l1\<lparr>sl_metadata := nextMetadata l1, sl_disk := d5\<rparr>"
  have d5: "same_segments d d5" "disk_wf d5" "names_ok d5" "om_wf (d_names d5)"
    using d2 d3 d4 same_segments_trans [of d d2 d3] same_segments_trans [of d d3 d4]
    by (simp_all add: d5_def same_segments_def disk_wf_def names_ok_def)
  have sub: "fst ` set (d_names d) \<subseteq> fst ` set (d_names d5)"
  proof
    fix f assume "f \<in> fst ` set (d_names d)"
    then obtain i where "map_of (d_names d2) f = Some i"
      using d2(5) by (metis not_None_eq map_of_eq_None_iff)
    then have "map_of (d_names d4) f = Some i" using d3(6) d4(6) by (simp add: disk_ext_def)
    then show "f \<in> fst ` set (d_names d5)" by (auto simp: d5_def dest: map_of_SomeD intro: rev_image_eqI)
  qed
  have choose: "(case chooseMetadata (metadataIn env d ''metadata1'') (metadataIn env d ''metadata2'') of
              Some m \<Rightarrow> Some m
            | None \<Rightarrow> do {
                require (List.map_filter rawSegment (sort (fs_ls d)) = []);
                Some \<lparr>slm_format_version = 0, slm_version = 0, slm_raft_metadata = None, slm_entries_start = 1\<rparr>
              }) = Some md"
    using none by (auto simp: md_def chosenMetadata_def split: option.split)
  show thesis
  proof (rule that [of l])
    show "disk_holds env (sl_disk l) start segs" using disk_holds_same [OF h d5] by (simp add: l_def)
    show "same_segments d (sl_disk l)" "fst ` set (d_names d) \<subseteq> fst ` set (d_names (sl_disk l))"
      using d5(1) sub by (simp_all add: l_def)
    show "logStartIndex l = start" "sl_raft_metadata l = raft" using md by (simp_all add: l_def l1_def l0_def)
  qed (use r1(1) r2(1) choose d3(1) d4(1) in
      \<open>simp_all add: l0_def [unfolded raftMetadataOf_def, symmetric] l1_def [symmetric] onDisk_def fs_fsync_def l_def d5_def Let_def\<close>,
      simp_all add: l1_def l0_def)
qed

text \<open>The constructor as its three parts.\<close>

lemma mkSegmentedLog_parts:
  "mkSegmentedLog env d =
     (let segments = List.map_filter rawSegment (sort (fs_ls d));
          p = snd (readSegmentFilenames (sort (fs_ls d)) (mkPreparedSegments (max (storageOpenSegments env) 1))) in
      do { l \<leftarrow> do { (metadata1, d1) \<leftarrow> readMetadata env ''metadata1'' d;
            (metadata2, d2) \<leftarrow> readMetadata env ''metadata2'' d1;
            metadata \<leftarrow> (case chooseMetadata metadata1 metadata2 of
                Some m \<Rightarrow> Some m
              | None \<Rightarrow> do {
                  require (segments = []);
                  Some \<lparr>slm_format_version = 0, slm_version = 0, slm_raft_metadata = None, slm_entries_start = 1\<rparr>
                });
            let l0 = \<lparr>sl_metadata = metadata,
                sl_raft_metadata = (case slm_raft_metadata metadata of
                    None \<Rightarrow> \<lparr>md_current_term = None, md_voted_for = None\<rparr> | Some r \<Rightarrow> r),
                sl_disk = d2, openSegmentFile = None, logStartIndex = slm_entries_start metadata,
                segmentsByStartIndex = [], totalClosedSegmentBytes = 0, preparedSegments = p,
                sl_currentSync = \<lparr>sync_lastIndex = 0, sync_ops = []\<rparr>\<rparr>;
            l1 \<leftarrow> sl_updateMetadata env l0;
            l2 \<leftarrow> sl_updateMetadata env l1;
            onDisk (fs_fsync dirFd) l2 };
          l \<leftarrow> loadSegments env segments l;
          (case segmentsByStartIndex l of [] \<Rightarrow> Some () | (k, s) # rest \<Rightarrow> checkContiguous k (segmentsByStartIndex l));
          r \<leftarrow> segmentPreparerMain_iter env l;
          l \<leftarrow> (case r of Ready l \<Rightarrow> Some l | _ \<Rightarrow> None);
          l \<leftarrow> openNewSegment env l;
          assertInvariants env l;
          Some l })"
proof -
  obtain ss p where r: "readSegmentFilenames (sort (fs_ls d)) (mkPreparedSegments (max (storageOpenSegments env) 1)) = (ss, p)"
    by fastforce
  have ss: "ss = List.map_filter rawSegment (sort (fs_ls d))" using readSegmentFilenames_fst r by (metis fst_conv)
  have b: "Option.bind (case x of (a, b) \<Rightarrow> f a b) g = (case x of (a, b) \<Rightarrow> Option.bind (f a b) g)"
    for x :: "'p \<times> 'q" and f :: "'p \<Rightarrow> 'q \<Rightarrow> 'r option" and g :: "'r \<Rightarrow> 's option" by (cases x) simp
  show ?thesis
    by (simp only: mkSegmentedLog_def r Let_def prod.case snd_conv ss [symmetric] Option.bind_assoc b)
qed

text \<open>When the disk holds a log, the constructor returns a log with the same entries and metadata.\<close>

lemma mkSegmentedLog_recovers:
  assumes env: "env_ok env" and h: "disk_holds env d start segs" and m: "holds_metadata env d start raft"
    and c: "contig n (keyed segs) e" "0 < n" "inj_on seg_filename (set segs)"
    and start: "if segs = [] then n = start \<and> e = start else n \<le> start"
  obtains l where "mkSegmentedLog env d = Some l" "sl_inv env l" "sl_raft_metadata l = raft"
    "sl_stored l = (start, drop (start - n) (seg_list (keyed segs)))"
proof -
  let ?fs = "sort (fs_ls d)"
  define p where "p = snd (readSegmentFilenames ?fs (mkPreparedSegments (max (storageOpenSegments env) 1)))"
  have p: "\<not> ps_exiting p" "0 < ps_demanded p" "openSegments p = []"
    using readSegmentFilenames_prepared [of ?fs "mkPreparedSegments (max (storageOpenSegments env) 1)"]
    by (simp_all add: p_def mkPreparedSegments_def)
  note parts = mkSegmentedLog_parts [of env d, folded p_def, unfolded Let_def]
  obtain l0 where l0: "do { (metadata1, d1) \<leftarrow> readMetadata env ''metadata1'' d;
          (metadata2, d2) \<leftarrow> readMetadata env ''metadata2'' d1;
          metadata \<leftarrow> (case chooseMetadata metadata1 metadata2 of
              Some m \<Rightarrow> Some m
            | None \<Rightarrow> do {
                require (List.map_filter rawSegment (sort (fs_ls d)) = []);
                Some \<lparr>slm_format_version = 0, slm_version = 0, slm_raft_metadata = None, slm_entries_start = 1\<rparr>
              });
          let l0 = \<lparr>sl_metadata = metadata,
              sl_raft_metadata = (case slm_raft_metadata metadata of
                  None \<Rightarrow> \<lparr>md_current_term = None, md_voted_for = None\<rparr> | Some r \<Rightarrow> r),
              sl_disk = d2, openSegmentFile = None, logStartIndex = slm_entries_start metadata,
              segmentsByStartIndex = [], totalClosedSegmentBytes = 0, preparedSegments = p,
              sl_currentSync = \<lparr>sync_lastIndex = 0, sync_ops = []\<rparr>\<rparr>;
          l1 \<leftarrow> sl_updateMetadata env l0;
          l2 \<leftarrow> sl_updateMetadata env l1;
          onDisk (fs_fsync dirFd) l2 } = Some l0"
    and h0: "disk_holds env (sl_disk l0) start segs"
    and f0: "logStartIndex l0 = start" "sl_raft_metadata l0 = raft"
      "segmentsByStartIndex l0 = []" "totalClosedSegmentBytes l0 = 0" "openSegmentFile l0 = None" "preparedSegments l0 = p"
    and sub: "fst ` set (d_names d) \<subseteq> fst ` set (d_names (sl_disk l0))" and same: "same_segments d (sl_disk l0)"
    using metadata_ok [OF env h m, of p] .
  have fs: "distinct ?fs" "set ?fs \<subseteq> fst ` set (d_names (sl_disk l0))" "set ?fs = fst ` set (d_names d)"
    using h om_wf_distinct sub by (auto simp: disk_holds_def fs_ls_def)
  have hs: "\<forall>s \<in> set segs. holds_segment env (sl_disk l0) s \<and> logStartIndex l0 \<le> seg_end s"
    using h0 f0(1) by (simp add: disk_holds_def)
  have inj: "segs_distinct segs" using keyed_wf(2) [OF c(1)] hs c(3) by (auto simp: segs_distinct_def)
  have used: "seg_filename s \<in> set ?fs" if "s \<in> set segs" for s
  proof -
    have "holds_segment env d s" using h that by (simp add: disk_holds_def)
    then obtain i where "map_of (d_names d) (seg_filename s) = Some i" by (auto simp: holds_segment_def)
    then show ?thesis unfolding fs(3) by (force dest: map_of_SomeD)
  qed
  have "load_inv env (sl_disk l0) segs ?fs l0"
  proof -
    have "openFilename k \<in> set ?fs" if "map_of (d_names (sl_disk l0)) (openFilename k) \<noteq> None" for k
    proof -
      have "map_of (d_names d) (openFilename k) \<noteq> None"
        using same that rawSegment_open [of k] by (simp add: same_segments_def)
      then show ?thesis unfolding fs(3) by (metis map_of_eq_None_iff)
    qed
    moreover have "{s \<in> set segs. seg_filename s \<notin> set ?fs} = {}" using used by blast
    ultimately show ?thesis
      using h0 f0 used unfolding load_inv_def by (simp add: intact_def disk_holds_def)
  qed
  then obtain l1 where l1: "loadSegments env (List.map_filter rawSegment ?fs) l0 = Some l1"
      "load_inv env (sl_disk l0) segs [] l1" "same_but_loaded l0 l1"
    using load_loop [OF env inj, of "sl_disk l0" l0 ?fs] h0 f0(1) fs(1,2) by auto
  have f1: "logStartIndex l1 = start" "sl_raft_metadata l1 = raft" "openSegmentFile l1 = None" "preparedSegments l1 = p"
    using l1(3) f0 by (auto simp: same_but_loaded_def)
  have c3: "\<forall>s \<in> set segs. holds_segment env (sl_disk l0) s \<and> logStartIndex l1 \<le> seg_end s"
    and st: "if segs = [] then n = logStartIndex l1 \<and> e = logStartIndex l1 else n \<le> logStartIndex l1"
    and p1: "\<not> ps_exiting (preparedSegments l1)" "0 < ps_demanded (preparedSegments l1)"
      "openSegments (preparedSegments l1) = []"
    using hs start p f0(1) f1 by simp_all
  obtain l where l: "do { (case segmentsByStartIndex l1 of [] \<Rightarrow> Some () | (k, s) # rest \<Rightarrow> checkContiguous k (segmentsByStartIndex l1));
          r \<leftarrow> segmentPreparerMain_iter env l1;
          l \<leftarrow> (case r of Ready l \<Rightarrow> Some l | _ \<Rightarrow> None);
          l \<leftarrow> openNewSegment env l;
          assertInvariants env l;
          Some l } = Some l"
    "sl_inv env l" "sl_stored l = (logStartIndex l1, drop (logStartIndex l1 - n) (seg_list (keyed segs)))"
    "sl_raft_metadata l = sl_raft_metadata l1"
    using finish_ok [OF env l1(2) c(1,2) c3 st p1 f1(3)] .
  have "mkSegmentedLog env d = Some l"
    using parts l0 l1(1) l(1) unfolding Let_def by simp
  then show thesis using that l(2-4) f1 by simp
qed

end
