(* ===== verification/LC_SegmentedLogDurable.thy ===== *)
theory LC_SegmentedLogDurable
  imports LC_SegmentedLogRecovery
begin

text \<open>
  Durability: what has been appended and synced survives a crash. The queued operations are followed as if
  they ran at once: the log in memory matches the disk on which they have been run. Running them leaves
  nothing that has not been forced to stable storage, so the disk after a crash holds the log.
\<close>

section \<open>Dropping redundant flushes\<close>

lemma runOps_append: "runOps (a @ b) d = runOps a d \<bind> runOps b"
  by (induction a arbitrary: d) (simp_all, metis Option.bind_assoc)

text \<open>A flush is redundant before a write and another flush of the same file.\<close>

lemma flush_redundant:
  assumes "d_fds d dirFd = None"
  shows "runOps [FDATASYNC fd, WRITE fd buf, FDATASYNC fd] d = runOps [NOOP_OP fd, WRITE fd buf, FDATASYNC fd] d"
proof (cases "fd = dirFd")
  case True
  then show ?thesis using assms by (simp add: fs_fdatasync_def fs_fsync_def fs_write_def)
next
  case False
  then show ?thesis
    by (cases "d_fds d fd") (auto simp: fs_fdatasync_def fs_fsync_def fs_write_def)
qed

lemma runOp_dirFd: "runOp op d = Some d' \<Longrightarrow> d_fds d dirFd = None \<Longrightarrow> d_fds d' dirFd = None"
  by (cases op) (auto simp: fs_write_def fs_truncate_def fs_rename_def fs_fdatasync_def fs_fsync_def fs_close_def
      fs_removeFile_def elim!: bind_SomeE split: if_splits prod.splits)

lemma runOps_optimize:
  "d_fds d dirFd = None \<Longrightarrow> runOps (optimize ops) d = runOps ops d"
proof (induction ops arbitrary: d rule: optimize.induct)
  case (1 prev it nxt ops)
  have rest: "runOps (optimize (it # nxt # ops)) d' = runOps (it # nxt # ops) d'" if "runOp op d = Some d'" for op d'
    using 1(1) [OF refl] runOp_dirFd [OF that 1(2)] by blast
  have step: "runOp op d \<bind> runOps (optimize (it # nxt # ops)) = runOp op d \<bind> runOps (it # nxt # ops)" for op
    by (cases "runOp op d") (simp_all add: rest)
  show ?case
  proof (cases "\<exists>fd buf. prev = FDATASYNC fd \<and> it = WRITE fd buf \<and> nxt = FDATASYNC fd")
    case True
    then obtain fd buf where ops: "prev = FDATASYNC fd" "it = WRITE fd buf" "nxt = FDATASYNC fd" by blast
    have "runOps (optimize (prev # it # nxt # ops)) d = runOp (NOOP_OP fd) d \<bind> runOps (optimize (it # nxt # ops))"
      by (simp add: ops)
    also have "\<dots> = runOps ([NOOP_OP fd, it, nxt] @ ops) d" by (simp only: step) simp
    also have "\<dots> = runOps ([prev, it, nxt] @ ops) d"
      by (simp only: runOps_append ops flush_redundant [OF 1(2), symmetric])
    finally show ?thesis by simp
  next
    case False
    have "optimize (prev # it # nxt # ops) = prev # optimize (it # nxt # ops)"
    proof -
      have "(case (prev, it, nxt) of (FDATASYNC a, WRITE b buf, FDATASYNC c) \<Rightarrow>
          if a = b \<and> b = c then NOOP_OP a else prev | _ \<Rightarrow> prev) = prev"
        using False by (auto split: Op.split)
      then show ?thesis by simp
    qed
    then show ?thesis using step by simp
  qed
qed simp_all

section \<open>Queued operations and new files\<close>

definition disk_ok :: "Disk \<Rightarrow> bool" where
  "disk_ok d \<longleftrightarrow> disk_wf d \<and> names_ok d \<and> om_wf (d_names d) \<and> d_fds d dirFd = None \<and>
     (\<forall>fd i pos. d_fds d fd = Some (i, pos) \<longrightarrow> i < d_next d)"

text \<open>Two disks that system calls cannot tell apart.\<close>

definition vol_eq :: "Disk \<Rightarrow> Disk \<Rightarrow> bool" where
  "vol_eq d d' \<longleftrightarrow> map_of (d_names d) = map_of (d_names d') \<and> d_data d = d_data d' \<and> d_fds d = d_fds d' \<and>
     d_next d = d_next d'"

lemma runOp_vol:
  assumes "vol_eq d d'" "runOp op d = Some e"
  shows "\<exists>e'. runOp op d' = Some e' \<and> vol_eq e e'"
  using assms
  by (cases op) (auto simp: vol_eq_def fs_write_def fs_truncate_def fs_rename_def fs_fdatasync_def fs_fsync_def
      fs_close_def fs_removeFile_def map_of_om_set map_of_om_erase elim!: bind_SomeE split: if_splits prod.splits)

lemma runOps_vol: "vol_eq d d' \<Longrightarrow> runOps ops d = Some e \<Longrightarrow> \<exists>e'. runOps ops d' = Some e' \<and> vol_eq e e'"
proof (induction ops arbitrary: d d')
  case (Cons op ops)
  obtain d1 where d1: "runOp op d = Some d1" "runOps ops d1 = Some e" using Cons.prems(2) by (auto elim: bind_SomeE)
  obtain d1' where "runOp op d' = Some d1'" "vol_eq d1 d1'" using runOp_vol [OF Cons.prems(1) d1(1)] by blast
  then show ?case using Cons.IH [OF _ d1(2)] by auto
qed simp

text \<open>Operations that have nothing to do with a descriptor and a name.\<close>

fun op_avoids :: "nat \<Rightarrow> string \<Rightarrow> Op \<Rightarrow> bool" where
  "op_avoids i n (WRITE fd buf) \<longleftrightarrow> fd \<noteq> i"
| "op_avoids i n (TRUNCATE fd k) \<longleftrightarrow> fd \<noteq> i"
| "op_avoids i n (RENAME fd a b) \<longleftrightarrow> a \<noteq> n \<and> b \<noteq> n"
| "op_avoids i n (FDATASYNC fd) \<longleftrightarrow> fd \<noteq> i"
| "op_avoids i n (FSYNC fd) \<longleftrightarrow> fd \<noteq> i"
| "op_avoids i n (CLOSE fd) \<longleftrightarrow> fd \<noteq> i"
| "op_avoids i n (UNLINKAT fd f) \<longleftrightarrow> f \<noteq> n"
| "op_avoids i n (NOOP_OP fd) \<longleftrightarrow> True"

lemma runOp_next: "runOp op d = Some e \<Longrightarrow> d_next e = d_next d"
  by (cases op) (auto simp: fs_write_def fs_truncate_def fs_rename_def fs_fdatasync_def fs_fsync_def
      fs_close_def fs_removeFile_def elim!: bind_SomeE split: if_splits prod.splits)

lemma runOp_inodes:
  "runOp op d = Some e \<Longrightarrow> d_fds e fd = Some (i, pos) \<Longrightarrow> \<exists>pos'. d_fds d fd = Some (i, pos')"
  by (cases op) (auto simp: fs_write_def fs_truncate_def fs_rename_def fs_fdatasync_def fs_fsync_def
      fs_close_def fs_removeFile_def elim!: bind_SomeE split: if_splits prod.splits)

text \<open>A file may as well be created after operations that do not concern it.\<close>

lemma runOp_prepared:
  assumes fds: "\<forall>fd i pos. d_fds d fd = Some (i, pos) \<longrightarrow> i < d_next d"
    and av: "op_avoids (d_next d) n op" and r: "runOp op d = Some e"
  shows "\<exists>e'. runOp op (preparedDisk env n d) = Some e' \<and> vol_eq e' (preparedDisk env n e)"
proof -
  note defs = preparedDisk_def Let_def vol_eq_def fs_write_def fs_truncate_def fs_rename_def fs_fdatasync_def
    fs_fsync_def fs_close_def fs_removeFile_def map_of_om_set map_of_om_erase
  show ?thesis
  proof (cases op)
    case (WRITE fd buf)
    then obtain i pos where "d_fds d fd = Some (i, pos)" using r by (auto simp: fs_write_def elim: bind_SomeE)
    moreover from this have "i \<noteq> d_next d" using fds by fastforce
    ultimately show ?thesis using WRITE av r by (auto simp: defs fun_upd_twist)
  next
    case (TRUNCATE fd k)
    then obtain i pos where "d_fds d fd = Some (i, pos)" using r by (auto simp: fs_truncate_def elim: bind_SomeE)
    moreover from this have "i \<noteq> d_next d" using fds by fastforce
    ultimately show ?thesis using TRUNCATE av r by (auto simp: defs fun_upd_twist)
  next
    case (RENAME fd a b)
    then obtain i where "map_of (d_names d) a = Some i" using r by (auto simp: fs_rename_def elim: bind_SomeE split: if_splits)
    then show ?thesis using RENAME av r by (auto simp: defs fun_eq_iff split: if_splits)
  next
    case (FDATASYNC fd)
    then show ?thesis using av r by (auto simp: defs elim!: bind_SomeE split: if_splits)
  next
    case (FSYNC fd)
    then show ?thesis using av r by (auto simp: defs elim!: bind_SomeE split: if_splits)
  next
    case (CLOSE fd)
    then show ?thesis using av r by (auto simp: defs fun_upd_twist split: if_splits)
  next
    case (UNLINKAT fd f)
    then show ?thesis using av r by (auto simp: defs fun_upd_twist split: if_splits)
  next
    case (NOOP_OP fd)
    then show ?thesis using r by (auto simp: defs)
  qed
qed

lemma runOps_prepared:
  assumes "\<forall>fd i pos. d_fds d fd = Some (i, pos) \<longrightarrow> i < d_next d"
    and "\<forall>op \<in> set ops. op_avoids (d_next d) n op" and "runOps ops d = Some e"
  shows "\<exists>e'. runOps ops (preparedDisk env n d) = Some e' \<and> vol_eq e' (preparedDisk env n e)"
  using assms
proof (induction ops arbitrary: d)
  case Nil
  then show ?case by (simp add: vol_eq_def)
next
  case (Cons op ops)
  obtain d1 where d1: "runOp op d = Some d1" "runOps ops d1 = Some e" using Cons.prems(3) by (auto elim: bind_SomeE)
  have n: "d_next d1 = d_next d" by (rule runOp_next [OF d1(1)])
  obtain d1' where p: "runOp op (preparedDisk env n d) = Some d1'" "vol_eq d1' (preparedDisk env n d1)"
    using runOp_prepared [OF Cons.prems(1) _ d1(1)] Cons.prems(2) by fastforce
  have "\<forall>fd i pos. d_fds d1 fd = Some (i, pos) \<longrightarrow> i < d_next d1"
    using runOp_inodes [OF d1(1)] Cons.prems(1) n by metis
  then obtain e1 where "runOps ops (preparedDisk env n d1) = Some e1" "vol_eq e1 (preparedDisk env n e)"
    using Cons.IH [OF _ _ d1(2)] Cons.prems(2) n by auto
  moreover have "vol_eq (preparedDisk env n d1) d1'" using p(2) by (auto simp: vol_eq_def)
  ultimately obtain e' where "runOps ops d1' = Some e'" "vol_eq e1 e'" using runOps_vol by blast
  moreover from this have "vol_eq e' (preparedDisk env n e)"
    using \<open>vol_eq e1 (preparedDisk env n e)\<close> by (auto simp: vol_eq_def)
  ultimately show ?case using p(1) by auto
qed

section \<open>What has reached stable storage\<close>

text \<open>The descriptors of files, or of the directory, that have changed since they were last synced.\<close>

fun dirty_after :: "nat set \<Rightarrow> Op list \<Rightarrow> nat set option" where
  "dirty_after D [] = Some D"
| "dirty_after D (WRITE fd buf # ops) = dirty_after (insert fd D) ops"
| "dirty_after D (TRUNCATE fd k # ops) = dirty_after (insert fd D) ops"
| "dirty_after D (RENAME fd a b # ops) = dirty_after (insert dirFd D) ops"
| "dirty_after D (FDATASYNC fd # ops) = dirty_after (D - {fd}) ops"
| "dirty_after D (FSYNC fd # ops) = dirty_after (D - {fd}) ops"
| "dirty_after D (CLOSE fd # ops) = (if fd \<in> D then None else dirty_after D ops)"
| "dirty_after D (UNLINKAT fd f # ops) = dirty_after (insert dirFd D) ops"
| "dirty_after D (NOOP_OP fd # ops) = dirty_after D ops"

definition clean_upto :: "nat set \<Rightarrow> Disk \<Rightarrow> bool" where
  "clean_upto D d \<longleftrightarrow> (dirFd \<notin> D \<longrightarrow> d_dnames d = d_names d) \<and>
     (\<forall>i. d_durable d i \<noteq> d_data d i \<longrightarrow> (\<exists>fd \<in> D. \<exists>pos. d_fds d fd = Some (i, pos)))"

lemma dirty_after_append: "dirty_after D (a @ b) = dirty_after D a \<bind> (\<lambda>D. dirty_after D b)"
  by (induction D a rule: dirty_after.induct) simp_all

text \<open>A descriptor whose file is flushed is no longer dirty.\<close>

lemma clean_fsync:
  assumes "clean_upto D d" "d_fds d dirFd = None" "fs_fsync fd d = Some d'"
  shows "clean_upto (D - {fd}) d' \<and> d_fds d' = d_fds d"
proof (cases "fd = dirFd")
  case True
  then have d': "d' = d\<lparr>d_dnames := d_names d\<rparr>" using assms(3) by (simp add: fs_fsync_def)
  have "\<exists>fd' \<in> D - {fd}. \<exists>pos. d_fds d fd' = Some (i, pos)" if "d_durable d i \<noteq> d_data d i" for i
  proof -
    from assms(1) that obtain fd' pos where f: "fd' \<in> D" "d_fds d fd' = Some (i, pos)" unfolding clean_upto_def by blast
    then have "fd' \<noteq> fd" using True assms(2) by auto
    then show ?thesis using f by blast
  qed
  then show ?thesis unfolding clean_upto_def d' by simp
next
  case False
  then obtain i pos where i: "d_fds d fd = Some (i, pos)" and d': "d' = d\<lparr>d_durable := (d_durable d)(i := d_data d i)\<rparr>"
    using assms(3) by (auto simp: fs_fsync_def elim!: bind_SomeE)
  have "\<exists>fd' \<in> D - {fd}. \<exists>pos. d_fds d fd' = Some (j, pos)" if "j \<noteq> i" "d_durable d j \<noteq> d_data d j" for j
  proof -
    from assms(1) that obtain fd' pos' where f: "fd' \<in> D" "d_fds d fd' = Some (j, pos')" unfolding clean_upto_def by blast
    then have "fd' \<noteq> fd" using i that by auto
    then show ?thesis using f by blast
  qed
  then show ?thesis using assms(1) False unfolding clean_upto_def d' by (auto split: if_splits)
qed

lemma clean_after:
  "clean_upto D d \<Longrightarrow> d_fds d dirFd = None \<Longrightarrow> dirty_after D ops = Some D' \<Longrightarrow> runOps ops d = Some e \<Longrightarrow> clean_upto D' e"
proof (induction D ops arbitrary: d rule: dirty_after.induct)
  case (2 D fd buf ops)
  then obtain i pos where f: "d_fds d fd = Some (i, pos)" by (auto simp: fs_write_def elim!: bind_SomeE)
  let ?d = "d\<lparr>d_data := (d_data d)(i := overwrite pos buf (d_data d i)), d_fds := (d_fds d)(fd \<mapsto> (i, pos + length buf))\<rparr>"
  have "clean_upto (insert fd D) ?d"
    using 2(2) f unfolding clean_upto_def
    by (auto split: if_splits) (metis option.inject prod.inject)+
  moreover have "d_fds ?d dirFd = None" using 2(3) f by auto
  ultimately show ?case using 2(1) [of ?d] 2(4,5) f by (simp add: fs_write_def)
next
  case (3 D fd k ops)
  then obtain i pos where f: "d_fds d fd = Some (i, pos)" by (auto simp: fs_truncate_def elim!: bind_SomeE)
  let ?d = "d\<lparr>d_data := (d_data d)(i := take k (d_data d i) @ zeros (k - length (d_data d i)))\<rparr>"
  have "clean_upto (insert fd D) ?d" using 3(2) f unfolding clean_upto_def by (auto split: if_splits)
  then show ?case using 3(1) [of ?d] 3(3-5) f by (simp add: fs_truncate_def)
next
  case (4 D fd a b ops)
  then obtain i where f: "map_of (d_names d) a = Some i" "runOp (RENAME fd a b) d =
      Some (d\<lparr>d_names := om_set b i (om_erase a (d_names d))\<rparr>)"
    by (auto simp: fs_rename_def elim!: bind_SomeE split: if_splits)
  have "clean_upto (insert dirFd D) (d\<lparr>d_names := om_set b i (om_erase a (d_names d))\<rparr>)"
    using 4(2) unfolding clean_upto_def by auto
  then show ?case using 4(1) 4(3-5) f by auto
next
  case (5 D fd ops)
  then obtain d' where d': "fs_fsync fd d = Some d'" "runOps ops d' = Some e"
    by (auto simp: fs_fdatasync_def elim!: bind_SomeE)
  then show ?case using 5(1) [of d'] 5(2-4) clean_fsync [OF 5(2,3) d'(1)] by auto
next
  case (6 D fd ops)
  then obtain d' where d': "fs_fsync fd d = Some d'" "runOps ops d' = Some e"
    by (auto simp: elim!: bind_SomeE)
  then show ?case using 6(1) [of d'] 6(2-4) clean_fsync [OF 6(2,3) d'(1)] by auto
next
  case (7 D fd ops)
  then have "fd \<notin> D" by (auto split: if_splits)
  then have "\<exists>d'. runOp (CLOSE fd) d = Some d' \<and> clean_upto D d' \<and> d_fds d' = (d_fds d)(fd := None)"
    using 7(2,5) unfolding clean_upto_def by (auto simp: fs_close_def elim!: bind_SomeE split: if_splits) metis+
  then show ?case using 7 by (auto split: if_splits)
next
  case (8 D fd f ops)
  then have "\<exists>d'. runOp (UNLINKAT fd f) d = Some d' \<and> clean_upto (insert dirFd D) d' \<and> d_fds d' = d_fds d"
    unfolding clean_upto_def by (auto simp: fs_removeFile_def elim!: bind_SomeE split: if_splits)
  then show ?case using 8 by auto
qed auto

end
