(* ===== verification/LC_SegmentedLogCrash.thy ===== *)
theory LC_SegmentedLogCrash
  imports LC_SegmentedLogDurable
begin

text \<open>
  What has been appended and synced survives a crash. The files of the log are described by their names and
  bytes; the description is followed through the queued operations, as if they ran at once, and holds of the
  disk when they have been run. Since nothing is left that has not been forced to stable storage, the
  disk after a crash is the same, and the constructor recovers the log from it.
\<close>

section \<open>Disks described by their files\<close>

definition opened_at :: "Disk \<Rightarrow> string \<times> nat \<times> nat \<times> string \<Rightarrow> bool" where
  "opened_at d = (\<lambda>(name, fd, pos, bytes). \<exists>i. map_of (d_names d) name = Some i \<and> d_fds d fd = Some (i, pos) \<and> d_data d i = bytes)"

definition file_is :: "Disk \<Rightarrow> string \<times> string \<Rightarrow> bool" where
  "file_is d = (\<lambda>(name, bytes). \<exists>i. map_of (d_names d) name = Some i \<and> d_data d i = bytes)"

text \<open>Files that are closed, and files that are open with their descriptors and positions; no other name is that of a segment.\<close>

definition disk_has :: "Disk \<Rightarrow> (string \<times> string) list \<Rightarrow> (string \<times> nat \<times> nat \<times> string) list \<Rightarrow> bool" where
  "disk_has d C F \<longleftrightarrow>
     disk_ok d \<and> (\<forall>f \<in> set C. file_is d f) \<and> (\<forall>f \<in> set F. opened_at d f) \<and>
     distinct (map fst C @ map fst F) \<and> distinct (map (fst \<circ> snd) F) \<and>
     (\<forall>name. map_of (d_names d) name \<noteq> None \<longrightarrow>
        rawSegment name = None \<or> name \<in> fst ` set C \<or> name \<in> fst ` set F)"

lemma disk_has_vol: "disk_has d C F \<Longrightarrow> vol_eq d d' \<Longrightarrow> disk_ok d' \<Longrightarrow> disk_has d' C F"
  unfolding disk_has_def vol_eq_def by (auto simp: opened_at_def file_is_def)

text \<open>A change of one file leaves the others alone.\<close>

lemma disk_has_frame:
  assumes ok: "disk_ok d" and i: "map_of (d_names d) name = Some i"
    and names: "\<And>n. n \<notin> N \<Longrightarrow> map_of (d_names d') n = map_of (d_names d) n"
    and data: "\<And>j. j \<noteq> i \<Longrightarrow> d_data d' j = d_data d j"
    and fds: "\<And>g. g \<noteq> fd \<Longrightarrow> d_fds d' g = d_fds d g" and N: "name \<in> N"
  shows "file_is d f \<Longrightarrow> fst f \<notin> N \<Longrightarrow> file_is d' f"
    and "opened_at d g \<Longrightarrow> fst g \<notin> N \<Longrightarrow> fst (snd g) \<noteq> fd \<Longrightarrow> opened_at d' g"
proof -
  have other: "j \<noteq> i" if "map_of (d_names d) n = Some j" "n \<notin> N" for n j
    using ok i that N unfolding disk_ok_def names_ok_def by metis
  show "file_is d f \<Longrightarrow> fst f \<notin> N \<Longrightarrow> file_is d' f"
    using other names data by (cases f) (auto simp: file_is_def)
  show "opened_at d g \<Longrightarrow> fst g \<notin> N \<Longrightarrow> fst (snd g) \<noteq> fd \<Longrightarrow> opened_at d' g"
    using other names data fds by (cases g) (auto simp: opened_at_def)
qed

lemma runOp_names:
  assumes "disk_ok d" "runOp op d = Some e"
  shows "names_ok e \<and> om_wf (d_names e)"
proof (cases op)
  case (RENAME fd a b)
  obtain i where i: "map_of (d_names d) a = Some i" and e: "e = d\<lparr>d_names := om_set b i (om_erase a (d_names d))\<rparr>"
    using assms(2) RENAME by (auto simp: fs_rename_def elim!: bind_SomeE split: if_splits)
  then show ?thesis
    using assms(1) unfolding disk_ok_def names_ok_def e
    by (auto simp: map_of_om_set map_of_om_erase intro: om_wf_set om_wf_erase split: if_splits)
next
  case (UNLINKAT fd f)
  then have "e = d\<lparr>d_names := om_erase f (d_names d)\<rparr>" using assms(2) by (auto simp: fs_removeFile_def split: if_splits)
  then show ?thesis
    using assms(1) unfolding disk_ok_def names_ok_def by (auto simp: map_of_om_erase intro: om_wf_erase)
qed (use assms in \<open>auto simp: disk_ok_def names_ok_def fs_write_def fs_truncate_def fs_fdatasync_def fs_fsync_def fs_close_def
      elim!: bind_SomeE split: if_splits prod.splits\<close>)

lemma runOp_disk_ok:
  assumes "disk_ok d" "runOp op d = Some e"
  shows "disk_ok e"
proof -
  have fds: "\<exists>pos'. d_fds d g = Some (i, pos')" if "d_fds e g = Some (i, pos)" for g i pos
    by (rule runOp_inodes [OF assms(2) that])
  have "disk_wf e" using assms(1) runOp_next [OF assms(2)] fds unfolding disk_ok_def disk_wf_def by fastforce
  moreover have "d_fds e dirFd = None" using assms runOp_dirFd by (simp add: disk_ok_def)
  moreover have "i < d_next e" if "d_fds e g = Some (i, pos)" for g i pos
    using fds [OF that] assms(1) runOp_next [OF assms(2)] by (auto simp: disk_ok_def)
  ultimately show ?thesis using runOp_names [OF assms] by (simp add: disk_ok_def)
qed

lemma runOps_disk_ok: "disk_ok d \<Longrightarrow> runOps ops d = Some e \<Longrightarrow> disk_ok e"
  by (induction ops arbitrary: d) (auto elim!: bind_SomeE dest: runOp_disk_ok)

lemma runOps_next: "runOps ops d = Some e \<Longrightarrow> d_next e = d_next d"
  by (induction ops arbitrary: d) (auto elim!: bind_SomeE dest: runOp_next)

section \<open>Writing, closing and preparing files\<close>

lemma disk_has_write:
  assumes d: "disk_has d C ((name, fd, pos, b) # F)"
  obtains e where "runOp (WRITE fd buf) d = Some e" "disk_has e C ((name, fd, pos + length buf, overwrite pos buf b) # F)"
proof -
  obtain i where i: "map_of (d_names d) name = Some i" "d_fds d fd = Some (i, pos)" "d_data d i = b"
    using d by (auto simp: disk_has_def opened_at_def)
  define e where "e = d\<lparr>d_data := (d_data d)(i := overwrite pos buf b), d_fds := (d_fds d)(fd \<mapsto> (i, pos + length buf))\<rparr>"
  have r: "runOp (WRITE fd buf) d = Some e" using i by (simp add: fs_write_def e_def)
  have ok: "disk_ok d" "disk_ok e" using d runOp_disk_ok [OF _ r] by (auto simp: disk_has_def)
  note fr = disk_has_frame [OF ok(1) i(1), where d' = e and N = "{name}" and fd = fd]
  have "file_is e f" if "f \<in> set C" for f
    using that d by (intro fr(1)) (auto simp: disk_has_def e_def)
  moreover have "opened_at e f" if "f \<in> set F" for f
    using that d by (intro fr(2)) (auto simp: disk_has_def e_def)
  moreover have "opened_at e (name, fd, pos + length buf, overwrite pos buf b)" using i by (simp add: opened_at_def e_def)
  ultimately have "disk_has e C ((name, fd, pos + length buf, overwrite pos buf b) # F)"
    using d ok(2) by (auto simp: disk_has_def e_def)
  then show thesis using that r by blast
qed

text \<open>The operations that close a full segment.\<close>

definition closeOps :: "nat \<Rightarrow> nat \<Rightarrow> string \<Rightarrow> string \<Rightarrow> Op list" where
  "closeOps fd n name name' = [TRUNCATE fd n, FSYNC fd, CLOSE fd, RENAME dirFd name name', FSYNC dirFd]"

lemma disk_has_close:
  assumes d: "disk_has d C ((name, fd, pos, b) # F)" and n: "n \<le> length b"
    and fresh: "name' \<notin> fst ` set C" "name' \<notin> fst ` set F" "name' \<noteq> name"
    and slash: "\<not> prefix ''/'' name" "\<not> prefix ''/'' name'"
  obtains e where "runOps (closeOps fd n name name') d = Some e" "disk_has e (C @ [(name', take n b)]) F"
proof -
  obtain i where i: "map_of (d_names d) name = Some i" "d_fds d fd = Some (i, pos)" "d_data d i = b"
    using d by (auto simp: disk_has_def opened_at_def)
  have dir: "fd \<noteq> dirFd" using d i(2) by (auto simp: disk_has_def disk_ok_def)
  define e where "e = d\<lparr>d_data := (d_data d)(i := take n b), d_durable := (d_durable d)(i := take n b), d_fds := (d_fds d)(fd := None),
    d_names := om_set name' i (om_erase name (d_names d)), d_dnames := om_set name' i (om_erase name (d_names d))\<rparr>"
  have r: "runOps (closeOps fd n name name') d = Some e"
    using i n dir slash by (simp add: closeOps_def fs_truncate_def fs_fsync_def fs_close_def fs_rename_def e_def domI)
  have ok: "disk_ok d" "disk_ok e" using d runOps_disk_ok [OF _ r] by (auto simp: disk_has_def)
  note fr = disk_has_frame [OF ok(1) i(1), where d' = e and N = "{name, name'}" and fd = fd]
  have "file_is e f" if "f \<in> set C" for f
    using that d fresh by (intro fr(1)) (auto simp: disk_has_def e_def map_of_om_set map_of_om_erase)
  moreover have "opened_at e f" if "f \<in> set F" for f
    using that d fresh by (intro fr(2)) (auto simp: disk_has_def e_def map_of_om_set map_of_om_erase)
  moreover have "file_is e (name', take n b)" by (simp add: file_is_def e_def map_of_om_set)
  moreover have "rawSegment nm = None \<or> nm \<in> fst ` set (C @ [(name', take n b)]) \<or> nm \<in> fst ` set F"
    if "map_of (d_names e) nm \<noteq> None" for nm
  proof (cases "nm = name'")
    case False
    then have "map_of (d_names d) nm \<noteq> None \<and> nm \<noteq> name" using that by (auto simp: e_def map_of_om_set map_of_om_erase split: if_splits)
    then show ?thesis using d by (auto simp: disk_has_def)
  qed simp
  ultimately have "disk_has e (C @ [(name', take n b)]) F"
    using d ok(2) fresh by (auto simp: disk_has_def)
  then show thesis using that r by blast
qed

definition preparedFile :: "StorageEnv \<Rightarrow> string \<times> nat \<Rightarrow> string \<times> nat \<times> nat \<times> string" where
  "preparedFile env = (\<lambda>(name, fd). (name, fd, 1, segmentHeader @ zeros (MAX_SEGMENT_SIZE env - 1)))"

lemma disk_ok_prepared:
  assumes "disk_ok d" "map_of (d_names d) name = None"
  shows "disk_ok (preparedDisk env name d)"
  using assms unfolding disk_ok_def names_ok_def
  by (auto simp: preparedDisk_def Let_def map_of_om_set disk_wf_def less_Suc_eq intro: om_wf_set split: if_splits)

lemma disk_has_prepared:
  assumes d: "disk_has d C F" and n: "map_of (d_names d) name = None"
  shows "disk_has (preparedDisk env name d) C (F @ [preparedFile env (name, d_next d)])"
proof -
  let ?e = "preparedDisk env name d"
  have ok: "disk_ok d" using d by (simp add: disk_has_def)
  have used: "i < d_next d" if "map_of (d_names d) f = Some i" for f i
    using ok that by (auto simp: disk_ok_def names_ok_def)
  have fdn: "d_fds d (d_next d) = None" using ok by (auto simp: disk_ok_def disk_wf_def)
  have names: "map_of (d_names ?e) f = (if f = name then Some (d_next d) else map_of (d_names d) f)" for f
    by (simp add: preparedDisk_def Let_def map_of_om_set)
  have named: "f \<noteq> name" if "map_of (d_names d) f = Some i" for f i using that n by auto
  have data: "d_data ?e i = d_data d i" if "i < d_next d" for i using that by (simp add: preparedDisk_def Let_def)
  have fds: "d_fds ?e g = d_fds d g" if "d_fds d g \<noteq> None" for g using that fdn by (auto simp: preparedDisk_def Let_def)
  have "file_is ?e f" if "f \<in> set C" for f
  proof -
    have "file_is d f" using d that by (simp add: disk_has_def)
    then obtain n' b i where f: "f = (n', b)" "map_of (d_names d) n' = Some i" "d_data d i = b"
      by (cases f) (auto simp: file_is_def)
    then show ?thesis using named [OF f(2)] data [OF used [OF f(2)]] by (simp add: file_is_def names)
  qed
  moreover have "opened_at ?e f" if "f \<in> set F" for f
  proof -
    have "opened_at d f" using d that by (simp add: disk_has_def)
    then obtain n' g pos b i where f: "f = (n', g, pos, b)" "map_of (d_names d) n' = Some i" "d_fds d g = Some (i, pos)" "d_data d i = b"
      by (cases f) (auto simp: opened_at_def)
    then show ?thesis using named [OF f(2)] data [OF used [OF f(2)]] fds [of g] by (simp add: opened_at_def names)
  qed
  moreover have "opened_at ?e (preparedFile env (name, d_next d))"
    by (simp add: opened_at_def preparedFile_def names) (simp add: preparedDisk_def Let_def)
  moreover have "name \<notin> fst ` set C" "name \<notin> fst ` set F"
    using d n by (fastforce simp: disk_has_def file_is_def opened_at_def)+
  moreover have "d_next d \<notin> (fst \<circ> snd) ` set F"
    using d fdn by (fastforce simp: disk_has_def opened_at_def)
  ultimately show ?thesis
    using d disk_ok_prepared [OF ok n] by (auto simp: disk_has_def names preparedFile_def)
qed

section \<open>The log and its pending operations\<close>

definition metaFiles :: "string \<Rightarrow> string \<Rightarrow> (string \<times> string) list" where
  "metaFiles b1 b2 = [(''metadata1'', b1), (''metadata2'', b2)]"

definition closedFiles :: "StorageEnv \<Rightarrow> (nat, Segment) omap \<Rightarrow> (string \<times> string) list" where
  "closedFiles env xs = map (\<lambda>(k, s). (seg_filename s, fileBytes env s)) xs"

definition headFile :: "StorageEnv \<Rightarrow> Segment \<Rightarrow> nat \<Rightarrow> nat \<Rightarrow> string \<times> nat \<times> nat \<times> string" where
  "headFile env os fd z = (seg_filename os, fd, seg_bytes os, fileBytes env os @ zeros z)"

text \<open>What has not been done yet: the disk as it is has been synced, the operations change only the open segment after their last
  flush, and they do not concern files that will be prepared.\<close>

definition queued_ok :: "Op list \<Rightarrow> Disk \<Rightarrow> nat \<Rightarrow> nat \<Rightarrow> bool" where
  "queued_ok ops d counter fd \<longleftrightarrow>
     disk_ok d \<and> clean_upto {} d \<and> (\<exists>D. D \<subseteq> {fd} \<and> dirty_after {} ops = Some D) \<and>
     (\<forall>op \<in> set ops. \<forall>g \<ge> d_next d. \<forall>k > counter. op_avoids g (openFilename k) op)"

definition numbered :: "nat \<Rightarrow> string \<Rightarrow> bool" where
  "numbered counter name \<longleftrightarrow> (\<exists>k \<le> counter. name = openFilename k)"

text \<open>The disk \<open>e\<close> on which the queued operations have been run has the files of the log.\<close>

definition pending ::
  "StorageEnv \<Rightarrow> (string \<times> string) list \<Rightarrow> SegmentedLog \<Rightarrow> Disk \<Rightarrow> (nat, Segment) omap \<Rightarrow> Segment \<Rightarrow> nat \<Rightarrow> nat \<Rightarrow> bool" where
  "pending env M l e xs os fd z \<longleftrightarrow>
     segmentsByStartIndex l = xs @ [(seg_start os, os)] \<and> openSegmentFile l = Some fd \<and>
     runOps (sync_ops (sl_currentSync l)) (sl_disk l) = Some e \<and>
     queued_ok (sync_ops (sl_currentSync l)) (sl_disk l) (filenameCounter (preparedSegments l)) fd \<and>
     disk_has e (M @ closedFiles env xs) (headFile env os fd z # map (preparedFile env) (openSegments (preparedSegments l))) \<and>
     z \<le> MAX_SEGMENT_SIZE env \<and> numbered (filenameCounter (preparedSegments l)) (seg_filename os) \<and>
     (\<forall>f \<in> set (openSegments (preparedSegments l)). numbered (filenameCounter (preparedSegments l)) (fst f))"

definition pends :: "StorageEnv \<Rightarrow> (string \<times> string) list \<Rightarrow> SegmentedLog \<Rightarrow> bool" where
  "pends env M l \<longleftrightarrow> (\<exists>e xs os fd z. pending env M l e xs os fd z)"

lemma pendsI: "pending env M l e xs os fd z \<Longrightarrow> pends env M l"
  unfolding pends_def by blast

lemma overwrite_end: "pos = length b \<Longrightarrow> overwrite pos buf (b @ zeros z) = b @ buf @ zeros (z - length buf)"
  by (simp add: overwrite_def)

text \<open>An opened file has a descriptor that is in use.\<close>

lemma disk_has_fd:
  assumes "disk_has e C ((name, fd, pos, b) # F)"
  shows "fd < d_next e" "fd \<noteq> dirFd"
  using assms by (auto simp: disk_has_def opened_at_def disk_ok_def disk_wf_def)

lemma pending_write:
  assumes env: "env_ok env" and p: "pending env M l e xs os fd z" and os: "seg_ok env os"
    and l': "l' = addOp (WRITE fd (recordOf env x)) (updateOpenSegment (\<lambda>s. s\<lparr>seg_entries := seg_entries s @ [(seg_bytes s, x)],
                seg_bytes := seg_bytes s + length (recordOf env x), seg_end := seg_end s + 1\<rparr>) l)"
  shows "pends env M l'"
proof -
  let ?r = "recordOf env x"
  define os' where "os' = os\<lparr>seg_entries := seg_entries os @ [(seg_bytes os, x)],
    seg_bytes := seg_bytes os + length ?r, seg_end := seg_end os + 1\<rparr>"
  have segs: "segmentsByStartIndex l = xs @ [(seg_start os, os)]" using p by (simp add: pending_def)
  have l'': "segmentsByStartIndex l' = xs @ [(seg_start os', os')]" "openSegmentFile l' = openSegmentFile l" "sl_disk l' = sl_disk l"
      "preparedSegments l' = preparedSegments l" "sync_ops (sl_currentSync l') = sync_ops (sl_currentSync l) @ [WRITE fd ?r]"
    by (simp_all add: l' addOp_def updateOpenSegment_snoc [OF segs] os'_def)
  let ?F = "map (preparedFile env) (openSegments (preparedSegments l))"
  have has: "disk_has e (M @ closedFiles env xs) ((seg_filename os, fd, seg_bytes os, fileBytes env os @ zeros z) # ?F)"
    using p by (simp add: pending_def headFile_def)
  obtain e' where e': "runOp (WRITE fd ?r) e = Some e'"
    "disk_has e' (M @ closedFiles env xs) ((seg_filename os, fd, seg_bytes os + length ?r,
       overwrite (seg_bytes os) ?r (fileBytes env os @ zeros z)) # ?F)"
    using disk_has_write [OF has] .
  have "overwrite (seg_bytes os) ?r (fileBytes env os @ zeros z) = fileBytes env os' @ zeros (z - length ?r)"
    using overwrite_end [OF length_fileBytes [OF os, symmetric]] by (simp add: os'_def fileBytes_def records_def)
  then have has': "disk_has e' (M @ closedFiles env xs) (headFile env os' fd (z - length ?r) # ?F)"
    using e'(2) by (simp add: headFile_def os'_def)
  have run: "runOps (sync_ops (sl_currentSync l')) (sl_disk l') = Some e'"
    using p e'(1) by (simp add: l'' pending_def runOps_append)
  have "fd < d_next (sl_disk l)" using disk_has_fd(1) [OF has] p runOps_next by (auto simp: pending_def)
  then have "queued_ok (sync_ops (sl_currentSync l')) (sl_disk l') (filenameCounter (preparedSegments l')) fd"
    using p by (auto simp: pending_def queued_ok_def l'' dirty_after_append)
  then have "pending env M l' e' xs os' fd (z - length ?r)"
    using p has' run by (auto simp: pending_def l'' os'_def)
  then show ?thesis by (rule pendsI)
qed

section \<open>Rolling over\<close>

definition newSegment :: "nat \<Rightarrow> string \<Rightarrow> Segment" where
  "newSegment m name = \<lparr>seg_isOpen = True, seg_start = m, seg_end = m - 1, seg_bytes = headerSize,
     seg_filename = name, seg_entries = []\<rparr>"

lemma openNewSegment_take:
  assumes r: "ready env l n xs m" and t: "takePrepared env l = Some ((name, fd), l\<lparr>sl_disk := d, preparedSegments := p\<rparr>)"
  shows "openNewSegment env l = Some (l\<lparr>sl_disk := d, preparedSegments := p, openSegmentFile := Some fd,
    segmentsByStartIndex := xs @ [(m, newSegment m name)]\<rparr>)"
proof -
  have segs: "segmentsByStartIndex l = xs" "openSegmentFile l = None" using r by (simp_all add: ready_def)
  have open_: "\<not> seg_isOpen (snd (last xs))" if "xs \<noteq> []"
    using r that all_segs_last [of xs "closed_seg env"] by (simp add: ready_def closed_seg_def)
  have keys: "\<forall>x \<in> fst ` set xs. x < m"
    using r contig_keys [of n xs m env] closed_seg_ok [of xs env] closed_seg_ne [of xs env] by (auto simp: ready_def)
  then have "map_of xs m = None" by (auto simp: map_of_eq_None_iff)
  then have "om_insert m (newSegment m name) xs = xs @ [(m, newSegment m name)]"
    using om_set_append [OF keys] by (simp add: om_insert_def)
  then show ?thesis
    using open_ ready_last [OF r] t segs by (auto simp: openNewSegment_def Let_def newSegment_def)
qed

text \<open>A prepared file comes from the queue, or is made now.\<close>

lemma takePrepared_cases:
  assumes ok: "prepared_ok (sl_disk l) (preparedSegments l)" "disk_wf (sl_disk l)"
  obtains (queued) name fd ss p where "openSegments (preparedSegments l) = (name, fd) # ss"
      "takePrepared env l = Some ((name, fd), l\<lparr>sl_disk := sl_disk l, preparedSegments := p\<rparr>)"
      "openSegments p = ss" "filenameCounter p = filenameCounter (preparedSegments l)"
    | (made) name p where "openSegments (preparedSegments l) = []" "name = openFilename (filenameCounter (preparedSegments l) + 1)"
      "takePrepared env l = Some ((name, d_next (sl_disk l)), l\<lparr>sl_disk := preparedDisk env name (sl_disk l), preparedSegments := p\<rparr>)"
      "openSegments p = []" "filenameCounter p = filenameCounter (preparedSegments l) + 1"
proof (cases "openSegments (preparedSegments l)")
  case Nil
  have dem: "0 < ps_demanded (preparedSegments l)" and ex: "\<not> ps_exiting (preparedSegments l)"
    using ok(1) Nil by (simp_all add: prepared_ok_def)
  obtain p where it: "segmentPreparerMain_iter env l = Some (Ready (l\<lparr>sl_disk :=
        preparedDisk env (openFilename (filenameCounter (preparedSegments l) + 1)) (sl_disk l), preparedSegments := p\<rparr>))"
    and p: "p = (preparedSegments l)\<lparr>ps_demanded := ps_demanded (preparedSegments l) - 1,
      filenameCounter := filenameCounter (preparedSegments l) + 1,
      openSegments := openSegments (preparedSegments l) @
        [(openFilename (filenameCounter (preparedSegments l) + 1), d_next (sl_disk l))]\<rparr>"
    using preparer_step [OF ok dem, of env] .
  show thesis
    by (rule made [where p = "p\<lparr>openSegments := [], ps_demanded := ps_demanded p + 1\<rparr>"])
      (use Nil ex it p in \<open>simp_all add: takePrepared_def waitForOpenSegment_def\<close>)
next
  case (Cons s ss)
  have ex: "\<not> ps_exiting (preparedSegments l)" using ok(1) by (simp add: prepared_ok_def)
  show thesis
    by (rule queued [where name = "fst s" and fd = "snd s" and ss = ss and
          p = "(preparedSegments l)\<lparr>openSegments := ss, ps_demanded := ps_demanded (preparedSegments l) + 1\<rparr>"])
      (use Cons ex in \<open>simp_all add: takePrepared_def waitForOpenSegment_def\<close>)
qed

lemma headFile_new: "preparedFile env (name, fd) = headFile env (newSegment m name) fd (MAX_SEGMENT_SIZE env - 1)"
  by (simp add: preparedFile_def headFile_def newSegment_def headerSize_def fileBytes_def)

lemma clean_prepared: "clean_upto {} d \<Longrightarrow> clean_upto {} (preparedDisk env name d)"
  by (auto simp: clean_upto_def preparedDisk_def Let_def)

definition metaNames :: "string set" where
  "metaNames = {''metadata1'', ''metadata2''}"

lemma open_not_meta: "openFilename k \<notin> metaNames" and closed_not_meta: "closedFilename a b \<notin> metaNames"
  unfolding metaNames_def metadataFilenames [symmetric]
  by (simp_all only: insert_iff empty_iff metadata_not_open closed_not_metadata) simp_all

lemma pending_open:
  assumes r: "ready env l n xs m" and ops: "sync_ops (sl_currentSync l) = ops"
    and run: "runOps ops (sl_disk l) = Some e"
    and has: "disk_has e (M @ closedFiles env xs) (map (preparedFile env) (openSegments (preparedSegments l)))"
    and q: "disk_ok (sl_disk l)" "clean_upto {} (sl_disk l)" "dirty_after {} ops = Some {}"
      "\<forall>op \<in> set ops. \<forall>g \<ge> d_next (sl_disk l). \<forall>k > filenameCounter (preparedSegments l). op_avoids g (openFilename k) op"
    and num: "\<forall>f \<in> set (openSegments (preparedSegments l)). numbered (filenameCounter (preparedSegments l)) (fst f)"
    and M: "fst ` set M \<subseteq> metaNames"
  shows "\<exists>l'. openNewSegment env l = Some l' \<and> pends env M l'"
proof -
  have ok: "prepared_ok (sl_disk l) (preparedSegments l)" "disk_wf (sl_disk l)" using r by (simp_all add: ready_def)
  from ok show ?thesis
  proof (cases rule: takePrepared_cases [of l env])
    case (queued name fd ss p)
    have "pending env M (l\<lparr>sl_disk := sl_disk l, preparedSegments := p, openSegmentFile := Some fd,
        segmentsByStartIndex := xs @ [(m, newSegment m name)]\<rparr>) e xs (newSegment m name) fd (MAX_SEGMENT_SIZE env - 1)"
      using run has q num queued headFile_new [of env name fd m]
      by (auto simp: pending_def ops queued_ok_def) (auto simp: newSegment_def)
    then show ?thesis using openNewSegment_take [OF r queued(2)] pendsI by blast
  next
    case (made name p)
    let ?k = "filenameCounter (preparedSegments l) + 1" and ?d = "preparedDisk env name (sl_disk l)" and ?i = "d_next (sl_disk l)"
    have none: "map_of (d_names (sl_disk l)) name = None" using ok(1) made(2) by (simp add: prepared_ok_def)
    have fds: "\<forall>fd i pos. d_fds (sl_disk l) fd = Some (i, pos) \<longrightarrow> i < d_next (sl_disk l)" using q(1) by (simp add: disk_ok_def)
    have av: "\<forall>op \<in> set ops. op_avoids ?i name op" using q(4) made(2) by simp
    obtain e' where e': "runOps ops ?d = Some e'" "vol_eq e' (preparedDisk env name e)"
      using runOps_prepared [OF fds av run] by blast
    have next_e: "d_next e = ?i" by (rule runOps_next [OF run])
    have names: "name \<notin> fst ` set (M @ closedFiles env xs)"
    proof -
      have "name \<noteq> seg_filename s" if "(k, s) \<in> set xs" for k s
      proof -
        have "seg_filename s = makeClosedFilename s" using r that by (auto simp: ready_def closed_seg_def)
        then show ?thesis
          using made(2) closed_not_open [of "seg_start s" "seg_end s" "decimal ?k"] by (auto simp: makeClosedFilename_def openFilename_def)
      qed
      then show ?thesis using M open_not_meta [of ?k] made(2) by (auto simp: closedFiles_def) blast
    qed
    have "map_of (d_names e) name = None"
    proof (rule ccontr)
      assume "\<not> ?thesis"
      then have "rawSegment name = None \<or> name \<in> fst ` set (M @ closedFiles env xs)"
        using has made(1) by (simp add: disk_has_def)
      then show False using names rawSegment_open [of ?k] made(2) by simp
    qed
    from disk_has_prepared [OF has this, of env] made(1) next_e
    have "disk_has (preparedDisk env name e) (M @ closedFiles env xs) [preparedFile env (name, ?i)]" by simp
    moreover have dok: "disk_ok ?d" by (rule disk_ok_prepared [OF q(1) none])
    moreover have "vol_eq (preparedDisk env name e) e'" using e'(2) by (auto simp: vol_eq_def)
    ultimately have has': "disk_has e' (M @ closedFiles env xs) [headFile env (newSegment m name) ?i (MAX_SEGMENT_SIZE env - 1)]"
      using disk_has_vol runOps_disk_ok [OF dok e'(1)] headFile_new [of env name ?i m] by metis
    have "d_next ?d = ?i + 1" by (simp add: preparedDisk_def Let_def)
    then have "queued_ok ops ?d (filenameCounter p) ?i"
      using q dok clean_prepared made(5) by (auto simp: queued_ok_def)
    then have "pending env M (l\<lparr>sl_disk := ?d, preparedSegments := p, openSegmentFile := Some ?i,
        segmentsByStartIndex := xs @ [(m, newSegment m name)]\<rparr>) e' xs (newSegment m name) ?i (MAX_SEGMENT_SIZE env - 1)"
      using e'(1) has' made by (simp add: pending_def ops) (auto simp: newSegment_def numbered_def)
    then show ?thesis using openNewSegment_take [OF r made(3)] pendsI by blast
  qed
qed

lemma pending_roll:
  assumes env: "env_ok env" and p: "pending env M l e xs os fd z" and s: "sl_shape env l n xs os" and ne: "seg_entries os \<noteq> []"
    and wf: "disk_wf (sl_disk l)" "prepared_ok (sl_disk l) (preparedSegments l)" and M: "fst ` set M \<subseteq> metaNames"
  shows "\<exists>l'. rollOver env l = Some l' \<and> pends env M l'"
proof -
  let ?nm = "makeClosedFilename os" and ?F = "map (preparedFile env) (openSegments (preparedSegments l))"
  let ?xs = "xs @ [(seg_start os, closeMem os)]"
  have o: "getOpenSegment l = Some os" "seg_ok env os" using shape_open [OF s] by simp_all
  have f: "openSegmentFile l = Some fd" and segs: "segmentsByStartIndex l = xs @ [(seg_start os, os)]"
    using p by (simp_all add: pending_def)
  define ops where "ops = sync_ops (sl_currentSync l) @ closeOps fd (seg_bytes os) (seg_filename os) ?nm"
  define l1 where "l1 = l\<lparr>openSegmentFile := None, sl_currentSync := (sl_currentSync l)\<lparr>sync_ops := ops\<rparr>,
      segmentsByStartIndex := ?xs, totalClosedSegmentBytes := totalClosedSegmentBytes l + seg_bytes os\<rparr>"
  have r: "ready env l1 n ?xs (seg_end os + 1)" using ready_closed [OF s ne, of l1] wf by (simp add: l1_def)
  have roll: "rollOver env l = openNewSegment env l1"
    by (simp add: rollOver_def o f addOp_def updateOpenSegment_def segs l1_def closeMem_def ops_def closeOps_def Let_def)
  have has: "disk_has e (M @ closedFiles env xs) ((seg_filename os, fd, seg_bytes os, fileBytes env os @ zeros z) # ?F)"
    using p by (simp add: pending_def headFile_def)
  have num: "numbered (filenameCounter (preparedSegments l)) (seg_filename os)"
      "\<forall>f \<in> set (openSegments (preparedSegments l)). numbered (filenameCounter (preparedSegments l)) (fst f)"
    using p by (simp_all add: pending_def)
  have no: "?nm \<noteq> openFilename k" for k
    using closed_not_open by (metis makeClosedFilename_def openFilename_def)
  have fresh: "?nm \<notin> fst ` set (M @ closedFiles env xs)" "?nm \<notin> fst ` set ?F" "?nm \<noteq> seg_filename os"
  proof -
    have "seg_filename s' \<noteq> ?nm" if "(k, s') \<in> set xs" for k s'
    proof -
      have "closed_seg env s'" using s that by (auto simp: sl_shape_def)
      moreover have c: "contig n xs (seg_start os)" "all_segs (closed_seg env) xs" using s by (simp_all add: sl_shape_def)
      then have "k = seg_start s'" "k < seg_start os"
        using that contig_key [OF c(1) that] contig_keys [OF c(1) closed_seg_ok [OF c(2)] closed_seg_ne [OF c(2)], of k]
        by force+
      ultimately show ?thesis using closedFilename_inj by (fastforce simp: closed_seg_def makeClosedFilename_def)
    qed
    then show "?nm \<notin> fst ` set (M @ closedFiles env xs)"
      using M closed_not_meta [of "seg_start os" "seg_end os"] by (auto simp: closedFiles_def makeClosedFilename_def) blast
    show "?nm \<notin> fst ` set ?F" using num(2) no by (auto simp: preparedFile_def numbered_def)
    show "?nm \<noteq> seg_filename os" using num(1) no by (metis numbered_def)
  qed
  have len: "length (fileBytes env os) = seg_bytes os" by (rule length_fileBytes [OF o(2)])
  have slash: "\<not> prefix ''/'' (seg_filename os)" "\<not> prefix ''/'' ?nm"
    using num(1) by (auto simp: numbered_def makeClosedFilename_def)
  obtain e1 where e1: "runOps (closeOps fd (seg_bytes os) (seg_filename os) ?nm) e = Some e1"
    "disk_has e1 ((M @ closedFiles env xs) @ [(?nm, take (seg_bytes os) (fileBytes env os @ zeros z))]) ?F"
    using disk_has_close [OF has _ fresh slash, of "seg_bytes os"] len by auto
  have has1: "disk_has e1 (M @ closedFiles env ?xs) ?F"
    using e1(2) len by (simp add: closedFiles_def fileBytes_def)
  have run: "runOps ops (sl_disk l1) = Some e1" using p e1(1) by (simp add: ops_def l1_def pending_def runOps_append)
  have q: "queued_ok (sync_ops (sl_currentSync l)) (sl_disk l) (filenameCounter (preparedSegments l)) fd" using p by (simp add: pending_def)
  have fdn: "fd < d_next (sl_disk l)" "fd \<noteq> dirFd"
    using disk_has_fd [OF has] p runOps_next by (auto simp: pending_def)
  have "dirty_after {} ops = Some {}"
    using q fdn(2) by (auto simp: ops_def dirty_after_append queued_ok_def closeOps_def)
  moreover have "\<forall>op \<in> set ops. \<forall>g \<ge> d_next (sl_disk l1). \<forall>k > filenameCounter (preparedSegments l1). op_avoids g (openFilename k) op"
    using q fdn no num(1) wf(1) openFilename_inj
    by (fastforce simp: ops_def closeOps_def queued_ok_def l1_def numbered_def disk_wf_def)
  ultimately show ?thesis
    using pending_open [OF r _ run, where M = M] has1 q num(2) M roll by (auto simp: l1_def queued_ok_def)
qed

section \<open>Appending and syncing\<close>

lemma appendRecord_pending:
  assumes env: "env_ok env" and inv: "sl_inv env l" and p: "pends env M l" and M: "fst ` set M \<subseteq> metaNames"
  shows "\<exists>l'. appendRecord env x (recordOf env x) l = Some l' \<and> pends env M l'"
proof -
  obtain n ys hs where s': "sl_shape env l n ys hs" and wf: "disk_wf (sl_disk l)" "prepared_ok (sl_disk l) (preparedSegments l)"
    using sl_invE [OF inv] .
  obtain e xs os fd z where p: "pending env M l e xs os fd z" using p by (auto simp: pends_def)
  have "ys = xs \<and> hs = os" using s' p by (simp add: sl_shape_def pending_def)
  then have s: "sl_shape env l n xs os" using s' by simp
  note o = shape_open [OF s]
  have f: "openSegmentFile l = Some fd" using p by (simp add: pending_def)
  show ?thesis
  proof (cases "seg_bytes os > headerSize \<and> seg_bytes os + length (recordOf env x) > MAX_SEGMENT_SIZE env")
    case False
    then show ?thesis
      using pending_write [OF env p o(3) refl, of x] f o(1) by (auto simp: appendRecord_def)
  next
    case True
    then have ne: "seg_entries os \<noteq> []" using o(3) by (auto simp: seg_ok_def)
    obtain l1 os1 where r: "rollOver env l = Some l1" and s1: "sl_shape env l1 n (xs @ [(seg_start os, closeMem os)]) os1"
      using rollOver_ok [OF s ne f wf] .
    obtain e1 xs1 os1' fd1 z1 where p1: "pending env M l1 e1 xs1 os1' fd1 z1"
      using pending_roll [OF env p s ne wf M] r by (auto simp: pends_def)
    have "os1' = os1" using p1 s1 by (simp add: pending_def sl_shape_def)
    then have "seg_ok env os1'" "openSegmentFile l1 = Some fd1" using shape_open(3) [OF s1] p1 by (simp_all add: pending_def)
    then show ?thesis
      using True pending_write [OF env p1 _ refl, of x] o(1) r by (auto simp: appendRecord_def)
  qed
qed

lemma appendLoop_pending:
  assumes env: "env_ok env" and M: "fst ` set M \<subseteq> metaNames"
  shows "sl_inv env l \<Longrightarrow> pends env M l \<Longrightarrow> sl_appendLoop env (sl_getLastLogIndex l + 1) es l = Some l' \<Longrightarrow> pends env M l'"
proof (induction es arbitrary: l)
  case (Cons en es)
  let ?i = "sl_getLastLogIndex l + 1"
  obtain x where x: "setIndex ?i en = Some x" using Cons.prems(3) by (auto elim: bind_SomeE)
  have idx: "le_index x = Some ?i" using x by (auto simp: setIndex_def split: option.splits if_splits)
  obtain l1 where l1: "appendRecord env x (recordOf env x) l = Some l1" "sl_inv env l1" "sl_getLastLogIndex l1 = ?i"
    using appendRecord_ok [OF env Cons.prems(1) idx] .
  have "pends env M l1"
    using appendRecord_pending [OF env Cons.prems(1,2) M, of x] l1(1) by auto
  moreover have "sl_appendLoop env (sl_getLastLogIndex l1 + 1) es l1 = Some l'"
    using Cons.prems(3) x l1 serializeEntry_recordOf(1) [OF env, of x] by simp
  ultimately show ?case using Cons.IH [OF l1(2)] by blast
qed auto

text \<open>A log whose files are on disk and whose operations have all been run.\<close>

definition synced :: "StorageEnv \<Rightarrow> (string \<times> string) list \<Rightarrow> SegmentedLog \<Rightarrow> bool" where
  "synced env M l \<longleftrightarrow> sync_ops (sl_currentSync l) = [] \<and> fst ` set M \<subseteq> metaNames \<and>
     (\<exists>xs os fd z. pending env M l (sl_disk l) xs os fd z)"

lemma append_synced:
  assumes env: "env_ok env" and inv: "sl_inv env l" and sy: "synced env M l" and a: "sl_append env l es = Some (r, l1)"
  obtains d where "sync_wait (fst (sl_takeSync l1)) (sl_disk l1) = Some d" "synced env M ((snd (sl_takeSync l1))\<lparr>sl_disk := d\<rparr>)"
proof -
  have M: "fst ` set M \<subseteq> metaNames" using sy by (simp add: synced_def)
  obtain xs os fd z where p: "pending env M l (sl_disk l) xs os fd z" using sy by (auto simp: synced_def)
  have last: "getOpenSegment l = Some os" "sl_getLastLogIndex l = seg_end os"
    using p by (simp_all add: pending_def getOpenSegment_def sl_getLastLogIndex_def)
  obtain l2 fd2 where l2: "sl_appendLoop env (sl_getLastLogIndex l + 1) es l = Some l2" "openSegmentFile l2 = Some fd2"
    and l1: "l1 = (addOp (FDATASYNC fd2) l2)\<lparr>sl_currentSync := (sl_currentSync (addOp (FDATASYNC fd2) l2))\<lparr>sync_lastIndex := sl_getLastLogIndex (addOp (FDATASYNC fd2) l2)\<rparr>\<rparr>"
    using a last by (auto simp: sl_append_def Let_def elim!: bind_SomeE)
  obtain e2 xs2 os2 fd2' z2 where p2: "pending env M l2 e2 xs2 os2 fd2' z2"
    using appendLoop_pending [OF env M inv pendsI [OF p] l2(1)] by (auto simp: pends_def)
  have fd: "fd2' = fd2" using p2 l2(2) by (simp add: pending_def)
  let ?ops = "sync_ops (sl_currentSync l2) @ [FDATASYNC fd2]"
  have has2: "disk_has e2 (M @ closedFiles env xs2) (headFile env os2 fd2 z2 # map (preparedFile env) (openSegments (preparedSegments l2)))"
    using p2 fd by (simp add: pending_def)
  obtain i pos where i: "d_fds e2 fd2 = Some (i, pos)"
    using has2 by (auto simp: disk_has_def opened_at_def headFile_def)
  have dir: "fd2 \<noteq> dirFd" using disk_has_fd(2) has2 unfolding headFile_def by blast
  define d where "d = e2\<lparr>d_durable := (d_durable e2)(i := d_data e2 i)\<rparr>"
  have run: "runOps ?ops (sl_disk l2) = Some d"
    using p2 i dir by (simp add: pending_def runOps_append fs_fdatasync_def fs_fsync_def d_def)
  have q: "disk_ok (sl_disk l2)" "clean_upto {} (sl_disk l2)" "\<exists>D. D \<subseteq> {fd2} \<and> dirty_after {} (sync_ops (sl_currentSync l2)) = Some D"
    using p2 fd by (auto simp: pending_def queued_ok_def)
  then have "dirty_after {} ?ops = Some {}" by (auto simp: dirty_after_append)
  then have clean: "clean_upto {} d" using clean_after [OF q(2) _ _ run] q(1) by (simp add: disk_ok_def)
  have ok: "disk_ok d" by (rule runOps_disk_ok [OF q(1) run])
  have "vol_eq e2 d" by (simp add: vol_eq_def d_def)
  then have has: "disk_has d (M @ closedFiles env xs2) (headFile env os2 fd2 z2 # map (preparedFile env) (openSegments (preparedSegments l2)))"
    using disk_has_vol [OF has2 _ ok] by simp
  have "sync_wait (fst (sl_takeSync l1)) (sl_disk l1) = Some d"
    using run runOps_optimize q(1) by (simp add: sync_wait_def sl_takeSync_def l1 addOp_def disk_ok_def)
  moreover have "synced env M ((snd (sl_takeSync l1))\<lparr>sl_disk := d\<rparr>)"
    using p2 fd has ok clean M
    by (auto simp: synced_def pending_def queued_ok_def sl_takeSync_def l1 addOp_def
        intro!: exI [of _ xs2] exI [of _ os2] exI [of _ z2])
  ultimately show thesis using that by blast
qed

section \<open>Recovering after a crash\<close>

text \<open>A crash leaves what had been forced to stable storage, and no open files.\<close>

definition crash :: "Disk \<Rightarrow> Disk" where
  "crash d = d\<lparr>d_names := d_dnames d, d_data := d_durable d, d_fds := Map.empty\<rparr>"

text \<open>What the two metadata files say together.\<close>

definition readMeta :: "StorageEnv \<Rightarrow> string \<Rightarrow> SLMetadata option" where
  "readMeta env b = (case readProtoFromFile (se_algorithms env) (se_encoding env) (se_metadata env) b 0 of
     Some (Inr (m, n)) \<Rightarrow> Some m | _ \<Rightarrow> None)"

definition meta_says :: "StorageEnv \<Rightarrow> string \<Rightarrow> string \<Rightarrow> nat \<Rightarrow> Metadata \<Rightarrow> bool" where
  "meta_says env b1 b2 start raft \<longleftrightarrow>
     (\<forall>b \<in> {b1, b2}. case readProtoFromFile (se_algorithms env) (se_encoding env) (se_metadata env) b 0 of
        None \<Rightarrow> False | Some (Inl err) \<Rightarrow> True | Some (Inr (m, n)) \<Rightarrow> slm_format_version m \<le> 1) \<and>
     (case chooseMetadata (readMeta env b1) (readMeta env b2) of None \<Rightarrow> False
      | Some m \<Rightarrow> slm_entries_start m = start \<and> raftMetadataOf m = raft)"

lemma meta_says_holds:
  assumes m: "meta_says env b1 b2 start raft" and f: "file_is d (''metadata1'', b1)" "file_is d (''metadata2'', b2)"
  shows "holds_metadata env d start raft"
proof -
  obtain i j where i: "map_of (d_names d) ''metadata1'' = Some i" "d_data d i = b1"
    and j: "map_of (d_names d) ''metadata2'' = Some j" "d_data d j = b2"
    using f by (auto simp: file_is_def)
  have "metadata_safe env d ''metadata1''" "metadata_safe env d ''metadata2''"
    using m i j by (simp_all add: meta_says_def metadata_safe_def)
  moreover have "metadataIn env d ''metadata1'' = readMeta env b1" "metadataIn env d ''metadata2'' = readMeta env b2"
    using i j by (simp_all add: metadataIn_def readMeta_def)
  ultimately show ?thesis
    using m by (auto simp: holds_metadata_def chosenMetadata_def meta_says_def split: option.splits)
qed

text \<open>The entries of the log can be encoded, sizes and indexes are within 64 bits, and no segment lies before the start.\<close>

definition stored_ok :: "StorageEnv \<Rightarrow> SegmentedLog \<Rightarrow> bool" where
  "stored_ok env l \<longleftrightarrow> (\<forall>(k, s) \<in> set (segmentsByStartIndex l).
     (\<forall>x \<in> snd ` set (seg_entries s). entry_ok env x) \<and> seg_end s < 2 ^ 64 \<and> seg_bytes s + MAX_SEGMENT_SIZE env < 2 ^ 64 \<and>
     (seg_entries s = [] \<or> logStartIndex l \<le> seg_end s))"

lemma stale_prepared:
  assumes env: "env_ok env" and i: "map_of (d_names d) (openFilename k) = Some i" "d_data d i = segmentHeader @ zeros z"
    and len: "z + 1 < 2 ^ 64"
  shows "stale_open env d start (openFilename k)"
proof -
  have "unreadable env (segmentHeader @ zeros z) (length segmentHeader)"
    using len by (intro unreadable_zeros) (simp add: segmentHeader_def)
  then have "readOpenEntries env (segmentHeader @ records env [] @ zeros z) (length segmentHeader) = Some ([], length segmentHeader, zeros z \<noteq> [])"
    using len by (intro readOpen_at [OF env]) (simp_all add: segmentHeader_def)
  then have "readOpenEntries env (d_data d i) (if d_data d i = [] then 0 else 1) = Some ([], 1, zeros z \<noteq> [])"
    using i(2) by (simp add: segmentHeader_def)
  then show ?thesis using i unfolding stale_open_def by (auto simp: segmentHeader_def intro!: exI [of _ k])
qed

definition liveSegments :: "(nat, Segment) omap \<Rightarrow> Segment \<Rightarrow> Segment list" where
  "liveSegments xs os = map snd xs @ (if seg_entries os = [] then [] else [os])"

lemma live_keyed:
  assumes s: "sl_shape env l n xs os"
  shows "contig n (keyed (liveSegments xs os)) (seg_end os + 1)"
    and "seg_list (keyed (liveSegments xs os)) = seg_list xs @ map snd (seg_entries os)"
proof -
  have "map (\<lambda>s. (seg_start s, closedForm s)) (map snd xs) = xs"
  proof (rule nth_equalityI)
    fix i assume "i < length (map (\<lambda>s. (seg_start s, closedForm s)) (map snd xs))"
    then have i: "i < length xs" by simp
    obtain k s' where x: "xs ! i = (k, s')" by fastforce
    then have mem: "(k, s') \<in> set xs" using nth_mem [OF i] by simp
    then have "k = seg_start s'" "\<not> seg_isOpen s'" using s contig_key [of n xs] by (auto simp: sl_shape_def closed_seg_def)
    then show "map (\<lambda>s. (seg_start s, closedForm s)) (map snd xs) ! i = xs ! i" using i x by (simp add: closedForm_def)
  qed simp
  then have k: "keyed (liveSegments xs os) = xs @ (if seg_entries os = [] then [] else [(seg_start os, closedForm os)])"
    by (simp add: liveSegments_def)
  have o: "seg_ok env os" using shape_open(3) [OF s] .
  then show "contig n (keyed (liveSegments xs os)) (seg_end os + 1)"
    using s unfolding k by (auto simp: contig_append sl_shape_def closedForm_def seg_ok_def)
  show "seg_list (keyed (liveSegments xs os)) = seg_list xs @ map snd (seg_entries os)"
    unfolding k by (simp add: closedForm_def)
qed

lemma crash_clean: "clean_upto {} d \<Longrightarrow> crash d = d\<lparr>d_fds := Map.empty\<rparr>"
  by (cases d) (auto simp: crash_def clean_upto_def fun_eq_iff)

lemma crash_holds:
  assumes env: "env_ok env" and s: "sl_shape env l n xs os" and p: "pending env M l (sl_disk l) xs os fd z"
    and M: "fst ` set M \<subseteq> metaNames" and ok: "stored_ok env l"
  shows "disk_holds env (crash (sl_disk l)) (logStartIndex l) (liveSegments xs os)" "inj_on seg_filename (set (liveSegments xs os))"
proof -
  let ?d = "sl_disk l" and ?c = "crash (sl_disk l)" and ?q = "openSegments (preparedSegments l)"
  have segs: "segmentsByStartIndex l = xs @ [(seg_start os, os)]" using p by (simp add: pending_def)
  have c: "?c = ?d\<lparr>d_fds := Map.empty\<rparr>" using p by (intro crash_clean) (simp add: pending_def queued_ok_def)
  have has: "disk_has ?d (M @ closedFiles env xs) (headFile env os fd z # map (preparedFile env) ?q)" using p by (simp add: pending_def)
  have small: "(\<forall>x \<in> snd ` set (seg_entries s'). entry_ok env x) \<and> seg_end s' < 2 ^ 64 \<and> seg_bytes s' + MAX_SEGMENT_SIZE env < 2 ^ 64 \<and>
      (seg_entries s' = [] \<or> logStartIndex l \<le> seg_end s')" if "s' \<in> snd ` set xs \<or> s' = os" for s'
    using ok that unfolding stored_ok_def segs by fastforce
  have start: "seg_start s' < 2 ^ 64" if "seg_ok env s'" "seg_entries s' \<noteq> []" "seg_end s' < 2 ^ 64" for s'
    using that by (cases "seg_entries s'") (auto simp: seg_ok_def)
  have o: "seg_ok env os" using shape_open(3) [OF s] .
  have lim: "z \<le> MAX_SEGMENT_SIZE env" "MAX_SEGMENT_SIZE env < 2 ^ 64" "seg_bytes os + z < 2 ^ 64"
    using p small [of os] by (auto simp: pending_def)
  have hb: "1 \<le> seg_bytes s'" if "seg_ok env s'" for s'
    using that layout_le [of env headerSize "seg_entries s'"] by (simp add: seg_ok_def headerSize_def)
  have closed: "holds_segment env ?c s'" if s': "s' \<in> snd ` set xs" for s'
  proof -
    have cs: "closed_seg env s'" using s s' by (auto simp: sl_shape_def)
    have "file_is ?d (seg_filename s', fileBytes env s')" using has s' by (auto simp: disk_has_def closedFiles_def)
    then obtain i where "map_of (d_names ?c) (seg_filename s') = Some i" "d_data ?c i = fileBytes env s' @ []"
      by (auto simp: file_is_def c)
    moreover have "length (fileBytes env s' @ []) < 2 ^ 64"
      using length_fileBytes [of env s'] cs small [of s'] s' by (simp add: closed_seg_def)
    ultimately show ?thesis
      using cs small [of s'] s' start [of s'] unfolding holds_segment_def closed_seg_def by blast
  qed
  have head: "holds_segment env ?c os" if ne: "seg_entries os \<noteq> []"
  proof -
    have os: "open_seg env os" "\<exists>k. seg_filename os = openFilename k" using s p by (auto simp: sl_shape_def pending_def numbered_def)
    obtain i where "map_of (d_names ?c) (seg_filename os) = Some i" "d_data ?c i = fileBytes env os @ zeros z"
      using has by (auto simp: disk_has_def opened_at_def headFile_def c)
    moreover have l64: "length (fileBytes env os @ zeros z) < 2 ^ 64" using length_fileBytes [OF o] lim by simp
    moreover have "unreadable env (fileBytes env os @ zeros z) (seg_bytes os)"
      using unreadable_zeros [OF l64] length_fileBytes [OF o] by simp
    ultimately show ?thesis
      using os ne small [of os] start [OF o ne] unfolding holds_segment_def by blast
  qed
  have stale: "stale_open env ?c (logStartIndex l) name" if "name \<in> fst ` set ?q" for name
  proof -
    obtain g where g: "(name, g) \<in> set ?q" using \<open>name \<in> fst ` set ?q\<close> by auto
    then have "opened_at ?d (preparedFile env (name, g))" using has by (simp add: disk_has_def)
    moreover have "\<forall>f \<in> set ?q. numbered (filenameCounter (preparedSegments l)) (fst f)" using p by (simp add: pending_def)
    then have "\<exists>k. name = openFilename k" using g by (fastforce simp: numbered_def)
    ultimately show ?thesis
      using stale_prepared [OF env, of ?c _ _ "MAX_SEGMENT_SIZE env - 1"] lim by (auto simp: opened_at_def preparedFile_def c)
  qed
  have stale': "stale_open env ?c (logStartIndex l) (seg_filename os)" if e: "seg_entries os = []"
  proof -
    have "opened_at ?d (headFile env os fd z)" using has by (simp add: disk_has_def)
    moreover have "\<exists>k. seg_filename os = openFilename k" using p by (auto simp: pending_def numbered_def)
    ultimately show ?thesis
      using stale_prepared [OF env, of ?c _ _ z] lim hb [OF o] e by (auto simp: opened_at_def headFile_def fileBytes_def c)
  qed
  have meta: "rawSegment name = None" if "name \<in> metaNames" for name
    using that rawSegment_metadata [of 0] rawSegment_metadata [of 1] by (auto simp: metaNames_def metadataFilenames [symmetric])
  have "rawSegment name = None \<or> name \<in> seg_filename ` set (liveSegments xs os) \<or> stale_closed ?c (logStartIndex l) name \<or>
      stale_open env ?c (logStartIndex l) name" if "name \<in> fst ` set (d_names ?c)" for name
  proof -
    have "map_of (d_names ?d) name \<noteq> None" using that by (simp add: c map_of_eq_None_iff)
    then have "rawSegment name = None \<or> name \<in> fst ` set (M @ closedFiles env xs) \<or>
        name \<in> fst ` set (headFile env os fd z # map (preparedFile env) ?q)"
      using has unfolding disk_has_def by blast
    moreover have "fst \<circ> preparedFile env = fst" by (auto simp: preparedFile_def)
    then have "fst ` set (map (preparedFile env) ?q) = fst ` set ?q" by (simp add: image_comp)
    ultimately consider "rawSegment name = None" | "name \<in> fst ` set M" | "name \<in> fst ` set (closedFiles env xs)" | "name = seg_filename os" |
      "name \<in> fst ` set ?q"
      by (auto simp: headFile_def image_Un)
    then show ?thesis
    proof cases
      case 3
      then have "name \<in> seg_filename ` snd ` set xs" by (auto simp: closedFiles_def intro: rev_image_eqI)
      then show ?thesis by (simp add: liveSegments_def)
    qed (use stale stale' meta M in \<open>auto simp: liveSegments_def\<close>)
  qed
  moreover have "holds_segment env ?c s' \<and> logStartIndex l \<le> seg_end s'" if "s' \<in> set (liveSegments xs os)" for s'
  proof (cases "s' \<in> snd ` set xs")
    case True
    then have "seg_entries s' \<noteq> []" using s by (auto simp: sl_shape_def closed_seg_def)
    then show ?thesis using closed [OF True] small [of s'] True by blast
  next
    case False
    then have "s' = os" "seg_entries os \<noteq> []" using that by (auto simp: liveSegments_def split: if_splits)
    then show ?thesis using head small [of os] by blast
  qed
  moreover have "disk_ok ?d" using has by (simp add: disk_has_def)
  ultimately show "disk_holds env ?c (logStartIndex l) (liveSegments xs os)"
    unfolding disk_holds_def by (simp add: c disk_ok_def disk_wf_def names_ok_def)
  have names: "map fst (closedFiles env xs) = map seg_filename (map snd xs)" by (auto simp: closedFiles_def)
  have "distinct (map fst (M @ closedFiles env xs) @ map fst (headFile env os fd z # map (preparedFile env) ?q))"
    using has unfolding disk_has_def by blast
  then have "distinct (map fst (closedFiles env xs) @ [seg_filename os])" by (simp add: headFile_def)
  then have "distinct (map seg_filename (map snd xs @ [os]))" unfolding names by simp
  then have "inj_on seg_filename (set (map snd xs @ [os]))" unfolding distinct_map by blast
  then show "inj_on seg_filename (set (liveSegments xs os))"
    by (rule inj_on_subset) (simp add: liveSegments_def subset_insertI)
qed

lemma synced_recovers:
  assumes env: "env_ok env" and inv: "sl_inv env l" and sy: "synced env (metaFiles b1 b2) l"
    and m: "meta_says env b1 b2 (logStartIndex l) raft" and ok: "stored_ok env l"
  obtains l' where "mkSegmentedLog env (crash (sl_disk l)) = Some l'" "sl_inv env l'" "sl_stored l' = sl_stored l" "sl_raft_metadata l' = raft"
proof -
  obtain xs os fd z where p: "pending env (metaFiles b1 b2) l (sl_disk l) xs os fd z" and M: "fst ` set (metaFiles b1 b2) \<subseteq> metaNames"
    using sy by (auto simp: synced_def)
  obtain n ys hs where s': "sl_shape env l n ys hs" using sl_invE [OF inv] .
  have "ys = xs \<and> hs = os" using s' p by (simp add: sl_shape_def pending_def)
  then have s: "sl_shape env l n xs os" using s' by simp
  note h = crash_holds [OF env s p M ok]
  have c: "crash (sl_disk l) = (sl_disk l)\<lparr>d_fds := Map.empty\<rparr>"
    using p by (intro crash_clean) (simp add: pending_def queued_ok_def)
  have "file_is (crash (sl_disk l)) (''metadata1'', b1)" "file_is (crash (sl_disk l)) (''metadata2'', b2)"
    using p by (auto simp: pending_def disk_has_def metaFiles_def file_is_def c)
  then have hm: "holds_metadata env (crash (sl_disk l)) (logStartIndex l) raft" by (rule meta_says_holds [OF m])
  have st: "if liveSegments xs os = [] then n = logStartIndex l \<and> seg_end os + 1 = logStartIndex l else n \<le> logStartIndex l"
  proof -
    have "n \<le> logStartIndex l" "logStartIndex l \<le> seg_end os + 1" using shape_stored(3,4) [OF s] by simp_all
    moreover have "seg_end os + 1 = n" if "liveSegments xs os = []"
      using live_keyed(1) [OF s] that by simp
    ultimately show ?thesis by auto
  qed
  have n: "0 < n" using shape_head(2) [OF s] .
  obtain l' where "mkSegmentedLog env (crash (sl_disk l)) = Some l'" "sl_inv env l'" "sl_raft_metadata l' = raft"
    "sl_stored l' = (logStartIndex l, drop (logStartIndex l - n) (seg_list (keyed (liveSegments xs os))))"
    using mkSegmentedLog_recovers [OF env h(1) hm live_keyed(1) [OF s] n h(2) st] .
  then show thesis using that shape_stored(1) [OF s] live_keyed(2) [OF s] by simp
qed

section \<open>Staying in sync\<close>

text \<open>Names with a number that has not been used yet are free.\<close>

lemma pending_free:
  assumes p: "pending env M l e xs os fd z" and s: "sl_shape env l n xs os" and M: "fst ` set M \<subseteq> metaNames"
    and k: "filenameCounter (preparedSegments l) < k"
  shows "map_of (d_names e) (openFilename k) = None"
proof (rule ccontr)
  assume "\<not> ?thesis"
  moreover have "disk_has e (M @ closedFiles env xs) (headFile env os fd z # map (preparedFile env) (openSegments (preparedSegments l)))"
    using p by (simp add: pending_def)
  ultimately have "openFilename k \<in> fst ` set (M @ closedFiles env xs) \<or>
      openFilename k \<in> fst ` set (headFile env os fd z # map (preparedFile env) (openSegments (preparedSegments l)))"
    using rawSegment_open [of k] unfolding disk_has_def by (metis option.distinct(1))
  moreover have "openFilename k \<noteq> seg_filename s'" if "(j, s') \<in> set xs" for j s'
  proof -
    have "seg_filename s' = makeClosedFilename s'" using s that by (auto simp: sl_shape_def closed_seg_def)
    then show ?thesis using closed_not_open [of "seg_start s'" "seg_end s'" "decimal k"] by (auto simp: makeClosedFilename_def openFilename_def)
  qed
  then have "openFilename k \<notin> fst ` set (closedFiles env xs)" by (auto simp: closedFiles_def) blast
  moreover have "openFilename k \<notin> fst ` set M" using M open_not_meta by blast
  moreover have num: "name \<noteq> openFilename k" if "numbered (filenameCounter (preparedSegments l)) name" for name
    using that k openFilename_inj by (auto simp: numbered_def)
  have "openFilename k \<noteq> seg_filename os" using p num [of "seg_filename os"] by (auto simp: pending_def)
  moreover have "openFilename k \<noteq> fst (preparedFile env f)" if "f \<in> set (openSegments (preparedSegments l))" for f
    using p that num [of "fst f"] by (cases f) (auto simp: pending_def preparedFile_def)
  then have "openFilename k \<notin> fst ` set (map (preparedFile env) (openSegments (preparedSegments l)))" by (simp add: image_iff)
  ultimately show False by (simp add: headFile_def image_Un)
qed

lemma pending_inv:
  assumes inv: "sl_inv env l0" and l: "l = l0\<lparr>sl_currentSync := c, sl_disk := e\<rparr>"
    and p: "pending env M l e xs os fd z" and M: "fst ` set M \<subseteq> metaNames"
  shows "sl_inv env l"
proof -
  obtain n ys hs where s': "sl_shape env l0 n ys hs" and q: "prepared_ok (sl_disk l0) (preparedSegments l)"
    using inv by (auto simp: sl_inv_def l)
  have "ys = xs \<and> hs = os" using s' p by (simp add: sl_shape_def pending_def l)
  then have s: "sl_shape env l n xs os" using s' by (simp add: sl_shape_def l)
  let ?q = "openSegments (preparedSegments l)"
  have has: "disk_has e (M @ closedFiles env xs) (headFile env os fd z # map (preparedFile env) ?q)" and f: "openSegmentFile l = Some fd"
    using p by (simp_all add: pending_def)
  have ok: "disk_ok e" using has by (simp add: disk_has_def)
  have opened: "map_of (d_names e) nm \<noteq> None \<and> g \<in> dom (d_fds e) \<and> g \<noteq> dirFd" if "opened_at e (nm, g, pos, b)" for nm g pos b
    using that ok by (auto simp: opened_at_def disk_ok_def)
  have head: "opened_at e (headFile env os fd z)" and queue: "\<forall>x \<in> set ?q. opened_at e (preparedFile env x)"
    using has by (simp_all add: disk_has_def)
  have fsts: "map fst (map (preparedFile env) ?q) = map fst ?q" "map (fst \<circ> snd) (map (preparedFile env) ?q) = map snd ?q"
    by (auto simp: preparedFile_def)
  have d: "distinct (seg_filename os # map fst ?q)" "distinct (fd # map snd ?q)"
  proof -
    have "distinct (map fst (M @ closedFiles env xs) @ map fst (headFile env os fd z # map (preparedFile env) ?q))"
        "distinct (map (fst \<circ> snd) (headFile env os fd z # map (preparedFile env) ?q))"
      using has unfolding disk_has_def by blast+
    then show "distinct (seg_filename os # map fst ?q)" "distinct (fd # map snd ?q)"
      unfolding distinct_append list.map(2) fsts by (simp_all add: headFile_def)
  qed
  have "prefix ''open-'' (fst x) \<and> map_of (d_names e) (fst x) \<noteq> None \<and> snd x \<in> dom (d_fds e) \<and> snd x \<noteq> dirFd"
    if "x \<in> set ?q" for x
  proof -
    have "opened_at e (preparedFile env x)" using queue that by blast
    then show ?thesis using q that opened by (cases x) (auto simp: preparedFile_def prepared_ok_def)
  qed
  then have "prepared_ok e (preparedSegments l)"
    using q d pending_free [OF p s M] unfolding prepared_ok_def by (simp add: case_prod_beta)
  moreover have "has_head l os"
    using opened [of "seg_filename os" fd] head d f by (auto simp: has_head_def has_file_def off_queue_def headFile_def l)
  ultimately show ?thesis using ok s unfolding sl_inv_def by (auto simp: disk_ok_def l)
qed

text \<open>A log in memory, and on a disk from which a crash takes nothing away.\<close>

definition in_sync :: "StorageEnv \<Rightarrow> SegmentedLog \<Rightarrow> bool" where
  "in_sync env l \<longleftrightarrow> sl_inv env l \<and>
     (\<exists>b1 b2. synced env (metaFiles b1 b2) l \<and> meta_says env b1 b2 (logStartIndex l) (sl_raft_metadata l))"

definition after_sync :: "SegmentedLog \<Rightarrow> SegmentedLog option" where
  "after_sync l = (let (sync, l') = sl_takeSync l in onDisk (sync_wait sync) l')"

lemma appendLoop_meta: "sl_appendLoop env i es l = Some l' \<Longrightarrow> sl_raft_metadata l' = sl_raft_metadata l"
proof (induction es arbitrary: i l)
  case (Cons x es)
  then obtain y b l1 where "appendRecord env y b l = Some l1" and l1: "sl_appendLoop env (i + 1) es l1 = Some l'"
    by (auto elim!: bind_SomeE)
  then have "sl_raft_metadata l1 = sl_raft_metadata l"
    by (auto simp: appendRecord_def rollOver_def openNewSegment_def takePrepared_def segmentPreparerMain_iter_def addOp_def
        updateOpenSegment_def Let_def elim!: bind_SomeE split: if_splits Waiting.splits prod.splits)
  then show ?case using Cons.IH [OF l1] by simp
qed simp

lemma append_in_sync:
  assumes env: "env_ok env" and sy: "in_sync env l" and es: "indexes_ok (sl_getLastLogIndex l + 1) es"
  obtains r l1 l2 where "sl_append env l es = Some (r, l1)" "after_sync l1 = Some l2" "in_sync env l2"
    "sl_stored l2 = (fst (sl_stored l), snd (sl_stored l) @ stamped (sl_getLastLogIndex l + 1) es)"
    "sl_raft_metadata l2 = sl_raft_metadata l"
proof -
  obtain b1 b2 where b: "synced env (metaFiles b1 b2) l" "meta_says env b1 b2 (logStartIndex l) (sl_raft_metadata l)"
    and inv: "sl_inv env l" using sy by (auto simp: in_sync_def)
  let ?r = "(sl_getLastLogIndex l + 1, sl_getLastLogIndex l + length es)"
  obtain l1 where l1: "sl_append env l es = Some (?r, l1)" "sl_inv env l1"
    "sl_stored l1 = (fst (sl_stored l), snd (sl_stored l) @ stamped (sl_getLastLogIndex l + 1) es)"
    using sl_append_ok [OF env inv es] .
  define s where "s = snd (sl_takeSync l1)"
  obtain d where d: "sync_wait (fst (sl_takeSync l1)) (sl_disk l1) = Some d" "synced env (metaFiles b1 b2) (s\<lparr>sl_disk := d\<rparr>)"
    using append_synced [OF env inv b(1) l1(1)] unfolding s_def .
  have s: "s\<lparr>sl_disk := d\<rparr> = l1\<lparr>sl_currentSync := sl_currentSync s, sl_disk := d\<rparr>" by (simp add: s_def sl_takeSync_def)
  obtain xs os fd z where p: "pending env (metaFiles b1 b2) (s\<lparr>sl_disk := d\<rparr>) d xs os fd z" and M: "fst ` set (metaFiles b1 b2) \<subseteq> metaNames"
    using d(2) by (auto simp: synced_def)
  have inv2: "sl_inv env (s\<lparr>sl_disk := d\<rparr>)" by (rule pending_inv [OF l1(2) s p M])
  have meta: "sl_raft_metadata l1 = sl_raft_metadata l"
    using l1(1) appendLoop_meta by (auto simp: sl_append_def addOp_def Let_def elim!: bind_SomeE)
  have "logStartIndex l1 = logStartIndex l" using l1(3) by (simp add: sl_stored_def)
  then have "in_sync env (s\<lparr>sl_disk := d\<rparr>)"
    using inv2 d(2) b(2) meta unfolding in_sync_def by (auto simp: s_def sl_takeSync_def)
  moreover have "after_sync l1 = Some (s\<lparr>sl_disk := d\<rparr>)"
    using d(1) by (simp add: after_sync_def s_def onDisk_def case_prod_beta sl_takeSync_def)
  moreover have "sl_stored (s\<lparr>sl_disk := d\<rparr>) = sl_stored l1" by (simp add: sl_stored_def s_def sl_takeSync_def)
  ultimately show thesis using that [OF l1(1)] l1(3) meta by (simp add: s_def sl_takeSync_def)
qed

lemma in_sync_recovers:
  assumes env: "env_ok env" and sy: "in_sync env l" and ok: "stored_ok env l"
  obtains l' where "mkSegmentedLog env (crash (sl_disk l)) = Some l'" "sl_inv env l'" "sl_stored l' = sl_stored l"
    "sl_raft_metadata l' = sl_raft_metadata l"
  using sy synced_recovers [OF env _ _ _ ok] unfolding in_sync_def by metis

section \<open>The first start\<close>

definition firstMetadata :: "nat \<Rightarrow> SLMetadata" where
  "firstMetadata v = \<lparr>slm_format_version = 1, slm_version = v, slm_raft_metadata = None, slm_entries_start = 1\<rparr>"

text \<open>The metadata messages that a new log writes can be encoded.\<close>

definition metadata_ok_env :: "StorageEnv \<Rightarrow> bool" where
  "metadata_ok_env env \<longleftrightarrow> (\<forall>v \<in> {1, 2}.
     record_ok (se_algorithms env) (se_checksumAlgorithm env) (se_encoding env) (se_metadata env) (firstMetadata v))"

lemma readMeta_written:
  assumes ok: "record_ok (se_algorithms env) (se_checksumAlgorithm env) (se_encoding env) (se_metadata env) m"
    and r: "serializeMetadata env m = Some r"
  shows "\<exists>n. readProtoFromFile (se_algorithms env) (se_encoding env) (se_metadata env) r 0 = Some (Inr (m, n))"
proof -
  let ?e = "encode (se_encoding env) (se_metadata env) m"
  obtain cs where cs: "serializeProto (se_algorithms env) (se_checksumAlgorithm env) (se_encoding env) (se_metadata env) m =
      Some (cs @ CHR 0x00 # htobe64 (length ?e) @ ?e)" "length cs < MAX_LENGTH"
    using serializeProto_form [OF ok] by metis
  have "length ?e < 2 ^ 31" using ok by (simp add: record_ok_def Let_def)
  moreover have "r = cs @ CHR 0x00 # htobe64 (length ?e) @ ?e" using cs(1) r by (simp add: serializeMetadata_def)
  ultimately have "length ([] @ r @ []) < 2 ^ 64" using cs(2) by (simp add: MAX_LENGTH_def)
  then show ?thesis using readProto_at [OF ok, of r "[]" "[]"] r by (simp add: serializeMetadata_def)
qed

text \<open>The disk with the two metadata files, and the log that the constructor works on.\<close>

definition firstDisk :: "string \<Rightarrow> string \<Rightarrow> Disk" where
  "firstDisk r1 r2 = (let d = metadataDisk ''metadata2'' r2 (metadataDisk ''metadata1'' r1 emptyDisk) in d\<lparr>d_dnames := d_names d\<rparr>)"

definition emptyMetadata :: SLMetadata where
  "emptyMetadata = \<lparr>slm_format_version = 0, slm_version = 0, slm_raft_metadata = None, slm_entries_start = 1\<rparr>"

definition firstLog :: "StorageEnv \<Rightarrow> SLMetadata \<Rightarrow> Disk \<Rightarrow> SegmentedLog" where
  "firstLog env m d = \<lparr>sl_metadata = m, sl_raft_metadata = \<lparr>md_current_term = None, md_voted_for = None\<rparr>, sl_disk = d,
     openSegmentFile = None, logStartIndex = 1, segmentsByStartIndex = [], totalClosedSegmentBytes = 0,
     preparedSegments = mkPreparedSegments (max (storageOpenSegments env) 1), sl_currentSync = \<lparr>sync_lastIndex = 0, sync_ops = []\<rparr>\<rparr>"

lemma firstLog_update:
  assumes r: "serializeMetadata env (firstMetadata (v + 1)) = Some r" and wf: "disk_wf d" and v: "slm_version m = v"
  shows "sl_updateMetadata env (firstLog env m d) =
    Some (firstLog env (firstMetadata (v + 1)) (metadataDisk (metadataFilename (v + 1)) r d))"
proof -
  have n: "nextMetadata (firstLog env m d) = firstMetadata (v + 1)" and d: "sl_disk (firstLog env m d) = d"
    using v by (simp_all add: nextMetadata_def firstLog_def firstMetadata_def)
  have s: "slm_version (firstMetadata (v + 1)) = v + 1" by (simp add: firstMetadata_def)
  show ?thesis
    using updateMetadata_eq [of env "firstLog env m d" r, unfolded n d s, OF r wf] by (simp add: firstLog_def)
qed

lemma firstDisk_has: "disk_has (firstDisk r1 r2) (metaFiles r1 r2) []" and firstDisk_clean: "clean_upto {} (firstDisk r1 r2)"
proof -
  let ?d = "firstDisk r1 r2"
  have d: "d_names ?d = om_set ''metadata2'' 2 (om_set ''metadata1'' 1 [])" "d_next ?d = 3" "d_fds ?d = Map.empty"
    "d_data ?d = (\<lambda>_. [])(1 := r1, 2 := r2)" "d_durable ?d = d_data ?d" "d_dnames ?d = d_names ?d"
    by (auto simp: firstDisk_def Let_def metadataDisk_def emptyDisk_def map_of_om_set fun_eq_iff numeral_2_eq_2)
  have nm: "map_of (d_names ?d) f = (if f = ''metadata2'' then Some 2 else if f = ''metadata1'' then Some 1 else None)" for f
    by (simp add: d map_of_om_set)
  have "disk_ok ?d"
    unfolding disk_ok_def names_ok_def disk_wf_def nm by (auto simp: d dirFd_def intro: om_wf_set split: if_splits)
  moreover have "\<forall>f \<in> set (metaFiles r1 r2). file_is ?d f" by (simp add: metaFiles_def file_is_def nm) (simp add: d)
  moreover have "distinct (map fst (metaFiles r1 r2))" by (simp add: metaFiles_def)
  moreover have "name \<in> fst ` set (metaFiles r1 r2)" if "map_of (d_names ?d) name \<noteq> None" for name
    using that by (auto simp: nm metaFiles_def split: if_splits)
  ultimately show "disk_has ?d (metaFiles r1 r2) []" by (simp add: disk_has_def)
  show "clean_upto {} ?d" by (simp add: clean_upto_def d)
qed

lemma metaFiles_names: "fst ` set (metaFiles r1 r2) \<subseteq> metaNames"
  by (auto simp: metaFiles_def metaNames_def)

lemma firstDisk_free: "map_of (d_names (firstDisk r1 r2)) (openFilename k) = None"
proof (rule ccontr)
  assume "\<not> ?thesis"
  then have "openFilename k \<in> fst ` set (metaFiles r1 r2)"
    using firstDisk_has [of r1 r2] rawSegment_open [of k] by (auto simp: disk_has_def)
  then show False using metaFiles_names open_not_meta by blast
qed

text \<open>The constructor on an empty disk, up to the first segment.\<close>

lemma mkSegmentedLog_first:
  assumes r: "serializeMetadata env (firstMetadata 1) = Some r1" "serializeMetadata env (firstMetadata 2) = Some r2"
    and it: "segmentPreparerMain_iter env (firstLog env (firstMetadata 2) (firstDisk r1 r2)) = Some (Ready l)"
  shows "mkSegmentedLog env emptyDisk = do { l \<leftarrow> openNewSegment env l; assertInvariants env l; Some l }"
proof -
  let ?d1 = "metadataDisk ''metadata1'' r1 emptyDisk"
  have wf0: "disk_wf emptyDisk" by (simp add: disk_wf_def emptyDisk_def dirFd_def)
  have u1: "sl_updateMetadata env (firstLog env emptyMetadata emptyDisk) = Some (firstLog env (firstMetadata 1) ?d1)"
    using firstLog_update [of env 0 r1] r(1) wf0 by (simp add: emptyMetadata_def metadataFilename_def)
  have u2: "sl_updateMetadata env (firstLog env (firstMetadata 1) ?d1) = Some (firstLog env (firstMetadata 2) (metadataDisk ''metadata2'' r2 ?d1))"
    using firstLog_update [of env 1 r2] r(2) metadataDisk_wf [OF wf0]
    by (simp add: firstMetadata_def metadataFilename_def numeral_2_eq_2)
  have u3: "onDisk (fs_fsync dirFd) (firstLog env (firstMetadata 2) (metadataDisk ''metadata2'' r2 ?d1)) =
      Some (firstLog env (firstMetadata 2) (firstDisk r1 r2))"
    by (simp add: onDisk_def fs_fsync_def firstLog_def firstDisk_def Let_def)
  have rm: "readMetadata env f emptyDisk = Some (None, emptyDisk)" if "\<not> prefix ''/'' f" for f
    using that by (simp add: readMetadata_def fs_tryOpenFile_def fs_openat_def emptyDisk_def)
  have ls: "sort (fs_ls emptyDisk) = []" by (simp add: fs_ls_def emptyDisk_def)
  have m: "\<not> prefix ''/'' ''metadata1''" "\<not> prefix ''/'' ''metadata2''" by simp_all
  have c: "(case slm_raft_metadata emptyMetadata of None \<Rightarrow> \<lparr>md_current_term = None, md_voted_for = None\<rparr> | Some r \<Rightarrow> r) =
      \<lparr>md_current_term = None, md_voted_for = None\<rparr>" "slm_entries_start emptyMetadata = 1" by (simp_all add: emptyMetadata_def)
  have s: "segmentsByStartIndex (firstLog env x y) = []" for x y by (simp add: firstLog_def)
  show ?thesis
    by (simp only: mkSegmentedLog_def ls readSegmentFilenames.simps rm [OF m(1)] rm [OF m(2)] Let_def prod.case bind.bind_lunit
        chooseMetadata_def option.case require_def simp_thms if_True emptyMetadata_def [symmetric] c firstLog_def [symmetric] u1 u2 u3
        loadSegments.simps s list.case it Waiting.case)
qed

lemma first_says:
  assumes m: "metadata_ok_env env" and r: "serializeMetadata env (firstMetadata 1) = Some r1" "serializeMetadata env (firstMetadata 2) = Some r2"
  shows "meta_says env r1 r2 1 \<lparr>md_current_term = None, md_voted_for = None\<rparr>"
proof -
  obtain n1 n2 where "readProtoFromFile (se_algorithms env) (se_encoding env) (se_metadata env) r1 0 = Some (Inr (firstMetadata 1, n1))"
      "readProtoFromFile (se_algorithms env) (se_encoding env) (se_metadata env) r2 0 = Some (Inr (firstMetadata 2, n2))"
    using readMeta_written [of env] r m by (fastforce simp: metadata_ok_env_def)
  then show ?thesis by (simp add: meta_says_def readMeta_def chooseMetadata_def firstMetadata_def raftMetadataOf_def)
qed

lemma new_in_sync:
  assumes env: "env_ok env" and m: "metadata_ok_env env" and l: "mkSegmentedLog env emptyDisk = Some l"
  shows "in_sync env l"
proof -
  obtain r1 r2 where r: "serializeMetadata env (firstMetadata 1) = Some r1" "serializeMetadata env (firstMetadata 2) = Some r2"
    using serializeMetadata_Some [OF env] by metis
  define d where "d = firstDisk r1 r2"
  define l3 where "l3 = firstLog env (firstMetadata 2) d"
  have has: "disk_has d (metaFiles r1 r2 @ closedFiles env []) []" and ok: "disk_ok d"
    using firstDisk_has [of r1 r2] by (simp_all add: d_def closedFiles_def disk_has_def)
  have p3: "filenameCounter (preparedSegments l3) = 0" "openSegments (preparedSegments l3) = []" "sl_disk l3 = d"
      "0 < ps_demanded (preparedSegments l3)" "\<not> ps_exiting (preparedSegments l3)"
    by (simp_all add: l3_def firstLog_def mkPreparedSegments_def)
  have none: "map_of (d_names d) (openFilename k) = None" for k unfolding d_def by (rule firstDisk_free)
  have pok: "prepared_ok (sl_disk l3) (preparedSegments l3)" "disk_wf (sl_disk l3)"
    using none ok p3 by (simp_all add: prepared_ok_def disk_ok_def)
  obtain q where p: "segmentPreparerMain_iter env l3 = Some (Ready (l3\<lparr>sl_disk :=
        preparedDisk env (openFilename (filenameCounter (preparedSegments l3) + 1)) (sl_disk l3), preparedSegments := q\<rparr>))"
    "q = (preparedSegments l3)\<lparr>ps_demanded := ps_demanded (preparedSegments l3) - 1,
      filenameCounter := filenameCounter (preparedSegments l3) + 1,
      openSegments := openSegments (preparedSegments l3) @
        [(openFilename (filenameCounter (preparedSegments l3) + 1), d_next (sl_disk l3))]\<rparr>"
    "prepared_ok (preparedDisk env (openFilename (filenameCounter (preparedSegments l3) + 1)) (sl_disk l3)) q"
    using preparer_step [OF pok p3(4), of env] .
  have it: "segmentPreparerMain_iter env l3 = Some (Ready (l3\<lparr>sl_disk := preparedDisk env (openFilename 1) d, preparedSegments := q\<rparr>))"
    and qok: "prepared_ok (preparedDisk env (openFilename 1) d) q"
    using p(1,3) by (simp_all only: p3 add_0)
  have q: "openSegments q = [(openFilename 1, d_next d)]" "filenameCounter q = 1"
    by (simp_all add: p(2) p3)
  define l4 where "l4 = l3\<lparr>sl_disk := preparedDisk env (openFilename 1) d, preparedSegments := q\<rparr>"
  have r4: "ready env l4 1 [] 1"
    using qok preparedDisk_wf [OF pok(2)] p3 by (simp add: ready_def l4_def l3_def firstLog_def)
  have "disk_has (preparedDisk env (openFilename 1) d) (metaFiles r1 r2 @ closedFiles env []) (map (preparedFile env) (openSegments (preparedSegments l4)))"
    using disk_has_prepared [OF has none, of env] q by (simp add: l4_def)
  then have "\<exists>l'. openNewSegment env l4 = Some l' \<and> pends env (metaFiles r1 r2) l'"
    using disk_ok_prepared [OF ok none] clean_prepared firstDisk_clean [of r1 r2] q metaFiles_names
    by (intro pending_open [OF r4, where ops = "[]" and e = "preparedDisk env (openFilename 1) d"])
      (auto simp: l4_def l3_def firstLog_def numbered_def d_def)
  then obtain l' where l': "openNewSegment env l4 = Some l'" "pends env (metaFiles r1 r2) l'" by blast
  have "assertInvariants env l' \<bind> (\<lambda>_. Some l') = Some l"
    using mkSegmentedLog_first [OF r it [unfolded l3_def d_def]] l l'(1) by (simp add: l4_def l3_def d_def)
  then have eq: "l' = l" by (cases "assertInvariants env l'") simp_all
  note sh = openNewSegment_shape [OF r4 l'(1)]
  have f: "sync_ops (sl_currentSync l) = []" "logStartIndex l = 1" "sl_raft_metadata l = \<lparr>md_current_term = None, md_voted_for = None\<rparr>"
    using sh(4,6,7) by (simp_all add: eq l4_def l3_def firstLog_def)
  obtain e xs os fd z where pe: "pending env (metaFiles r1 r2) l e xs os fd z" using l'(2) by (auto simp: pends_def eq)
  moreover have "e = sl_disk l" using pe f(1) by (simp add: pending_def)
  ultimately have "synced env (metaFiles r1 r2) l" using f(1) metaFiles_names unfolding synced_def by blast
  then show ?thesis using sh(2) f eq first_says [OF m r] unfolding in_sync_def by auto
qed

section \<open>Histories of appends\<close>

text \<open>Entries are appended in batches; after each one the caller waits for the disk.\<close>

fun append_all :: "StorageEnv \<Rightarrow> SegmentedLog \<Rightarrow> LogEntry list list \<Rightarrow> SegmentedLog option" where
  "append_all env l [] = Some l"
| "append_all env l (es # ess) = do {
     (r, l) \<leftarrow> sl_append env l es;
     l \<leftarrow> after_sync l;
     append_all env l ess
   }"

lemma append_all_in_sync:
  assumes env: "env_ok env"
  shows "in_sync env l \<Longrightarrow> \<forall>x \<in> set (concat ess). le_index x = None \<Longrightarrow>
    \<exists>l'. append_all env l ess = Some l' \<and> in_sync env l' \<and> sl_raft_metadata l' = sl_raft_metadata l \<and>
      sl_stored l' = (fst (sl_stored l), snd (sl_stored l) @ stamped (sl_getLastLogIndex l + 1) (concat ess))"
proof (induction ess arbitrary: l)
  case Nil
  then show ?case by (simp add: stamped_def)
next
  case (Cons es ess)
  have last: "sl_getLastLogIndex m + 1 = fst (sl_stored m) + length (snd (sl_stored m))" if "in_sync env m" for m
    using sl.c_last [of env m] that env by (simp add: sl_valid_def in_sync_def)
  have ix: "indexes_ok (sl_getLastLogIndex l + 1) es" using Cons.prems(2) by (auto simp: indexes_ok_def)
  obtain r l1 l2 where l2: "sl_append env l es = Some (r, l1)" "after_sync l1 = Some l2" "in_sync env l2"
    "sl_stored l2 = (fst (sl_stored l), snd (sl_stored l) @ stamped (sl_getLastLogIndex l + 1) es)"
    "sl_raft_metadata l2 = sl_raft_metadata l"
    using append_in_sync [OF env Cons.prems(1) ix] .
  obtain l' where l': "append_all env l2 ess = Some l'" "in_sync env l'" "sl_raft_metadata l' = sl_raft_metadata l2"
    "sl_stored l' = (fst (sl_stored l2), snd (sl_stored l2) @ stamped (sl_getLastLogIndex l2 + 1) (concat ess))"
    using Cons.IH [OF l2(3)] Cons.prems(2) by auto
  have "sl_getLastLogIndex l2 + 1 = sl_getLastLogIndex l + 1 + length es"
    using last [OF l2(3)] last [OF Cons.prems(1)] l2(4) by simp
  then have "sl_stored l' = (fst (sl_stored l), snd (sl_stored l) @ stamped (sl_getLastLogIndex l + 1) (concat (es # ess)))"
    using l'(4) l2(4) by (simp only: stamped_append concat.simps) simp
  then show ?case using l2 l' by auto
qed

end
