(* ===== verification/LC_StorageDemo.thy ===== *)
theory LC_StorageDemo
  imports LC_SegmentedLogCrash
begin

text \<open>
  Concrete inputs on which the theorems about the log on disk are applied: an encoding of entries and
  metadata in unary, a checksum of one byte, and segments so small that a few entries fill one.
\<close>

definition store_entry :: "nat \<Rightarrow> nat option \<Rightarrow> string \<Rightarrow> LogEntry" where
  "store_entry t i x = \<lparr>le_term = t, le_index = i, le_cluster_time = 0, le_type = DATA_ENTRY,
     le_configuration = emptyConfigurationDesc, le_data = x\<rparr>"

definition store_serialize :: "LogEntry \<Rightarrow> string" where
  "store_serialize e = replicate (le_term e) (CHR ''t'') @ '':'' @ replicate (entryIndex e) (CHR ''i'') @ '':'' @ le_data e"

definition store_parse :: "string \<Rightarrow> LogEntry option" where
  "store_parse s =
     (let t = takeWhile (\<lambda>c. c = CHR ''t'') s; r = drop (length t) s in
      case r of [] \<Rightarrow> None
      | c # r \<Rightarrow> let i = takeWhile (\<lambda>c. c = CHR ''i'') r in
          (case drop (length i) r of [] \<Rightarrow> None
           | c' # x \<Rightarrow> if c = CHR '':'' \<and> c' = CHR '':'' then Some (store_entry (length t) (Some (length i)) x) else None))"

definition store_entries :: "LogEntry Codec" where
  "store_entries = \<lparr>cd_serialize = store_serialize, cd_parse = store_parse,
     cd_dumpString = store_serialize, cd_fromString = (\<lambda>s. the (store_parse s))\<rparr>"

definition store_numbers :: "SLMetadata \<Rightarrow> string" where
  "store_numbers m = replicate (slm_version m) (CHR ''v'') @ replicate (slm_entries_start m) (CHR ''s'')"

definition store_metadata :: "string \<Rightarrow> SLMetadata" where
  "store_metadata x = \<lparr>slm_format_version = 1, slm_version = length (filter (\<lambda>c. c = CHR ''v'') x), slm_raft_metadata = None,
     slm_entries_start = length (filter (\<lambda>c. c = CHR ''s'') x)\<rparr>"

definition store_hash :: "string \<Rightarrow> string" where
  "store_hash x = (if x = [] then [CHR 0x00] else [last x])"

definition store_env :: StorageEnv where
  "store_env = \<lparr>se_algorithms = [(''X'', store_hash)], se_checksumAlgorithm = ''X'', se_encoding = BINARY,
     se_entry = store_entries,
     se_metadata = \<lparr>cd_serialize = store_numbers, cd_parse = \<lambda>x. Some (store_metadata x),
       cd_dumpString = store_numbers, cd_fromString = store_metadata\<rparr>,
     MAX_SEGMENT_SIZE = 40, storageOpenSegments = 1, debugInvariants = True\<rparr>"

lemma store_env_ok: "env_ok store_env"
  by (simp add: env_ok_def store_env_def algorithm_ok_def store_hash_def isPrintable_def display_def MAX_LENGTH_def)

definition store_log :: SegmentedLog where
  "store_log = the (mkSegmentedLog store_env emptyDisk)"

definition store_ops :: "LogEntry log_op list" where
  "store_ops = [LogAppend [store_entry 1 None ''a'', store_entry 1 None ''b''],
     LogTruncatePrefix 2, LogTruncateSuffix 2]"

text \<open>The first start on an empty disk.\<close>

lemma mkSegmentedLog_new:
  assumes "env_ok env"
  obtains l where "mkSegmentedLog env emptyDisk = Some l" "sl_inv env l" "sl_stored l = (1, [])"
proof -
  have "disk_holds env emptyDisk 1 []"
    by (simp add: disk_holds_def emptyDisk_def disk_wf_def names_ok_def dirFd_def)
  moreover have "holds_metadata env emptyDisk 1 \<lparr>md_current_term = None, md_voted_for = None\<rparr>"
    by (simp add: holds_metadata_def emptyDisk_def metadata_safe_def chosenMetadata_def metadataIn_def chooseMetadata_def)
  ultimately show thesis
    by (rule mkSegmentedLog_recovers [OF assms, where n = 1 and e = 1]) (use that in auto)
qed

lemma store_log_ok:
  "mkSegmentedLog store_env emptyDisk = Some store_log" "sl_inv store_env store_log" "sl_stored store_log = (1, [])"
proof -
  obtain l where "mkSegmentedLog store_env emptyDisk = Some l" "sl_inv store_env l" "sl_stored l = (1, [])"
    using mkSegmentedLog_new [OF store_env_ok] .
  then show "mkSegmentedLog store_env emptyDisk = Some store_log" "sl_inv store_env store_log" "sl_stored store_log = (1, [])"
    by (simp_all add: store_log_def)
qed

lemma store_ops_allowed:
  "run_allowed sl_can_append can_truncateSuffix (sl_impl store_env) store_log store_ops"
  by code_simp

text \<open>A disk after a crash: a closed segment of which the log needs only the end, a segment with a record that has been
  written in part, a prepared file and one of the two metadata files.\<close>

definition store_e :: "nat \<Rightarrow> LogEntry" where
  "store_e i = store_entry 1 (Some i) (replicate i (CHR ''x''))"

abbreviation store_r :: "nat \<Rightarrow> string" where
  "store_r i \<equiv> recordOf store_env (store_e i)"

definition store_closed :: Segment where
  "store_closed = \<lparr>seg_isOpen = False, seg_start = 1, seg_end = 2, seg_bytes = 1 + length (store_r 1) + length (store_r 2),
     seg_filename = closedFilename 1 2, seg_entries = [(1, store_e 1), (1 + length (store_r 1), store_e 2)]\<rparr>"

definition store_head :: Segment where
  "store_head = \<lparr>seg_isOpen = True, seg_start = 3, seg_end = 3, seg_bytes = 1 + length (store_r 3),
     seg_filename = openFilename 5, seg_entries = [(1, store_e 3)]\<rparr>"

definition store_meta :: SLMetadata where
  "store_meta = \<lparr>slm_format_version = 1, slm_version = 7, slm_raft_metadata = None, slm_entries_start = 2\<rparr>"

definition store_disk :: Disk where
  "store_disk = \<lparr>d_names = [(closedFilename 1 2, 1), (''metadata1'', 2), (openFilename 5, 3), (openFilename 6, 4)],
     d_dnames = [], d_data = (\<lambda>i. if i = 1 then fileBytes store_env store_closed
       else if i = 2 then the (serializeMetadata store_env store_meta)
       else if i = 3 then fileBytes store_env store_head @ take 12 (store_r 4)
       else if i = 4 then segmentHeader @ zeros 20 else []),
     d_durable = (\<lambda>_. []), d_fds = Map.empty, d_next = 5\<rparr>"

lemma names_ok_distinct:
  assumes "distinct (map snd (d_names d))" "\<forall>(f, i) \<in> set (d_names d). i < d_next d"
  shows "names_ok d"
proof -
  have inj: "f = g" if "(f, i) \<in> set (d_names d)" "(g, i) \<in> set (d_names d)" for f g i
    using that inj_onD [OF conjunct2 [OF iffD1 [OF distinct_map assms(1)]]] by fastforce
  show ?thesis unfolding names_ok_def using inj assms(2) map_of_SomeD by fast
qed

lemma store_disk_ok: "om_wf (d_names store_disk)" "disk_wf store_disk" "names_ok store_disk"
proof -
  show "om_wf (d_names store_disk)" by code_simp
  show "disk_wf store_disk" by (simp add: disk_wf_def store_disk_def dirFd_def)
  show "names_ok store_disk" by (rule names_ok_distinct) (simp_all add: store_disk_def)
qed

lemma store_holds: "holds_segment store_env store_disk store_closed" "holds_segment store_env store_disk store_head"
proof -
  have "closed_seg store_env store_closed" by code_simp
  moreover have "\<forall>x \<in> snd ` set (seg_entries store_closed). entry_ok store_env x" by code_simp
  moreover have "map_of (d_names store_disk) (seg_filename store_closed) = Some 1"
    by (simp add: store_disk_def store_closed_def)
  moreover have "d_data store_disk 1 = fileBytes store_env store_closed @ []" by (simp add: store_disk_def)
  moreover have "length (fileBytes store_env store_closed @ []) < 2 ^ 64" by code_simp
  moreover have "seg_entries store_closed \<noteq> [] \<and> seg_start store_closed < 2 ^ 64 \<and> seg_end store_closed < 2 ^ 64 \<and>
      \<not> seg_isOpen store_closed" by (simp add: store_closed_def)
  ultimately show "holds_segment store_env store_disk store_closed" unfolding holds_segment_def by blast
next
  have "open_seg store_env store_head" by code_simp
  moreover have "\<forall>x \<in> snd ` set (seg_entries store_head). entry_ok store_env x" by code_simp
  moreover have "map_of (d_names store_disk) (seg_filename store_head) = Some 3"
    by code_simp
  moreover have "d_data store_disk 3 = fileBytes store_env store_head @ take 12 (store_r 4)" by (simp add: store_disk_def)
  moreover have "length (fileBytes store_env store_head @ take 12 (store_r 4)) < 2 ^ 64" by code_simp
  moreover have "seg_entries store_head \<noteq> [] \<and> seg_start store_head < 2 ^ 64 \<and> seg_end store_head < 2 ^ 64 \<and>
      seg_filename store_head = openFilename 5" by (simp add: store_head_def)
  moreover have "unreadable store_env (fileBytes store_env store_head @ take 12 (store_r 4)) (seg_bytes store_head)"
  proof -
    have "(case readEntry store_env (fileBytes store_env store_head @ take 12 (store_r 4)) (seg_bytes store_head) of
        Some (Inl e) \<Rightarrow> True | _ \<Rightarrow> False)" by code_simp
    then show ?thesis unfolding unreadable_def by (auto split: option.splits sum.splits)
  qed
  ultimately show "holds_segment store_env store_disk store_head" unfolding holds_segment_def by blast
qed

lemma store_disk_holds: "disk_holds store_env store_disk 2 [store_closed, store_head]"
proof -
  have "map_option fst (readOpenEntries store_env (segmentHeader @ zeros 20) 1) = Some []" by code_simp
  then obtain off broken where "readOpenEntries store_env (segmentHeader @ zeros 20) 1 = Some ([], off, broken)"
    by auto
  moreover have "map_of (d_names store_disk) (openFilename 6) = Some 4" by code_simp
  ultimately have "stale_open store_env store_disk 2 (openFilename 6)"
    unfolding stale_open_def by (auto simp: store_disk_def segmentHeader_def)
  moreover have "rawSegment ''metadata1'' = None" by code_simp
  ultimately show ?thesis
    using store_disk_ok store_holds unfolding disk_holds_def
    by (simp add: store_disk_def store_closed_def store_head_def)
qed

lemma store_holds_metadata: "holds_metadata store_env store_disk 2 \<lparr>md_current_term = None, md_voted_for = None\<rparr>"
proof -
  have "metadata_safe store_env store_disk ''metadata1''" "metadata_safe store_env store_disk ''metadata2''" by code_simp+
  moreover have "(case chosenMetadata store_env store_disk of None \<Rightarrow> False | Some m \<Rightarrow> slm_entries_start m = 2 \<and> slm_raft_metadata m = None)"
    by code_simp
  ultimately show ?thesis unfolding holds_metadata_def by (auto simp: raftMetadataOf_def split: option.splits)
qed

text \<open>Three batches of entries, which fill several segments.\<close>

definition store_batches :: "LogEntry list list" where
  "store_batches = [[store_entry 1 None ''a'', store_entry 1 None ''b''], [], [store_entry 2 None ''c'', store_entry 3 None ''d'']]"

lemma store_metadata_ok: "metadata_ok_env store_env"
  by code_simp

lemma store_batches_fit:
  "(case append_all store_env store_log store_batches of None \<Rightarrow> False | Some l \<Rightarrow> stored_ok store_env l)"
  by code_simp

end
