(* ===== verification/LC_StorageProps.thy ===== *)
theory LC_StorageProps
  imports LC_StorageDemo
begin

text \<open>
  Properties of the log on disk: it is interchangeable with the log in memory, its debug assertions hold, its
  loops end, and what is on disk is read back, also after a crash in the middle of a write.
\<close>

section \<open>The interface of logs\<close>

text \<open>C11: The segmented log on disk and the log in memory cannot be told apart: a sequence of allowed operations
  on logs with the same entries returns the same index ranges on both, without a failed assertion, and afterwards both have the
  same first and last index and the same entries, apart from the index that the log on disk writes into each entry.\<close>

theorem segmented_log_like_memory_log:
  assumes "env_ok env" and "sl_inv env l" and "log_inv m" and "log_stored m = (start, es)"
    and "sl_stored l = (start, stamped start es)"
    and "run_allowed sl_can_append can_truncateSuffix (sl_impl env) l ops"
  shows "\<exists>rs l' m'. impl_run (sl_impl env) l ops = Some (rs, l') \<and> impl_run ml_impl m ops = Some (rs, m') \<and>
    sl_getLogStartIndex l' = getLogStartIndex m' \<and> sl_getLastLogIndex l' = getLastLogIndex m' \<and>
    (\<forall>i. sl_getEntry l' i = map_option (stampIndex i) (getEntry m' i))"
proof -
  obtain rs s' es' where spec: "spec_run (\<lambda>i e. e) (start, es) ops = (rs, s', es')" by (cases "spec_run (\<lambda>i e. e) (start, es) ops") auto
  have v: "sl_valid env l" using assms by (simp add: sl_valid_def)
  obtain l' where l': "impl_run (sl_impl env) l ops = Some (rs, l')" "sl_valid env l'" "sl_stored l' = (s', stamped s' es')"
    using sl.run_refines [OF v assms(6)] assms(5) spec by (auto simp: spec_run_stamp)
  obtain m' where m': "impl_run ml_impl m ops = Some (rs, m')" "log_inv m'" "log_stored m' = (s', es')"
    using ml_refines [OF assms(3), of ops] assms(4) spec by auto
  have "sl_getEntry l' i = map_option (stampIndex i) (getEntry m' i)" for i
    using sl.c_get [OF l'(2), of i] ml.get_law [OF m'(2), of i] l'(3) m'(3)
    by (cases "s' \<le> i \<and> i - s' < length es'") (auto simp: nth_stamped)
  moreover have "sl_getLastLogIndex l' + 1 = getLastLogIndex m' + 1"
    using sl.c_last [OF l'(2)] ml.last_law [OF m'(2)] l'(3) m'(3) by simp
  ultimately show ?thesis
    using l' m' sl.c_start [OF l'(2)] ml.start_law [OF m'(2)] by auto
qed

theorem segmented_log_like_memory_log_witness:
  "\<exists>rs l' m'. impl_run (sl_impl store_env) store_log store_ops = Some (rs, l') \<and> impl_run ml_impl mkMemoryLog store_ops = Some (rs, m') \<and>
    sl_getLogStartIndex l' = getLogStartIndex m' \<and> sl_getLastLogIndex l' = getLastLogIndex m' \<and>
    (\<forall>i. sl_getEntry l' i = map_option (stampIndex i) (getEntry m' i))"
  by (rule segmented_log_like_memory_log [where start = 1 and es = "[]", OF store_env_ok store_log_ok(2) _ _ _ store_ops_allowed])
    (simp_all add: log_inv_def log_stored_def mkMemoryLog_def store_log_ok(3) stamped_def)

text \<open>C26: The representation of the segmented log stays well-formed: after every sequence of allowed operations all the assertions of
  checkInvariants hold, so that segments are contiguous, carry the right indexes, offsets, names and sizes, and only the
  last one is open.\<close>

theorem checkInvariants_always:
  assumes "env_ok env" and "mkSegmentedLog env emptyDisk = Some l"
    and "run_allowed sl_can_append can_truncateSuffix (sl_impl env) l ops"
  shows "\<exists>rs l'. impl_run (sl_impl env) l ops = Some (rs, l') \<and> checkInvariants l'"
proof -
  have "sl_valid env l" using mkSegmentedLog_new [OF assms(1)] assms(1,2) by (auto simp: sl_valid_def)
  then obtain rs l' where "impl_run (sl_impl env) l ops = Some (rs, l')" "sl_valid env l'"
    using sl.run_refines [OF _ assms(3)] by blast
  then show ?thesis using sl_invE [of env l'] shape_check [OF assms(1)] unfolding sl_valid_def by metis
qed

theorem checkInvariants_always_witness:
  "\<exists>rs l'. impl_run (sl_impl store_env) store_log store_ops = Some (rs, l') \<and> checkInvariants l'"
  by (rule checkInvariants_always [OF store_env_ok store_log_ok(1) store_ops_allowed])



section \<open>Files\<close>

lemma scanOpen_closed: "scanOpenFilename (closedFilename s e) = None"
  using closed_not_open [of s e] by (auto simp: scanOpenFilename_def scan_literal_def prefix_def)

text \<open>A record that is written anywhere in a file is read back from there: the checksum and the length are accepted, the message is
  the one that was written and the next offset is right behind it, whatever comes before and after the record.\<close>

theorem record_roundtrip:
  assumes "record_ok algs alg encoding codec m" and "serializeProto algs alg encoding codec m = Some rec"
    and "length (before @ rec @ after) < 2 ^ 64"
  shows "readProtoFromFile algs encoding codec (before @ rec @ after) (length before) =
    Some (Inr (m, length before + length rec))"
  by (rule readProto_at [OF assms])

theorem record_roundtrip_witness:
  "readProtoFromFile [(''X'', store_hash)] BINARY store_entries
      (''??'' @ the (serializeProto [(''X'', store_hash)] ''X'' BINARY store_entries (store_entry 2 (Some 3) ''ab'')) @ ''!'')
      (length ''??'') =
    Some (Inr (store_entry 2 (Some 3) ''ab'', length ''??'' +
      length (the (serializeProto [(''X'', store_hash)] ''X'' BINARY store_entries (store_entry 2 (Some 3) ''ab'')))))"
proof -
  let ?e = "store_entry 2 (Some 3) ''ab''"
  let ?s = "serializeProto [(''X'', store_hash)] ''X'' BINARY store_entries ?e"
  have ok: "record_ok [(''X'', store_hash)] ''X'' BINARY store_entries ?e" by code_simp
  then have s: "?s = Some (the ?s)" using serializeProto_Some [OF ok] by (metis option.sel)
  have "length (the ?s) < 1000" by code_simp
  then have "length (''??'' @ the ?s @ ''!'') < 2 ^ 64" by simp
  then show ?thesis by (rule record_roundtrip [OF ok s])
qed

text \<open>The names of segment files identify the segments: the start and end index of a closed segment and the number of an open one are
  read back from the name, for all 64-bit numbers, and neither kind of name is taken for the other.\<close>

theorem filename_roundtrip:
  assumes "first < 2 ^ 64" and "final < 2 ^ 64" and "fileId < 2 ^ 64"
  shows "scanClosedFilename (closedFilename first final) = Some (first, final) \<and>
    scanOpenFilename (openFilename fileId) = Some fileId \<and>
    scanClosedFilename (openFilename fileId) = None \<and> scanOpenFilename (closedFilename first final) = None"
  using scan_closedFilename [OF assms(1,2)] scan_openFilename [OF assms(3)] scanClosed_open scanOpen_closed by blast

theorem filename_roundtrip_witness:
  "scanClosedFilename (closedFilename 1 (2 ^ 64 - 1)) = Some (1, 2 ^ 64 - 1) \<and>
    scanOpenFilename (openFilename 42) = Some 42 \<and>
    scanClosedFilename (openFilename 42) = None \<and> scanOpenFilename (closedFilename 1 (2 ^ 64 - 1)) = None"
  by (rule filename_roundtrip) simp_all

text \<open>C36: Dropping flushes does not change what a Sync does: on every disk, the optimized list of operations leaves the
  same names, the same contents and the same stable contents as the operations that were queued, and fails only where they fail.\<close>

theorem sync_optimization_safe:
  assumes "d_fds d dirFd = None"
  shows "sync_wait sync d = runOps (sync_ops sync) d"
  using runOps_optimize [OF assms] by (simp add: sync_wait_def)

theorem sync_optimization_safe_witness:
  "sync_wait \<lparr>sync_lastIndex = 0, sync_ops = [FDATASYNC 1, WRITE 1 ''a'', FDATASYNC 1]\<rparr> emptyDisk =
    runOps [FDATASYNC 1, WRITE 1 ''a'', FDATASYNC 1] emptyDisk"
  using sync_optimization_safe [of emptyDisk "\<lparr>sync_lastIndex = 0, sync_ops = [FDATASYNC 1, WRITE 1 ''a'', FDATASYNC 1]\<rparr>"]
  by (simp add: emptyDisk_def)

text \<open>Writing buffers ends and writes them all: when calls of writev are answered with short writes and interruptions, but
  with enough bytes altogether, the loop reports success and the file has received exactly the bytes of the buffers, in order.\<close>

theorem write_completes:
  assumes "WriteFailed \<notin> set rs" and "\<exists>n. Written n \<in> set rs" and "length (concat buffers) \<le> progress rs"
  shows "write_all rs buffers = Some (True, concat buffers)"
  using writeLoop_ends [OF assms, of "[]"] writeLoop_success [of rs buffers "[]"] by (auto simp: write_all_def)

theorem write_completes_witness:
  "write_all [Written 3, Interrupted, Written 0, Written 4] [''ab'', '''', ''cdef''] = Some (True, ''abcdef'')"
proof -
  have "progress [Written 3, Interrupted, Written 0, Written 4] = 7" by (simp add: progress_def)
  then show ?thesis
    using write_completes [of "[Written 3, Interrupted, Written 0, Written 4]" "[''ab'', '''', ''cdef'']"] by fastforce
qed

section \<open>Recovery\<close>

text \<open>C12: A log is recovered from its files: when the disk holds the segments of a log, with anything behind the last
  complete record of a segment that was open, with prepared files, with files of entries before the start, and with
  metadata in the newer of the two metadata files, the constructor returns and the new log has exactly the entries of
  the segments from the start on, and the metadata.\<close>

theorem constructor_recovers:
  assumes "env_ok env" and "disk_holds env d start segs" and "holds_metadata env d start raft"
    and "contig n (keyed segs) e" and "0 < n" and "inj_on seg_filename (set segs)"
    and "if segs = [] then n = start \<and> e = start else n \<le> start"
  shows "\<exists>l. mkSegmentedLog env d = Some l \<and> sl_inv env l \<and> sl_raft_metadata l = raft \<and>
    sl_stored l = (start, drop (start - n) (seg_list (keyed segs)))"
  using mkSegmentedLog_recovers [OF assms] by blast

theorem constructor_recovers_witness:
  "\<exists>l. mkSegmentedLog store_env store_disk = Some l \<and> sl_inv store_env l \<and>
    sl_raft_metadata l = \<lparr>md_current_term = None, md_voted_for = None\<rparr> \<and> sl_stored l = (2, [store_e 2, store_e 3])"
proof -
  let ?segs = "[store_closed, store_head]"
  have "contig 1 (keyed ?segs) 4"
    by (simp add: store_closed_def store_head_def closedForm_def closeMem_def)
  moreover have "seg_filename store_closed \<noteq> seg_filename store_head" by code_simp
  then have "inj_on seg_filename (set ?segs)" by (auto simp: inj_on_def)
  ultimately obtain l where l: "mkSegmentedLog store_env store_disk = Some l" "sl_inv store_env l"
      "sl_raft_metadata l = \<lparr>md_current_term = None, md_voted_for = None\<rparr>"
      "sl_stored l = (2, drop (2 - 1) (seg_list (keyed ?segs)))"
    using constructor_recovers [OF store_env_ok store_disk_holds store_holds_metadata, of 1 4] by auto
  have "seg_list (keyed ?segs) = [store_e 1, store_e 2, store_e 3]"
    by (simp add: store_closed_def store_head_def closedForm_def closeMem_def)
  then show ?thesis using l by simp
qed

text \<open>C13: What has been appended and synced survives a crash: starting from an empty disk, batches of entries are appended, with a
  wait for the Sync after each. Every call returns, also where segments are filled and new ones opened, and from what the disk
  has kept of its directory and of its files after a crash the constructor recovers all the entries, in order and with
  their indexes.\<close>

theorem synced_entries_survive_crash:
  assumes "env_ok env" and "metadata_ok_env env" and "mkSegmentedLog env emptyDisk = Some l"
    and "\<forall>x \<in> set (concat ess). le_index x = None"
  shows "\<exists>l1. append_all env l ess = Some l1 \<and>
    (stored_ok env l1 \<longrightarrow> (\<exists>l2. mkSegmentedLog env (crash (sl_disk l1)) = Some l2 \<and> sl_stored l2 = (1, stamped 1 (concat ess))))"
proof -
  have sy: "in_sync env l" by (rule new_in_sync [OF assms(1-3)])
  have st: "sl_stored l = (1, [])" using mkSegmentedLog_new [OF assms(1)] assms(3) by auto
  have "sl_getLastLogIndex l + 1 = 1" using sl.c_last [of env l] sy assms(1) st by (simp add: sl_valid_def in_sync_def)
  then obtain l1 where l1: "append_all env l ess = Some l1" "in_sync env l1" "sl_stored l1 = (1, stamped 1 (concat ess))"
    using append_all_in_sync [OF assms(1) sy assms(4)] st by (auto simp del: concat.simps)
  then show ?thesis using in_sync_recovers [OF assms(1) l1(2)] by metis
qed

theorem synced_entries_survive_crash_witness:
  "\<exists>l1 l2. append_all store_env store_log store_batches = Some l1 \<and>
    mkSegmentedLog store_env (crash (sl_disk l1)) = Some l2 \<and> sl_stored l2 = (1, stamped 1 (concat store_batches))"
proof -
  have "\<forall>x \<in> set (concat store_batches). le_index x = None" by (simp add: store_batches_def store_entry_def)
  then show ?thesis
    using synced_entries_survive_crash [OF store_env_ok store_metadata_ok store_log_ok(1), of store_batches] store_batches_fit by auto
qed

section \<open>Corner cases\<close>

text \<open>A length close to \<open>2 ^ 64\<close> in a damaged record passes the check against the size of the file and is used to
  read behind it, where an error should be returned.\<close>

lemma corrupt_length_faults:
  "readProtoFromFile [(''X'', store_hash)] BINARY store_entries
     (segmentHeader @ ''X:00'' @ [CHR 0x00] @ htobe64 (2 ^ 64 - 14) @ ''data'') 1 = None"
proof -
  have "Option.is_none (readProtoFromFile [(''X'', store_hash)] BINARY store_entries
     (segmentHeader @ ''X:00'' @ [CHR 0x00] @ htobe64 (2 ^ 64 - 14) @ ''data'') 1)" by code_simp
  then show ?thesis by (simp add: Option.is_none_def)
qed

text \<open>A log of four entries in one segment that has been cut to start at index 4. Truncating its end further below the start
  leaves a last index that is not at least the one before the start; a debug build stops there.\<close>

definition store_large :: "bool \<Rightarrow> StorageEnv" where
  "store_large debug = store_env\<lparr>MAX_SEGMENT_SIZE := 200, debugInvariants := debug\<rparr>"

definition store_cut :: "bool \<Rightarrow> SegmentedLog option" where
  "store_cut debug = do {
     l \<leftarrow> mkSegmentedLog (store_large debug) emptyDisk;
     (r, l) \<leftarrow> sl_append (store_large debug) l (replicate 4 (store_entry 1 None ''a''));
     sl_truncatePrefix (store_large debug) l 4
   }"

lemma truncateSuffix_below_start:
  "(case store_cut True of None \<Rightarrow> False | Some l \<Rightarrow> Option.is_none (sl_truncateSuffix (store_large True) l 1)) \<and>
   (case store_cut False \<bind> (\<lambda>l. sl_truncateSuffix (store_large False) l 1) of None \<Rightarrow> False
    | Some l \<Rightarrow> sl_getLogStartIndex l = 4 \<and> sl_getLastLogIndex l = 1)"
  by code_simp

end
