(* ===== verification/LC_MessageSocket.thy ===== *)
theory LC_MessageSocket
  imports LC_Checksum
begin

text \<open>
  \<^verbatim>\<open>src/RPC/MessageSocket.cc\<close>: messages over a stream socket. A message is sent as a frame, a header of 16 bytes
  and the payload. \<open>readable\<close> and \<open>writable\<close> are called by the event loop when the socket may be read and
  written; \<open>sendMessage\<close> is called by any thread.

  \<^item> What the kernel answers is an input: a list of results of \<^verbatim>\<open>recv\<close> or \<^verbatim>\<open>sendmsg\<close>. \<open>Bytes b\<close> are bytes
    that have arrived together; \<^verbatim>\<open>recv\<close> takes as many of them as it asks for. A request for no bytes
    gives 0 when bytes are there, as documented for \<^verbatim>\<open>recv\<close>.
  \<^item> The calls of the handler are recorded in \<open>ms_calls\<close>.
  \<^item> \<open>sendMessage\<close> and \<open>writable\<close> are given by their critical sections, so that other threads may run in
    between.
\<close>

section \<open>Numbers in network byte order\<close>

fun bigEndian :: "nat \<Rightarrow> nat \<Rightarrow> string" where
  "bigEndian 0 n = []"
| "bigEndian (Suc w) n = bigEndian w (n div 256) @ [char_of n]"

lemma length_bigEndian [simp]: "length (bigEndian w n) = w"
  by (induction w arbitrary: n) simp_all

lemma be64toh_snoc: "be64toh (s @ [c]) = 256 * be64toh s + of_char c"
  by (simp add: be64toh_def)

lemma be64toh_bigEndian: "be64toh (bigEndian w n) = n mod 256 ^ w"
proof (induction w arbitrary: n)
  case 0
  then show ?case by (simp add: be64toh_def)
next
  case (Suc w)
  have "n mod 256 ^ Suc w = 256 * (n div 256 mod 256 ^ w) + n mod 256"
    by (simp add: mod_mult2_eq)
  then show ?case by (simp add: be64toh_snoc Suc)
qed

lemma bigEndian_be64toh: "bigEndian (length s) (be64toh s) = s"
proof (induction s rule: rev_induct)
  case (snoc c s)
  have "(256 * be64toh s + of_char c) div 256 = be64toh s" using of_char_less [of c] by simp
  moreover have "char_of (256 * be64toh s + of_char c) = c"
    by (metis char_of_mod_256 char_of_char mod_mult_self4)
  ultimately show ?case using snoc by (simp add: be64toh_snoc)
qed simp

declare bigEndian.simps [simp del]

section \<open>Data\<close>

record Header =
  h_fixed :: nat
  h_version :: nat
  h_payloadLength :: nat
  h_messageId :: nat

definition sizeof_Header :: nat where
  "sizeof_Header = 16"

text \<open>The bytes of a packed header, and back. The numbers are 16, 16, 32 and 64 bits wide.\<close>

definition toBigEndian :: "Header \<Rightarrow> string" where
  "toBigEndian h = bigEndian 2 (h_fixed h) @ bigEndian 2 (h_version h) @
     bigEndian 4 (h_payloadLength h) @ bigEndian 8 (h_messageId h)"

definition fromBigEndian :: "string \<Rightarrow> Header" where
  "fromBigEndian s = \<lparr>h_fixed = be64toh (take 2 s), h_version = be64toh (take 2 (drop 2 s)),
     h_payloadLength = be64toh (take 4 (drop 4 s)), h_messageId = be64toh (take 8 (drop 8 s))\<rparr>"

text \<open>The header of a message being received: bytes while it is incomplete, then fields in host order.\<close>

datatype HeaderBuffer = Raw string | Host Header

record Inbound =
  in_bytesRead :: nat
  in_header :: HeaderBuffer
  in_message :: string

record Outbound =
  out_bytesSent :: nat
  out_header :: string
  out_message :: string

datatype HandlerCall = HandleReceivedMessage nat string | HandleDisconnect

datatype Events = DisabledForever | NoEvents | EpollOneShot

record MessageSocket =
  ms_maxMessageLength :: nat
  ms_inbound :: Inbound
  ms_outboundQueue :: "Outbound list"
  ms_receiving :: bool
  ms_sendEvents :: Events
  ms_calls :: "HandlerCall list"

definition mkInbound :: Inbound where
  "mkInbound = \<lparr>in_bytesRead = 0, in_header = Raw [], in_message = []\<rparr>"

definition mkOutbound :: "nat \<Rightarrow> string \<Rightarrow> Outbound" where
  "mkOutbound messageId message = \<lparr>out_bytesSent = 0,
     out_header = toBigEndian \<lparr>h_fixed = 0xdaf4, h_version = 1, h_payloadLength = length message mod 2 ^ 32, h_messageId = messageId\<rparr>,
     out_message = message\<rparr>"

definition mkMessageSocket :: "nat \<Rightarrow> MessageSocket" where
  "mkMessageSocket maxMessageLength = \<lparr>ms_maxMessageLength = maxMessageLength, ms_inbound = mkInbound,
     ms_outboundQueue = [], ms_receiving = True, ms_sendEvents = NoEvents, ms_calls = []\<rparr>"

section \<open>Closing\<close>

text \<open>\<^verbatim>\<open>Event::File::Monitor::setEvents\<close> on the socket for sending.\<close>

definition setEvents :: "Events \<Rightarrow> MessageSocket \<Rightarrow> MessageSocket" where
  "setEvents ev m = (if ms_sendEvents m = DisabledForever then m else m\<lparr>ms_sendEvents := ev\<rparr>)"

definition disconnect :: "MessageSocket \<Rightarrow> MessageSocket" where
  "disconnect m = m\<lparr>ms_receiving := False, ms_sendEvents := DisabledForever, ms_calls := ms_calls m @ [HandleDisconnect]\<rparr>"

definition close_ms :: "MessageSocket \<Rightarrow> MessageSocket" where
  "close_ms m = m\<lparr>ms_receiving := False, ms_sendEvents := DisabledForever, ms_calls := ms_calls m @ [HandleDisconnect]\<rparr>"

section \<open>Receiving\<close>

datatype Recv = Bytes string | TryAgain | Shutdown | ConnectionError | RecvError

text \<open>\<^verbatim>\<open>recv\<close>: what it returns, and what is left in the kernel.\<close>

fun recv :: "nat \<Rightarrow> Recv list \<Rightarrow> Recv \<times> Recv list" where
  "recv maxBytes [] = (TryAgain, [])"
| "recv maxBytes (Bytes b # k) = (if maxBytes < length b then (Bytes (take maxBytes b), Bytes (drop maxBytes b) # k) else (Bytes b, k))"
| "recv maxBytes (r # k) = (r, k)"

text \<open>\<open>Some None\<close> is the value \<open>-1\<close>: the socket is disconnected.\<close>

definition read_ms :: "nat \<Rightarrow> Recv list \<Rightarrow> (string option \<times> Recv list) option" where
  "read_ms maxBytes k = (let (actual, k) = recv maxBytes k in
     case actual of
       Bytes b \<Rightarrow> if b \<noteq> [] then Some (Some b, k) else Some (None, k)
     | Shutdown \<Rightarrow> Some (None, k)
     | ConnectionError \<Rightarrow> Some (None, k)
     | TryAgain \<Rightarrow> Some (Some [], k)
     | RecvError \<Rightarrow> None)"

text \<open>What the header buffer holds before and after its conversion.\<close>

definition rawHeader :: "Inbound \<Rightarrow> string" where
  "rawHeader i = (case in_header i of Raw s \<Rightarrow> s | Host _ \<Rightarrow> [])"

definition hostHeader :: "Inbound \<Rightarrow> Header" where
  "hostHeader i = (case in_header i of Raw s \<Rightarrow> fromBigEndian s | Host h \<Rightarrow> h)"

text \<open>The two halves of an iteration of \<open>readable\<close>. The boolean says whether it goes on.\<close>

definition receiveHeader :: "MessageSocket \<Rightarrow> Recv list \<Rightarrow> (bool \<times> MessageSocket \<times> Recv list) option" where
  "receiveHeader m k = (if in_bytesRead (ms_inbound m) < sizeof_Header then do {
       (r, k) \<leftarrow> read_ms (sizeof_Header - in_bytesRead (ms_inbound m)) k;
       case r of
         None \<Rightarrow> Some (False, disconnect m, k)
       | Some b \<Rightarrow>
           let bytesRead = in_bytesRead (ms_inbound m) + length b;
               raw = rawHeader (ms_inbound m) @ b;
               m = m\<lparr>ms_inbound := (ms_inbound m)\<lparr>in_bytesRead := bytesRead, in_header := Raw raw\<rparr>\<rparr>
           in if bytesRead < sizeof_Header then Some (False, m, k)
              else let header = fromBigEndian raw;
                       m = m\<lparr>ms_inbound := (ms_inbound m)\<lparr>in_header := Host header\<rparr>\<rparr>
                   in if h_fixed header \<noteq> 0xdaf4 then Some (False, disconnect m, k)
                      else if h_version header \<noteq> 1 then Some (False, disconnect m, k)
                      else if h_payloadLength header > ms_maxMessageLength m then Some (False, disconnect m, k)
                      else Some (True, m\<lparr>ms_inbound := (ms_inbound m)\<lparr>in_message := []\<rparr>\<rparr>, k)
     } else Some (True, m, k))"

definition receiveData :: "MessageSocket \<Rightarrow> Recv list \<Rightarrow> (bool \<times> MessageSocket \<times> Recv list) option" where
  "receiveData m k = (if in_bytesRead (ms_inbound m) \<ge> sizeof_Header then do {
       let payloadBytesRead = in_bytesRead (ms_inbound m) - sizeof_Header;
       let header = hostHeader (ms_inbound m);
       (r, k) \<leftarrow> read_ms (h_payloadLength header - payloadBytesRead) k;
       case r of
         None \<Rightarrow> Some (False, disconnect m, k)
       | Some b \<Rightarrow>
           let bytesRead = in_bytesRead (ms_inbound m) + length b;
               message = in_message (ms_inbound m) @ b;
               m = m\<lparr>ms_inbound := (ms_inbound m)\<lparr>in_bytesRead := bytesRead, in_message := message\<rparr>\<rparr>
           in if bytesRead < sizeof_Header + h_payloadLength header then Some (False, m, k)
              else Some (True, m\<lparr>ms_calls := ms_calls m @ [HandleReceivedMessage (h_messageId header) message],
                                ms_inbound := (ms_inbound m)\<lparr>in_message := [], in_bytesRead := 0\<rparr>\<rparr>, k)
     } else Some (True, m, k))"

text \<open>An upper bound on what can still be read.\<close>

definition pendingSize :: "Recv list \<Rightarrow> nat" where
  "pendingSize k = sum_list (map (\<lambda>r. case r of Bytes b \<Rightarrow> Suc (length b) | _ \<Rightarrow> 1) k)"

lemma pendingSize_simps [simp]:
  "pendingSize [] = 0" "pendingSize (Bytes b # k) = Suc (length b) + pendingSize k"
  "pendingSize (TryAgain # k) = Suc (pendingSize k)" "pendingSize (Shutdown # k) = Suc (pendingSize k)"
  "pendingSize (ConnectionError # k) = Suc (pendingSize k)" "pendingSize (RecvError # k) = Suc (pendingSize k)"
  by (simp_all add: pendingSize_def)

lemma read_ms_pending:
  assumes "read_ms n k = Some (r, k')"
  shows "pendingSize k' \<le> pendingSize k" "r = Some b \<Longrightarrow> b \<noteq> [] \<Longrightarrow> pendingSize k' < pendingSize k"
  using assms by (cases "(n, k)" rule: recv.cases; auto simp: read_ms_def split: if_splits)+

lemma receiveHeader_pending:
  assumes "receiveHeader m k = Some (True, m', k')"
  shows "pendingSize k' \<le> pendingSize k" "sizeof_Header \<le> in_bytesRead (ms_inbound m')"
    "in_bytesRead (ms_inbound m) < sizeof_Header \<Longrightarrow> pendingSize k' < pendingSize k"
    "sizeof_Header \<le> in_bytesRead (ms_inbound m) \<Longrightarrow> m' = m \<and> k' = k"
  using assms read_ms_pending
  by (fastforce simp: receiveHeader_def Let_def split: option.splits bind_splits if_splits)+

lemma receiveData_pending:
  assumes "receiveData m k = Some (True, m', k')" "sizeof_Header \<le> in_bytesRead (ms_inbound m)"
  shows "pendingSize k' \<le> pendingSize k" "in_bytesRead (ms_inbound m') = 0"
  using assms read_ms_pending
  by (fastforce simp: receiveData_def Let_def split: option.splits bind_splits if_splits)+

text \<open>Every iteration takes something out of the kernel or starts with a new message.\<close>

definition readOrder :: "((MessageSocket \<times> Recv list) \<times> MessageSocket \<times> Recv list) set" where
  "readOrder = measures [\<lambda>(m, k). pendingSize k, \<lambda>(m, k). in_bytesRead (ms_inbound m)]"

lemma readable_decreases:
  assumes h: "receiveHeader m k = Some (True, m1, k1)" and d: "receiveData m1 k1 = Some (True, m2, k2)"
  shows "((m2, k2), m, k) \<in> readOrder"
  using receiveHeader_pending [OF h] receiveData_pending [OF d]
  by (cases "in_bytesRead (ms_inbound m) < sizeof_Header") (auto simp: readOrder_def sizeof_Header_def)

function readable :: "MessageSocket \<Rightarrow> Recv list \<Rightarrow> (MessageSocket \<times> Recv list) option" where
  "readable m k = (case receiveHeader m k of
     None \<Rightarrow> None
   | Some (go, m, k) \<Rightarrow> if \<not> go then Some (m, k) else (case receiveData m k of
        None \<Rightarrow> None
      | Some (go, m, k) \<Rightarrow> if \<not> go then Some (m, k) else readable m k))"
  by pat_completeness auto
termination
proof (relation readOrder)
  show "wf readOrder" by (simp add: readOrder_def)
qed (auto intro: readable_decreases)

declare readable.simps [simp del]

section \<open>Sending\<close>

text \<open>\<open>sendMessage\<close> puts the message on the queue under the lock; if the queue was empty, it then sees to it that \<open>writable\<close> is
  called.\<close>

definition sendMessage_queue :: "nat \<Rightarrow> string \<Rightarrow> MessageSocket \<Rightarrow> (bool \<times> MessageSocket) option" where
  "sendMessage_queue messageId contents m = do {
     require (length contents \<le> ms_maxMessageLength m);
     let kick = (ms_outboundQueue m = []);
     Some (kick, m\<lparr>ms_outboundQueue := ms_outboundQueue m @ [mkOutbound messageId contents]\<rparr>)
   }"

definition sendMessage_kick :: "MessageSocket \<Rightarrow> MessageSocket" where
  "sendMessage_kick m = setEvents EpollOneShot m"

definition sendMessage :: "nat \<Rightarrow> string \<Rightarrow> MessageSocket \<Rightarrow> MessageSocket option" where
  "sendMessage messageId contents m = do {
     (kick, m) \<leftarrow> sendMessage_queue messageId contents m;
     Some (if kick then sendMessage_kick m else m)
   }"

text \<open>The first critical section of an iteration of \<open>writable\<close>, and what is sent: the part of header and payload that has
  not been sent yet.\<close>

definition writable_take :: "MessageSocket \<Rightarrow> Outbound option \<times> MessageSocket" where
  "writable_take m = (case ms_outboundQueue m of
     [] \<Rightarrow> (None, m)
   | outbound # queue \<Rightarrow> (Some outbound, m\<lparr>ms_outboundQueue := queue\<rparr>))"

fun skipSent :: "nat \<Rightarrow> string list \<Rightarrow> string list" where
  "skipSent bytesSent [] = []"
| "skipSent bytesSent (iov # iovs) =
     (if bytesSent < length iov then drop bytesSent iov # iovs else [] # skipSent (bytesSent - length iov) iovs)"

definition unsent :: "Outbound \<Rightarrow> string" where
  "unsent outbound = concat (skipSent (out_bytesSent outbound) [out_header outbound, out_message outbound])"

datatype Send = Sent nat | SendAgain | SendClosed | SendError

text \<open>The rest of an iteration, given what \<^verbatim>\<open>sendmsg\<close> returned. The result is whether the loop goes on, and the bytes that
  were sent.\<close>

definition writable_send :: "Outbound \<Rightarrow> Send \<Rightarrow> MessageSocket \<Rightarrow> (bool \<times> string \<times> MessageSocket) option" where
  "writable_send outbound r m = (case r of
     SendClosed \<Rightarrow> Some (False, [], disconnect m)
   | SendError \<Rightarrow> None
   | _ \<Rightarrow> let sent = (case r of Sent n \<Rightarrow> take n (unsent outbound) | _ \<Rightarrow> []);
             outbound = outbound\<lparr>out_bytesSent := out_bytesSent outbound + length sent\<rparr>
         in if out_bytesSent outbound \<noteq> sizeof_Header + length (out_message outbound) then
              let m = setEvents EpollOneShot m
              in Some (False, sent, m\<lparr>ms_outboundQueue := outbound # ms_outboundQueue m\<rparr>)
            else Some (True, sent, m))"

text \<open>The whole loop when no other thread interferes; when the results of \<^verbatim>\<open>sendmsg\<close> run out, it would block.\<close>

fun writable :: "Send list \<Rightarrow> MessageSocket \<Rightarrow> (string \<times> MessageSocket) option" where
  "writable [] m = (case writable_take m of
     (None, m) \<Rightarrow> Some ([], m)
   | (Some outbound, m) \<Rightarrow> do {
       (_, sent, m) \<leftarrow> writable_send outbound SendAgain m;
       Some (sent, m)
     })"
| "writable (r # rs) m = (case writable_take m of
     (None, m) \<Rightarrow> Some ([], m)
   | (Some outbound, m) \<Rightarrow> do {
       (go, sent, m) \<leftarrow> writable_send outbound r m;
       if go then do { (more, m) \<leftarrow> writable rs m; Some (sent @ more, m) } else Some (sent, m)
     })"

end
