(* ===== verification/LC_RPC.thy ===== *)
theory LC_RPC
  imports LC_MessageSocket
begin

text \<open>
  \<^verbatim>\<open>src/RPC/Protocol.h\<close>, \<^verbatim>\<open>ClientRPC.cc\<close>, \<^verbatim>\<open>ServerRPC.cc\<close>, \<^verbatim>\<open>OpaqueServerRPC.cc\<close>, \<^verbatim>\<open>OpaqueServer.cc\<close> and \<^verbatim>\<open>Server.cc\<close>:
  requests and responses as messages with a header, and their dispatch to services. A request or response in a
  message is a protocol buffer; how it is serialized and parsed is an argument of the definitions.

  The socket of a server-side RPC is there until a reply has been sent; \<open>sr_sent\<close> are the messages that were
  sent through it.
\<close>

section \<open>Headers\<close>

record RequestHeaderVersion1 =
  rq_version :: nat
  rq_service :: nat
  rq_serviceSpecificErrorVersion :: nat
  rq_opCode :: nat

definition sizeof_RequestHeaderPrefix :: nat where
  "sizeof_RequestHeaderPrefix = 1"

definition sizeof_RequestHeaderVersion1 :: nat where
  "sizeof_RequestHeaderVersion1 = 6"

definition sizeof_ResponseHeaderVersion1 :: nat where
  "sizeof_ResponseHeaderVersion1 = 1"

definition requestHeader_toBigEndian :: "RequestHeaderVersion1 \<Rightarrow> string" where
  "requestHeader_toBigEndian h = bigEndian 1 (rq_version h) @ bigEndian 2 (rq_service h) @
     bigEndian 1 (rq_serviceSpecificErrorVersion h) @ bigEndian 2 (rq_opCode h)"

definition requestHeader_fromBigEndian :: "string \<Rightarrow> RequestHeaderVersion1" where
  "requestHeader_fromBigEndian s = \<lparr>rq_version = be64toh (take 1 s), rq_service = be64toh (take 2 (drop 1 s)),
     rq_serviceSpecificErrorVersion = be64toh (take 1 (drop 3 s)), rq_opCode = be64toh (take 2 (drop 4 s))\<rparr>"

datatype ProtocolStatus = PS_OK | PS_SERVICE_SPECIFIC_ERROR | PS_INVALID_VERSION | PS_INVALID_SERVICE | PS_INVALID_REQUEST

fun statusCode :: "ProtocolStatus \<Rightarrow> nat" where
  "statusCode PS_OK = 0"
| "statusCode PS_SERVICE_SPECIFIC_ERROR = 1"
| "statusCode PS_INVALID_VERSION = 2"
| "statusCode PS_INVALID_SERVICE = 3"
| "statusCode PS_INVALID_REQUEST = 4"

definition responseHeader :: "ProtocolStatus \<Rightarrow> string" where
  "responseHeader status = bigEndian 1 (statusCode status)"

section \<open>Reserved message identifiers\<close>

definition PING_MESSAGE_ID :: nat where
  "PING_MESSAGE_ID = 2 ^ 64 - 1"

definition VERSION_MESSAGE_ID :: nat where
  "VERSION_MESSAGE_ID = 2 ^ 64 - 2"

definition MAX_VERSION_SUPPORTED :: nat where
  "MAX_VERSION_SUPPORTED = 1"

definition MAX_MESSAGE_LENGTH :: nat where
  "MAX_MESSAGE_LENGTH = 1024 + 1024 * 1024"

section \<open>The client's side of an RPC\<close>

text \<open>The buffer that the constructor of \<^verbatim>\<open>ClientRPC\<close> sends.\<close>

definition clientRPC_request :: "nat \<Rightarrow> nat \<Rightarrow> nat \<Rightarrow> string \<Rightarrow> string" where
  "clientRPC_request service serviceSpecificErrorVersion opCode payload =
     requestHeader_toBigEndian \<lparr>rq_version = 1, rq_service = service,
       rq_serviceSpecificErrorVersion = serviceSpecificErrorVersion, rq_opCode = opCode\<rparr> @ payload"

datatype ('r, 'e) ClientRPCStatus = RPC_OK 'r | RPC_SERVICE_SPECIFIC_ERROR 'e | RPC_FAILED | RPC_CANCELED | RPC_TIMEOUT |
  RPC_INVALID_SERVICE | RPC_INVALID_REQUEST

text \<open>What \<^verbatim>\<open>ClientRPC::waitForReply\<close> makes of the response, with \<open>None\<close> for a \<^verbatim>\<open>PANIC\<close>.\<close>

definition decodeReply :: "(string \<Rightarrow> 'r option) \<Rightarrow> (string \<Rightarrow> 'e option) \<Rightarrow> string \<Rightarrow> ('r, 'e) ClientRPCStatus option" where
  "decodeReply parseResponse parseError responseBuffer = do {
     require (1 \<le> length responseBuffer);
     let status = be64toh (take 1 responseBuffer);
     require (status \<noteq> statusCode PS_INVALID_VERSION);
     require (sizeof_ResponseHeaderVersion1 \<le> length responseBuffer);
     let payload = drop sizeof_ResponseHeaderVersion1 responseBuffer;
     if status = statusCode PS_OK then map_option RPC_OK (parseResponse payload)
     else if status = statusCode PS_SERVICE_SPECIFIC_ERROR then map_option RPC_SERVICE_SPECIFIC_ERROR (parseError payload)
     else if status = statusCode PS_INVALID_SERVICE then Some RPC_INVALID_SERVICE
     else if status = statusCode PS_INVALID_REQUEST then Some RPC_INVALID_REQUEST
     else None
   }"

section \<open>The server's side of an RPC\<close>

text \<open>\<^verbatim>\<open>OpaqueServerRPC\<close> and \<^verbatim>\<open>ServerRPC\<close>.\<close>

record ServerRPC =
  sr_request :: string
  sr_socket :: bool
  sr_messageId :: nat
  sr_active :: bool
  sr_service :: nat
  sr_serviceSpecificErrorVersion :: nat
  sr_opCode :: nat
  sr_sent :: "(nat \<times> string) list"
  sr_closed :: bool

definition sendReply :: "string \<Rightarrow> ServerRPC \<Rightarrow> ServerRPC" where
  "sendReply response rpc =
     (if sr_socket rpc then rpc\<lparr>sr_sent := sr_sent rpc @ [(sr_messageId rpc, response)], sr_socket := False\<rparr> else rpc)"

definition reject :: "ProtocolStatus \<Rightarrow> ServerRPC \<Rightarrow> ServerRPC" where
  "reject status rpc = sendReply (responseHeader status) (rpc\<lparr>sr_active := False\<rparr>)"

definition rejectInvalidService :: "ServerRPC \<Rightarrow> ServerRPC" where
  "rejectInvalidService rpc = reject PS_INVALID_SERVICE rpc"

definition rejectInvalidRequest :: "ServerRPC \<Rightarrow> ServerRPC" where
  "rejectInvalidRequest rpc = reject PS_INVALID_REQUEST rpc"

definition reply_rpc :: "string \<Rightarrow> ServerRPC \<Rightarrow> ServerRPC" where
  "reply_rpc payload rpc = sendReply (responseHeader PS_OK @ payload) (rpc\<lparr>sr_active := False\<rparr>)"

definition returnError :: "string \<Rightarrow> ServerRPC \<Rightarrow> ServerRPC" where
  "returnError serviceSpecificError rpc =
     sendReply (responseHeader PS_SERVICE_SPECIFIC_ERROR @ serviceSpecificError) (rpc\<lparr>sr_active := False\<rparr>)"

definition closeSession :: "ServerRPC \<Rightarrow> ServerRPC" where
  "closeSession rpc = rpc\<lparr>sr_active := False, sr_closed := (sr_closed rpc \<or> sr_socket rpc), sr_socket := False\<rparr>"

definition mkServerRPC :: "nat \<Rightarrow> string \<Rightarrow> ServerRPC" where
  "mkServerRPC messageId request =
     (let rpc = \<lparr>sr_request = request, sr_socket = True, sr_messageId = messageId, sr_active = True, sr_service = 0,
        sr_serviceSpecificErrorVersion = 0, sr_opCode = 0, sr_sent = [], sr_closed = False\<rparr>
      in if length request < sizeof_RequestHeaderPrefix then reject PS_INVALID_REQUEST rpc
         else if be64toh (take 1 request) \<noteq> 1 \<or> length request < sizeof_RequestHeaderVersion1 then reject PS_INVALID_VERSION rpc
         else let h = requestHeader_fromBigEndian request
              in rpc\<lparr>sr_service := rq_service h, sr_serviceSpecificErrorVersion := rq_serviceSpecificErrorVersion h,
                   sr_opCode := rq_opCode h\<rparr>)"

definition getRequest :: "(string \<Rightarrow> 'q option) \<Rightarrow> ServerRPC \<Rightarrow> 'q option \<times> ServerRPC" where
  "getRequest parse rpc =
     (if \<not> sr_active rpc then (None, rpc)
      else case parse (drop sizeof_RequestHeaderVersion1 (sr_request rpc)) of
          None \<Rightarrow> (None, rejectInvalidRequest rpc)
        | Some request \<Rightarrow> (Some request, rpc))"

text \<open>The second form copies the bytes of the request; the outer \<open>option\<close> is the assertion.\<close>

definition getRequest_buffer :: "ServerRPC \<Rightarrow> string option option" where
  "getRequest_buffer rpc =
     (if \<not> sr_active rpc then Some None
      else do {
        require (sizeof_RequestHeaderVersion1 \<le> length (sr_request rpc));
        Some (Some (drop sizeof_RequestHeaderVersion1 (sr_request rpc)))
      })"

section \<open>Dispatch\<close>

text \<open>\<^verbatim>\<open>Server::RPCHandler::handleRPC\<close>, over the table of services. A service is a function on the RPC and its own state.\<close>

definition handleRPC :: "(nat \<rightharpoonup> 's) \<Rightarrow> ServerRPC \<Rightarrow> 's option \<times> ServerRPC" where
  "handleRPC services rpc =
     (if \<not> sr_active rpc then (None, rpc)
      else case services (sr_service rpc) of
          None \<Rightarrow> (None, rejectInvalidService rpc)
        | Some service \<Rightarrow> (Some service, rpc))"

datatype 's Incoming = Answered "(nat \<times> string) list" | ForService 's ServerRPC

text \<open>\<^verbatim>\<open>OpaqueServer::MessageSocketHandler::handleReceivedMessage\<close>: pings and requests for the version are answered at once.\<close>

definition handleReceivedMessage_server :: "(nat \<rightharpoonup> 's) \<Rightarrow> nat \<Rightarrow> string \<Rightarrow> 's Incoming" where
  "handleReceivedMessage_server services messageId message =
     (if messageId = PING_MESSAGE_ID then Answered [(messageId, [])]
      else if messageId = VERSION_MESSAGE_ID then Answered [(messageId, bigEndian 2 MAX_VERSION_SUPPORTED)]
      else case handleRPC services (mkServerRPC messageId message) of
          (None, rpc) \<Rightarrow> Answered (sr_sent rpc)
        | (Some service, rpc) \<Rightarrow> ForService service rpc)"

section \<open>What the two sides agree on\<close>

lemma length_requestHeader [simp]: "length (requestHeader_toBigEndian h) = 6"
  by (simp add: requestHeader_toBigEndian_def)

lemma requestHeader_roundtrip:
  assumes "rq_version h < 2 ^ 8" "rq_service h < 2 ^ 16" "rq_serviceSpecificErrorVersion h < 2 ^ 8" "rq_opCode h < 2 ^ 16"
  shows "requestHeader_fromBigEndian (requestHeader_toBigEndian h @ payload) = h"
  using assms by (simp add: requestHeader_fromBigEndian_def requestHeader_toBigEndian_def be64toh_bigEndian)

lemma statusCode_bits: "be64toh (responseHeader s) = statusCode s" "length (responseHeader s) = 1" "statusCode s < 5"
  by (cases s; simp add: responseHeader_def be64toh_bigEndian; fail)+

lemma decodeReply_header:
  "decodeReply pr pe (responseHeader s @ payload) =
     (case s of PS_OK \<Rightarrow> map_option RPC_OK (pr payload) | PS_SERVICE_SPECIFIC_ERROR \<Rightarrow> map_option RPC_SERVICE_SPECIFIC_ERROR (pe payload)
      | PS_INVALID_VERSION \<Rightarrow> None | PS_INVALID_SERVICE \<Rightarrow> Some RPC_INVALID_SERVICE | PS_INVALID_REQUEST \<Rightarrow> Some RPC_INVALID_REQUEST)"
  by (cases s) (simp_all add: decodeReply_def sizeof_ResponseHeaderVersion1_def statusCode_bits)

lemma mkServerRPC_request:
  assumes "service < 2 ^ 16" "v < 2 ^ 8" "opCode < 2 ^ 16"
  shows "mkServerRPC i (clientRPC_request service v opCode payload) =
    \<lparr>sr_request = clientRPC_request service v opCode payload, sr_socket = True, sr_messageId = i, sr_active = True, sr_service = service,
     sr_serviceSpecificErrorVersion = v, sr_opCode = opCode, sr_sent = [], sr_closed = False\<rparr>"
proof -
  let ?h = "\<lparr>rq_version = 1, rq_service = service, rq_serviceSpecificErrorVersion = v, rq_opCode = opCode\<rparr>"
  have "requestHeader_fromBigEndian (clientRPC_request service v opCode payload) = ?h"
    using requestHeader_roundtrip [of ?h] assms by (simp add: clientRPC_request_def)
  moreover from this have "be64toh (take 1 (clientRPC_request service v opCode payload)) = 1"
    by (simp add: requestHeader_fromBigEndian_def)
  ultimately show ?thesis
    by (simp add: mkServerRPC_def Let_def sizeof_RequestHeaderPrefix_def sizeof_RequestHeaderVersion1_def clientRPC_request_def)
qed

end
