(* ===== verification/LC_ClientSession.thy ===== *)
theory LC_ClientSession
  imports LC_RPC
begin

text \<open>
  \<^verbatim>\<open>src/RPC/ClientSession.cc\<close> and \<^verbatim>\<open>src/RPC/OpaqueClientRPC.cc\<close>: a client's connection to a server. Requests are numbered, responses
  are matched to requests by their number, and pings find out whether the server is alive while requests are under way.

  Operations are the critical sections of the code. Messages given to the socket are recorded in \<open>cs_sent\<close>; the timer is either
  scheduled or not. Waiting is split where the thread sleeps on the condition variable. Connecting the socket is not modelled: a
  session starts with a socket or with an error.
\<close>

section \<open>Data\<close>

datatype ResponseStatus = WAITING | HAS_REPLY | CANCELED_response

record Response =
  rs_status :: ResponseStatus
  rs_reply :: string
  rs_hasWaiter :: bool

record ClientSession =
  cs_address :: string
  cs_maxMessageLength :: nat
  cs_nextMessageId :: nat
  cs_responses :: "(nat, Response) omap"
  cs_errorMessage :: string
  cs_numActiveRPCs :: nat
  cs_activePing :: bool
  cs_messageSocket :: bool
  cs_timer :: bool
  cs_sent :: "(nat \<times> string) list"

datatype OpaqueStatus = NOT_READY | OK_opaque | ERROR_opaque | CANCELED_opaque

record OpaqueClientRPC =
  oc_session :: bool
  oc_responseToken :: nat
  oc_status :: OpaqueStatus
  oc_reply :: string
  oc_errorMessage :: string

definition u32_inc :: "nat \<Rightarrow> nat" where
  "u32_inc n = (n + 1) mod 2 ^ 32"

definition u32_dec :: "nat \<Rightarrow> nat" where
  "u32_dec n = (n + 2 ^ 32 - 1) mod 2 ^ 32"

definition newResponse :: Response where
  "newResponse = \<lparr>rs_status = WAITING, rs_reply = [], rs_hasWaiter = False\<rparr>"

text \<open>The end of the constructor, with the socket or the reason why there is none.\<close>

definition mkClientSession :: "string \<Rightarrow> nat \<Rightarrow> string \<Rightarrow> ClientSession" where
  "mkClientSession address maxMessageLength errorMessage = \<lparr>cs_address = address, cs_maxMessageLength = maxMessageLength,
     cs_nextMessageId = 0, cs_responses = [], cs_errorMessage = errorMessage, cs_numActiveRPCs = 0, cs_activePing = False,
     cs_messageSocket = (errorMessage = []), cs_timer = False, cs_sent = []\<rparr>"

definition makeErrorSession :: "string \<Rightarrow> ClientSession" where
  "makeErrorSession errorMessage = (mkClientSession [] 0 ''Failed to resolve'')\<lparr>cs_errorMessage := errorMessage\<rparr>"

section \<open>Events\<close>

definition handleReceivedMessage_client :: "nat \<Rightarrow> string \<Rightarrow> ClientSession \<Rightarrow> ClientSession" where
  "handleReceivedMessage_client messageId message s =
     (if messageId = PING_MESSAGE_ID then
        (if cs_numActiveRPCs s > 0 \<and> cs_activePing s then s\<lparr>cs_activePing := False, cs_timer := True\<rparr> else s)
      else case map_of (cs_responses s) messageId of
          None \<Rightarrow> s
        | Some response \<Rightarrow>
            if rs_status response = HAS_REPLY then s
            else let s = s\<lparr>cs_numActiveRPCs := u32_dec (cs_numActiveRPCs s)\<rparr>;
                     s = s\<lparr>cs_timer := (cs_numActiveRPCs s \<noteq> 0)\<rparr>
                 in s\<lparr>cs_responses := om_set messageId (response\<lparr>rs_status := HAS_REPLY, rs_reply := message\<rparr>) (cs_responses s)\<rparr>)"

definition handleDisconnect_client :: "ClientSession \<Rightarrow> ClientSession" where
  "handleDisconnect_client s =
     (if cs_errorMessage s = [] then s\<lparr>cs_errorMessage := ''Disconnected from server '' @ cs_address s\<rparr> else s)"

text \<open>The timer has fired, so it is no longer scheduled.\<close>

definition handleTimerEvent :: "ClientSession \<Rightarrow> ClientSession" where
  "handleTimerEvent s0 = (let s = s0\<lparr>cs_timer := False\<rparr> in
     if \<not> cs_messageSocket s \<or> cs_numActiveRPCs s = 0 \<or> cs_errorMessage s \<noteq> [] then s
     else if \<not> cs_activePing s then s\<lparr>cs_activePing := True, cs_sent := cs_sent s @ [(PING_MESSAGE_ID, [])], cs_timer := True\<rparr>
     else s\<lparr>cs_errorMessage := ''Server '' @ cs_address s @ '' timed out''\<rparr>)"

section \<open>Operations\<close>

definition sendRequest :: "string \<Rightarrow> ClientSession \<Rightarrow> (OpaqueClientRPC \<times> ClientSession) option" where
  "sendRequest request s = do {
     let messageId = cs_nextMessageId s;
     let s = s\<lparr>cs_nextMessageId := u64 (messageId + 1), cs_responses := om_set messageId newResponse (cs_responses s)\<rparr>;
     let s = s\<lparr>cs_numActiveRPCs := u32_inc (cs_numActiveRPCs s)\<rparr>;
     let s = (if cs_numActiveRPCs s = 1 then s\<lparr>cs_activePing := False, cs_timer := True\<rparr> else s);
     require (\<not> cs_messageSocket s \<or> length request \<le> cs_maxMessageLength s);
     let s = (if cs_messageSocket s then s\<lparr>cs_sent := cs_sent s @ [(messageId, request)]\<rparr> else s);
     Some (\<lparr>oc_session = True, oc_responseToken = messageId, oc_status = NOT_READY, oc_reply = [], oc_errorMessage = []\<rparr>, s)
   }"

definition cancel_session :: "OpaqueClientRPC \<Rightarrow> ClientSession \<Rightarrow> ClientSession" where
  "cancel_session rpc s = (case map_of (cs_responses s) (oc_responseToken rpc) of
     None \<Rightarrow> s
   | Some response \<Rightarrow>
       let s = (if rs_hasWaiter response
                then s\<lparr>cs_responses := om_set (oc_responseToken rpc) (response\<lparr>rs_status := CANCELED_response\<rparr>) (cs_responses s)\<rparr>
                else s\<lparr>cs_responses := om_erase (oc_responseToken rpc) (cs_responses s)\<rparr>)
       in s\<lparr>cs_numActiveRPCs := u32_dec (cs_numActiveRPCs s)\<rparr>)"

definition update_session :: "OpaqueClientRPC \<Rightarrow> ClientSession \<Rightarrow> (OpaqueClientRPC \<times> ClientSession) option" where
  "update_session rpc s = (case map_of (cs_responses s) (oc_responseToken rpc) of
     None \<Rightarrow> do { require (oc_status rpc = CANCELED_opaque); Some (rpc, s) }
   | Some response \<Rightarrow>
       if rs_status response = HAS_REPLY then
         Some (rpc\<lparr>oc_reply := rs_reply response, oc_status := OK_opaque, oc_session := False\<rparr>,
           s\<lparr>cs_responses := om_erase (oc_responseToken rpc) (cs_responses s)\<rparr>)
       else if cs_errorMessage s \<noteq> [] then
         Some (rpc\<lparr>oc_errorMessage := cs_errorMessage s, oc_status := ERROR_opaque, oc_session := False\<rparr>,
           s\<lparr>cs_responses := om_erase (oc_responseToken rpc) (cs_responses s)\<rparr>)
       else do { require (rs_status response \<noteq> CANCELED_response); Some (rpc, s) })"

text \<open>An iteration of the loop of \<^verbatim>\<open>ClientSession::wait\<close>: it returns or goes to sleep.\<close>

definition wait_session :: "nat \<Rightarrow> bool \<Rightarrow> ClientSession \<Rightarrow> bool \<times> ClientSession" where
  "wait_session token timedOut s = (case map_of (cs_responses s) token of
     None \<Rightarrow> (True, s)
   | Some response \<Rightarrow>
       if rs_status response = HAS_REPLY then (True, s)
       else if rs_status response = CANCELED_response then (True, s\<lparr>cs_responses := om_erase token (cs_responses s)\<rparr>)
       else if cs_errorMessage s \<noteq> [] then (True, s)
       else if timedOut then (True, s)
       else (False, s\<lparr>cs_responses := om_set token (response\<lparr>rs_hasWaiter := True\<rparr>) (cs_responses s)\<rparr>))"

definition wakeUp :: "nat \<Rightarrow> ClientSession \<Rightarrow> ClientSession" where
  "wakeUp token s = (case map_of (cs_responses s) token of
     None \<Rightarrow> s
   | Some response \<Rightarrow> s\<lparr>cs_responses := om_set token (response\<lparr>rs_hasWaiter := False\<rparr>) (cs_responses s)\<rparr>)"

section \<open>The handle of an RPC\<close>

definition cancel_rpc :: "OpaqueClientRPC \<Rightarrow> ClientSession \<Rightarrow> OpaqueClientRPC \<times> ClientSession" where
  "cancel_rpc rpc s =
     (if oc_status rpc \<noteq> NOT_READY then (rpc, s)
      else (rpc\<lparr>oc_status := CANCELED_opaque, oc_session := False, oc_reply := [], oc_errorMessage := ''RPC canceled by user''\<rparr>,
            if oc_session rpc then cancel_session rpc s else s))"

definition update_rpc :: "OpaqueClientRPC \<Rightarrow> ClientSession \<Rightarrow> (OpaqueClientRPC \<times> ClientSession) option" where
  "update_rpc rpc s = (if oc_status rpc = NOT_READY \<and> oc_session rpc then update_session rpc s else Some (rpc, s))"

definition getStatus_rpc :: "OpaqueClientRPC \<Rightarrow> ClientSession \<Rightarrow> (OpaqueStatus \<times> OpaqueClientRPC \<times> ClientSession) option" where
  "getStatus_rpc rpc s = do { (rpc, s) \<leftarrow> update_rpc rpc s; Some (oc_status rpc, rpc, s) }"

definition peekReply :: "OpaqueClientRPC \<Rightarrow> ClientSession \<Rightarrow> (string option \<times> OpaqueClientRPC \<times> ClientSession) option" where
  "peekReply rpc s = do {
     (rpc, s) \<leftarrow> update_rpc rpc s;
     Some (if oc_status rpc = OK_opaque then Some (oc_reply rpc) else None, rpc, s)
   }"

text \<open>\<^verbatim>\<open>OpaqueClientRPC::waitForReply\<close> up to the wait, which is \<open>wait_session\<close>; the result says whether to wait.\<close>

definition waitForReply_begin :: "OpaqueClientRPC \<Rightarrow> bool \<times> OpaqueClientRPC" where
  "waitForReply_begin rpc =
     (if oc_status rpc \<noteq> NOT_READY then (False, rpc)
      else if oc_session rpc then (True, rpc)
      else (False, rpc\<lparr>oc_errorMessage := ''This RPC was never associated with a ClientSession.'', oc_status := ERROR_opaque\<rparr>))"

text \<open>\<^verbatim>\<open>ClientRPC::waitForReply\<close> after the wait. \<open>late\<close> says whether the clock is past the timeout.\<close>

definition waitForReply_end :: "(string \<Rightarrow> 'r option) \<Rightarrow> (string \<Rightarrow> 'e option) \<Rightarrow> bool \<Rightarrow> OpaqueClientRPC \<Rightarrow> ClientSession \<Rightarrow>
    (('r, 'e) ClientRPCStatus \<times> OpaqueClientRPC \<times> ClientSession) option" where
  "waitForReply_end parseResponse parseError late rpc s = do {
     (status, rpc, s) \<leftarrow> getStatus_rpc rpc s;
     case status of
       NOT_READY \<Rightarrow> do { require late; Some (RPC_TIMEOUT, rpc, s) }
     | ERROR_opaque \<Rightarrow> Some (RPC_FAILED, rpc, s)
     | CANCELED_opaque \<Rightarrow> Some (RPC_CANCELED, rpc, s)
     | OK_opaque \<Rightarrow> do {
         r \<leftarrow> decodeReply parseResponse parseError (oc_reply rpc);
         Some (r, rpc, s)
       }
   }"

end
