(* ===== verification/LC_Transport.thy ===== *)
theory LC_Transport
  imports LC_MessageSocket
begin

text \<open>
  What a message socket promises: however the kernel cuts the stream of bytes into pieces, the receiver hands over
  the messages in the order they were given to \<open>sendMessage\<close>, each of them once and unchanged; and a message on the queue is
  never forgotten, because \<open>writable\<close> will be called.
\<close>

section \<open>Frames\<close>

type_synonym message = "nat \<times> string"

definition frame :: "message \<Rightarrow> string" where
  "frame x = toBigEndian \<lparr>h_fixed = 0xdaf4, h_version = 1, h_payloadLength = length (snd x), h_messageId = fst x\<rparr> @ snd x"

definition frames :: "message list \<Rightarrow> string" where
  "frames xs = concat (map frame xs)"

definition good :: "nat \<Rightarrow> message \<Rightarrow> bool" where
  "good maxLength x \<longleftrightarrow> fst x < 2 ^ 64 \<and> length (snd x) \<le> maxLength \<and> maxLength < 2 ^ 32"

lemma frames_simps [simp]: "frames [] = []" "frames (x # xs) = frame x @ frames xs" "frames (xs @ ys) = frames xs @ frames ys"
  by (simp_all add: frames_def)

lemma length_toBigEndian [simp]: "length (toBigEndian h) = 16"
  by (simp add: toBigEndian_def)

lemma length_frame [simp]: "length (frame x) = 16 + length (snd x)"
  by (simp add: frame_def)

lemma from_to_BigEndian:
  assumes "h_fixed h < 2 ^ 16" "h_version h < 2 ^ 16" "h_payloadLength h < 2 ^ 32" "h_messageId h < 2 ^ 64"
  shows "fromBigEndian (toBigEndian h) = h"
  using assms by (simp add: fromBigEndian_def toBigEndian_def be64toh_bigEndian)

lemma to_from_BigEndian:
  assumes "length s = 16"
  shows "toBigEndian (fromBigEndian s) = s"
proof -
  have b: "bigEndian w (be64toh (take w (drop i s))) = take w (drop i s)" if "i + w \<le> 16" for i w
    using bigEndian_be64toh [of "take w (drop i s)"] that assms by simp
  have "take 2 s @ take 2 (drop 2 s) @ take 4 (drop 4 s) @ take 8 (drop 8 s) = s"
    using assms by (simp add: take_add [symmetric] flip: append_assoc)
  then show ?thesis using b [of 0 2] b [of 2 2] b [of 4 4] b [of 8 8] by (simp add: toBigEndian_def fromBigEndian_def)
qed

lemma fromBigEndian_frame:
  assumes "good M x"
  shows "fromBigEndian (take 16 (frame x)) = \<lparr>h_fixed = 0xdaf4, h_version = 1, h_payloadLength = length (snd x), h_messageId = fst x\<rparr>"
  using assms by (simp add: frame_def good_def from_to_BigEndian)

text \<open>Frames are uniquely decodable from a prefix of the stream.\<close>

lemma frame_prefix:
  assumes "good M x" "good M y" and eq: "frame x @ u = take n (frame y @ v)"
  shows "x = y"
proof -
  have n: "16 + length (snd x) \<le> n" using arg_cong [OF eq, of length] by (simp add: min_def split: if_splits)
  have "take 16 (frame x) = take 16 (frame x @ u)" by simp
  also have "\<dots> = take 16 (frame y)" using n by (simp add: eq)
  finally have h: "fst x = fst y" "length (snd x) = length (snd y)"
    using fromBigEndian_frame [OF assms(1)] fromBigEndian_frame [OF assms(2)] by simp_all
  have "frame x = take (16 + length (snd x)) (frame x @ u)" by simp
  also have "\<dots> = frame y" using n h by (simp add: eq)
  finally have "snd x = snd y" by (simp add: frame_def h)
  then show ?thesis using h by (simp add: prod_eq_iff)
qed

lemma frames_prefix:
  assumes "\<forall>x \<in> set xs. good M x" "\<forall>y \<in> set ys. good M y" "frames xs @ u = take n (frames ys)"
  shows "prefix xs ys \<and> u = take (n - length (frames xs)) (frames (drop (length xs) ys))"
  using assms
proof (induction xs arbitrary: ys n)
  case (Cons x xs)
  obtain y zs where ys: "ys = y # zs" using Cons.prems(3) by (cases ys) (auto simp: frame_def dest: arg_cong [of _ _ length])
  have xy: "x = y" using frame_prefix [of M x y "frames xs @ u" n "frames zs"] Cons.prems ys by simp
  have len: "length (frame y) \<le> n" using arg_cong [OF Cons.prems(3), of length] by (simp add: ys xy min_def split: if_splits)
  then have "frames xs @ u = take (n - length (frame y)) (frames zs)" using Cons.prems(3) by (simp add: ys xy)
  then show ?case using Cons.IH [of zs "n - length (frame y)"] Cons.prems(1,2) by (simp add: ys xy)
qed simp

section \<open>The receiving side\<close>

fun receivedMessage :: "HandlerCall \<Rightarrow> message list" where
  "receivedMessage (HandleReceivedMessage i c) = [(i, c)]"
| "receivedMessage HandleDisconnect = []"

definition received :: "MessageSocket \<Rightarrow> message list" where
  "received m = concat (map receivedMessage (ms_calls m))"

fun recvBytes :: "Recv \<Rightarrow> string" where
  "recvBytes (Bytes b) = b"
| "recvBytes _ = []"

definition stream :: "Recv list \<Rightarrow> string" where
  "stream k = concat (map recvBytes k)"

text \<open>The kernel neither reports an error nor the end of the connection, and arriving bytes are at least one.\<close>

definition calm :: "Recv list \<Rightarrow> bool" where
  "calm k \<longleftrightarrow> (\<forall>r \<in> set k. r = TryAgain \<or> (\<exists>b. r = Bytes b \<and> b \<noteq> []))"

definition staged :: "Inbound \<Rightarrow> string" where
  "staged i = (if in_bytesRead i < sizeof_Header then rawHeader i else toBigEndian (hostHeader i) @ in_message i)"

definition header_ok :: "nat \<Rightarrow> Header \<Rightarrow> bool" where
  "header_ok M h \<longleftrightarrow> h_fixed h = 0xdaf4 \<and> h_version h = 1 \<and> h_payloadLength h \<le> M \<and> h_messageId h < 2 ^ 64 \<and> M < 2 ^ 32"

definition header_read :: "nat \<Rightarrow> Inbound \<Rightarrow> bool" where
  "header_read M i \<longleftrightarrow> in_header i = Host (hostHeader i) \<and> header_ok M (hostHeader i) \<and> in_bytesRead i = 16 + length (in_message i) \<and>
     length (in_message i) \<le> h_payloadLength (hostHeader i)"

definition inbound_ok :: "nat \<Rightarrow> Inbound \<Rightarrow> bool" where
  "inbound_ok M i \<longleftrightarrow> (if in_bytesRead i < 16 then length (rawHeader i) = in_bytesRead i
     else header_read M i \<and> length (in_message i) < h_payloadLength (hostHeader i))"

lemma stream_simps [simp]: "stream [] = []" "stream (r # k) = recvBytes r @ stream k"
  by (simp_all add: stream_def)

lemma calm_simps [simp]: "calm []" "calm (r # k) \<longleftrightarrow> (r = TryAgain \<or> (\<exists>b. r = Bytes b \<and> b \<noteq> [])) \<and> calm k"
  by (simp_all add: calm_def)

lemma read_ms_stream:
  assumes "read_ms n k = Some (Some b, k')"
  shows "stream k = b @ stream k'" "length b \<le> n"
  using assms by (cases "(n, k)" rule: recv.cases; auto simp: read_ms_def split: if_splits)+

lemma read_ms_calm:
  assumes "calm k"
  shows "\<exists>r k'. read_ms n k = Some (r, k') \<and> calm k' \<and> (r = None \<longrightarrow> n = 0) \<and>
    pendingSize k' \<le> pendingSize k \<and> (0 < n \<longrightarrow> k \<noteq> [] \<longrightarrow> pendingSize k' < pendingSize k)"
proof (cases "(n, k)" rule: recv.cases)
  case (2 m b k1)
  then show ?thesis using assms by (cases "n < length b") (auto simp: read_ms_def)
qed (use assms in \<open>auto simp: read_ms_def\<close>)

text \<open>A step from one state of the receiver to another keeps the bytes it has read: those handed over, those staged, and
  those still in the kernel.\<close>

definition keepsBytes :: "nat \<Rightarrow> MessageSocket \<Rightarrow> Recv list \<Rightarrow> MessageSocket \<Rightarrow> Recv list \<Rightarrow> bool" where
  "keepsBytes M m k m' k' \<longleftrightarrow> ms_maxMessageLength m' = M \<and> (\<exists>new u. received m' = received m @ new \<and> (\<forall>x \<in> set new. good M x) \<and>
     frames new @ u = staged (ms_inbound m) @ stream k \<and> (ms_receiving m' \<longrightarrow> u = staged (ms_inbound m') @ stream k'))"

lemma keepsBytes_refl: "ms_maxMessageLength m = M \<Longrightarrow> keepsBytes M m k m k"
  by (auto simp: keepsBytes_def)

lemma keepsBytes_trans:
  assumes "keepsBytes M m k m1 k1" "keepsBytes M m1 k1 m2 k2" "ms_receiving m1"
  shows "keepsBytes M m k m2 k2"
proof -
  obtain a b u where "received m1 = received m @ a" "\<forall>x \<in> set a. good M x"
      "frames a @ staged (ms_inbound m1) @ stream k1 = staged (ms_inbound m) @ stream k"
      "received m2 = received m1 @ b" "\<forall>x \<in> set b. good M x"
      "frames b @ u = staged (ms_inbound m1) @ stream k1" "ms_receiving m2 \<longrightarrow> u = staged (ms_inbound m2) @ stream k2"
    using assms by (auto simp: keepsBytes_def)
  then show ?thesis using assms(2) by (auto simp: keepsBytes_def intro!: exI [of _ "a @ b"] exI [of _ u])
qed

lemma keepsBytes_disconnect: "ms_maxMessageLength m = M \<Longrightarrow> keepsBytes M m k (disconnect (m\<lparr>ms_inbound := i\<rparr>)) k'"
  "ms_maxMessageLength m = M \<Longrightarrow> keepsBytes M m k (disconnect m) k'"
  by (auto simp: keepsBytes_def disconnect_def received_def)

lemma fromBigEndian_id: "length s = 16 \<Longrightarrow> h_messageId (fromBigEndian s) < 2 ^ 64"
  using be64toh_less [of "take 8 (drop 8 s)"] by (simp add: fromBigEndian_def)

lemma receiveHeader_step:
  assumes i: "inbound_ok M (ms_inbound m)" and M: "ms_maxMessageLength m = M" "M < 2 ^ 32"
    and r: "receiveHeader m k = Some (go, m', k')"
  shows "keepsBytes M m k m' k' \<and> (if go then ms_receiving m' = ms_receiving m \<and> header_read M (ms_inbound m')
    else ms_receiving m' \<longrightarrow> inbound_ok M (ms_inbound m'))"
proof (cases "in_bytesRead (ms_inbound m) < 16")
  case False
  then have "go" "m' = m" "k' = k" using r by (simp_all add: receiveHeader_def sizeof_Header_def)
  then show ?thesis using i False M by (simp add: keepsBytes_refl inbound_ok_def)
next
  case True
  obtain b k1 where rd: "read_ms (16 - in_bytesRead (ms_inbound m)) k = Some (b, k1)"
    using r True by (cases "read_ms (16 - in_bytesRead (ms_inbound m)) k") (auto simp: receiveHeader_def sizeof_Header_def)
  show ?thesis
  proof (cases b)
    case None
    then have "\<not> go" "m' = disconnect m" using r True rd by (auto simp: receiveHeader_def sizeof_Header_def)
    then show ?thesis using M by (simp add: keepsBytes_disconnect) (simp add: disconnect_def)
  next
    case (Some c)
    define raw where "raw = rawHeader (ms_inbound m) @ c"
    define i' where "i' = (ms_inbound m)\<lparr>in_bytesRead := length raw, in_header := Raw raw\<rparr>"
    have len: "in_bytesRead (ms_inbound m) + length c = length raw" "length raw \<le> 16"
      using i True read_ms_stream(2) [OF rd [unfolded Some]] by (simp_all add: raw_def inbound_ok_def)
    have st: "staged (ms_inbound m) @ stream k = raw @ stream k1"
      using True read_ms_stream(1) [OF rd [unfolded Some]] by (simp add: staged_def sizeof_Header_def raw_def)
    show ?thesis
    proof (cases "length raw < 16")
      case less: True
      then have "\<not> go" "m' = m\<lparr>ms_inbound := i'\<rparr>" "k' = k1"
        using r True rd Some len(1) by (simp_all add: receiveHeader_def sizeof_Header_def Let_def raw_def i'_def)
      then show ?thesis
        using M st less by (simp add: keepsBytes_def received_def staged_def sizeof_Header_def i'_def rawHeader_def inbound_ok_def)
    next
      case False
      then have 16: "length raw = 16" using len(2) by simp
      define h where "h = fromBigEndian raw"
      define i'' where "i'' = i'\<lparr>in_header := Host h, in_message := []\<rparr>"
      have eq: "(go, m', k') = (if h_fixed h \<noteq> 0xdaf4 \<or> h_version h \<noteq> 1 \<or> h_payloadLength h > M
          then (False, disconnect (m\<lparr>ms_inbound := i'\<lparr>in_header := Host h\<rparr>\<rparr>), k1) else (True, m\<lparr>ms_inbound := i''\<rparr>, k1))"
        using r True rd Some len(1) 16 M(1)
        by (auto simp: receiveHeader_def sizeof_Header_def Let_def raw_def i'_def i''_def h_def split: if_splits)
      show ?thesis
      proof (cases "h_fixed h \<noteq> 0xdaf4 \<or> h_version h \<noteq> 1 \<or> h_payloadLength h > M")
        case True
        then show ?thesis using eq M keepsBytes_disconnect by simp (simp add: disconnect_def)
      next
        case False
        then have ok: "header_ok M h" using fromBigEndian_id [OF 16] M by (simp add: header_ok_def h_def)
        have "header_read M i''" using ok 16 by (simp add: header_read_def i''_def i'_def hostHeader_def)
        moreover have "staged i'' = raw"
          using 16 to_from_BigEndian [OF 16] by (simp add: staged_def i''_def i'_def hostHeader_def sizeof_Header_def h_def)
        ultimately show ?thesis using eq False M st by (simp add: keepsBytes_def received_def)
      qed
    qed
  qed
qed

lemma receiveData_step:
  assumes i: "header_read M (ms_inbound m)" and M: "ms_maxMessageLength m = M" "M < 2 ^ 32"
    and r: "receiveData m k = Some (go, m', k')"
  shows "keepsBytes M m k m' k' \<and> (go \<or> ms_receiving m' \<longrightarrow> inbound_ok M (ms_inbound m')) \<and> (go \<longrightarrow> ms_receiving m' = ms_receiving m)"
proof -
  define i h where "i = ms_inbound m" and "h = hostHeader i"
  have ir: "in_bytesRead i = 16 + length (in_message i)" "length (in_message i) \<le> h_payloadLength h" "header_ok M h" "in_header i = Host h"
    using i by (simp_all add: header_read_def i_def h_def)
  obtain b k1 where rd: "read_ms (h_payloadLength h - length (in_message i)) k = Some (b, k1)"
    using r ir(1) by (cases "read_ms (h_payloadLength h - length (in_message i)) k")
      (auto simp: receiveData_def sizeof_Header_def i_def h_def)
  show ?thesis
  proof (cases b)
    case None
    then have "m' = disconnect m" "\<not> go" using r rd ir(1) by (auto simp: receiveData_def sizeof_Header_def i_def h_def)
    then show ?thesis using M by (simp add: keepsBytes_disconnect) (simp add: disconnect_def)
  next
    case (Some c)
    note st = read_ms_stream [OF rd [unfolded Some]]
    show ?thesis
    proof (cases "length (in_message i @ c) < h_payloadLength h")
      case True
      define i' where "i' = i\<lparr>in_bytesRead := 16 + length (in_message i @ c), in_message := in_message i @ c\<rparr>"
      have m': "m' = m\<lparr>ms_inbound := i'\<rparr>" "k' = k1"
        using True r rd Some ir(1) by (auto simp: receiveData_def sizeof_Header_def Let_def i_def h_def i'_def add.assoc)
      have h': "hostHeader i' = h" using ir(4) by (simp add: hostHeader_def i'_def)
      have "staged i' @ stream k1 = staged i @ stream k"
        using ir(1) st(1) by (simp add: staged_def sizeof_Header_def h' h_def [symmetric]) (simp add: i'_def)
      moreover have "inbound_ok M i'"
        using True ir(3,4) by (simp add: inbound_ok_def header_read_def h') (simp add: i'_def)
      ultimately show ?thesis using m' M by (simp add: keepsBytes_def received_def i_def)
    next
      case False
      then have len: "length (in_message i @ c) = h_payloadLength h" using st(2) ir(2) by simp
      have m': "m' = m\<lparr>ms_calls := ms_calls m @ [HandleReceivedMessage (h_messageId h) (in_message i @ c)],
          ms_inbound := i\<lparr>in_message := [], in_bytesRead := 0\<rparr>\<rparr>" "k' = k1"
        using r rd Some ir(1) len by (simp_all add: receiveData_def sizeof_Header_def Let_def i_def h_def)
      have f: "frame (h_messageId h, in_message i @ c) = toBigEndian h @ in_message i @ c"
        using ir(3) len by (cases h) (simp add: frame_def header_ok_def)
      have "frames [(h_messageId h, in_message i @ c)] @ stream k1 = staged i @ stream k"
        using ir(1) st(1) by (simp add: f staged_def sizeof_Header_def flip: h_def)
      moreover have "good M (h_messageId h, in_message i @ c)" using ir(3) len M by (simp add: good_def header_ok_def)
      moreover have "rawHeader (i\<lparr>in_message := [], in_bytesRead := 0\<rparr>) = []" using ir(4) by (simp add: rawHeader_def)
      ultimately show ?thesis using m' M
        by (auto simp: keepsBytes_def received_def staged_def sizeof_Header_def inbound_ok_def i_def)
    qed
  qed
qed

lemma readable_step:
  assumes "inbound_ok M (ms_inbound m)" "ms_maxMessageLength m = M" "M < 2 ^ 32" "ms_receiving m" "readable m k = Some (m', k')"
  shows "keepsBytes M m k m' k' \<and> (ms_receiving m' \<longrightarrow> inbound_ok M (ms_inbound m'))"
  using assms
proof (induction m k rule: readable.induct)
  case (1 m k)
  obtain go m1 k1 where h: "receiveHeader m k = Some (go, m1, k1)"
    using "1.prems"(5) by (subst (asm) readable.simps) (auto split: option.splits)
  note s1 = receiveHeader_step [OF "1.prems"(1-3) h]
  show ?case
  proof (cases go)
    case False
    then have "m' = m1" "k' = k1" using "1.prems"(5) h by (simp_all add: readable.simps [of m])
    then show ?thesis using s1 False by simp
  next
    case True
    obtain go2 m2 k2 where d: "receiveData m1 k1 = Some (go2, m2, k2)"
      using "1.prems"(5) h True by (subst (asm) readable.simps) (auto split: option.splits)
    have m1: "header_read M (ms_inbound m1)" "ms_maxMessageLength m1 = M" "ms_receiving m1"
      using s1 True "1.prems"(4) by (simp_all add: keepsBytes_def)
    note s2 = receiveData_step [OF m1(1,2) "1.prems"(3) d]
    have k2: "keepsBytes M m k m2 k2" using keepsBytes_trans [OF _ _ m1(3)] s1 s2 by blast
    show ?thesis
    proof (cases go2)
      case False
      then have "m' = m2" "k' = k2" using "1.prems"(5) h d True by (simp_all add: readable.simps [of m])
      then show ?thesis using k2 s2 by simp
    next
      case go2: True
      have r2: "readable m2 k2 = Some (m', k')" using "1.prems"(5) h d True go2 by (simp add: readable.simps [of m])
      have m2: "inbound_ok M (ms_inbound m2)" "ms_receiving m2" using s2 go2 m1(3) by simp_all
      then have "keepsBytes M m2 k2 m' k' \<and> (ms_receiving m' \<longrightarrow> inbound_ok M (ms_inbound m'))"
        using "1.IH" [OF h refl refl _ d refl refl] True go2 r2 k2 "1.prems"(3) by (simp add: keepsBytes_def)
      then show ?thesis using keepsBytes_trans [OF k2 _ m2(2)] by blast
    qed
  qed
qed

text \<open>The event loop calls \<open>readable\<close> again and again, until the socket is disconnected.\<close>

fun readables :: "nat \<Rightarrow> MessageSocket \<Rightarrow> Recv list \<Rightarrow> (MessageSocket \<times> Recv list) option" where
  "readables 0 m k = Some (m, k)"
| "readables (Suc n) m k = (if ms_receiving m then do { (m, k) \<leftarrow> readable m k; readables n m k } else Some (m, k))"

text \<open>The receiver is somewhere in the stream of the frames of \<open>xs\<close>, of which the first \<open>l\<close> bytes have been sent.\<close>

definition receivingFrom :: "nat \<Rightarrow> message list \<Rightarrow> nat \<Rightarrow> MessageSocket \<Rightarrow> Recv list \<Rightarrow> bool" where
  "receivingFrom M xs l m k \<longleftrightarrow> ms_maxMessageLength m = M \<and> M < 2 ^ 32 \<and> (\<forall>x \<in> set xs. good M x) \<and> prefix (received m) xs \<and>
     (ms_receiving m \<longrightarrow> inbound_ok M (ms_inbound m) \<and> frames (received m) @ staged (ms_inbound m) @ stream k = take l (frames xs))"

lemma receiving_keeps:
  assumes "receivingFrom M xs l m k" "ms_receiving m" and kp: "keepsBytes M m k m' k'"
    and i: "ms_receiving m' \<Longrightarrow> inbound_ok M (ms_inbound m')"
  shows "receivingFrom M xs l m' k'"
proof -
  have ok: "M < 2 ^ 32" "\<forall>x \<in> set xs. good M x" "prefix (received m) xs"
    and st: "frames (received m) @ staged (ms_inbound m) @ stream k = take l (frames xs)"
    using assms(1,2) by (simp_all add: receivingFrom_def)
  obtain new u where new: "received m' = received m @ new" "\<forall>x \<in> set new. good M x" "ms_maxMessageLength m' = M"
    "frames new @ u = staged (ms_inbound m) @ stream k" "ms_receiving m' \<longrightarrow> u = staged (ms_inbound m') @ stream k'"
    using kp by (auto simp: keepsBytes_def)
  have "\<forall>x \<in> set (received m'). good M x" using new(1,2) ok(2,3) set_mono_prefix by fastforce
  moreover have eq: "frames (received m') @ u = take l (frames xs)" using st new(1,4) by simp
  ultimately have "prefix (received m') xs" using frames_prefix [OF _ ok(2)] by blast
  then show ?thesis using i eq new(3,5) ok by (auto simp: receivingFrom_def)
qed

lemma receiving_readable:
  assumes "receivingFrom M xs l m k" "ms_receiving m" "readable m k = Some (m', k')"
  shows "receivingFrom M xs l m' k'"
proof -
  have "keepsBytes M m k m' k' \<and> (ms_receiving m' \<longrightarrow> inbound_ok M (ms_inbound m'))"
    using readable_step [OF _ _ _ assms(2,3), of M] assms(1,2) by (simp add: receivingFrom_def)
  then show ?thesis using receiving_keeps [OF assms(1,2)] by blast
qed

text \<open>What is still to come is a stream of the messages that have not been received.\<close>

lemma receiving_rest:
  assumes "receivingFrom M xs l m k" "ms_receiving m"
  shows "\<exists>l'. staged (ms_inbound m) @ stream k = take l' (frames (drop (length (received m)) xs))"
proof -
  have "\<forall>x \<in> set (received m). good M x" using assms(1) set_mono_prefix unfolding receivingFrom_def by blast
  then show ?thesis using frames_prefix [of "received m" M xs] assms unfolding receivingFrom_def by blast
qed

lemma receiving_readables:
  "receivingFrom M xs l m k \<Longrightarrow> readables n m k = Some (m', k') \<Longrightarrow> receivingFrom M xs l m' k'"
proof (induction n arbitrary: m k)
  case (Suc n)
  then show ?case
    by (cases "ms_receiving m"; cases "readable m k") (auto dest: receiving_readable)
qed simp

lemma receiving_start:
  assumes "\<forall>x \<in> set xs. good M x" "M < 2 ^ 32" "stream k = take l (frames xs)"
  shows "receivingFrom M xs l (mkMessageSocket M) k"
  using assms by (simp add: receivingFrom_def mkMessageSocket_def received_def inbound_ok_def mkInbound_def staged_def
      sizeof_Header_def rawHeader_def)

section \<open>Everything arrives\<close>

text \<open>A stream of frames starts with a good header.\<close>

lemma stream_header:
  assumes "\<forall>y \<in> set ys. good M y" "s @ u = take l (frames ys)" "16 \<le> length s"
  obtains y zs where "ys = y # zs" "fromBigEndian (take 16 s) =
    \<lparr>h_fixed = 0xdaf4, h_version = 1, h_payloadLength = length (snd y), h_messageId = fst y\<rparr>"
proof (cases ys)
  case Nil
  then have "False" using assms(2,3) by (cases s) simp_all
  then show ?thesis ..
next
  case (Cons y zs)
  have l: "16 \<le> l" using assms(3) arg_cong [OF assms(2), of length] by simp
  have "take 16 s = take 16 (s @ u)" using assms(3) by simp
  also have "\<dots> = take 16 (frame y)" using l by (simp add: assms(2) Cons)
  finally show ?thesis using that [OF Cons] fromBigEndian_frame [of M y] assms(1) Cons by simp
qed

lemma receiveHeader_calm:
  assumes i: "inbound_ok M (ms_inbound m)" "ms_maxMessageLength m = M" and k: "calm k"
    and st: "staged (ms_inbound m) @ stream k = take l (frames ys)" and ys: "\<forall>y \<in> set ys. good M y"
    and less: "in_bytesRead (ms_inbound m) < 16"
  shows "\<exists>go m' k'. receiveHeader m k = Some (go, m', k') \<and> ms_receiving m' = ms_receiving m \<and> calm k' \<and>
    pendingSize k' \<le> pendingSize k \<and> (k \<noteq> [] \<longrightarrow> pendingSize k' < pendingSize k) \<and>
    (go \<longrightarrow> in_message (ms_inbound m') = [] \<and> 0 < h_payloadLength (hostHeader (ms_inbound m')) \<or> (\<exists>y \<in> set ys. snd y = []))"
proof -
  obtain b k1 where rd: "read_ms (16 - in_bytesRead (ms_inbound m)) k = Some (Some b, k1)" "calm k1"
      "pendingSize k1 \<le> pendingSize k" "k \<noteq> [] \<longrightarrow> pendingSize k1 < pendingSize k"
    using read_ms_calm [OF k, of "16 - in_bytesRead (ms_inbound m)"] less by auto
  let ?raw = "rawHeader (ms_inbound m) @ b"
  have len: "in_bytesRead (ms_inbound m) + length b = length ?raw" "length ?raw \<le> 16"
    using i less read_ms_stream(2) [OF rd(1)] by (simp_all add: inbound_ok_def)
  have raw: "?raw @ stream k1 = take l (frames ys)"
    using less st read_ms_stream(1) [OF rd(1)] by (simp add: staged_def sizeof_Header_def)
  show ?thesis
  proof (cases "length ?raw < 16")
    case True
    then show ?thesis using less rd len(1) by (auto simp: receiveHeader_def sizeof_Header_def Let_def)
  next
    case False
    then have l16: "16 \<le> length ?raw" by simp
    obtain y zs where y: "ys = y # zs" and h: "fromBigEndian (take 16 ?raw) =
        \<lparr>h_fixed = 0xdaf4, h_version = 1, h_payloadLength = length (snd y), h_messageId = fst y\<rparr>"
      using stream_header [OF ys raw l16] by blast
    then have "length (snd y) \<le> M" using ys by (simp add: good_def)
    moreover have "take 16 ?raw = ?raw" using len(2) by simp
    ultimately show ?thesis
      using less rd len(1) False h i(2) y by (auto simp: receiveHeader_def sizeof_Header_def Let_def hostHeader_def simp del: take_append)
  qed
qed

lemma receiveData_calm:
  assumes i: "header_read M (ms_inbound m)" and k: "calm k"
    and more: "length (in_message (ms_inbound m)) < h_payloadLength (hostHeader (ms_inbound m))"
  shows "\<exists>go m' k'. receiveData m k = Some (go, m', k') \<and> ms_receiving m' = ms_receiving m \<and> calm k' \<and>
    pendingSize k' \<le> pendingSize k \<and> (k \<noteq> [] \<longrightarrow> pendingSize k' < pendingSize k)"
proof -
  let ?n = "h_payloadLength (hostHeader (ms_inbound m)) - length (in_message (ms_inbound m))"
  obtain b k1 where "read_ms ?n k = Some (Some b, k1)" "calm k1" "pendingSize k1 \<le> pendingSize k" "k \<noteq> [] \<longrightarrow> pendingSize k1 < pendingSize k"
    using read_ms_calm [OF k, of ?n] more by auto
  then show ?thesis using i by (auto simp: receiveData_def sizeof_Header_def Let_def header_read_def)
qed

lemma receiveHeader_progress:
  assumes r: "receivingFrom M xs l m k" "ms_receiving m" and k: "calm k" and ne: "\<forall>x \<in> set xs. snd x \<noteq> []"
  shows "\<exists>go m' k'. receiveHeader m k = Some (go, m', k') \<and> ms_receiving m' \<and> calm k' \<and>
    pendingSize k' \<le> pendingSize k \<and> (k \<noteq> [] \<and> in_bytesRead (ms_inbound m) < 16 \<longrightarrow> pendingSize k' < pendingSize k) \<and>
    (16 \<le> in_bytesRead (ms_inbound m) \<longrightarrow> go \<and> k' = k) \<and>
    (go \<longrightarrow> length (in_message (ms_inbound m')) < h_payloadLength (hostHeader (ms_inbound m')))"
proof (cases "in_bytesRead (ms_inbound m) < 16")
  case True
  obtain l' where "staged (ms_inbound m) @ stream k = take l' (frames (drop (length (received m)) xs))"
    using receiving_rest [OF r] by blast
  moreover have "\<forall>y \<in> set (drop (length (received m)) xs). good M y" "\<not> (\<exists>y \<in> set (drop (length (received m)) xs). snd y = [])"
    using r(1) ne by (auto simp: receivingFrom_def dest: in_set_dropD)
  ultimately show ?thesis using receiveHeader_calm [of M m k] r k True by (fastforce simp: receivingFrom_def)
next
  case False
  then show ?thesis using r k by (auto simp: receiveHeader_def sizeof_Header_def receivingFrom_def inbound_ok_def)
qed

lemma readable_calm:
  assumes "receivingFrom M xs l m k" "ms_receiving m" "calm k" "\<forall>x \<in> set xs. snd x \<noteq> []"
  shows "\<exists>m' k'. readable m k = Some (m', k') \<and> ms_receiving m' \<and> calm k' \<and> pendingSize k' \<le> pendingSize k \<and>
    (k \<noteq> [] \<longrightarrow> pendingSize k' < pendingSize k)"
  using assms
proof (induction m k rule: readable.induct)
  case (1 m k)
  have ok: "inbound_ok M (ms_inbound m)" "ms_maxMessageLength m = M" "M < 2 ^ 32"
    using "1.prems"(1,2) by (simp_all add: receivingFrom_def)
  obtain go m1 k1 where h: "receiveHeader m k = Some (go, m1, k1)" "ms_receiving m1" "calm k1" "pendingSize k1 \<le> pendingSize k"
      "k \<noteq> [] \<and> in_bytesRead (ms_inbound m) < 16 \<longrightarrow> pendingSize k1 < pendingSize k" "16 \<le> in_bytesRead (ms_inbound m) \<longrightarrow> go \<and> k1 = k"
      "go \<longrightarrow> length (in_message (ms_inbound m1)) < h_payloadLength (hostHeader (ms_inbound m1))"
    using receiveHeader_progress [OF "1.prems"] by blast
  note s1 = receiveHeader_step [OF ok h(1)]
  show ?case
  proof (cases go)
    case False
    then show ?thesis using h by (auto simp: readable.simps [of m])
  next
    case True
    have m1: "header_read M (ms_inbound m1)" "ms_maxMessageLength m1 = M" using s1 True by (simp_all add: keepsBytes_def)
    obtain go2 m2 k2 where d: "receiveData m1 k1 = Some (go2, m2, k2)" "ms_receiving m2" "calm k2" "pendingSize k2 \<le> pendingSize k1"
        "k1 \<noteq> [] \<longrightarrow> pendingSize k2 < pendingSize k1"
      using receiveData_calm [OF m1(1) h(3)] h(2,7) True by auto
    note s2 = receiveData_step [OF m1 ok(3) d(1)]
    have "keepsBytes M m k m2 k2" using keepsBytes_trans [OF _ _ h(2)] s1 s2 by blast
    then have r2: "receivingFrom M xs l m2 k2" using receiving_keeps [OF "1.prems"(1,2)] s2 by blast
    have le: "pendingSize k2 \<le> pendingSize k" "k \<noteq> [] \<longrightarrow> pendingSize k2 < pendingSize k" using h(4-6) d(4,5) by (auto simp: not_less)
    show ?thesis
    proof (cases go2)
      case False
      then show ?thesis using h d le True by (auto simp: readable.simps [of m])
    next
      case go2: True
      have "\<exists>m' k'. readable m2 k2 = Some (m', k') \<and> ms_receiving m' \<and> calm k' \<and> pendingSize k' \<le> pendingSize k2 \<and>
          (k2 \<noteq> [] \<longrightarrow> pendingSize k' < pendingSize k2)"
        using "1.IH" [OF h(1) refl refl _ d(1) refl refl] True go2 r2 d(2,3) "1.prems"(4) by simp
      then show ?thesis using h(1) d(1) True go2 le by (fastforce simp: readable.simps [of m])
    qed
  qed
qed

lemma readables_calm:
  assumes "receivingFrom M xs l m k" "ms_receiving m" "calm k" "\<forall>x \<in> set xs. snd x \<noteq> []" "pendingSize k \<le> n"
  shows "\<exists>m'. readables n m k = Some (m', []) \<and> ms_receiving m'"
  using assms
proof (induction n arbitrary: m k)
  case 0
  then have "k = []" by (cases k) (auto simp: pendingSize_def split: Recv.splits)
  then show ?case using 0 by simp
next
  case (Suc n)
  obtain m1 k1 where "readable m k = Some (m1, k1)" "ms_receiving m1" "calm k1" "pendingSize k1 \<le> pendingSize k"
      "k \<noteq> [] \<longrightarrow> pendingSize k1 < pendingSize k"
    using readable_calm [OF Suc.prems(1-4)] by blast
  moreover have "receivingFrom M xs l m1 k1" using receiving_readable [OF Suc.prems(1,2)] calculation(1) by blast
  moreover have "pendingSize k1 \<le> n" using calculation Suc.prems(5) by (cases "k = []") auto
  ultimately show ?case using Suc.IH [of m1 k1] Suc.prems(2,4) by simp
qed

lemma receiving_complete:
  assumes r: "receivingFrom M xs l m []" "ms_receiving m" and l: "length (frames xs) \<le> l"
  shows "received m = xs"
proof -
  obtain ys where xs: "xs = received m @ ys" using r(1) by (auto simp: receivingFrom_def prefix_def)
  have ok: "inbound_ok M (ms_inbound m)" "\<forall>y \<in> set ys. good M y" using r xs by (auto simp: receivingFrom_def)
  have st: "staged (ms_inbound m) = frames ys" using r l by (simp add: receivingFrom_def xs)
  show ?thesis
  proof (cases ys)
    case Nil
    then show ?thesis using xs by simp
  next
    case (Cons y zs)
    let ?i = "ms_inbound m"
    have len: "16 + length (snd y) \<le> length (staged ?i)" by (simp add: st Cons)
    then have b: "16 \<le> in_bytesRead ?i" using ok(1) by (simp add: inbound_ok_def staged_def sizeof_Header_def split: if_splits)
    then have hr: "header_ok M (hostHeader ?i)" "length (in_message ?i) < h_payloadLength (hostHeader ?i)"
      using ok(1) by (auto simp: inbound_ok_def header_read_def split: if_splits)
    have "fromBigEndian (take 16 (staged ?i)) = hostHeader ?i"
      using hr(1) b by (simp add: staged_def sizeof_Header_def from_to_BigEndian header_ok_def)
    moreover have "take 16 (staged ?i) = take 16 (frame y)" by (simp add: st Cons)
    ultimately have "h_payloadLength (hostHeader ?i) = length (snd y)" using fromBigEndian_frame [of M y] ok(2) Cons by (metis Header.select_convs(3) list.set_intros(1))
    then have False using len hr(2) b by (simp add: staged_def sizeof_Header_def)
    then show ?thesis ..
  qed
qed

section \<open>The sending side\<close>

text \<open>The event loop thread is outside of \<open>writable\<close>, at the start of an iteration, or has taken a message off the queue.\<close>

datatype WriterThread = Idle | Looping | Holding Outbound

record Sender =
  sd_socket :: MessageSocket
  sd_writer :: WriterThread
  sd_kicks :: nat
  sd_wire :: string
  sd_queued :: "message list"

definition mkSender :: "nat \<Rightarrow> Sender" where
  "mkSender M = \<lparr>sd_socket = mkMessageSocket M, sd_writer = Idle, sd_kicks = 0, sd_wire = [], sd_queued = []\<rparr>"

text \<open>The steps of the threads that share the queue: any number of threads in \<open>sendMessage\<close>, of which \<open>sd_kicks\<close> are about to
  set the events, and the event loop. The kernel reports once that the socket is writable; closing waits for the
  event loop.\<close>

inductive send_step :: "Sender \<Rightarrow> Sender \<Rightarrow> bool" where
  queue: "sendMessage_queue i c (sd_socket s) = Some (kick, m) \<Longrightarrow> i < 2 ^ 64 \<Longrightarrow>
    send_step s (s\<lparr>sd_socket := m, sd_kicks := sd_kicks s + (if kick then 1 else 0), sd_queued := sd_queued s @ [(i, c)]\<rparr>)"
| kick: "0 < sd_kicks s \<Longrightarrow>
    send_step s (s\<lparr>sd_socket := sendMessage_kick (sd_socket s), sd_kicks := sd_kicks s - 1\<rparr>)"
| fire: "sd_writer s = Idle \<Longrightarrow> ms_sendEvents (sd_socket s) = EpollOneShot \<Longrightarrow>
    send_step s (s\<lparr>sd_socket := (sd_socket s)\<lparr>ms_sendEvents := NoEvents\<rparr>, sd_writer := Looping\<rparr>)"
| take_none: "sd_writer s = Looping \<Longrightarrow> writable_take (sd_socket s) = (None, m) \<Longrightarrow>
    send_step s (s\<lparr>sd_socket := m, sd_writer := Idle\<rparr>)"
| take_some: "sd_writer s = Looping \<Longrightarrow> writable_take (sd_socket s) = (Some out, m) \<Longrightarrow>
    send_step s (s\<lparr>sd_socket := m, sd_writer := Holding out\<rparr>)"
| send: "sd_writer s = Holding out \<Longrightarrow> writable_send out r (sd_socket s) = Some (go, b, m) \<Longrightarrow>
    send_step s (s\<lparr>sd_socket := m, sd_writer := (if go then Looping else Idle), sd_wire := sd_wire s @ b\<rparr>)"
| close: "sd_writer s = Idle \<Longrightarrow> send_step s (s\<lparr>sd_socket := close_ms (sd_socket s)\<rparr>)"

definition connected :: "Sender \<Rightarrow> bool" where
  "connected s \<longleftrightarrow> ms_sendEvents (sd_socket s) \<noteq> DisabledForever"

definition toSend :: "Sender \<Rightarrow> Outbound list" where
  "toSend s = (case sd_writer s of Holding out \<Rightarrow> [out] | _ \<Rightarrow> []) @ ms_outboundQueue (sd_socket s)"

definition out_ok :: "Outbound \<Rightarrow> bool" where
  "out_ok out \<longleftrightarrow> length (out_header out) = 16 \<and> out_bytesSent out < 16 + length (out_message out)"

definition send_inv :: "nat \<Rightarrow> Sender \<Rightarrow> bool" where
  "send_inv M s \<longleftrightarrow> ms_maxMessageLength (sd_socket s) = M \<and> (\<forall>x \<in> set (sd_queued s). good M x) \<and> (\<forall>out \<in> set (toSend s). out_ok out) \<and>
     prefix (sd_wire s) (frames (sd_queued s)) \<and>
     (if connected s then sd_wire s @ concat (map unsent (toSend s)) = frames (sd_queued s) else sd_writer s = Idle) \<and>
     (connected s \<and> sd_writer s = Idle \<and> ms_outboundQueue (sd_socket s) \<noteq> [] \<longrightarrow> ms_sendEvents (sd_socket s) = EpollOneShot \<or> 0 < sd_kicks s)"

lemma skipSent_drop: "concat (skipSent n xs) = drop n (concat xs)"
  by (induction n xs rule: skipSent.induct) auto

lemma unsent_drop: "unsent out = drop (out_bytesSent out) (out_header out @ out_message out)"
  by (simp add: unsent_def skipSent_drop)

lemma mkOutbound_ok: "out_ok (mkOutbound i c)" "length c < 2 ^ 32 \<Longrightarrow> unsent (mkOutbound i c) = frame (i, c)"
  by (simp_all add: out_ok_def mkOutbound_def unsent_drop frame_def)

lemma send_inv_start: "M < 2 ^ 32 \<Longrightarrow> send_inv M (mkSender M)"
  by (simp add: send_inv_def mkSender_def mkMessageSocket_def toSend_def connected_def)

lemma writable_send_unsent:
  assumes "out_ok out" "writable_send out r m = Some (go, b, m')" "ms_sendEvents m \<noteq> DisabledForever"
  shows "ms_maxMessageLength m' = ms_maxMessageLength m \<and> prefix b (unsent out) \<and>
    (if ms_sendEvents m' = DisabledForever then \<not> go \<and> ms_outboundQueue m' = ms_outboundQueue m
     else if go then unsent out = b \<and> m' = m
     else \<exists>out'. out_ok out' \<and> unsent out = b @ unsent out' \<and> ms_outboundQueue m' = out' # ms_outboundQueue m \<and>
       ms_sendEvents m' = EpollOneShot)"
proof (cases "r = SendClosed")
  case True
  then show ?thesis using assms(2) by (auto simp: writable_send_def disconnect_def)
next
  case False
  define sent where "sent = (case r of Sent n \<Rightarrow> take n (unsent out) | _ \<Rightarrow> [])"
  define out' where "out' = out\<lparr>out_bytesSent := out_bytesSent out + length sent\<rparr>"
  have p: "prefix sent (unsent out)" by (cases r) (simp_all add: sent_def take_is_prefix)
  have len: "length (unsent out) = 16 + length (out_message out) - out_bytesSent out" "out_bytesSent out < 16 + length (out_message out)"
    using assms(1) by (simp_all add: unsent_drop out_ok_def)
  have le: "out_bytesSent out' \<le> 16 + length (out_message out)" using prefix_length_le [OF p] len by (simp add: out'_def)
  have "unsent out' = drop (length sent) (unsent out)" by (simp add: unsent_drop out'_def add.commute del: drop_append)
  then have u: "unsent out = sent @ unsent out'" using p by (auto simp: prefix_def)
  have eq: "(go, b, m') = (if out_bytesSent out' \<noteq> 16 + length (out_message out)
      then (False, sent, (setEvents EpollOneShot m)\<lparr>ms_outboundQueue := out' # ms_outboundQueue m\<rparr>) else (True, sent, m))"
    using assms(2) False by (cases r) (auto simp: writable_send_def Let_def sizeof_Header_def sent_def out'_def setEvents_def split: if_splits)
  show ?thesis
  proof (cases "out_bytesSent out' = 16 + length (out_message out)")
    case True
    then have "unsent out' = []" using assms(1) by (simp add: unsent_drop out'_def out_ok_def)
    then show ?thesis using True eq u assms(3) by simp
  next
    case False
    then have "out_ok out'" using le assms(1) by (simp add: out_ok_def out'_def)
    then show ?thesis using False eq u p assms(3) by (auto simp: setEvents_def)
  qed
qed

lemma send_step_inv:
  assumes "send_step s s'" "send_inv M s" "M < 2 ^ 32"
  shows "send_inv M s'"
  using assms
proof (induction rule: send_step.induct)
  case (queue i c s kick m)
  have m: "m = (sd_socket s)\<lparr>ms_outboundQueue := ms_outboundQueue (sd_socket s) @ [mkOutbound i c]\<rparr>" "length c \<le> M"
    "kick = (ms_outboundQueue (sd_socket s) = [])"
    using queue.hyps(1) queue.prems(1) by (auto simp: sendMessage_queue_def send_inv_def split: if_splits)
  have "unsent (mkOutbound i c) = frame (i, c)" "good M (i, c)"
    using m(2) queue.hyps(2) queue.prems(2) by (simp_all add: mkOutbound_ok(2) good_def)
  moreover have "prefix (sd_wire s) (frames (sd_queued s) @ frame (i, c))" using queue.prems(1) by (auto simp: send_inv_def)
  ultimately show ?case using queue.prems(1) mkOutbound_ok(1) m
    by (cases "connected s") (auto simp: send_inv_def toSend_def connected_def)
next
  case (kick s)
  then show ?case by (auto simp: send_inv_def toSend_def connected_def sendMessage_kick_def setEvents_def split: if_splits)
next
  case (fire s)
  then show ?case by (auto simp: send_inv_def toSend_def connected_def)
next
  case (take_none s m)
  then show ?case by (auto simp: send_inv_def toSend_def connected_def writable_take_def split: list.splits if_splits)
next
  case (take_some s out m)
  then show ?case by (auto simp: send_inv_def toSend_def connected_def writable_take_def split: list.splits if_splits)
next
  case (send s out r go b m)
  have c: "connected s" and ok: "out_ok out" and w: "sd_wire s @ unsent out @ concat (map unsent (ms_outboundQueue (sd_socket s))) = frames (sd_queued s)"
    using send.hyps(1) send.prems(1) by (auto simp: send_inv_def toSend_def split: if_splits)
  note st = writable_send_unsent [OF ok send.hyps(2) c [unfolded connected_def]]
  obtain u where u: "unsent out = b @ u" using st by (auto simp: prefix_def)
  have "prefix (sd_wire s @ b) (frames (sd_queued s))" using w by (simp add: u prefixI flip: append_assoc) (metis append_assoc prefixI)
  moreover consider "ms_sendEvents m = DisabledForever" | "ms_sendEvents m \<noteq> DisabledForever" "go" | "ms_sendEvents m \<noteq> DisabledForever" "\<not> go"
    by blast
  then have "send_inv M (s\<lparr>sd_socket := m, sd_writer := (if go then Looping else Idle), sd_wire := sd_wire s @ b\<rparr>)"
  proof cases
    case 1
    then show ?thesis using send.prems(1) send.hyps(1) st calculation by (simp add: send_inv_def toSend_def connected_def)
  next
    case 2
    then have "b = unsent out" "m = sd_socket s" using st by simp_all
    then show ?thesis using 2(2) send.prems(1) send.hyps(1) w calculation c by (simp add: send_inv_def toSend_def connected_def)
  next
    case 3
    then obtain out' where "out_ok out'" "unsent out = b @ unsent out'" "ms_outboundQueue m = out' # ms_outboundQueue (sd_socket s)"
      "ms_sendEvents m = EpollOneShot" using st by auto
    then show ?thesis using 3 send.prems(1) send.hyps(1) st w calculation by (simp add: send_inv_def toSend_def connected_def)
  qed
  ultimately show ?case by blast
next
  case (close s)
  then show ?case by (auto simp: send_inv_def toSend_def connected_def close_ms_def)
qed

lemma send_steps_inv: "send_step\<^sup>*\<^sup>* (mkSender M) s \<Longrightarrow> M < 2 ^ 32 \<Longrightarrow> send_inv M s"
  by (induction rule: rtranclp_induct) (auto intro: send_inv_start send_step_inv)

text \<open>Schedules as lists of actions, to run examples.\<close>

datatype SendAction = AQueue nat string | AKick | AFire | ATake | ASend Send

fun runAction :: "SendAction \<Rightarrow> Sender \<Rightarrow> Sender option" where
  "runAction (AQueue i c) s = do {
     require (i < 2 ^ 64);
     (kick, m) \<leftarrow> sendMessage_queue i c (sd_socket s);
     Some (s\<lparr>sd_socket := m, sd_kicks := sd_kicks s + (if kick then 1 else 0), sd_queued := sd_queued s @ [(i, c)]\<rparr>)
   }"
| "runAction AKick s = do {
     require (0 < sd_kicks s);
     Some (s\<lparr>sd_socket := sendMessage_kick (sd_socket s), sd_kicks := sd_kicks s - 1\<rparr>)
   }"
| "runAction AFire s = do {
     require (sd_writer s = Idle \<and> ms_sendEvents (sd_socket s) = EpollOneShot);
     Some (s\<lparr>sd_socket := (sd_socket s)\<lparr>ms_sendEvents := NoEvents\<rparr>, sd_writer := Looping\<rparr>)
   }"
| "runAction ATake s = do {
     require (sd_writer s = Looping);
     let (out, m) = writable_take (sd_socket s);
     Some (s\<lparr>sd_socket := m, sd_writer := (case out of None \<Rightarrow> Idle | Some out \<Rightarrow> Holding out)\<rparr>)
   }"
| "runAction (ASend r) s = (case sd_writer s of
     Holding out \<Rightarrow> do {
       (go, b, m) \<leftarrow> writable_send out r (sd_socket s);
       Some (s\<lparr>sd_socket := m, sd_writer := (if go then Looping else Idle), sd_wire := sd_wire s @ b\<rparr>)
     }
   | _ \<Rightarrow> None)"

fun runActions :: "SendAction list \<Rightarrow> Sender \<Rightarrow> Sender option" where
  "runActions [] s = Some s"
| "runActions (a # as) s = do { s \<leftarrow> runAction a s; runActions as s }"

lemma runAction_step: "runAction a s = Some s' \<Longrightarrow> send_step s s'"
  by (cases a) (auto split: if_splits option.splits WriterThread.splits bind_splits prod.splits intro: send_step.intros
      send_step.queue [of _ _ s True, simplified] send_step.queue [of _ _ s False, simplified] send_step.kick [simplified]
      send_step.send [of s _ _ True, simplified] send_step.send [of s _ _ False, simplified])

lemma runActions_steps: "runActions as s = Some s' \<Longrightarrow> send_step\<^sup>*\<^sup>* s s'"
proof (induction as arbitrary: s)
  case (Cons a as)
  then obtain s1 where "runAction a s = Some s1" "runActions as s1 = Some s'" by (cases "runAction a s") auto
  then show ?case using Cons.IH runAction_step converse_rtranclp_into_rtranclp [of send_step] by blast
qed simp

text \<open>Two messages. The second one is queued while the first is being written, which takes two calls of \<open>writable\<close>.\<close>

definition demo_actions :: "SendAction list" where
  "demo_actions = [AQueue 1 ''ab'', AKick, AFire, ATake, AQueue 2 ''c'', ASend (Sent 7), AKick, AFire, ATake,
     ASend (Sent 20), ATake, ASend (Sent 17), ATake]"

definition demo_sender :: Sender where
  "demo_sender = the (runActions demo_actions (mkSender 100))"

definition demo_pieces :: "Recv list" where
  "demo_pieces = [Bytes (take 5 (sd_wire demo_sender)), TryAgain, Bytes (take 20 (drop 5 (sd_wire demo_sender))),
     Bytes (drop 25 (sd_wire demo_sender))]"

lemma demo_send_steps: "send_step\<^sup>*\<^sup>* (mkSender 100) demo_sender"
proof (rule runActions_steps)
  have "\<not> Option.is_none (runActions demo_actions (mkSender 100))" by code_simp
  then show "runActions demo_actions (mkSender 100) = Some demo_sender" by (auto simp: demo_sender_def Option.is_none_def)
qed

lemma demo_sent: "sd_queued demo_sender = [(1, ''ab''), (2, ''c'')]" "toSend demo_sender = []" "connected demo_sender"
  by code_simp+

lemma demo_pieces_ok: "calm demo_pieces" "stream demo_pieces = sd_wire demo_sender"
proof -
  have len: "length (sd_wire demo_sender) = 35" by code_simp
  then show "calm demo_pieces" by (auto simp: demo_pieces_def)
  show "stream demo_pieces = sd_wire demo_sender" by code_simp
qed

text \<open>An empty payload makes \<open>readable\<close> ask \<^verbatim>\<open>recv\<close> for no bytes. When the next message has already arrived the answer is 0, which is
  taken for the end of the connection: the socket disconnects, and neither message is handed over.\<close>

lemma empty_message_disconnects:
  "\<exists>m k. readable (mkMessageSocket 100) [Bytes (frames [(1, []), (2, ''a'')])] = Some (m, k) \<and> \<not> ms_receiving m \<and> received m = []"
proof -
  have "case readable (mkMessageSocket 100) [Bytes (frames [(1, []), (2, ''a'')])] of None \<Rightarrow> False | Some (m, k) \<Rightarrow> \<not> ms_receiving m \<and> received m = []"
    by code_simp
  then show ?thesis by (auto split: option.splits)
qed

section \<open>Properties\<close>

text \<open>C14: Messages between two sockets are delivered in order. Any number of threads queue messages while the event loop writes them in
  pieces of any size, as the kernel accepts them; the receiver gets the bytes in pieces of any size, at any times. The
  messages handed over on the other side are always a prefix of those that were queued, and are unchanged.
  When the connection stays up, all bytes have been passed on and no payload is empty, they are all of them, and the
  receiver has not disconnected.\<close>

theorem messages_in_order:
  assumes "M < 2 ^ 32" "send_step\<^sup>*\<^sup>* (mkSender M) s" "prefix (stream k) (sd_wire s)"
  shows "(\<forall>n r k'. readables n (mkMessageSocket M) k = Some (r, k') \<longrightarrow> prefix (received r) (sd_queued s)) \<and>
    (connected s \<and> toSend s = [] \<and> stream k = sd_wire s \<and> calm k \<and> (\<forall>x \<in> set (sd_queued s). snd x \<noteq> []) \<longrightarrow>
      (\<exists>r. readables (pendingSize k) (mkMessageSocket M) k = Some (r, []) \<and> ms_receiving r \<and> received r = sd_queued s))"
proof -
  have inv: "send_inv M s" using send_steps_inv assms by blast
  then have good: "\<forall>x \<in> set (sd_queued s). good M x" and "prefix (stream k) (frames (sd_queued s))"
    using assms(3) by (auto simp: send_inv_def)
  then have "stream k = take (length (stream k)) (frames (sd_queued s))" by (auto simp: prefix_def)
  then have r: "receivingFrom M (sd_queued s) (length (stream k)) (mkMessageSocket M) k" using receiving_start good assms(1) by blast
  have "prefix (received r) (sd_queued s)" if "readables n (mkMessageSocket M) k = Some (r, k')" for n r k'
    using receiving_readables [OF r that] by (simp add: receivingFrom_def)
  moreover have "\<exists>r. readables (pendingSize k) (mkMessageSocket M) k = Some (r, []) \<and> ms_receiving r \<and> received r = sd_queued s"
    if c: "connected s" "toSend s = []" "stream k = sd_wire s" "calm k" "\<forall>x \<in> set (sd_queued s). snd x \<noteq> []"
  proof -
    have "frames (sd_queued s) = stream k" using inv c(1-3) by (simp add: send_inv_def)
    moreover obtain m' where "readables (pendingSize k) (mkMessageSocket M) k = Some (m', [])" "ms_receiving m'"
      using readables_calm [OF r _ c(4,5)] by (auto simp: mkMessageSocket_def)
    ultimately show ?thesis using receiving_complete receiving_readables [OF r] by (metis order_refl)
  qed
  ultimately show ?thesis by blast
qed

theorem messages_in_order_witness:
  "\<exists>r. readables (pendingSize demo_pieces) (mkMessageSocket 100) demo_pieces = Some (r, []) \<and> received r = [(1, ''ab''), (2, ''c'')]"
  using messages_in_order [OF _ demo_send_steps, of demo_pieces] demo_sent demo_pieces_ok by auto

text \<open>C34: No message is left on the queue for ever: whenever the event loop is not in \<open>writable\<close> and the queue is not
  empty, the socket is set up to call \<open>writable\<close>, or a thread is about to set it up, unless the socket has been disconnected.\<close>

theorem no_lost_wakeup:
  assumes "M < 2 ^ 32" "send_step\<^sup>*\<^sup>* (mkSender M) s" "sd_writer s = Idle" "ms_outboundQueue (sd_socket s) \<noteq> []"
  shows "ms_sendEvents (sd_socket s) \<in> {EpollOneShot, DisabledForever} \<or> 0 < sd_kicks s"
  using send_steps_inv [OF assms(2,1)] assms(3,4) by (auto simp: send_inv_def connected_def)

theorem no_lost_wakeup_witness:
  "\<exists>s. send_step\<^sup>*\<^sup>* (mkSender 100) s \<and> sd_writer s = Idle \<and> ms_outboundQueue (sd_socket s) \<noteq> [] \<and>
    (ms_sendEvents (sd_socket s) \<in> {EpollOneShot, DisabledForever} \<or> 0 < sd_kicks s)"
proof -
  obtain s where s: "runActions (take 6 demo_actions) (mkSender 100) = Some s" "sd_writer s = Idle" "ms_outboundQueue (sd_socket s) \<noteq> []"
  proof -
    have "case runActions (take 6 demo_actions) (mkSender 100) of None \<Rightarrow> False | Some s \<Rightarrow> sd_writer s = Idle \<and> ms_outboundQueue (sd_socket s) \<noteq> []"
      by code_simp
    then show thesis using that by (auto split: option.splits)
  qed
  then show ?thesis using no_lost_wakeup [OF _ runActions_steps [OF s(1)]] s runActions_steps by force
qed

end
