(* ===== verification/LC_SessionProps.thy ===== *)
theory LC_SessionProps
  imports LC_ClientSession LC_Transport
begin

text \<open>
  A client session as a state machine: threads send requests, wait, look at their RPCs and cancel them, in any order, while the
  event loop delivers messages, timer events and the loss of the connection.
\<close>

section \<open>Steps\<close>

record Sessions =
  ss_session :: ClientSession
  ss_rpcs :: "nat \<Rightarrow> OpaqueClientRPC option"
  ss_arrived :: "(nat \<times> string) list"
  ss_canceled :: bool

definition mkSessions :: "string \<Rightarrow> nat \<Rightarrow> string \<Rightarrow> Sessions" where
  "mkSessions address maxLength err = \<lparr>ss_session = mkClientSession address maxLength err, ss_rpcs = Map.empty, ss_arrived = [], ss_canceled = False\<rparr>"

text \<open>Message numbers are not used up: there are fewer than \<open>2 ^ 64 - 2\<close> requests.\<close>

inductive session_step :: "Sessions \<Rightarrow> Sessions \<Rightarrow> bool" where
  request: "sendRequest q (ss_session s) = Some (rpc, c) \<Longrightarrow> cs_nextMessageId (ss_session s) < VERSION_MESSAGE_ID \<Longrightarrow>
    session_step s (s\<lparr>ss_session := c, ss_rpcs := (ss_rpcs s)(oc_responseToken rpc \<mapsto> rpc)\<rparr>)"
| receive: "session_step s (s\<lparr>ss_session := handleReceivedMessage_client i m (ss_session s), ss_arrived := ss_arrived s @ [(i, m)]\<rparr>)"
| disconnect: "session_step s (s\<lparr>ss_session := handleDisconnect_client (ss_session s)\<rparr>)"
| timer: "cs_timer (ss_session s) \<Longrightarrow> session_step s (s\<lparr>ss_session := handleTimerEvent (ss_session s)\<rparr>)"
| cancel: "ss_rpcs s t = Some rpc \<Longrightarrow> cancel_rpc rpc (ss_session s) = (rpc', c) \<Longrightarrow>
    session_step s (s\<lparr>ss_session := c, ss_rpcs := (ss_rpcs s)(t \<mapsto> rpc'), ss_canceled := True\<rparr>)"
| update: "ss_rpcs s t = Some rpc \<Longrightarrow> update_rpc rpc (ss_session s) = Some (rpc', c) \<Longrightarrow>
    session_step s (s\<lparr>ss_session := c, ss_rpcs := (ss_rpcs s)(t \<mapsto> rpc')\<rparr>)"
| wait: "ss_rpcs s t = Some rpc \<Longrightarrow> wait_session t late (ss_session s) = (returns, c) \<Longrightarrow>
    session_step s (s\<lparr>ss_session := c\<rparr>)"
| wake: "ss_rpcs s t = Some rpc \<Longrightarrow> session_step s (s\<lparr>ss_session := wakeUp t (ss_session s)\<rparr>)"

section \<open>Invariants\<close>

definition resp :: "ClientSession \<Rightarrow> nat \<Rightarrow> Response option" where
  "resp c = map_of (cs_responses c)"

definition rpc_ok :: "ClientSession \<Rightarrow> (nat \<times> string) list \<Rightarrow> nat \<Rightarrow> OpaqueClientRPC \<Rightarrow> bool" where
  "rpc_ok c arrived t rpc \<longleftrightarrow> oc_responseToken rpc = t \<and> t < cs_nextMessageId c \<and>
     (case oc_status rpc of
        NOT_READY \<Rightarrow> oc_session rpc \<and> (\<exists>r. resp c t = Some r \<and> rs_status r \<noteq> CANCELED_response)
      | OK_opaque \<Rightarrow> (t, oc_reply rpc) \<in> set arrived
      | ERROR_opaque \<Rightarrow> cs_errorMessage c \<noteq> []
      | CANCELED_opaque \<Rightarrow> True)"

definition session_inv :: "Sessions \<Rightarrow> bool" where
  "session_inv s \<longleftrightarrow> (let c = ss_session s in om_wf (cs_responses c) \<and> cs_nextMessageId c \<le> VERSION_MESSAGE_ID \<and>
     (\<forall>t rpc. ss_rpcs s t = Some rpc \<longrightarrow> rpc_ok c (ss_arrived s) t rpc) \<and>
     (\<forall>t r. resp c t = Some r \<longrightarrow> ss_rpcs s t \<noteq> None) \<and>
     (\<forall>t r. resp c t = Some r \<longrightarrow> rs_status r = HAS_REPLY \<longrightarrow> (t, rs_reply r) \<in> set (ss_arrived s)))"

lemma session_inv_start: "session_inv (mkSessions a l e)"
  by (simp add: session_inv_def mkSessions_def mkClientSession_def resp_def VERSION_MESSAGE_ID_def)

text \<open>A step on other RPCs leaves a handle in order.\<close>

lemma rpc_ok_mono:
  assumes "rpc_ok c a t rpc" "cs_nextMessageId c \<le> cs_nextMessageId c'" "set a \<subseteq> set a'" "cs_errorMessage c \<noteq> [] \<Longrightarrow> cs_errorMessage c' \<noteq> []"
    and "\<And>r. resp c t = Some r \<Longrightarrow> rs_status r \<noteq> CANCELED_response \<Longrightarrow> oc_status rpc = NOT_READY \<Longrightarrow>
      \<exists>r'. resp c' t = Some r' \<and> rs_status r' \<noteq> CANCELED_response"
  shows "rpc_ok c' a' t rpc"
  using assms by (auto simp: rpc_ok_def split: OpaqueStatus.splits)

text \<open>What the operations do to the responses.\<close>

lemma receive_resp:
  "resp (handleReceivedMessage_client i m c) = (case resp c i of
     Some r \<Rightarrow> if i = PING_MESSAGE_ID \<or> rs_status r = HAS_REPLY then resp c else (resp c)(i \<mapsto> r\<lparr>rs_status := HAS_REPLY, rs_reply := m\<rparr>)
   | None \<Rightarrow> resp c)"
  "cs_nextMessageId (handleReceivedMessage_client i m c) = cs_nextMessageId c"
  "cs_errorMessage (handleReceivedMessage_client i m c) = cs_errorMessage c"
  "om_wf (cs_responses c) \<Longrightarrow> om_wf (cs_responses (handleReceivedMessage_client i m c))"
  by (auto simp: handleReceivedMessage_client_def resp_def om_simps Let_def om_wf_set split: option.splits)

lemma timer_resp:
  "resp (handleTimerEvent c) = resp c" "cs_nextMessageId (handleTimerEvent c) = cs_nextMessageId c"
  "cs_errorMessage c \<noteq> [] \<Longrightarrow> cs_errorMessage (handleTimerEvent c) \<noteq> []" "cs_responses (handleTimerEvent c) = cs_responses c"
  "cs_messageSocket (handleTimerEvent c) = cs_messageSocket c"
  by (simp_all add: handleTimerEvent_def resp_def Let_def)

lemma disconnect_resp:
  "resp (handleDisconnect_client c) = resp c" "cs_nextMessageId (handleDisconnect_client c) = cs_nextMessageId c"
  "cs_errorMessage (handleDisconnect_client c) \<noteq> []" "cs_responses (handleDisconnect_client c) = cs_responses c"
  by (simp_all add: handleDisconnect_client_def resp_def)

lemma sendRequest_resp:
  assumes "sendRequest q c = Some (rpc, c')" "cs_nextMessageId c < VERSION_MESSAGE_ID"
  shows "resp c' = (resp c)(cs_nextMessageId c \<mapsto> newResponse)" "cs_nextMessageId c' = cs_nextMessageId c + 1"
    "cs_errorMessage c' = cs_errorMessage c" "om_wf (cs_responses c) \<Longrightarrow> om_wf (cs_responses c')"
    "rpc = \<lparr>oc_session = True, oc_responseToken = cs_nextMessageId c, oc_status = NOT_READY, oc_reply = [], oc_errorMessage = []\<rparr>"
  using assms
  by (auto simp: sendRequest_def resp_def om_simps Let_def om_wf_set VERSION_MESSAGE_ID_def u64_def split: if_splits)

lemma cancel_resp:
  "resp (cancel_session rpc c) t = (if t \<noteq> oc_responseToken rpc then resp c t else case resp c t of
     Some r \<Rightarrow> if rs_hasWaiter r then Some (r\<lparr>rs_status := CANCELED_response\<rparr>) else None | None \<Rightarrow> None)"
  "cs_nextMessageId (cancel_session rpc c) = cs_nextMessageId c" "cs_errorMessage (cancel_session rpc c) = cs_errorMessage c"
  "om_wf (cs_responses c) \<Longrightarrow> om_wf (cs_responses (cancel_session rpc c))"
  by (auto simp: cancel_session_def resp_def om_simps Let_def om_wf_set om_wf_erase split: option.splits)

lemma update_resp:
  assumes "update_session rpc c = Some (rpc', c')"
  shows "cs_nextMessageId c' = cs_nextMessageId c \<and> cs_errorMessage c' = cs_errorMessage c \<and>
    (om_wf (cs_responses c) \<longrightarrow> om_wf (cs_responses c')) \<and> oc_responseToken rpc' = oc_responseToken rpc \<and>
    (rpc' = rpc \<and> c' = c \<or> resp c' = (resp c)(oc_responseToken rpc := None) \<and>
      (\<exists>r. resp c (oc_responseToken rpc) = Some r \<and>
        (rs_status r = HAS_REPLY \<and> oc_status rpc' = OK_opaque \<and> oc_reply rpc' = rs_reply r \<or>
         cs_errorMessage c \<noteq> [] \<and> oc_status rpc' = ERROR_opaque)))"
  using assms by (auto simp: update_session_def resp_def om_simps om_wf_erase split: option.splits if_splits)

lemma wait_resp:
  assumes "wait_session t late c = (returns, c')"
  shows "cs_nextMessageId c' = cs_nextMessageId c \<and> cs_errorMessage c' = cs_errorMessage c \<and>
    (om_wf (cs_responses c) \<longrightarrow> om_wf (cs_responses c')) \<and>
    (c' = c \<or> (\<exists>r. resp c t = Some r \<and>
      (if rs_status r = CANCELED_response then resp c' = (resp c)(t := None) else resp c' = (resp c)(t \<mapsto> r\<lparr>rs_hasWaiter := True\<rparr>))))"
proof (cases "resp c t")
  case None
  then show ?thesis using assms by (simp add: wait_session_def resp_def)
next
  case (Some r)
  then have r: "map_of (cs_responses c) t = Some r" by (simp add: resp_def)
  show ?thesis
  proof (cases "rs_status r = CANCELED_response")
    case True
    then have "c' = c\<lparr>cs_responses := om_erase t (cs_responses c)\<rparr>" using assms r by (simp add: wait_session_def)
    then show ?thesis using Some True by (simp add: resp_def om_simps om_wf_erase)
  next
    case False
    then have "c' = c \<or> c' = c\<lparr>cs_responses := om_set t (r\<lparr>rs_hasWaiter := True\<rparr>) (cs_responses c)\<rparr>"
      using assms r by (simp add: wait_session_def split: if_splits)
    then show ?thesis using Some False by (auto simp: resp_def om_simps om_wf_set)
  qed
qed

lemma wake_resp:
  "resp (wakeUp t c) = (case resp c t of None \<Rightarrow> resp c | Some r \<Rightarrow> (resp c)(t \<mapsto> r\<lparr>rs_hasWaiter := False\<rparr>))"
  "cs_nextMessageId (wakeUp t c) = cs_nextMessageId c" "cs_errorMessage (wakeUp t c) = cs_errorMessage c"
  "om_wf (cs_responses c) \<Longrightarrow> om_wf (cs_responses (wakeUp t c))"
  by (auto simp: wakeUp_def resp_def om_simps om_wf_set split: option.splits)

lemma session_invD:
  assumes "session_inv s"
  shows "om_wf (cs_responses (ss_session s))" "cs_nextMessageId (ss_session s) \<le> VERSION_MESSAGE_ID"
    "\<And>t rpc. ss_rpcs s t = Some rpc \<Longrightarrow> rpc_ok (ss_session s) (ss_arrived s) t rpc"
    "\<And>t r. resp (ss_session s) t = Some r \<Longrightarrow> \<exists>rpc. ss_rpcs s t = Some rpc"
    "\<And>t r. resp (ss_session s) t = Some r \<Longrightarrow> rs_status r = HAS_REPLY \<Longrightarrow> (t, rs_reply r) \<in> set (ss_arrived s)"
  using assms by (auto simp: session_inv_def Let_def)

lemma session_invI:
  assumes "om_wf (cs_responses (ss_session s))" "cs_nextMessageId (ss_session s) \<le> VERSION_MESSAGE_ID"
    "\<And>t rpc. ss_rpcs s t = Some rpc \<Longrightarrow> rpc_ok (ss_session s) (ss_arrived s) t rpc"
    "\<And>t r. resp (ss_session s) t = Some r \<Longrightarrow> ss_rpcs s t \<noteq> None"
    "\<And>t r. resp (ss_session s) t = Some r \<Longrightarrow> rs_status r = HAS_REPLY \<Longrightarrow> (t, rs_reply r) \<in> set (ss_arrived s)"
  shows "session_inv s"
  using assms by (auto simp: session_inv_def Let_def)

lemma session_step_inv:
  assumes "session_step s s'" "session_inv s"
  shows "session_inv s'"
  using assms
proof (induction rule: session_step.induct)
  case (request q s rpc c)
  note iv = session_invD [OF request.prems] and sr = sendRequest_resp [OF request.hyps]
  show ?case
  proof (rule session_invI)
    fix t rpc0 assume a: "ss_rpcs (s\<lparr>ss_session := c, ss_rpcs := (ss_rpcs s)(oc_responseToken rpc \<mapsto> rpc)\<rparr>) t = Some rpc0"
    show "rpc_ok (ss_session (s\<lparr>ss_session := c, ss_rpcs := (ss_rpcs s)(oc_responseToken rpc \<mapsto> rpc)\<rparr>))
        (ss_arrived (s\<lparr>ss_session := c, ss_rpcs := (ss_rpcs s)(oc_responseToken rpc \<mapsto> rpc)\<rparr>)) t rpc0"
    proof (cases "t = cs_nextMessageId (ss_session s)")
      case True
      then show ?thesis using a sr by (auto simp: rpc_ok_def newResponse_def)
    next
      case False
      then have "ss_rpcs s t = Some rpc0" using a sr(5) by simp
      then show ?thesis using rpc_ok_mono [OF iv(3)] sr False by simp
    qed
  next
    show "\<And>t r. resp (ss_session (s\<lparr>ss_session := c, ss_rpcs := (ss_rpcs s)(oc_responseToken rpc \<mapsto> rpc)\<rparr>)) t = Some r \<Longrightarrow>
        rs_status r = HAS_REPLY \<Longrightarrow>
        (t, rs_reply r) \<in> set (ss_arrived (s\<lparr>ss_session := c, ss_rpcs := (ss_rpcs s)(oc_responseToken rpc \<mapsto> rpc)\<rparr>))"
      using sr iv(5) by (auto simp: newResponse_def split: if_splits)
  qed (use sr iv(1,2,4) request.hyps(2) in \<open>auto split: if_splits\<close>)
next
  case (receive s i m)
  note iv = session_invD [OF receive.prems]
  show ?case
    by (rule session_invI) (use iv receive_resp in \<open>auto split: option.splits if_splits intro!: rpc_ok_mono [OF iv(3)]\<close>)
next
  case (disconnect s)
  note iv = session_invD [OF disconnect.prems]
  show ?case
    by (rule session_invI) (use iv disconnect_resp in \<open>auto intro!: rpc_ok_mono [OF iv(3)]\<close>)
next
  case (timer s)
  note iv = session_invD [OF timer.prems]
  show ?case
    by (rule session_invI) (use iv timer_resp in \<open>auto intro!: rpc_ok_mono [OF iv(3)]\<close>)
next
  case (cancel s t rpc rpc' c)
  note iv = session_invD [OF cancel.prems]
  have tok: "oc_responseToken rpc = t" using iv(3) [OF cancel.hyps(1)] by (simp add: rpc_ok_def)
  show ?case
  proof (cases "oc_status rpc = NOT_READY")
    case False
    then have "rpc' = rpc" "c = ss_session s" using cancel.hyps(2) by (simp_all add: cancel_rpc_def)
    then show ?thesis using iv cancel.hyps(1) by (intro session_invI) (auto split: if_splits)
  next
    case True
    then have c: "c = cancel_session rpc (ss_session s)" "oc_status rpc' = CANCELED_opaque" "oc_responseToken rpc' = t"
      using cancel.hyps(2) iv(3) [OF cancel.hyps(1)] tok by (auto simp: cancel_rpc_def rpc_ok_def)
    have "rpc_ok c (ss_arrived s) t rpc'" using c iv(3) [OF cancel.hyps(1)] by (simp add: rpc_ok_def cancel_resp(2))
    moreover have "rpc_ok c (ss_arrived s) u rpc0" if "ss_rpcs s u = Some rpc0" "u \<noteq> t" for u rpc0
      using rpc_ok_mono [OF iv(3) [OF that(1)]] that(2) tok by (simp add: c(1) cancel_resp)
    ultimately show ?thesis
      by (intro session_invI) (use iv(1,2,4,5) tok in \<open>auto simp: c(1) cancel_resp split: if_splits option.splits\<close>)
  qed
next
  case (update s t rpc rpc' c)
  note iv = session_invD [OF update.prems]
  have tok: "oc_responseToken rpc = t" using iv(3) [OF update.hyps(1)] by (simp add: rpc_ok_def)
  show ?case
  proof (cases "update_session rpc (ss_session s) = Some (rpc', c) \<and> \<not> (rpc' = rpc \<and> c = ss_session s)")
    case False
    then have "rpc' = rpc" "c = ss_session s" using update.hyps(2) by (auto simp: update_rpc_def split: if_splits)
    then show ?thesis using iv update.hyps(1) by (intro session_invI) (auto split: if_splits)
  next
    case True
    note u = update_resp [OF conjunct1 [OF True]]
    have rs: "resp c = (resp (ss_session s))(t := None)" using u True tok by blast
    have "rpc_ok c (ss_arrived s) t rpc'" using u True tok iv(3) [OF update.hyps(1)] iv(5) by (auto simp: rpc_ok_def)
    moreover have "rpc_ok c (ss_arrived s) v rpc0" if "ss_rpcs s v = Some rpc0" "v \<noteq> t" for v rpc0
      using rpc_ok_mono [OF iv(3) [OF that(1)]] that(2) u by (simp add: rs)
    ultimately show ?thesis
      by (intro session_invI) (use iv(1,2,4,5) u rs in \<open>auto split: if_splits\<close>)
  qed
next
  case (wait s t rpc late returns c)
  note iv = session_invD [OF wait.prems] and w = wait_resp [OF wait.hyps(2)]
  show ?case
    by (rule session_invI) (use iv w in \<open>auto intro!: rpc_ok_mono [OF iv(3)] split: if_splits\<close>)
next
  case (wake s t rpc)
  note iv = session_invD [OF wake.prems]
  show ?case
    by (rule session_invI) (use iv wake_resp in \<open>auto intro!: rpc_ok_mono [OF iv(3)] split: option.splits if_splits\<close>)
qed

lemma session_steps_inv: "session_step\<^sup>*\<^sup>* (mkSessions a l e) s \<Longrightarrow> session_inv s"
  by (induction rule: rtranclp_induct) (auto intro: session_inv_start session_step_inv)

section \<open>Watching the server\<close>

text \<open>As long as no RPC is canceled, the number of active RPCs is the number of those that wait for a reply, and the timer runs
  while there are any.\<close>

definition waiting :: "ClientSession \<Rightarrow> nat set" where
  "waiting c = {t. \<exists>r. resp c t = Some r \<and> rs_status r = WAITING}"

definition watch :: "ClientSession \<Rightarrow> bool" where
  "watch c \<longleftrightarrow> (\<forall>t r. resp c t = Some r \<longrightarrow> rs_status r \<noteq> CANCELED_response \<and> t < cs_nextMessageId c) \<and>
     cs_nextMessageId c \<le> VERSION_MESSAGE_ID \<and> (cs_messageSocket c \<or> cs_errorMessage c \<noteq> []) \<and>
     (cs_errorMessage c = [] \<and> cs_nextMessageId c < 2 ^ 32 \<longrightarrow>
        cs_numActiveRPCs c = card (waiting c) \<and> (waiting c \<noteq> {} \<longrightarrow> cs_timer c))"

lemma watchI:
  assumes "\<And>t r. resp c t = Some r \<Longrightarrow> rs_status r \<noteq> CANCELED_response \<and> t < cs_nextMessageId c"
    "cs_nextMessageId c \<le> VERSION_MESSAGE_ID" "cs_messageSocket c \<or> cs_errorMessage c \<noteq> []"
    "cs_errorMessage c = [] \<Longrightarrow> cs_nextMessageId c < 2 ^ 32 \<Longrightarrow>
        cs_numActiveRPCs c = card (waiting c) \<and> (waiting c \<noteq> {} \<longrightarrow> cs_timer c)"
  shows "watch c"
  unfolding watch_def using assms by blast

lemma watchD:
  assumes "watch c"
  shows "resp c t = Some r \<Longrightarrow> rs_status r \<noteq> CANCELED_response \<and> t < cs_nextMessageId c"
    "cs_nextMessageId c \<le> VERSION_MESSAGE_ID" "cs_messageSocket c \<or> cs_errorMessage c \<noteq> []"
    "cs_errorMessage c = [] \<Longrightarrow> cs_nextMessageId c < 2 ^ 32 \<Longrightarrow>
        cs_numActiveRPCs c = card (waiting c) \<and> (waiting c \<noteq> {} \<longrightarrow> cs_timer c)"
  using assms unfolding watch_def by blast+

lemma finite_waiting: "finite (waiting c)"
proof (rule finite_subset)
  show "waiting c \<subseteq> dom (map_of (cs_responses c))" by (auto simp: waiting_def resp_def)
qed (rule finite_dom_map_of)

lemma card_waiting:
  assumes "watch c"
  shows "card (waiting c) \<le> cs_nextMessageId c"
  using card_mono [of "{..<cs_nextMessageId c}" "waiting c"] assms by (fastforce simp: watch_def waiting_def subset_eq)

lemma watch_sendRequest:
  assumes "sendRequest q c = Some (rpc, c')" "cs_nextMessageId c < VERSION_MESSAGE_ID" "watch c"
  shows "watch c'"
proof -
  note sr = sendRequest_resp [OF assms(1,2)]
  have n: "cs_numActiveRPCs c' = u32_inc (cs_numActiveRPCs c)" "cs_messageSocket c' = cs_messageSocket c"
    "cs_timer c' = (cs_timer c \<or> u32_inc (cs_numActiveRPCs c) = 1)"
    using assms(1) by (auto simp: sendRequest_def Let_def split: if_splits)
  have w: "waiting c' = insert (cs_nextMessageId c) (waiting c)" using sr(1) by (auto simp: waiting_def newResponse_def)
  have "cs_nextMessageId c \<notin> waiting c" using assms(3) by (auto simp: watch_def waiting_def)
  then have card: "card (waiting c') = card (waiting c) + 1" by (simp add: w finite_waiting)
  have "cs_numActiveRPCs c' = card (waiting c') \<and> cs_timer c'" if e: "cs_errorMessage c' = []" "cs_nextMessageId c' < 2 ^ 32"
  proof -
    have num: "cs_numActiveRPCs c = card (waiting c)" "waiting c \<noteq> {} \<longrightarrow> cs_timer c" using assms(3) e sr(2,3) by (simp_all add: watch_def)
    moreover have inc: "u32_inc (cs_numActiveRPCs c) = card (waiting c) + 1"
      using card_waiting [OF assms(3)] e(2) sr(2) num(1) by (simp add: u32_inc_def)
    ultimately show ?thesis using n card by (cases "waiting c = {}") simp_all
  qed
  moreover have "rs_status r \<noteq> CANCELED_response \<and> t < cs_nextMessageId c'" if "resp c' t = Some r" for t r
    using that sr(1,2) assms(3) by (auto simp: watch_def newResponse_def less_Suc_eq split: if_splits)
  moreover have "cs_nextMessageId c' \<le> VERSION_MESSAGE_ID" "cs_messageSocket c' \<or> cs_errorMessage c' \<noteq> []"
    using assms(2,3) sr(2,3) n(2) by (simp_all add: watch_def)
  ultimately show ?thesis unfolding watch_def by blast
qed

lemma watch_receive:
  assumes "watch c"
  shows "watch (handleReceivedMessage_client i m c)"
proof (cases "i \<noteq> PING_MESSAGE_ID \<and> (\<exists>r. resp c i = Some r \<and> rs_status r = WAITING)")
  case True
  then obtain r where r: "resp c i = Some r" "rs_status r = WAITING" "i \<noteq> PING_MESSAGE_ID" by blast
  let ?c = "handleReceivedMessage_client i m c"
  have n: "cs_numActiveRPCs ?c = u32_dec (cs_numActiveRPCs c)" "cs_messageSocket ?c = cs_messageSocket c"
    "cs_timer ?c = (u32_dec (cs_numActiveRPCs c) \<noteq> 0)"
    using r by (simp_all add: handleReceivedMessage_client_def resp_def Let_def)
  have rs: "resp ?c = (resp c)(i \<mapsto> r\<lparr>rs_status := HAS_REPLY, rs_reply := m\<rparr>)" using r by (simp add: receive_resp)
  have w: "waiting ?c = waiting c - {i}" "i \<in> waiting c" using r by (auto simp: waiting_def rs)
  then have card: "card (waiting ?c) = card (waiting c) - 1" "0 < card (waiting c)" by (auto simp: finite_waiting card_gt_0_iff)
  have "cs_numActiveRPCs ?c = card (waiting ?c) \<and> cs_timer ?c = (waiting ?c \<noteq> {})" if e: "cs_errorMessage c = []" "cs_nextMessageId c < 2 ^ 32"
  proof -
    have "cs_numActiveRPCs c = card (waiting c)" using assms e by (simp add: watch_def)
    then have "u32_dec (cs_numActiveRPCs c) = card (waiting c) - 1"
      using card_waiting [OF assms] e(2) card(2) by (simp add: u32_dec_def Suc_le_eq mod_if)
    then show ?thesis using n card finite_waiting by (metis card_0_eq)
  qed
  moreover have "rs_status r' \<noteq> CANCELED_response \<and> t < cs_nextMessageId c" if "resp ?c t = Some r'" for t r'
    using that assms r(1) by (auto simp: watch_def rs split: if_splits)
  moreover have "cs_nextMessageId c \<le> VERSION_MESSAGE_ID" "cs_messageSocket ?c \<or> cs_errorMessage c \<noteq> []"
    using assms n(2) by (simp_all add: watch_def)
  ultimately show ?thesis unfolding watch_def receive_resp(2,3) by blast
next
  case False
  have c: "resp c i = Some r \<Longrightarrow> rs_status r \<noteq> CANCELED_response" for r using assms by (simp add: watch_def)
  have "handleReceivedMessage_client i m c = c \<or> handleReceivedMessage_client i m c = c\<lparr>cs_activePing := False, cs_timer := True\<rparr>"
  proof (cases "i = PING_MESSAGE_ID")
    case True
    then show ?thesis by (simp add: handleReceivedMessage_client_def)
  next
    case ping: False
    show ?thesis
    proof (cases "resp c i")
      case (Some r)
      then have "rs_status r = HAS_REPLY" using c [OF Some] False ping by (cases "rs_status r") auto
      then show ?thesis using Some ping by (simp add: handleReceivedMessage_client_def resp_def)
    qed (use ping in \<open>simp add: handleReceivedMessage_client_def resp_def\<close>)
  qed
  then show ?thesis using assms by (auto simp: watch_def waiting_def resp_def)
qed

lemma watch_keep:
  assumes "watch c" "\<And>t r'. resp c' t = Some r' \<Longrightarrow> \<exists>r. resp c t = Some r \<and> rs_status r' = rs_status r"
    "cs_nextMessageId c' = cs_nextMessageId c" "cs_messageSocket c' = cs_messageSocket c" "cs_errorMessage c \<noteq> [] \<Longrightarrow> cs_errorMessage c' \<noteq> []"
    "cs_errorMessage c' \<noteq> [] \<or> waiting c' = waiting c \<and> cs_numActiveRPCs c' = cs_numActiveRPCs c \<and> (cs_timer c \<longrightarrow> cs_timer c')"
  shows "watch c'"
proof (rule watchI)
  fix t r assume "resp c' t = Some r"
  then show "rs_status r \<noteq> CANCELED_response \<and> t < cs_nextMessageId c'" using assms(2,3) watchD(1) [OF assms(1)] by metis
next
  assume "cs_errorMessage c' = []" "cs_nextMessageId c' < 2 ^ 32"
  then show "cs_numActiveRPCs c' = card (waiting c') \<and> (waiting c' \<noteq> {} \<longrightarrow> cs_timer c')"
    using watchD(4) [OF assms(1)] assms(3,5,6) by metis
qed (use watchD(2,3) [OF assms(1)] assms(3-5) in auto)

lemma watch_timer:
  assumes "watch c"
  shows "watch (handleTimerEvent c)"
proof (rule watchI)
  assume e: "cs_errorMessage (handleTimerEvent c) = []" "cs_nextMessageId (handleTimerEvent c) < 2 ^ 32"
  have w: "waiting (handleTimerEvent c) = waiting c" by (simp add: waiting_def timer_resp(1))
  have e': "cs_errorMessage c = []" using e(1) timer_resp(3) by blast
  then have n: "cs_messageSocket c" "cs_numActiveRPCs c = card (waiting c)" using watchD(3,4) [OF assms] e(2) timer_resp(2) by auto
  then show "cs_numActiveRPCs (handleTimerEvent c) = card (waiting (handleTimerEvent c)) \<and>
      (waiting (handleTimerEvent c) \<noteq> {} \<longrightarrow> cs_timer (handleTimerEvent c))"
    using e(1) e' finite_waiting [of c] by (simp add: w) (simp add: handleTimerEvent_def Let_def split: if_splits)
qed (use watchD(1-3) [OF assms] timer_resp in auto)

lemma watch_update:
  assumes "watch c" "update_session rpc c = Some (rpc', c')"
  shows "watch c'"
proof -
  note u = update_resp [OF assms(2)]
  have f: "cs_messageSocket c' = cs_messageSocket c" "cs_numActiveRPCs c' = cs_numActiveRPCs c" "cs_timer c' = cs_timer c"
    using assms(2) by (auto simp: update_session_def split: option.splits if_splits)
  consider "c' = c" | "cs_errorMessage c' \<noteq> []" | r where "resp c (oc_responseToken rpc) = Some r" "rs_status r = HAS_REPLY"
      "resp c' = (resp c)(oc_responseToken rpc := None)" using u by metis
  then have "cs_errorMessage c' \<noteq> [] \<or> waiting c' = waiting c" by cases (auto simp: waiting_def)
  then show ?thesis using u f by (intro watch_keep [OF assms(1)]) (auto split: if_splits)
qed

lemma watch_wait:
  assumes "watch c" "wait_session t late c = (returns, c')"
  shows "watch c'"
proof -
  note u = wait_resp [OF assms(2)]
  have f: "cs_messageSocket c' = cs_messageSocket c" "cs_numActiveRPCs c' = cs_numActiveRPCs c" "cs_timer c' = cs_timer c"
    using assms(2) by (auto simp: wait_session_def split: option.splits if_splits)
  have "rs_status r \<noteq> CANCELED_response" if "resp c t = Some r" for r using assms(1) that by (simp add: watch_def)
  then have "c' = c \<or> (\<exists>r. resp c t = Some r \<and> resp c' = (resp c)(t \<mapsto> r\<lparr>rs_hasWaiter := True\<rparr>))" using u by auto
  then show ?thesis using u f by (intro watch_keep [OF assms(1)]) (auto simp: waiting_def split: if_splits)
qed

lemma watch_wake:
  assumes "watch c"
  shows "watch (wakeUp t c)"
proof -
  have "cs_messageSocket (wakeUp t c) = cs_messageSocket c" "cs_numActiveRPCs (wakeUp t c) = cs_numActiveRPCs c" "cs_timer (wakeUp t c) = cs_timer c"
    by (auto simp: wakeUp_def split: option.splits)
  then show ?thesis
    by (intro watch_keep [OF assms]) (auto simp: wake_resp waiting_def split: option.splits if_splits)
qed

lemma watch_disconnect: "watch c \<Longrightarrow> watch (handleDisconnect_client c)"
  by (erule watch_keep) (simp_all add: disconnect_resp, simp_all add: handleDisconnect_client_def)

lemma session_step_watch:
  assumes "session_step s s'" "\<not> ss_canceled s \<longrightarrow> watch (ss_session s)"
  shows "\<not> ss_canceled s' \<longrightarrow> watch (ss_session s')"
  using assms
proof (induction rule: session_step.induct)
  case (update s t rpc rpc' c)
  then show ?case by (auto simp: update_rpc_def watch_update split: if_splits)
qed (auto simp: watch_sendRequest watch_receive watch_timer watch_wake watch_disconnect intro: watch_wait)

lemma session_steps_watch: "session_step\<^sup>*\<^sup>* (mkSessions a l e) s \<Longrightarrow> \<not> ss_canceled s \<longrightarrow> watch (ss_session s)"
proof (induction rule: rtranclp_induct)
  case base
  show ?case by (simp add: mkSessions_def mkClientSession_def watch_def waiting_def resp_def VERSION_MESSAGE_ID_def)
qed (use session_step_watch in blast)

section \<open>An example\<close>

text \<open>Two requests are sent; the second one is answered first, and the server answers a ping before it answers the first.\<close>

definition demo_request :: "string \<Rightarrow> Sessions \<Rightarrow> Sessions" where
  "demo_request q s = (case sendRequest q (ss_session s) of
     Some (rpc, c) \<Rightarrow> s\<lparr>ss_session := c, ss_rpcs := (ss_rpcs s)(oc_responseToken rpc \<mapsto> rpc)\<rparr> | None \<Rightarrow> s)"

definition demo_receive :: "nat \<Rightarrow> string \<Rightarrow> Sessions \<Rightarrow> Sessions" where
  "demo_receive i m s = s\<lparr>ss_session := handleReceivedMessage_client i m (ss_session s), ss_arrived := ss_arrived s @ [(i, m)]\<rparr>"

definition demo_update :: "nat \<Rightarrow> Sessions \<Rightarrow> Sessions" where
  "demo_update t s = (case ss_rpcs s t of Some rpc \<Rightarrow> (case update_rpc rpc (ss_session s) of
     Some (rpc', c) \<Rightarrow> s\<lparr>ss_session := c, ss_rpcs := (ss_rpcs s)(t \<mapsto> rpc')\<rparr> | None \<Rightarrow> s) | None \<Rightarrow> s)"

lemma demo_steps_session:
  "cs_nextMessageId (ss_session s) < VERSION_MESSAGE_ID \<Longrightarrow> session_step\<^sup>*\<^sup>* s (demo_request q s)"
  "session_step\<^sup>*\<^sup>* s (demo_receive i m s)" "session_step\<^sup>*\<^sup>* s (demo_update t s)"
  by (auto simp: demo_request_def demo_receive_def demo_update_def split: option.splits
      intro: session_step.request session_step.receive session_step.update)

definition demo_waiting :: Sessions where
  "demo_waiting = demo_request ''b'' (demo_request ''a'' (mkSessions ''server'' 100 []))"

definition demo_answered :: Sessions where
  "demo_answered = demo_update 1 (demo_receive 1 ''B'' demo_waiting)"

lemma demo_waiting_reachable: "session_step\<^sup>*\<^sup>* (mkSessions ''server'' 100 []) demo_waiting"
proof -
  have "session_step\<^sup>*\<^sup>* (mkSessions ''server'' 100 []) (demo_request ''a'' (mkSessions ''server'' 100 []))"
    by (rule demo_steps_session(1)) code_simp
  moreover have "session_step\<^sup>*\<^sup>* (demo_request ''a'' (mkSessions ''server'' 100 [])) demo_waiting"
    unfolding demo_waiting_def by (rule demo_steps_session(1)) code_simp
  ultimately show ?thesis by (rule rtranclp_trans)
qed

lemma demo_answered_reachable: "session_step\<^sup>*\<^sup>* (mkSessions ''server'' 100 []) demo_answered"
  unfolding demo_answered_def
  using demo_waiting_reachable demo_steps_session(2) [of demo_waiting 1 "''B''"]
    demo_steps_session(3) [of "demo_receive 1 ''B'' demo_waiting" 1] by (meson rtranclp_trans)

text \<open>A reply is counted, and so is the cancellation of an RPC whose reply has not been looked at: the number of active RPCs wraps around. The
  next request then brings it to 0 and does not start the timer, so no ping is sent while that request waits.\<close>

lemma canceled_reply_wraps:
  "let s = demo_receive 0 ''A'' (demo_request ''a'' (mkSessions ''server'' 100 []));
       c = snd (cancel_rpc (the (ss_rpcs s 0)) (ss_session s));
       c' = snd (the (sendRequest ''b'' c))
   in cs_numActiveRPCs c = 2 ^ 32 - 1 \<and> cs_numActiveRPCs c' = 0 \<and> \<not> cs_timer c' \<and> resp c' 1 = Some newResponse"
  by code_simp

section \<open>Properties\<close>

text \<open>C15: Replies are matched to requests. In every run of a session no assertion about an RPC fails, an RPC completes only with a
  message that has arrived under its own number, it fails only when the session has an error, and different
  RPCs have different numbers.\<close>

theorem replies_match_requests:
  assumes "session_step\<^sup>*\<^sup>* (mkSessions a l e) s" "ss_rpcs s t = Some rpc"
  shows "oc_responseToken rpc = t \<and> update_rpc rpc (ss_session s) \<noteq> None \<and>
    (oc_status rpc = OK_opaque \<longrightarrow> (t, oc_reply rpc) \<in> set (ss_arrived s)) \<and>
    (oc_status rpc = ERROR_opaque \<longrightarrow> cs_errorMessage (ss_session s) \<noteq> [])"
proof -
  have ok: "rpc_ok (ss_session s) (ss_arrived s) t rpc" using session_invD(3) [OF session_steps_inv [OF assms(1)] assms(2)] .
  have "update_rpc rpc (ss_session s) \<noteq> None"
    using ok by (auto simp: update_rpc_def update_session_def rpc_ok_def resp_def split: OpaqueStatus.splits)
  then show ?thesis using ok by (auto simp: rpc_ok_def)
qed

theorem replies_match_requests_witness:
  "\<exists>rpc. ss_rpcs demo_answered 1 = Some rpc \<and> oc_status rpc = OK_opaque \<and> (1, oc_reply rpc) \<in> set (ss_arrived demo_answered)"
proof -
  have "case ss_rpcs demo_answered 1 of None \<Rightarrow> False | Some rpc \<Rightarrow> oc_status rpc = OK_opaque" by code_simp
  then obtain rpc where "ss_rpcs demo_answered 1 = Some rpc" "oc_status rpc = OK_opaque" by (auto split: option.splits)
  then show ?thesis using replies_match_requests [OF demo_answered_reachable] by blast
qed

text \<open>A dead server is noticed. While no RPC has been canceled and the session has no error, the timer runs whenever an RPC waits for
  its reply, and when it fires twice without an answer to the ping in between, the session gets an error.\<close>

theorem dead_server_noticed:
  assumes "session_step\<^sup>*\<^sup>* (mkSessions a l e) s" "\<not> ss_canceled s" "cs_nextMessageId (ss_session s) < 2 ^ 32"
    and "resp (ss_session s) t = Some r" "rs_status r = WAITING" "cs_errorMessage (ss_session s) = []"
  shows "cs_timer (ss_session s) \<and> cs_timer (handleTimerEvent (ss_session s)) \<noteq> (cs_errorMessage (handleTimerEvent (ss_session s)) \<noteq> []) \<and>
    cs_errorMessage (handleTimerEvent (handleTimerEvent (ss_session s))) \<noteq> []"
proof -
  let ?c = "ss_session s"
  have w: "watch ?c" using session_steps_watch [OF assms(1)] assms(2) by blast
  have "t \<in> waiting ?c" using assms(4,5) by (auto simp: waiting_def)
  then have "cs_timer ?c" "0 < cs_numActiveRPCs ?c" "cs_messageSocket ?c"
    using watchD(3,4) [OF w] assms(3,6) finite_waiting [of ?c] by (auto simp: card_gt_0_iff)
  then show ?thesis using assms(6) by (simp add: handleTimerEvent_def Let_def)
qed

theorem dead_server_noticed_witness:
  "cs_timer (ss_session demo_waiting) \<and> cs_errorMessage (handleTimerEvent (handleTimerEvent (ss_session demo_waiting))) \<noteq> []"
proof -
  have "\<not> ss_canceled demo_waiting" "cs_nextMessageId (ss_session demo_waiting) < 2 ^ 32"
    "resp (ss_session demo_waiting) 0 = Some newResponse" "rs_status newResponse = WAITING" "cs_errorMessage (ss_session demo_waiting) = []"
    by code_simp+
  then show ?thesis using dead_server_noticed [OF demo_waiting_reachable] by blast
qed

text \<open>A request reaches its service and the answer its caller. The server reads service, operation and request from what the
  client sent; a reply, an error of the service or a rejection is decoded by the client as what it is, and at most one
  of them is sent.\<close>

theorem rpc_roundtrip:
  assumes "service < 2 ^ 16" "v < 2 ^ 8" "opCode < 2 ^ 16" "parseQ (serQ q) = Some q" "parseR (serR r) = Some r" "parseE (serE e) = Some e"
  shows "let rpc = mkServerRPC i (clientRPC_request service v opCode (serQ q)) in
    sr_active rpc \<and> sr_service rpc = service \<and> sr_opCode rpc = opCode \<and> getRequest parseQ rpc = (Some q, rpc) \<and>
    getRequest_buffer rpc = Some (Some (serQ q)) \<and>
    (\<exists>b. sr_sent (reply_rpc (serR r) rpc) = [(i, b)] \<and> decodeReply parseR parseE b = Some (RPC_OK r)) \<and>
    (\<exists>b. sr_sent (returnError (serE e) rpc) = [(i, b)] \<and> decodeReply parseR parseE b = Some (RPC_SERVICE_SPECIFIC_ERROR e)) \<and>
    (\<exists>b. sr_sent (rejectInvalidRequest rpc) = [(i, b)] \<and> decodeReply parseR parseE b = Some RPC_INVALID_REQUEST) \<and>
    (\<exists>b. sr_sent (rejectInvalidService rpc) = [(i, b)] \<and> decodeReply parseR parseE b = Some RPC_INVALID_SERVICE) \<and>
    sr_sent (reply_rpc (serR r) (rejectInvalidRequest rpc)) = sr_sent (rejectInvalidRequest rpc)"
proof -
  have d: "drop 6 (clientRPC_request service v opCode (serQ q)) = serQ q" "6 \<le> length (clientRPC_request service v opCode (serQ q))"
    by (simp_all add: clientRPC_request_def)
  show ?thesis
    using decodeReply_header [of parseR parseE _ "[]"] decodeReply_header [of parseR parseE] assms(4-6) d
    by (simp add: mkServerRPC_request [OF assms(1-3)] getRequest_def getRequest_buffer_def sizeof_RequestHeaderVersion1_def Let_def
        reply_rpc_def returnError_def rejectInvalidRequest_def rejectInvalidService_def reject_def sendReply_def)
qed

theorem rpc_roundtrip_witness:
  "let rpc = mkServerRPC 7 (clientRPC_request 1 1 3 ''q'') in sr_opCode rpc = 3 \<and>
     (\<exists>b. sr_sent (reply_rpc ''r'' rpc) = [(7, b)] \<and> decodeReply Some Some b = Some (RPC_OK ''r'' :: (string, string) ClientRPCStatus))"
  using rpc_roundtrip [of 1 1 3 Some id "''q''" Some id "''r''" Some id "''e''" 7] by (simp add: Let_def)

end
