(* ===== verification/LC_Client.thy ===== *)
theory LC_Client
  imports LC_StateMachine LC_RPC
begin

text \<open>
  The client library: \<^verbatim>\<open>src/Client/ClientImpl.cc\<close>, \<^verbatim>\<open>LeaderRPC.cc\<close>, \<^verbatim>\<open>SessionManager.cc\<close> and \<^verbatim>\<open>Backoff.cc\<close>.

  \<^item> Path names are canonicalized before they are sent.
  \<^item> \<open>ExactlyOnceRPCHelper\<close> opens a session with the cluster and numbers the read-write requests.
  \<^item> \<open>LeaderRPC\<close> finds the leader and retries until a request is answered or its time is over.
  \<^item> An operation of the library is composed of these. The call to the leader is an argument \<open>call\<close>, a function on
    the state \<open>'w\<close> of the world.

  A call to \<^verbatim>\<open>Clock::now()\<close> is an argument \<open>now\<close> of the definitions that make it.
\<close>

section \<open>Results\<close>

datatype ClientStatus = C_OK | C_INVALID_ARGUMENT | C_LOOKUP_ERROR | C_TYPE_ERROR | C_CONDITION_NOT_MET | C_TIMEOUT

record CResult =
  cr_status :: ClientStatus
  cr_error :: string

definition CResult_ok :: CResult where
  "CResult_ok = \<lparr>cr_status = C_OK, cr_error = []\<rparr>"

text \<open>\<open>treeError\<close>; the arguments are the fields of the response. \<open>PC_UNKNOWN\<close> is a status this client does not know.\<close>

fun treeError :: "PCStatus \<Rightarrow> string \<Rightarrow> CResult option" where
  "treeError PC_OK err = Some \<lparr>cr_status = C_OK, cr_error = err\<rparr>"
| "treeError PC_INVALID_ARGUMENT err = Some \<lparr>cr_status = C_INVALID_ARGUMENT, cr_error = err\<rparr>"
| "treeError PC_LOOKUP_ERROR err = Some \<lparr>cr_status = C_LOOKUP_ERROR, cr_error = err\<rparr>"
| "treeError PC_TYPE_ERROR err = Some \<lparr>cr_status = C_TYPE_ERROR, cr_error = err\<rparr>"
| "treeError PC_CONDITION_NOT_MET err = Some \<lparr>cr_status = C_CONDITION_NOT_MET, cr_error = err\<rparr>"
| "treeError PC_TIMEOUT err = Some \<lparr>cr_status = C_TIMEOUT, cr_error = err\<rparr>"
| "treeError PC_SESSION_EXPIRED err = None"
| "treeError PC_UNKNOWN err = Some \<lparr>cr_status = C_INVALID_ARGUMENT,
     cr_error = ''Did not understand status code in response. Original error was: '' @ err\<rparr>"

section \<open>Path names\<close>

type_synonym Condition = "string \<times> string"

definition setCondition :: "Condition \<Rightarrow> TreeCondition option" where
  "setCondition condition = (if fst condition \<noteq> [] then Some \<lparr>cond_path = fst condition, cond_contents = snd condition\<rparr> else None)"

text \<open>The loop of \<^verbatim>\<open>split\<close>: the components so far, the current word, and the rest of the path.\<close>

fun split :: "string list \<Rightarrow> string \<Rightarrow> string \<Rightarrow> string list" where
  "split comps word [] = (if word \<noteq> [] then comps @ [word] else comps)"
| "split comps word (c # path) =
     (if c = CHR ''/'' then (if word \<noteq> [] then split (comps @ [word]) [] path else split comps word path)
      else split comps (word @ [c]) path)"

text \<open>The loop that removes \<^verbatim>\<open>.\<close> and \<^verbatim>\<open>..\<close>; \<open>None\<close> when the path leads above the root.\<close>

function ironOut :: "string list \<Rightarrow> nat \<Rightarrow> string list option" where
  "ironOut comps i =
     (if i < length comps then
        (if comps ! i = ''..'' then
           (if i > 0 then ironOut (take (i - 1) comps @ drop (i + 1) comps) (i - 1) else None)
         else if comps ! i = ''.'' then ironOut (take i comps @ drop (i + 1) comps) i
         else ironOut comps (i + 1))
      else Some comps)"
  by pat_completeness auto
termination by (relation "measure (\<lambda>(cs, i). length cs - i)") auto

declare ironOut.simps [simp del]

definition joinPath :: "string list \<Rightarrow> string" where
  "joinPath comps = (if comps = [] then ''/'' else concat (map (\<lambda>c. ''/'' @ c) comps))"

definition canonicalize :: "string \<Rightarrow> string \<Rightarrow> CResult \<times> string" where
  "canonicalize path workingDirectory =
     (if path \<noteq> [] \<and> hd path \<noteq> CHR ''/'' \<and> (workingDirectory = [] \<or> hd workingDirectory \<noteq> CHR ''/'')
      then (\<lparr>cr_status = C_INVALID_ARGUMENT, cr_error = ''Can't use relative path '' @ quoted path @ '' from working directory '' @
              quoted workingDirectory @ '' (working directory should be an absolute path)''\<rparr>, [])
      else let comps = (if path \<noteq> [] \<and> hd path \<noteq> CHR ''/'' then split [] [] workingDirectory else []);
               comps = split comps [] path
           in case ironOut comps 0 of
                None \<Rightarrow> (\<lparr>cr_status = C_INVALID_ARGUMENT, cr_error = ''Path '' @ quoted path @ '' from working directory '' @
                  quoted workingDirectory @ '' attempts to look up directory above root (''@ quoted ''/'' @ '')''\<rparr>, [])
              | Some comps \<Rightarrow> (CResult_ok, joinPath comps))"

section \<open>Finding the leader\<close>

text \<open>Sessions are known by their identity. \<open>C_NOT_LEADER\<close> is the only error of the service that this client knows.\<close>

datatype ClientError = C_NOT_LEADER "string option" | C_OTHER_ERROR

record LeaderRPC =
  lr_isConnecting :: bool
  lr_leaderHint :: string
  lr_leaderSession :: "nat option"
  lr_failuresSinceLastSuccess :: nat

datatype 'r LeaderStatus = L_OK 'r | L_TIMEOUT | L_INVALID_REQUEST

datatype 'r CallStatus = Call_OK 'r | Call_RETRY | Call_TIMEOUT | Call_INVALID_REQUEST

definition mkLeaderRPC :: LeaderRPC where
  "mkLeaderRPC = \<lparr>lr_isConnecting = False, lr_leaderHint = [], lr_leaderSession = None, lr_failuresSinceLastSuccess = 0\<rparr>"

text \<open>\<open>getSession\<close> up to the place where it blocks: it waits for another thread, has a session, or has to
  connect to all hosts or to the one in the hint.\<close>

datatype Connect = WaitForOther | HaveSession nat | ConnectHosts | ConnectHint string

definition getSession_begin :: "LeaderRPC \<Rightarrow> Connect \<times> LeaderRPC" where
  "getSession_begin l =
     (if lr_isConnecting l then (WaitForOther, l)
      else case lr_leaderSession l of
          Some sess \<Rightarrow> (HaveSession sess, l)
        | None \<Rightarrow> (if lr_leaderHint l = [] then ConnectHosts else ConnectHint (lr_leaderHint l), l\<lparr>lr_isConnecting := True\<rparr>))"

definition getSession_end :: "nat \<Rightarrow> bool \<Rightarrow> LeaderRPC \<Rightarrow> nat \<times> LeaderRPC" where
  "getSession_end sess usedHint l =
     (sess, l\<lparr>lr_leaderSession := Some sess, lr_leaderHint := (if usedHint then [] else lr_leaderHint l), lr_isConnecting := False\<rparr>)"

definition reportFailure :: "nat \<Rightarrow> LeaderRPC \<Rightarrow> LeaderRPC" where
  "reportFailure cachedSession l =
     (if Some cachedSession \<noteq> lr_leaderSession l then l
      else l\<lparr>lr_failuresSinceLastSuccess := u64 (lr_failuresSinceLastSuccess l + 1), lr_leaderSession := None\<rparr>)"

definition reportNotLeader :: "nat \<Rightarrow> LeaderRPC \<Rightarrow> LeaderRPC" where
  "reportNotLeader cachedSession l =
     (if Some cachedSession \<noteq> lr_leaderSession l then l
      else l\<lparr>lr_failuresSinceLastSuccess := u64 (lr_failuresSinceLastSuccess l + 1), lr_leaderSession := None\<rparr>)"

definition reportRedirect :: "nat \<Rightarrow> string \<Rightarrow> LeaderRPC \<Rightarrow> LeaderRPC" where
  "reportRedirect cachedSession host l =
     (if Some cachedSession \<noteq> lr_leaderSession l then l
      else l\<lparr>lr_failuresSinceLastSuccess := u64 (lr_failuresSinceLastSuccess l + 1), lr_leaderSession := None, lr_leaderHint := host\<rparr>)"

definition reportSuccess :: "nat \<Rightarrow> LeaderRPC \<Rightarrow> LeaderRPC" where
  "reportSuccess cachedSession l =
     (if Some cachedSession \<noteq> lr_leaderSession l then l
      else if lr_failuresSinceLastSuccess l > 0 then l\<lparr>lr_failuresSinceLastSuccess := 0\<rparr> else l)"

text \<open>\<^verbatim>\<open>LeaderRPC::Call::wait\<close>, given what \<^verbatim>\<open>waitForReply\<close> returned and whether the clock is then past the timeout.\<close>

definition call_wait :: "nat \<Rightarrow> ('r, ClientError) ClientRPCStatus \<Rightarrow> bool \<Rightarrow> LeaderRPC \<Rightarrow> ('r CallStatus \<times> LeaderRPC) option" where
  "call_wait cachedSession rpcStatus late l = (let retry = (if late then Call_TIMEOUT else Call_RETRY) in
     case rpcStatus of
       RPC_OK r \<Rightarrow> Some (Call_OK r, reportSuccess cachedSession l)
     | RPC_SERVICE_SPECIFIC_ERROR err \<Rightarrow>
         (case err of
            C_NOT_LEADER (Some hint) \<Rightarrow> Some (retry, reportRedirect cachedSession hint l)
          | C_NOT_LEADER None \<Rightarrow> Some (retry, reportNotLeader cachedSession l)
          | C_OTHER_ERROR \<Rightarrow> None)
     | RPC_FAILED \<Rightarrow> Some (retry, reportFailure cachedSession l)
     | RPC_CANCELED \<Rightarrow> Some (retry, l)
     | RPC_TIMEOUT \<Rightarrow> Some (Call_TIMEOUT, l)
     | RPC_INVALID_SERVICE \<Rightarrow> None
     | RPC_INVALID_REQUEST \<Rightarrow> Some (Call_INVALID_REQUEST, l))"

text \<open>\<^verbatim>\<open>LeaderRPC::call\<close>. Each attempt is given by the session it uses and what comes of it; \<open>Blocked\<close> means that
  the attempts are not over yet.\<close>

fun leader_call :: "(nat \<times> ('r, ClientError) ClientRPCStatus \<times> bool) list \<Rightarrow> LeaderRPC \<Rightarrow> ('r LeaderStatus waitResult \<times> LeaderRPC) option" where
  "leader_call [] l = Some (Blocked, l)"
| "leader_call ((sess, rpcStatus, late) # attempts) l = do {
     (callStatus, l) \<leftarrow> call_wait sess rpcStatus late l;
     case callStatus of
       Call_OK r \<Rightarrow> Some (Done (L_OK r), l)
     | Call_TIMEOUT \<Rightarrow> Some (Done L_TIMEOUT, l)
     | Call_RETRY \<Rightarrow> leader_call attempts l
     | Call_INVALID_REQUEST \<Rightarrow> Some (Done L_INVALID_REQUEST, l)
   }"

section \<open>Verifying the recipient\<close>

text \<open>\<^verbatim>\<open>SessionManager::createSession\<close>. The cluster identifier is empty when it is not known; the request carries it when it is. The
  session is kept (\<open>True\<close>) or replaced by one with an error.\<close>

record VerifyRequest =
  vr_cluster_uuid :: "string option"
  vr_server_id :: "nat option"

record VerifyResponse =
  vs_ok :: bool
  vs_cluster_uuid :: "string option"
  vs_server_id :: "nat option"

definition verifyRequest :: "string option \<Rightarrow> nat option option \<Rightarrow> VerifyRequest" where
  "verifyRequest clusterUUID serverId = \<lparr>
     vr_cluster_uuid = (case clusterUUID of Some uuid \<Rightarrow> if uuid \<noteq> [] then Some uuid else None | None \<Rightarrow> None),
     vr_server_id = (case serverId of Some s \<Rightarrow> s | None \<Rightarrow> None)\<rparr>"

definition createSession :: "bool \<Rightarrow> bool \<Rightarrow> string option \<Rightarrow> nat option option \<Rightarrow> (VerifyResponse, ClientError) ClientRPCStatus \<Rightarrow>
    (bool \<times> string option \<times> nat option option) option" where
  "createSession hasError skipVerify clusterUUID serverId rpcStatus =
     (if hasError \<or> skipVerify then Some (\<not> hasError, clusterUUID, serverId)
      else let request = verifyRequest clusterUUID serverId in
        case rpcStatus of
          RPC_OK response \<Rightarrow>
            if vs_ok response then
              Some (True,
                (case (clusterUUID, vs_cluster_uuid response) of
                   (Some _, Some uuid) \<Rightarrow> if vr_cluster_uuid request = None \<and> uuid \<noteq> [] then Some uuid else clusterUUID
                 | _ \<Rightarrow> clusterUUID),
                (case (serverId, vs_server_id response) of
                   (Some _, Some s) \<Rightarrow> if vr_server_id request = None then Some (Some s) else serverId
                 | _ \<Rightarrow> serverId))
            else Some (False, clusterUUID, serverId)
        | RPC_FAILED \<Rightarrow> Some (False, clusterUUID, serverId)
        | RPC_TIMEOUT \<Rightarrow> Some (False, clusterUUID, serverId)
        | _ \<Rightarrow> None)"

section \<open>Limiting the rate of connections\<close>

record Backoff =
  bo_windowDuration :: int
  bo_startTimes :: "int list"

definition mkBackoff :: "nat \<Rightarrow> int \<Rightarrow> Backoff" where
  "mkBackoff windowCount windowNanos = \<lparr>bo_windowDuration = windowNanos, bo_startTimes = replicate windowCount timeMin\<rparr>"

text \<open>\<open>now\<close> and \<open>now'\<close> are the readings of the clock before and after sleeping. The result is whether the operation was marked as started,
  and \<open>None\<close> is the exception of \<^verbatim>\<open>startTimes.at(0)\<close>.\<close>

definition delayAndBegin :: "int \<Rightarrow> int \<Rightarrow> int \<Rightarrow> Backoff \<Rightarrow> (bool \<times> Backoff) option" where
  "delayAndBegin now now' timeout b =
     (if now > timeout then Some (False, b)
      else do {
        require (bo_startTimes b \<noteq> []);
        let permissible = i64 (hd (bo_startTimes b) + bo_windowDuration b);
        if permissible > now \<and> permissible > timeout then Some (False, b)
        else let now = (if permissible > now then now' else now)
             in Some (True, b\<lparr>bo_startTimes := tl (bo_startTimes b) @ [now]\<rparr>)
      })"

section \<open>Exactly-once requests\<close>

text \<open>\<^verbatim>\<open>std::set<uint64_t>\<close> is a sorted list.\<close>

record ExactlyOnceRPCHelper =
  eh_outstandingRPCNumbers :: "nat list"
  eh_clientId :: nat
  eh_nextRPCNumber :: nat
  eh_exiting :: bool
  eh_lastKeepAliveStart :: int
  eh_keepAliveInterval :: int

definition mkExactlyOnceRPCHelper :: ExactlyOnceRPCHelper where
  "mkExactlyOnceRPCHelper = \<lparr>eh_outstandingRPCNumbers = [], eh_clientId = 0, eh_nextRPCNumber = 1, eh_exiting = False,
     eh_lastKeepAliveStart = timeMin, eh_keepAliveInterval = 60 * 1000 * 1000000\<rparr>"

text \<open>Opening the session, when there is none yet. The result is \<open>False\<close> when time ran out.\<close>

type_synonym 'w leaderCall = "CommandRequest \<Rightarrow> 'w \<Rightarrow> CommandResponse LeaderStatus \<times> 'w"

definition openSession :: "'w leaderCall \<Rightarrow> int \<Rightarrow> ExactlyOnceRPCHelper \<Rightarrow> 'w \<Rightarrow> (bool \<times> ExactlyOnceRPCHelper \<times> 'w) option" where
  "openSession call now h w =
     (if eh_clientId h \<noteq> 0 then Some (True, h, w)
      else let h = h\<lparr>eh_lastKeepAliveStart := now\<rparr>;
               (r, w) = call \<lparr>cmd_tree = None, cmd_open_session = True, cmd_close_session = None, cmd_advance_version = None\<rparr> w
           in case r of
                L_OK response \<Rightarrow> do {
                  let clientId = (case response of OpenSessionResponse i \<Rightarrow> i | _ \<Rightarrow> 0);
                  require (clientId > 0);
                  Some (True, h\<lparr>eh_clientId := clientId\<rparr>, w)
                }
              | L_TIMEOUT \<Rightarrow> Some (False, h, w)
              | L_INVALID_REQUEST \<Rightarrow> None)"

definition assignRPC :: "int \<Rightarrow> ExactlyOnceRPCHelper \<Rightarrow> ExactlyOnceRPCInfo \<times> ExactlyOnceRPCHelper" where
  "assignRPC now h =
     (let h = h\<lparr>eh_lastKeepAliveStart := now\<rparr>;
          rpcNumber = eh_nextRPCNumber h;
          h = h\<lparr>eh_nextRPCNumber := u64 (rpcNumber + 1), eh_outstandingRPCNumbers := insort_insert rpcNumber (eh_outstandingRPCNumbers h)\<rparr>
      in (\<lparr>client_id = eh_clientId h, first_outstanding_rpc = hd (eh_outstandingRPCNumbers h), rpc_number = rpcNumber\<rparr>, h))"

definition getRPCInfo :: "'w leaderCall \<Rightarrow> int \<Rightarrow> int \<Rightarrow> ExactlyOnceRPCHelper \<Rightarrow> 'w \<Rightarrow>
    (ExactlyOnceRPCInfo \<times> ExactlyOnceRPCHelper \<times> 'w) option" where
  "getRPCInfo call now now' h w = do {
     (ok, h, w) \<leftarrow> openSession call now h w;
     if ok then let (info, h) = assignRPC now' h in Some (info, h, w)
     else Some (\<lparr>client_id = 0, first_outstanding_rpc = 0, rpc_number = 0\<rparr>, h, w)
   }"

definition doneWithRPC :: "ExactlyOnceRPCInfo \<Rightarrow> ExactlyOnceRPCHelper \<Rightarrow> ExactlyOnceRPCHelper" where
  "doneWithRPC info h = h\<lparr>eh_outstandingRPCNumbers := filter (\<lambda>n. n \<noteq> rpc_number info) (eh_outstandingRPCNumbers h)\<rparr>"

text \<open>An iteration of the keep-alive thread up to the call: it ends, sleeps until a time, or sends a write whose condition
  is expected to fail.\<close>

datatype KeepAlive = KeepAliveExit | KeepAliveSleep int | KeepAliveCall ReadWriteTreeRequest

definition keepAlive_begin :: "'w leaderCall \<Rightarrow> int \<Rightarrow> int \<Rightarrow> int \<Rightarrow> ExactlyOnceRPCHelper \<Rightarrow> 'w \<Rightarrow>
    (KeepAlive \<times> ExactlyOnceRPCHelper \<times> 'w) option" where
  "keepAlive_begin call now now1 now2 h w =
     (if eh_exiting h then Some (KeepAliveExit, h, w)
      else let nextKeepAlive = (if eh_keepAliveInterval h > 0 then i64 (eh_lastKeepAliveStart h + eh_keepAliveInterval h) else timeMax)
           in if now > nextKeepAlive then do {
                (info, h, w) \<leftarrow> getRPCInfo call now1 now2 h w;
                Some (KeepAliveCall \<lparr>exactly_once = info, rw_condition = setCondition (''keepalive'',
                    ''this is just a no-op to keep the client's session active; the condition is expected to fail''),
                  rw_op = WriteFileOp ''keepalive'' ''you shouldn't see this!''\<rparr>, h, w)
              }
              else Some (KeepAliveSleep nextKeepAlive, h, w))"

text \<open>After the call. A timeout or an invalid request is a \<^verbatim>\<open>PANIC\<close>.\<close>

definition keepAlive_end :: "ExactlyOnceRPCInfo \<Rightarrow> 'r CallStatus \<Rightarrow> ExactlyOnceRPCHelper \<Rightarrow> ExactlyOnceRPCHelper option" where
  "keepAlive_end info rpcStatus h = (case rpcStatus of
     Call_OK r \<Rightarrow> Some (doneWithRPC info h)
   | Call_RETRY \<Rightarrow> Some (doneWithRPC info h)
   | Call_TIMEOUT \<Rightarrow> None
   | Call_INVALID_REQUEST \<Rightarrow> None)"

definition exit_helper :: "'w leaderCall \<Rightarrow> ExactlyOnceRPCHelper \<Rightarrow> 'w \<Rightarrow> ExactlyOnceRPCHelper \<times> 'w" where
  "exit_helper call h w = (let h = h\<lparr>eh_exiting := True\<rparr> in
     if eh_clientId h > 0
     then (h, snd (call \<lparr>cmd_tree = None, cmd_open_session = False, cmd_close_session = Some (eh_clientId h), cmd_advance_version = None\<rparr> w))
     else (h, w))"

section \<open>Calls to the tree\<close>

type_synonym 'w leaderQuery = "QueryRequest \<Rightarrow> 'w \<Rightarrow> ReadOnlyTreeResponse LeaderStatus \<times> 'w"

definition timeoutMessage :: string where
  "timeoutMessage = ''Client-specified timeout elapsed''"

definition treeCall_query :: "'w leaderQuery \<Rightarrow> ReadOnlyTreeRequest \<Rightarrow> 'w \<Rightarrow> (ReadOnlyTreeResponse \<times> 'w) option" where
  "treeCall_query ask request w = (let (r, w) = ask \<lparr>q_tree = Some request\<rparr> w in
     case r of
       L_OK response \<Rightarrow> Some (response, w)
     | L_TIMEOUT \<Rightarrow> Some (\<lparr>ro_status = Some PC_TIMEOUT, ro_error = Some timeoutMessage, ro_children = [], ro_contents = None\<rparr>, w)
     | L_INVALID_REQUEST \<Rightarrow> None)"

text \<open>A request without a session has already timed out.\<close>

definition treeCall_command :: "'w leaderCall \<Rightarrow> ReadWriteTreeRequest \<Rightarrow> 'w \<Rightarrow> (ReadWriteTreeResponse \<times> 'w) option" where
  "treeCall_command call request w =
     (let (r, w) = (if client_id (exactly_once request) = 0 then (L_TIMEOUT, w)
                    else call \<lparr>cmd_tree = Some request, cmd_open_session = False, cmd_close_session = None, cmd_advance_version = None\<rparr> w) in
      case r of
        L_OK response \<Rightarrow> Some (case response of TreeResponse t \<Rightarrow> t | _ \<Rightarrow> \<lparr>rw_status = None, rw_error = None\<rparr>, w)
      | L_TIMEOUT \<Rightarrow> Some (\<lparr>rw_status = Some PC_TIMEOUT, rw_error = Some timeoutMessage\<rparr>, w)
      | L_INVALID_REQUEST \<Rightarrow> None)"

text \<open>The value of a field that may not be set: the first status, or the empty string.\<close>

definition fieldStatus :: "PCStatus option \<Rightarrow> PCStatus" where
  "fieldStatus s = (case s of Some x \<Rightarrow> x | None \<Rightarrow> PC_OK)"

definition fieldString :: "string option \<Rightarrow> string" where
  "fieldString s = (case s of Some x \<Rightarrow> x | None \<Rightarrow> [])"

text \<open>What the four read-write operations have in common: the path is canonicalized, the request numbered, sent, and
  marked as done.\<close>

definition readWriteTree :: "'w leaderCall \<Rightarrow> int \<times> int \<Rightarrow> (string \<Rightarrow> WriteOp) \<Rightarrow> string \<Rightarrow> string \<Rightarrow> Condition \<Rightarrow>
    ExactlyOnceRPCHelper \<Rightarrow> 'w \<Rightarrow> (CResult \<times> ExactlyOnceRPCHelper \<times> 'w) option" where
  "readWriteTree call clock op path workingDirectory condition h w = (let (result, realPath) = canonicalize path workingDirectory in
     if cr_status result \<noteq> C_OK then Some (result, h, w)
     else do {
       (info, h, w) \<leftarrow> getRPCInfo call (fst clock) (snd clock) h w;
       let request = \<lparr>exactly_once = info, rw_condition = setCondition condition, rw_op = op realPath\<rparr>;
       (response, w) \<leftarrow> treeCall_command call request w;
       let h = doneWithRPC (exactly_once request) h;
       if fieldStatus (rw_status response) \<noteq> PC_OK then do {
         result \<leftarrow> treeError (fieldStatus (rw_status response)) (fieldString (rw_error response));
         Some (result, h, w)
       } else Some (CResult_ok, h, w)
     })"

definition client_makeDirectory :: "'w leaderCall \<Rightarrow> int \<times> int \<Rightarrow> string \<Rightarrow> string \<Rightarrow> Condition \<Rightarrow>
    ExactlyOnceRPCHelper \<Rightarrow> 'w \<Rightarrow> (CResult \<times> ExactlyOnceRPCHelper \<times> 'w) option" where
  "client_makeDirectory call clock path = readWriteTree call clock MakeDirectoryOp path"

definition client_removeDirectory :: "'w leaderCall \<Rightarrow> int \<times> int \<Rightarrow> string \<Rightarrow> string \<Rightarrow> Condition \<Rightarrow>
    ExactlyOnceRPCHelper \<Rightarrow> 'w \<Rightarrow> (CResult \<times> ExactlyOnceRPCHelper \<times> 'w) option" where
  "client_removeDirectory call clock path = readWriteTree call clock RemoveDirectoryOp path"

definition client_write :: "'w leaderCall \<Rightarrow> int \<times> int \<Rightarrow> string \<Rightarrow> string \<Rightarrow> string \<Rightarrow> Condition \<Rightarrow>
    ExactlyOnceRPCHelper \<Rightarrow> 'w \<Rightarrow> (CResult \<times> ExactlyOnceRPCHelper \<times> 'w) option" where
  "client_write call clock path workingDirectory newContents = readWriteTree call clock (\<lambda>p. WriteFileOp p newContents) path workingDirectory"

definition client_removeFile :: "'w leaderCall \<Rightarrow> int \<times> int \<Rightarrow> string \<Rightarrow> string \<Rightarrow> Condition \<Rightarrow>
    ExactlyOnceRPCHelper \<Rightarrow> 'w \<Rightarrow> (CResult \<times> ExactlyOnceRPCHelper \<times> 'w) option" where
  "client_removeFile call clock path = readWriteTree call clock RemoveFileOp path"

definition client_listDirectory :: "'w leaderQuery \<Rightarrow> string \<Rightarrow> string \<Rightarrow> Condition \<Rightarrow> 'w \<Rightarrow> (CResult \<times> string list \<times> 'w) option" where
  "client_listDirectory ask path workingDirectory condition w = (let (result, realPath) = canonicalize path workingDirectory in
     if cr_status result \<noteq> C_OK then Some (result, [], w)
     else do {
       (response, w) \<leftarrow> treeCall_query ask \<lparr>ro_condition = setCondition condition, ro_op = ListDirectoryOp realPath\<rparr> w;
       if fieldStatus (ro_status response) \<noteq> PC_OK then do {
         result \<leftarrow> treeError (fieldStatus (ro_status response)) (fieldString (ro_error response));
         Some (result, [], w)
       } else Some (CResult_ok, ro_children response, w)
     })"

definition client_read :: "'w leaderQuery \<Rightarrow> string \<Rightarrow> string \<Rightarrow> Condition \<Rightarrow> 'w \<Rightarrow> (CResult \<times> string \<times> 'w) option" where
  "client_read ask path workingDirectory condition w = (let (result, realPath) = canonicalize path workingDirectory in
     if cr_status result \<noteq> C_OK then Some (result, [], w)
     else do {
       (response, w) \<leftarrow> treeCall_query ask \<lparr>ro_condition = setCondition condition, ro_op = ReadOp realPath\<rparr> w;
       if fieldStatus (ro_status response) \<noteq> PC_OK then do {
         result \<leftarrow> treeError (fieldStatus (ro_status response)) (fieldString (ro_error response));
         Some (result, [], w)
       } else Some (CResult_ok, fieldString (ro_contents response), w)
     })"

section \<open>Other operations\<close>

definition absTimeout :: "int \<Rightarrow> nat \<Rightarrow> int" where
  "absTimeout now relTimeoutNanos =
     (if relTimeoutNanos = 0 then timeMax
      else let then' = i64 (now + i64 (int relTimeoutNanos)) in if then' < now then timeMax else then')"

datatype GetConfigurationResult = GC_OK nat "(nat \<times> string) list" | GC_TIMEOUT string

text \<open>A response that was not filled in has no servers and the number 0.\<close>

definition client_getConfiguration :: "(nat \<times> (nat \<times> string) list) LeaderStatus \<Rightarrow> GetConfigurationResult" where
  "client_getConfiguration rpcStatus = (case rpcStatus of
     L_TIMEOUT \<Rightarrow> GC_TIMEOUT timeoutMessage
   | L_OK (identifier, servers) \<Rightarrow> GC_OK identifier servers
   | L_INVALID_REQUEST \<Rightarrow> GC_OK 0 [])"

record SetConfigurationResponse =
  sc_ok :: bool
  sc_configuration_changed :: "string option"
  sc_configuration_bad :: "(nat \<times> string) list option"

datatype ConfigurationResult = CF_OK | CF_CHANGED string | CF_BAD "(nat \<times> string) list" string | CF_TIMEOUT string

definition client_setConfiguration :: "SetConfigurationResponse LeaderStatus \<Rightarrow> ConfigurationResult option" where
  "client_setConfiguration rpcStatus = (case rpcStatus of
     L_TIMEOUT \<Rightarrow> Some (CF_TIMEOUT timeoutMessage)
   | L_INVALID_REQUEST \<Rightarrow> None
   | L_OK response \<Rightarrow>
       if sc_ok response then Some CF_OK
       else case sc_configuration_changed response of
           Some err \<Rightarrow> Some (CF_CHANGED (''configuration changed: '' @ err))
         | None \<Rightarrow> (case sc_configuration_bad response of
             Some bad \<Rightarrow> Some (CF_BAD bad ''servers slow or unavailable'')
           | None \<Rightarrow> None))"

text \<open>\<^verbatim>\<open>getServerInfo\<close> and \<^verbatim>\<open>serverControl\<close> ask one server, until it answers or time is over. An attempt is given by the status of the RPC
  and by whether the clock is then past the timeout.\<close>

fun client_serverCall :: "(('r, ClientError) ClientRPCStatus \<times> bool) list \<Rightarrow> ('r LeaderStatus) waitResult option" where
  "client_serverCall [] = Some Blocked"
| "client_serverCall ((rpcStatus, late) # attempts) = (case rpcStatus of
     RPC_OK r \<Rightarrow> Some (Done (L_OK r))
   | RPC_FAILED \<Rightarrow> if late then Some (Done L_TIMEOUT) else client_serverCall attempts
   | RPC_TIMEOUT \<Rightarrow> Some (Done L_TIMEOUT)
   | _ \<Rightarrow> None)"

end
