(* ===== verification/LC_ClientProps.thy ===== *)
theory LC_ClientProps
  imports LC_Client LC_StateMachineProps
begin

text \<open>
  What the client library promises, on its own and together with the state machine it talks to: canonical
  path names, numbered requests whose responses the servers keep, and the effect of its operations on the tree.
\<close>

section \<open>Path names\<close>

text \<open>The specification: follow the components one by one.\<close>

fun resolve :: "string list \<Rightarrow> string list \<Rightarrow> string list option" where
  "resolve at [] = Some at"
| "resolve at (c # cs) =
     (if c = ''..'' then (if at = [] then None else resolve (butlast at) cs)
      else if c = ''.'' then resolve at cs
      else resolve (at @ [c]) cs)"

lemma ironOut_resolve: "ironOut (at @ rest) (length at) = resolve at rest"
proof (induction rest arbitrary: at)
  case Nil
  then show ?case by (simp add: ironOut.simps)
next
  case (Cons c rest)
  have i: "length at < length (at @ c # rest)" "(at @ c # rest) ! length at = c" by simp_all
  have d: "drop (length at + 1) (at @ c # rest) = rest" by simp
  show ?case
  proof (cases "c = ''..''")
    case True
    have "take (length at - 1) (at @ c # rest) = butlast at" by (simp add: butlast_conv_take)
    then show ?thesis using Cons [of "butlast at"] True d
      by (subst ironOut.simps) (simp del: drop_append take_append)
  next
    case False
    then show ?thesis using Cons [of at] Cons [of "at @ [c]"] d
      by (subst ironOut.simps) simp
  qed
qed

lemma split_splitPath: "split cs w p = splitPath cs w p"
  by (induction cs w p rule: split.induct) simp_all

lemma components_split: "components s = ''root'' # split [] [] s"
  using splitPath_acc [of "[''root'']" "[]" s] by (simp add: components_def split_splitPath)

lemma split_append: "split (cs @ ds) w p = cs @ split ds w p"
  using splitPath_acc [of "cs @ ds" w p] splitPath_acc [of ds w p] by (simp add: split_splitPath)

lemma split_word: "CHR ''/'' \<notin> set c \<Longrightarrow> split cs w (c @ p) = split cs (w @ c) p"
  by (induction c arbitrary: w) auto

lemma split_clean: "c \<in> set (split [] [] p) \<Longrightarrow> cleanName c"
  using splitPath_clean [of "[]" "[]" p] by (simp add: split_splitPath)

lemma split_join: "\<forall>c \<in> set cs. cleanName c \<Longrightarrow> split ds w (concat (map (\<lambda>c. ''/'' @ c) cs)) = (if w \<noteq> [] then ds @ [w] else ds) @ cs"
  by (induction cs arbitrary: ds w) (auto simp: split_word cleanName_def)

lemma split_joinPath: "\<forall>c \<in> set cs. cleanName c \<Longrightarrow> split [] [] (joinPath cs) = cs"
  by (cases "cs = []") (simp_all add: joinPath_def split_join)

lemma validPath_joinPath: "validPath (joinPath cs)"
  by (cases cs) (simp_all add: joinPath_def validPath_def)

lemma resolve_set: "resolve at cs = Some rs \<Longrightarrow> set rs \<subseteq> set at \<union> (set cs - {''.'', ''..''})"
proof (induction cs arbitrary: at)
  case (Cons c cs)
  consider "c = ''..''" "at \<noteq> []" "resolve (butlast at) cs = Some rs" | "c = ''.''" "resolve at cs = Some rs"
    | "c \<noteq> ''..''" "c \<noteq> ''.''" "resolve (at @ [c]) cs = Some rs"
    using Cons.prems by (auto split: if_splits)
  then show ?case
  proof cases
    case 1
    then show ?thesis using Cons.IH [of "butlast at"] by (auto dest: in_set_butlastD)
  next
    case 2
    then show ?thesis using Cons.IH [of at] by auto
  next
    case 3
    then show ?thesis using Cons.IH [of "at @ [c]"] by auto
  qed
qed simp

lemma resolve_plain: "\<forall>c \<in> set cs. c \<noteq> ''.'' \<and> c \<noteq> ''..'' \<Longrightarrow> resolve at cs = Some (at @ cs)"
  by (induction cs arbitrary: at) auto

text \<open>The components that a path and a working directory stand for.\<close>

definition pathComponents :: "string \<Rightarrow> string \<Rightarrow> string list" where
  "pathComponents path wd = (if path \<noteq> [] \<and> hd path \<noteq> CHR ''/'' then split [] [] wd else []) @ split [] [] path"

text \<open>C19: Canonical path names. \<^verbatim>\<open>canonicalize\<close> fails exactly for a relative path without an absolute working directory and for a
  path that leads above the root. Otherwise its result is a valid path for the servers, whose components are those
  that are reached by following the given path, without \<^verbatim>\<open>.\<close> and \<^verbatim>\<open>..\<close>; it is its own canonical path, whatever the working directory.\<close>

theorem canonicalize_correct:
  "if path \<noteq> [] \<and> hd path \<noteq> CHR ''/'' \<and> \<not> validPath wd \<or> resolve [] (pathComponents path wd) = None
   then cr_status (fst (canonicalize path wd)) = C_INVALID_ARGUMENT
   else \<exists>rs p. resolve [] (pathComponents path wd) = Some rs \<and> canonicalize path wd = (CResult_ok, p) \<and> validPath p \<and>
     components p = ''root'' # rs \<and> ''.'' \<notin> set rs \<and> ''..'' \<notin> set rs \<and> (\<forall>wd'. canonicalize p wd' = (CResult_ok, p))"
proof (cases "path \<noteq> [] \<and> hd path \<noteq> CHR ''/'' \<and> \<not> validPath wd")
  case True
  then have "path \<noteq> [] \<and> hd path \<noteq> CHR ''/'' \<and> (wd = [] \<or> hd wd \<noteq> CHR ''/'')" by (cases wd) (auto simp: validPath_def)
  then show ?thesis using True by (simp add: canonicalize_def)
next
  case abs: False
  then have "\<not> (path \<noteq> [] \<and> hd path \<noteq> CHR ''/'' \<and> (wd = [] \<or> hd wd \<noteq> CHR ''/''))" by (cases wd) (auto simp: validPath_def)
  then have c: "canonicalize path wd = (case resolve [] (pathComponents path wd) of
      None \<Rightarrow> (\<lparr>cr_status = C_INVALID_ARGUMENT, cr_error = ''Path '' @ quoted path @ '' from working directory '' @
        quoted wd @ '' attempts to look up directory above root (''@ quoted ''/'' @ '')''\<rparr>, [])
    | Some rs \<Rightarrow> (CResult_ok, joinPath rs))"
    using split_append [of "split [] [] wd" "[]" "[]" path] ironOut_resolve [of "[]"]
    by (simp only: canonicalize_def if_not_P pathComponents_def Let_def) (simp split: option.splits)
  show ?thesis
  proof (cases "resolve [] (pathComponents path wd)")
    case None
    then show ?thesis by (simp add: c)
  next
    case (Some rs)
    have rs: "\<forall>r \<in> set rs. r \<noteq> ''.'' \<and> r \<noteq> ''..''" "\<forall>r \<in> set rs. cleanName r"
      using resolve_set [OF Some] split_clean by (auto simp: pathComponents_def split: if_splits)
    have v: "validPath (joinPath rs)" by (rule validPath_joinPath)
    moreover have "canonicalize (joinPath rs) wd' = (CResult_ok, joinPath rs)" for wd'
    proof -
      have "hd (joinPath rs) = CHR ''/''" using v by (cases "joinPath rs") (auto simp: validPath_def)
      then show ?thesis
        using split_joinPath [OF rs(2)] ironOut_resolve [of "[]" rs] resolve_plain [OF rs(1)] by (simp add: canonicalize_def)
    qed
    ultimately show ?thesis using Some abs rs split_joinPath [OF rs(2)] by (auto simp: c components_split)
  qed
qed

section \<open>Numbering requests\<close>

text \<open>The requests that a helper with an open session has given out, while threads ask for numbers and finish their requests in any order.\<close>

inductive issues :: "nat \<Rightarrow> ExactlyOnceRPCHelper \<Rightarrow> ExactlyOnceRPCInfo list \<Rightarrow> bool" for c where
  opened: "eh_outstandingRPCNumbers h = [] \<Longrightarrow> eh_nextRPCNumber h = 1 \<Longrightarrow> eh_clientId h = c \<Longrightarrow> issues c h []"
| assign: "issues c h infos \<Longrightarrow> eh_nextRPCNumber h + 1 < 2 ^ 64 \<Longrightarrow> assignRPC now h = (info, h') \<Longrightarrow> issues c h' (infos @ [info])"
| finished: "issues c h infos \<Longrightarrow> issues c (doneWithRPC info h) infos"

lemma hd_insort_insert:
  assumes "sorted xs"
  shows "hd (insort_insert (n::nat) xs) \<le> n" "x \<in> set xs \<Longrightarrow> hd (insort_insert n xs) \<le> x"
proof -
  have "hd ys \<le> y" if "sorted ys" "y \<in> set ys" for ys and y :: nat using that by (cases ys) auto
  then show "hd (insort_insert n xs) \<le> n" "x \<in> set xs \<Longrightarrow> hd (insort_insert n xs) \<le> x"
    using sorted_insort_insert [OF assms] set_insort_insert [of n xs] by blast+
qed

definition numbered_from :: "ExactlyOnceRPCHelper \<Rightarrow> nat \<Rightarrow> ExactlyOnceRPCInfo \<Rightarrow> bool" where
  "numbered_from h c i \<longleftrightarrow> client_id i = c \<and> rpc_number i < eh_nextRPCNumber h \<and> first_outstanding_rpc i \<le> rpc_number i \<and>
     (\<forall>n \<in> set (eh_outstandingRPCNumbers h). first_outstanding_rpc i \<le> n)"

lemma issues_inv:
  assumes "issues c h infos"
  shows "sorted (eh_outstandingRPCNumbers h) \<and> eh_clientId h = c \<and> (\<forall>n \<in> set (eh_outstandingRPCNumbers h). n < eh_nextRPCNumber h) \<and>
    (\<forall>i \<in> set infos. numbered_from h c i) \<and> distinct (map rpc_number infos)"
  using assms
proof induction
  case (assign h infos now info h')
  let ?n = "eh_nextRPCNumber h" and ?out = "eh_outstandingRPCNumbers h"
  have h': "eh_outstandingRPCNumbers h' = insort_insert ?n ?out" "eh_nextRPCNumber h' = ?n + 1" "eh_clientId h' = eh_clientId h"
    "info = \<lparr>client_id = eh_clientId h, first_outstanding_rpc = hd (insort_insert ?n ?out), rpc_number = ?n\<rparr>"
    using assign.hyps(2,3) by (auto simp: assignRPC_def Let_def)
  have s: "sorted ?out" using assign.IH by blast
  have "numbered_from h' c info"
    using hd_insort_insert [OF s] assign.IH by (auto simp: numbered_from_def h' set_insort_insert)
  moreover have "numbered_from h' c i" if "i \<in> set infos" for i
  proof -
    have "numbered_from h c i" using assign.IH that by blast
    then show ?thesis by (auto simp: numbered_from_def h' set_insort_insert)
  qed
  moreover have "rpc_number info \<notin> set (map rpc_number infos)" using assign.IH by (auto simp: h'(4) numbered_from_def)
  ultimately show ?case using assign.IH sorted_insort_insert [OF s, of ?n] by (auto simp: h'(1-3) set_insort_insert less_Suc_eq)
next
  case (finished h infos info)
  then show ?case by (auto simp: doneWithRPC_def numbered_from_def sorted_filter [of id, simplified])
qed simp

section \<open>The servers keep the responses a client still needs\<close>

text \<open>The commands of the client \<open>c\<close> in a log are among those its helper gave out.\<close>

definition commands_from :: "(string \<Rightarrow> CommandRequest option) \<Rightarrow> (nat \<Rightarrow> SnapItem list Entry) \<Rightarrow> nat \<Rightarrow> ExactlyOnceRPCInfo set \<Rightarrow> bool" where
  "commands_from parse log c infos \<longleftrightarrow> (\<forall>i cmd req. e_type (log i) = DATA \<longrightarrow> parse (e_command (log i)) = Some cmd \<longrightarrow>
     cmd_tree cmd = Some req \<longrightarrow> client_id (exactly_once req) = c \<longrightarrow> exactly_once req \<in> infos)"

definition first_among :: "nat \<Rightarrow> ExactlyOnceRPCInfo set \<Rightarrow> StateMachine \<Rightarrow> bool" where
  "first_among c infos sm \<longleftrightarrow> (\<forall>s. map_of (sessions sm) c = Some s \<longrightarrow> firstOutstandingRPC s \<in> insert 0 (first_outstanding_rpc ` infos))"

lemma expireResponses_among:
  "firstOutstandingRPC s \<in> insert 0 (first_outstanding_rpc ` infos) \<Longrightarrow> i \<in> infos \<Longrightarrow>
   firstOutstandingRPC (expireResponses s (first_outstanding_rpc i)) \<in> insert 0 (first_outstanding_rpc ` infos)"
  by (simp add: expireResponses_def)

lemma apply_tree_among:
  assumes "apply_tree ct req sm = Some sm'" "first_among c infos sm" "client_id (exactly_once req) = c \<Longrightarrow> exactly_once req \<in> infos"
  shows "first_among c infos sm'"
  using assms(1)
proof (cases rule: apply_tree_cases)
  case no_session
  then show ?thesis using assms(2) by simp
next
  case (duplicate s s')
  then show ?thesis using assms(2,3) expireResponses_among [of s infos] by (auto simp: first_among_def map_of_om_set split: if_splits)
next
  case (fresh s s' t resp)
  then show ?thesis using assms(2,3) expireResponses_among [of s infos] by (auto simp: first_among_def map_of_om_set split: if_splits)
qed

lemma apply_entry_among:
  assumes "apply_entry parse cfg now e sm = Some sm'" "first_among c infos sm"
    "\<And>cmd req. parse (e_command e) = Some cmd \<Longrightarrow> cmd_tree cmd = Some req \<Longrightarrow> client_id (exactly_once req) = c \<Longrightarrow> exactly_once req \<in> infos"
  shows "first_among c infos sm'"
  using assms(1)
proof (cases rule: apply_entry_cases)
  case (tree cm req)
  then show ?thesis using apply_tree_among assms(2,3) by blast
next
  case (open_session cm s)
  then show ?thesis using assms(2)
    by (auto simp: first_among_def map_of_om_set emptySession_def split: if_splits option.splits)
next
  case (close_session cm cid)
  then show ?thesis using assms(2) by (auto simp: first_among_def map_of_om_erase split: if_splits)
qed (use assms(2) in \<open>auto simp: first_among_def apply_advance_version_frame warnUnknownRequest_frame\<close>)

lemma replay_among:
  assumes "log_ok log" "commands_from parse log c infos" "j < 2 ^ 64" "replay parse log j = Some b"
  shows "first_among c infos b"
  using assms(3,4)
proof (induction j arbitrary: b)
  case 0
  then show ?case by (auto simp: first_among_def mkStateMachine_def)
next
  case (Suc j)
  obtain a where a: "replay parse log j = Some a" and core: "applyCore parse \<lparr>snapshotMinLogSize = 0, snapshotRatio = 0,
      unknownRequestMessageBackoff = 0\<rparr> 0 (log (Suc j)) a = Some b" using Suc.prems(2) by (auto elim: bind_SomeE)
  have ty: "e_type (log (Suc j)) \<noteq> SNAPSHOT" using assms(1) by (simp add: log_ok_def)
  have ra: "first_among c infos a" "sm_wf a" "lastApplied a < e_index (log (Suc j))"
    using Suc.IH [OF _ a] replay_inv [OF assms(1) _ a] Suc.prems(1) assms(1) by (auto simp: log_ok_def)
  from applyCore_cases [OF core ty] obtain sm1 where
    b: "b = (expireSessions (e_clusterTime (log (Suc j))) sm1)\<lparr>lastApplied := e_index (log (Suc j))\<rparr>"
    and c: "e_type (log (Suc j)) = SKIP \<and> sm1 = a \<or> e_type (log (Suc j)) = DATA \<and> apply_entry parse \<lparr>snapshotMinLogSize = 0, snapshotRatio = 0,
      unknownRequestMessageBackoff = 0\<rparr> 0 (log (Suc j)) a = Some sm1" .
  have "first_among c infos sm1" using c ra(1) apply_entry_among assms(2) unfolding commands_from_def by blast
  moreover have "om_wf (sessions sm1)" using c apply_entry_om_wf [OF _ ra(2,3)] ra(2) by (auto simp: sm_wf_def sessions_wf_def)
  ultimately show ?case by (auto simp: b first_among_def expireSessions_def map_of_filter_om split: if_splits option.splits)
qed

text \<open>C4: Servers keep the responses that a client still needs. The client's requests are numbered by its helper and put into the log any
  number of times, in any order. While the client has not finished with a request, every replica that has executed it
  answers with the result of the execution, as long as the session exists: its response is not among those that later
  requests allow the servers to discard.\<close>

theorem outstanding_response_kept:
  assumes log: "log_ok log" and h: "issues c h infos" and cf: "commands_from parse log c (set infos)"
    and out: "rpc_number (exactly_once req) \<in> set (eh_outstandingRPCNumbers h)" and c: "client_id (exactly_once req) = c"
    and sm: "replica parse log sm" "i = Suc (lastApplied sm)" "executes parse (log i) sm = Some (rpc_id req)"
    and cmd: "parse (e_command (log i)) = Some cmd" "cmd_tree cmd = Some req"
    and sm': "replica parse log sm'" "i \<le> lastApplied sm'" "map_of (sessions sm') c \<noteq> None"
  shows "\<exists>t resp. readWriteTreeRPC (tree sm) req = Some (t, resp) \<and> waitForResponse i cmd sm' = Some (Done (Some (TreeResponse resp)))"
proof -
  obtain a b where a: "replay parse log (lastApplied sm) = Some a" "sm_eq a sm"
    and b: "replay parse log (lastApplied sm') = Some b" "sm_eq b sm'"
    and lt: "lastApplied sm < 2 ^ 64" "lastApplied sm' < 2 ^ 64"
    using replica_replay [OF log sm(1)] replica_replay [OF log sm'(1)] by (auto simp: agrees_def)
  obtain a' where a': "replay parse log i = Some a'" using replay_prefix [OF b(1) sm'(2)] by blast
  then have core: "applyCore parse \<lparr>snapshotMinLogSize = 0, snapshotRatio = 0,
      unknownRequestMessageBackoff = 0\<rparr> 0 (log i) a = Some a'" using a(1) sm(2) by simp
  have inv: "sm_wf a" "lastApplied a < e_index (log i)" using replay_inv [OF log lt(1) a(1)] log sm(2) by (auto simp: log_ok_def)
  have "executes parse (log i) a = Some (rpc_id req)" using sm(3) executes_eq [OF a(2), of parse "log i"] by simp
  then have d: "e_type (log i) = DATA" "fresh_rpc req a" using cmd by (auto simp: executes_def split: if_splits)
  obtain t resp where r: "readWriteTreeRPC (tree a) req = Some (t, resp)" and st: "settled (rpc_id req) (TreeResponse resp) a'"
    using executes_response [OF core inv d(1) cmd d(2)] by blast
  obtain t' where t': "readWriteTreeRPC (tree sm) req = Some (t', resp)"
    using readWriteTreeRPC_same [of "tree a" "tree sm" req] a(2) r by (cases "readWriteTreeRPC (tree sm) req") (auto simp: sm_eq_def)
  have st': "settled (rpc_id req) (TreeResponse resp) sm'"
    using replay_settled [OF log st sm'(2) lt(2) a' b(1)] settled_eq [OF b(2)] by simp
  obtain s where s: "map_of (sessions sm') c = Some s" using sm'(3) by blast
  have "firstOutstandingRPC s \<in> insert 0 (first_outstanding_rpc ` set infos)"
    using replay_among [OF log cf lt(2) b(1)] b(2) s by (auto simp: first_among_def sm_eq_def)
  then have "firstOutstandingRPC s \<le> rpc_number (exactly_once req)" using issues_inv [OF h] out by (auto simp: numbered_from_def)
  then have "map_of (responses s) (rpc_number (exactly_once req)) = Some (TreeResponse resp)"
    using st' s c by (auto simp: settled_def consumed_def rpc_id_def)
  moreover obtain v where "getVersion sm' i = Some v"
    using getVersion_total agrees_inv(1) [OF log replica_replay [OF log sm'(1)]] by blast
  ultimately show ?thesis using t' s c sm'(2) cmd(2) by (simp add: waitForResponse_def Let_def)
qed

text \<open>The client of the example log: it has opened its session and sent one request.\<close>

definition demo_helper :: ExactlyOnceRPCHelper where
  "demo_helper = snd (assignRPC 0 (mkExactlyOnceRPCHelper\<lparr>eh_clientId := 1\<rparr>))"

lemma demo_issues: "issues 1 demo_helper [exactly_once demo_write]"
proof -
  have "assignRPC 0 (mkExactlyOnceRPCHelper\<lparr>eh_clientId := 1\<rparr>) = (exactly_once demo_write, demo_helper)" unfolding demo_helper_def by code_simp
  moreover have "issues 1 (mkExactlyOnceRPCHelper\<lparr>eh_clientId := 1\<rparr>) []" by (rule issues.opened) (simp_all add: mkExactlyOnceRPCHelper_def)
  ultimately show ?thesis using issues.assign [of 1 _ "[]"] by (simp add: mkExactlyOnceRPCHelper_def)
qed

theorem outstanding_response_kept_witness:
  "\<exists>t resp. readWriteTreeRPC (tree demo_sm1) demo_write = Some (t, resp) \<and>
     waitForResponse 2 demo_command demo_loaded = Some (Done (Some (TreeResponse resp)))"
proof -
  have cf: "commands_from demo_parse demo_log 1 (set [exactly_once demo_write])"
    by (auto simp: commands_from_def demo_log_def demo_parse_def demo_command_def)
  have out: "rpc_number (exactly_once demo_write) \<in> set (eh_outstandingRPCNumbers demo_helper)" "client_id (exactly_once demo_write) = 1"
    by code_simp+
  have x: "executes demo_parse (demo_log 2) demo_sm1 = Some (rpc_id demo_write)" "2 = Suc (lastApplied demo_sm1)" by code_simp+
  have p: "demo_parse (e_command (demo_log 2)) = Some demo_command" "cmd_tree demo_command = Some demo_write"
    by code_simp (simp add: demo_command_def)
  have e: "2 \<le> lastApplied demo_loaded" "\<not> Option.is_none (map_of (sessions demo_loaded) 1)" by code_simp+
  show ?thesis
    using outstanding_response_kept [OF demo_log_ok demo_issues cf out demo_replicas(2) x(2,1) p demo_replicas(4) e(1)] e(2)
    by (simp add: Option.is_none_def)
qed

end
