(* ===== verification/LC_Serialize.thy ===== *)
theory LC_Serialize
  imports LC_Client
begin

text \<open>
  A serialization of the messages of clients, for the examples: theorems about requests and responses assume that what has been
  serialized is parsed again, and here are functions with which it is.
\<close>

text \<open>A number is written in unary, a string with a mark before every character.\<close>

definition encNat :: "nat \<Rightarrow> string" where
  "encNat n = replicate n CHR ''1'' @ ''0''"

fun decNat :: "string \<Rightarrow> (nat \<times> string) option" where
  "decNat [] = None"
| "decNat (c # s) = (if c = CHR ''1'' then map_option (\<lambda>(n, s). (Suc n, s)) (decNat s) else Some (0, s))"

definition encString :: "string \<Rightarrow> string" where
  "encString x = concat (map (\<lambda>c. [CHR ''1'', c]) x) @ ''0''"

fun decString :: "string \<Rightarrow> (string \<times> string) option" where
  "decString (c # d # s) = (if c = CHR ''1'' then map_option (\<lambda>(x, s). (d # x, s)) (decString s) else Some ([], d # s))"
| "decString [c] = Some ([], [])"
| "decString [] = None"

fun encOption :: "('a \<Rightarrow> string) \<Rightarrow> 'a option \<Rightarrow> string" where
  "encOption e None = ''0''"
| "encOption e (Some x) = ''1'' @ e x"

fun decOption :: "(string \<Rightarrow> ('a \<times> string) option) \<Rightarrow> string \<Rightarrow> ('a option \<times> string) option" where
  "decOption d [] = None"
| "decOption d (c # s) = (if c = CHR ''1'' then map_option (\<lambda>(x, s). (Some x, s)) (d s) else Some (None, s))"

lemma decode_simps:
  "decNat (encNat n @ s) = Some (n, s)" "decString (encString x @ s) = Some (x, s)"
  "(\<And>y s. d (e y @ s) = Some (y, s)) \<Longrightarrow> decOption d (encOption e m @ s) = Some (m, s)"
proof -
  show "decNat (encNat n @ s) = Some (n, s)" by (induction n) (simp_all add: encNat_def)
  show "decString (encString x @ s) = Some (x, s)" by (induction x) (cases s; simp add: encString_def)+
  show "decOption d (encOption e m @ s) = Some (m, s)" if "\<And>y s. d (e y @ s) = Some (y, s)" using that by (cases m) simp_all
qed

fun encOp :: "WriteOp \<Rightarrow> string" where
  "encOp (MakeDirectoryOp p) = encNat 0 @ encString p"
| "encOp (RemoveDirectoryOp p) = encNat 1 @ encString p"
| "encOp (WriteFileOp p c) = encNat 2 @ encString p @ encString c"
| "encOp (RemoveFileOp p) = encNat 3 @ encString p"
| "encOp NoWrite = encNat 4"

definition decOp :: "string \<Rightarrow> (WriteOp \<times> string) option" where
  "decOp s = do {
     (n, s) \<leftarrow> decNat s;
     if n = 4 then Some (NoWrite, s) else do {
       (p, s) \<leftarrow> decString s;
       if n = 2 then do { (c, s) \<leftarrow> decString s; Some (WriteFileOp p c, s) }
       else Some (if n = 0 then MakeDirectoryOp p else if n = 1 then RemoveDirectoryOp p else RemoveFileOp p, s)
     } }"

definition encTree :: "ReadWriteTreeRequest \<Rightarrow> string" where
  "encTree r = encNat (client_id (exactly_once r)) @ encNat (first_outstanding_rpc (exactly_once r)) @ encNat (rpc_number (exactly_once r)) @
     encOption (\<lambda>k. encString (cond_path k) @ encString (cond_contents k)) (rw_condition r) @ encOp (rw_op r)"

definition decCondition :: "string \<Rightarrow> (TreeCondition \<times> string) option" where
  "decCondition s = do { (p, s) \<leftarrow> decString s; (c, s) \<leftarrow> decString s; Some (\<lparr>cond_path = p, cond_contents = c\<rparr>, s) }"

definition decTree :: "string \<Rightarrow> (ReadWriteTreeRequest \<times> string) option" where
  "decTree s = do {
     (i, s) \<leftarrow> decNat s; (f, s) \<leftarrow> decNat s; (n, s) \<leftarrow> decNat s;
     (k, s) \<leftarrow> decOption decCondition s;
     (op, s) \<leftarrow> decOp s;
     Some (\<lparr>exactly_once = \<lparr>client_id = i, first_outstanding_rpc = f, rpc_number = n\<rparr>, rw_condition = k, rw_op = op\<rparr>, s) }"

definition demo_ser :: "CommandRequest \<Rightarrow> string" where
  "demo_ser c = encOption encTree (cmd_tree c) @ encNat (if cmd_open_session c then 1 else 0) @
     encOption encNat (cmd_close_session c) @ encOption encNat (cmd_advance_version c)"

definition demo_deser :: "string \<Rightarrow> CommandRequest option" where
  "demo_deser s = do {
     (t, s) \<leftarrow> decOption decTree s; (opn, s) \<leftarrow> decNat s; (cl, s) \<leftarrow> decOption decNat s; (v, s) \<leftarrow> decOption decNat s;
     Some \<lparr>cmd_tree = t, cmd_open_session = (opn = 1), cmd_close_session = cl, cmd_advance_version = v\<rparr> }"

lemma demo_codec: "demo_deser (demo_ser cmd) = Some cmd"
proof -
  have k: "decCondition ((encString (cond_path k) @ encString (cond_contents k)) @ s) = Some (k, s)" for k :: TreeCondition and s
    by (simp add: decCondition_def decode_simps)
  have o: "decOp (encOp op @ s) = Some (op, s)" for op s by (cases op) (simp_all add: decOp_def decode_simps)
  have t: "decTree (encTree r @ s) = Some (r, s)" for r s
    using o decode_simps(3) [of decCondition, OF k] by (simp add: decTree_def encTree_def decode_simps)
  show ?thesis
    using decode_simps(3) [of decTree encTree, OF t] decode_simps(3) [of decNat encNat, OF decode_simps(1)]
      decode_simps(3) [of decNat encNat "cmd_advance_version cmd" "[]", OF decode_simps(1)]
    by (simp add: demo_deser_def demo_ser_def decode_simps(1))
qed

fun statusNat :: "PCStatus \<Rightarrow> nat" where
  "statusNat PC_OK = 0"
| "statusNat PC_INVALID_ARGUMENT = 1"
| "statusNat PC_LOOKUP_ERROR = 2"
| "statusNat PC_TYPE_ERROR = 3"
| "statusNat PC_CONDITION_NOT_MET = 4"
| "statusNat PC_TIMEOUT = 5"
| "statusNat PC_SESSION_EXPIRED = 6"
| "statusNat PC_UNKNOWN = 7"

definition natStatus :: "nat \<Rightarrow> PCStatus" where
  "natStatus n = [PC_OK, PC_INVALID_ARGUMENT, PC_LOOKUP_ERROR, PC_TYPE_ERROR, PC_CONDITION_NOT_MET, PC_TIMEOUT, PC_SESSION_EXPIRED, PC_UNKNOWN] ! n"

lemma natStatus_statusNat [simp]: "natStatus (statusNat s) = s"
  by (cases s) (simp_all add: natStatus_def)

fun demo_serResponse :: "CommandResponse \<Rightarrow> string" where
  "demo_serResponse (TreeResponse r) = encNat 0 @ encOption (\<lambda>s. encNat (statusNat s)) (rw_status r) @ encOption encString (rw_error r)"
| "demo_serResponse (OpenSessionResponse n) = encNat 1 @ encNat n"
| "demo_serResponse CloseSessionResponse = encNat 2 @ encNat 0"
| "demo_serResponse (AdvanceVersionResponse n) = encNat 3 @ encNat n"

definition decStatus :: "string \<Rightarrow> (PCStatus \<times> string) option" where
  "decStatus s = map_option (\<lambda>(n, s). (natStatus n, s)) (decNat s)"

definition demo_parseResponse :: "string \<Rightarrow> CommandResponse option" where
  "demo_parseResponse s = do {
     (tag, s) \<leftarrow> decNat s;
     if tag = 0 then do {
       (st, s) \<leftarrow> decOption decStatus s;
       (err, s) \<leftarrow> decOption decString s;
       Some (TreeResponse \<lparr>rw_status = st, rw_error = err\<rparr>)
     } else do {
       (n, s) \<leftarrow> decNat s;
       Some (if tag = 1 then OpenSessionResponse n else if tag = 2 then CloseSessionResponse else AdvanceVersionResponse n)
     } }"

lemma demo_response_codec: "demo_parseResponse (demo_serResponse r) = Some r"
proof -
  have s: "decStatus (encNat (statusNat x) @ s) = Some (x, s)" for x s by (simp add: decStatus_def decode_simps)
  have n: "decNat (encNat m) = Some (m, [])" for m using decode_simps(1) [of m "[]"] by simp
  have e: "decOption decString (encOption encString m) = Some (m, [])" for m
    using decode_simps(3) [of decString encString m "[]", OF decode_simps(2)] by simp
  show ?thesis using decode_simps(3) [of decStatus "\<lambda>s. encNat (statusNat s)", OF s] e n
    by (cases r) (simp_all add: demo_parseResponse_def decode_simps(1))
qed

fun demo_serError :: "ClientError \<Rightarrow> string" where
  "demo_serError (C_NOT_LEADER h) = ''1'' @ encOption encString h"
| "demo_serError C_OTHER_ERROR = ''0''"

definition demo_parseError :: "string \<Rightarrow> ClientError option" where
  "demo_parseError s = (case s of
     [] \<Rightarrow> None
   | c # s \<Rightarrow> if c = CHR ''1'' then map_option (\<lambda>(h, _). C_NOT_LEADER h) (decOption decString s) else Some C_OTHER_ERROR)"

lemma demo_error_codec: "demo_parseError (demo_serError e) = Some e"
  using decode_simps(3) [of decString encString _ "[]", OF decode_simps(2)] by (cases e) (simp_all add: demo_parseError_def)

end
