(* ===== verification/LC_ClientCluster.thy ===== *)
theory LC_ClientCluster
  imports LC_ClientProps LC_TreeProps LC_Serialize
begin

text \<open>
  The client library on top of the state machine. The cluster here is one whose leader answers: it appends a command to the log, the state
  machine applies it, and the response is what \<open>waitForResponse\<close> gives; a query is answered by \<open>query\<close>. Whether other replicas see the
  same is the matter of \<^verbatim>\<open>LC_StateMachineProps\<close>.
\<close>

section \<open>A cluster that answers\<close>












section \<open>Operations of the library\<close>


text \<open>The status a client is given for the one in a response.\<close>

definition cstatus :: "PCStatus \<Rightarrow> ClientStatus" where
  "cstatus s = (case treeError s [] of Some r \<Rightarrow> cr_status r | None \<Rightarrow> C_TIMEOUT)"



lemma cstatus_ok: "cstatus (castStatus s) = C_OK \<longleftrightarrow> s = OK"
  by (cases s) (simp_all add: cstatus_def)



section \<open>The library as a file system\<close>























end
