(* ===== verification/LC_Services.thy ===== *)
theory LC_Services
  imports LC_RaftThreads LC_Client
begin

text \<open>
  The services of a server: \<^verbatim>\<open>src/Server/ClientService.cc\<close>, \<^verbatim>\<open>RaftService.cc\<close> and \<^verbatim>\<open>ControlService.cc\<close>. They take the request out of an RPC, call
  the consensus module or the state machine, and answer.

  \<^item> A handler that waits is a sequence of phases. A phase is a value that holds what the thread keeps on its stack, and
    a step goes on from a phase with the state of the server as it is then, so other threads may run in between. A
    step that would wait gives the same phase again.
  \<^item> The protocol buffers of the messages are parameters, the record \<open>ServiceCodec\<close>. The texts of error messages are left out.
  \<^item> The operations of the control service on debug logs and statistics are not modelled.
\<close>

section \<open>The state of a server\<close>

text \<open>A cluster identifier that is not known is empty.\<close>

record Globals =
  g_raft :: Raft
  g_stateMachine :: StateMachine
  g_clusterUUID :: string
  g_serverId :: nat

record ServiceCodec =
  parse_RequestVote :: "string \<Rightarrow> RequestVoteRequest option"
  ser_RequestVote :: "RequestVoteResponse \<Rightarrow> string"
  parse_AppendEntries :: "string \<Rightarrow> AppendEntriesRequest option"
  ser_AppendEntries :: "AppendEntriesResponse \<Rightarrow> string"
  parse_InstallSnapshot :: "string \<Rightarrow> InstallSnapshotRequest option"
  ser_InstallSnapshot :: "InstallSnapshotResponse \<Rightarrow> string"
  parse_GetServerInfo :: "string \<Rightarrow> unit option"
  ser_GetServerInfo :: "nat \<times> string \<Rightarrow> string"
  parse_GetConfiguration :: "string \<Rightarrow> unit option"
  ser_GetConfiguration :: "nat \<times> ServerDesc list \<Rightarrow> string"
  parse_SetConfiguration :: "string \<Rightarrow> (nat \<times> ServerDesc list) option"
  ser_SetConfiguration :: "SetConfigurationResult \<Rightarrow> string"
  parse_Command :: "string \<Rightarrow> CommandRequest option"
  ser_Command :: "CommandResponse \<Rightarrow> string"
  parse_Query :: "string \<Rightarrow> QueryRequest option"
  ser_Query :: "ReadOnlyTreeResponse option \<Rightarrow> string"
  parse_VerifyRecipient :: "string \<Rightarrow> VerifyRequest option"
  ser_VerifyRecipient :: "VerifyResponse \<Rightarrow> string"
  ser_Error :: "ClientError \<Rightarrow> string"

text \<open>\<^verbatim>\<open>PRELUDE\<close>: a request that cannot be parsed has been rejected.\<close>

definition prelude :: "(string \<Rightarrow> 'q option) \<Rightarrow> (ServerRPC \<Rightarrow> 'p) \<Rightarrow> ('q \<Rightarrow> ServerRPC \<Rightarrow> 'g \<Rightarrow> ('p \<times> 'g) option) \<Rightarrow>
    ServerRPC \<Rightarrow> 'g \<Rightarrow> ('p \<times> 'g) option" where
  "prelude parse answered body rpc g = (case getRequest parse rpc of
     (None, rpc) \<Rightarrow> Some (answered rpc, g)
   | (Some request, rpc) \<Rightarrow> body request rpc g)"

section \<open>The service for other servers\<close>

definition rs_requestVote :: "ServiceCodec \<Rightarrow> ServerRPC \<Rightarrow> Globals \<Rightarrow> (ServerRPC \<times> Globals) option" where
  "rs_requestVote cd = prelude (parse_RequestVote cd) id (\<lambda>request rpc g. do {
     (response, raft) \<leftarrow> handleRequestVote request (g_raft g);
     Some (reply_rpc (ser_RequestVote cd response) rpc, g\<lparr>g_raft := raft\<rparr>)
   })"

definition rs_appendEntries :: "ServiceCodec \<Rightarrow> ServerRPC \<Rightarrow> Globals \<Rightarrow> (ServerRPC \<times> Globals) option" where
  "rs_appendEntries cd = prelude (parse_AppendEntries cd) id (\<lambda>request rpc g. do {
     (response, raft) \<leftarrow> handleAppendEntries request (g_raft g);
     Some (reply_rpc (ser_AppendEntries cd response) rpc, g\<lparr>g_raft := raft\<rparr>)
   })"

definition rs_installSnapshot :: "ServiceCodec \<Rightarrow> ProtoBuf \<Rightarrow> ServerRPC \<Rightarrow> Globals \<Rightarrow> (ServerRPC \<times> Globals) option" where
  "rs_installSnapshot cd pb = prelude (parse_InstallSnapshot cd) id (\<lambda>request rpc g. do {
     (response, raft) \<leftarrow> handleInstallSnapshot pb request (g_raft g);
     Some (reply_rpc (ser_InstallSnapshot cd response) rpc, g\<lparr>g_raft := raft\<rparr>)
   })"

definition rs_handleRPC :: "ServiceCodec \<Rightarrow> ProtoBuf \<Rightarrow> ServerRPC \<Rightarrow> Globals \<Rightarrow> (ServerRPC \<times> Globals) option" where
  "rs_handleRPC cd pb rpc g =
     (if sr_opCode rpc = 2 then rs_appendEntries cd rpc g
      else if sr_opCode rpc = 3 then rs_installSnapshot cd pb rpc g
      else if sr_opCode rpc = 1 then rs_requestVote cd rpc g
      else Some (rejectInvalidRequest rpc, g))"

section \<open>The service for clients\<close>

datatype ClientPhase = AnsweredClient ServerRPC
  | WaitConfiguration ServerRPC nat
  | WaitCatchUp ServerRPC "ServerDesc list" Staging
  | WaitTransition ServerRPC nat "(nat \<times> nat) option"
  | WaitStable ServerRPC nat nat
  | WaitReplicate ServerRPC CommandRequest "(nat \<times> nat) option"
  | WaitApplied ServerRPC CommandRequest nat
  | WaitLeader ServerRPC QueryRequest nat
  | WaitQuery ServerRPC QueryRequest nat

definition notLeader :: "ServiceCodec \<Rightarrow> ServerRPC \<Rightarrow> Globals \<Rightarrow> ServerRPC" where
  "notLeader cd rpc g = (let leaderHint = getLeaderHint (g_raft g) in
     returnError (ser_Error cd (C_NOT_LEADER (if leaderHint \<noteq> [] then Some leaderHint else None))) rpc)"

definition cs_getServerInfo :: "ServiceCodec \<Rightarrow> ServerRPC \<Rightarrow> Globals \<Rightarrow> (ClientPhase \<times> Globals) option" where
  "cs_getServerInfo cd = prelude (parse_GetServerInfo cd) AnsweredClient (\<lambda>request rpc g.
     Some (AnsweredClient (reply_rpc (ser_GetServerInfo cd (serverId (g_raft g), serverAddresses (g_raft g))) rpc), g))"

text \<open>\<^verbatim>\<open>getConfiguration\<close>: the wait is that of \<^verbatim>\<open>upToDateLeader\<close>.\<close>

definition cs_getConfiguration :: "ServiceCodec \<Rightarrow> ServerRPC \<Rightarrow> Globals \<Rightarrow> (ClientPhase \<times> Globals) option" where
  "cs_getConfiguration cd = prelude (parse_GetConfiguration cd) AnsweredClient (\<lambda>request rpc g.
     let (epoch, raft) = upToDateLeader_begin (g_raft g) in Some (WaitConfiguration rpc epoch, g\<lparr>g_raft := raft\<rparr>))"

definition cs_getConfiguration_end :: "ServiceCodec \<Rightarrow> ServerRPC \<Rightarrow> bool \<Rightarrow> Globals \<Rightarrow> ServerRPC option" where
  "cs_getConfiguration_end cd rpc upToDate g = (case getConfiguration upToDate (g_raft g) of
     (SUCCESS, Some (servers, identifier)) \<Rightarrow> Some (reply_rpc (ser_GetConfiguration cd (identifier, servers)) rpc)
   | (RETRY, _) \<Rightarrow> Some (notLeader cd rpc g)
   | (NOT_LEADER, _) \<Rightarrow> Some (notLeader cd rpc g)
   | _ \<Rightarrow> None)"

text \<open>\<^verbatim>\<open>setConfiguration\<close>: the waits of the consensus module's operation. Its result \<^verbatim>\<open>FAIL\<close> has filled in the response, as has
  \<^verbatim>\<open>SUCCESS\<close>.\<close>

definition cs_setConfiguration_end :: "ServiceCodec \<Rightarrow> ServerRPC \<Rightarrow> SetConfigurationResult \<Rightarrow> Globals \<Rightarrow> ServerRPC" where
  "cs_setConfiguration_end cd rpc result g =
     (if result = NotLeaderAnymore then notLeader cd rpc g else reply_rpc (ser_SetConfiguration cd result) rpc)"

definition cs_setConfiguration :: "ServiceCodec \<Rightarrow> ServerRPC \<Rightarrow> Globals \<Rightarrow> (ClientPhase \<times> Globals) option" where
  "cs_setConfiguration cd = prelude (parse_SetConfiguration cd) AnsweredClient (\<lambda>(old_id, new_servers) rpc g. do {
     (r, raft) \<leftarrow> setConfiguration_begin old_id new_servers (g_raft g);
     let g = g\<lparr>g_raft := raft\<rparr>;
     Some (case r of Inl result \<Rightarrow> AnsweredClient (cs_setConfiguration_end cd rpc result g)
                   | Inr stg \<Rightarrow> WaitCatchUp rpc new_servers stg, g)
   })"

definition cs_setConfiguration_catchUp :: "ServiceCodec \<Rightarrow> ServerRPC \<Rightarrow> ServerDesc list \<Rightarrow> Staging \<Rightarrow> Globals \<Rightarrow> (ClientPhase \<times> Globals) option" where
  "cs_setConfiguration_catchUp cd rpc new_servers stg g = (let (r, raft) = setConfiguration_catchUp stg (g_raft g); g = g\<lparr>g_raft := raft\<rparr> in
     case r of
       CatchUpReturn result \<Rightarrow> Some (AnsweredClient (cs_setConfiguration_end cd rpc result g), g)
     | CatchUpWait stg \<Rightarrow> Some (WaitCatchUp rpc new_servers stg, g)
     | CatchUpDone \<Rightarrow> do {
         (w, raft) \<leftarrow> setConfiguration_transition new_servers (g_raft g);
         Some (WaitTransition rpc (stg_term stg) w, g\<lparr>g_raft := raft\<rparr>)
       })"

definition cs_setConfiguration_transition :: "ServiceCodec \<Rightarrow> ServerRPC \<Rightarrow> nat \<Rightarrow> (nat \<times> nat) option \<Rightarrow> Globals \<Rightarrow> ClientPhase" where
  "cs_setConfiguration_transition cd rpc t w g = (case replicateEntry_wait w (g_raft g) of
     Blocked \<Rightarrow> WaitTransition rpc t w
   | Done (SUCCESS, transitionalId) \<Rightarrow> WaitStable rpc transitionalId t
   | Done (NOT_LEADER, _) \<Rightarrow> AnsweredClient (cs_setConfiguration_end cd rpc NotLeaderAnymore g)
   | Done (RETRY, _) \<Rightarrow> AnsweredClient (notLeader cd rpc g)
   | Done (FAIL, _) \<Rightarrow> AnsweredClient (cs_setConfiguration_end cd rpc ConfigurationChanged g))"

text \<open>\<^verbatim>\<open>stateMachineCommand\<close>: the request is put into the log as it came, then its commitment and its application are awaited.\<close>

definition cs_stateMachineCommand :: "ServiceCodec \<Rightarrow> ServerRPC \<Rightarrow> Globals \<Rightarrow> (ClientPhase \<times> Globals) option" where
  "cs_stateMachineCommand cd = prelude (parse_Command cd) AnsweredClient (\<lambda>request rpc g. do {
     cmdBuffer \<leftarrow> getRequest_buffer rpc;
     (w, raft) \<leftarrow> replicate_begin (fieldString cmdBuffer) (g_raft g);
     Some (WaitReplicate rpc request w, g\<lparr>g_raft := raft\<rparr>)
   })"

definition cs_stateMachineCommand_replicated :: "ServiceCodec \<Rightarrow> ServerRPC \<Rightarrow> CommandRequest \<Rightarrow> (nat \<times> nat) option \<Rightarrow> Globals \<Rightarrow> ClientPhase option" where
  "cs_stateMachineCommand_replicated cd rpc request w g = (case replicateEntry_wait w (g_raft g) of
     Blocked \<Rightarrow> Some (WaitReplicate rpc request w)
   | Done (SUCCESS, logIndex) \<Rightarrow> Some (WaitApplied rpc request logIndex)
   | Done (RETRY, _) \<Rightarrow> Some (AnsweredClient (notLeader cd rpc g))
   | Done (NOT_LEADER, _) \<Rightarrow> Some (AnsweredClient (notLeader cd rpc g))
   | Done (FAIL, _) \<Rightarrow> None)"

definition cs_stateMachineCommand_applied :: "ServiceCodec \<Rightarrow> ServerRPC \<Rightarrow> CommandRequest \<Rightarrow> nat \<Rightarrow> Globals \<Rightarrow> ClientPhase option" where
  "cs_stateMachineCommand_applied cd rpc request logIndex g = do {
     r \<leftarrow> waitForResponse logIndex request (g_stateMachine g);
     Some (case r of
       Blocked \<Rightarrow> WaitApplied rpc request logIndex
     | Done None \<Rightarrow> AnsweredClient (rejectInvalidRequest rpc)
     | Done (Some response) \<Rightarrow> AnsweredClient (reply_rpc (ser_Command cd response) rpc))
   }"

text \<open>\<^verbatim>\<open>stateMachineQuery\<close>. A query that is not understood is rejected and then also replied to.\<close>

definition cs_stateMachineQuery :: "ServiceCodec \<Rightarrow> ServerRPC \<Rightarrow> Globals \<Rightarrow> (ClientPhase \<times> Globals) option" where
  "cs_stateMachineQuery cd = prelude (parse_Query cd) AnsweredClient (\<lambda>request rpc g.
     let (epoch, raft) = upToDateLeader_begin (g_raft g) in Some (WaitLeader rpc request epoch, g\<lparr>g_raft := raft\<rparr>))"

definition cs_stateMachineQuery_leader :: "ServiceCodec \<Rightarrow> ServerRPC \<Rightarrow> QueryRequest \<Rightarrow> bool \<Rightarrow> Globals \<Rightarrow> ClientPhase option" where
  "cs_stateMachineQuery_leader cd rpc request upToDate g = (case getLastCommitIndex upToDate (g_raft g) of
     (SUCCESS, logIndex) \<Rightarrow> Some (WaitQuery rpc request logIndex)
   | (RETRY, _) \<Rightarrow> Some (AnsweredClient (notLeader cd rpc g))
   | (NOT_LEADER, _) \<Rightarrow> Some (AnsweredClient (notLeader cd rpc g))
   | (FAIL, _) \<Rightarrow> None)"

definition cs_stateMachineQuery_end :: "ServiceCodec \<Rightarrow> SMConfig \<Rightarrow> int \<Rightarrow> ServerRPC \<Rightarrow> QueryRequest \<Rightarrow> Globals \<Rightarrow> (ServerRPC \<times> Globals) option" where
  "cs_stateMachineQuery_end cd cfg now rpc request g = do {
     (sm, response) \<leftarrow> query cfg now request (g_stateMachine g);
     let rpc = (if response = None then rejectInvalidRequest rpc else rpc);
     Some (reply_rpc (ser_Query cd response) rpc, g\<lparr>g_stateMachine := sm\<rparr>)
   }"

text \<open>\<^verbatim>\<open>verifyRecipient\<close>: a server that does not know its cluster adopts the identifier of the request.\<close>

definition verifyRecipient :: "VerifyRequest \<Rightarrow> Globals \<Rightarrow> VerifyResponse \<times> Globals" where
  "verifyRecipient request g =
     (let clusterUUID = g_clusterUUID g;
          uuid = fieldString (vr_cluster_uuid request);
          response = \<lparr>vs_ok = False, vs_cluster_uuid = (if clusterUUID \<noteq> [] then Some clusterUUID else None), vs_server_id = Some (g_serverId g)\<rparr>
      in if uuid \<noteq> [] \<and> clusterUUID \<noteq> [] \<and> clusterUUID \<noteq> uuid then (response, g)
         else if vr_server_id request \<noteq> None \<and> vr_server_id request \<noteq> Some (g_serverId g) then (response, g)
         else let response = response\<lparr>vs_ok := True\<rparr> in
           if clusterUUID = [] \<and> uuid \<noteq> [] then (response\<lparr>vs_cluster_uuid := Some uuid\<rparr>, g\<lparr>g_clusterUUID := uuid\<rparr>)
           else (response, g))"

definition cs_verifyRecipient :: "ServiceCodec \<Rightarrow> ServerRPC \<Rightarrow> Globals \<Rightarrow> (ClientPhase \<times> Globals) option" where
  "cs_verifyRecipient cd = prelude (parse_VerifyRecipient cd) AnsweredClient (\<lambda>request rpc g.
     let (response, g) = verifyRecipient request g in Some (AnsweredClient (reply_rpc (ser_VerifyRecipient cd response) rpc), g))"

definition cs_handleRPC :: "ServiceCodec \<Rightarrow> ServerRPC \<Rightarrow> Globals \<Rightarrow> (ClientPhase \<times> Globals) option" where
  "cs_handleRPC cd rpc g =
     (if sr_opCode rpc = 7 then cs_getServerInfo cd rpc g
      else if sr_opCode rpc = 3 then cs_verifyRecipient cd rpc g
      else if sr_opCode rpc = 4 then cs_getConfiguration cd rpc g
      else if sr_opCode rpc = 5 then cs_setConfiguration cd rpc g
      else if sr_opCode rpc = 2 then cs_stateMachineCommand cd rpc g
      else if sr_opCode rpc = 1 then cs_stateMachineQuery cd rpc g
      else Some (AnsweredClient (rejectInvalidRequest rpc), g))"

text \<open>A thread of the service goes on from a phase.\<close>

fun cs_step :: "ServiceCodec \<Rightarrow> SMConfig \<Rightarrow> int \<Rightarrow> ClientPhase \<Rightarrow> Globals \<Rightarrow> (ClientPhase \<times> Globals) option" where
  "cs_step cd cfg now (AnsweredClient rpc) g = Some (AnsweredClient rpc, g)"
| "cs_step cd cfg now (WaitConfiguration rpc epoch) g = do {
     r \<leftarrow> upToDateLeader_check epoch (g_raft g);
     case r of Blocked \<Rightarrow> Some (WaitConfiguration rpc epoch, g)
             | Done ok \<Rightarrow> map_option (\<lambda>rpc. (AnsweredClient rpc, g)) (cs_getConfiguration_end cd rpc ok g) }"
| "cs_step cd cfg now (WaitCatchUp rpc new_servers stg) g = cs_setConfiguration_catchUp cd rpc new_servers stg g"
| "cs_step cd cfg now (WaitTransition rpc t w) g = Some (cs_setConfiguration_transition cd rpc t w g, g)"
| "cs_step cd cfg now (WaitStable rpc transitionalId t) g = (case setConfiguration_finish transitionalId t (g_raft g) of
     Blocked \<Rightarrow> Some (WaitStable rpc transitionalId t, g)
   | Done result \<Rightarrow> Some (AnsweredClient (cs_setConfiguration_end cd rpc result g), g))"
| "cs_step cd cfg now (WaitReplicate rpc request w) g = map_option (\<lambda>p. (p, g)) (cs_stateMachineCommand_replicated cd rpc request w g)"
| "cs_step cd cfg now (WaitApplied rpc request i) g = map_option (\<lambda>p. (p, g)) (cs_stateMachineCommand_applied cd rpc request i g)"
| "cs_step cd cfg now (WaitLeader rpc request epoch) g = do {
     r \<leftarrow> upToDateLeader_check epoch (g_raft g);
     case r of Blocked \<Rightarrow> Some (WaitLeader rpc request epoch, g)
             | Done ok \<Rightarrow> map_option (\<lambda>p. (p, g)) (cs_stateMachineQuery_leader cd rpc request ok g) }"
| "cs_step cd cfg now (WaitQuery rpc request i) g = (case wait i (g_stateMachine g) of
     Blocked \<Rightarrow> Some (WaitQuery rpc request i, g)
   | Done _ \<Rightarrow> map_option (\<lambda>(rpc, g). (AnsweredClient rpc, g)) (cs_stateMachineQuery_end cd cfg now rpc request g))"

section \<open>The service for administration\<close>

text \<open>The operations on snapshots. A phase also gives the signals that have been sent to the child process.\<close>

datatype SnapshotCommand = UNKNOWN_SNAPSHOT_COMMAND | START_SNAPSHOT | STOP_SNAPSHOT | RESTART_SNAPSHOT

datatype ControlPhase = AnsweredControl ServerRPC | WaitStopped ServerRPC int bool | WaitStarted ServerRPC "nat option"

definition ctl_start :: "ServerRPC \<Rightarrow> StateMachine \<Rightarrow> ControlPhase \<times> StateMachine" where
  "ctl_start rpc sm = (let (sm, next_snapshot) = startTakingSnapshot sm in (WaitStarted rpc next_snapshot, sm))"

text \<open>\<open>ser\<close> serializes the response, which holds an error message or nothing.\<close>

definition ctl_snapshotControl :: "(bool \<Rightarrow> string) \<Rightarrow> SnapshotCommand \<Rightarrow> ServerRPC \<Rightarrow> StateMachine \<Rightarrow>
    ControlPhase \<times> (int \<times> int) list \<times> StateMachine" where
  "ctl_snapshotControl ser command rpc sm = (case command of
     START_SNAPSHOT \<Rightarrow> (let (p, sm) = ctl_start rpc sm in (p, [], sm))
   | STOP_SNAPSHOT \<Rightarrow> (WaitStopped rpc (childPid sm) False, stopTakingSnapshot sm, sm)
   | RESTART_SNAPSHOT \<Rightarrow> (WaitStopped rpc (childPid sm) True, stopTakingSnapshot sm, sm)
   | UNKNOWN_SNAPSHOT_COMMAND \<Rightarrow> (AnsweredControl (reply_rpc (ser True) rpc), [], sm))"

fun ctl_step :: "(bool \<Rightarrow> string) \<Rightarrow> ControlPhase \<Rightarrow> StateMachine \<Rightarrow> ControlPhase \<times> StateMachine" where
  "ctl_step ser (AnsweredControl rpc) sm = (AnsweredControl rpc, sm)"
| "ctl_step ser (WaitStopped rpc pid restart) sm =
     (if stopTakingSnapshot_waits pid sm then (WaitStopped rpc pid restart, sm)
      else if restart then ctl_start rpc sm
      else (AnsweredControl (reply_rpc (ser False) rpc), sm))"
| "ctl_step ser (WaitStarted rpc next_snapshot) sm =
     (if startTakingSnapshot_waits next_snapshot sm then (WaitStarted rpc next_snapshot, sm)
      else (AnsweredControl (reply_rpc (ser False) rpc), sm))"

definition ctl_snapshotInhibitGet :: "(nat \<Rightarrow> string) \<Rightarrow> int \<Rightarrow> ServerRPC \<Rightarrow> StateMachine \<Rightarrow> ServerRPC option" where
  "ctl_snapshotInhibitGet ser now rpc sm = (let duration = getInhibit now sm in do {
     require (duration \<ge> 0);
     Some (reply_rpc (ser (nat duration)) rpc)
   })"

text \<open>The duration in a request is an unsigned number; it is read as a signed one.\<close>

definition inhibitDuration :: "nat option \<Rightarrow> int" where
  "inhibitDuration nanoseconds = (case nanoseconds of
     Some n \<Rightarrow> (let duration = i64 (int n) in if n > 0 \<and> duration < 0 then timeMax else duration)
   | None \<Rightarrow> timeMax)"

definition ctl_snapshotInhibitSet :: "(bool \<Rightarrow> string) \<Rightarrow> int \<Rightarrow> nat option \<Rightarrow> ServerRPC \<Rightarrow> StateMachine \<Rightarrow>
    ControlPhase \<times> (int \<times> int) list \<times> StateMachine" where
  "ctl_snapshotInhibitSet ser now nanoseconds rpc sm =
     (let sm = setInhibit now (inhibitDuration nanoseconds) sm in
      if nanoseconds = Some 0 then (AnsweredControl (reply_rpc (ser False) rpc), [], sm)
      else (WaitStopped rpc (childPid sm) False, stopTakingSnapshot sm, sm))"

end
