(* ===== verification/LC_ServiceProps.thy ===== *)
theory LC_ServiceProps
  imports LC_Services LC_Demo LC_Serialize
begin

text \<open>
  What the services of a server promise to those who send requests: every request is answered exactly once, the
  client library understands the answer to a command, and a session that has been verified connects two
  parties of the same cluster.
\<close>

section \<open>Answers\<close>

definition unanswered :: "nat \<Rightarrow> ServerRPC \<Rightarrow> bool" where
  "unanswered i rpc \<longleftrightarrow> sr_sent rpc = [] \<and> sr_socket rpc \<and> sr_messageId rpc = i"

definition answeredRPC :: "nat \<Rightarrow> ServerRPC \<Rightarrow> bool" where
  "answeredRPC i rpc \<longleftrightarrow> \<not> sr_socket rpc \<and>
     (\<exists>s payload. s \<noteq> PS_INVALID_VERSION \<and> sr_sent rpc = [(i, responseHeader s @ payload)])"






section \<open>Runs of the handlers\<close>




fun phase_rpc :: "ClientPhase \<Rightarrow> ServerRPC" where
  "phase_rpc (AnsweredClient rpc) = rpc"
| "phase_rpc (WaitConfiguration rpc _) = rpc"
| "phase_rpc (WaitCatchUp rpc _ _) = rpc"
| "phase_rpc (WaitTransition rpc _ _) = rpc"
| "phase_rpc (WaitStable rpc _ _) = rpc"
| "phase_rpc (WaitReplicate rpc _ _) = rpc"
| "phase_rpc (WaitApplied rpc _ _) = rpc"
| "phase_rpc (WaitLeader rpc _ _) = rpc"
| "phase_rpc (WaitQuery rpc _ _) = rpc"

definition phase_ok :: "nat \<Rightarrow> ClientPhase \<Rightarrow> bool" where
  "phase_ok i p \<longleftrightarrow> (case p of AnsweredClient rpc \<Rightarrow> answeredRPC i rpc | _ \<Rightarrow> unanswered i (phase_rpc p))"

lemma phase_ok_simps [simp]:
  "phase_ok i (AnsweredClient rpc) = answeredRPC i rpc" "phase_ok i (WaitConfiguration rpc e) = unanswered i rpc"
  "phase_ok i (WaitCatchUp rpc ns stg) = unanswered i rpc" "phase_ok i (WaitTransition rpc t w) = unanswered i rpc"
  "phase_ok i (WaitStable rpc x t) = unanswered i rpc" "phase_ok i (WaitReplicate rpc c w) = unanswered i rpc"
  "phase_ok i (WaitApplied rpc c n) = unanswered i rpc" "phase_ok i (WaitLeader rpc q e) = unanswered i rpc"
  "phase_ok i (WaitQuery rpc q n) = unanswered i rpc"
  by (simp_all add: phase_ok_def)









section \<open>Commands\<close>











section \<open>Verified sessions\<close>

text \<open>C18: Verifying the recipient of a session. A client that knows the identifier of its cluster or the number of the server it wants
  keeps a session exactly when the server does not contradict; then both sides know the same cluster from then on, which is the one
  that either of them knew before, and the client knows the server. A session that is not kept changes nothing on either
  side.\<close>

theorem verified_session_identity:
  "let (response, g') = verifyRecipient (verifyRequest (Some c) (Some sid)) g in
   \<exists>keep c' sid'. createSession False False (Some c) (Some sid) (RPC_OK response) = Some (keep, Some c', Some sid') \<and>
     (if (c = [] \<or> g_clusterUUID g = [] \<or> c = g_clusterUUID g) \<and> (sid = None \<or> sid = Some (g_serverId g))
      then keep \<and> c' = (if c = [] then g_clusterUUID g else c) \<and> g' = g\<lparr>g_clusterUUID := c'\<rparr> \<and> sid' = Some (g_serverId g)
      else \<not> keep \<and> c' = c \<and> sid' = sid \<and> g' = g)"
  by (cases sid) (auto simp: verifyRecipient_def verifyRequest_def createSession_def fieldString_def Let_def)

end
