(* ===== verification/LC_ThreadDispatch.thy ===== *)
theory LC_ThreadDispatch
  imports LC_RPC
begin

text \<open>
  \<^verbatim>\<open>src/RPC/ThreadDispatchService.cc\<close>: RPCs are put on a queue by the event loop and taken from it by worker threads, which are started as
  needed. An operation here is a critical section of the code; a worker is between two of them, waiting on the
  condition variable, or executing an RPC.
\<close>

section \<open>The code\<close>

record ThreadDispatchService =
  td_maxThreads :: nat
  td_threads :: nat
  td_numFreeWorkers :: nat
  td_exit :: bool
  td_rpcQueue :: "ServerRPC list"

definition mkThreadDispatchService :: "nat \<Rightarrow> nat \<Rightarrow> ThreadDispatchService option" where
  "mkThreadDispatchService minThreads maxThreads = do {
     require (minThreads \<le> maxThreads);
     require (0 < maxThreads);
     Some \<lparr>td_maxThreads = maxThreads, td_threads = minThreads, td_numFreeWorkers = 0, td_exit = False, td_rpcQueue = []\<rparr>
   }"

text \<open>The boolean says whether a new worker was started.\<close>

definition td_handleRPC :: "ServerRPC \<Rightarrow> ThreadDispatchService \<Rightarrow> (bool \<times> ThreadDispatchService) option" where
  "td_handleRPC serverRPC t = do {
     require (\<not> td_exit t);
     let t = t\<lparr>td_rpcQueue := td_rpcQueue t @ [serverRPC]\<rparr>;
     if td_numFreeWorkers t = 0 \<and> td_threads t < td_maxThreads t
     then Some (True, t\<lparr>td_threads := Suc (td_threads t)\<rparr>)
     else Some (False, t)
   }"

datatype Worker = WorkerWaits | WorkerExits | WorkerRuns ServerRPC

text \<open>A worker evaluates the condition of its wait, when it has the lock for the first time or when it has been woken up.\<close>

definition worker_wake :: "ThreadDispatchService \<Rightarrow> Worker \<times> ThreadDispatchService" where
  "worker_wake t =
     (if \<not> td_exit t \<and> td_rpcQueue t = [] then (WorkerWaits, t)
      else let t = t\<lparr>td_numFreeWorkers := td_numFreeWorkers t - 1\<rparr>
           in if td_exit t then (WorkerExits, t)
              else (WorkerRuns (hd (td_rpcQueue t)), t\<lparr>td_rpcQueue := tl (td_rpcQueue t)\<rparr>))"

definition worker_enter :: "ThreadDispatchService \<Rightarrow> Worker \<times> ThreadDispatchService" where
  "worker_enter t = worker_wake (t\<lparr>td_numFreeWorkers := Suc (td_numFreeWorkers t)\<rparr>)"

text \<open>The destructor: the threads are told to exit, and when they have, what is left on the queue is closed.\<close>

definition td_setExit :: "ThreadDispatchService \<Rightarrow> ThreadDispatchService" where
  "td_setExit t = t\<lparr>td_exit := True\<rparr>"

definition td_closeQueue :: "ThreadDispatchService \<Rightarrow> ServerRPC list \<times> ThreadDispatchService" where
  "td_closeQueue t = (map closeSession (td_rpcQueue t), t\<lparr>td_rpcQueue := []\<rparr>)"

section \<open>Runs\<close>

text \<open>The service with its threads: how many are about to take the lock, are waiting, and have exited, and the RPCs being executed. Two lists record
  which RPCs were handed to the service and which were started.\<close>

record Dispatch =
  dp_service :: ThreadDispatchService
  dp_entering :: nat
  dp_waiting :: nat
  dp_exited :: nat
  dp_running :: "ServerRPC list"
  dp_received :: "ServerRPC list"
  dp_started :: "ServerRPC list"

definition mkDispatch :: "ThreadDispatchService \<Rightarrow> Dispatch" where
  "mkDispatch t = \<lparr>dp_service = t, dp_entering = td_threads t, dp_waiting = 0, dp_exited = 0, dp_running = [], dp_received = [], dp_started = []\<rparr>"

definition settle :: "Worker \<Rightarrow> Dispatch \<Rightarrow> Dispatch" where
  "settle w d = (case w of
     WorkerWaits \<Rightarrow> d\<lparr>dp_waiting := Suc (dp_waiting d)\<rparr>
   | WorkerExits \<Rightarrow> d\<lparr>dp_exited := Suc (dp_exited d)\<rparr>
   | WorkerRuns rpc \<Rightarrow> d\<lparr>dp_running := rpc # dp_running d, dp_started := dp_started d @ [rpc]\<rparr>)"

inductive dispatch_step :: "Dispatch \<Rightarrow> Dispatch \<Rightarrow> bool" where
  receive: "td_handleRPC rpc (dp_service d) = Some (new, t) \<Longrightarrow>
    dispatch_step d (d\<lparr>dp_service := t, dp_entering := dp_entering d + (if new then 1 else 0), dp_received := dp_received d @ [rpc]\<rparr>)"
| enter: "dp_entering d = Suc n \<Longrightarrow> worker_enter (dp_service d) = (w, t) \<Longrightarrow>
    dispatch_step d (settle w (d\<lparr>dp_service := t, dp_entering := n\<rparr>))"
| wake: "dp_waiting d = Suc n \<Longrightarrow> worker_wake (dp_service d) = (w, t) \<Longrightarrow>
    dispatch_step d (settle w (d\<lparr>dp_service := t, dp_waiting := n\<rparr>))"
| finish: "rpc \<in> set (dp_running d) \<Longrightarrow>
    dispatch_step d (d\<lparr>dp_running := remove1 rpc (dp_running d), dp_entering := Suc (dp_entering d)\<rparr>)"
| exit: "dispatch_step d (d\<lparr>dp_service := td_setExit (dp_service d)\<rparr>)"

definition dispatch_inv :: "Dispatch \<Rightarrow> bool" where
  "dispatch_inv d \<longleftrightarrow> (let t = dp_service d in
     dp_received d = dp_started d @ td_rpcQueue t \<and> td_numFreeWorkers t = dp_waiting d \<and>
     td_threads t = dp_entering d + dp_waiting d + length (dp_running d) + dp_exited d \<and> td_threads t \<le> td_maxThreads t \<and> 0 < td_maxThreads t \<and>
     (td_rpcQueue t \<noteq> [] \<longrightarrow> 0 < td_threads t) \<and> (\<not> td_exit t \<longrightarrow> dp_exited d = 0))"

lemma dispatch_step_inv:
  assumes "dispatch_step d d'" "dispatch_inv d"
  shows "dispatch_inv d'"
  using assms
proof cases
  case (receive rpc new t)
  then show ?thesis using assms(2) by (auto simp: dispatch_inv_def td_handleRPC_def Let_def split: if_splits)
next
  case (enter n w t)
  then show ?thesis using assms(2)
    by (cases "td_rpcQueue (dp_service d)") (auto simp: dispatch_inv_def worker_enter_def worker_wake_def settle_def Let_def split: if_splits)
next
  case (wake n w t)
  then show ?thesis using assms(2)
    by (cases "td_rpcQueue (dp_service d)") (auto simp: dispatch_inv_def worker_wake_def settle_def Let_def split: if_splits)
next
  case (finish rpc)
  then have "length (dp_running d) = Suc (length (remove1 rpc (dp_running d)))" by (metis One_nat_def Suc_pred length_pos_if_in_set length_remove1)
  then show ?thesis using finish(1) assms(2) by (auto simp: dispatch_inv_def Let_def)
next
  case exit
  then show ?thesis using assms(2) by (auto simp: dispatch_inv_def td_setExit_def Let_def)
qed

text \<open>RPCs are started in the order in which they came, each of them once; there are never more threads than allowed, and while an RPC
  waits and the service is not shutting down, there is a thread that will take it or that executes another one and comes back.\<close>

theorem dispatch_in_order:
  assumes "mkThreadDispatchService lo hi = Some t" "dispatch_step\<^sup>*\<^sup>* (mkDispatch t) d"
  shows "dp_received d = dp_started d @ td_rpcQueue (dp_service d) \<and> td_threads (dp_service d) \<le> td_maxThreads (dp_service d) \<and>
    (td_rpcQueue (dp_service d) \<noteq> [] \<and> \<not> td_exit (dp_service d) \<longrightarrow> 0 < dp_entering d + dp_waiting d + length (dp_running d))"
proof -
  have "dispatch_inv (mkDispatch t)"
    using assms(1) by (auto simp: mkThreadDispatchService_def mkDispatch_def dispatch_inv_def split: if_splits)
  from assms(2) this have "dispatch_inv d" by (induction) (auto dest: dispatch_step_inv)
  then show ?thesis by (auto simp: dispatch_inv_def Let_def)
qed

text \<open>\<open>handleRPC\<close> counts on a free worker although that one has already been promised to an earlier RPC. Two RPCs that arrive before the only
  worker wakes up: the second one waits until the first has been executed, although another thread could be started for it.\<close>

lemma rpc_waits_for_busy_worker:
  assumes a: "a = mkServerRPC 1 []" and b: "b = mkServerRPC 2 []"
  shows "\<exists>d t. mkThreadDispatchService 1 2 = Some t \<and> dispatch_step\<^sup>*\<^sup>* (mkDispatch t) d \<and> td_rpcQueue (dp_service d) = [b] \<and>
    dp_running d = [a] \<and> dp_entering d = 0 \<and> dp_waiting d = 0 \<and> td_threads (dp_service d) < td_maxThreads (dp_service d)"
proof -
  define t where "t = \<lparr>td_maxThreads = 2, td_threads = 1, td_numFreeWorkers = 0, td_exit = False, td_rpcQueue = []\<rparr>"
  define d1 where "d1 = (mkDispatch t)\<lparr>dp_service := t\<lparr>td_numFreeWorkers := 1\<rparr>, dp_entering := 0, dp_waiting := 1\<rparr>"
  define d2 where "d2 = d1\<lparr>dp_service := (dp_service d1)\<lparr>td_rpcQueue := [a]\<rparr>, dp_entering := 0, dp_received := [a]\<rparr>"
  define d3 where "d3 = d2\<lparr>dp_service := (dp_service d1)\<lparr>td_rpcQueue := [a, b]\<rparr>, dp_entering := 0, dp_received := [a, b]\<rparr>"
  define d4 where "d4 = d3\<lparr>dp_service := t\<lparr>td_rpcQueue := [b]\<rparr>, dp_waiting := 0, dp_running := [a], dp_started := [a]\<rparr>"
  have "dispatch_step (mkDispatch t) d1"
    using dispatch_step.enter [of "mkDispatch t" 0] by (simp add: d1_def t_def mkDispatch_def worker_enter_def worker_wake_def settle_def)
  moreover have "dispatch_step d1 d2"
    using dispatch_step.receive [of a d1 False] by (simp add: d2_def d1_def t_def mkDispatch_def td_handleRPC_def)
  moreover have "dispatch_step d2 d3"
    using dispatch_step.receive [of b d2 False] by (simp add: d3_def d2_def d1_def t_def mkDispatch_def td_handleRPC_def)
  moreover have "dispatch_step d3 d4"
    using dispatch_step.wake [of d3 0] by (simp add: d4_def d3_def d2_def d1_def t_def mkDispatch_def worker_wake_def settle_def)
  ultimately have "dispatch_step\<^sup>*\<^sup>* (mkDispatch t) d4" by (meson rtranclp.rtrancl_refl converse_rtranclp_into_rtranclp)
  moreover have "mkThreadDispatchService 1 2 = Some t" by (simp add: mkThreadDispatchService_def t_def)
  ultimately show ?thesis by (intro exI [of _ d4] exI [of _ t]) (simp add: d4_def d3_def d2_def d1_def t_def mkDispatch_def)
qed

end
