(* ===== verification/Spec2Isabelle.thy ===== *)
theory Spec2Isabelle
  imports LC_TreeProps LC_StateMachineProps LC_ClusterProps LC_RaftProps LC_MembershipProps LC_SnapshotProps
    LC_StorageProps LC_SessionProps LC_ClientCluster LC_ServiceProps LC_ThreadDispatch
begin

text \<open>
  LogCabin is a replicated key-value store: a cluster of servers agrees on a log of client commands with
  the Raft protocol, and every server applies the log to a copy of a hierarchical tree. This
  development models the core of the server, from the files of the log and the tree up to a cluster of
  servers over an unreliable network, and the client library with the transport of messages between the two, and proves what makes
  them correct.

  \<^bold>\<open>The parts of the program and where they are modelled.\<close>

  \<^item> \<^verbatim>\<open>src/Tree/Tree.cc\<close> and \<^verbatim>\<open>src/Tree/ProtoBuf.cc\<close>, the tree of directories and files and the handlers of
    tree requests: \<^verbatim>\<open>LC_Tree\<close> (data, path lookup, the six operations, counters, snapshots) and
    \<^verbatim>\<open>LC_TreeRPC\<close> (the read-only and the read-write request). \<^verbatim>\<open>LC_TreeSpec\<close> specifies a tree as a map
    from paths to nodes and shows that the operations implement it; \<^verbatim>\<open>LC_TreeProps\<close> has the
    properties.
  \<^item> \<^verbatim>\<open>src/Server/StateMachine.cc\<close>, which applies committed entries exactly once per client command,
    expires sessions, tracks the version of the state machine, and takes and loads snapshots:
    \<^verbatim>\<open>LC_StateMachine\<close>, with the specification as a replay of the log in \<^verbatim>\<open>LC_StateMachineSpec\<close> and
    the properties in \<^verbatim>\<open>LC_StateMachineProps\<close>. Each thread is given by one iteration; a wait on a
    condition variable is a decision of the current state.
  \<^item> \<^verbatim>\<open>src/Storage/Log.h\<close>, the interface of logs: the locale \<open>log_store\<close> of \<^verbatim>\<open>LC_Log\<close>, interpreted in
    \<^verbatim>\<open>LC_MemoryLog\<close> on \<^verbatim>\<open>src/Storage/MemoryLog.cc\<close>, and the weaker contract \<open>log_contract\<close> of \<^verbatim>\<open>LC_LogContract\<close> for logs
    whose operations may fail. \<^verbatim>\<open>LC_SnapshotFile\<close> models \<^verbatim>\<open>src/Storage/SnapshotFile.cc\<close>.
  \<^item> \<^verbatim>\<open>src/Storage/SegmentedLog.cc\<close>, the log on disk: \<^verbatim>\<open>LC_SegmentedLog\<close> has the whole class, on top of
    \<^verbatim>\<open>LC_Disk\<close> (the wrappers of \<^verbatim>\<open>src/Storage/FilesystemUtil.cc\<close> over a disk with a volatile and a stable
    copy of every file), \<^verbatim>\<open>LC_SegmentFormat\<close> (file names and records) and \<^verbatim>\<open>LC_Checksum\<close>
    (\<^verbatim>\<open>src/Core/Checksum.cc\<close>). \<^verbatim>\<open>LC_SegmentedLogInv\<close> has its invariant, \<^verbatim>\<open>LC_SegmentedLogOps\<close> its operations,
    \<^verbatim>\<open>LC_LogContract\<close> the interpretation of the contract, \<^verbatim>\<open>LC_SegmentedLogLoad\<close> and
    \<^verbatim>\<open>LC_SegmentedLogRecovery\<close> the start on existing files, \<^verbatim>\<open>LC_SegmentedLogDurable\<close> the queued operations and
    stable storage, \<^verbatim>\<open>LC_SegmentedLogCrash\<close> what a crash leaves of a log that was synced, and \<^verbatim>\<open>LC_StorageProps\<close> the properties, applied on the inputs of \<^verbatim>\<open>LC_StorageDemo\<close>.
  \<^item> \<^verbatim>\<open>src/Protocol/Raft.proto\<close>: the records of \<^verbatim>\<open>LC_RaftTypes\<close>.
  \<^item> \<^verbatim>\<open>src/Server/RaftConsensus.cc\<close> and \<^verbatim>\<open>RaftConsensus.h\<close>, the consensus module: its state in \<^verbatim>\<open>LC_RaftState\<close>,
    configurations, quorums and the configuration manager in \<^verbatim>\<open>LC_Configuration\<close>, the private
    operations (stepping down, elections, commitment, snapshots) in \<^verbatim>\<open>LC_RaftCore\<close>, the handlers and
    both halves of the three RPCs in \<^verbatim>\<open>LC_RaftRPC\<close>, start-up, client operations and threads in
    \<^verbatim>\<open>LC_RaftThreads\<close>.
  \<^item> A cluster (\<^verbatim>\<open>LC_Cluster\<close>): servers, the messages in the network, the calls under way, and steps that are
    the critical sections of the code. Messages may be lost, delayed, repeated and reordered, servers
    crash and restart with what their log kept on disk. The two history variables \<open>votes\<close> and
    \<open>leaders\<close> record who voted for whom and who was leader.
  \<^item> \<^verbatim>\<open>src/RPC\<close>, the transport: \<^verbatim>\<open>LC_MessageSocket\<close> (\<^verbatim>\<open>MessageSocket.cc\<close>: frames, the event handlers that read and write them,
    the queue of messages to send), \<^verbatim>\<open>LC_RPC\<close> (headers, \<^verbatim>\<open>ClientRPC.cc\<close>, \<^verbatim>\<open>ServerRPC.cc\<close> and the dispatch of a request in \<^verbatim>\<open>OpaqueServer.cc\<close> and
    \<^verbatim>\<open>Server.cc\<close>) and \<^verbatim>\<open>LC_ClientSession\<close> (\<^verbatim>\<open>ClientSession.cc\<close> and \<^verbatim>\<open>OpaqueClientRPC.cc\<close>: outstanding requests, cancellation, pings).
    \<^verbatim>\<open>LC_Transport\<close> and \<^verbatim>\<open>LC_SessionProps\<close> have the properties. \<^verbatim>\<open>LC_ThreadDispatch\<close> models \<^verbatim>\<open>ThreadDispatchService.cc\<close>, the queue between the event loop
    and the threads of a service.
  \<^item> The services in \<^verbatim>\<open>src/Server\<close> that answer RPCs: \<^verbatim>\<open>LC_Services\<close> (\<^verbatim>\<open>ClientService.cc\<close>, \<^verbatim>\<open>RaftService.cc\<close>, and of \<^verbatim>\<open>ControlService.cc\<close> the control of
    snapshots), with properties in \<^verbatim>\<open>LC_ServiceProps\<close>.
  \<^item> \<^verbatim>\<open>src/Client\<close>, the client library: \<^verbatim>\<open>LC_Client\<close> (\<^verbatim>\<open>ClientImpl.cc\<close>, \<^verbatim>\<open>LeaderRPC.cc\<close>, \<^verbatim>\<open>SessionManager.cc\<close>, \<^verbatim>\<open>Backoff.cc\<close>), with
    properties in \<^verbatim>\<open>LC_ClientProps\<close> and, together with the state machine, in \<^verbatim>\<open>LC_ClientCluster\<close>. \<^verbatim>\<open>LC_Serialize\<close> has an example of a
    serialization.

  \<^bold>\<open>What is shown.\<close>

  \<^item> Tree: every request is answered without a panic and implements the specified update of the
    map of paths, or the specified error; paths stay closed under parents; a dumped tree is
    restored.
  \<^item> State machine: replicas that applied the same log up to the same index agree, with or without
    snapshots; a command is executed at most once; responses, session expiry, versions, snapshot
    decisions and the snapshot watchdog do what they document.
  \<^item> The log on disk: under the conditions of the interface every operation returns, keeps the assertions
    of \<^verbatim>\<open>checkInvariants\<close> and has the same effect as on the log in memory; records and file names are
    read back; the loop around \<^verbatim>\<open>writev\<close> and the loop of \<^verbatim>\<open>truncateSuffix\<close> end; dropping flushes changes nothing; the
    constructor recovers the log from its files, whatever has been written in part; entries that were
    appended and synced survive a crash.
  \<^item> One server: \<^verbatim>\<open>LC_RaftConf\<close>, \<^verbatim>\<open>LC_RaftEvolve\<close>, \<^verbatim>\<open>LC_RaftSteps\<close> and \<^verbatim>\<open>LC_RaftOps\<close> show for every
    operation how it may change the state (\<open>evolve\<close>, \<open>hears\<close>, \<open>campaign\<close>), which gives the rules of
    \<^verbatim>\<open>src/Server/RaftConsensusInvariants.cc\<close> about terms, votes, leaders and metadata;
    \<^verbatim>\<open>LC_RaftLog\<close> shows what operations do to the log. \<^verbatim>\<open>LC_RaftProps\<close> states the behaviour of the handlers on
    every branch, commitment, replication and reading from the leader, \<^verbatim>\<open>LC_MembershipProps\<close>
    that of quorums and of the configuration manager, \<^verbatim>\<open>LC_SnapshotProps\<close> that of snapshots.
  \<^item> A cluster (\<^verbatim>\<open>LC_ClusterProps\<close>): a term has at most one leader; votes are cast once per term and survive
    restarts; the assertions of the code that depend on other servers never fail. These hold for runs
    in which one simple configuration is part of all configurations in use, so for a fixed
    membership and for each half of a change by joint consensus.
  \<^item> Transport: whatever pieces the kernel makes of the bytes and whatever threads do in between, messages arrive in order and
    unchanged, and none stays on the queue; requests and answers are understood on the other side; a reply
    is given to the RPC it belongs to, and a dead server is noticed as long as no RPC is canceled.
  \<^item> Services: every request is answered exactly once; the client library understands the answer to a command, which is the state machine's
    response at a committed index; a verified session connects two parties of one cluster; RPCs are started in order.
  \<^item> Client library: canonical paths; the responses a client still needs are kept by the servers; and,
    end to end, a sequence of operations of the library acts on the specification's map of paths.

  \<^bold>\<open>Modelling choices.\<close>

  \<^item> An operation with an \<^verbatim>\<open>assert\<close>, a \<^verbatim>\<open>PANIC\<close> or an exception returns \<open>None\<close> there.
  \<^item> Time and random numbers are inputs: \<open>clock\<close> and \<open>random\<close> give the values of successive readings.
  \<^item> Terms, indexes and counters are natural numbers; where the code relies on or is exposed to
    wrap-around (decrementing an unsigned zero, 64-bit durations, saturating deadlines) it is written out.
  \<^item> The results of \<^verbatim>\<open>recv\<close> and \<^verbatim>\<open>sendmsg\<close> are inputs. An operation that other threads can interrupt is given by its critical
    sections, and a run is a sequence of these in any order.
  \<^item> The cluster that the client library talks to in \<^verbatim>\<open>LC_ClientCluster\<close> answers at once: it applies a command to the state machine and
    returns its response. Waiting for the leader is modelled on its own, by the list of attempts.
  \<^item> The protocol buffer library is a parameter (\<open>ProtoBuf\<close>, \<open>parse\<close>, \<open>serialize\<close>); theorems that need it
    to parse what it wrote assume that for the message at hand.
  \<^item> Loops are structural recursions, apart from the loading of a directory from a
    snapshot, which takes fuel; the fuel that is used, one more than the number of
    messages, is shown to be enough for every dumped tree.
  \<^item> The consensus model runs on the log in memory, which is the reference for the
    interface of logs; the log on disk is shown to behave like it.
  \<^item> On disk, a system call fails for the reasons the program can cause; a descriptor number is used once.
    When the queue of prepared files is empty, the thread that prepares them runs next. The loop
    of \<^verbatim>\<open>truncateSuffix\<close>, which the code does not bound, is a \<open>partial_function\<close>: not returning is \<open>None\<close>. The table of hash
    functions and the encoding of messages are parameters.

  \<^bold>\<open>Not modelled.\<close> The log of one file per entry (\<^verbatim>\<open>src/Storage/SimpleFileLog.cc\<close>), which is for testing; the event loop, resolving addresses and connecting
  sockets, the start-up of the server, and the tools; logging, statistics and debug output, which do not affect the state; errors of
  system calls, which end the process. Of \<^verbatim>\<open>Invariants\<close>, the checks of whole logs and the rule that
  every change is notified. That logs of different servers match, and with it that committed
  entries are never lost in a cluster, is planned on top of \<^verbatim>\<open>LC_RaftLog\<close> and \<^verbatim>\<open>LC_Cluster\<close>.
\<close>

end
